(* ===== verification/Prelude.thy ===== *)
theory Prelude
  imports Complex_Main "HOL-Library.Multiset" "HOL-Library.List_Lexorder" "HOL-Library.Char_ord"
begin

text \<open>
  What every component shares: results with errors (a \<open>throw\<close> is \<open>Inl\<close>), the loops
  \<open>for ... throw\<close> as folds over such results, JavaScript's stable \<open>Array.prototype.sort\<close>
  with a comparator, the string helpers of the source (\<open>trim\<close>, \<open>trimEnd\<close>, decimal
  numerals), and JSON values as \<open>JSON.parse\<close> returns them.

  Strings are lists of \<open>char\<close>: a JavaScript string is a list of UTF-16 code units, and the
  model covers the code units below 256, so \<open>length\<close> and \<open>take\<close> count what
  \<open>.length\<close> and \<open>.slice\<close> count. Timestamps are integers (milliseconds): the code writes
  them with \<open>toISOString\<close>, whose fixed-width text has the order of the numbers.
\<close>

named_theorems error_simps \<open>characterisations of successful runs of fallible code\<close>

section \<open>Results: thrown errors as values\<close>

definition bindE :: "'e + 'a \<Rightarrow> ('a \<Rightarrow> 'e + 'b) \<Rightarrow> 'e + 'b" where
  "bindE m f = (case m of Inl e \<Rightarrow> Inl e | Inr x \<Rightarrow> f x)"

lemma bindE_simps [simp]:
  "bindE (Inl e) f = Inl e"
  "bindE (Inr x) f = f x"
  by (simp_all add: bindE_def)

lemma bindE_eq_Inr [error_simps]: "bindE m f = Inr y \<longleftrightarrow> (\<exists>x. m = Inr x \<and> f x = Inr y)"
  by (cases m) auto

lemma bindE_eq_Inl [error_simps]:
  "bindE m f = Inl e \<longleftrightarrow> m = Inl e \<or> (\<exists>x. m = Inr x \<and> f x = Inl e)"
  by (cases m) auto

text \<open>\<open>if (bad) throw e\<close> as a statement.\<close>

definition throw_if :: "bool \<Rightarrow> 'e \<Rightarrow> 'e + unit" where
  "throw_if bad e = (if bad then Inl e else Inr ())"

lemma throw_if_simps [simp]:
  "throw_if True e = Inl e"
  "throw_if False e = Inr ()"
  by (simp_all add: throw_if_def)

lemma throw_if_eq_Inr [error_simps]: "throw_if bad e = Inr u \<longleftrightarrow> \<not> bad"
  by (simp add: throw_if_def)

lemma throw_if_eq_Inl [error_simps]: "throw_if bad e = Inl e' \<longleftrightarrow> bad \<and> e' = e"
  by (auto simp: throw_if_def)

text \<open>A \<open>for\<close> loop over a list whose body may throw.\<close>

fun foldE :: "('s \<Rightarrow> 'a \<Rightarrow> 'e + 's) \<Rightarrow> 's \<Rightarrow> 'a list \<Rightarrow> 'e + 's" where
  "foldE f s [] = Inr s"
| "foldE f s (x # xs) = bindE (f s x) (\<lambda>s'. foldE f s' xs)"

lemma foldE_invariant:
  assumes "foldE f s xs = Inr t" and "I s"
    and "\<And>s x s'. x \<in> set xs \<Longrightarrow> I s \<Longrightarrow> f s x = Inr s' \<Longrightarrow> I s'"
  shows "I t"
  using assms
proof (induction xs arbitrary: s)
  case Nil
  then show ?case by simp
next
  case (Cons x xs)
  from Cons.prems(1) obtain s' where s': "f s x = Inr s'" "foldE f s' xs = Inr t"
    by (auto simp: error_simps)
  have "I s'"
    using Cons.prems(2,3) s'(1) by (meson list.set_intros(1))
  with s'(2) show ?case
    by (rule Cons.IH) (use Cons.prems(3) in auto)
qed

lemma foldE_append: "foldE f s (xs @ ys) = bindE (foldE f s xs) (\<lambda>s'. foldE f s' ys)"
  by (induction xs arbitrary: s) (auto simp: bindE_def split: sum.splits)

lemma foldE_relation:
  assumes "foldE f s xs = Inr t" and "\<And>s. R s s"
    and "\<And>s u v. R s u \<Longrightarrow> R u v \<Longrightarrow> R s v"
    and "\<And>s x s'. x \<in> set xs \<Longrightarrow> f s x = Inr s' \<Longrightarrow> R s s'"
  shows "R s t"
  by (rule foldE_invariant [where I = "R s", OF assms(1)]) (use assms(2-4) in blast)+

text \<open>\<open>list.map\<close> with a body that may throw.\<close>

fun mapE :: "('a \<Rightarrow> 'e + 'b) \<Rightarrow> 'a list \<Rightarrow> 'e + 'b list" where
  "mapE f [] = Inr []"
| "mapE f (x # xs) = bindE (f x) (\<lambda>y. bindE (mapE f xs) (\<lambda>ys. Inr (y # ys)))"

lemma mapE_eq_Inr: "mapE f xs = Inr ys \<longleftrightarrow> list_all2 (\<lambda>x y. f x = Inr y) xs ys"
proof (induction xs arbitrary: ys)
  case Nil
  then show ?case by auto
next
  case (Cons x xs)
  then show ?case by (cases ys) (auto simp: error_simps)
qed

lemma find_SomeD: "find P xs = Some x \<Longrightarrow> P x \<and> x \<in> set xs"
  by (auto simp: find_Some_iff)

lemma foldE_throw_if: "foldE (\<lambda>_ x. throw_if (P x) (e x)) () xs = Inr u \<longleftrightarrow> (\<forall>x \<in> set xs. \<not> P x)"
  by (induction xs) (auto simp: error_simps)

lemma foldE_unit_eq: "foldE (\<lambda>_ x. f x) () xs = Inr () \<longleftrightarrow> (\<forall>x \<in> set xs. f x = Inr ())"
  by (induction xs) (auto simp: error_simps)

section \<open>Sorting with a comparator\<close>

text \<open>
  \<open>Array.prototype.sort(cmp)\<close> is stable; for a comparator that is a total preorder its result
  is the one that insertion sort computes. A comparator's result is a number whose sign counts.
\<close>

fun insert_cmp :: "('a \<Rightarrow> 'a \<Rightarrow> int) \<Rightarrow> 'a \<Rightarrow> 'a list \<Rightarrow> 'a list" where
  "insert_cmp cmp x [] = [x]"
| "insert_cmp cmp x (y # ys) = (if cmp x y \<le> 0 then x # y # ys else y # insert_cmp cmp x ys)"

definition sort_cmp :: "('a \<Rightarrow> 'a \<Rightarrow> int) \<Rightarrow> 'a list \<Rightarrow> 'a list" where
  "sort_cmp cmp xs = foldr (insert_cmp cmp) xs []"

lemma mset_insert_cmp [simp]: "mset (insert_cmp cmp x ys) = add_mset x (mset ys)"
  by (induction ys) auto

lemma mset_sort_cmp [simp]: "mset (sort_cmp cmp xs) = mset xs"
  by (induction xs) (auto simp: sort_cmp_def)

lemma set_sort_cmp [simp]: "set (sort_cmp cmp xs) = set xs"
  by (metis mset_sort_cmp set_mset_mset)

lemma length_sort_cmp [simp]: "length (sort_cmp cmp xs) = length xs"
  by (metis mset_sort_cmp size_mset)

lemma sort_cmp_Nil [simp]: "sort_cmp cmp [] = []"
  by (simp add: sort_cmp_def)

lemma sort_cmp_eq_Nil [simp]: "sort_cmp cmp xs = [] \<longleftrightarrow> xs = []"
  using length_sort_cmp [of cmp xs] by fastforce

lemma sort_cmp_Cons: "sort_cmp cmp (x # xs) = insert_cmp cmp x (sort_cmp cmp xs)"
  by (simp add: sort_cmp_def)

lemma distinct_sort_cmp [simp]: "distinct (sort_cmp cmp xs) = distinct xs"
  by (rule mset_eq_imp_distinct_iff) simp

text \<open>
  The interface of a comparator: the sign flips when the arguments are exchanged, and "not after"
  is transitive. \<open>then_cmp\<close> is the chain \<open>if (d !== 0) return d; return e;\<close>.
\<close>

definition then_cmp :: "int \<Rightarrow> int \<Rightarrow> int" where
  "then_cmp d e = (if d \<noteq> 0 then d else e)"

definition cmp_str :: "string \<Rightarrow> string \<Rightarrow> int" where
  "cmp_str s t = (if s = t then 0 else if s < t then - 1 else 1)"

locale comparator =
  fixes cmp :: "'a \<Rightarrow> 'a \<Rightarrow> int"
  assumes cmp_sym: "sgn (cmp y x) = - sgn (cmp x y)"
    and cmp_trans: "cmp x y \<le> 0 \<Longrightarrow> cmp y z \<le> 0 \<Longrightarrow> cmp x z \<le> 0"
begin

lemma cmp_flip: "0 \<le> cmp y x \<longleftrightarrow> cmp x y \<le> 0"
  using cmp_sym [of y x] by (auto simp: sgn_if split: if_splits)

lemma cmp_total: "cmp x y \<le> 0 \<or> cmp y x \<le> 0"
  using cmp_flip [of x y] by linarith

lemma cmp_zero: "cmp x y = 0 \<longleftrightarrow> cmp x y \<le> 0 \<and> cmp y x \<le> 0"
  using cmp_flip [of x y] cmp_flip [of y x] by linarith

lemma cmp_trans_less: "cmp x y < 0 \<Longrightarrow> cmp y z \<le> 0 \<Longrightarrow> cmp x z < 0"
  using cmp_trans [of y z x] cmp_flip [of x z] cmp_flip [of x y] by linarith

lemma cmp_trans_less': "cmp x y \<le> 0 \<Longrightarrow> cmp y z < 0 \<Longrightarrow> cmp x z < 0"
  using cmp_trans [of z x y] cmp_flip [of x z] cmp_flip [of y z] by linarith

lemma sorted_insert_cmp:
  "sorted_wrt (\<lambda>x y. cmp x y \<le> 0) ys \<Longrightarrow> sorted_wrt (\<lambda>x y. cmp x y \<le> 0) (insert_cmp cmp x ys)"
proof (induction ys)
  case Nil
  then show ?case by simp
next
  case (Cons y ys)
  have "set (insert_cmp cmp x ys) = insert x (set ys)"
    using mset_insert_cmp by (metis set_mset_mset set_mset_add_mset_insert)
  with Cons show ?case
    by (auto intro: cmp_trans dest: cmp_total [THEN disjE])
      (metis cmp_total)
qed

lemma sorted_sort_cmp: "sorted_wrt (\<lambda>x y. cmp x y \<le> 0) (sort_cmp cmp xs)"
  by (induction xs) (auto simp: sort_cmp_Cons sorted_insert_cmp)

lemma hd_sort_cmp_least: "x \<in> set xs \<Longrightarrow> cmp (hd (sort_cmp cmp xs)) x \<le> 0"
proof -
  assume x: "x \<in> set xs"
  then obtain y ys where ys: "sort_cmp cmp xs = y # ys"
    by (cases "sort_cmp cmp xs") auto
  have "cmp y y \<le> 0" using cmp_total by blast
  then show ?thesis
    using sorted_sort_cmp [of xs] x set_sort_cmp [of cmp xs] unfolding ys by auto
qed

lemma sort_cmp_already: "sorted_wrt (\<lambda>x y. cmp x y \<le> 0) xs \<Longrightarrow> sort_cmp cmp xs = xs"
proof (induction xs)
  case (Cons x xs)
  then show ?case by (cases xs) (auto simp: sort_cmp_Cons)
qed simp

end

text \<open>Comparators are built from keys, by exchanging the arguments, and by chaining.\<close>

lemma comparator_key: "comparator (\<lambda>x y. (f x :: int) - f y)"
  by unfold_locales (auto simp: sgn_if)

lemma comparator_str: "comparator (\<lambda>x y. cmp_str (f x) (f y))"
  by unfold_locales (auto simp: cmp_str_def split: if_splits)

lemma comparator_flip:
  assumes "comparator c"
  shows "comparator (\<lambda>x y. c y x)"
proof
  fix x y
  show "sgn (c x y) = - sgn (c y x)" by (rule comparator.cmp_sym [OF assms])
next
  fix x y z
  assume "c y x \<le> 0" and "c z y \<le> 0"
  then show "c z x \<le> 0" by (rule comparator.cmp_trans [OF assms, rotated])
qed

lemma comparator_then:
  assumes "comparator c" and "comparator d"
  shows "comparator (\<lambda>x y. then_cmp (c x y) (d x y))"
proof -
  show ?thesis
  proof
    fix x y
    show "sgn (then_cmp (c y x) (d y x)) = - sgn (then_cmp (c x y) (d x y))"
      using comparator.cmp_sym [OF assms(1), of y x] comparator.cmp_sym [OF assms(2), of y x]
      by (auto simp: then_cmp_def sgn_if split: if_splits)
  next
    fix x y z
    assume "then_cmp (c x y) (d x y) \<le> 0" and "then_cmp (c y z) (d y z) \<le> 0"
    then show "then_cmp (c x z) (d x z) \<le> 0"
      using comparator.cmp_trans [OF assms(1), of x y z] comparator.cmp_trans [OF assms(2), of x y z] comparator.cmp_trans_less [OF assms(1), of x y z]
        comparator.cmp_trans_less' [OF assms(1), of x y z]
      by (auto simp: then_cmp_def split: if_splits)
  qed
qed

lemmas comparator_intros = comparator_then comparator_key comparator_str
  comparator_flip [OF comparator_str] comparator_flip [OF comparator_key]

section \<open>Positions in a list\<close>

text \<open>\<open>findIndex\<close>, and a list without one position.\<close>

fun index_of :: "('a \<Rightarrow> bool) \<Rightarrow> 'a list \<Rightarrow> nat option" where
  "index_of P [] = None"
| "index_of P (x # xs) = (if P x then Some 0 else map_option Suc (index_of P xs))"

definition remove_at :: "nat \<Rightarrow> 'a list \<Rightarrow> 'a list" where
  "remove_at i xs = take i xs @ drop (Suc i) xs"

lemma index_of_Some:
  "index_of P xs = Some i \<Longrightarrow> i < length xs \<and> P (xs ! i) \<and> (\<forall>j < i. \<not> P (xs ! j))"
proof (induction xs arbitrary: i)
  case (Cons x xs)
  show ?case
  proof (cases "P x")
    case False
    with Cons.prems obtain k where k: "index_of P xs = Some k" "i = Suc k" by auto
    with Cons.IH [OF k(1)] False show ?thesis by (auto simp: nth_Cons split: nat.splits)
  qed (use Cons.prems in auto)
qed simp

lemma index_of_None: "index_of P xs = None \<longleftrightarrow> (\<forall>x \<in> set xs. \<not> P x)"
  by (induction xs) auto

lemma remove_at_mset: "i < length xs \<Longrightarrow> add_mset (xs ! i) (mset (remove_at i xs)) = mset xs"
proof -
  assume "i < length xs"
  then have "mset xs = mset (take i xs @ xs ! i # drop (Suc i) xs)" by (simp add: id_take_nth_drop [symmetric])
  then show ?thesis by (simp add: remove_at_def)
qed

lemma remove_at_set: "set (remove_at i xs) \<subseteq> set xs"
  by (auto simp: remove_at_def dest: in_set_takeD in_set_dropD)

lemma remove_at_ok: "list_all P xs \<Longrightarrow> list_all P (remove_at i xs)"
  using remove_at_set [of i xs] by (auto simp: list_all_iff)

lemma index_of_split:
  "index_of P xs = Some i \<Longrightarrow> xs = take i xs @ xs ! i # drop (Suc i) xs \<and> P (xs ! i) \<and> list_all (\<lambda>x. \<not> P x) (take i xs)"
  using index_of_Some [of P xs i] by (auto simp: id_take_nth_drop [symmetric] list_all_length)

lemma index_of_append: "list_all (\<lambda>x. \<not> P x) xs \<Longrightarrow> P x \<Longrightarrow> index_of P (xs @ x # ys) = Some (length xs)"
  by (induction xs) auto

lemma remove_at_length: "remove_at (length xs) (xs @ x # ys) = xs @ ys"
  by (simp add: remove_at_def)

end
