(* ===== verification/Js_Values.thy ===== *)
theory Js_Values
  imports Prelude
begin

text \<open>
  The JavaScript values the source passes around: JSON as \<open>JSON.parse\<close> returns it
  (numbers are finite rationals or one of the three non-finite values, an object is its list of
  own properties in enumeration order), white space and \<open>trim\<close>, decimal numerals.
\<close>

section \<open>Values\<close>

datatype jsnum = Fin rat | PosInf | NegInf | NaN

datatype json =
    JNull
  | JBool bool
  | JNum jsnum
  | JStr string
  | JArr "json list"
  | JObj "(string \<times> json) list"

type_synonym json_obj = "(string \<times> json) list"

text \<open>\<open>Number.isFinite\<close>, \<open>Number.isInteger\<close>, \<open>Math.round\<close> (ties towards plus infinity),
  \<open>Math.trunc\<close>.\<close>

fun is_finite_num :: "jsnum \<Rightarrow> bool" where
  "is_finite_num (Fin _) = True"
| "is_finite_num _ = False"

definition js_round :: "rat \<Rightarrow> int" where
  "js_round q = \<lfloor>q + 1 / 2\<rfloor>"

definition js_trunc :: "rat \<Rightarrow> int" where
  "js_trunc q = (if q < 0 then \<lceil>q\<rceil> else \<lfloor>q\<rfloor>)"

definition is_integer_rat :: "rat \<Rightarrow> bool" where
  "is_integer_rat q \<longleftrightarrow> of_int \<lfloor>q\<rfloor> = q"

lemma js_round_of_int [simp]: "js_round (of_int n) = n"
  by (simp add: js_round_def floor_eq_iff)

lemma js_trunc_of_int [simp]: "js_trunc (of_int n) = n"
  by (simp add: js_trunc_def)

lemma js_trunc_nonneg: "0 \<le> q \<Longrightarrow> 0 \<le> js_trunc q"
  by (simp add: js_trunc_def)

lemma is_integer_rat_of_int [simp]: "is_integer_rat (of_int n)"
  by (simp add: is_integer_rat_def)

text \<open>A string field of an object, its keys.\<close>

definition obj_keys :: "json_obj \<Rightarrow> string list" where
  "obj_keys raw = map fst raw"

definition has_key :: "json_obj \<Rightarrow> string \<Rightarrow> bool" where
  "has_key raw k \<longleftrightarrow> k \<in> set (map fst raw)"

lemma has_key_map_of: "has_key raw k \<longleftrightarrow> map_of raw k \<noteq> None"
  by (simp add: has_key_def map_of_eq_None_iff)

text \<open>\<open>{...a, ...b}\<close>: a key of \<open>b\<close> replaces the value in place, or is appended.\<close>

fun obj_put :: "json_obj \<Rightarrow> string \<times> json \<Rightarrow> json_obj" where
  "obj_put [] kv = [kv]"
| "obj_put (kv' # kvs) kv = (if fst kv' = fst kv then kv # kvs else kv' # obj_put kvs kv)"

definition obj_merge :: "json_obj \<Rightarrow> json_obj \<Rightarrow> json_obj" where
  "obj_merge a b = foldl obj_put a b"

lemma obj_put_keys: "set (map fst (obj_put a kv)) = insert (fst kv) (set (map fst a))"
  by (induction a kv rule: obj_put.induct) auto

lemma obj_put_distinct: "distinct (map fst a) \<Longrightarrow> distinct (map fst (obj_put a kv))"
proof (induction a kv rule: obj_put.induct)
  case (1 kv)
  then show ?case by simp
next
  case (2 kv' kvs kv)
  have "fst ` set (obj_put kvs kv) = insert (fst kv) (fst ` set kvs)"
    using obj_put_keys [of kvs kv] by simp
  with 2 show ?case by (force simp: image_iff)
qed

lemma obj_put_new: "fst kv \<notin> set (map fst a) \<Longrightarrow> obj_put a kv = a @ [kv]"
  by (induction a kv rule: obj_put.induct) auto

lemma obj_merge_distinct: "distinct (map fst a) \<Longrightarrow> distinct (map fst (obj_merge a b))"
  unfolding obj_merge_def by (induction b arbitrary: a) (auto simp: obj_put_distinct)

lemma obj_merge_disjoint:
  "distinct (map fst (a @ b)) \<Longrightarrow> obj_merge a b = a @ b"
  unfolding obj_merge_def
proof (induction b arbitrary: a)
  case Nil
  then show ?case by simp
next
  case (Cons kv b)
  then have "obj_put a kv = a @ [kv]" by (intro obj_put_new) auto
  with Cons show ?case by auto
qed

lemma obj_merge_Nil: "distinct (map fst b) \<Longrightarrow> obj_merge [] b = b"
  using obj_merge_disjoint [of "[]" b] by simp

lemma map_of_obj_put: "map_of (obj_put a (k, v)) k' = (if k' = k then Some v else map_of a k')"
  by (induction a "(k, v)" rule: obj_put.induct) auto

lemma map_of_obj_merge:
  "distinct (map fst b) \<Longrightarrow> map_of (obj_merge a b) k = (case map_of b k of None \<Rightarrow> map_of a k | Some v \<Rightarrow> Some v)"
  unfolding obj_merge_def
proof (induction b arbitrary: a)
  case (Cons kv b)
  then show ?case
    by (cases kv) (auto simp: map_of_obj_put map_of_eq_None_iff [symmetric] split: option.splits)
qed simp

section \<open>Strings\<close>

text \<open>White space and line terminators of ECMAScript, among the code units below 256.\<close>

definition js_ws :: "char \<Rightarrow> bool" where
  "js_ws c \<longleftrightarrow> (of_char c :: nat) \<in> {9, 10, 11, 12, 13, 32, 160}"

definition to_lower :: "string \<Rightarrow> string" where
  "to_lower = map (\<lambda>c. let n = (of_char c :: nat) in
     if 65 \<le> n \<and> n \<le> 90 \<or> 192 \<le> n \<and> n \<le> 222 \<and> n \<noteq> 215 then char_of (n + 32) else c)"

definition js_trim_start :: "string \<Rightarrow> string" where
  "js_trim_start s = dropWhile js_ws s"

definition js_trim_end :: "string \<Rightarrow> string" where
  "js_trim_end s = rev (dropWhile js_ws (rev s))"

definition js_trim :: "string \<Rightarrow> string" where
  "js_trim s = js_trim_end (js_trim_start s)"

lemma js_trim_Nil [simp]: "js_trim [] = []"
  by (simp add: js_trim_def js_trim_end_def js_trim_start_def)

lemma length_js_trim_end: "length (js_trim_end s) \<le> length s"
  using length_dropWhile_le [of js_ws "rev s"] by (simp add: js_trim_end_def)

lemma js_trim_end_prefix: "\<exists>t. s = js_trim_end s @ t \<and> list_all js_ws t"
proof -
  have "rev s = takeWhile js_ws (rev s) @ dropWhile js_ws (rev s)" by simp
  then have "s = js_trim_end s @ rev (takeWhile js_ws (rev s))"
    by (metis js_trim_end_def rev_append rev_rev_ident)
  moreover have "list_all js_ws (rev (takeWhile js_ws (rev s)))"
    by (auto simp: list_all_iff dest: set_takeWhileD)
  ultimately show ?thesis by blast
qed

lemma last_js_trim_end: "js_trim_end s \<noteq> [] \<Longrightarrow> \<not> js_ws (last (js_trim_end s))"
  by (simp add: js_trim_end_def last_rev hd_dropWhile)

lemma js_trim_end_id: "s = [] \<or> \<not> js_ws (last s) \<Longrightarrow> js_trim_end s = s"
  by (cases s rule: rev_cases) (auto simp: js_trim_end_def)

lemma js_trim_end_idem [simp]: "js_trim_end (js_trim_end s) = js_trim_end s"
  by (rule js_trim_end_id) (use last_js_trim_end in blast)

lemma hd_js_trim_end: "js_trim_end s \<noteq> [] \<Longrightarrow> hd (js_trim_end s) = hd s"
  using js_trim_end_prefix [of s] by (metis hd_append2)

lemma js_trim_start_id: "s = [] \<or> \<not> js_ws (hd s) \<Longrightarrow> js_trim_start s = s"
  by (cases s) (auto simp: js_trim_start_def)

lemma hd_js_trim: "js_trim s \<noteq> [] \<Longrightarrow> \<not> js_ws (hd (js_trim s))"
proof -
  assume ne: "js_trim s \<noteq> []"
  then have "hd (js_trim s) = hd (js_trim_start s)"
    unfolding js_trim_def by (rule hd_js_trim_end)
  moreover from ne have "js_trim_start s \<noteq> []"
    by (auto simp: js_trim_def js_trim_end_def)
  ultimately show ?thesis
    by (simp add: js_trim_start_def hd_dropWhile)
qed

lemma last_js_trim: "js_trim s \<noteq> [] \<Longrightarrow> \<not> js_ws (last (js_trim s))"
  unfolding js_trim_def by (rule last_js_trim_end)

text \<open>A string with no white space at either end is its own \<open>trim\<close>.\<close>

lemma js_trim_id:
  assumes "s = [] \<or> \<not> js_ws (hd s)" and "s = [] \<or> \<not> js_ws (last s)"
  shows "js_trim s = s"
  using assms by (simp add: js_trim_def js_trim_start_id js_trim_end_id)

lemma js_trim_idem [simp]: "js_trim (js_trim s) = js_trim s"
  by (rule js_trim_id) (use hd_js_trim last_js_trim in blast)+

section \<open>Decimal numerals\<close>

fun nat_str :: "nat \<Rightarrow> string" where
  "nat_str n = (if n < 10 then [char_of (48 + n)] else nat_str (n div 10) @ [char_of (48 + n mod 10)])"

declare nat_str.simps [simp del]

definition str_nat :: "string \<Rightarrow> nat" where
  "str_nat s = foldl (\<lambda>a c. a * 10 + (of_char c - 48)) 0 s"

lemma str_nat_nat_str [simp]: "str_nat (nat_str n) = n"
proof (induction n rule: nat_str.induct)
  case (1 n)
  show ?case
  proof (cases "n < 10")
    case True
    then show ?thesis
      by (subst nat_str.simps) (simp add: str_nat_def)
  next
    case False
    with 1 have "str_nat (nat_str (n div 10)) = n div 10" by simp
    moreover have "48 + n mod 10 < 256" by (simp add: less_imp_le_nat [THEN le_less_trans])
    ultimately show ?thesis
      using False by (subst nat_str.simps) (simp add: str_nat_def)
  qed
qed

lemma inj_nat_str: "nat_str m = nat_str n \<Longrightarrow> m = n"
  by (metis str_nat_nat_str)

lemma nat_str_digits: "c \<in> set (nat_str n) \<Longrightarrow> 48 \<le> (of_char c :: nat) \<and> (of_char c :: nat) \<le> 57"
proof (induction n rule: nat_str.induct)
  case (1 n)
  have m: "n mod 10 < 10" by simp
  show ?case
  proof (cases "n < 10")
    case True
    with "1.prems" show ?thesis
      by (simp add: nat_str.simps [of n])
  next
    case False
    with "1.prems" have "c \<in> set (nat_str (n div 10)) \<or> c = char_of (48 + n mod 10)"
 by (auto simp: nat_str.simps [of n])
    with "1.IH" False m show ?thesis
      by (elim disjE) (simp_all)
  qed
qed

lemma nat_str_nonempty [simp]: "nat_str n \<noteq> []"
  by (subst nat_str.simps) simp

section \<open>Texts of values\<close>

fun join_with :: "string \<Rightarrow> string list \<Rightarrow> string" where
  "join_with sep [] = []"
| "join_with sep [s] = s"
| "join_with sep (s # t # ts) = s @ sep @ join_with sep (t # ts)"

text \<open>\<open>JSON.stringify\<close>; numbers are printed by the argument.\<close>

definition hex_digit :: "nat \<Rightarrow> char" where
  "hex_digit n = ''0123456789abcdef'' ! n"

definition json_char :: "char \<Rightarrow> string" where
  "json_char c = (let n = (of_char c :: nat) in
     if n = 34 then [CHR 92, CHR 34] else if n = 92 then [CHR 92, CHR 92]
     else if n = 8 then [CHR 92, CHR ''b''] else if n = 9 then [CHR 92, CHR ''t'']
     else if n = 10 then [CHR 92, CHR ''n''] else if n = 12 then [CHR 92, CHR ''f'']
     else if n = 13 then [CHR 92, CHR ''r'']
     else if n < 32 then CHR 92 # ''u00'' @ [hex_digit (n div 16), hex_digit (n mod 16)]
     else [c])"

definition json_quote :: "string \<Rightarrow> string" where
  "json_quote s = CHR 34 # concat (map json_char s) @ [CHR 34]"

fun json_stringify :: "(jsnum \<Rightarrow> string) \<Rightarrow> json \<Rightarrow> string" where
  "json_stringify nt JNull = ''null''"
| "json_stringify nt (JBool b) = (if b then ''true'' else ''false'')"
| "json_stringify nt (JNum n) = (if is_finite_num n then nt n else ''null'')"
| "json_stringify nt (JStr s) = json_quote s"
| "json_stringify nt (JArr xs) = ''['' @ join_with '','' (map (json_stringify nt) xs) @ '']''"
| "json_stringify nt (JObj kvs) =
     ''{'' @ join_with '','' (map (\<lambda>kv. json_quote (fst kv) @ '':'' @ json_stringify nt (snd kv)) kvs) @ ''}''"

text \<open>\<open>String(v)\<close>\<close>

fun json_text :: "(jsnum \<Rightarrow> string) \<Rightarrow> json \<Rightarrow> string" where
  "json_text nt JNull = ''null''"
| "json_text nt (JBool b) = (if b then ''true'' else ''false'')"
| "json_text nt (JNum n) = nt n"
| "json_text nt (JStr s) = s"
| "json_text nt (JArr xs) = join_with '','' (map (\<lambda>x. if x = JNull then [] else json_text nt x) xs)"
| "json_text nt (JObj kvs) = ''[object Object]''"

section \<open>Reading values\<close>

text \<open>\<open>v?.k\<close> on an object, \<open>Boolean(v)\<close>.\<close>

definition json_field :: "string \<Rightarrow> json option \<Rightarrow> json option" where
  "json_field k v = (case v of Some (JObj o') \<Rightarrow> map_of o' k | _ \<Rightarrow> None)"

text \<open>\<open>a ?? b\<close>, and \<open>String(v ?? default)\<close>.\<close>

definition nullish :: "json option \<Rightarrow> json option \<Rightarrow> json option" where
  "nullish a b = (case a of None \<Rightarrow> b | Some JNull \<Rightarrow> b | _ \<Rightarrow> a)"

definition text_or :: "(jsnum \<Rightarrow> string) \<Rightarrow> json option \<Rightarrow> string \<Rightarrow> string" where
  "text_or nt v d = (case nullish v None of None \<Rightarrow> d | Some v \<Rightarrow> json_text nt v)"

definition js_truthy :: "json option \<Rightarrow> bool" where
  "js_truthy v = (case v of
     None \<Rightarrow> False
   | Some JNull \<Rightarrow> False
   | Some (JBool b) \<Rightarrow> b
   | Some (JNum n) \<Rightarrow> n \<noteq> NaN \<and> n \<noteq> Fin 0
   | Some (JStr s) \<Rightarrow> s \<noteq> []
   | Some _ \<Rightarrow> True)"

text \<open>\<open>{...v}\<close>\<close>

definition spread :: "json \<Rightarrow> json_obj" where
  "spread v = (case v of
     JObj o' \<Rightarrow> o'
   | JArr vs \<Rightarrow> map (\<lambda>(v, i). (nat_str i, v)) (zip vs [0..<length vs])
   | JStr s \<Rightarrow> map (\<lambda>(c, i). (nat_str i, JStr [c])) (zip s [0..<length s])
   | _ \<Rightarrow> [])"

end
