(* ===== verification/Dag_Types.thy ===== *)
theory Dag_Types
  imports Js_Values
begin

text \<open>
  The data of the session DAG (\<open>session-dag/types.ts\<close>, \<open>importance.ts\<close>): node kinds,
  statuses, edge types, the rows of the three tables, the patch operations of the builder, and
  the importance rules.
\<close>

section \<open>Enumerations\<close>

datatype node_kind = KTask | KSubtask | KDecision

datatype node_status = SActive | SDone | SFailed | SBlocked | SFrozen

datatype edge_type = Decomposes | Continues | Blocks | Supersedes | SideBranch

datatype build_mode = LlmPatch | DeterministicFallback

datatype write_source = ByLlmPatch | ByFallback | ByRepair

datatype turn_status = TPending | TRunning | TRetry | TDone | TBlocked

datatype ref_type = RFile | RArtifact | RUrl

datatype goal_status = GActive | GPaused | GBlocked | GUsageLimited | GBudgetLimited | GCompleted

text \<open>The string of each value, and the test \<open>values.includes(value)\<close> on input.\<close>

definition parse_kind :: "string \<Rightarrow> node_kind option" where
  "parse_kind = map_of [(''task'', KTask), (''subtask'', KSubtask), (''decision'', KDecision)]"

definition parse_status :: "string \<Rightarrow> node_status option" where
  "parse_status = map_of [(''active'', SActive), (''done'', SDone), (''failed'', SFailed),
     (''blocked'', SBlocked), (''frozen'', SFrozen)]"

definition parse_edge_type :: "string \<Rightarrow> edge_type option" where
  "parse_edge_type = map_of [(''decomposes'', Decomposes), (''continues'', Continues),
     (''blocks'', Blocks), (''supersedes'', Supersedes), (''side_branch'', SideBranch)]"

definition parse_ref_type :: "string \<Rightarrow> ref_type option" where
  "parse_ref_type = map_of [(''file'', RFile), (''artifact'', RArtifact), (''url'', RUrl)]"

fun ref_type_str :: "ref_type \<Rightarrow> string" where
  "ref_type_str RFile = ''file''"
| "ref_type_str RArtifact = ''artifact''"
| "ref_type_str RUrl = ''url''"

lemma parse_ref_type_str [simp]: "parse_ref_type (ref_type_str t) = Some t"
  by (cases t) (simp_all add: parse_ref_type_def)

section \<open>Rows\<close>

record source_ref =
  sr_type :: ref_type
  sr_title :: string
  sr_turn_id :: "string option"
  sr_path :: "string option"
  sr_line :: "int option"
  sr_artifact_path :: "string option"
  sr_url :: "string option"

record goal_ctx =
  gc_goal_id :: string
  gc_objective :: string
  gc_status :: goal_status

record dag_node =
  n_id :: string
  n_session_key :: string
  n_kind :: node_kind
  n_status :: node_status
  n_title :: string
  n_summary :: string
  n_detail :: json_obj
  n_importance :: int
  n_created_turn :: "string option"
  n_updated_turn :: "string option"
  n_first_msg :: int
  n_last_msg :: int
  n_refs :: "source_ref list"
  n_created_by :: write_source
  n_updated_by :: write_source
  n_created_at :: int
  n_updated_at :: int
  n_goal_id :: "string option"

record dag_edge =
  e_id :: string
  e_source :: string
  e_target :: string
  e_type :: edge_type
  e_created_turn :: "string option"
  e_created_by :: write_source
  e_created_at :: int

record dag_path =
  p_nodes :: "string list"
  p_edges :: "string list"

record dag_turn =
  t_id :: string
  t_start :: int
  t_end :: int
  t_user_text :: string
  t_assistant_text :: string
  t_created_at :: int
  t_updated_at :: int
  t_status :: turn_status
  t_build_mode :: "build_mode option"
  t_attempts :: nat
  t_running_at :: "int option"
  t_next_retry :: "int option"
  t_last_error :: "string option"
  t_processed_at :: "int option"
  t_goal_id :: "string option"
  t_goal_objective :: "string option"
  t_goal_status :: "goal_status option"

record turn_input =
  ti_id :: string
  ti_start :: int
  ti_end :: int
  ti_user_text :: "string option"
  ti_assistant_text :: "string option"
  ti_goal :: "goal_ctx option"

record dag_graph =
  gr_session_key :: string
  gr_nodes :: "dag_node list"
  gr_edges :: "dag_edge list"
  gr_path_nodes :: "string list"
  gr_path_edges :: "string list"
  gr_snapshot_text :: string

text \<open>What the builder is shown: a projection of a node, and the selected subgraph.\<close>

record ctx_node =
  c_id :: string
  c_kind :: node_kind
  c_status :: node_status
  c_title :: string
  c_summary :: string
  c_importance :: int
  c_created_by :: write_source
  c_updated_by :: write_source
  c_refs :: "source_ref list"
  c_updated_turn :: "string option"
  c_first_msg :: int
  c_last_msg :: int
  c_goal_id :: "string option"

record ctx_edge =
  ce_source :: string
  ce_target :: string
  ce_type :: edge_type

record dag_context =
  dc_root :: "string option"
  dc_nodes :: "ctx_node list"
  dc_edges :: "ctx_edge list"
  dc_path :: "string list"
  dc_path_edges :: "(string \<times> ctx_edge) list"

section \<open>Patch operations\<close>

record add_node_op =
  a_temp_id :: string
  a_kind :: node_kind
  a_status :: node_status
  a_title :: string
  a_summary :: string
  a_importance :: int
  a_detail :: "json_obj option"
  a_refs :: "source_ref list option"

record update_node_op =
  u_node_id :: string
  u_title :: "string option"
  u_summary :: "string option"
  u_status :: "node_status option"
  u_importance :: "int option"
  u_detail :: "json_obj option"
  u_refs :: "source_ref list option"

record add_edge_op =
  ae_source :: string
  ae_target :: string
  ae_type :: edge_type

datatype patch_op = AddNode add_node_op | UpdateNode update_node_op | AddEdge add_edge_op

definition added_nodes :: "patch_op list \<Rightarrow> add_node_op list" where
  "added_nodes ops = List.map_filter (\<lambda>op. case op of AddNode a \<Rightarrow> Some a | _ \<Rightarrow> None) ops"

definition node_updates :: "patch_op list \<Rightarrow> update_node_op list" where
  "node_updates ops = List.map_filter (\<lambda>op. case op of UpdateNode u \<Rightarrow> Some u | _ \<Rightarrow> None) ops"

definition added_edges :: "patch_op list \<Rightarrow> add_edge_op list" where
  "added_edges ops = List.map_filter (\<lambda>op. case op of AddEdge e \<Rightarrow> Some e | _ \<Rightarrow> None) ops"

lemma op_projections_simps [simp]:
  "added_nodes [] = []" "node_updates [] = []" "added_edges [] = []"
  "added_nodes (AddNode a # ops) = a # added_nodes ops"
  "added_nodes (UpdateNode u # ops) = added_nodes ops"
  "added_nodes (AddEdge e # ops) = added_nodes ops"
  "node_updates (AddNode a # ops) = node_updates ops"
  "node_updates (UpdateNode u # ops) = u # node_updates ops"
  "node_updates (AddEdge e # ops) = node_updates ops"
  "added_edges (AddNode a # ops) = added_edges ops"
  "added_edges (UpdateNode u # ops) = added_edges ops"
  "added_edges (AddEdge e # ops) = e # added_edges ops"
  by (simp_all add: added_nodes_def node_updates_def added_edges_def map_filter_simps)

lemma op_projections_append [simp]:
  "added_nodes (xs @ ys) = added_nodes xs @ added_nodes ys"
  "node_updates (xs @ ys) = node_updates xs @ node_updates ys"
  "added_edges (xs @ ys) = added_edges xs @ added_edges ys"
  by (simp_all add: added_nodes_def node_updates_def added_edges_def map_filter_def)

lemma patch_ops_induct [case_names Nil AddNode UpdateNode AddEdge]:
  assumes "P []"
    and "\<And>a ops. P ops \<Longrightarrow> P (AddNode a # ops)"
    and "\<And>u ops. P ops \<Longrightarrow> P (UpdateNode u # ops)"
    and "\<And>e ops. P ops \<Longrightarrow> P (AddEdge e # ops)"
  shows "P ops"
proof (induction ops)
  case Nil
  show ?case by (rule assms(1))
next
  case (Cons op ops)
  then show ?case by (cases op) (auto intro: assms(2-4))
qed

lemma in_added_nodes [simp]: "a \<in> set (added_nodes ops) \<longleftrightarrow> AddNode a \<in> set ops"
  by (induction ops rule: patch_ops_induct) auto

lemma in_added_edges [simp]: "e \<in> set (added_edges ops) \<longleftrightarrow> AddEdge e \<in> set ops"
  by (induction ops rule: patch_ops_induct) auto

lemma in_node_updates [simp]: "u \<in> set (node_updates ops) \<longleftrightarrow> UpdateNode u \<in> set ops"
  by (induction ops rule: patch_ops_induct) auto

section \<open>Importance\<close>

definition normalize_importance :: "json option \<Rightarrow> int option" where
  "normalize_importance v =
     (case v of
        Some (JNum (Fin q)) \<Rightarrow>
          (let rounded = js_round q in if rounded < 0 \<or> rounded > 100 then None else Some rounded)
      | _ \<Rightarrow> None)"

definition fallback_importance :: "node_kind \<Rightarrow> node_status \<Rightarrow> int" where
  "fallback_importance kind status =
     (if kind = KTask then (if status = SDone then 70 else 80)
      else if status = SBlocked then 65
      else if status = SFailed \<or> status = SFrozen then 50
      else 50)"

lemma normalize_importance_range: "normalize_importance v = Some i \<Longrightarrow> 0 \<le> i \<and> i \<le> 100"
  by (auto simp: normalize_importance_def Let_def split: option.splits json.splits jsnum.splits if_splits)

lemma normalize_importance_int:
  "normalize_importance (Some (JNum (Fin (of_int i)))) = (if 0 \<le> i \<and> i \<le> 100 then Some i else None)"
  by (auto simp: normalize_importance_def)

lemma fallback_importance_range: "0 \<le> fallback_importance k s \<and> fallback_importance k s \<le> 100"
  by (simp add: fallback_importance_def)

end
