(* ===== verification/Dag_Patch.thy ===== *)
theory Dag_Patch
  imports Dag_Types
begin

text \<open>
  \<open>session-dag/patch-schema.ts\<close>: the validation of a patch that a language model returned
  (an arbitrary JSON value), and the normalisation of a task switch. Every \<open>throw\<close> of the file
  is a constructor of \<open>patch_error\<close>.
\<close>

datatype patch_error =
    PatchNotObject
  | UnsupportedTopLevel string
  | OpsNotArray
  | OpNotObject nat
  | DuplicateTempId nat
  | UpdateOfTempId nat string
  | OutsideContext nat
  | UnsupportedOp nat
  | AddTaskStatus nat
  | ImportanceRange nat
  | TaskSourceRefs
  | NoUpdates nat
  | SelfEdge nat
  | SourceUnknown nat
  | TargetUnknown nat
  | SideBranchSource nat
  | SideBranchTarget nat
  | AtMostOneTask
  | NotConnected string node_kind
  | UnsupportedField nat string
  | FieldEmpty nat string
  | TempIdMustBe nat string
  | FieldInvalid nat string
  | SideBranchNotGoalTask
  | GoalSecondTask
  | UnfinishedGoalCloses
  | CompletedGoalNotDone
  | RootNotTask
  | TransitionNotDirect
  | TransitionEdgeType
  | TransitionManyEdges
  | RootStatusConflict
  | RootNotClosed
  | StatusEdgeConflict node_status edge_type
  | StatusNotTerminal node_status

section \<open>Field readers\<close>

fun is_json_value :: "json \<Rightarrow> bool" where
  "is_json_value JNull = True"
| "is_json_value (JBool _) = True"
| "is_json_value (JStr _) = True"
| "is_json_value (JNum n) = is_finite_num n"
| "is_json_value (JArr xs) = list_all is_json_value xs"
| "is_json_value (JObj kvs) = list_all (\<lambda>kv. is_json_value (snd kv)) kvs"

definition string_field :: "json_obj \<Rightarrow> string \<Rightarrow> string option" where
  "string_field raw field = (case map_of raw field of Some (JStr s) \<Rightarrow> Some s | _ \<Rightarrow> None)"

definition string_or_null :: "json option \<Rightarrow> string option" where
  "string_or_null v =
     (case v of Some (JStr s) \<Rightarrow> (if js_trim s = [] then None else Some (js_trim s)) | _ \<Rightarrow> None)"

definition bounded_string :: "json option \<Rightarrow> nat \<Rightarrow> string option" where
  "bounded_string v max_length =
     (case v of
        Some (JStr s) \<Rightarrow>
          (let trimmed = js_trim s in
           if trimmed = [] then None
           else if length trimmed > max_length then Some (js_trim_end (take max_length trimmed))
           else Some trimmed)
      | _ \<Rightarrow> None)"

definition required_bounded_string ::
  "json option \<Rightarrow> string \<Rightarrow> nat \<Rightarrow> nat \<Rightarrow> patch_error + string" where
  "required_bounded_string v field index max_length =
     (case bounded_string v max_length of
        None \<Rightarrow> Inl (FieldEmpty index field)
      | Some out \<Rightarrow> if out = [] then Inl (FieldEmpty index field) else Inr out)"

definition is_digit :: "char \<Rightarrow> bool" where
  "is_digit c \<longleftrightarrow> 48 \<le> (of_char c :: nat) \<and> (of_char c :: nat) \<le> 57"

text \<open>\<open>/^n(?:0|[1-9]\d*)$/\<close>\<close>

definition temp_id_pattern :: "string \<Rightarrow> bool" where
  "temp_id_pattern s =
     (case s of
        c # rest \<Rightarrow> c = CHR ''n'' \<and>
          (rest = ''0'' \<or>
           (case rest of d # ds \<Rightarrow> is_digit d \<and> d \<noteq> CHR ''0'' \<and> list_all is_digit ds | [] \<Rightarrow> False))
      | [] \<Rightarrow> False)"

definition required_temp_id :: "json option \<Rightarrow> nat \<Rightarrow> string \<Rightarrow> patch_error + string" where
  "required_temp_id v index expected =
     bindE (required_bounded_string v ''temp_id'' index 80) (\<lambda>out.
       if \<not> temp_id_pattern out \<or> out \<noteq> expected then Inl (TempIdMustBe index expected) else Inr out)"

definition integer_or_null :: "json option \<Rightarrow> int option" where
  "integer_or_null v =
     (case v of Some (JNum (Fin q)) \<Rightarrow> (if is_integer_rat q then Some \<lfloor>q\<rfloor> else None) | _ \<Rightarrow> None)"

definition enum_field ::
  "json_obj \<Rightarrow> string \<Rightarrow> (string \<Rightarrow> 'a option) \<Rightarrow> nat \<Rightarrow> patch_error + 'a" where
  "enum_field raw field parse index =
     (case map_of raw field of
        Some (JStr s) \<Rightarrow> (case parse s of Some x \<Rightarrow> Inr x | None \<Rightarrow> Inl (FieldInvalid index field))
      | _ \<Rightarrow> Inl (FieldInvalid index field))"

definition reject_unknown_keys :: "json_obj \<Rightarrow> string list \<Rightarrow> nat \<Rightarrow> patch_error + unit" where
  "reject_unknown_keys raw allowed index =
     foldE (\<lambda>_ key. throw_if (key \<notin> set allowed) (UnsupportedField index key)) () (obj_keys raw)"

definition reject_unknown_top_level_keys :: "json_obj \<Rightarrow> patch_error + unit" where
  "reject_unknown_top_level_keys raw =
     foldE (\<lambda>_ key. throw_if (key \<noteq> ''ops'') (UnsupportedTopLevel key)) () (obj_keys raw)"

section \<open>Details and source references\<close>

fun detail_keys :: "node_kind \<Rightarrow> string list" where
  "detail_keys KTask = [''scope'', ''acceptance'', ''constraints'', ''result'']"
| "detail_keys KSubtask = [''tool'', ''commands'', ''tests'', ''errors'', ''result'']"
| "detail_keys KDecision = [''basis'', ''alternatives'', ''supersedes'']"

definition sanitize_detail_json :: "node_kind \<Rightarrow> json option \<Rightarrow> json_obj" where
  "sanitize_detail_json kind detail =
     (case detail of
        Some (JObj kvs) \<Rightarrow>
          filter (\<lambda>kv. fst kv \<in> set (detail_keys kind) \<and> is_json_value (snd kv)) kvs
      | _ \<Rightarrow> [])"

definition int_str :: "int \<Rightarrow> string" where
  "int_str i = (if i < 0 then CHR ''-'' # nat_str (nat (- i)) else nat_str (nat i))"

text \<open>The key of the deduplication: five fields joined by the NUL character.\<close>

definition opt_str :: "string option \<Rightarrow> string" where
  "opt_str v = (case v of None \<Rightarrow> [] | Some s \<Rightarrow> s)"

definition source_ref_key :: "source_ref \<Rightarrow> string" where
  "source_ref_key ref = join_with [CHR 0x00]
     [ref_type_str (sr_type ref), opt_str (sr_path ref),
      (case sr_line ref of None \<Rightarrow> [] | Some l \<Rightarrow> int_str l),
      opt_str (sr_artifact_path ref), opt_str (sr_url ref)]"

fun dedupe_loop :: "string list \<Rightarrow> source_ref list \<Rightarrow> source_ref list" where
  "dedupe_loop seen [] = []"
| "dedupe_loop seen (ref # refs) =
     (let key = source_ref_key ref in
      if key \<in> set seen then dedupe_loop seen refs else ref # dedupe_loop (key # seen) refs)"

definition dedupe_source_refs :: "source_ref list \<Rightarrow> source_ref list" where
  "dedupe_source_refs refs = dedupe_loop [] refs"

text \<open>One item of the list, or nothing when the loop skips it.\<close>

definition or_else :: "'a option \<Rightarrow> 'a option \<Rightarrow> 'a option" where
  "or_else a b = (case a of None \<Rightarrow> b | Some _ \<Rightarrow> a)"

definition sanitize_source_ref :: "string option \<Rightarrow> json \<Rightarrow> source_ref option" where
  "sanitize_source_ref turn_id item =
     (case item of
        JObj raw \<Rightarrow>
          (case Option.bind (string_or_null (map_of raw ''type'')) parse_ref_type of
             None \<Rightarrow> None
           | Some ty \<Rightarrow>
             (case bounded_string (map_of raw ''title'') 120 of
                None \<Rightarrow> None
              | Some title \<Rightarrow>
                (let explicit = or_else (bounded_string (map_of raw ''turn_id'') 120)
                                        (bounded_string (map_of raw ''turnId'') 120);
                     turn = (if explicit \<noteq> None then explicit
                             else if turn_id = None \<or> turn_id = Some [] then None else turn_id);
                     line = (case integer_or_null (map_of raw ''line'') of
                               Some l \<Rightarrow> (if l > 0 then Some l else None) | None \<Rightarrow> None);
                     ref = \<lparr>sr_type = ty, sr_title = title, sr_turn_id = turn, sr_path = None,
                            sr_line = line, sr_artifact_path = None, sr_url = None\<rparr>
                 in (case ty of
                       RFile \<Rightarrow> map_option (\<lambda>p. ref\<lparr>sr_path := Some p\<rparr>)
                                  (bounded_string (map_of raw ''path'') 1000)
                     | RArtifact \<Rightarrow> map_option (\<lambda>p. ref\<lparr>sr_artifact_path := Some p\<rparr>)
                                  (or_else (bounded_string (map_of raw ''artifact_path'') 1000)
                                           (bounded_string (map_of raw ''artifactPath'') 1000))
                     | RUrl \<Rightarrow> map_option (\<lambda>p. ref\<lparr>sr_url := Some p\<rparr>)
                                  (bounded_string (map_of raw ''url'') 2000)))))
      | _ \<Rightarrow> None)"

definition sanitize_source_refs :: "json option \<Rightarrow> string option \<Rightarrow> source_ref list" where
  "sanitize_source_refs input turn_id =
     (case input of
        Some (JArr items) \<Rightarrow> dedupe_source_refs (List.map_filter (sanitize_source_ref turn_id) items)
      | _ \<Rightarrow> [])"

text \<open>A typed reference seen again as the object it is.\<close>

definition opt_field :: "string \<Rightarrow> ('a \<Rightarrow> json) \<Rightarrow> 'a option \<Rightarrow> json_obj" where
  "opt_field k f v = (case v of None \<Rightarrow> [] | Some x \<Rightarrow> [(k, f x)])"

definition source_ref_json :: "source_ref \<Rightarrow> json" where
  "source_ref_json r = JObj
     ([(''type'', JStr (ref_type_str (sr_type r))), (''title'', JStr (sr_title r))]
      @ opt_field ''turn_id'' JStr (sr_turn_id r)
      @ opt_field ''line'' (\<lambda>l. JNum (Fin (of_int l))) (sr_line r)
      @ opt_field ''path'' JStr (sr_path r)
      @ opt_field ''artifact_path'' JStr (sr_artifact_path r)
      @ opt_field ''url'' JStr (sr_url r))"

definition source_refs_json :: "source_ref list option \<Rightarrow> json option" where
  "source_refs_json refs = map_option (\<lambda>rs. JArr (map source_ref_json rs)) refs"

end
