(* ===== verification/Reach.thy ===== *)
theory Reach
  imports Prelude
begin

text \<open>
  The breadth-first loops of the session DAG (\<open>taskSubgraphNodeIds\<close>,
  \<open>sideBranchSuccessorNodeIds\<close>, the reachability check of \<open>applyPatch\<close> and the recursive SQL
  query of \<open>wouldCreateCycle\<close>) are one worklist over a list of edges. It always stops, and
  visits exactly what the edges reach. Below: what adding an edge does to acyclicity.
\<close>

type_synonym 'a arcs = "('a \<times> 'a) list"

definition succs :: "'a arcs \<Rightarrow> 'a \<Rightarrow> 'a list" where
  "succs es x = map snd (filter (\<lambda>e. fst e = x) es)"

lemma set_succs [simp]: "set (succs es x) = {y. (x, y) \<in> set es}"
  by (force simp: succs_def)

text \<open>
  \<open>while (queue.length) { id = queue.shift(); if (out.has(id)) continue; out.add(id);
  queue.push(...) }\<close>. What gets smaller: the ids that can still be added, then the queue.
\<close>

function bfs :: "'a arcs \<Rightarrow> 'a list \<Rightarrow> 'a list \<Rightarrow> 'a list" where
  "bfs es [] out = out"
| "bfs es (x # queue) out =
     (if x \<in> set out then bfs es queue out else bfs es (queue @ succs es x) (out @ [x]))"
  by pat_completeness auto

definition bfs_rest :: "'a arcs \<Rightarrow> 'a list \<Rightarrow> 'a list \<Rightarrow> 'a set" where
  "bfs_rest es queue out = (set queue \<union> snd ` set es) - set out"

lemma bfs_rest_skip:
  assumes "x \<in> set out"
  shows "bfs_rest es (x # queue) out = bfs_rest es queue out"
  using assms by (auto simp: bfs_rest_def)

lemma bfs_rest_visit:
  assumes "x \<notin> set out"
  shows "card (bfs_rest es (queue @ succs es x) (out @ [x])) < card (bfs_rest es (x # queue) out)"
proof (rule psubset_card_mono)
  show "finite (bfs_rest es (x # queue) out)" by (simp add: bfs_rest_def)
  have "bfs_rest es (queue @ succs es x) (out @ [x]) \<subseteq> bfs_rest es (x # queue) out"
    by (force simp: bfs_rest_def)
  moreover have "x \<in> bfs_rest es (x # queue) out"
    and "x \<notin> bfs_rest es (queue @ succs es x) (out @ [x])"
    using assms by (auto simp: bfs_rest_def)
  ultimately show "bfs_rest es (queue @ succs es x) (out @ [x]) \<subset> bfs_rest es (x # queue) out"
    by blast
qed

termination bfs
  by (relation "measures [\<lambda>(es, queue, out). card (bfs_rest es queue out), \<lambda>(es, queue, out). length queue]")
    (auto simp: bfs_rest_visit bfs_rest_skip)

text \<open>The visited ids: those of \<open>out\<close>, and all that the queue reaches.\<close>

lemma bfs_mono: "set out \<subseteq> set (bfs es queue out)"
  by (induction es queue out rule: bfs.induct) auto

lemma bfs_queue: "set queue \<subseteq> set (bfs es queue out)"
proof (induction es queue out rule: bfs.induct)
  case (1 es out)
  then show ?case by simp
next
  case (2 es x queue out)
  show ?case
  proof (cases "x \<in> set out")
    case True
    with 2(1) bfs_mono [of out es queue] show ?thesis by auto
  next
    case False
    with 2(2) bfs_mono [of "out @ [x]" es "queue @ succs es x"] show ?thesis by auto
  qed
qed

lemma bfs_closed:
  assumes "\<And>x y. x \<in> set out \<Longrightarrow> (x, y) \<in> set es \<Longrightarrow> y \<in> set out \<union> set queue"
    and "x \<in> set (bfs es queue out)" and "(x, y) \<in> set es"
  shows "y \<in> set (bfs es queue out)"
  using assms
proof (induction es queue out rule: bfs.induct)
  case (1 es out)
  then show ?case by auto
next
  case (2 es z queue out)
  show ?case
  proof (cases "z \<in> set out")
    case True
    have "\<And>x y. x \<in> set out \<Longrightarrow> (x, y) \<in> set es \<Longrightarrow> y \<in> set out \<union> set queue"
      using "2.prems"(1) True by fastforce
    then show ?thesis
      using "2.IH"(1) [OF True] "2.prems"(2,3) True by simp
  next
    case False
    have "\<And>x y. x \<in> set (out @ [z]) \<Longrightarrow> (x, y) \<in> set es \<Longrightarrow>
        y \<in> set (out @ [z]) \<union> set (queue @ succs es z)"
      using "2.prems"(1) by fastforce
    then show ?thesis
      using "2.IH"(2) [OF False] "2.prems"(2,3) False by simp
  qed
qed

lemma bfs_sound:
  "x \<in> set (bfs es queue out) \<Longrightarrow> x \<in> set out \<or> (\<exists>q \<in> set queue. (q, x) \<in> (set es)\<^sup>*)"
proof (induction es queue out rule: bfs.induct)
  case (1 es out)
  then show ?case by simp
next
  case (2 es z queue out)
  show ?case
  proof (cases "z \<in> set out")
    case True
    with 2 show ?thesis by auto
  next
    case False
    with 2 have "x \<in> set (out @ [z]) \<or> (\<exists>q \<in> set (queue @ succs es z). (q, x) \<in> (set es)\<^sup>*)"
      by simp
    then show ?thesis
      by (auto intro: converse_rtrancl_into_rtrancl)
  qed
qed

theorem set_bfs: "set (bfs es queue []) = {x. \<exists>q \<in> set queue. (q, x) \<in> (set es)\<^sup>*}"
proof (rule set_eqI, rule iffI)
  fix x assume "x \<in> set (bfs es queue [])"
  then show "x \<in> {x. \<exists>q \<in> set queue. (q, x) \<in> (set es)\<^sup>*}"
    using bfs_sound [of x es queue "[]"] by simp
next
  fix x assume "x \<in> {x. \<exists>q \<in> set queue. (q, x) \<in> (set es)\<^sup>*}"
  then obtain q where q: "q \<in> set queue" and path: "(q, x) \<in> (set es)\<^sup>*" by blast
  from path show "x \<in> set (bfs es queue [])"
  proof (induction rule: rtrancl_induct)
    case base
    with q bfs_queue show ?case by fast
  next
    case (step y z)
    show ?case
      by (rule bfs_closed [OF _ step.IH step.hyps(2)]) simp
  qed
qed

lemma distinct_bfs: "distinct out \<Longrightarrow> distinct (bfs es queue out)"
  by (induction es queue out rule: bfs.induct) auto

declare bfs.simps [simp del]

section \<open>Acyclicity\<close>

text \<open>The recursive query: the nodes reached from \<open>x\<close> by one edge or more.\<close>

definition reach_plus :: "'a arcs \<Rightarrow> 'a \<Rightarrow> 'a list" where
  "reach_plus es x = bfs es (succs es x) []"

lemma set_reach_plus: "set (reach_plus es x) = {y. (x, y) \<in> (set es)\<^sup>+}"
  by (auto simp: reach_plus_def set_bfs dest: tranclD intro: rtrancl_into_trancl2)

lemma acyclic_insert_arc:
  assumes "acyclic r" and "x \<noteq> y" and "(y, x) \<notin> r\<^sup>+"
  shows "acyclic (insert (x, y) r)"
  using assms by (auto simp: acyclic_insert rtrancl_eq_or_trancl)

lemma rtrancl_insert_mono: "(a, b) \<in> r\<^sup>* \<Longrightarrow> (a, b) \<in> (insert e r)\<^sup>*"
  by (meson in_rtrancl_UnI insert_is_Un rtrancl_mono subsetD subset_insertI)

text \<open>Acyclicity as a check that computes.\<close>

definition no_cycle :: "'a arcs \<Rightarrow> bool" where
  "no_cycle es \<longleftrightarrow> list_all (\<lambda>e. fst e \<notin> set (reach_plus es (fst e))) es"

lemma no_cycle_iff: "no_cycle es \<longleftrightarrow> acyclic (set es)"
proof
  assume no: "no_cycle es"
  show "acyclic (set es)"
    unfolding acyclic_def
  proof (intro allI notI)
    fix x assume *: "(x, x) \<in> (set es)\<^sup>+"
    then obtain y where "(x, y) \<in> set es" by (blast dest: tranclD)
    with no * show False by (auto simp: no_cycle_def list_all_iff set_reach_plus)
  qed
next
  assume "acyclic (set es)"
  then show "no_cycle es" by (auto simp: no_cycle_def list_all_iff set_reach_plus acyclic_def)
qed

end
