(* ===== verification/Dag_Graph.thy ===== *)
theory Dag_Graph
  imports Dag_Patch Reach
begin

text \<open>
  The pure graph functions of \<open>session-dag/store.ts\<close>: the root task of a session, the subgraph of
  a task, the successors of side branches, and the active path (\<open>selectRootTask\<close>,
  \<open>taskSubgraphNodeIds\<close>, \<open>sideBranchSuccessorNodeIds\<close>, \<open>deriveActivePathSelection\<close>
  with \<open>pathToRoot\<close> and \<open>completedPathFromRoot\<close>). The memo table is threaded through the
  recursion as the code shares it; \<open>visiting\<close> is the set of the ids on the call stack.
  Ids are compared with \<open>localeCompare\<close> in the code: they are upper-case Crockford numerals,
  for which it is the order of the code units.
\<close>

section \<open>Lookup tables\<close>

text \<open>\<open>new Map(nodes.map((node) => [node.id, node]))\<close>: the last node with an id.\<close>

definition by_id :: "dag_node list \<Rightarrow> string \<Rightarrow> dag_node option" where
  "by_id nodes = map_of (rev (map (\<lambda>n. (n_id n, n)) nodes))"

lemma by_id_in: "by_id nodes i = Some n \<Longrightarrow> n \<in> set nodes \<and> n_id n = i"
  unfolding by_id_def by (auto dest!: map_of_SomeD)

lemma by_id_None: "by_id nodes i = None \<longleftrightarrow> i \<notin> n_id ` set nodes"
  unfolding by_id_def by (force simp: map_of_eq_None_iff)

lemma by_id_distinct: "distinct (map n_id nodes) \<Longrightarrow> n \<in> set nodes \<Longrightarrow> by_id nodes (n_id n) = Some n"
  unfolding by_id_def by (rule map_of_is_SomeI) (auto simp: comp_def rev_map [symmetric])

section \<open>Root task\<close>

definition is_open_status :: "node_status \<Rightarrow> bool" where
  "is_open_status s \<longleftrightarrow> s = SActive \<or> s = SBlocked"

definition is_open :: "dag_node \<Rightarrow> bool" where
  "is_open n \<longleftrightarrow> is_open_status (n_status n)"

definition cmp_root :: "dag_node \<Rightarrow> dag_node \<Rightarrow> int" where
  "cmp_root left right =
     then_cmp (n_updated_at right - n_updated_at left)
    (then_cmp (n_importance right - n_importance left)
              (cmp_str (n_id left) (n_id right)))"

definition root_candidates :: "dag_node list \<Rightarrow> dag_node list" where
  "root_candidates nodes =
     (let tasks = filter (\<lambda>n. n_kind n = KTask) nodes;
          active = filter is_open tasks;
          candidates = (if active \<noteq> [] then active else filter (\<lambda>n. n_status n \<noteq> SFrozen) tasks)
      in if candidates \<noteq> [] then candidates else tasks)"

definition select_root_task :: "dag_node list \<Rightarrow> dag_node option" where
  "select_root_task nodes =
     (case sort_cmp cmp_root (root_candidates nodes) of [] \<Rightarrow> None | n # _ \<Rightarrow> Some n)"

section \<open>Subgraphs\<close>

text \<open>The edges a traversal follows: those whose target is a node that is not a task.\<close>

definition child_arcs :: "dag_node list \<Rightarrow> dag_edge list \<Rightarrow> string arcs" where
  "child_arcs nodes edges =
     map (\<lambda>e. (e_source e, e_target e))
       (filter (\<lambda>e. case by_id nodes (e_target e) of None \<Rightarrow> False | Some n \<Rightarrow> n_kind n \<noteq> KTask) edges)"

definition task_subgraph_node_ids :: "string \<Rightarrow> dag_node list \<Rightarrow> dag_edge list \<Rightarrow> string list" where
  "task_subgraph_node_ids root_id nodes edges = bfs (child_arcs nodes edges) [root_id] []"

definition side_branch_targets :: "dag_node list \<Rightarrow> dag_edge list \<Rightarrow> string list" where
  "side_branch_targets nodes edges =
     map e_target (filter (\<lambda>e. e_type e = SideBranch
        \<and> (case by_id nodes (e_target e) of None \<Rightarrow> True | Some n \<Rightarrow> n_kind n \<noteq> KTask)) edges)"

definition side_branch_successor_node_ids :: "dag_node list \<Rightarrow> dag_edge list \<Rightarrow> string list" where
  "side_branch_successor_node_ids nodes edges =
     bfs (child_arcs nodes edges) (side_branch_targets nodes edges) []"

definition edges_within :: "string list \<Rightarrow> dag_edge list \<Rightarrow> dag_edge list" where
  "edges_within ids edges = filter (\<lambda>e. e_source e \<in> set ids \<and> e_target e \<in> set ids) edges"

section \<open>The path to the frontier\<close>

definition cmp_frontier :: "dag_node \<Rightarrow> dag_node \<Rightarrow> int" where
  "cmp_frontier left right =
     then_cmp (of_bool (n_status right = SBlocked) - of_bool (n_status left = SBlocked))
    (then_cmp (n_importance right - n_importance left)
    (then_cmp (n_updated_at right - n_updated_at left)
    (then_cmp (n_last_msg right - n_last_msg left)
              (cmp_str (n_id left) (n_id right)))))"

definition is_active_path_edge :: "dag_node list \<Rightarrow> string \<Rightarrow> dag_node \<Rightarrow> dag_edge \<Rightarrow> bool" where
  "is_active_path_edge nodes root_id target edge =
     (case by_id nodes (e_source edge) of
        None \<Rightarrow> False
      | Some source \<Rightarrow>
          if n_kind target = KTask then False
          else if n_id source = root_id then n_kind source = KTask \<and> e_type edge = Decomposes
          else if n_kind source = KTask then False
          else if e_type edge = Blocks then n_status target = SBlocked
          else if e_type edge = Supersedes then n_status source = SFrozen
          else e_type edge = Continues \<and> n_status source \<noteq> SFailed \<and> n_status source \<noteq> SFrozen)"

definition active_parent_edge_rank :: "dag_edge \<Rightarrow> dag_node \<Rightarrow> dag_node \<Rightarrow> string \<Rightarrow> int" where
  "active_parent_edge_rank edge source target root_id =
     (if e_type edge = Blocks \<and> n_status target = SBlocked then 0
      else if e_type edge = Supersedes \<and> n_status source = SFrozen then 1
      else if e_type edge = Continues then 2
      else if e_type edge = Decomposes \<and> n_id source = root_id then 3
      else 4)"

text \<open>\<open>byId.get(edge.source_id)!\<close>: the edges compared are the filtered ones, which have a source node.\<close>

definition source_field :: "dag_node list \<Rightarrow> (dag_node \<Rightarrow> int) \<Rightarrow> dag_edge \<Rightarrow> int" where
  "source_field nodes f e = (case by_id nodes (e_source e) of None \<Rightarrow> 0 | Some n \<Rightarrow> f n)"

definition compare_parent_edges ::
  "dag_node list \<Rightarrow> dag_node \<Rightarrow> string \<Rightarrow> dag_edge \<Rightarrow> dag_edge \<Rightarrow> int" where
  "compare_parent_edges nodes target root_id left right =
     then_cmp (source_field nodes (\<lambda>s. active_parent_edge_rank left s target root_id) left
               - source_field nodes (\<lambda>s. active_parent_edge_rank right s target root_id) right)
    (then_cmp (source_field nodes n_importance right - source_field nodes n_importance left)
    (then_cmp (source_field nodes n_updated_at right - source_field nodes n_updated_at left)
    (then_cmp (e_created_at right - e_created_at left)
    (then_cmp (cmp_str (e_source left) (e_source right))
              (cmp_str (e_id left) (e_id right))))))"

definition parent_candidates ::
  "dag_node list \<Rightarrow> dag_edge list \<Rightarrow> string \<Rightarrow> dag_node \<Rightarrow> string \<Rightarrow> dag_edge list" where
  "parent_candidates nodes inner root_id node i =
     sort_cmp (compare_parent_edges nodes node root_id)
       (filter (is_active_path_edge nodes root_id node) (filter (\<lambda>e. e_target e = i) inner))"

type_synonym path_memo = "string \<Rightarrow> dag_path option option"

function (sequential)
  path_to_root :: "dag_node list \<Rightarrow> dag_edge list \<Rightarrow> string \<Rightarrow> string \<Rightarrow> string list \<Rightarrow> path_memo
     \<Rightarrow> dag_path option \<times> path_memo"
and path_candidates :: "dag_node list \<Rightarrow> dag_edge list \<Rightarrow> string \<Rightarrow> string \<Rightarrow> dag_edge list \<Rightarrow> string list
     \<Rightarrow> path_memo \<Rightarrow> dag_path option \<times> path_memo" where
  "path_to_root nodes inner root_id i visiting memo =
     (if i = root_id then (Some \<lparr>p_nodes = [root_id], p_edges = []\<rparr>, memo)
      else case memo i of
        Some r \<Rightarrow> (r, memo)
      | None \<Rightarrow>
        if i \<in> set visiting then (None, memo)
        else case by_id nodes i of
          None \<Rightarrow> (None, memo)
        | Some node \<Rightarrow>
          if n_kind node = KTask then (None, memo)
          else path_candidates nodes inner root_id i (parent_candidates nodes inner root_id node i)
                 (i # visiting) memo)"
| "path_candidates nodes inner root_id i [] visiting memo = (None, memo(i \<mapsto> None))"
| "path_candidates nodes inner root_id i (edge # edges) visiting memo =
     (case path_to_root nodes inner root_id (e_source edge) visiting memo of
        (None, memo') \<Rightarrow> path_candidates nodes inner root_id i edges visiting memo'
      | (Some prefix, memo') \<Rightarrow>
          (let path = \<lparr>p_nodes = p_nodes prefix @ [i], p_edges = p_edges prefix @ [e_id edge]\<rparr>
           in (Some path, memo'(i \<mapsto> Some path))))"
  by pat_completeness auto

text \<open>
  The recursion stops: each visit puts one more id of a known node on the call stack. Then the
  candidates of a node get fewer.
\<close>

definition unvisited :: "dag_node list \<Rightarrow> string list \<Rightarrow> nat" where
  "unvisited nodes visiting = card (n_id ` set nodes - set visiting)"

lemma unvisited_visit:
  assumes "by_id nodes i = Some n" and "i \<notin> set visiting"
  shows "unvisited nodes (i # visiting) < unvisited nodes visiting"
proof -
  from assms have "i \<in> n_id ` set nodes - set visiting" using by_id_in by fastforce
  moreover have "n_id ` set nodes - set (i # visiting) = (n_id ` set nodes - set visiting) - {i}" by auto
  ultimately show ?thesis
    unfolding unvisited_def by (metis List.finite_set card_Diff1_less finite_Diff finite_imageI)
qed

termination path_to_root
  by (relation "measures [case_sum (\<lambda>(nodes, inner, root_id, i, visiting, memo). unvisited nodes visiting)
       (\<lambda>(nodes, inner, root_id, i, edges, visiting, memo). unvisited nodes visiting),
     case_sum (\<lambda>_. 0) (\<lambda>(nodes, inner, root_id, i, edges, visiting, memo). Suc (length edges))]")
    (auto simp: unvisited_visit)

declare path_to_root.simps [simp del] path_candidates.simps [simp del]

section \<open>The path through completed work\<close>

definition is_done_child :: "dag_node list \<Rightarrow> string \<Rightarrow> bool" where
  "is_done_child nodes i = (case by_id nodes i of None \<Rightarrow> False | Some n \<Rightarrow> n_kind n \<noteq> KTask \<and> n_status n = SDone)"

text \<open>The fields of the last node of a path; \<open>?? -1\<close> and \<open>?? ""\<close> when it is unknown.\<close>

definition terminal_field :: "dag_node list \<Rightarrow> (dag_node \<Rightarrow> int) \<Rightarrow> dag_path \<Rightarrow> int" where
  "terminal_field nodes f p =
     (if p_nodes p = [] then - 1 else case by_id nodes (last (p_nodes p)) of None \<Rightarrow> - 1 | Some n \<Rightarrow> f n)"

definition compare_completed_paths :: "dag_node list \<Rightarrow> dag_path \<Rightarrow> dag_path \<Rightarrow> int" where
  "compare_completed_paths nodes left right =
     then_cmp (terminal_field nodes n_last_msg right - terminal_field nodes n_last_msg left)
    (then_cmp (terminal_field nodes n_updated_at right - terminal_field nodes n_updated_at left)
    (then_cmp (terminal_field nodes n_importance right - terminal_field nodes n_importance left)
    (then_cmp (int (length (p_edges right)) - int (length (p_edges left)))
    (then_cmp (cmp_str (join_with [CHR 0x00] (p_nodes left)) (join_with [CHR 0x00] (p_nodes right)))
              (cmp_str (join_with [CHR 0x00] (p_edges left)) (join_with [CHR 0x00] (p_edges right)))))))"

definition best_completed_path :: "dag_node list \<Rightarrow> dag_path list \<Rightarrow> dag_path option" where
  "best_completed_path nodes paths =
     (case sort_cmp (compare_completed_paths nodes) paths of [] \<Rightarrow> None | p # _ \<Rightarrow> Some p)"

definition extend_path :: "string \<Rightarrow> dag_edge \<Rightarrow> dag_path \<Rightarrow> dag_path" where
  "extend_path i edge suffix = \<lparr>p_nodes = i # p_nodes suffix, p_edges = e_id edge # p_edges suffix\<rparr>"

type_synonym suffix_memo = "string \<Rightarrow> dag_path option"

function (sequential)
  best_completed_suffix :: "dag_node list \<Rightarrow> dag_edge list \<Rightarrow> string \<Rightarrow> string list \<Rightarrow> suffix_memo
     \<Rightarrow> dag_path \<times> suffix_memo"
and suffix_paths :: "dag_node list \<Rightarrow> dag_edge list \<Rightarrow> string \<Rightarrow> dag_edge list \<Rightarrow> string list \<Rightarrow> suffix_memo
     \<Rightarrow> dag_path list \<times> suffix_memo" where
  "best_completed_suffix nodes inner i visiting memo =
     (case memo i of
        Some p \<Rightarrow> (p, memo)
      | None \<Rightarrow>
        (let self = \<lparr>p_nodes = [i], p_edges = []\<rparr> in
         if i \<in> set visiting then (self, memo)
         else case suffix_paths nodes inner i (filter (\<lambda>e. e_source e = i) inner) (i # visiting) memo of
           (paths, memo') \<Rightarrow>
             (let best = (case best_completed_path nodes (self # paths) of None \<Rightarrow> self | Some p \<Rightarrow> p)
              in (best, memo'(i \<mapsto> best)))))"
| "suffix_paths nodes inner i [] visiting memo = ([], memo)"
| "suffix_paths nodes inner i (edge # edges) visiting memo =
     (if e_type edge \<noteq> Continues \<or> e_target edge \<in> set visiting \<or> \<not> is_done_child nodes (e_target edge)
      then suffix_paths nodes inner i edges visiting memo
      else case best_completed_suffix nodes inner (e_target edge) visiting memo of
        (suffix, memo') \<Rightarrow>
          (case suffix_paths nodes inner i edges visiting memo' of
             (paths, memo'') \<Rightarrow> (extend_path i edge suffix # paths, memo'')))"
  by pat_completeness auto

lemma unvisited_mono: "unvisited nodes (i # visiting) \<le> unvisited nodes visiting"
  unfolding unvisited_def by (intro card_mono) auto

lemma unvisited_visit_known:
  "i \<in> n_id ` set nodes \<Longrightarrow> i \<notin> set visiting \<Longrightarrow> unvisited nodes (i # visiting) < unvisited nodes visiting"
  by (metis by_id_None not_None_eq unvisited_visit)

lemma is_done_child_known: "is_done_child nodes i \<Longrightarrow> i \<in> n_id ` set nodes"
  by (metis by_id_None is_done_child_def option.case_eq_if)

definition suffix_measure :: "dag_node list \<Rightarrow> string \<Rightarrow> string list \<Rightarrow> nat" where
  "suffix_measure nodes i visiting = unvisited nodes visiting + (if i \<in> n_id ` set nodes then 0 else 1)"

lemma suffix_measure_visit: "i \<notin> set visiting \<Longrightarrow> unvisited nodes (i # visiting) < suffix_measure nodes i visiting"
  using unvisited_visit_known [of i nodes visiting] unvisited_mono [of nodes i visiting]
  by (auto simp: suffix_measure_def simp del: image_iff)

lemma suffix_measure_done: "is_done_child nodes i \<Longrightarrow> suffix_measure nodes i visiting = unvisited nodes visiting"
  using is_done_child_known by (simp add: suffix_measure_def)

termination best_completed_suffix
  by (relation "measures [case_sum (\<lambda>(nodes, inner, i, visiting, memo). suffix_measure nodes i visiting)
       (\<lambda>(nodes, inner, i, edges, visiting, memo). unvisited nodes visiting),
     case_sum (\<lambda>_. 0) (\<lambda>(nodes, inner, i, edges, visiting, memo). Suc (length edges))]")
    (auto simp: suffix_measure_visit suffix_measure_done)

declare best_completed_suffix.simps [simp del] suffix_paths.simps [simp del]

fun completed_paths ::
  "dag_node list \<Rightarrow> dag_edge list \<Rightarrow> string \<Rightarrow> dag_edge list \<Rightarrow> suffix_memo \<Rightarrow> dag_path list" where
  "completed_paths nodes inner root_id [] memo = []"
| "completed_paths nodes inner root_id (edge # edges) memo =
     (case best_completed_suffix nodes inner (e_target edge) [] memo of
        (suffix, memo') \<Rightarrow> extend_path root_id edge suffix # completed_paths nodes inner root_id edges memo')"

definition completed_path_from_root ::
  "dag_node \<Rightarrow> dag_node list \<Rightarrow> dag_edge list \<Rightarrow> string list \<Rightarrow> dag_path option" where
  "completed_path_from_root rt nodes edges ids =
     (let inner = edges_within ids edges;
          starts = filter (\<lambda>e. e_type e = Decomposes \<and> is_done_child nodes (e_target e))
                     (filter (\<lambda>e. e_source e = n_id rt) inner)
      in best_completed_path nodes (completed_paths nodes inner (n_id rt) starts (\<lambda>_. None)))"

section \<open>The active path\<close>

definition path_subgraph :: "dag_node \<Rightarrow> dag_node list \<Rightarrow> dag_edge list \<Rightarrow> string list" where
  "path_subgraph rt nodes edges =
     filter (\<lambda>i. i \<notin> set (side_branch_successor_node_ids nodes edges))
       (task_subgraph_node_ids (n_id rt) nodes edges)"

definition frontier :: "dag_node list \<Rightarrow> string list \<Rightarrow> dag_node list" where
  "frontier nodes ids =
     sort_cmp cmp_frontier (filter (\<lambda>n. n_id n \<in> set ids \<and> n_kind n \<noteq> KTask \<and> is_open n) nodes)"

fun first_path :: "dag_node list \<Rightarrow> dag_edge list \<Rightarrow> string \<Rightarrow> dag_node list \<Rightarrow> path_memo \<Rightarrow> dag_path option" where
  "first_path nodes inner root_id [] memo = None"
| "first_path nodes inner root_id (node # rest) memo =
     (case path_to_root nodes inner root_id (n_id node) [] memo of
        (Some path, _) \<Rightarrow> Some path
      | (None, memo') \<Rightarrow> first_path nodes inner root_id rest memo')"

definition derive_active_path_selection :: "dag_node list \<Rightarrow> dag_edge list \<Rightarrow> dag_path" where
  "derive_active_path_selection nodes edges =
     (case select_root_task nodes of
        None \<Rightarrow> \<lparr>p_nodes = [], p_edges = []\<rparr>
      | Some rt \<Rightarrow>
        (let ids = path_subgraph rt nodes edges;
             only_root = \<lparr>p_nodes = [n_id rt], p_edges = []\<rparr>
         in case first_path nodes (edges_within ids edges) (n_id rt) (frontier nodes ids) (\<lambda>_. None) of
              Some path \<Rightarrow> path
            | None \<Rightarrow>
                if n_status rt = SFailed \<or> n_status rt = SFrozen then only_root
                else (case completed_path_from_root rt nodes edges ids of
                        Some path \<Rightarrow> path | None \<Rightarrow> only_root)))"

definition derive_active_path :: "dag_node list \<Rightarrow> dag_edge list \<Rightarrow> string list" where
  "derive_active_path nodes edges = p_nodes (derive_active_path_selection nodes edges)"

section \<open>Comparators\<close>

interpretation root_order: comparator cmp_root
  unfolding cmp_root_def by (intro comparator_intros)

interpretation frontier_order: comparator cmp_frontier
  unfolding cmp_frontier_def by (intro comparator_intros)

interpretation parent_order: comparator "compare_parent_edges nodes target root_id"
  unfolding compare_parent_edges_def by (intro comparator_intros)

interpretation completed_order: comparator "compare_completed_paths nodes"
  unfolding compare_completed_paths_def by (intro comparator_intros)

section \<open>Root selection\<close>

lemma select_root_taskD:
  "select_root_task nodes = Some r \<Longrightarrow> r \<in> set (root_candidates nodes)
     \<and> (\<forall>n \<in> set (root_candidates nodes). cmp_root r n \<le> 0)"
proof -
  assume "select_root_task nodes = Some r"
  then obtain ns where ns: "sort_cmp cmp_root (root_candidates nodes) = r # ns"
    by (auto simp: select_root_task_def split: list.splits)
  then have "r \<in> set (root_candidates nodes)"
    by (metis list.set_intros(1) set_sort_cmp)
  with ns show ?thesis
    using root_order.hd_sort_cmp_least [of _ "root_candidates nodes"] by simp
qed

lemma root_candidates_tasks: "n \<in> set (root_candidates nodes) \<Longrightarrow> n \<in> set nodes \<and> n_kind n = KTask"
  by (auto simp: root_candidates_def Let_def split: if_splits)

lemma root_candidates_empty: "root_candidates nodes = [] \<longleftrightarrow> (\<forall>n \<in> set nodes. n_kind n \<noteq> KTask)"
  by (auto simp: root_candidates_def Let_def filter_empty_conv split: if_splits)

lemma select_root_task_None: "select_root_task nodes = None \<longleftrightarrow> (\<forall>n \<in> set nodes. n_kind n \<noteq> KTask)"
  using sort_cmp_eq_Nil [of cmp_root "root_candidates nodes"]
  by (auto simp: select_root_task_def root_candidates_empty [symmetric] split: list.splits simp del: sort_cmp_eq_Nil)

lemma root_candidates_open:
  "n \<in> set nodes \<Longrightarrow> n_kind n = KTask \<Longrightarrow> is_open n \<Longrightarrow>
     set (root_candidates nodes) = {m \<in> set nodes. n_kind m = KTask \<and> is_open m}"
  by (auto simp: root_candidates_def Let_def filter_empty_conv)

text \<open>
  the root task. A session with a task has a root; the root is one of its tasks; while a task
  is open (active or blocked) the root is open, and no task that is open was updated later; a frozen
  task is the root only when every task is frozen.
\<close>

theorem select_root_task_spec:
  "(case select_root_task nodes of
      None \<Rightarrow> \<not> list_ex (\<lambda>n. n_kind n = KTask) nodes
    | Some r \<Rightarrow> r \<in> set nodes \<and> n_kind r = KTask
        \<and> list_all (\<lambda>n. n_kind n = KTask \<and> is_open n \<longrightarrow>
              is_open r \<and> n_updated_at n \<le> n_updated_at r) nodes
        \<and> (n_status r = SFrozen \<longrightarrow> list_all (\<lambda>n. n_kind n = KTask \<longrightarrow> n_status n = SFrozen) nodes))"
proof (cases "select_root_task nodes")
  case None
  moreover from None have "\<forall>n \<in> set nodes. n_kind n \<noteq> KTask" by (simp add: select_root_task_None)
  ultimately show ?thesis by (simp add: list_ex_iff)
next
  case (Some r)
  note r = select_root_taskD [OF Some]
  have "is_open r \<and> n_updated_at n \<le> n_updated_at r"
    if "n \<in> set nodes" "n_kind n = KTask" "is_open n" for n
  proof -
    note c = root_candidates_open [OF that]
    with r that have "cmp_root r n \<le> 0" by blast
    with r c show ?thesis by (auto simp: cmp_root_def then_cmp_def split: if_splits)
  qed
  moreover have "n_status n = SFrozen"
    if "n_status r = SFrozen" "n \<in> set nodes" "n_kind n = KTask" for n
    using r that by (auto simp: root_candidates_def Let_def is_open_def is_open_status_def
        filter_empty_conv split: if_splits)
  ultimately show ?thesis
    using Some r root_candidates_tasks [of r nodes] by (simp add: list_all_iff)
qed

section \<open>Paths\<close>

text \<open>A walk: consecutive nodes are joined by the edge with the listed id.\<close>

fun walk :: "dag_edge list \<Rightarrow> string list \<Rightarrow> string list \<Rightarrow> bool" where
  "walk es [i] [] = True"
| "walk es (i # j # is) (k # ks) =
     ((\<exists>e \<in> set es. e_id e = k \<and> e_source e = i \<and> e_target e = j) \<and> walk es (j # is) ks)"
| "walk es _ _ = False"

lemma walk_nonempty: "walk es is ks \<Longrightarrow> is \<noteq> []"
  by (induction es "is" ks rule: walk.induct) auto

lemma walk_length: "walk es is ks \<Longrightarrow> length is = Suc (length ks)"
  by (induction es "is" ks rule: walk.induct) auto

lemma walk_snoc:
  "walk es is ks \<Longrightarrow> e \<in> set es \<Longrightarrow> e_source e = last is \<Longrightarrow> walk es (is @ [e_target e]) (ks @ [e_id e])"
proof (induction es "is" ks rule: walk.induct)
  case (2 es i j "is" k ks)
  then show ?case by auto
qed auto

lemma walk_cons:
  assumes "walk es is ks" "e \<in> set es" "hd is = e_target e"
  shows "walk es (e_source e # is) (e_id e # ks)"
  using assms by (cases "is") auto

lemma walk_mono: "walk es is ks \<Longrightarrow> set es \<subseteq> set es' \<Longrightarrow> walk es' is ks"
  by (induction es "is" ks rule: walk.induct) auto

definition arcs :: "dag_edge list \<Rightarrow> string arcs" where
  "arcs es = map (\<lambda>e. (e_source e, e_target e)) es"

definition arcs_of :: "dag_edge list \<Rightarrow> (string \<times> string) set" where
  "arcs_of es = (\<lambda>e. (e_source e, e_target e)) ` set es"

lemma set_arcs [simp]: "set (arcs es) = arcs_of es"
  by (simp add: arcs_def arcs_of_def)

lemma acyclic_arcs: "no_cycle (arcs es) \<longleftrightarrow> acyclic (arcs_of es)"
  by (simp add: no_cycle_iff)

lemma walk_reach:
  "walk es is ks \<Longrightarrow> j \<in> set is \<Longrightarrow> (hd is, j) \<in> (arcs_of es)\<^sup>*"
proof (induction es "is" ks rule: walk.induct)
  case (2 es i j' "is" k ks)
  then have "(i, j') \<in> arcs_of es" by (auto simp: arcs_of_def)
  with 2 show ?case by (auto intro: converse_rtrancl_into_rtrancl)
qed auto

lemma walk_distinct:
  "walk es is ks \<Longrightarrow> acyclic (arcs_of es) \<Longrightarrow> distinct is"
proof (induction es "is" ks rule: walk.induct)
  case (2 es i j "is" k ks)
  then have *: "(i, j) \<in> arcs_of es" "walk es (j # is) ks" by (auto simp: arcs_of_def)
  have "i \<notin> set (j # is)"
  proof
    assume "i \<in> set (j # is)"
    then have "(j, i) \<in> (arcs_of es)\<^sup>*" using walk_reach [OF *(2), of i] by simp
    with *(1) have "(i, i) \<in> (arcs_of es)\<^sup>+" by (rule rtrancl_into_trancl2)
    with 2(3) show False by (auto simp: acyclic_def)
  qed
  with 2 * show ?case by simp
qed auto

definition path_between :: "dag_edge list \<Rightarrow> string \<Rightarrow> string \<Rightarrow> dag_path \<Rightarrow> bool" where
  "path_between es a b p \<longleftrightarrow> walk es (p_nodes p) (p_edges p) \<and> hd (p_nodes p) = a \<and> last (p_nodes p) = b"

lemma path_between_snoc:
  "path_between es a b p \<Longrightarrow> e \<in> set es \<Longrightarrow> e_source e = b \<Longrightarrow>
     path_between es a (e_target e) \<lparr>p_nodes = p_nodes p @ [e_target e], p_edges = p_edges p @ [e_id e]\<rparr>"
  using walk_nonempty by (auto simp: path_between_def walk_snoc)

lemma path_between_extend:
  "path_between es (e_target e) b p \<Longrightarrow> e \<in> set es \<Longrightarrow>
     path_between es (e_source e) b (extend_path (e_source e) e p)"
  using walk_nonempty [of es "p_nodes p"] by (auto simp: path_between_def extend_path_def walk_cons)

definition path_memo_ok :: "dag_edge list \<Rightarrow> string \<Rightarrow> path_memo \<Rightarrow> bool" where
  "path_memo_ok es r memo \<longleftrightarrow> (\<forall>i p. memo i = Some (Some p) \<longrightarrow> path_between es r i p)"

lemma parent_candidatesD:
  "e \<in> set (parent_candidates nodes inner r node i) \<Longrightarrow>
     e \<in> set inner \<and> e_target e = i \<and> is_active_path_edge nodes r node e"
  by (simp add: parent_candidates_def)

lemma path_to_root_sound:
  "path_memo_ok inner r memo \<Longrightarrow> path_to_root nodes inner r i visiting memo = (res, memo') \<Longrightarrow>
     path_memo_ok inner r memo' \<and> (\<forall>p. res = Some p \<longrightarrow> path_between inner r i p)"
  "path_memo_ok inner r memo \<Longrightarrow> path_candidates nodes inner r i cands visiting memo = (res, memo') \<Longrightarrow>
     (\<forall>e \<in> set cands. e \<in> set inner \<and> e_target e = i) \<Longrightarrow>
     path_memo_ok inner r memo' \<and> (\<forall>p. res = Some p \<longrightarrow> path_between inner r i p)"
proof (induction nodes inner r i visiting memo and nodes inner r i cands visiting memo
    arbitrary: res memo' and res memo' rule: path_to_root_path_candidates.induct)
  case (1 nodes inner r i visiting memo)
  show ?case
    using 1 parent_candidatesD
    by (subst (asm) path_to_root.simps)
      (fastforce simp: path_memo_ok_def path_between_def split: if_splits option.splits)
next
  case (2 nodes inner r i visiting memo)
  then show ?case by (auto simp: path_candidates.simps path_memo_ok_def split: if_splits)
next
  case (3 nodes inner r i edge edges visiting memo)
  obtain res1 memo1 where sub: "path_to_root nodes inner r (e_source edge) visiting memo = (res1, memo1)"
    by fastforce
  note ok = "3.IH"(1) [OF "3.prems"(1) sub]
  show ?case
  proof (cases res1)
    case None
    with sub 3(2) 3(4-) ok show ?thesis
      by (simp add: path_candidates.simps)
  next
    case (Some prefix)
    with ok "3.prems"(3) have "path_between inner r i
        \<lparr>p_nodes = p_nodes prefix @ [i], p_edges = p_edges prefix @ [e_id edge]\<rparr>"
      using path_between_snoc [of inner r "e_source edge" prefix edge] by auto
    with Some ok sub "3.prems"(2) show ?thesis
      by (auto simp: path_candidates.simps Let_def path_memo_ok_def split: if_splits)
  qed
qed

text \<open>
  The search finds a path whenever one exists: compared with a plain breadth-first search over
  the edges that may carry the active path.
\<close>

definition chain_arcs :: "dag_node list \<Rightarrow> dag_edge list \<Rightarrow> string \<Rightarrow> string arcs" where
  "chain_arcs nodes inner r = map (\<lambda>e. (e_source e, e_target e))
     (filter (\<lambda>e. case by_id nodes (e_target e) of None \<Rightarrow> False | Some n \<Rightarrow> is_active_path_edge nodes r n e) inner)"

definition has_chain :: "dag_node list \<Rightarrow> dag_edge list \<Rightarrow> string \<Rightarrow> string \<Rightarrow> bool" where
  "has_chain nodes inner r i \<longleftrightarrow> i \<in> set (bfs (chain_arcs nodes inner r) [r] [])"

lemma has_chain_iff: "has_chain nodes inner r i \<longleftrightarrow> (r, i) \<in> (set (chain_arcs nodes inner r))\<^sup>*"
  by (simp add: has_chain_def set_bfs del: bfs.simps)

lemma has_chain_root [simp]: "has_chain nodes inner r r"
  by (simp add: has_chain_iff)

lemma in_chain_arcs: "(a, b) \<in> set (chain_arcs nodes inner r) \<longleftrightarrow>
    (\<exists>e n. e \<in> set inner \<and> e_source e = a \<and> e_target e = b \<and> by_id nodes b = Some n \<and> is_active_path_edge nodes r n e)"
  by (fastforce simp: chain_arcs_def split: option.splits)

lemma has_chain_step:
  assumes "i \<noteq> r"
  shows "has_chain nodes inner r i \<longleftrightarrow> (case by_id nodes i of None \<Rightarrow> False
    | Some n \<Rightarrow> \<exists>e \<in> set (parent_candidates nodes inner r n i). has_chain nodes inner r (e_source e))"
proof
  assume "has_chain nodes inner r i"
  then obtain j where "(r, j) \<in> (set (chain_arcs nodes inner r))\<^sup>*" "(j, i) \<in> set (chain_arcs nodes inner r)"
    using assms by (auto simp: has_chain_iff elim: rtranclE)
  then show "case by_id nodes i of None \<Rightarrow> False
    | Some n \<Rightarrow> \<exists>e \<in> set (parent_candidates nodes inner r n i). has_chain nodes inner r (e_source e)"
    by (auto simp: in_chain_arcs parent_candidates_def has_chain_iff)
next
  assume "case by_id nodes i of None \<Rightarrow> False
    | Some n \<Rightarrow> \<exists>e \<in> set (parent_candidates nodes inner r n i). has_chain nodes inner r (e_source e)"
  then obtain n e where "by_id nodes i = Some n" "e \<in> set (parent_candidates nodes inner r n i)"
    "has_chain nodes inner r (e_source e)" by (auto split: option.splits)
  moreover from this have "(e_source e, i) \<in> set (chain_arcs nodes inner r)"
    using parent_candidatesD unfolding in_chain_arcs by blast
  ultimately show "has_chain nodes inner r i"
    by (auto simp: has_chain_iff intro: rtrancl_into_rtrancl)
qed

definition memo_exact :: "dag_node list \<Rightarrow> dag_edge list \<Rightarrow> string \<Rightarrow> path_memo \<Rightarrow> bool" where
  "memo_exact nodes inner r memo \<longleftrightarrow> (\<forall>j x. memo j = Some x \<longrightarrow> (x \<noteq> None) = has_chain nodes inner r j)"

lemma memo_exact_upd:
  "memo_exact nodes inner r memo \<Longrightarrow> (x \<noteq> None) = has_chain nodes inner r i \<Longrightarrow>
     memo_exact nodes inner r (memo(i \<mapsto> x))"
  by (simp add: memo_exact_def)

lemma path_to_root_complete:
  "acyclic (arcs_of inner) \<Longrightarrow> memo_exact nodes inner r memo \<Longrightarrow>
     (\<forall>v \<in> set visiting. (i, v) \<in> (arcs_of inner)\<^sup>+) \<Longrightarrow>
     path_to_root nodes inner r i visiting memo = (res, memo') \<Longrightarrow>
     memo_exact nodes inner r memo' \<and> (res \<noteq> None) = has_chain nodes inner r i"
  "acyclic (arcs_of inner) \<Longrightarrow> memo_exact nodes inner r memo \<Longrightarrow>
     (\<forall>v \<in> set visiting. (i, v) \<in> (arcs_of inner)\<^sup>*) \<Longrightarrow>
     (\<forall>e \<in> set cands. e \<in> set inner \<and> e_target e = i) \<Longrightarrow>
     has_chain nodes inner r i = (\<exists>e \<in> set cands. has_chain nodes inner r (e_source e)) \<Longrightarrow>
     path_candidates nodes inner r i cands visiting memo = (res, memo') \<Longrightarrow>
     memo_exact nodes inner r memo' \<and> (res \<noteq> None) = has_chain nodes inner r i"
proof (induction nodes inner r i visiting memo and nodes inner r i cands visiting memo
    arbitrary: res memo' and res memo' rule: path_to_root_path_candidates.induct)
  case (1 nodes inner r i visiting memo)
  show ?case
  proof (cases "i = r \<or> memo i \<noteq> None")
    case True
    with "1.prems"(2,4) show ?thesis
      by (subst (asm) path_to_root.simps) (auto simp: memo_exact_def split: if_splits)
  next
    case False
    then have i: "i \<noteq> r" "memo i = None" by auto
    have new: "i \<notin> set visiting"
      using "1.prems"(1,3) by (auto simp: acyclic_def)
    show ?thesis
    proof (cases "by_id nodes i")
      case None
      with "1.prems"(2,4) i new show ?thesis
        by (subst (asm) path_to_root.simps) (auto simp: has_chain_step)
    next
      case (Some n)
      show ?thesis
      proof (cases "n_kind n = KTask")
        case True
        then have "parent_candidates nodes inner r n i = []"
          by (simp add: parent_candidates_def filter_empty_conv is_active_path_edge_def split: option.splits)
        with "1.prems"(2,4) i new Some True show ?thesis
          by (subst (asm) path_to_root.simps) (auto simp: has_chain_step)
      next
        case False
        have run: "path_candidates nodes inner r i (parent_candidates nodes inner r n i) (i # visiting) memo = (res, memo')"
          using "1.prems"(4) i new Some False by (subst (asm) path_to_root.simps) auto
        show ?thesis
          by (rule "1.IH" [OF i(1) i(2) new Some False "1.prems"(1,2) _ _ _ run])
            (use "1.prems"(3) i Some in \<open>auto dest: parent_candidatesD simp: has_chain_step trancl_into_rtrancl\<close>)
      qed
    qed
  qed
next
  case (2 nodes inner r i visiting memo)
  then show ?case by (auto simp: path_candidates.simps intro: memo_exact_upd)
next
  case (3 nodes inner r i edge edges visiting memo)
  obtain res1 memo1 where sub: "path_to_root nodes inner r (e_source edge) visiting memo = (res1, memo1)"
    by fastforce
  have arc: "(e_source edge, i) \<in> arcs_of inner"
    using "3.prems"(4) by (auto simp: arcs_of_def)
  have "\<forall>v \<in> set visiting. (e_source edge, v) \<in> (arcs_of inner)\<^sup>+"
    using "3.prems"(3) arc by (meson rtrancl_into_trancl2)
  note ok = "3.IH"(1) [OF "3.prems"(1,2) this sub]
  show ?case
  proof (cases res1)
    case None
    with ok have no: "\<not> has_chain nodes inner r (e_source edge)" by simp
    have run: "path_candidates nodes inner r i edges visiting memo1 = (res, memo')"
      using "3.prems"(6) sub None by (simp add: path_candidates.simps)
    show ?thesis
      by (rule "3.IH"(2) [OF sub [symmetric] None "3.prems"(1) _ _ _ _ run])
        (use ok no "3.prems"(3-5) in auto)
  next
    case (Some prefix)
    with ok "3.prems"(5) have "has_chain nodes inner r i" by auto
    with Some ok sub "3.prems"(6) show ?thesis
      by (auto simp: path_candidates.simps Let_def intro: memo_exact_upd)
  qed
qed

section \<open>The completed path\<close>

definition done_path :: "dag_node list \<Rightarrow> dag_edge list \<Rightarrow> string \<Rightarrow> dag_path \<Rightarrow> bool" where
  "done_path nodes inner i p \<longleftrightarrow>
     path_between inner i (last (p_nodes p)) p \<and> (\<forall>j \<in> set (p_nodes p). is_done_child nodes j)"

lemma done_path_self: "is_done_child nodes i \<Longrightarrow> done_path nodes inner i \<lparr>p_nodes = [i], p_edges = []\<rparr>"
  by (simp add: done_path_def path_between_def)

lemma done_path_extend:
  assumes "done_path nodes inner (e_target e) p" "e \<in> set inner" "is_done_child nodes (e_source e)"
  shows "done_path nodes inner (e_source e) (extend_path (e_source e) e p)"
proof -
  from assms have w: "path_between inner (e_target e) (last (p_nodes p)) p" by (simp add: done_path_def)
  then have "p_nodes p \<noteq> []" using walk_nonempty by (auto simp: path_between_def)
  with path_between_extend [OF w assms(2)] assms(1,3) show ?thesis
    by (auto simp: done_path_def extend_path_def)
qed

lemma best_completed_path_in: "best_completed_path nodes ps = Some p \<Longrightarrow> p \<in> set ps"
  unfolding best_completed_path_def
  by (metis (no_types, lifting) list.case_eq_if list.set_sel(1) option.inject option.simps(3) set_sort_cmp)

lemma best_completed_path_best:
  "best_completed_path nodes ps = Some p \<Longrightarrow> q \<in> set ps \<Longrightarrow> compare_completed_paths nodes p q \<le> 0"
  using completed_order.hd_sort_cmp_least [of q ps nodes]
  by (auto simp: best_completed_path_def split: list.splits)

lemma best_completed_suffix_sound:
  "(\<forall>j q. memo j = Some q \<longrightarrow> done_path nodes inner j q) \<Longrightarrow> is_done_child nodes i \<Longrightarrow>
     best_completed_suffix nodes inner i visiting memo = (p, memo') \<Longrightarrow>
     (\<forall>j q. memo' j = Some q \<longrightarrow> done_path nodes inner j q) \<and> done_path nodes inner i p"
  "(\<forall>j q. memo j = Some q \<longrightarrow> done_path nodes inner j q) \<Longrightarrow> is_done_child nodes i \<Longrightarrow>
     (\<forall>e \<in> set es. e \<in> set inner \<and> e_source e = i) \<Longrightarrow>
     suffix_paths nodes inner i es visiting memo = (ps, memo') \<Longrightarrow>
     (\<forall>j q. memo' j = Some q \<longrightarrow> done_path nodes inner j q) \<and> (\<forall>p \<in> set ps. done_path nodes inner i p)"
proof (induction nodes inner i visiting memo and nodes inner i es visiting memo
    arbitrary: p memo' and ps memo' rule: best_completed_suffix_suffix_paths.induct)
  case (1 nodes inner i visiting memo)
  show ?case
  proof (cases "memo i \<noteq> None \<or> i \<in> set visiting")
    case True
    with 1(2-) show ?thesis
      by (subst (asm) best_completed_suffix.simps) (auto simp: Let_def done_path_self split: option.splits)
  next
    case False
    then have i: "memo i = None" "i \<notin> set visiting" by auto
    obtain ps memo1 where sub: "suffix_paths nodes inner i (filter (\<lambda>e. e_source e = i) inner) (i # visiting) memo = (ps, memo1)"
      by fastforce
    have ok: "(\<forall>j q. memo1 j = Some q \<longrightarrow> done_path nodes inner j q) \<and> (\<forall>p \<in> set ps. done_path nodes inner i p)"
      by (rule "1.IH" [OF i(1) refl i(2) "1.prems"(1,2) _ sub]) auto
    let ?self = "\<lparr>p_nodes = [i], p_edges = []\<rparr>"
    let ?best = "case best_completed_path nodes (?self # ps) of None \<Rightarrow> ?self | Some p \<Rightarrow> p"
    have "done_path nodes inner i ?best"
      using best_completed_path_in [of nodes "?self # ps"] ok done_path_self [OF "1.prems"(2)]
      by (auto split: option.splits)
    moreover have "p = ?best" "memo' = memo1(i \<mapsto> ?best)"
      using "1.prems"(3) i sub by (subst (asm) best_completed_suffix.simps, simp add: Let_def)+
    ultimately show ?thesis using ok by simp
  qed
next
  case (2 nodes inner i visiting memo)
  then show ?case by (simp add: suffix_paths.simps)
next
  case (3 nodes inner i edge edges visiting memo)
  show ?case
  proof (cases "e_type edge \<noteq> Continues \<or> e_target edge \<in> set visiting \<or> \<not> is_done_child nodes (e_target edge)")
    case True
    have "suffix_paths nodes inner i edges visiting memo = (ps, memo')"
      using "3.prems"(4) True by (simp add: suffix_paths.simps)
    then show ?thesis
      by (rule "3.IH"(1) [OF True "3.prems"(1,2), rotated]) (use "3.prems"(3) in auto)
  next
    case False
    then have e: "is_done_child nodes (e_target edge)" "edge \<in> set inner" "e_source edge = i"
      using "3.prems"(3) by auto
    obtain q memo1 where sub: "best_completed_suffix nodes inner (e_target edge) visiting memo = (q, memo1)"
      by fastforce
    obtain ps' memo2 where rest: "suffix_paths nodes inner i edges visiting memo1 = (ps', memo2)"
      by fastforce
    note ok1 = "3.IH"(2) [OF False "3.prems"(1) e(1) sub]
    have ok2: "(\<forall>j q. memo2 j = Some q \<longrightarrow> done_path nodes inner j q) \<and> (\<forall>p \<in> set ps'. done_path nodes inner i p)"
      by (rule "3.IH"(3) [OF False sub [symmetric] _ "3.prems"(2) _ rest]) (use ok1 "3.prems"(3) in auto)
    have "done_path nodes inner i (extend_path i edge q)"
      using done_path_extend [of nodes inner edge q] ok1 e "3.prems"(2) by auto
    with "3.prems"(4) False sub rest ok2 show ?thesis
      by (auto simp: suffix_paths.simps)
  qed
qed

lemma completed_paths_sound:
  "(\<forall>j q. memo j = Some q \<longrightarrow> done_path nodes inner j q) \<Longrightarrow>
   \<forall>e \<in> set es. e \<in> set inner \<and> e_source e = r \<and> is_done_child nodes (e_target e) \<Longrightarrow>
   p \<in> set (completed_paths nodes inner r es memo) \<Longrightarrow>
   path_between inner r (last (p_nodes p)) p \<and> (\<forall>j \<in> set (tl (p_nodes p)). is_done_child nodes j)"
proof (induction nodes inner r es memo rule: completed_paths.induct)
  case (2 nodes inner r edge edges memo)
  obtain q memo1 where sub: "best_completed_suffix nodes inner (e_target edge) [] memo = (q, memo1)"
    by fastforce
  have e: "is_done_child nodes (e_target edge)" "edge \<in> set inner" "e_source edge = r"
    using "2.prems"(2) by auto
  note ok = best_completed_suffix_sound(1) [OF "2.prems"(1) e(1) sub]
  have w: "path_between inner (e_target edge) (last (p_nodes q)) q" using ok by (simp add: done_path_def)
  then have ne: "p_nodes q \<noteq> []" using walk_nonempty by (auto simp: path_between_def)
  from "2.prems"(3) sub consider "p = extend_path r edge q" | "p \<in> set (completed_paths nodes inner r edges memo1)"
    by auto
  then show ?case
  proof cases
    case 1
    then show ?thesis
      using path_between_extend [OF w e(2)] e(3) ok ne by (auto simp: extend_path_def done_path_def)
  next
    case 2
    then show ?thesis
      using "2.IH" [OF sub [symmetric] _ _ 2] ok "2.prems"(2) by auto
  qed
qed simp

section \<open>The active path is a path\<close>

lemma edges_within_subset: "set (edges_within ids edges) \<subseteq> set edges"
  by (auto simp: edges_within_def)

lemma acyclic_edges_within: "acyclic (arcs_of edges) \<Longrightarrow> acyclic (arcs_of (edges_within ids edges))"
  by (rule acyclic_subset) (use edges_within_subset in \<open>auto simp: arcs_of_def\<close>)

lemma walk_edges_within:
  "walk (edges_within ids edges) is ks \<Longrightarrow> j \<in> set (tl is) \<Longrightarrow> j \<in> set ids"
proof (induction "edges_within ids edges" "is" ks rule: walk.induct)
  case (2 i j' "is" k ks)
  then show ?case by (auto simp: edges_within_def)
qed auto

lemma first_path_sound:
  "path_memo_ok inner r memo \<Longrightarrow> first_path nodes inner r ns memo = Some p \<Longrightarrow>
     \<exists>n \<in> set ns. path_between inner r (n_id n) p"
proof (induction nodes inner r ns memo rule: first_path.induct)
  case (2 nodes inner r n ns memo)
  obtain res memo' where run: "path_to_root nodes inner r (n_id n) [] memo = (res, memo')" by fastforce
  note ok = path_to_root_sound(1) [OF "2.prems"(1) run]
  from 2 run ok show ?case
    by (cases res) auto
qed simp

lemma first_path_complete:
  "acyclic (arcs_of inner) \<Longrightarrow> path_memo_ok inner r memo \<Longrightarrow> memo_exact nodes inner r memo \<Longrightarrow>
     (case find (\<lambda>n. has_chain nodes inner r (n_id n)) ns of
        None \<Rightarrow> first_path nodes inner r ns memo = None
      | Some n \<Rightarrow> \<exists>p. first_path nodes inner r ns memo = Some p \<and> path_between inner r (n_id n) p)"
proof (induction nodes inner r ns memo rule: first_path.induct)
  case (2 nodes inner r n ns memo)
  obtain res memo' where run: "path_to_root nodes inner r (n_id n) [] memo = (res, memo')" by fastforce
  note ok = path_to_root_sound(1) [OF "2.prems"(2) run]
  have exact: "memo_exact nodes inner r memo' \<and> (res \<noteq> None) = has_chain nodes inner r (n_id n)"
    by (rule path_to_root_complete(1) [OF "2.prems"(1,3) _ run]) simp
  from 2 run ok exact show ?case
    by (cases res) (auto split: option.splits)
qed simp

lemma memo_empty: "path_memo_ok inner r (\<lambda>_. None)" "memo_exact nodes inner r (\<lambda>_. None)"
  by (simp_all add: path_memo_ok_def memo_exact_def)

lemma completed_path_sound:
  assumes "completed_path_from_root rt nodes edges ids = Some p"
  shows "path_between (edges_within ids edges) (n_id rt) (last (p_nodes p)) p
     \<and> (\<forall>j \<in> set (tl (p_nodes p)). is_done_child nodes j)"
proof -
  let ?inner = "edges_within ids edges"
  let ?starts = "filter (\<lambda>e. e_type e = Decomposes \<and> is_done_child nodes (e_target e))
                     (filter (\<lambda>e. e_source e = n_id rt) ?inner)"
  from assms have "p \<in> set (completed_paths nodes ?inner (n_id rt) ?starts (\<lambda>_. None))"
    unfolding completed_path_from_root_def Let_def by (rule best_completed_path_in)
  then show ?thesis by (rule completed_paths_sound [rotated 2]) auto
qed

lemma derive_cases:
  assumes "select_root_task nodes = Some r"
  obtains (frontier) n where "n \<in> set (frontier nodes (path_subgraph r nodes edges))"
      "first_path nodes (edges_within (path_subgraph r nodes edges) edges) (n_id r)
         (frontier nodes (path_subgraph r nodes edges)) (\<lambda>_. None) = Some (derive_active_path_selection nodes edges)"
      "path_between (edges_within (path_subgraph r nodes edges) edges) (n_id r) (n_id n)
         (derive_active_path_selection nodes edges)"
  | (completed) "first_path nodes (edges_within (path_subgraph r nodes edges) edges) (n_id r)
         (frontier nodes (path_subgraph r nodes edges)) (\<lambda>_. None) = None"
      "path_between (edges_within (path_subgraph r nodes edges) edges) (n_id r)
         (last (p_nodes (derive_active_path_selection nodes edges))) (derive_active_path_selection nodes edges)"
      "\<forall>j \<in> set (tl (p_nodes (derive_active_path_selection nodes edges))). is_done_child nodes j"
proof (cases "first_path nodes (edges_within (path_subgraph r nodes edges) edges) (n_id r)
         (frontier nodes (path_subgraph r nodes edges)) (\<lambda>_. None)")
  case None
  show ?thesis
  proof (rule completed [OF None])
    show "path_between (edges_within (path_subgraph r nodes edges) edges) (n_id r)
         (last (p_nodes (derive_active_path_selection nodes edges))) (derive_active_path_selection nodes edges)"
      using completed_path_sound assms None
      by (auto simp: derive_active_path_selection_def Let_def path_between_def split: option.splits)
    show "\<forall>j \<in> set (tl (p_nodes (derive_active_path_selection nodes edges))). is_done_child nodes j"
      using completed_path_sound assms None
      by (auto simp: derive_active_path_selection_def Let_def split: option.splits)
  qed
next
  case (Some p)
  then have "p = derive_active_path_selection nodes edges"
    using assms by (simp add: derive_active_path_selection_def Let_def)
  with first_path_sound [OF memo_empty(1) Some] Some show ?thesis by (blast intro: frontier)
qed

lemma derive_active_walk:
  assumes "select_root_task nodes = Some r"
  shows "walk edges (p_nodes (derive_active_path_selection nodes edges)) (p_edges (derive_active_path_selection nodes edges))
     \<and> hd (p_nodes (derive_active_path_selection nodes edges)) = n_id r
     \<and> set (tl (p_nodes (derive_active_path_selection nodes edges))) \<subseteq> set (path_subgraph r nodes edges)"
proof -
  let ?inner = "edges_within (path_subgraph r nodes edges) edges"
  let ?p = "derive_active_path_selection nodes edges"
  from assms have w: "walk ?inner (p_nodes ?p) (p_edges ?p) \<and> hd (p_nodes ?p) = n_id r"
    by (cases rule: derive_cases [of _ _ edges]) (auto simp: path_between_def)
  then have "walk edges (p_nodes ?p) (p_edges ?p)"
    using walk_mono edges_within_subset by blast
  moreover have "set (tl (p_nodes ?p)) \<subseteq> set (path_subgraph r nodes edges)"
    using w walk_edges_within by blast
  ultimately show ?thesis using w by blast
qed

text \<open>
  the active path is a path of the session's graph. It starts at the root task, consecutive
  nodes are joined by the edge listed between them, every other node belongs to the root's
  subgraph and to no side branch, and in a graph without cycles no node occurs twice.
\<close>

theorem active_path_walk:
  assumes "select_root_task nodes = Some r" and "no_cycle (arcs edges)"
  shows "(let p = derive_active_path_selection nodes edges in
     walk edges (p_nodes p) (p_edges p) \<and> hd (p_nodes p) = n_id r \<and> distinct (p_nodes p)
     \<and> set (tl (p_nodes p)) \<subseteq> set (task_subgraph_node_ids (n_id r) nodes edges)
                                   - set (side_branch_successor_node_ids nodes edges))"
  using derive_active_walk [OF assms(1), of edges] walk_distinct assms(2)
  by (auto simp: Let_def path_subgraph_def acyclic_arcs)

text \<open>
  C5: where the active path leads. In a graph without cycles it ends at the first node of the
  frontier, in priority order, that the root reaches over edges that may carry the path: the memo
  table and the call stack hide none. When no node of the frontier is reached, every node after
  the root is finished work.
\<close>

theorem active_path_target:
  assumes "select_root_task nodes = Some r" and "no_cycle (arcs edges)"
  shows "(let ids = path_subgraph r nodes edges;
              inner = edges_within ids edges;
              p = derive_active_path_selection nodes edges
          in case find (\<lambda>n. has_chain nodes inner (n_id r) (n_id n)) (frontier nodes ids) of
               Some n \<Rightarrow> last (p_nodes p) = n_id n
             | None \<Rightarrow> list_all (is_done_child nodes) (tl (p_nodes p)))"
proof -
  let ?ids = "path_subgraph r nodes edges"
  let ?inner = "edges_within ?ids edges"
  have "acyclic (arcs_of ?inner)"
    using acyclic_edges_within assms(2) by (auto simp: acyclic_arcs)
  then have complete: "case find (\<lambda>n. has_chain nodes ?inner (n_id r) (n_id n)) (frontier nodes ?ids) of
        None \<Rightarrow> first_path nodes ?inner (n_id r) (frontier nodes ?ids) (\<lambda>_. None) = None
      | Some n \<Rightarrow> \<exists>p. first_path nodes ?inner (n_id r) (frontier nodes ?ids) (\<lambda>_. None) = Some p
          \<and> path_between ?inner (n_id r) (n_id n) p"
    by (rule first_path_complete [OF _ memo_empty])
  show ?thesis
  proof (cases "find (\<lambda>n. has_chain nodes ?inner (n_id r) (n_id n)) (frontier nodes ?ids)")
    case None
    from assms(1) complete None show ?thesis
      by (cases rule: derive_cases [of _ _ edges]) (auto simp: Let_def list_all_iff)
  next
    case (Some n)
    from assms(1) complete Some show ?thesis
      by (cases rule: derive_cases [of _ _ edges]) (auto simp: Let_def path_between_def)
  qed
qed

end
