(* ===== verification/Dag_Validate.thy ===== *)
theory Dag_Validate
  imports Dag_Patch
begin

text \<open>
  \<open>validateDagPatch\<close> and \<open>normalizeDagTaskTransition\<close> of \<open>session-dag/patch-schema.ts\<close>:
  from an arbitrary JSON value to a list of operations that the store may apply.
\<close>

section \<open>Validation of one operation\<close>

definition add_node_keys :: "string list" where
  "add_node_keys = [''op'', ''temp_id'', ''kind'', ''status'', ''title'', ''summary'', ''importance'',
     ''detail_json'', ''source_refs'']"

definition update_node_keys :: "string list" where
  "update_node_keys = [''op'', ''node_id'', ''title'', ''summary'', ''status'', ''importance'',
     ''detail_json'', ''source_refs'']"

definition add_edge_keys :: "string list" where
  "add_edge_keys = [''op'', ''source_id'', ''target_id'', ''type'']"

definition required_importance :: "json_obj \<Rightarrow> nat \<Rightarrow> patch_error + int" where
  "required_importance raw index =
     (case normalize_importance (map_of raw ''importance'') of
        None \<Rightarrow> Inl (ImportanceRange index) | Some i \<Rightarrow> Inr i)"

definition validate_add_node :: "json_obj \<Rightarrow> nat \<Rightarrow> string \<Rightarrow> patch_error + add_node_op" where
  "validate_add_node raw index expected =
     bindE (reject_unknown_keys raw add_node_keys index) (\<lambda>_.
     bindE (enum_field raw ''kind'' parse_kind index) (\<lambda>kind.
     bindE (enum_field raw ''status'' parse_status index) (\<lambda>status.
     bindE (throw_if (kind = KTask \<and> status \<noteq> SActive \<and> status \<noteq> SBlocked) (AddTaskStatus index)) (\<lambda>_.
     bindE (required_importance raw index) (\<lambda>importance.
     let source_refs = sanitize_source_refs (map_of raw ''source_refs'') None in
     bindE (throw_if (kind = KTask \<and> source_refs \<noteq> []) TaskSourceRefs) (\<lambda>_.
     bindE (required_temp_id (map_of raw ''temp_id'') index expected) (\<lambda>temp_id.
     bindE (required_bounded_string (map_of raw ''title'') ''title'' index 120) (\<lambda>title.
     bindE (required_bounded_string (map_of raw ''summary'') ''summary'' index 1000) (\<lambda>summary.
     Inr \<lparr>a_temp_id = temp_id, a_kind = kind, a_status = status, a_title = title, a_summary = summary,
          a_importance = importance,
          a_detail = Some (sanitize_detail_json kind (map_of raw ''detail_json'')),
          a_refs = Some source_refs\<rparr>)))))))))"

text \<open>\<open>if (field in raw) out.field = ...\<close>\<close>

definition optional_field :: "json_obj \<Rightarrow> string \<Rightarrow> (unit \<Rightarrow> 'e + 'a) \<Rightarrow> 'e + 'a option" where
  "optional_field raw field read =
     (if has_key raw field then bindE (read ()) (\<lambda>x. Inr (Some x)) else Inr None)"

type_synonym kind_map = "(string \<times> node_kind) list"

definition validate_update_node ::
  "json_obj \<Rightarrow> nat \<Rightarrow> kind_map \<Rightarrow> patch_error + update_node_op" where
  "validate_update_node raw index context_kinds =
     bindE (reject_unknown_keys raw update_node_keys index) (\<lambda>_.
     bindE (required_bounded_string (map_of raw ''node_id'') ''node_id'' index 120) (\<lambda>node_id.
     let kind = map_of context_kinds node_id in
     bindE (optional_field raw ''title'' (\<lambda>_. required_bounded_string (map_of raw ''title'') ''title'' index 120)) (\<lambda>title.
     bindE (optional_field raw ''summary'' (\<lambda>_. required_bounded_string (map_of raw ''summary'') ''summary'' index 1000)) (\<lambda>summary.
     bindE (optional_field raw ''status'' (\<lambda>_. enum_field raw ''status'' parse_status index)) (\<lambda>status.
     bindE (optional_field raw ''importance'' (\<lambda>_. required_importance raw index)) (\<lambda>importance.
     bindE (optional_field raw ''detail_json'' (\<lambda>_.
         Inr (case kind of Some k \<Rightarrow> sanitize_detail_json k (map_of raw ''detail_json'') | None \<Rightarrow> []))) (\<lambda>detail.
     bindE (optional_field raw ''source_refs'' (\<lambda>_.
         let source_refs = sanitize_source_refs (map_of raw ''source_refs'') None in
         bindE (throw_if (kind = Some KTask \<and> source_refs \<noteq> []) TaskSourceRefs) (\<lambda>_. Inr source_refs))) (\<lambda>refs.
     bindE (throw_if (title = None \<and> summary = None \<and> status = None \<and> importance = None
         \<and> detail = None \<and> refs = None) (NoUpdates index)) (\<lambda>_.
     Inr \<lparr>u_node_id = node_id, u_title = title, u_summary = summary, u_status = status,
          u_importance = importance, u_detail = detail, u_refs = refs\<rparr>)))))))))"

definition validate_add_edge ::
  "json_obj \<Rightarrow> nat \<Rightarrow> kind_map \<Rightarrow> kind_map \<Rightarrow> patch_error + add_edge_op" where
  "validate_add_edge raw index temp_kinds context_kinds =
     bindE (reject_unknown_keys raw add_edge_keys index) (\<lambda>_.
     bindE (required_bounded_string (map_of raw ''source_id'') ''source_id'' index 120) (\<lambda>source_id.
     bindE (required_bounded_string (map_of raw ''target_id'') ''target_id'' index 120) (\<lambda>target_id.
     bindE (throw_if (source_id = target_id) (SelfEdge index)) (\<lambda>_.
     bindE (throw_if (map_of context_kinds source_id = None \<and> map_of temp_kinds source_id = None)
         (SourceUnknown index)) (\<lambda>_.
     bindE (throw_if (map_of context_kinds target_id = None \<and> map_of temp_kinds target_id = None)
         (TargetUnknown index)) (\<lambda>_.
     bindE (enum_field raw ''type'' parse_edge_type index) (\<lambda>ty.
     let source_kind = or_else (map_of temp_kinds source_id) (map_of context_kinds source_id);
         target_kind = or_else (map_of temp_kinds target_id) (map_of context_kinds target_id) in
     bindE (throw_if (ty = SideBranch \<and> source_kind \<noteq> Some KTask) (SideBranchSource index)) (\<lambda>_.
     bindE (throw_if (ty = SideBranch \<and> target_kind = Some KTask) (SideBranchTarget index)) (\<lambda>_.
     Inr \<lparr>ae_source = source_id, ae_target = target_id, ae_type = ty\<rparr>)))))))))"

section \<open>Connectivity of the added nodes\<close>

text \<open>One pass of the \<open>while (changed)\<close> loop over the edges.\<close>

definition connect_step :: "string list \<Rightarrow> string list \<Rightarrow> add_edge_op \<Rightarrow> string list" where
  "connect_step added conn edge =
     (if ae_source edge \<notin> set conn \<or> ae_target edge \<in> set conn \<or> ae_target edge \<notin> set added
      then conn else conn @ [ae_target edge])"

definition connect_pass :: "add_edge_op list \<Rightarrow> string list \<Rightarrow> string list \<Rightarrow> string list" where
  "connect_pass edges added conn = foldl (connect_step added) conn edges"

lemma connect_pass_grows:
  "\<exists>new. connect_pass edges added conn = conn @ new \<and> distinct new
     \<and> set new \<subseteq> set added - set conn"
proof (induction edges arbitrary: conn)
  case Nil
  then show ?case by (simp add: connect_pass_def)
next
  case (Cons e edges)
  show ?case
  proof (cases "connect_step added conn e = conn")
    case True
    with Cons [of conn] show ?thesis by (simp add: connect_pass_def)
  next
    case False
    then have step: "connect_step added conn e = conn @ [ae_target e]"
      "ae_target e \<in> set added - set conn"
      by (auto simp: connect_step_def split: if_splits)
    from Cons [of "conn @ [ae_target e]"] obtain new
      where "connect_pass edges added (conn @ [ae_target e]) = (conn @ [ae_target e]) @ new"
        "distinct new" "set new \<subseteq> set added - set (conn @ [ae_target e])" by blast
    with step show ?thesis
      by (intro exI [of _ "ae_target e # new"]) (auto simp: connect_pass_def)
  qed
qed

function connect_all :: "add_edge_op list \<Rightarrow> string list \<Rightarrow> string list \<Rightarrow> string list" where
  "connect_all edges added conn =
     (let conn' = connect_pass edges added conn in
      if conn' = conn then conn else connect_all edges added conn')"
  by pat_completeness auto

lemma connect_pass_measure:
  assumes "connect_pass edges added conn \<noteq> conn"
  shows "card (set added - set (connect_pass edges added conn)) < card (set added - set conn)"
proof -
  obtain new where new: "connect_pass edges added conn = conn @ new"
    "set new \<subseteq> set added - set conn"
    using connect_pass_grows by blast
  with assms have "new \<noteq> []" by auto
  then obtain x where "x \<in> set new" by fastforce
  with new have "set added - set (conn @ new) \<subset> set added - set conn" by auto
  then show ?thesis
    unfolding new(1) by (intro psubset_card_mono) simp_all
qed

termination connect_all
  by (relation "measure (\<lambda>(edges, added, conn). card (set added - set conn))")
    (auto simp: connect_pass_measure)

declare connect_all.simps [simp del]

definition validate_added_node_connectivity ::
  "patch_op list \<Rightarrow> kind_map \<Rightarrow> patch_error + unit" where
  "validate_added_node_connectivity ops context_kinds =
     (let added = map (\<lambda>a. (a_temp_id a, a_kind a)) (added_nodes ops);
          conn = map fst context_kinds @ map fst (filter (\<lambda>a. snd a = KTask) added);
          closed = connect_all (added_edges ops) (map fst added) conn in
      bindE (throw_if (length (filter (\<lambda>a. snd a = KTask) added) > 1) AtMostOneTask) (\<lambda>_.
      foldE (\<lambda>_ (temp_id, kind). throw_if (kind \<noteq> KTask \<and> temp_id \<notin> set closed)
               (NotConnected temp_id kind)) () added))"

section \<open>The whole patch\<close>

text \<open>The loop variables: the operations so far, the kinds of the temporary ids, the next ordinal.\<close>

record validation =
  v_ops :: "patch_op list"
  v_temp_kinds :: kind_map
  v_next :: nat

definition validate_op ::
  "kind_map \<Rightarrow> validation \<Rightarrow> nat \<times> json \<Rightarrow> patch_error + validation" where
  "validate_op context_kinds v indexed =
     (let index = fst indexed in
      case snd indexed of
        JObj raw \<Rightarrow>
          (let op = string_field raw ''op'' in
           if op = Some ''add_node'' then
             bindE (validate_add_node raw index (CHR ''n'' # nat_str (v_next v))) (\<lambda>add.
             bindE (throw_if (map_of (v_temp_kinds v) (a_temp_id add) \<noteq> None
                  \<or> map_of context_kinds (a_temp_id add) \<noteq> None) (DuplicateTempId index)) (\<lambda>_.
             Inr \<lparr>v_ops = v_ops v @ [AddNode add],
                  v_temp_kinds = v_temp_kinds v @ [(a_temp_id add, a_kind add)],
                  v_next = Suc (v_next v)\<rparr>))
           else if op = Some ''update_node'' then
             bindE (validate_update_node raw index context_kinds) (\<lambda>update.
             bindE (throw_if (map_of context_kinds (u_node_id update) = None)
                  (if temp_id_pattern (u_node_id update) then UpdateOfTempId index (u_node_id update)
                   else OutsideContext index)) (\<lambda>_.
             Inr (v\<lparr>v_ops := v_ops v @ [UpdateNode update]\<rparr>)))
           else if op = Some ''add_edge'' then
             bindE (validate_add_edge raw index (v_temp_kinds v) context_kinds) (\<lambda>edge.
             Inr (v\<lparr>v_ops := v_ops v @ [AddEdge edge]\<rparr>))
           else Inl (UnsupportedOp index))
      | _ \<Rightarrow> Inl (OpNotObject index))"

definition validate_dag_patch :: "json \<Rightarrow> kind_map \<Rightarrow> patch_error + patch_op list" where
  "validate_dag_patch input context_kinds =
     (case input of
        JObj raw \<Rightarrow>
          bindE (reject_unknown_top_level_keys raw) (\<lambda>_.
          case map_of raw ''ops'' of
            Some (JArr items) \<Rightarrow>
              bindE (foldE (validate_op context_kinds) \<lparr>v_ops = [], v_temp_kinds = [], v_next = 0\<rparr>
                       (List.enumerate 0 items)) (\<lambda>v.
              bindE (validate_added_node_connectivity (v_ops v) context_kinds) (\<lambda>_.
              Inr (v_ops v)))
          | _ \<Rightarrow> Inl OpsNotArray)
      | _ \<Rightarrow> Inl PatchNotObject)"

section \<open>Connectivity is reachability\<close>

text \<open>The arcs that the loop follows: an edge of the patch into an added node.\<close>

definition connect_arcs :: "add_edge_op list \<Rightarrow> string list \<Rightarrow> string rel" where
  "connect_arcs edges added = {(ae_source e, ae_target e) | e. e \<in> set edges \<and> ae_target e \<in> set added}"

lemma connect_step_sound:
  "x \<in> set (connect_step added conn e) \<Longrightarrow> e \<in> set edges \<Longrightarrow>
     \<exists>c \<in> set conn. (c, x) \<in> (connect_arcs edges added)\<^sup>*"
  by (auto simp: connect_step_def connect_arcs_def split: if_splits)

lemma connect_pass_sound:
  assumes "x \<in> set (connect_pass es added conn)" and "set es \<subseteq> set edges"
  shows "\<exists>c \<in> set conn. (c, x) \<in> (connect_arcs edges added)\<^sup>*"
  using assms
proof (induction es arbitrary: conn x)
  case Nil
  then show ?case by (auto simp: connect_pass_def)
next
  case (Cons e es)
  then obtain c where c: "c \<in> set (connect_step added conn e)"
    and path: "(c, x) \<in> (connect_arcs edges added)\<^sup>*"
    unfolding connect_pass_def by (metis foldl_Cons list.set_intros(2) subsetD subsetI)
  from Cons.prems(2) have "e \<in> set edges" by simp
  with connect_step_sound [OF c] path show ?case by (meson rtrancl_trans)
qed

lemma connect_pass_fixed:
  assumes "connect_pass es added conn = conn" and "e \<in> set es"
    and "ae_source e \<in> set conn" and "ae_target e \<in> set added"
  shows "ae_target e \<in> set conn"
  using assms(1,2)
proof (induction es)
  case Nil
  then show ?case by simp
next
  case (Cons f es)
  obtain new where new: "connect_pass es added (connect_step added conn f)
      = connect_step added conn f @ new"
    using connect_pass_grows by blast
  have eq: "connect_pass es added (connect_step added conn f) = conn"
    using Cons.prems(1) by (simp add: connect_pass_def)
  have step: "connect_step added conn f = conn"
  proof (rule ccontr)
    assume "connect_step added conn f \<noteq> conn"
    then have "connect_step added conn f = conn @ [ae_target f]"
      by (auto simp: connect_step_def split: if_splits)
    with new eq show False by simp
  qed
  show ?case
  proof (cases "e = f")
    case True
    with step assms(3,4) show ?thesis by (auto simp: connect_step_def split: if_splits)
  next
    case False
    with Cons step eq show ?thesis by simp
  qed
qed

lemma connect_all_sound:
  "x \<in> set (connect_all edges added conn) \<Longrightarrow>
     \<exists>c \<in> set conn. (c, x) \<in> (connect_arcs edges added)\<^sup>*"
proof (induction edges added conn rule: connect_all.induct)
  case (1 edges added conn)
  show ?case
  proof (cases "connect_pass edges added conn = conn")
    case True
    with "1.prems" show ?thesis by (subst (asm) connect_all.simps) auto
  next
    case False
    with "1.prems" have "x \<in> set (connect_all edges added (connect_pass edges added conn))"
      by (subst (asm) connect_all.simps) (simp add: Let_def)
    with "1.IH" [OF refl False] obtain c where c: "c \<in> set (connect_pass edges added conn)"
      and path: "(c, x) \<in> (connect_arcs edges added)\<^sup>*" by blast
    from connect_pass_sound [OF c subset_refl] path show ?thesis by (meson rtrancl_trans)
  qed
qed

lemma connect_all_closed:
  "set conn \<subseteq> set (connect_all edges added conn) \<and>
   (\<forall>x y. x \<in> set (connect_all edges added conn) \<longrightarrow> (x, y) \<in> connect_arcs edges added \<longrightarrow>
     y \<in> set (connect_all edges added conn))"
proof (induction edges added conn rule: connect_all.induct)
  case (1 edges added conn)
  show ?case
  proof (cases "connect_pass edges added conn = conn")
    case True
    then have "connect_all edges added conn = conn" by (subst connect_all.simps) simp
    with connect_pass_fixed [OF True] show ?thesis by (auto simp: connect_arcs_def)
  next
    case False
    then have eq: "connect_all edges added conn = connect_all edges added (connect_pass edges added conn)"
      by (subst connect_all.simps) (simp add: Let_def)
    have "set conn \<subseteq> set (connect_pass edges added conn)"
      using connect_pass_grows [of edges added conn] by auto
    with "1.IH" [OF refl False] show ?thesis unfolding eq by blast
  qed
qed

theorem set_connect_all:
  "set (connect_all edges added conn) = {x. \<exists>c \<in> set conn. (c, x) \<in> (connect_arcs edges added)\<^sup>*}"
proof (rule set_eqI, rule iffI)
  fix x assume "x \<in> set (connect_all edges added conn)"
  then show "x \<in> {x. \<exists>c \<in> set conn. (c, x) \<in> (connect_arcs edges added)\<^sup>*}"
    using connect_all_sound by blast
next
  fix x assume "x \<in> {x. \<exists>c \<in> set conn. (c, x) \<in> (connect_arcs edges added)\<^sup>*}"
  then obtain c where c: "c \<in> set conn" and path: "(c, x) \<in> (connect_arcs edges added)\<^sup>*" by blast
  from path show "x \<in> set (connect_all edges added conn)"
    by (induction rule: rtrancl_induct) (use c connect_all_closed in blast)+
qed

section \<open>What validation guarantees\<close>

abbreviation temp_name :: "nat \<Rightarrow> string" where
  "temp_name i \<equiv> CHR ''n'' # nat_str i"

definition add_node_wf :: "add_node_op \<Rightarrow> bool" where
  "add_node_wf a \<longleftrightarrow> 0 \<le> a_importance a \<and> a_importance a \<le> 100 \<and> a_title a \<noteq> [] \<and> a_summary a \<noteq> []
     \<and> (a_kind a = KTask \<longrightarrow> a_status a \<in> {SActive, SBlocked} \<and> a_refs a = Some [])"

definition update_node_wf :: "kind_map \<Rightarrow> update_node_op \<Rightarrow> bool" where
  "update_node_wf context_kinds u \<longleftrightarrow> u_node_id u \<in> fst ` set context_kinds
     \<and> (u_title u \<noteq> None \<or> u_summary u \<noteq> None \<or> u_status u \<noteq> None \<or> u_importance u \<noteq> None
        \<or> u_detail u \<noteq> None \<or> u_refs u \<noteq> None)
     \<and> (\<forall>i. u_importance u = Some i \<longrightarrow> 0 \<le> i \<and> i \<le> 100)"

definition known_ids :: "kind_map \<Rightarrow> patch_op list \<Rightarrow> string set" where
  "known_ids context_kinds ops = fst ` set context_kinds \<union> a_temp_id ` set (added_nodes ops)"

definition add_edge_wf :: "kind_map \<Rightarrow> patch_op list \<Rightarrow> add_edge_op \<Rightarrow> bool" where
  "add_edge_wf context_kinds ops e \<longleftrightarrow> ae_source e \<noteq> ae_target e
     \<and> ae_source e \<in> known_ids context_kinds ops \<and> ae_target e \<in> known_ids context_kinds ops"

definition patch_wf :: "kind_map \<Rightarrow> patch_op list \<Rightarrow> bool" where
  "patch_wf context_kinds ops \<longleftrightarrow>
     map a_temp_id (added_nodes ops) = map temp_name [0..<length (added_nodes ops)]
     \<and> (\<forall>a \<in> set (added_nodes ops). add_node_wf a \<and> a_temp_id a \<notin> fst ` set context_kinds)
     \<and> (\<forall>u \<in> set (node_updates ops). update_node_wf context_kinds u)
     \<and> (\<forall>e \<in> set (added_edges ops). add_edge_wf context_kinds ops e)"

lemma required_bounded_string_nonempty:
  "required_bounded_string v f i n = Inr s \<Longrightarrow> s \<noteq> []"
  by (auto simp: required_bounded_string_def split: option.splits if_splits)

lemma validate_add_node_wf:
  "validate_add_node raw index expected = Inr a \<Longrightarrow> add_node_wf a \<and> a_temp_id a = expected"
  by (auto simp: validate_add_node_def error_simps add_node_wf_def Let_def required_importance_def
      required_temp_id_def split: option.splits if_splits
      dest: normalize_importance_range required_bounded_string_nonempty)

lemma optional_field_Some:
  "optional_field raw f read = Inr (Some x) \<Longrightarrow> read () = Inr x"
  by (auto simp: optional_field_def error_simps split: if_splits)

lemma required_importance_range: "required_importance raw index = Inr i \<Longrightarrow> 0 \<le> i \<and> i \<le> 100"
  by (auto simp: required_importance_def split: option.splits dest: normalize_importance_range)

lemma validate_update_node_wf:
  assumes "validate_update_node raw index context_kinds = Inr u"
    and "map_of context_kinds (u_node_id u) \<noteq> None"
  shows "update_node_wf context_kinds u"
proof -
  from assms(1) have some: "\<not> (u_title u = None \<and> u_summary u = None \<and> u_status u = None
      \<and> u_importance u = None \<and> u_detail u = None \<and> u_refs u = None)"
    and imp: "optional_field raw ''importance'' (\<lambda>_. required_importance raw index) = Inr (u_importance u)"
    by (auto simp: validate_update_node_def error_simps Let_def)
  have "\<And>i. u_importance u = Some i \<Longrightarrow> 0 \<le> i \<and> i \<le> 100"
    using imp optional_field_Some required_importance_range by metis
  with some assms(2) show ?thesis
    by (auto simp: update_node_wf_def map_of_eq_None_iff)
qed

lemma validate_add_edge_wf:
  assumes "validate_add_edge raw index temp_kinds context_kinds = Inr e"
    and "fst ` set temp_kinds \<subseteq> a_temp_id ` set (added_nodes ops)"
  shows "add_edge_wf context_kinds ops e"
proof -
  from assms(1) have "ae_source e \<noteq> ae_target e"
    "map_of context_kinds (ae_source e) \<noteq> None \<or> map_of temp_kinds (ae_source e) \<noteq> None"
    "map_of context_kinds (ae_target e) \<noteq> None \<or> map_of temp_kinds (ae_target e) \<noteq> None"
    by (auto simp: validate_add_edge_def error_simps Let_def)
  with assms(2) show ?thesis
    unfolding add_edge_wf_def known_ids_def map_of_eq_None_iff by auto
qed

lemma add_edge_wf_mono:
  "add_edge_wf k ops e \<Longrightarrow> set (added_nodes ops) \<subseteq> set (added_nodes ops') \<Longrightarrow> add_edge_wf k ops' e"
  by (auto simp: add_edge_wf_def known_ids_def)

definition validation_inv :: "kind_map \<Rightarrow> validation \<Rightarrow> bool" where
  "validation_inv k v \<longleftrightarrow> patch_wf k (v_ops v)
     \<and> v_temp_kinds v = map (\<lambda>a. (a_temp_id a, a_kind a)) (added_nodes (v_ops v))
     \<and> v_next v = length (added_nodes (v_ops v))"

lemma validate_op_inv:
  assumes "validation_inv k v" and "validate_op k v x = Inr v'"
  shows "validation_inv k v'"
proof -
  from assms(2) obtain raw where raw: "snd x = JObj raw"
    by (auto simp: validate_op_def Let_def split: json.splits)
  let ?op = "string_field raw ''op''"
  note wf = assms(1) [unfolded validation_inv_def patch_wf_def]
  consider (add) "?op = Some ''add_node''" | (upd) "?op = Some ''update_node''" | (edge) "?op = Some ''add_edge''"
    using assms(2) raw by (auto simp: validate_op_def Let_def split: if_splits)
  then show ?thesis
  proof cases
    case add
    with assms(2) raw obtain a where a: "validate_add_node raw (fst x) (temp_name (v_next v)) = Inr a"
      and fresh: "map_of k (a_temp_id a) = None"
      and v': "v' = \<lparr>v_ops = v_ops v @ [AddNode a],
                  v_temp_kinds = v_temp_kinds v @ [(a_temp_id a, a_kind a)], v_next = Suc (v_next v)\<rparr>"
      by (auto simp: validate_op_def error_simps Let_def)
    from validate_add_node_wf [OF a] fresh wf show ?thesis
      by (auto simp: v' validation_inv_def patch_wf_def map_of_eq_None_iff elim!: add_edge_wf_mono)
  next
    case upd
    with assms(2) raw obtain u where u: "validate_update_node raw (fst x) k = Inr u"
      and known: "map_of k (u_node_id u) \<noteq> None"
      and v': "v' = v\<lparr>v_ops := v_ops v @ [UpdateNode u]\<rparr>"
      by (auto simp: validate_op_def error_simps Let_def)
    from validate_update_node_wf [OF u known] wf show ?thesis
      by (auto simp: v' validation_inv_def patch_wf_def elim!: add_edge_wf_mono)
  next
    case edge
    with assms(2) raw obtain e where e: "validate_add_edge raw (fst x) (v_temp_kinds v) k = Inr e"
      and v': "v' = v\<lparr>v_ops := v_ops v @ [AddEdge e]\<rparr>"
      by (auto simp: validate_op_def error_simps Let_def)
    have "add_edge_wf k (v_ops v) e"
      by (rule validate_add_edge_wf [OF e]) (use wf in auto)
    with wf show ?thesis
      by (auto simp: v' validation_inv_def patch_wf_def elim!: add_edge_wf_mono)
  qed
qed

lemma validate_dag_patch_cases:
  assumes "validate_dag_patch input k = Inr ops"
  obtains v where "validation_inv k v" and "ops = v_ops v"
    and "validate_added_node_connectivity ops k = Inr ()"
proof -
  from assms obtain raw items v where
    fold: "foldE (validate_op k) \<lparr>v_ops = [], v_temp_kinds = [], v_next = 0\<rparr> (List.enumerate 0 items) = Inr v"
    and conn: "validate_added_node_connectivity (v_ops v) k = Inr ()" and ops: "ops = v_ops v"
    by (auto simp: validate_dag_patch_def error_simps split: json.splits option.splits)
  have "validation_inv k v"
    by (rule foldE_invariant [OF fold, of "validation_inv k"])
      (simp add: validation_inv_def patch_wf_def, rule validate_op_inv)
  with conn ops show ?thesis by (intro that [of v]) auto
qed

text \<open>
  C3: a JSON value that validation accepts is a well-formed patch: the temporary ids are
  \<open>n0, n1, ...\<close> in the order of the added nodes and none of them is an existing id, importances
  are within 0..100, a new task is active or blocked and cites nothing, every update names a node of
  the builder's context and changes something, every edge joins two different known nodes, at most
  one task is added, and every other added node is reachable, along the edges of the patch, from a
  context node or from the added task.
\<close>

theorem validated_patch_wf:
  assumes "validate_dag_patch input context_kinds = Inr ops"
  shows "patch_wf context_kinds ops
    \<and> length (filter (\<lambda>a. a_kind a = KTask) (added_nodes ops)) \<le> 1
    \<and> (\<forall>a \<in> set (added_nodes ops). a_kind a \<noteq> KTask \<longrightarrow>
         (\<exists>c \<in> fst ` set context_kinds \<union> a_temp_id ` {t \<in> set (added_nodes ops). a_kind t = KTask}.
            (c, a_temp_id a) \<in> (connect_arcs (added_edges ops) (map a_temp_id (added_nodes ops)))\<^sup>*))"
proof -
  from assms obtain v where inv: "validation_inv context_kinds v" and ops: "ops = v_ops v"
    and ok: "validate_added_node_connectivity ops context_kinds = Inr ()"
    by (rule validate_dag_patch_cases)
  let ?added = "map (\<lambda>a. (a_temp_id a, a_kind a)) (added_nodes ops)"
  let ?start = "map fst context_kinds @ map fst (filter (\<lambda>a. snd a = KTask) ?added)"
  let ?closed = "connect_all (added_edges ops) (map fst ?added) ?start"
  from ok have one: "length (filter (\<lambda>a. snd a = KTask) ?added) \<le> 1"
    and loop: "foldE (\<lambda>_ (temp_id, kind). throw_if (kind \<noteq> KTask \<and> temp_id \<notin> set ?closed)
               (NotConnected temp_id kind)) () ?added = Inr ()"
    by (auto simp: validate_added_node_connectivity_def Let_def error_simps)
  have all: "\<forall>(temp_id, kind) \<in> set xs. kind \<noteq> KTask \<longrightarrow> temp_id \<in> set C"
    if "foldE (\<lambda>_ (temp_id, kind). throw_if (kind \<noteq> KTask \<and> temp_id \<notin> set C)
               (NotConnected temp_id kind)) () xs = Inr ()" for xs C
    using that by (induction xs) (auto simp: error_simps)
  have "\<forall>a \<in> set (added_nodes ops). a_kind a \<noteq> KTask \<longrightarrow> a_temp_id a \<in> set ?closed"
    using all [OF loop] by auto
  moreover have "length (filter (\<lambda>a. a_kind a = KTask) (added_nodes ops)) \<le> 1"
    using one by (simp add: filter_map comp_def)
  moreover have "set ?start = fst ` set context_kinds \<union> a_temp_id ` {t \<in> set (added_nodes ops). a_kind t = KTask}"
    by (force simp: image_iff)
  ultimately show ?thesis
    using inv unfolding set_connect_all by (auto simp: ops validation_inv_def comp_def)
qed

end
