(* ===== verification/Dag_Normalize.thy ===== *)
theory Dag_Normalize
  imports Dag_Validate
begin

text \<open>
  \<open>normalizeDagTaskTransition\<close> of \<open>session-dag/patch-schema.ts\<close>: a patch that adds a task while
  the session has a root task is a task switch; the old root is closed and connected to the new
  task by one edge whose type is decided by the status the old root ends with.
\<close>

section \<open>Definitions\<close>

definition is_terminal_task_status :: "node_status \<Rightarrow> bool" where
  "is_terminal_task_status s \<longleftrightarrow> s = SDone \<or> s = SFailed \<or> s = SFrozen"

definition task_transition_edge_type :: "node_status \<Rightarrow> patch_error + edge_type" where
  "task_transition_edge_type s =
     (if s = SDone \<or> s = SFailed then Inr Continues
      else if s = SFrozen then Inr Supersedes
      else Inl (StatusNotTerminal s))"

definition merge_root_update :: "update_node_op \<Rightarrow> update_node_op \<Rightarrow> update_node_op" where
  "merge_root_update merged update = merged\<lparr>
     u_title := or_else (u_title update) (u_title merged),
     u_summary := or_else (u_summary update) (u_summary merged),
     u_status := or_else (u_status update) (u_status merged),
     u_importance := or_else (u_importance update) (u_importance merged),
     u_detail := (case u_detail update of None \<Rightarrow> u_detail merged
        | Some d \<Rightarrow> Some (obj_merge (case u_detail merged of None \<Rightarrow> [] | Some m \<Rightarrow> m) d)),
     u_refs := (case u_refs update of None \<Rightarrow> u_refs merged
        | Some rs \<Rightarrow> Some (dedupe_source_refs ((case u_refs merged of None \<Rightarrow> [] | Some m \<Rightarrow> m) @ rs)))\<rparr>"

definition empty_update :: "string \<Rightarrow> update_node_op" where
  "empty_update node_id = \<lparr>u_node_id = node_id, u_title = None, u_summary = None, u_status = None,
     u_importance = None, u_detail = None, u_refs = None\<rparr>"

definition merge_root_updates :: "string \<Rightarrow> update_node_op list \<Rightarrow> update_node_op" where
  "merge_root_updates root_id updates = foldl merge_root_update (empty_update root_id) updates"

definition root_id_of :: "dag_context \<Rightarrow> string option" where
  "root_id_of ctx = (if dc_root ctx = Some [] then None else dc_root ctx)"

definition context_root_task :: "dag_context \<Rightarrow> ctx_node option" where
  "context_root_task ctx =
     (case root_id_of ctx of
        None \<Rightarrow> None
      | Some r \<Rightarrow> find (\<lambda>n. c_id n = r \<and> c_kind n = KTask) (dc_nodes ctx))"

definition op_node_kind :: "dag_context \<Rightarrow> patch_op list \<Rightarrow> string \<Rightarrow> node_kind option" where
  "op_node_kind ctx ops i =
     or_else (map_of (rev (map (\<lambda>n. (c_id n, c_kind n)) (dc_nodes ctx))) i)
             (map_of (rev (map (\<lambda>a. (a_temp_id a, a_kind a)) (added_nodes ops))) i)"

definition is_task_edge :: "dag_context \<Rightarrow> patch_op list \<Rightarrow> string \<Rightarrow> add_edge_op \<Rightarrow> bool" where
  "is_task_edge ctx ops added_id e \<longleftrightarrow>
     (op_node_kind ctx ops (ae_source e) = Some KTask \<and> op_node_kind ctx ops (ae_target e) = Some KTask)
     \<or> ae_target e = added_id"

definition root_status_updates :: "string \<Rightarrow> patch_op list \<Rightarrow> node_status list" where
  "root_status_updates root_id ops =
     List.map_filter u_status (filter (\<lambda>u. u_node_id u = root_id) (node_updates ops))"

text \<open>The side-branch rule, and the branch for a turn of the Goal that owns the root task.\<close>

definition check_side_branches ::
  "patch_op list \<Rightarrow> ctx_node option \<Rightarrow> add_node_op option \<Rightarrow> goal_ctx option \<Rightarrow> patch_error + unit" where
  "check_side_branches ops root_task added_task goal =
     (let side_branches = filter (\<lambda>e. ae_type e = SideBranch) (added_edges ops);
          expected = (case goal of
             None \<Rightarrow> None
           | Some g \<Rightarrow>
               (if (case root_task of None \<Rightarrow> False | Some r \<Rightarrow> c_goal_id r = Some (gc_goal_id g))
                then map_option c_id root_task
                else map_option a_temp_id added_task))
      in throw_if (side_branches \<noteq> [] \<and>
           (expected = None \<or> expected = Some []
            \<or> list_ex (\<lambda>e. Some (ae_source e) \<noteq> expected) side_branches)) SideBranchNotGoalTask)"

definition normalize_same_goal ::
  "patch_op list \<Rightarrow> ctx_node \<Rightarrow> add_node_op option \<Rightarrow> goal_ctx \<Rightarrow> patch_error + patch_op list" where
  "normalize_same_goal ops rt added_task g =
     bindE (throw_if (added_task \<noteq> None) GoalSecondTask) (\<lambda>_.
     let statuses = root_status_updates (c_id rt) ops in
     if gc_status g \<noteq> GCompleted then
       bindE (throw_if (list_ex is_terminal_task_status statuses) UnfinishedGoalCloses) (\<lambda>_. Inr ops)
     else
       bindE (throw_if (list_ex (\<lambda>s. s \<noteq> SDone) statuses) CompletedGoalNotDone) (\<lambda>_.
       Inr (if SDone \<in> set statuses then ops
            else UpdateNode ((empty_update (c_id rt))\<lparr>u_status := Some SDone\<rparr>) # ops)))"

text \<open>The status the old root is left with.\<close>

definition resolve_root_status ::
  "dag_context \<Rightarrow> ctx_node \<Rightarrow> node_status option \<Rightarrow> edge_type option \<Rightarrow> goal_ctx option \<Rightarrow> node_status" where
  "resolve_root_status ctx rt explicit_status explicit_edge_type goal =
     (case explicit_status of
        Some s \<Rightarrow> s
      | None \<Rightarrow>
        (case explicit_edge_type of
           Some ty \<Rightarrow>
             (if is_terminal_task_status (c_status rt) then c_status rt
              else if ty = Continues then SDone else SFrozen)
         | None \<Rightarrow>
             (if is_terminal_task_status (c_status rt) then c_status rt
              else if goal = None \<and> c_goal_id rt \<noteq> None \<and> c_goal_id rt \<noteq> Some [] then SFrozen
              else
                (let descendants = filter (\<lambda>n. c_kind n \<noteq> KTask) (dc_nodes ctx);
                     has_done = list_ex (\<lambda>n. c_status n = SDone) descendants;
                     has_open = list_ex (\<lambda>n. c_status n = SActive \<or> c_status n = SBlocked) descendants
                 in if c_status rt = SActive \<and> has_done \<and> \<not> has_open then SDone else SFrozen))))"

definition is_add_edge :: "patch_op \<Rightarrow> bool" where
  "is_add_edge op \<longleftrightarrow> (case op of AddEdge _ \<Rightarrow> True | _ \<Rightarrow> False)"

definition is_update_of :: "string \<Rightarrow> patch_op \<Rightarrow> bool" where
  "is_update_of i op \<longleftrightarrow> (case op of UpdateNode u \<Rightarrow> u_node_id u = i | _ \<Rightarrow> False)"

definition is_task_edge_op :: "dag_context \<Rightarrow> patch_op list \<Rightarrow> string \<Rightarrow> patch_op \<Rightarrow> bool" where
  "is_task_edge_op ctx ops added_id op \<longleftrightarrow> (case op of AddEdge e \<Rightarrow> is_task_edge ctx ops added_id e | _ \<Rightarrow> False)"

definition switch_task ::
  "patch_op list \<Rightarrow> dag_context \<Rightarrow> goal_ctx option \<Rightarrow> string \<Rightarrow> string \<Rightarrow> patch_error + patch_op list" where
  "switch_task ops ctx goal root_id added_id =
     (case find (\<lambda>n. c_id n = root_id) (dc_nodes ctx) of
        None \<Rightarrow> Inl RootNotTask
      | Some rt \<Rightarrow>
        bindE (throw_if (c_kind rt \<noteq> KTask) RootNotTask) (\<lambda>_.
        let task_edges = filter (is_task_edge ctx ops added_id) (added_edges ops) in
        bindE (foldE (\<lambda>_ edge.
           bindE (throw_if (ae_source edge \<noteq> root_id \<or> ae_target edge \<noteq> added_id) TransitionNotDirect) (\<lambda>_.
           throw_if (ae_type edge \<noteq> Continues \<and> ae_type edge \<noteq> Supersedes) TransitionEdgeType)) () task_edges) (\<lambda>_.
        bindE (throw_if (length task_edges > 1) TransitionManyEdges) (\<lambda>_.
        let root_updates = filter (\<lambda>u. u_node_id u = root_id) (node_updates ops);
            explicit_statuses = remdups (root_status_updates root_id ops) in
        bindE (throw_if (length explicit_statuses > 1) RootStatusConflict) (\<lambda>_.
        let explicit_status = (case explicit_statuses of [] \<Rightarrow> None | s # _ \<Rightarrow> Some s) in
        bindE (throw_if (explicit_status = Some SActive \<or> explicit_status = Some SBlocked) RootNotClosed) (\<lambda>_.
        let explicit_edge_type = (case task_edges of [] \<Rightarrow> None | e # _ \<Rightarrow> Some (ae_type e));
            resolved_status = resolve_root_status ctx rt explicit_status explicit_edge_type goal in
        bindE (task_transition_edge_type resolved_status) (\<lambda>resolved_edge_type.
        bindE (throw_if (explicit_edge_type \<noteq> None \<and> explicit_edge_type \<noteq> Some resolved_edge_type)
            (StatusEdgeConflict resolved_status (the explicit_edge_type))) (\<lambda>_.
        let should_write = (explicit_status \<noteq> None \<or> \<not> is_terminal_task_status (c_status rt));
            merged = merge_root_updates root_id root_updates;
            root_update = (if should_write then merged\<lparr>u_status := Some resolved_status\<rparr> else merged);
            transition = \<lparr>ae_source = root_id, ae_target = added_id, ae_type = resolved_edge_type\<rparr> in
        Inr ((if root_updates \<noteq> [] \<or> should_write then [UpdateNode root_update] else [])
             @ filter (\<lambda>op. \<not> is_add_edge op \<and> \<not> is_update_of root_id op) ops
             @ filter (\<lambda>op. is_add_edge op \<and> \<not> is_task_edge_op ctx ops added_id op) ops
             @ [AddEdge transition])))))))))"

definition normalize_dag_task_transition ::
  "patch_op list \<Rightarrow> dag_context \<Rightarrow> goal_ctx option \<Rightarrow> patch_error + patch_op list" where
  "normalize_dag_task_transition ops ctx goal =
     (let added_tasks = filter (\<lambda>a. a_kind a = KTask) (added_nodes ops);
          added_task = (case added_tasks of [] \<Rightarrow> None | a # _ \<Rightarrow> Some a);
          root_task = context_root_task ctx in
      bindE (throw_if (length added_tasks > 1) AtMostOneTask) (\<lambda>_.
      bindE (check_side_branches ops root_task added_task goal) (\<lambda>_.
      case (goal, root_task) of
        (Some g, Some rt) \<Rightarrow>
          (if c_goal_id rt = Some (gc_goal_id g) then normalize_same_goal ops rt added_task g
           else (case (added_task, root_id_of ctx) of
                   (Some a, Some root_id) \<Rightarrow> switch_task ops ctx goal root_id (a_temp_id a)
                 | _ \<Rightarrow> Inr ops))
      | _ \<Rightarrow>
          (case (added_task, root_id_of ctx) of
             (Some a, Some root_id) \<Rightarrow> switch_task ops ctx goal root_id (a_temp_id a)
           | _ \<Rightarrow> Inr ops))))"

section \<open>The parts of a normalised patch\<close>

named_theorems op_filter_simps \<open>projections of the three filtered parts of a normalised patch\<close>

lemma filter_non_edges [op_filter_simps]:
  "added_nodes (filter (\<lambda>op. \<not> is_add_edge op \<and> \<not> is_update_of i op) ops) = added_nodes ops"
  "node_updates (filter (\<lambda>op. \<not> is_add_edge op \<and> \<not> is_update_of i op) ops)
     = filter (\<lambda>u. u_node_id u \<noteq> i) (node_updates ops)"
  "added_edges (filter (\<lambda>op. \<not> is_add_edge op \<and> \<not> is_update_of i op) ops) = []"
  by (induction ops rule: patch_ops_induct) (simp_all add: is_add_edge_def is_update_of_def)

lemma filter_other_edges [op_filter_simps]:
  "added_nodes (filter (\<lambda>op. is_add_edge op \<and> \<not> is_task_edge_op ctx ops0 i op) ops) = []"
  "node_updates (filter (\<lambda>op. is_add_edge op \<and> \<not> is_task_edge_op ctx ops0 i op) ops) = []"
  "added_edges (filter (\<lambda>op. is_add_edge op \<and> \<not> is_task_edge_op ctx ops0 i op) ops)
     = filter (\<lambda>e. \<not> is_task_edge ctx ops0 i e) (added_edges ops)"
  by (induction ops rule: patch_ops_induct) (simp_all add: is_add_edge_def is_task_edge_op_def)

lemma op_node_kind_cong: "added_nodes ops = added_nodes ops' \<Longrightarrow> op_node_kind ctx ops = op_node_kind ctx ops'"
  by (simp add: op_node_kind_def fun_eq_iff)

lemma is_task_edge_cong: "added_nodes ops = added_nodes ops' \<Longrightarrow> is_task_edge ctx ops = is_task_edge ctx ops'"
  using op_node_kind_cong [of ops ops' ctx] by (simp add: is_task_edge_def fun_eq_iff)

lemma task_transition_edge_type_Inr:
  "task_transition_edge_type s = Inr ty \<longleftrightarrow>
     (s = SDone \<or> s = SFailed) \<and> ty = Continues \<or> s = SFrozen \<and> ty = Supersedes"
  by (auto simp: task_transition_edge_type_def)

lemma task_edges_checked:
  assumes "foldE (\<lambda>_ edge.
           bindE (throw_if (ae_source edge \<noteq> r \<or> ae_target edge \<noteq> t) TransitionNotDirect) (\<lambda>_.
           throw_if (ae_type edge \<noteq> Continues \<and> ae_type edge \<noteq> Supersedes) TransitionEdgeType)) () es = Inr u"
    and "e \<in> set es"
  shows "ae_source e = r \<and> ae_target e = t \<and> (ae_type e = Continues \<or> ae_type e = Supersedes)"
  using assms by (induction es) (auto simp: error_simps)

text \<open>What a successful switch returns, in terms of the decisions it takes.\<close>

lemma switch_taskE:
  assumes "switch_task ops ctx goal r t = Inr ops'"
  obtains rt task_edges root_updates explicit st ty upd where
    "find (\<lambda>n. c_id n = r) (dc_nodes ctx) = Some rt" "c_kind rt = KTask"
    "task_edges = filter (is_task_edge ctx ops t) (added_edges ops)" "length task_edges \<le> 1"
    "\<And>e. e \<in> set task_edges \<Longrightarrow> ae_source e = r \<and> ae_target e = t \<and> ae_type e = ty"
    "root_updates = filter (\<lambda>u. u_node_id u = r) (node_updates ops)"
    "remdups (root_status_updates r ops) = explicit" "length explicit \<le> 1"
    "st = resolve_root_status ctx rt (case explicit of [] \<Rightarrow> None | s # _ \<Rightarrow> Some s)
       (case task_edges of [] \<Rightarrow> None | e # _ \<Rightarrow> Some (ae_type e)) goal"
    "task_transition_edge_type st = Inr ty"
    "upd = (if explicit \<noteq> [] \<or> \<not> is_terminal_task_status (c_status rt)
       then [UpdateNode ((merge_root_updates r root_updates)\<lparr>u_status := Some st\<rparr>)]
       else if root_updates \<noteq> [] then [UpdateNode (merge_root_updates r root_updates)] else [])"
    "ops' = upd @ filter (\<lambda>op. \<not> is_add_edge op \<and> \<not> is_update_of r op) ops
             @ filter (\<lambda>op. is_add_edge op \<and> \<not> is_task_edge_op ctx ops t op) ops
             @ [AddEdge \<lparr>ae_source = r, ae_target = t, ae_type = ty\<rparr>]"
proof -
  let ?task_edges = "filter (is_task_edge ctx ops t) (added_edges ops)"
  let ?ety = "case ?task_edges of [] \<Rightarrow> None | e # _ \<Rightarrow> Some (ae_type e)"
  from assms obtain rt ty where *:
    "find (\<lambda>n. c_id n = r) (dc_nodes ctx) = Some rt" "c_kind rt = KTask" "length ?task_edges \<le> 1"
    "foldE (\<lambda>_ edge.
           bindE (throw_if (ae_source edge \<noteq> r \<or> ae_target edge \<noteq> t) TransitionNotDirect) (\<lambda>_.
           throw_if (ae_type edge \<noteq> Continues \<and> ae_type edge \<noteq> Supersedes) TransitionEdgeType)) ()
       ?task_edges = Inr ()"
    "length (remdups (root_status_updates r ops)) \<le> 1" "?ety = None \<or> ?ety = Some ty"
    "task_transition_edge_type (resolve_root_status ctx rt
       (case remdups (root_status_updates r ops) of [] \<Rightarrow> None | s # _ \<Rightarrow> Some s) ?ety goal) = Inr ty"
    and ops': "ops' = (let merged = merge_root_updates r (filter (\<lambda>u. u_node_id u = r) (node_updates ops));
          st = resolve_root_status ctx rt
             (case remdups (root_status_updates r ops) of [] \<Rightarrow> None | s # _ \<Rightarrow> Some s) ?ety goal;
          write = ((case remdups (root_status_updates r ops) of [] \<Rightarrow> None | s # _ \<Rightarrow> Some s) \<noteq> None
             \<or> \<not> is_terminal_task_status (c_status rt))
        in (if filter (\<lambda>u. u_node_id u = r) (node_updates ops) \<noteq> [] \<or> write
            then [UpdateNode (if write then merged\<lparr>u_status := Some st\<rparr> else merged)] else [])
             @ filter (\<lambda>op. \<not> is_add_edge op \<and> \<not> is_update_of r op) ops
             @ filter (\<lambda>op. is_add_edge op \<and> \<not> is_task_edge_op ctx ops t op) ops
             @ [AddEdge \<lparr>ae_source = r, ae_target = t, ae_type = ty\<rparr>])"
    by (auto simp: switch_task_def error_simps Let_def not_less split: option.splits)
  have types: "ae_source e = r \<and> ae_target e = t \<and> ae_type e = ty" if "e \<in> set ?task_edges" for e
    using task_edges_checked [OF *(4) that] *(3,6) that
    by (cases ?task_edges) (auto split: list.splits)
  show ?thesis
    by (rule that [OF *(1,2) refl *(3) types refl refl *(5) refl *(7) refl])
      (auto simp: ops' Let_def split: list.splits)
qed

lemma root_status_updates_append [simp]:
  "root_status_updates r (xs @ ys) = root_status_updates r xs @ root_status_updates r ys"
  by (simp add: root_status_updates_def map_filter_def)

lemma root_status_updates_rest [op_filter_simps]:
  "root_status_updates r (filter (\<lambda>op. \<not> is_add_edge op \<and> \<not> is_update_of r op) ops) = []"
  "root_status_updates r (filter (\<lambda>op. is_add_edge op \<and> \<not> is_task_edge_op ctx ops0 i op) ops) = []"
  "root_status_updates r [AddEdge e] = []"
  by (simp_all add: root_status_updates_def op_filter_simps map_filter_def filter_filter)

lemma merge_root_update_id [simp]: "u_node_id (merge_root_update m u) = u_node_id m"
  by (simp add: merge_root_update_def)

lemma merge_root_updates_id [simp]: "u_node_id (merge_root_updates r us) = r"
proof -
  have "u_node_id (foldl merge_root_update m us) = u_node_id m" for m
    by (induction us arbitrary: m) auto
  then show ?thesis by (simp add: merge_root_updates_def empty_update_def)
qed

lemma merge_root_update_status: "u_status (merge_root_update m u) = or_else (u_status u) (u_status m)"
  by (simp add: merge_root_update_def)

lemma merge_root_updates_status:
  assumes "List.map_filter u_status us = []"
  shows "u_status (merge_root_updates r us) = None"
proof -
  have "u_status (foldl merge_root_update m us) = u_status m" for m
    using assms
    by (induction us arbitrary: m)
      (auto simp: map_filter_simps merge_root_update_status or_else_def split: option.splits)
  then show ?thesis by (simp add: merge_root_updates_def empty_update_def)
qed

lemma root_status_updates_UpdateNode [simp]:
  "root_status_updates r (UpdateNode u # ops) =
     (if u_node_id u = r then (case u_status u of None \<Rightarrow> [] | Some s \<Rightarrow> [s]) else [])
       @ root_status_updates r ops"
  by (auto simp: root_status_updates_def map_filter_simps split: option.splits)

lemma root_status_updates_simps [simp]:
  "root_status_updates r [] = []"
  "root_status_updates r (AddNode a # ops) = root_status_updates r ops"
  "root_status_updates r (AddEdge e # ops) = root_status_updates r ops"
  by (simp_all add: root_status_updates_def map_filter_simps)

text \<open>The status with which the old root leaves a successful switch, and the edge of that status.\<close>

lemma switch_task_result:
  assumes "switch_task ops ctx goal r t = Inr ops'"
  shows "\<exists>rt st ty. find (\<lambda>n. c_id n = r) (dc_nodes ctx) = Some rt \<and> c_kind rt = KTask
     \<and> is_terminal_task_status st \<and> task_transition_edge_type st = Inr ty
     \<and> filter (is_task_edge ctx ops' t) (added_edges ops')
         = [\<lparr>ae_source = r, ae_target = t, ae_type = ty\<rparr>]
     \<and> (root_status_updates r ops' = [st] \<or> root_status_updates r ops' = [] \<and> c_status rt = st)
     \<and> added_nodes ops' = added_nodes ops"
  using assms
proof (rule switch_taskE)
  fix rt task_edges root_updates explicit st ty upd
  assume rt: "find (\<lambda>n. c_id n = r) (dc_nodes ctx) = Some rt" "c_kind rt = KTask"
    and ru: "root_updates = filter (\<lambda>u. u_node_id u = r) (node_updates ops)"
    and ex: "remdups (root_status_updates r ops) = explicit"
    and st: "st = resolve_root_status ctx rt (case explicit of [] \<Rightarrow> None | s # _ \<Rightarrow> Some s)
       (case task_edges of [] \<Rightarrow> None | e # _ \<Rightarrow> Some (ae_type e)) goal"
    and ty: "task_transition_edge_type st = Inr ty"
    and upd: "upd = (if explicit \<noteq> [] \<or> \<not> is_terminal_task_status (c_status rt)
       then [UpdateNode ((merge_root_updates r root_updates)\<lparr>u_status := Some st\<rparr>)]
       else if root_updates \<noteq> [] then [UpdateNode (merge_root_updates r root_updates)] else [])"
    and ops': "ops' = upd @ filter (\<lambda>op. \<not> is_add_edge op \<and> \<not> is_update_of r op) ops
             @ filter (\<lambda>op. is_add_edge op \<and> \<not> is_task_edge_op ctx ops t op) ops
             @ [AddEdge \<lparr>ae_source = r, ae_target = t, ae_type = ty\<rparr>]"
  have upd_parts: "added_nodes upd = []" "added_edges upd = []" by (auto simp: upd)
  have nodes: "added_nodes ops' = added_nodes ops"
    by (simp add: ops' upd_parts op_filter_simps)
  have edges: "filter (is_task_edge ctx ops' t) (added_edges ops')
      = [\<lparr>ae_source = r, ae_target = t, ae_type = ty\<rparr>]"
    using is_task_edge_cong [OF nodes]
    by (simp add: ops' upd_parts op_filter_simps) (simp add: is_task_edge_def)
  have "root_status_updates r ops' = root_status_updates r upd"
    by (simp add: ops' op_filter_simps del: root_status_updates_UpdateNode)
  moreover have "root_status_updates r upd = [st] \<or> root_status_updates r upd = [] \<and> c_status rt = st"
  proof (cases "explicit \<noteq> [] \<or> \<not> is_terminal_task_status (c_status rt)")
    case True
    then show ?thesis by (simp add: upd)
  next
    case False
    then have "st = c_status rt" using st by (auto simp: resolve_root_status_def split: list.splits)
    moreover have "u_status (merge_root_updates r root_updates) = None"
      using ex False by (intro merge_root_updates_status) (simp add: ru root_status_updates_def)
    ultimately show ?thesis using False by (simp add: upd)
  qed
  moreover have "is_terminal_task_status st"
    using ty by (auto simp: task_transition_edge_type_Inr is_terminal_task_status_def)
  ultimately show ?thesis using rt ty nodes edges by metis
qed

lemma normalize_cases:
  assumes "normalize_dag_task_transition ops ctx goal = Inr ops'"
  obtains (same) g rt where "goal = Some g" "context_root_task ctx = Some rt"
      "c_goal_id rt = Some (gc_goal_id g)" "filter (\<lambda>a. a_kind a = KTask) (added_nodes ops) = []"
      "normalize_same_goal ops rt None g = Inr ops'"
  | (switch) a r where "filter (\<lambda>a. a_kind a = KTask) (added_nodes ops) = [a]"
      "root_id_of ctx = Some r" "switch_task ops ctx goal r (a_temp_id a) = Inr ops'"
  | (none) "ops' = ops"
      "filter (\<lambda>a. a_kind a = KTask) (added_nodes ops) = [] \<or> root_id_of ctx = None"
proof -
  let ?tasks = "filter (\<lambda>a. a_kind a = KTask) (added_nodes ops)"
  have le: "length ?tasks \<le> 1"
    using assms by (auto simp: normalize_dag_task_transition_def Let_def error_simps)
  show ?thesis
  proof (cases "\<exists>g rt. goal = Some g \<and> context_root_task ctx = Some rt \<and> c_goal_id rt = Some (gc_goal_id g)")
    case True
    then obtain g rt where g: "goal = Some g" "context_root_task ctx = Some rt"
      "c_goal_id rt = Some (gc_goal_id g)" by blast
    from assms g have *: "normalize_same_goal ops rt (case ?tasks of [] \<Rightarrow> None | a # _ \<Rightarrow> Some a) g = Inr ops'"
      by (auto simp: normalize_dag_task_transition_def Let_def error_simps)
    then have "?tasks = []"
      by (cases ?tasks) (auto simp: normalize_same_goal_def error_simps)
    with * g show ?thesis by (intro same) auto
  next
    case False
    with assms have *: "(case (case ?tasks of [] \<Rightarrow> None | a # _ \<Rightarrow> Some a, root_id_of ctx) of
             (Some a, Some root_id) \<Rightarrow> switch_task ops ctx goal root_id (a_temp_id a)
           | _ \<Rightarrow> Inr ops) = Inr ops'"
      by (auto simp: normalize_dag_task_transition_def Let_def error_simps split: option.splits if_splits)
    show ?thesis
    proof (cases ?tasks)
      case Nil
      with * show ?thesis by (intro none) auto
    next
      case (Cons a rest)
      with le have rest: "?tasks = [a]" by simp
      with * show ?thesis
        by (cases "root_id_of ctx") (auto intro: switch none)
    qed
  qed
qed

text \<open>
  a normalised task switch. When a patch that adds the task \<open>a\<close> is accepted in a session
  whose root task is \<open>r\<close>, the result adds the same nodes, leaves \<open>r\<close> in a terminal status (by
  its one status update, or unchanged), and has exactly one edge between tasks or into \<open>a\<close>: from
  \<open>r\<close> to \<open>a\<close>, \<open>continues\<close> when \<open>r\<close> ends done or failed and \<open>supersedes\<close> when it ends
  frozen.
\<close>

theorem normalized_switch:
  assumes "normalize_dag_task_transition ops ctx goal = Inr ops'"
    and "filter (\<lambda>a. a_kind a = KTask) (added_nodes ops) = [a]" and "root_id_of ctx = Some r"
  shows "\<exists>rt st ty. find (\<lambda>n. c_id n = r) (dc_nodes ctx) = Some rt \<and> c_kind rt = KTask
     \<and> is_terminal_task_status st \<and> task_transition_edge_type st = Inr ty
     \<and> filter (is_task_edge ctx ops' (a_temp_id a)) (added_edges ops')
         = [\<lparr>ae_source = r, ae_target = a_temp_id a, ae_type = ty\<rparr>]
     \<and> (root_status_updates r ops' = [st] \<or> root_status_updates r ops' = [] \<and> c_status rt = st)
     \<and> added_nodes ops' = added_nodes ops"
  using assms(1)
proof (cases rule: normalize_cases)
  case (switch a' r')
  with assms(2,3) show ?thesis using switch_task_result by simp
qed (use assms(2,3) in auto)

section \<open>Normalising twice changes nothing\<close>

lemma dedupe_loop_fresh:
  "r \<in> set (dedupe_loop seen refs) \<Longrightarrow> source_ref_key r \<notin> set seen"
  by (induction seen refs rule: dedupe_loop.induct) (auto simp: Let_def split: if_splits)

lemma dedupe_loop_distinct: "distinct (map source_ref_key (dedupe_loop seen refs))"
proof (induction seen refs rule: dedupe_loop.induct)
  case (1 seen)
  then show ?case by simp
next
  case (2 seen ref refs)
  have "source_ref_key ref \<notin> source_ref_key ` set (dedupe_loop (source_ref_key ref # seen) refs)"
    using dedupe_loop_fresh [of _ "source_ref_key ref # seen" refs] by force
  with 2 show ?case by (simp add: Let_def)
qed

lemma dedupe_loop_id:
  "distinct (map source_ref_key refs) \<Longrightarrow> source_ref_key ` set refs \<inter> set seen = {} \<Longrightarrow>
     dedupe_loop seen refs = refs"
  by (induction seen refs rule: dedupe_loop.induct) (auto simp: Let_def)

lemma dedupe_source_refs_id: "distinct (map source_ref_key refs) \<Longrightarrow> dedupe_source_refs refs = refs"
  by (simp add: dedupe_source_refs_def dedupe_loop_id)

lemma dedupe_source_refs_distinct: "distinct (map source_ref_key (dedupe_source_refs refs))"
  by (simp add: dedupe_source_refs_def dedupe_loop_distinct)

definition update_canonical :: "update_node_op \<Rightarrow> bool" where
  "update_canonical u \<longleftrightarrow> (case u_detail u of None \<Rightarrow> True | Some d \<Rightarrow> distinct (map fst d))
     \<and> (case u_refs u of None \<Rightarrow> True | Some rs \<Rightarrow> distinct (map source_ref_key rs))"

lemma merge_root_update_canonical: "update_canonical m \<Longrightarrow> update_canonical (merge_root_update m u)"
  by (auto simp: update_canonical_def merge_root_update_def obj_merge_distinct dedupe_source_refs_distinct
      split: option.splits)

lemma merge_root_updates_canonical: "update_canonical (merge_root_updates r us)"
proof -
  have "update_canonical (foldl merge_root_update m us)" if "update_canonical m" for m
    using that by (induction us arbitrary: m) (auto simp: merge_root_update_canonical)
  moreover have "update_canonical (empty_update r)" by (simp add: update_canonical_def empty_update_def)
  ultimately show ?thesis by (simp add: merge_root_updates_def)
qed

lemma merge_root_updates_single:
  "update_canonical u \<Longrightarrow> u_node_id u = r \<Longrightarrow> merge_root_updates r [u] = u"
  by (cases u) (auto simp: merge_root_updates_def merge_root_update_def empty_update_def update_canonical_def
      or_else_def obj_merge_Nil dedupe_source_refs_id split: option.splits)

lemma switch_task_again:
  assumes "switch_task ops ctx goal r t = Inr ops'"
  shows "switch_task ops' ctx goal r t = Inr ops'"
    and "filter (\<lambda>e. ae_type e = SideBranch) (added_edges ops')
      = filter (\<lambda>e. ae_type e = SideBranch) (added_edges ops)"
  using assms
proof -
  obtain rt task_edges root_updates explicit st ty upd where
    rt: "find (\<lambda>n. c_id n = r) (dc_nodes ctx) = Some rt" "c_kind rt = KTask"
    and te: "task_edges = filter (is_task_edge ctx ops t) (added_edges ops)"
      "\<And>e. e \<in> set task_edges \<Longrightarrow> ae_source e = r \<and> ae_target e = t \<and> ae_type e = ty"
    and ru: "root_updates = filter (\<lambda>u. u_node_id u = r) (node_updates ops)"
    and ex: "remdups (root_status_updates r ops) = explicit"
    and st: "st = resolve_root_status ctx rt (case explicit of [] \<Rightarrow> None | s # _ \<Rightarrow> Some s)
       (case task_edges of [] \<Rightarrow> None | e # _ \<Rightarrow> Some (ae_type e)) goal"
    and ty: "task_transition_edge_type st = Inr ty"
    and upd: "upd = (if explicit \<noteq> [] \<or> \<not> is_terminal_task_status (c_status rt)
       then [UpdateNode ((merge_root_updates r root_updates)\<lparr>u_status := Some st\<rparr>)]
       else if root_updates \<noteq> [] then [UpdateNode (merge_root_updates r root_updates)] else [])"
    and ops': "ops' = upd @ filter (\<lambda>op. \<not> is_add_edge op \<and> \<not> is_update_of r op) ops
             @ filter (\<lambda>op. is_add_edge op \<and> \<not> is_task_edge_op ctx ops t op) ops
             @ [AddEdge \<lparr>ae_source = r, ae_target = t, ae_type = ty\<rparr>]"
    using assms by (rule switch_taskE) blast
  let ?tr = "\<lparr>ae_source = r, ae_target = t, ae_type = ty\<rparr>"
  have upd_parts: "added_nodes upd = []" "added_edges upd = []" by (auto simp: upd)
  have nodes: "added_nodes ops' = added_nodes ops"
    by (simp add: ops' upd_parts op_filter_simps)
  note cong = is_task_edge_cong [OF nodes, of ctx]
  have cong_op: "is_task_edge_op ctx ops' t = is_task_edge_op ctx ops t"
    by (auto simp: is_task_edge_op_def fun_eq_iff cong split: patch_op.splits)
  have edges: "filter (is_task_edge ctx ops' t) (added_edges ops') = [?tr]"
    by (simp add: cong) (simp add: ops' upd_parts op_filter_simps, simp add: is_task_edge_def)
  have st_terminal: "is_terminal_task_status st" "st \<noteq> SActive" "st \<noteq> SBlocked"
    and ty': "ty = Continues \<or> ty = Supersedes"
    using ty by (auto simp: task_transition_edge_type_Inr is_terminal_task_status_def)
  let ?writes = "explicit \<noteq> [] \<or> \<not> is_terminal_task_status (c_status rt)"
  let ?m = "merge_root_updates r root_updates"
  have none: "u_status ?m = None" "c_status rt = st" if "\<not> ?writes"
  proof -
    show "u_status ?m = None"
      using ex that by (intro merge_root_updates_status) (simp add: ru root_status_updates_def)
    show "c_status rt = st" using st that by (auto simp: resolve_root_status_def split: list.splits)
  qed
  have statuses: "root_status_updates r ops' = (if ?writes then [st] else [])"
    using none by (simp add: ops' op_filter_simps upd)
  have updates: "filter (\<lambda>u. u_node_id u = r) (node_updates ops')
      = (if ?writes then [?m\<lparr>u_status := Some st\<rparr>] else if root_updates \<noteq> [] then [?m] else [])"
    by (simp add: ops' op_filter_simps upd filter_filter)
  have single: "merge_root_updates r [?m] = ?m"
    "merge_root_updates r [?m\<lparr>u_status := Some st\<rparr>] = ?m\<lparr>u_status := Some st\<rparr>"
    using merge_root_updates_canonical [of r root_updates]
    by (auto intro!: merge_root_updates_single simp: update_canonical_def)
  have resolved: "resolve_root_status ctx rt (if ?writes then Some st else None) (Some ty) goal = st"
    using none by (auto simp: resolve_root_status_def st_terminal)
  have part_upd: "filter P upd = []" if "\<And>u. u_node_id u = r \<Longrightarrow> \<not> P (UpdateNode u)" for P
    using that by (auto simp: upd)
  have part2: "filter (\<lambda>op. \<not> is_add_edge op \<and> \<not> is_update_of r op) ops'
      = filter (\<lambda>op. \<not> is_add_edge op \<and> \<not> is_update_of r op) ops"
    using part_upd by (simp add: ops' is_update_of_def filter_filter is_add_edge_def [of "AddEdge _"])
  have part3: "filter (\<lambda>op. is_add_edge op \<and> \<not> is_task_edge_op ctx ops' t op) ops'
      = filter (\<lambda>op. is_add_edge op \<and> \<not> is_task_edge_op ctx ops t op) ops"
  proof -
    have "is_task_edge_op ctx ops t (AddEdge ?tr)" by (simp add: is_task_edge_op_def is_task_edge_def)
    moreover have "filter (\<lambda>op. is_add_edge op \<and> \<not> is_task_edge_op ctx ops t op) upd = []"
      by (rule part_upd) (simp add: is_add_edge_def)
    ultimately show ?thesis
      unfolding cong_op by (simp add: ops' filter_filter)
  qed
  have ok: "throw_if (ty \<noteq> Continues \<and> ty \<noteq> Supersedes) TransitionEdgeType = Inr ()"
    using ty' by auto
  show "switch_task ops' ctx goal r t = Inr ops'"
  proof (cases ?writes)
    case True
    then show ?thesis
      using rt ty ty' st_terminal resolved
      by (simp add: switch_task_def edges statuses updates single part2 part3 Let_def ok)
        (simp add: ops' upd)
  next
    case False
    then show ?thesis
      using rt ty ty' st_terminal resolved
      by (simp add: switch_task_def edges statuses updates single part2 part3 Let_def ok)
        (simp add: ops' upd)
  qed
  have "filter (\<lambda>e. ae_type e = SideBranch) (filter (\<lambda>e. \<not> is_task_edge ctx ops t e) (added_edges ops))
     = filter (\<lambda>e. ae_type e = SideBranch) (added_edges ops)"
    unfolding filter_filter
  proof (rule filter_cong [OF refl])
    fix e assume "e \<in> set (added_edges ops)"
    then show "(\<not> is_task_edge ctx ops t e \<and> ae_type e = SideBranch) = (ae_type e = SideBranch)"
      using te(2) [of e] ty' by (auto simp: te(1))
  qed
  then show "filter (\<lambda>e. ae_type e = SideBranch) (added_edges ops')
      = filter (\<lambda>e. ae_type e = SideBranch) (added_edges ops)"
    using ty' by (auto simp: ops' upd_parts op_filter_simps)
qed

text \<open>What the second run looks at is what the first one saw.\<close>

lemma normalize_tasks:
  assumes "normalize_dag_task_transition ops ctx goal = Inr ops'"
  shows "length (filter (\<lambda>a. a_kind a = KTask) (added_nodes ops)) \<le> 1"
    and "check_side_branches ops (context_root_task ctx)
      (case filter (\<lambda>a. a_kind a = KTask) (added_nodes ops) of [] \<Rightarrow> None | a # _ \<Rightarrow> Some a) goal = Inr ()"
  using assms by (auto simp: normalize_dag_task_transition_def Let_def error_simps)

lemma check_side_branches_cong:
  "filter (\<lambda>e. ae_type e = SideBranch) (added_edges ops')
     = filter (\<lambda>e. ae_type e = SideBranch) (added_edges ops) \<Longrightarrow>
   check_side_branches ops' rt a goal = check_side_branches ops rt a goal"
  by (simp add: check_side_branches_def)

text \<open>
  C4: normalising is idempotent. A patch that the normaliser returned is accepted by it again and
  comes back unchanged, so a repaired patch that is re-checked before it is applied is not
  rewritten a second time.
\<close>

theorem normalize_idempotent:
  assumes "normalize_dag_task_transition ops ctx goal = Inr ops'"
  shows "normalize_dag_task_transition ops' ctx goal = Inr ops'"
  using assms
proof (cases rule: normalize_cases)
  case (same g rt)
  from same(4,5) have "normalize_same_goal ops' rt None g = Inr ops' \<and> added_nodes ops' = added_nodes ops
      \<and> added_edges ops' = added_edges ops"
    by (auto simp: normalize_same_goal_def error_simps empty_update_def Let_def split: if_splits)
  moreover note normalize_tasks [OF assms]
  ultimately show ?thesis
    using same check_side_branches_cong [of ops' ops]
    by (simp add: normalize_dag_task_transition_def Let_def)
next
  case (switch a r)
  have nodes: "added_nodes ops' = added_nodes ops"
    using switch_task_result [OF switch(3)] by blast
  note again = switch_task_again [OF switch(3)]
  have no_same: "\<not> (\<exists>g rt. goal = Some g \<and> context_root_task ctx = Some rt \<and> c_goal_id rt = Some (gc_goal_id g))"
    using assms switch(1)
    by (auto simp: normalize_dag_task_transition_def Let_def error_simps normalize_same_goal_def)
  from switch normalize_tasks [OF assms] again(1) no_same check_side_branches_cong [OF again(2)] show ?thesis
    by (auto simp: normalize_dag_task_transition_def nodes Let_def split: option.splits)
next
  case none
  with assms show ?thesis by simp
qed

end
