(* ===== verification/Dag_Store.thy ===== *)
theory Dag_Store
  imports Dag_Graph Dag_Normalize
begin

text \<open>
  The SQLite store of a session's DAG (\<open>session-dag/store.ts\<close>): one record with the tables as
  lists in row order. A transaction is a function from a store to an error or the next store, so
  that a \<open>throw\<close> rolls back. The readings of the clock and the random bytes of new ids are
  inputs (\<open>patch_env\<close>). The database is the one of the session: the columns that refer to other
  rows are checked by the code and by the constraints written out below (primary keys, the unique
  Goal id, the range of the importance); \<open>ORDER BY\<close> is a stable sort of the rows.
\<close>

section \<open>Sortable ids\<close>

definition crockford :: string where
  "crockford = ''0123456789ABCDEFGHJKMNPQRSTVWXYZ''"

fun encode_time :: "nat \<Rightarrow> nat \<Rightarrow> string \<Rightarrow> string" where
  "encode_time 0 v acc = acc"
| "encode_time (Suc k) v acc = encode_time k (v div 32) (crockford ! (v mod 32) # acc)"

text \<open>\<open>Date.now()\<close> and ten random bytes; \<open>byte & 31\<close> is \<open>byte mod 32\<close>.\<close>

definition new_sortable_id :: "nat \<times> nat list \<Rightarrow> string" where
  "new_sortable_id src = encode_time 10 (fst src) [] @ map (\<lambda>b. crockford ! (b mod 32)) (snd src)"

section \<open>State\<close>

record dag_snapshot =
  s_id :: string
  s_turn :: "string option"
  s_text :: string
  s_json :: json_obj
  s_tokens :: int
  s_created_at :: int

record dag_store =
  ds_session :: string
  ds_meta :: "string \<rightharpoonup> string"
  ds_turns :: "dag_turn list"
  ds_nodes :: "dag_node list"
  ds_edges :: "dag_edge list"
  ds_snaps :: "dag_snapshot list"

record patch_env =
  pe_upsert_at :: int
  pe_now :: int
  pe_goal_at :: int
  pe_done_at :: int
  pe_ids :: "nat \<Rightarrow> nat \<times> nat list"

datatype store_error =
    InvalidMessageRange
  | GoalTurnSecondTask
  | UnfinishedGoalTurnCloses
  | CompletedGoalTurnNotDone
  | NodeNotFound string
  | InvalidImportance
  | SelfLoop
  | UnknownEndpoint
  | SupersedesNotFrozen
  | WouldCycle
  | NotReachable string
  | PatchAddsTasks
  | SeveralOpenTasks
  | AddedTaskMissing
  | AddedTaskNotOpen
  | InitialTaskTransition
  | OldRootMissing
  | OldRootOpen
  | NotOneIncoming
  | NotDirectTransition
  | TransitionConflict node_status edge_type
  | NotTerminal node_status
  | SideBranchKinds
  | SideBranchOtherTask
  | ClearedGoalNotFrozen
  | NoGoalTask
  | GoalSeveralTasks
  | GoalCannotSwitch
  | NewGoalNeedsTask
  | UnfinishedGoalTaskClosed
  | UniqueViolation
  | CheckViolation

section \<open>Turns\<close>

definition goal_field :: "(goal_ctx \<Rightarrow> 'a) \<Rightarrow> turn_input \<Rightarrow> 'a option" where
  "goal_field f input = map_option f (ti_goal input)"

definition new_turn :: "int \<Rightarrow> turn_input \<Rightarrow> dag_turn" where
  "new_turn now input =
     \<lparr>t_id = ti_id input, t_start = ti_start input, t_end = ti_end input,
      t_user_text = opt_str (ti_user_text input), t_assistant_text = opt_str (ti_assistant_text input),
      t_created_at = now, t_updated_at = now, t_status = TPending, t_build_mode = None, t_attempts = 0,
      t_running_at = None, t_next_retry = None, t_last_error = None, t_processed_at = None,
      t_goal_id = goal_field gc_goal_id input, t_goal_objective = goal_field gc_objective input,
      t_goal_status = goal_field gc_status input\<rparr>"

definition refresh_turn :: "int \<Rightarrow> turn_input \<Rightarrow> dag_turn \<Rightarrow> dag_turn" where
  "refresh_turn now input t =
     t\<lparr>t_start := ti_start input, t_end := ti_end input,
       t_user_text := opt_str (ti_user_text input), t_assistant_text := opt_str (ti_assistant_text input),
       t_goal_id := goal_field gc_goal_id input, t_goal_objective := goal_field gc_objective input,
       t_goal_status := goal_field gc_status input, t_updated_at := now\<rparr>"

definition update_turn :: "string \<Rightarrow> (dag_turn \<Rightarrow> dag_turn) \<Rightarrow> dag_store \<Rightarrow> dag_store" where
  "update_turn i f st = st\<lparr>ds_turns := map (\<lambda>t. if t_id t = i then f t else t) (ds_turns st)\<rparr>"

definition upsert_turn :: "int \<Rightarrow> turn_input \<Rightarrow> dag_store \<Rightarrow> store_error + dag_store" where
  "upsert_turn now input st =
     (if ti_end input \<le> ti_start input then Inl InvalidMessageRange
      else if ti_id input \<in> t_id ` set (ds_turns st) then Inr (update_turn (ti_id input) (refresh_turn now input) st)
      else Inr (st\<lparr>ds_turns := ds_turns st @ [new_turn now input]\<rparr>))"

definition get_turn :: "dag_store \<Rightarrow> string \<Rightarrow> dag_turn option" where
  "get_turn st i = find (\<lambda>t. t_id t = i) (ds_turns st)"

definition cmp_turn_start :: "dag_turn \<Rightarrow> dag_turn \<Rightarrow> int" where
  "cmp_turn_start l r = t_start l - t_start r"

definition list_turns :: "dag_store \<Rightarrow> turn_status list \<Rightarrow> dag_turn list" where
  "list_turns st statuses =
     sort_cmp cmp_turn_start
       (if statuses = [] then ds_turns st else filter (\<lambda>t. t_status t \<in> set statuses) (ds_turns st))"

definition release_running :: "int \<Rightarrow> dag_turn \<Rightarrow> dag_turn" where
  "release_running now t =
     (if t_status t = TRunning then t\<lparr>t_status := TRetry, t_running_at := None, t_updated_at := now\<rparr> else t)"

definition claimable :: "int \<Rightarrow> dag_turn \<Rightarrow> bool" where
  "claimable now t \<longleftrightarrow> (t_status t = TPending \<or> t_status t = TRetry \<or> t_status t = TBlocked)
     \<and> (case t_next_retry t of None \<Rightarrow> True | Some retry_at \<Rightarrow> retry_at \<le> now \<or> t_status t = TBlocked)"

definition claim_next_turn :: "int \<Rightarrow> dag_store \<Rightarrow> dag_turn option \<times> dag_store" where
  "claim_next_turn now st =
     (let st1 = st\<lparr>ds_turns := map (release_running now) (ds_turns st)\<rparr>
      in case sort_cmp cmp_turn_start (filter (claimable now) (ds_turns st1)) of
           [] \<Rightarrow> (None, st1)
         | row # _ \<Rightarrow>
             (let st2 = update_turn (t_id row)
                    (\<lambda>t. t\<lparr>t_status := TRunning, t_running_at := Some now, t_updated_at := now\<rparr>) st1
              in (get_turn st2 (t_id row), st2)))"

definition mark_turn_retry :: "int \<Rightarrow> string \<Rightarrow> string \<Rightarrow> int \<Rightarrow> dag_store \<Rightarrow> dag_store" where
  "mark_turn_retry now i err next_retry_at =
     update_turn i (\<lambda>t. t\<lparr>t_status := TRetry, t_attempts := t_attempts t + 1, t_running_at := None,
       t_next_retry := Some next_retry_at, t_last_error := Some (take 2000 err), t_updated_at := now\<rparr>)"

definition mark_turn_blocked :: "int \<Rightarrow> string \<Rightarrow> string \<Rightarrow> int option \<Rightarrow> dag_store \<Rightarrow> dag_store" where
  "mark_turn_blocked now i err next_retry_at =
     update_turn i (\<lambda>t. t\<lparr>t_status := TBlocked, t_running_at := None,
       t_next_retry := next_retry_at, t_last_error := Some (take 2000 err), t_updated_at := now\<rparr>)"

definition get_meta :: "dag_store \<Rightarrow> string \<Rightarrow> string option" where
  "get_meta st k = ds_meta st k"

definition set_meta :: "string \<Rightarrow> string \<Rightarrow> dag_store \<Rightarrow> dag_store" where
  "set_meta k v st = st\<lparr>ds_meta := (ds_meta st)(k \<mapsto> v)\<rparr>"

definition mark_turn_done :: "int \<Rightarrow> string \<Rightarrow> build_mode \<Rightarrow> dag_store \<Rightarrow> dag_store" where
  "mark_turn_done now i mode st =
     set_meta ''last_processed_turn_id'' i
      (update_turn i (\<lambda>t. t\<lparr>t_status := TDone, t_build_mode := Some mode, t_running_at := None,
         t_next_retry := None, t_last_error := None, t_processed_at := Some now, t_updated_at := now\<rparr>) st)"

section \<open>Reading nodes and edges\<close>

definition parse_node_row :: "dag_node \<Rightarrow> dag_node" where
  "parse_node_row row = row\<lparr>n_detail := sanitize_detail_json (n_kind row) (Some (JObj (n_detail row))),
     n_refs := sanitize_source_refs (source_refs_json (Some (n_refs row))) (n_updated_turn row)\<rparr>"

definition cmp_node_created :: "dag_node \<Rightarrow> dag_node \<Rightarrow> int" where
  "cmp_node_created l r = then_cmp (n_created_at l - n_created_at r) (cmp_str (n_id l) (n_id r))"

definition cmp_edge_created :: "dag_edge \<Rightarrow> dag_edge \<Rightarrow> int" where
  "cmp_edge_created l r = then_cmp (e_created_at l - e_created_at r) (cmp_str (e_id l) (e_id r))"

definition read_nodes :: "dag_store \<Rightarrow> dag_node list" where
  "read_nodes st = map parse_node_row
     (sort_cmp cmp_node_created (filter (\<lambda>n. n_session_key n = ds_session st) (ds_nodes st)))"

definition read_edges :: "dag_store \<Rightarrow> dag_edge list" where
  "read_edges st = sort_cmp cmp_edge_created (ds_edges st)"

definition get_node :: "dag_store \<Rightarrow> string \<Rightarrow> dag_node option" where
  "get_node st i = map_option parse_node_row
     (find (\<lambda>n. n_id n = i \<and> n_session_key n = ds_session st) (ds_nodes st))"

definition edge_exists :: "dag_store \<Rightarrow> string \<Rightarrow> string \<Rightarrow> edge_type \<Rightarrow> bool" where
  "edge_exists st s t ty \<longleftrightarrow> list_ex (\<lambda>e. e_source e = s \<and> e_target e = t \<and> e_type e = ty) (ds_edges st)"

definition would_create_cycle :: "dag_store \<Rightarrow> string \<Rightarrow> string \<Rightarrow> bool" where
  "would_create_cycle st s t \<longleftrightarrow> s \<in> set (reach_plus (arcs (ds_edges st)) t)"

section \<open>Writing nodes and edges\<close>

definition insert_node ::
  "add_node_op \<Rightarrow> turn_input \<Rightarrow> write_source \<Rightarrow> int \<Rightarrow> nat \<times> nat list \<Rightarrow> dag_store \<Rightarrow> store_error + string \<times> dag_store" where
  "insert_node op turn src now id_src st =
     (let i = ''n_'' @ new_sortable_id id_src;
          goal = (if a_kind op = KTask then goal_field gc_goal_id turn else None);
          node = \<lparr>n_id = i, n_session_key = ds_session st, n_kind = a_kind op, n_status = a_status op,
            n_title = a_title op, n_summary = a_summary op,
            n_detail = sanitize_detail_json (a_kind op) (map_option JObj (a_detail op)),
            n_importance = a_importance op, n_created_turn = Some (ti_id turn), n_updated_turn = Some (ti_id turn),
            n_first_msg = ti_start turn, n_last_msg = ti_end turn,
            n_refs = sanitize_source_refs (source_refs_json (a_refs op)) (Some (ti_id turn)),
            n_created_by = src, n_updated_by = src, n_created_at = now, n_updated_at = now, n_goal_id = goal\<rparr>
      in bindE (throw_if (i \<in> n_id ` set (ds_nodes st)) UniqueViolation) (\<lambda>_.
         bindE (throw_if (goal \<noteq> None \<and> goal \<in> n_goal_id ` set (ds_nodes st)) UniqueViolation) (\<lambda>_.
         bindE (throw_if (a_importance op < 0 \<or> 100 < a_importance op \<or> ti_end turn < ti_start turn) CheckViolation) (\<lambda>_.
         Inr (i, st\<lparr>ds_nodes := ds_nodes st @ [node]\<rparr>)))))"

definition update_row :: "string \<Rightarrow> (dag_node \<Rightarrow> dag_node) \<Rightarrow> dag_store \<Rightarrow> dag_store" where
  "update_row i f st = st\<lparr>ds_nodes := map (\<lambda>n. if n_id n = i then f n else n) (ds_nodes st)\<rparr>"

definition default_to :: "'a option \<Rightarrow> 'a \<Rightarrow> 'a" where
  "default_to v d = (case v of None \<Rightarrow> d | Some x \<Rightarrow> x)"

definition update_node ::
  "update_node_op \<Rightarrow> turn_input \<Rightarrow> write_source \<Rightarrow> int \<Rightarrow> dag_store \<Rightarrow> store_error + dag_store" where
  "update_node op turn src now st =
     (case get_node st (u_node_id op) of
        None \<Rightarrow> Inl (NodeNotFound (u_node_id op))
      | Some node \<Rightarrow>
        (let detail = (case u_detail op of None \<Rightarrow> n_detail node
               | Some d \<Rightarrow> obj_merge (n_detail node) (sanitize_detail_json (n_kind node) (Some (JObj d))));
             refs = (case u_refs op of None \<Rightarrow> n_refs node
               | Some rs \<Rightarrow> dedupe_source_refs (n_refs node @
                   sanitize_source_refs (source_refs_json (Some rs)) (Some (ti_id turn))));
             importance = (case u_importance op of None \<Rightarrow> Some (n_importance node)
               | Some i \<Rightarrow> normalize_importance (Some (JNum (Fin (of_int i)))))
         in case importance of
              None \<Rightarrow> Inl InvalidImportance
            | Some imp \<Rightarrow>
                Inr (update_row (n_id node) (\<lambda>row. row\<lparr>
                  n_title := default_to (u_title op) (n_title node),
                  n_summary := default_to (u_summary op) (n_summary node),
                  n_status := default_to (u_status op) (n_status node),
                  n_detail := detail, n_importance := imp, n_updated_turn := Some (ti_id turn),
                  n_last_msg := max (n_last_msg row) (ti_end turn), n_refs := refs,
                  n_updated_by := src, n_updated_at := now\<rparr>) st)))"

definition insert_edge ::
  "add_edge_op \<Rightarrow> (string \<rightharpoonup> string) \<Rightarrow> string \<Rightarrow> write_source \<Rightarrow> int \<Rightarrow> nat \<times> nat list \<Rightarrow> dag_store
     \<Rightarrow> store_error + string option \<times> dag_store" where
  "insert_edge op temp_ids turn_id src now id_src st =
     (let s = default_to (temp_ids (ae_source op)) (ae_source op);
          t = default_to (temp_ids (ae_target op)) (ae_target op) in
      bindE (throw_if (s = t) SelfLoop) (\<lambda>_.
      bindE (throw_if (get_node st s = None \<or> get_node st t = None) UnknownEndpoint) (\<lambda>_.
      bindE (throw_if (ae_type op = Supersedes \<and> map_option n_status (get_node st s) \<noteq> Some SFrozen)
          SupersedesNotFrozen) (\<lambda>_.
      if edge_exists st s t (ae_type op) then Inr (None, st)
      else bindE (throw_if (would_create_cycle st s t) WouldCycle) (\<lambda>_.
        let i = ''e_'' @ new_sortable_id id_src;
            edge = \<lparr>e_id = i, e_source = s, e_target = t, e_type = ae_type op, e_created_turn = Some turn_id,
              e_created_by = src, e_created_at = now\<rparr> in
        bindE (throw_if (i \<in> e_id ` set (ds_edges st)) UniqueViolation) (\<lambda>_.
        Inr (Some i, st\<lparr>ds_edges := ds_edges st @ [edge]\<rparr>)))))))"

section \<open>Sortable ids are sorted by time\<close>

lemma crockford_sorted: "i < j \<Longrightarrow> j < 32 \<Longrightarrow> crockford ! i < crockford ! j"
proof -
  have "sorted_wrt (<) crockford" by (simp add: crockford_def less_char_def)
  moreover have "length crockford = 32" by (simp add: crockford_def)
  moreover assume "i < j" "j < 32"
  ultimately show ?thesis by (simp add: sorted_wrt_nth_less)
qed

lemma encode_time_tail: "a < b \<Longrightarrow> encode_time k v a < encode_time k v b"
  by (induction k arbitrary: v a b) auto

lemma encode_time_less: "v < w \<Longrightarrow> w < 32 ^ k \<Longrightarrow> encode_time k v a < encode_time k w b"
proof (induction k arbitrary: v w a b)
  case (Suc k)
  show ?case
  proof (cases "v div 32 < w div 32")
    case True
    moreover have "w div 32 < 32 ^ k" using Suc.prems(2) by (simp add: less_mult_imp_div_less mult.commute)
    ultimately show ?thesis using Suc.IH by simp
  next
    case False
    with Suc.prems(1) have "v div 32 = w div 32" by (meson div_le_mono less_imp_le_nat linorder_neqE_nat not_le)
    moreover from this Suc.prems(1) have "v mod 32 < w mod 32"
      by (metis add_less_cancel_left div_mult_mod_eq)
    ultimately show ?thesis using crockford_sorted by (simp add: encode_time_tail)
  qed
qed simp

lemma encode_time_append: "encode_time k v a @ b = encode_time k v (a @ b)"
  by (induction k arbitrary: v a) simp_all

text \<open>
  Ids sort by the millisecond in which they were made, whatever the random part, for every
  clock reading below \<open>32 ^ 10\<close> (the ten digits cover the readings up to the year 37648).
\<close>

theorem sortable_id_order:
  assumes "fst a < fst b" and "fst b < 32 ^ 10"
  shows "new_sortable_id a < new_sortable_id b"
  using assms by (auto simp: new_sortable_id_def encode_time_append intro: encode_time_less)

section \<open>The tables are consistent\<close>

definition node_ok :: "string \<Rightarrow> dag_node \<Rightarrow> bool" where
  "node_ok session n \<longleftrightarrow> n_session_key n = session \<and> 0 \<le> n_importance n \<and> n_importance n \<le> 100
     \<and> (n_goal_id n \<noteq> None \<longrightarrow> n_kind n = KTask) \<and> n_first_msg n \<le> n_last_msg n"

definition edge_key :: "dag_edge \<Rightarrow> string \<times> string \<times> edge_type" where
  "edge_key e = (e_source e, e_target e, e_type e)"

definition goal_ids :: "dag_node list \<Rightarrow> string list" where
  "goal_ids nodes = List.map_filter n_goal_id nodes"

definition store_ok :: "dag_store \<Rightarrow> bool" where
  "store_ok st \<longleftrightarrow>
     distinct (map t_id (ds_turns st)) \<and> distinct (map n_id (ds_nodes st)) \<and> distinct (map e_id (ds_edges st))
     \<and> list_all (node_ok (ds_session st)) (ds_nodes st) \<and> distinct (goal_ids (ds_nodes st))
     \<and> list_all (\<lambda>e. e_source e \<in> n_id ` set (ds_nodes st) \<and> e_target e \<in> n_id ` set (ds_nodes st)) (ds_edges st)
     \<and> distinct (map edge_key (ds_edges st)) \<and> no_cycle (arcs (ds_edges st))"

lemma goal_ids_simps [simp]:
  "goal_ids [] = []"
  "goal_ids (n # ns) = (case n_goal_id n of None \<Rightarrow> goal_ids ns | Some g \<Rightarrow> g # goal_ids ns)"
  "goal_ids (ms @ ns) = goal_ids ms @ goal_ids ns"
  by (simp_all add: goal_ids_def map_filter_def split: option.splits)

lemma in_goal_ids: "g \<in> set (goal_ids ns) \<longleftrightarrow> (\<exists>n \<in> set ns. n_goal_id n = Some g)"
  by (induction ns) (auto split: option.splits)

lemma goal_ids_map: "(\<And>n. n_goal_id (f n) = n_goal_id n) \<Longrightarrow> goal_ids (map f ns) = goal_ids ns"
  by (induction ns) (auto split: option.splits)

text \<open>Reading a row back keeps everything but the two JSON columns.\<close>

lemma parse_node_row_simps [simp]:
  "n_id (parse_node_row n) = n_id n" "n_session_key (parse_node_row n) = n_session_key n"
  "n_kind (parse_node_row n) = n_kind n" "n_status (parse_node_row n) = n_status n"
  "n_importance (parse_node_row n) = n_importance n" "n_goal_id (parse_node_row n) = n_goal_id n"
  "n_first_msg (parse_node_row n) = n_first_msg n" "n_last_msg (parse_node_row n) = n_last_msg n"
  "n_created_turn (parse_node_row n) = n_created_turn n" "n_updated_turn (parse_node_row n) = n_updated_turn n"
  "n_updated_at (parse_node_row n) = n_updated_at n" "n_created_at (parse_node_row n) = n_created_at n"
  by (simp_all add: parse_node_row_def)

lemma set_read_nodes: "store_ok st \<Longrightarrow> set (read_nodes st) = parse_node_row ` set (ds_nodes st)"
  by (auto simp: read_nodes_def store_ok_def list_all_iff node_ok_def)

lemma set_read_edges [simp]: "set (read_edges st) = set (ds_edges st)"
  by (simp add: read_edges_def)

lemma distinct_read_nodes: "store_ok st \<Longrightarrow> distinct (map n_id (read_nodes st))"
proof -
  assume "store_ok st"
  then have "distinct (map n_id (filter (\<lambda>n. n_session_key n = ds_session st) (ds_nodes st)))"
    by (simp add: store_ok_def distinct_map_filter)
  then show ?thesis
    by (simp add: read_nodes_def comp_def distinct_map)
qed

lemma get_node_None: "store_ok st \<Longrightarrow> get_node st i = None \<longleftrightarrow> i \<notin> n_id ` set (ds_nodes st)"
  by (auto simp: get_node_def find_None_iff store_ok_def list_all_iff node_ok_def)

lemma get_nodeD: "get_node st i = Some n \<Longrightarrow> \<exists>row \<in> set (ds_nodes st). n = parse_node_row row \<and> n_id row = i"
  by (auto simp: get_node_def find_Some_iff)

section \<open>Every operation keeps the tables consistent\<close>

lemma update_turn_simps [simp]:
  "ds_nodes (update_turn i f st) = ds_nodes st" "ds_edges (update_turn i f st) = ds_edges st"
  "ds_session (update_turn i f st) = ds_session st" "ds_snaps (update_turn i f st) = ds_snaps st"
  "ds_meta (update_turn i f st) = ds_meta st"
  by (simp_all add: update_turn_def)

lemma update_turn_ok: "store_ok st \<Longrightarrow> (\<And>t. t_id (f t) = t_id t) \<Longrightarrow> store_ok (update_turn i f st)"
proof -
  assume ok: "store_ok st" and f: "\<And>t. t_id (f t) = t_id t"
  have "map t_id (ds_turns (update_turn i f st)) = map t_id (ds_turns st)"
    by (simp add: update_turn_def f)
  with ok show ?thesis by (simp add: store_ok_def)
qed

lemma upsert_turn_ok: "store_ok st \<Longrightarrow> upsert_turn now input st = Inr st' \<Longrightarrow> store_ok st'"
  by (auto simp: upsert_turn_def refresh_turn_def intro!: update_turn_ok split: if_splits)
    (auto simp: store_ok_def new_turn_def)

lemma upsert_turn_frame:
  "upsert_turn now input st = Inr st' \<Longrightarrow> ds_nodes st' = ds_nodes st \<and> ds_edges st' = ds_edges st \<and> ds_session st' = ds_session st"
  by (auto simp: upsert_turn_def split: if_splits)

lemma mark_turn_done_ok: "store_ok st \<Longrightarrow> store_ok (mark_turn_done now i mode st)"
  using update_turn_ok [of st] by (simp add: mark_turn_done_def set_meta_def store_ok_def)

lemma insert_nodeE:
  assumes "insert_node op turn src now id_src st = Inr (i, st')"
  obtains node where "st' = st\<lparr>ds_nodes := ds_nodes st @ [node]\<rparr>" "n_id node = i" "n_kind node = a_kind op"
    "n_status node = a_status op" "i \<notin> n_id ` set (ds_nodes st)" "node_ok (ds_session st) node"
    "n_goal_id node = (if a_kind op = KTask then goal_field gc_goal_id turn else None)"
    "n_goal_id node = None \<or> n_goal_id node \<notin> n_goal_id ` set (ds_nodes st)"
    "n_created_at node = now" "n_updated_at node = now" "n_updated_turn node = Some (ti_id turn)"
proof -
  let ?goal = "if a_kind op = KTask then goal_field gc_goal_id turn else None"
  let ?node = "\<lparr>n_id = i, n_session_key = ds_session st, n_kind = a_kind op, n_status = a_status op,
            n_title = a_title op, n_summary = a_summary op,
            n_detail = sanitize_detail_json (a_kind op) (map_option JObj (a_detail op)),
            n_importance = a_importance op, n_created_turn = Some (ti_id turn), n_updated_turn = Some (ti_id turn),
            n_first_msg = ti_start turn, n_last_msg = ti_end turn,
            n_refs = sanitize_source_refs (source_refs_json (a_refs op)) (Some (ti_id turn)),
            n_created_by = src, n_updated_by = src, n_created_at = now, n_updated_at = now, n_goal_id = ?goal\<rparr>"
  note run = assms [unfolded insert_node_def Let_def error_simps]
  have "st' = st\<lparr>ds_nodes := ds_nodes st @ [?node]\<rparr>" "i \<notin> n_id ` set (ds_nodes st)"
    using run by (elim exE conjE, simp only: sum.inject prod.inject, blast)+
  moreover have "0 \<le> a_importance op" "a_importance op \<le> 100" "ti_start turn \<le> ti_end turn"
    using run by (elim exE conjE, simp only: de_Morgan_disj not_less)+
  moreover have "?goal = None \<or> ?goal \<notin> n_goal_id ` set (ds_nodes st)"
    using run by (elim exE conjE, blast)
  ultimately show ?thesis
    by (intro that [of ?node]) (simp_all add: node_ok_def)
qed

lemma insert_node_ok:
  assumes "store_ok st" and "insert_node op turn src now id_src st = Inr (i, st')"
  shows "store_ok st'"
  using assms(2)
proof (rule insert_nodeE)
  fix node
  assume n: "st' = st\<lparr>ds_nodes := ds_nodes st @ [node]\<rparr>" "n_id node = i" "i \<notin> n_id ` set (ds_nodes st)"
    "node_ok (ds_session st) node" "n_goal_id node = None \<or> n_goal_id node \<notin> n_goal_id ` set (ds_nodes st)"
  have "n_goal_id node = Some g \<Longrightarrow> g \<notin> set (goal_ids (ds_nodes st))" for g
    using n(5) by (auto simp: in_goal_ids image_iff)
  with n assms(1) show ?thesis
    by (auto simp: store_ok_def list_all_iff split: option.splits)
qed

text \<open>An update of a row that keeps its identity.\<close>

definition keeps_row :: "(dag_node \<Rightarrow> dag_node) \<Rightarrow> bool" where
  "keeps_row f \<longleftrightarrow> (\<forall>n. n_id (f n) = n_id n \<and> n_session_key (f n) = n_session_key n \<and> n_kind (f n) = n_kind n
     \<and> n_goal_id (f n) = n_goal_id n \<and> n_first_msg (f n) = n_first_msg n \<and> n_last_msg n \<le> n_last_msg (f n)
     \<and> n_created_at (f n) = n_created_at n \<and> n_created_turn (f n) = n_created_turn n \<and> n_created_by (f n) = n_created_by n
     \<and> (0 \<le> n_importance n \<and> n_importance n \<le> 100 \<longrightarrow> 0 \<le> n_importance (f n) \<and> n_importance (f n) \<le> 100))"

lemma update_row_simps [simp]:
  "ds_turns (update_row i f st) = ds_turns st" "ds_edges (update_row i f st) = ds_edges st"
  "ds_session (update_row i f st) = ds_session st" "ds_meta (update_row i f st) = ds_meta st"
  by (simp_all add: update_row_def)

lemma update_row_ids: "keeps_row f \<Longrightarrow> map n_id (ds_nodes (update_row i f st)) = map n_id (ds_nodes st)"
  by (simp add: update_row_def keeps_row_def)

lemma update_row_ok:
  assumes "store_ok st" and "keeps_row f"
  shows "store_ok (update_row i f st)"
proof -
  have "list_all (node_ok (ds_session st)) (ds_nodes (update_row i f st))"
    using assms by (fastforce simp: update_row_def keeps_row_def store_ok_def list_all_iff node_ok_def)
  moreover have "goal_ids (ds_nodes (update_row i f st)) = goal_ids (ds_nodes st)"
    using assms(2) by (simp add: update_row_def keeps_row_def goal_ids_map)
  moreover have "n_id ` set (ds_nodes (update_row i f st)) = n_id ` set (ds_nodes st)"
    using update_row_ids [OF assms(2), of i st] by (metis set_map)
  ultimately show ?thesis
    using assms update_row_ids [OF assms(2), of i st] by (simp add: store_ok_def)
qed

lemma update_nodeE:
  assumes "update_node op turn src now st = Inr st'" and "store_ok st"
  obtains f node where "st' = update_row (u_node_id op) f st" "keeps_row f"
    "get_node st (u_node_id op) = Some node" "\<And>n. n_status (f n) = default_to (u_status op) (n_status node)"
    "\<And>n. n_updated_at (f n) = now"
proof -
  from assms(1) obtain node where node: "get_node st (u_node_id op) = Some node"
    by (auto simp: update_node_def split: option.splits)
  then have id: "n_id node = u_node_id op" using get_nodeD by fastforce
  from assms(1) node obtain imp where
    imp: "(case u_importance op of None \<Rightarrow> Some (n_importance node)
               | Some i \<Rightarrow> normalize_importance (Some (JNum (Fin (of_int i))))) = Some imp"
    by (auto simp: update_node_def Let_def split: option.splits)
  have "node_ok (ds_session st) node"
    using get_nodeD [OF node] assms(2) by (auto simp: store_ok_def list_all_iff node_ok_def)
  with imp have "0 \<le> imp \<and> imp \<le> 100"
    by (auto simp: node_ok_def dest: normalize_importance_range split: option.splits)
  with assms(1) node imp id show ?thesis
    by (intro that) (auto simp: update_node_def Let_def keeps_row_def)
qed

lemma update_node_ok: "store_ok st \<Longrightarrow> update_node op turn src now st = Inr st' \<Longrightarrow> store_ok st'"
  using update_nodeE update_row_ok by metis

lemma insert_edgeE:
  assumes "insert_edge op temp_ids turn_id src now id_src st = Inr (r, st')"
  obtains (exists) "r = None" "st' = st"
  | (new) e where "r = Some (e_id e)" "st' = st\<lparr>ds_edges := ds_edges st @ [e]\<rparr>"
      "e_id e \<notin> e_id ` set (ds_edges st)" "e_source e \<noteq> e_target e"
      "get_node st (e_source e) \<noteq> None" "get_node st (e_target e) \<noteq> None"
      "\<not> edge_exists st (e_source e) (e_target e) (e_type e)"
      "\<not> would_create_cycle st (e_source e) (e_target e)" "e_created_turn e = Some turn_id"
proof -
  let ?edge = "\<lparr>e_id = ''e_'' @ new_sortable_id id_src, e_source = default_to (temp_ids (ae_source op)) (ae_source op),
     e_target = default_to (temp_ids (ae_target op)) (ae_target op), e_type = ae_type op,
     e_created_turn = Some turn_id, e_created_by = src, e_created_at = now\<rparr>"
  from assms consider "r = None" "st' = st"
    | "r = Some (e_id ?edge)" "st' = st\<lparr>ds_edges := ds_edges st @ [?edge]\<rparr>"
      "e_id ?edge \<notin> e_id ` set (ds_edges st)" "e_source ?edge \<noteq> e_target ?edge"
      "get_node st (e_source ?edge) \<noteq> None" "get_node st (e_target ?edge) \<noteq> None"
      "\<not> edge_exists st (e_source ?edge) (e_target ?edge) (e_type ?edge)"
      "\<not> would_create_cycle st (e_source ?edge) (e_target ?edge)"
    unfolding insert_edge_def Let_def by (auto simp: error_simps split: if_splits)
  then show ?thesis
  proof cases
    case 1
    then show ?thesis by (rule exists)
  next
    case 2
    then show ?thesis by (rule new) simp
  qed
qed

lemma insert_edge_ok:
  assumes "store_ok st" and "insert_edge op temp_ids turn_id src now id_src st = Inr (r, st')"
  shows "store_ok st'"
  using assms(2)
proof (cases rule: insert_edgeE)
  case exists
  with assms(1) show ?thesis by simp
next
  case (new e)
  have "acyclic (arcs_of (ds_edges st'))"
  proof -
    have "arcs_of (ds_edges st') = insert (e_source e, e_target e) (arcs_of (ds_edges st))"
      by (simp add: new(2) arcs_of_def)
    moreover have "acyclic (arcs_of (ds_edges st))"
      using assms(1) by (simp add: store_ok_def acyclic_arcs)
    ultimately show ?thesis
      using new(4,8) acyclic_insert_arc [of "arcs_of (ds_edges st)" "e_source e" "e_target e"]
      by (simp add: would_create_cycle_def set_reach_plus)
  qed
  moreover have "edge_key e \<notin> edge_key ` set (ds_edges st)"
    using new(7) by (auto simp: edge_exists_def edge_key_def list_ex_iff)
  ultimately show ?thesis
    using new assms(1) by (auto simp: store_ok_def acyclic_arcs get_node_None [OF assms(1)])
qed

section \<open>Nothing is lost\<close>

text \<open>The rows of a later store: the old rows keep their identity and their place, edges are appended.\<close>

definition same_row :: "dag_node \<Rightarrow> dag_node \<Rightarrow> bool" where
  "same_row a b \<longleftrightarrow> n_id b = n_id a \<and> n_session_key b = n_session_key a \<and> n_kind b = n_kind a
     \<and> n_goal_id b = n_goal_id a \<and> n_created_turn b = n_created_turn a \<and> n_created_by b = n_created_by a
     \<and> n_created_at b = n_created_at a \<and> n_first_msg b = n_first_msg a \<and> n_last_msg a \<le> n_last_msg b"

definition grows :: "dag_store \<Rightarrow> dag_store \<Rightarrow> bool" where
  "grows st st' \<longleftrightarrow> ds_session st' = ds_session st
     \<and> list_all2 same_row (ds_nodes st) (take (length (ds_nodes st)) (ds_nodes st'))
     \<and> take (length (ds_edges st)) (ds_edges st') = ds_edges st"

lemma same_row_refl [simp]: "same_row a a"
  by (simp add: same_row_def)

lemma same_row_trans: "same_row a b \<Longrightarrow> same_row b c \<Longrightarrow> same_row a c"
  by (simp add: same_row_def)

lemma grows_refl [simp]: "grows st st"
  by (simp add: grows_def list_all2_refl)

lemma growsI:
  assumes "ds_session st' = ds_session st" "list_all2 same_row (ds_nodes st) ns" "ds_nodes st' = ns @ ns'"
    "ds_edges st' = ds_edges st @ es"
  shows "grows st st'"
  using assms list_all2_lengthD [OF assms(2)] by (simp add: grows_def)

lemma growsE:
  assumes "grows st st'"
  obtains ns ns' es where "ds_session st' = ds_session st" "list_all2 same_row (ds_nodes st) ns"
    "ds_nodes st' = ns @ ns'" "ds_edges st' = ds_edges st @ es"
  using assms unfolding grows_def by (metis append_take_drop_id)

lemma grows_trans: "grows st1 st2 \<Longrightarrow> grows st2 st3 \<Longrightarrow> grows st1 st3"
proof (elim growsE)
  fix ns ns' es ms ms' fs
  assume *: "ds_session st2 = ds_session st1" "list_all2 same_row (ds_nodes st1) ns" "ds_nodes st2 = ns @ ns'"
    "ds_edges st2 = ds_edges st1 @ es" "ds_session st3 = ds_session st2" "list_all2 same_row (ds_nodes st2) ms"
    "ds_nodes st3 = ms @ ms'" "ds_edges st3 = ds_edges st2 @ fs"
  then obtain ms1 ms2 where ms: "ms = ms1 @ ms2" "list_all2 same_row ns ms1"
    by (auto simp: list_all2_append1)
  have "list_all2 same_row (ds_nodes st1) ms1"
    by (rule list_all2_trans [OF same_row_trans *(2) ms(2)])
  with * ms show "grows st1 st3" by (intro growsI) auto
qed

lemma grows_same: "ds_session st' = ds_session st \<Longrightarrow> ds_nodes st' = ds_nodes st \<Longrightarrow> ds_edges st' = ds_edges st \<Longrightarrow> grows st st'"
  by (simp add: grows_def list_all2_refl)

lemma grows_update_row: "keeps_row f \<Longrightarrow> grows st (update_row i f st)"
  by (rule growsI [where ns = "ds_nodes (update_row i f st)" and ns' = "[]" and es = "[]"])
    (auto simp: update_row_def list_all2_map2 keeps_row_def same_row_def intro!: list_all2_refl)

lemma grows_node:
  assumes "grows st st'" "n \<in> set (ds_nodes st)"
  shows "\<exists>n' \<in> set (ds_nodes st'). same_row n n'"
  using assms(1)
proof (rule growsE)
  fix ns ns' es
  assume "list_all2 same_row (ds_nodes st) ns" "ds_nodes st' = ns @ ns'"
  with assms(2) show ?thesis by (fastforce simp: list_all2_conv_all_nth in_set_conv_nth nth_append)
qed

lemma grows_edge: "grows st st' \<Longrightarrow> e \<in> set (ds_edges st) \<Longrightarrow> e \<in> set (ds_edges st')"
  by (auto elim!: growsE)

text \<open>Lookups in the list of nodes that is read are lookups of rows.\<close>

lemma by_id_read_nodes:
  assumes "store_ok st"
  shows "by_id (read_nodes st) i = get_node st i"
proof (cases "get_node st i")
  case None
  with assms have "i \<notin> n_id ` set (read_nodes st)"
    by (auto simp: get_node_None set_read_nodes)
  with None show ?thesis by (simp add: by_id_None [symmetric])
next
  case (Some n)
  then obtain row where "row \<in> set (ds_nodes st)" "n = parse_node_row row" "n_id row = i"
    using get_nodeD by blast
  then show ?thesis
    using Some by_id_distinct [OF distinct_read_nodes [OF assms], of n] assms by (simp add: set_read_nodes)
qed

lemma get_node_row:
  assumes "store_ok st" "row \<in> set (ds_nodes st)"
  shows "get_node st (n_id row) = Some (parse_node_row row)"
proof (cases "get_node st (n_id row)")
  case None
  with assms show ?thesis by (simp add: get_node_None)
next
  case (Some n)
  then obtain row' where "row' \<in> set (ds_nodes st)" "n = parse_node_row row'" "n_id row' = n_id row"
    using get_nodeD by blast
  moreover have "inj_on n_id (set (ds_nodes st))"
    using assms(1) by (simp add: store_ok_def distinct_map)
  ultimately have "row' = row" using assms(2) by (blast dest: inj_onD)
  with Some \<open>n = parse_node_row row'\<close> show ?thesis by simp
qed

lemma find_by_id: "distinct (map n_id ns) \<Longrightarrow> find (\<lambda>n. n_id n = i) ns = by_id ns i"
proof (cases "find (\<lambda>n. n_id n = i) ns")
  case None
  then have "i \<notin> n_id ` set ns" by (auto simp: find_None_iff)
  with None show ?thesis by (simp add: by_id_None [symmetric])
next
  case (Some n)
  moreover assume "distinct (map n_id ns)"
  moreover have "n \<in> set ns" "n_id n = i" using Some by (auto simp: find_Some_iff)
  ultimately show ?thesis using by_id_distinct [of ns n] by simp
qed

lemma find_read_nodes: "store_ok st \<Longrightarrow> find (\<lambda>n. n_id n = i) (read_nodes st) = get_node st i"
  by (simp add: find_by_id distinct_read_nodes by_id_read_nodes)

end
