(* ===== verification/Dag_Apply.thy ===== *)
theory Dag_Apply
  imports Dag_Store
begin

text \<open>
  The transactions of \<open>session-dag/store.ts\<close> over the graph: \<open>applyPatch\<close> with its three
  assertions, the one-time repair of task transitions, and the reads \<open>readBuilderContext\<close>,
  \<open>readGraphForHistoryDag\<close> and \<open>createSnapshot\<close>.
\<close>

section \<open>Assertions\<close>

definition task_transition_type_for_status :: "node_status \<Rightarrow> store_error + edge_type" where
  "task_transition_type_for_status s =
     (if s = SDone \<or> s = SFailed then Inr Continues
      else if s = SFrozen then Inr Supersedes
      else Inl (NotTerminal s))"

definition graph_arcs :: "dag_node list \<Rightarrow> dag_edge list \<Rightarrow> string arcs" where
  "graph_arcs nodes edges =
     arcs (filter (\<lambda>e. by_id nodes (e_source e) \<noteq> None \<and> by_id nodes (e_target e) \<noteq> None) edges)"

definition reachable_from_tasks :: "dag_node list \<Rightarrow> dag_edge list \<Rightarrow> string list" where
  "reachable_from_tasks nodes edges =
     bfs (graph_arcs nodes edges) (map n_id (filter (\<lambda>n. n_kind n = KTask) nodes)) []"

definition assert_added_child_nodes_reachable :: "string list \<Rightarrow> dag_store \<Rightarrow> store_error + unit" where
  "assert_added_child_nodes_reachable added st =
     (if added = [] then Inr ()
      else (let reachable = reachable_from_tasks (read_nodes st) (read_edges st)
            in foldE (\<lambda>_ i. throw_if (i \<notin> set reachable) (NotReachable i)) () added))"

definition is_open_task :: "dag_node \<Rightarrow> bool" where
  "is_open_task n \<longleftrightarrow> n_kind n = KTask \<and> is_open n"

definition assert_task_transition_integrity ::
  "string option \<Rightarrow> string list \<Rightarrow> dag_store \<Rightarrow> store_error + unit" where
  "assert_task_transition_integrity pre_root_id added_tasks st =
     bindE (throw_if (length added_tasks > 1) PatchAddsTasks) (\<lambda>_.
     let nodes = read_nodes st; edges = read_edges st in
     bindE (throw_if (length (filter is_open_task nodes) > 1) SeveralOpenTasks) (\<lambda>_.
     case added_tasks of
       [] \<Rightarrow> Inr ()
     | added_id # _ \<Rightarrow>
        (case by_id nodes added_id of
           None \<Rightarrow> Inl AddedTaskMissing
         | Some added \<Rightarrow>
            bindE (throw_if (n_kind added \<noteq> KTask) AddedTaskMissing) (\<lambda>_.
            bindE (throw_if (\<not> is_open added) AddedTaskNotOpen) (\<lambda>_.
            let incoming = filter (\<lambda>e. e_target e = added_id) edges in
            case pre_root_id of
              None \<Rightarrow> throw_if (list_ex (\<lambda>e. map_option n_kind (by_id nodes (e_source e)) = Some KTask) incoming)
                        InitialTaskTransition
            | Some old_id \<Rightarrow>
               (case by_id nodes old_id of
                  None \<Rightarrow> Inl OldRootMissing
                | Some old \<Rightarrow>
                   bindE (throw_if (n_kind old \<noteq> KTask) OldRootMissing) (\<lambda>_.
                   bindE (throw_if (n_status old \<noteq> SDone \<and> n_status old \<noteq> SFailed \<and> n_status old \<noteq> SFrozen)
                       OldRootOpen) (\<lambda>_.
                   case incoming of
                     [transition] \<Rightarrow>
                       bindE (throw_if (e_source transition \<noteq> n_id old
                           \<or> (e_type transition \<noteq> Continues \<and> e_type transition \<noteq> Supersedes)) NotDirectTransition) (\<lambda>_.
                       bindE (task_transition_type_for_status (n_status old)) (\<lambda>expected.
                       throw_if (e_type transition \<noteq> expected)
                         (TransitionConflict (n_status old) (e_type transition))))
                   | _ \<Rightarrow> Inl NotOneIncoming)))))))) "

definition truthy :: "string option \<Rightarrow> bool" where
  "truthy v \<longleftrightarrow> v \<noteq> None \<and> v \<noteq> Some []"

definition find_node :: "dag_node list \<Rightarrow> string \<Rightarrow> dag_node option" where
  "find_node nodes i = find (\<lambda>n. n_id n = i) nodes"

definition check_side_branch_edge ::
  "dag_node list \<Rightarrow> string \<Rightarrow> dag_node option \<Rightarrow> dag_edge \<Rightarrow> store_error + unit" where
  "check_side_branch_edge nodes turn_id goal_task edge =
     bindE (throw_if (case find_node nodes (e_source edge) of
          None \<Rightarrow> True
        | Some source \<Rightarrow> \<not> truthy (n_goal_id source) \<or> n_kind source \<noteq> KTask
            \<or> (case find_node nodes (e_target edge) of None \<Rightarrow> True | Some target \<Rightarrow> n_kind target = KTask))
        SideBranchKinds) (\<lambda>_.
     throw_if (e_created_turn edge = Some turn_id
        \<and> (case goal_task of None \<Rightarrow> True | Some g \<Rightarrow> e_source edge \<noteq> n_id g)) SideBranchOtherTask)"

definition check_cleared_goal ::
  "dag_node list \<Rightarrow> dag_edge list \<Rightarrow> dag_node option \<Rightarrow> string list \<Rightarrow> store_error + unit" where
  "check_cleared_goal nodes edges previous_root added_tasks =
     (case (previous_root, added_tasks) of
        (Some prev, next_id # _) \<Rightarrow>
          (if truthy (n_goal_id prev) \<and> is_open prev then
             (let transition = list_ex (\<lambda>e. e_source e = n_id prev
                    \<and> Some (e_target e) = map_option n_id (find_node nodes next_id)
                    \<and> e_type e = Supersedes) edges
              in throw_if (map_option n_status (find_node nodes (n_id prev)) \<noteq> Some SFrozen \<or> \<not> transition)
                   ClearedGoalNotFrozen)
           else Inr ())
      | _ \<Rightarrow> Inr ())"

definition assert_goal_boundary ::
  "turn_input \<Rightarrow> dag_node option \<Rightarrow> string list \<Rightarrow> int \<Rightarrow> dag_store \<Rightarrow> store_error + dag_store" where
  "assert_goal_boundary turn previous_root added_tasks goal_at st =
     (let nodes = read_nodes st; edges = read_edges st;
          goal_task = Option.bind (ti_goal turn) (\<lambda>g. find (\<lambda>n. n_goal_id n = Some (gc_goal_id g)) nodes) in
      bindE (foldE (\<lambda>_ e. check_side_branch_edge nodes (ti_id turn) goal_task e) ()
          (filter (\<lambda>e. e_type e = SideBranch) edges)) (\<lambda>_.
      case ti_goal turn of
        None \<Rightarrow> bindE (check_cleared_goal nodes edges previous_root added_tasks) (\<lambda>_. Inr st)
      | Some goal \<Rightarrow>
         (case goal_task of
            None \<Rightarrow> Inl NoGoalTask
          | Some task \<Rightarrow>
             (let same = (Option.bind previous_root n_goal_id = Some (gc_goal_id goal)) in
              bindE (throw_if (length added_tasks > 1) GoalSeveralTasks) (\<lambda>_.
              bindE (throw_if (same \<and> added_tasks \<noteq> []) GoalCannotSwitch) (\<lambda>_.
              bindE (throw_if (\<not> same \<and> added_tasks = []) NewGoalNeedsTask) (\<lambda>_.
              if gc_status goal = GCompleted then
                Inr (update_row (n_id task) (\<lambda>row. row\<lparr>n_status := SDone,
                  n_updated_turn := Some (ti_id turn), n_updated_at := goal_at\<rparr>) st)
              else bindE (throw_if (n_status task \<in> {SDone, SFailed, SFrozen}) UnfinishedGoalTaskClosed)
                (\<lambda>_. Inr st))))))))"

section \<open>Applying a patch\<close>

record apply_state =
  as_store :: dag_store
  as_temp :: "string \<rightharpoonup> string"
  as_edges :: "string list"
  as_children :: "string list"
  as_tasks :: "string list"
  as_next :: nat

definition apply_op ::
  "turn_input \<Rightarrow> write_source \<Rightarrow> patch_env \<Rightarrow> apply_state \<Rightarrow> patch_op \<Rightarrow> store_error + apply_state" where
  "apply_op turn src env s op =
     (case op of
        AddNode a \<Rightarrow>
          bindE (insert_node a turn src (pe_now env) (pe_ids env (as_next s)) (as_store s)) (\<lambda>(i, st).
          let s' = s\<lparr>as_store := st, as_temp := (as_temp s)(a_temp_id a \<mapsto> i), as_next := as_next s + 1\<rparr>
          in Inr (if a_kind a = KTask then s'\<lparr>as_tasks := as_tasks s @ [i]\<rparr>
                  else s'\<lparr>as_children := as_children s @ [i]\<rparr>))
      | UpdateNode u \<Rightarrow>
          bindE (update_node u turn src (pe_now env) (as_store s)) (\<lambda>st. Inr (s\<lparr>as_store := st\<rparr>))
      | AddEdge e \<Rightarrow>
          bindE (insert_edge e (as_temp s) (ti_id turn) src (pe_now env) (pe_ids env (as_next s)) (as_store s))
            (\<lambda>(new_id, st). Inr (case new_id of
                None \<Rightarrow> s\<lparr>as_store := st\<rparr>
              | Some i \<Rightarrow> s\<lparr>as_store := st, as_edges := as_edges s @ [i], as_next := as_next s + 1\<rparr>)))"

definition same_goal :: "turn_input \<Rightarrow> dag_node option \<Rightarrow> bool" where
  "same_goal turn rt \<longleftrightarrow>
     (case ti_goal turn of None \<Rightarrow> False | Some g \<Rightarrow> Option.bind rt n_goal_id = Some (gc_goal_id g))"

definition check_goal_ops :: "turn_input \<Rightarrow> dag_node option \<Rightarrow> patch_op list \<Rightarrow> store_error + unit" where
  "check_goal_ops turn pre_root ops =
     (case (ti_goal turn, pre_root) of
        (Some goal, Some rt) \<Rightarrow>
          (if n_goal_id rt = Some (gc_goal_id goal) then
             (let statuses = root_status_updates (n_id rt) ops in
              bindE (throw_if (list_ex (\<lambda>a. a_kind a = KTask) (added_nodes ops)) GoalTurnSecondTask) (\<lambda>_.
              bindE (throw_if (gc_status goal \<noteq> GCompleted \<and> list_ex (\<lambda>s. s \<in> {SDone, SFailed, SFrozen}) statuses)
                  UnfinishedGoalTurnCloses) (\<lambda>_.
              throw_if (gc_status goal = GCompleted \<and> list_ex (\<lambda>s. s \<noteq> SDone) statuses) CompletedGoalTurnNotDone)))
           else Inr ())
      | _ \<Rightarrow> Inr ())"

definition build_source :: "build_mode \<Rightarrow> write_source" where
  "build_source mode = (case mode of LlmPatch \<Rightarrow> ByLlmPatch | DeterministicFallback \<Rightarrow> ByFallback)"

definition apply_patch ::
  "turn_input \<Rightarrow> patch_op list \<Rightarrow> build_mode \<Rightarrow> write_source option \<Rightarrow> patch_env \<Rightarrow> dag_store
     \<Rightarrow> store_error + apply_state" where
  "apply_patch turn ops mode write_source env st =
     (let src = default_to write_source (build_source mode);
          pre_root = select_root_task (read_nodes st) in
      bindE (upsert_turn (pe_upsert_at env) turn st) (\<lambda>st1.
      bindE (check_goal_ops turn pre_root ops) (\<lambda>_.
      bindE (foldE (apply_op turn src env)
          \<lparr>as_store = st1, as_temp = Map.empty, as_edges = [], as_children = [], as_tasks = [], as_next = 0\<rparr> ops) (\<lambda>s.
      bindE (assert_added_child_nodes_reachable (as_children s) (as_store s)) (\<lambda>_.
      bindE (assert_task_transition_integrity (map_option n_id pre_root) (as_tasks s) (as_store s)) (\<lambda>_.
      bindE (assert_goal_boundary turn pre_root (as_tasks s) (pe_goal_at env) (as_store s)) (\<lambda>st2.
      Inr (s\<lparr>as_store := mark_turn_done (pe_done_at env) (ti_id turn) mode st2\<rparr>))))))))"

section \<open>Reads\<close>

definition to_context_node :: "dag_node \<Rightarrow> ctx_node" where
  "to_context_node n = \<lparr>c_id = n_id n, c_kind = n_kind n, c_status = n_status n, c_title = n_title n,
     c_summary = n_summary n, c_importance = n_importance n, c_created_by = n_created_by n,
     c_updated_by = n_updated_by n, c_refs = n_refs n, c_updated_turn = n_updated_turn n,
     c_first_msg = n_first_msg n, c_last_msg = n_last_msg n, c_goal_id = n_goal_id n\<rparr>"

definition to_context_edge :: "dag_edge \<Rightarrow> ctx_edge" where
  "to_context_edge e = \<lparr>ce_source = e_source e, ce_target = e_target e, ce_type = e_type e\<rparr>"

definition cmp_ranked :: "dag_node \<Rightarrow> dag_node \<Rightarrow> int" where
  "cmp_ranked left right =
     then_cmp (n_importance right - n_importance left) (n_updated_at right - n_updated_at left)"

text \<open>\<open>for (const node of ranked) { if (selected.size >= maxNodes) break; selected.add(node.id); }\<close>\<close>

fun select_ranked :: "int \<Rightarrow> string list \<Rightarrow> dag_node list \<Rightarrow> string list" where
  "select_ranked max_nodes selected [] = selected"
| "select_ranked max_nodes selected (n # ns) =
     (if int (length selected) \<ge> max_nodes then selected
      else select_ranked max_nodes (if n_id n \<in> set selected then selected else selected @ [n_id n]) ns)"

definition mandatory_ids :: "dag_node list \<Rightarrow> string list \<Rightarrow> string list \<Rightarrow> string list" where
  "mandatory_ids nodes path descendants =
     remdups (path @ map n_id (filter (\<lambda>n. n_id n \<in> set descendants
          \<and> (n_status n = SActive \<or> n_status n = SBlocked \<or> n_status n = SFailed)) nodes))"

definition read_builder_context :: "int \<Rightarrow> dag_store \<Rightarrow> dag_context" where
  "read_builder_context max_nodes st =
     (let nodes = read_nodes st; edges = read_edges st in
      if nodes = [] then \<lparr>dc_root = None, dc_nodes = [], dc_edges = [], dc_path = [], dc_path_edges = []\<rparr>
      else
       (let path = derive_active_path_selection nodes edges;
            root_id = (case p_nodes path of [] \<Rightarrow> None | r # _ \<Rightarrow> Some r);
            descendants = (case root_id of None \<Rightarrow> [] | Some r \<Rightarrow> if r = [] then [] else task_subgraph_node_ids r nodes edges);
            mandatory = mandatory_ids nodes (p_nodes path) descendants;
            ranked = sort_cmp cmp_ranked (filter (\<lambda>n. n_id n \<in> set descendants) nodes);
            selected = select_ranked max_nodes mandatory ranked
        in \<lparr>dc_root = root_id,
            dc_nodes = map to_context_node (filter (\<lambda>n. n_id n \<in> set selected) nodes),
            dc_edges = map to_context_edge
              (filter (\<lambda>e. e_source e \<in> set selected \<and> e_target e \<in> set selected) edges),
            dc_path = p_nodes path,
            dc_path_edges = map (\<lambda>e. (e_id e, to_context_edge e))
              (List.map_filter (\<lambda>i. map_of (rev (map (\<lambda>e. (e_id e, e)) edges)) i) (p_edges path))\<rparr>))"

text \<open>\<open>ORDER BY created_at DESC LIMIT 1\<close>\<close>

definition read_latest_snapshot_text :: "dag_store \<Rightarrow> string option" where
  "read_latest_snapshot_text st =
     (case sort_cmp (\<lambda>l r. s_created_at r - s_created_at l) (ds_snaps st) of [] \<Rightarrow> None | s # _ \<Rightarrow> Some (s_text s))"

definition read_graph_for_history_dag :: "dag_store \<Rightarrow> dag_graph" where
  "read_graph_for_history_dag st =
     (let nodes = read_nodes st; edges = read_edges st;
          path = derive_active_path_selection nodes edges
      in \<lparr>gr_session_key = ds_session st, gr_nodes = nodes, gr_edges = edges,
          gr_path_nodes = p_nodes path, gr_path_edges = p_edges path,
          gr_snapshot_text = opt_str (read_latest_snapshot_text st)\<rparr>)"

definition create_snapshot ::
  "int \<Rightarrow> nat \<times> nat list \<Rightarrow> string option \<Rightarrow> string \<Rightarrow> json_obj \<Rightarrow> rat \<Rightarrow> dag_store
     \<Rightarrow> store_error + dag_snapshot \<times> dag_store" where
  "create_snapshot now id_src turn_id snapshot_text snapshot_json token_estimate st =
     (let rec = \<lparr>s_id = ''s_'' @ new_sortable_id id_src, s_turn = turn_id, s_text = snapshot_text,
            s_json = snapshot_json, s_tokens = max 0 (js_trunc token_estimate), s_created_at = now\<rparr>
      in bindE (throw_if (s_id rec \<in> s_id ` set (ds_snaps st)
             \<or> (case turn_id of None \<Rightarrow> False | Some t \<Rightarrow> get_turn st t = None)) UniqueViolation) (\<lambda>_.
         Inr (rec, st\<lparr>ds_snaps := ds_snaps st @ [rec]\<rparr>)))"

section \<open>One operation\<close>

lemma apply_op_step:
  assumes "apply_op turn src env s op = Inr s'" and "store_ok (as_store s)"
  shows "store_ok (as_store s') \<and> grows (as_store s) (as_store s')"
proof (cases op)
  case (AddNode a)
  with assms(1) obtain i st where ins: "insert_node a turn src (pe_now env) (pe_ids env (as_next s)) (as_store s) = Inr (i, st)"
    and st: "as_store s' = st"
    by (auto simp: apply_op_def error_simps Let_def)
  from ins obtain n where "st = (as_store s)\<lparr>ds_nodes := ds_nodes (as_store s) @ [n]\<rparr>"
    by (rule insert_nodeE)
  then have "grows (as_store s) st"
    by (intro growsI [where ns = "ds_nodes (as_store s)" and ns' = "[n]" and es = "[]"]) (auto simp: list_all2_refl)
  with insert_node_ok [OF assms(2) ins] st show ?thesis by simp
next
  case (UpdateNode u)
  with assms(1) have up: "update_node u turn src (pe_now env) (as_store s) = Inr (as_store s')"
    by (auto simp: apply_op_def error_simps)
  then obtain f where "as_store s' = update_row (u_node_id u) f (as_store s)" "keeps_row f"
    using assms(2) by (rule update_nodeE)
  with grows_update_row update_node_ok [OF assms(2) up] show ?thesis by simp
next
  case (AddEdge e)
  with assms(1) obtain r st where
    ins: "insert_edge e (as_temp s) (ti_id turn) src (pe_now env) (pe_ids env (as_next s)) (as_store s) = Inr (r, st)"
    and st: "as_store s' = st"
    by (auto simp: apply_op_def error_simps split: option.splits)
  from ins have "grows (as_store s) st"
  proof (cases rule: insert_edgeE)
    case (new e')
    then show ?thesis
      by (intro growsI [where ns = "ds_nodes (as_store s)" and ns' = "[]" and es = "[e']"]) (auto simp: list_all2_refl)
  qed simp
  with insert_edge_ok [OF assms(2) ins] st show ?thesis by simp
qed

lemma apply_ops_step:
  assumes "foldE (apply_op turn src env) s ops = Inr s'" and "store_ok (as_store s)"
  shows "store_ok (as_store s') \<and> grows (as_store s) (as_store s')"
proof (rule foldE_invariant [OF assms(1), where I = "\<lambda>t. store_ok (as_store t) \<and> grows (as_store s) (as_store t)"])
  show "store_ok (as_store s) \<and> grows (as_store s) (as_store s)" using assms(2) by simp
next
  fix t op t'
  assume "store_ok (as_store t) \<and> grows (as_store s) (as_store t)" "apply_op turn src env t op = Inr t'"
  then show "store_ok (as_store t') \<and> grows (as_store s) (as_store t')"
    using apply_op_step grows_trans by blast
qed

section \<open>What a committed patch passed\<close>

lemma keeps_row_close: "keeps_row (\<lambda>row. row\<lparr>n_status := x, n_updated_turn := t, n_updated_at := a\<rparr>)"
  by (simp add: keeps_row_def)

lemma assert_goal_boundaryE:
  assumes "assert_goal_boundary turn pre_root added goal_at st = Inr st'"
  obtains (no_goal) "ti_goal turn = None" "st' = st"
      "check_cleared_goal (read_nodes st) (read_edges st) pre_root added = Inr ()"
      "foldE (\<lambda>_ e. check_side_branch_edge (read_nodes st) (ti_id turn) None e) ()
          (filter (\<lambda>e. e_type e = SideBranch) (read_edges st)) = Inr ()"
  | (goal) g task where "ti_goal turn = Some g"
      "find (\<lambda>n. n_goal_id n = Some (gc_goal_id g)) (read_nodes st) = Some task"
      "(Option.bind pre_root n_goal_id = Some (gc_goal_id g)) = (added = [])" "length added \<le> 1"
      "foldE (\<lambda>_ e. check_side_branch_edge (read_nodes st) (ti_id turn) (Some task) e) ()
          (filter (\<lambda>e. e_type e = SideBranch) (read_edges st)) = Inr ()"
      "if gc_status g = GCompleted
       then st' = update_row (n_id task) (\<lambda>row. row\<lparr>n_status := SDone,
                  n_updated_turn := Some (ti_id turn), n_updated_at := goal_at\<rparr>) st
       else st' = st \<and> n_status task \<notin> {SDone, SFailed, SFrozen}"
proof (cases "ti_goal turn")
  case None
  with assms show ?thesis
    by (intro no_goal) (auto simp: assert_goal_boundary_def Let_def error_simps)
next
  case (Some g)
  with assms show ?thesis
    by (cases "find (\<lambda>n. n_goal_id n = Some (gc_goal_id g)) (read_nodes st)")
      (auto simp: assert_goal_boundary_def Let_def error_simps not_less split: if_splits intro: goal)
qed

lemma assert_goal_boundary_step:
  assumes "assert_goal_boundary turn pre_root added goal_at st = Inr st'" and "store_ok st"
  shows "store_ok st' \<and> grows st st'"
  using assms(1)
proof (cases rule: assert_goal_boundaryE)
  case no_goal
  with assms(2) show ?thesis by simp
next
  case (goal g task)
  with assms(2) update_row_ok [OF assms(2) keeps_row_close] grows_update_row [OF keeps_row_close] show ?thesis
    by (auto split: if_splits)
qed

lemma assert_goal_boundary_ids:
  assumes "assert_goal_boundary turn pre_root added goal_at st = Inr st'"
  shows "map n_id (ds_nodes st') = map n_id (ds_nodes st)"
  using assms
  by (cases rule: assert_goal_boundaryE) (auto simp: update_row_def split: if_splits)

lemma apply_patchE:
  assumes "apply_patch turn ops mode write_source env st = Inr s" and "store_ok st"
  obtains st1 s1 st2 where
    "upsert_turn (pe_upsert_at env) turn st = Inr st1"
    "check_goal_ops turn (select_root_task (read_nodes st)) ops = Inr ()"
    "foldE (apply_op turn (default_to write_source (build_source mode)) env)
       \<lparr>as_store = st1, as_temp = Map.empty, as_edges = [], as_children = [], as_tasks = [], as_next = 0\<rparr> ops = Inr s1"
    "store_ok (as_store s1)" "grows st (as_store s1)"
    "assert_added_child_nodes_reachable (as_children s1) (as_store s1) = Inr ()"
    "assert_task_transition_integrity (map_option n_id (select_root_task (read_nodes st))) (as_tasks s1) (as_store s1) = Inr ()"
    "assert_goal_boundary turn (select_root_task (read_nodes st)) (as_tasks s1) (pe_goal_at env) (as_store s1) = Inr st2"
    "store_ok st2" "grows (as_store s1) st2"
    "s = s1\<lparr>as_store := mark_turn_done (pe_done_at env) (ti_id turn) mode st2\<rparr>"
proof -
  from assms(1) obtain st1 s1 st2 where *:
    "upsert_turn (pe_upsert_at env) turn st = Inr st1"
    "check_goal_ops turn (select_root_task (read_nodes st)) ops = Inr ()"
    "foldE (apply_op turn (default_to write_source (build_source mode)) env)
       \<lparr>as_store = st1, as_temp = Map.empty, as_edges = [], as_children = [], as_tasks = [], as_next = 0\<rparr> ops = Inr s1"
    "assert_added_child_nodes_reachable (as_children s1) (as_store s1) = Inr ()"
    "assert_task_transition_integrity (map_option n_id (select_root_task (read_nodes st))) (as_tasks s1) (as_store s1) = Inr ()"
    "assert_goal_boundary turn (select_root_task (read_nodes st)) (as_tasks s1) (pe_goal_at env) (as_store s1) = Inr st2"
    "s = s1\<lparr>as_store := mark_turn_done (pe_done_at env) (ti_id turn) mode st2\<rparr>"
    unfolding apply_patch_def Let_def by (auto simp: error_simps)
  have "store_ok st1" "grows st st1"
    using upsert_turn_ok [OF assms(2) *(1)] upsert_turn_frame [OF *(1)] by (auto intro: grows_same)
  with apply_ops_step [OF *(3)] have s1: "store_ok (as_store s1)" "grows st (as_store s1)"
    by (auto intro: grows_trans)
  with assert_goal_boundary_step [OF *(6)] * show ?thesis by (intro that) auto
qed

lemma mark_turn_done_simps [simp]:
  "ds_nodes (mark_turn_done now i mode st) = ds_nodes st" "ds_edges (mark_turn_done now i mode st) = ds_edges st"
  "ds_session (mark_turn_done now i mode st) = ds_session st"
  "read_nodes (mark_turn_done now i mode st) = read_nodes st"
  "read_edges (mark_turn_done now i mode st) = read_edges st"
  "get_node (mark_turn_done now i mode st) j = get_node st j"
  by (simp_all add: mark_turn_done_def set_meta_def read_nodes_def read_edges_def get_node_def)

text \<open>
  C1: a committed patch keeps the store consistent. Ids of turns, nodes and edges stay unique, every
  edge joins two nodes of the session, no two edges have the same ends and type, the graph has
  no cycle, importances stay within 0..100, and no two nodes carry the same Goal id. Moreover
  nothing is lost: every node keeps its id, kind, Goal and creation data, and every edge stays.
\<close>

theorem apply_patch_store_ok:
  assumes "store_ok st" and "apply_patch turn ops mode write_source env st = Inr s"
  shows "store_ok (as_store s) \<and> grows st (as_store s)"
  using assms(2,1)
proof (rule apply_patchE)
  fix st1 s1 st2
  assume "store_ok (as_store s1)" "grows st (as_store s1)" "store_ok st2" "grows (as_store s1) st2"
    and s: "s = s1\<lparr>as_store := mark_turn_done (pe_done_at env) (ti_id turn) mode st2\<rparr>"
  moreover have "grows st2 (mark_turn_done (pe_done_at env) (ti_id turn) mode st2)"
    by (rule grows_same) simp_all
  ultimately show ?thesis
    using mark_turn_done_ok by (auto intro: grows_trans)
qed

section \<open>At most one open task\<close>

definition open_tasks :: "dag_store \<Rightarrow> dag_node list" where
  "open_tasks st = filter is_open_task (read_nodes st)"

lemma is_open_task_parse [simp]: "is_open_task (parse_node_row n) = is_open_task n"
  by (simp add: is_open_task_def is_open_def)

lemma length_open_tasks: "store_ok st \<Longrightarrow> length (open_tasks st) = length (filter is_open_task (ds_nodes st))"
proof -
  assume "store_ok st"
  then have "filter (\<lambda>n. n_session_key n = ds_session st) (ds_nodes st) = ds_nodes st"
    by (simp add: store_ok_def list_all_iff node_ok_def filter_id_conv)
  then have "mset (read_nodes st) = image_mset parse_node_row (mset (ds_nodes st))"
    by (simp add: read_nodes_def)
  then have "size (filter_mset is_open_task (mset (read_nodes st)))
      = size (filter_mset is_open_task (mset (ds_nodes st)))"
    by (simp add: filter_mset_image_mset)
  then show ?thesis by (simp add: open_tasks_def size_mset [symmetric] del: size_mset)
qed

lemma length_filter_map_le: "(\<And>x. P (f x) \<Longrightarrow> P x) \<Longrightarrow> length (filter P (map f xs)) \<le> length (filter P xs)"
  by (induction xs) auto

lemma assert_goal_boundary_open:
  assumes "assert_goal_boundary turn pre_root added goal_at st = Inr st'" and "store_ok st"
  shows "length (open_tasks st') \<le> length (open_tasks st)"
  using assms(1)
proof (cases rule: assert_goal_boundaryE)
  case no_goal
  then show ?thesis by simp
next
  case (goal g task)
  have ok': "store_ok st'" using assert_goal_boundary_step [OF assms] by simp
  show ?thesis
  proof (cases "gc_status g = GCompleted")
    case True
    with goal have "ds_nodes st' = map (\<lambda>n. if n_id n = n_id task then n\<lparr>n_status := SDone,
        n_updated_turn := Some (ti_id turn), n_updated_at := goal_at\<rparr> else n) (ds_nodes st)"
      by (simp add: update_row_def)
    then show ?thesis
      unfolding length_open_tasks [OF assms(2)] length_open_tasks [OF ok']
      by (simp only:, intro length_filter_map_le)
        (simp add: is_open_task_def is_open_def is_open_status_def split: if_splits)
  next
    case False
    with goal show ?thesis by simp
  qed
qed

lemma apply_patch_open_tasks:
  assumes "store_ok st" and "apply_patch turn ops mode write_source env st = Inr s"
  shows "length (open_tasks (as_store s)) \<le> 1"
  using assms(2,1)
proof (rule apply_patchE)
  fix st1 s1 st2
  assume ok: "store_ok (as_store s1)"
    and trans: "assert_task_transition_integrity (map_option n_id (select_root_task (read_nodes st))) (as_tasks s1) (as_store s1) = Inr ()"
    and goal: "assert_goal_boundary turn (select_root_task (read_nodes st)) (as_tasks s1) (pe_goal_at env) (as_store s1) = Inr st2"
    and s: "s = s1\<lparr>as_store := mark_turn_done (pe_done_at env) (ti_id turn) mode st2\<rparr>"
  from trans have "length (open_tasks (as_store s1)) \<le> 1"
    unfolding open_tasks_def assert_task_transition_integrity_def Let_def
    by (auto simp: error_simps)
  with assert_goal_boundary_open [OF goal ok] have "length (open_tasks st2) \<le> 1" by simp
  then show ?thesis by (simp add: s open_tasks_def)
qed

text \<open>
  after any committed patch the session has at most one open (active or blocked) task, whatever
  the patch and the state before it, and the turn is recorded as processed: its row is done and
  \<open>last_processed_turn_id\<close> names it.
\<close>

theorem apply_patch_one_open_task:
  assumes "store_ok st" and "apply_patch turn ops mode write_source env st = Inr s"
  shows "length (open_tasks (as_store s)) \<le> 1
     \<and> get_meta (as_store s) ''last_processed_turn_id'' = Some (ti_id turn)
     \<and> list_all (\<lambda>t. t_id t = ti_id turn \<longrightarrow> t_status t = TDone \<and> t_build_mode t = Some mode) (ds_turns (as_store s))"
  using assms(2,1)
proof (rule apply_patchE)
  fix s1 :: apply_state and st2
  assume s: "s = s1\<lparr>as_store := mark_turn_done (pe_done_at env) (ti_id turn) mode st2\<rparr>"
  show ?thesis
    using apply_patch_open_tasks [OF assms]
    by (auto simp: s get_meta_def mark_turn_done_def set_meta_def update_turn_def list_all_iff)
qed

section \<open>Every child belongs to a task\<close>

lemma set_graph_arcs: "store_ok st \<Longrightarrow> set (graph_arcs (read_nodes st) (read_edges st)) = arcs_of (ds_edges st)"
  by (auto simp: graph_arcs_def arcs_of_def by_id_read_nodes get_node_None store_ok_def list_all_iff)

lemma set_reachable:
  "store_ok st \<Longrightarrow> i \<in> set (reachable_from_tasks (read_nodes st) (read_edges st)) \<longleftrightarrow>
     (\<exists>t \<in> set (ds_nodes st). n_kind t = KTask \<and> (n_id t, i) \<in> (arcs_of (ds_edges st))\<^sup>*)"
  by (auto simp: reachable_from_tasks_def set_bfs set_graph_arcs set_read_nodes)

lemma reachable_grows:
  assumes "grows st st'" "store_ok st" "store_ok st'"
    and "i \<in> set (reachable_from_tasks (read_nodes st) (read_edges st))"
  shows "i \<in> set (reachable_from_tasks (read_nodes st') (read_edges st'))"
proof -
  from assms obtain t where t: "t \<in> set (ds_nodes st)" "n_kind t = KTask" "(n_id t, i) \<in> (arcs_of (ds_edges st))\<^sup>*"
    by (auto simp: set_reachable)
  obtain t' where "t' \<in> set (ds_nodes st')" "same_row t t'"
    using grows_node [OF assms(1) t(1)] by blast
  moreover have "arcs_of (ds_edges st) \<subseteq> arcs_of (ds_edges st')"
    using grows_edge [OF assms(1)] by (auto simp: arcs_of_def)
  then have "(n_id t, i) \<in> (arcs_of (ds_edges st'))\<^sup>*"
    using t(3) rtrancl_mono by blast
  ultimately show ?thesis
    using t(2) assms(3) by (auto simp: set_reachable same_row_def intro!: bexI [of _ t'])
qed

definition children_reachable :: "dag_store \<Rightarrow> bool" where
  "children_reachable st \<longleftrightarrow>
     list_all (\<lambda>n. n_kind n = KTask \<or> n_id n \<in> set (reachable_from_tasks (read_nodes st) (read_edges st))) (ds_nodes st)"

text \<open>The new rows of a patch are the ids it collected.\<close>

definition tracks :: "dag_store \<Rightarrow> apply_state \<Rightarrow> bool" where
  "tracks st s \<longleftrightarrow> (\<forall>n \<in> set (ds_nodes (as_store s)). n_id n \<in> n_id ` set (ds_nodes st)
     \<or> (if n_kind n = KTask then n_id n \<in> set (as_tasks s) else n_id n \<in> set (as_children s)))"

lemma apply_op_tracks:
  assumes "apply_op turn src env s op = Inr s'" and "store_ok (as_store s)" and "tracks st s"
  shows "tracks st s'"
proof (cases op)
  case (AddNode a)
  with assms(1) obtain i st' where ins: "insert_node a turn src (pe_now env) (pe_ids env (as_next s)) (as_store s) = Inr (i, st')"
    and s': "as_store s' = st'" "if a_kind a = KTask then as_tasks s' = as_tasks s @ [i] \<and> as_children s' = as_children s
       else as_tasks s' = as_tasks s \<and> as_children s' = as_children s @ [i]"
    by (auto simp: apply_op_def error_simps Let_def)
  from ins obtain n where "st' = (as_store s)\<lparr>ds_nodes := ds_nodes (as_store s) @ [n]\<rparr>" "n_id n = i" "n_kind n = a_kind a"
    by (rule insert_nodeE)
  with s' assms(3) show ?thesis by (auto simp: tracks_def split: if_splits)
next
  case (UpdateNode u)
  with assms(1) have up: "update_node u turn src (pe_now env) (as_store s) = Inr (as_store s')"
    and same: "as_tasks s' = as_tasks s" "as_children s' = as_children s"
    by (auto simp: apply_op_def error_simps)
  from up assms(2) obtain f where "as_store s' = update_row (u_node_id u) f (as_store s)" "keeps_row f"
    by (rule update_nodeE)
  then have "map (\<lambda>n. (n_id n, n_kind n)) (ds_nodes (as_store s')) = map (\<lambda>n. (n_id n, n_kind n)) (ds_nodes (as_store s))"
    by (simp add: update_row_def keeps_row_def)
  then have img: "(\<lambda>n. (n_id n, n_kind n)) ` set (ds_nodes (as_store s')) = (\<lambda>n. (n_id n, n_kind n)) ` set (ds_nodes (as_store s))"
    by (metis set_map)
  show ?thesis
    unfolding tracks_def
  proof
    fix n assume "n \<in> set (ds_nodes (as_store s'))"
    with img obtain m where "m \<in> set (ds_nodes (as_store s))" "n_id m = n_id n" "n_kind m = n_kind n" by force
    with assms(3) show "n_id n \<in> n_id ` set (ds_nodes st)
        \<or> (if n_kind n = KTask then n_id n \<in> set (as_tasks s') else n_id n \<in> set (as_children s'))"
      unfolding tracks_def same by metis
  qed
next
  case (AddEdge e)
  with assms(1) obtain r st' where
    ins: "insert_edge e (as_temp s) (ti_id turn) src (pe_now env) (pe_ids env (as_next s)) (as_store s) = Inr (r, st')"
    and s': "as_store s' = st'" "as_tasks s' = as_tasks s" "as_children s' = as_children s"
    by (auto simp: apply_op_def error_simps split: option.splits)
  from ins have "ds_nodes st' = ds_nodes (as_store s)"
    by (cases rule: insert_edgeE) auto
  with assms(3) show ?thesis unfolding tracks_def s' by simp
qed

lemma apply_ops_tracks:
  assumes "foldE (apply_op turn src env) s ops = Inr s'" and "store_ok (as_store s)" and "tracks st s"
  shows "tracks st s'"
proof -
  have "store_ok (as_store s') \<and> tracks st s'"
    by (rule foldE_invariant [OF assms(1)]) (use assms(2,3) apply_op_step apply_op_tracks in blast)+
  then show ?thesis ..
qed

lemma grows_old_node:
  assumes "grows st st'" "store_ok st'" "n \<in> set (ds_nodes st')" "n_id n \<in> n_id ` set (ds_nodes st)"
  shows "\<exists>m \<in> set (ds_nodes st). same_row m n"
proof -
  from assms(4) obtain m where m: "m \<in> set (ds_nodes st)" "n_id m = n_id n" by auto
  obtain n' where n': "n' \<in> set (ds_nodes st')" "same_row m n'" using grows_node [OF assms(1) m(1)] by blast
  have "inj_on n_id (set (ds_nodes st'))" using assms(2) by (simp add: store_ok_def distinct_map)
  with n' m assms(3) have "n' = n" by (auto simp: same_row_def dest: inj_onD)
  with m n' show ?thesis by blast
qed

text \<open>
  in a session built by patches every subtask and decision is reachable from a task: the
  invariant holds of an empty store and every committed patch preserves it.
\<close>

theorem apply_patch_children_reachable:
  assumes "store_ok st" and "children_reachable st" and "apply_patch turn ops mode write_source env st = Inr s"
  shows "children_reachable (as_store s)"
  using assms(3,1)
proof (rule apply_patchE)
  fix st1 s1 st2
  assume up: "upsert_turn (pe_upsert_at env) turn st = Inr st1"
    and fold: "foldE (apply_op turn (default_to write_source (build_source mode)) env)
       \<lparr>as_store = st1, as_temp = Map.empty, as_edges = [], as_children = [], as_tasks = [], as_next = 0\<rparr> ops = Inr s1"
    and ok: "store_ok (as_store s1)" "grows st (as_store s1)" "store_ok st2" "grows (as_store s1) st2"
    and reach: "assert_added_child_nodes_reachable (as_children s1) (as_store s1) = Inr ()"
    and goal: "assert_goal_boundary turn (select_root_task (read_nodes st)) (as_tasks s1) (pe_goal_at env) (as_store s1) = Inr st2"
    and s: "s = s1\<lparr>as_store := mark_turn_done (pe_done_at env) (ti_id turn) mode st2\<rparr>"
  have "store_ok st1" using upsert_turn_ok [OF assms(1) up] .
  moreover have "tracks st \<lparr>as_store = st1, as_temp = Map.empty, as_edges = [], as_children = [], as_tasks = [], as_next = 0\<rparr>"
    using upsert_turn_frame [OF up] by (simp add: tracks_def)
  ultimately have tracks: "tracks st s1" using apply_ops_tracks [OF fold] by simp
  have new: "i \<in> set (reachable_from_tasks (read_nodes (as_store s1)) (read_edges (as_store s1)))"
    if "i \<in> set (as_children s1)" for i
    using reach that by (auto simp: assert_added_child_nodes_reachable_def Let_def foldE_throw_if split: if_splits)
  have before: "n_kind n = KTask \<or> n_id n \<in> set (reachable_from_tasks (read_nodes (as_store s1)) (read_edges (as_store s1)))"
    if n: "n \<in> set (ds_nodes (as_store s1))" for n
  proof (cases "n_id n \<in> n_id ` set (ds_nodes st)")
    case True
    then obtain m where "m \<in> set (ds_nodes st)" "same_row m n"
      using grows_old_node [OF ok(2,1) n] by blast
    then show ?thesis
      using assms(2) reachable_grows [OF ok(2) assms(1) ok(1)]
      by (auto simp: children_reachable_def list_all_iff same_row_def)
  next
    case False
    with tracks n new show ?thesis by (auto simp: tracks_def split: if_splits)
  qed
  have "n_kind n = KTask \<or> n_id n \<in> set (reachable_from_tasks (read_nodes st2) (read_edges st2))"
    if n2: "n \<in> set (ds_nodes st2)" for n
  proof -
    have "n_id n \<in> n_id ` set (ds_nodes (as_store s1))"
      using n2 assert_goal_boundary_ids [OF goal] by (metis image_eqI set_map)
    then obtain m where m: "m \<in> set (ds_nodes (as_store s1))" "same_row m n"
      using grows_old_node [OF ok(4,3) n2] by blast
    with before [OF m(1)] reachable_grows [OF ok(4,1,3)] show ?thesis
      by (auto simp: same_row_def)
  qed
  then show ?thesis by (simp add: s children_reachable_def list_all_iff)
qed

section \<open>Task switches\<close>

lemma assert_task_transition_integrityE:
  assumes "assert_task_transition_integrity (Some r) (a # as) st = Inr ()" and "store_ok st"
  obtains added old e where "as = []" "get_node st a = Some added" "n_kind added = KTask" "is_open added"
    "get_node st r = Some old" "n_kind old = KTask"
    "filter (\<lambda>e. e_target e = a) (read_edges st) = [e]" "e_source e = r"
    "task_transition_type_for_status (n_status old) = Inr (e_type e)"
proof -
  note run = assms(1) [unfolded assert_task_transition_integrity_def Let_def by_id_read_nodes [OF assms(2)]]
  from run obtain added where a: "as = []" "get_node st a = Some added" "n_kind added = KTask" "is_open added"
    by (auto simp: error_simps split: option.splits)
  from run a obtain old where r: "get_node st r = Some old" "n_kind old = KTask"
    by (auto simp: error_simps split: option.splits)
  from run a r have "case filter (\<lambda>e. e_target e = a) (read_edges st) of
      [transition] \<Rightarrow> e_source transition = n_id old \<and>
        (\<exists>ty. task_transition_type_for_status (n_status old) = Inr ty \<and> e_type transition = ty)
    | _ \<Rightarrow> False"
    by (auto simp: error_simps split: list.splits)
  moreover have "n_id old = r" using get_nodeD [OF r(1)] by auto
  ultimately obtain e where "filter (\<lambda>e. e_target e = a) (read_edges st) = [e]" "e_source e = r"
    "task_transition_type_for_status (n_status old) = Inr (e_type e)"
    by (auto split: list.splits)
  with a r show ?thesis by (rule that)
qed

lemma get_node_update_row:
  assumes "store_ok st" "keeps_row f" "i \<noteq> j"
  shows "get_node (update_row i f st) j = get_node st j"
proof -
  have "find (\<lambda>n. n_id n = j \<and> P (n_session_key n)) (map (\<lambda>n. if n_id n = i then f n else n) ns)
      = find (\<lambda>n. n_id n = j \<and> P (n_session_key n)) ns" for ns P
    using assms(2,3) by (induction ns) (auto simp: keeps_row_def)
  from this [of "\<lambda>k. k = ds_session st"] show ?thesis
    by (simp add: get_node_def update_row_def)
qed

lemma same_goal_rows:
  assumes "store_ok st" "get_node st i = Some m" "get_node st j = Some n"
    and "n_goal_id m = Some g" "n_goal_id n = Some g"
  shows "i = j"
proof -
  obtain m' n' where m': "m' \<in> set (ds_nodes st)" "n_id m' = i" "n_goal_id m' = Some g"
    and n': "n' \<in> set (ds_nodes st)" "n_id n' = j" "n_goal_id n' = Some g"
    using get_nodeD [OF assms(2)] get_nodeD [OF assms(3)] assms(4,5) by auto
  have unique: "distinct (goal_ids ns) \<Longrightarrow> m' \<in> set ns \<Longrightarrow> n' \<in> set ns \<Longrightarrow> m' = n'" for ns
    using m'(3) n'(3) by (induction ns) (auto simp: in_goal_ids split: option.splits)
  with assms(1) m' n' show ?thesis by (auto simp: store_ok_def)
qed

lemma get_node_grows:
  assumes "grows st st'" "store_ok st" "store_ok st'" "get_node st i = Some n"
  shows "\<exists>n'. get_node st' i = Some n' \<and> n_kind n' = n_kind n \<and> n_goal_id n' = n_goal_id n"
proof -
  obtain row where row: "row \<in> set (ds_nodes st)" "n = parse_node_row row" "n_id row = i"
    using get_nodeD [OF assms(4)] by blast
  obtain row' where row': "row' \<in> set (ds_nodes st')" "same_row row row'"
    using grows_node [OF assms(1) row(1)] by blast
  with row have "get_node st' i = Some (parse_node_row row')"
    using get_node_row [OF assms(3) row'(1)] by (simp add: same_row_def)
  with row row' show ?thesis by (simp add: same_row_def)
qed

lemma select_root_get_node:
  "store_ok st \<Longrightarrow> select_root_task (read_nodes st) = Some r \<Longrightarrow> get_node st (n_id r) = Some r"
  using select_root_taskD [of "read_nodes st" r] root_candidates_tasks [of r "read_nodes st"]
    by_id_distinct [OF distinct_read_nodes, of st r] by_id_read_nodes [of st "n_id r"] by auto

lemma read_nodes_find:
  assumes "store_ok st" "find P (read_nodes st) = Some n"
  shows "P n" "n \<in> set (read_nodes st)" "get_node st (n_id n) = Some n"
  using find_SomeD [OF assms(2)] by_id_distinct [OF distinct_read_nodes [OF assms(1)], of n]
  by (auto simp: by_id_read_nodes [OF assms(1)])

text \<open>
  C2: a committed task switch. When the session had the root task \<open>r\<close> and the patch added the task
  \<open>a\<close>, the graph afterwards has exactly one edge into \<open>a\<close>; it comes from \<open>r\<close>, which is closed,
  and its type is the one that belongs to the status \<open>r\<close> ends with: \<open>continues\<close> after done or
  failed, \<open>supersedes\<close> after frozen.
\<close>

theorem apply_patch_switch:
  assumes "store_ok st" and "apply_patch turn ops mode write_source env st = Inr s"
    and "select_root_task (read_nodes st) = Some r" and "as_tasks s = a # as"
  shows "\<exists>old e. as = [] \<and> get_node (as_store s) (n_id r) = Some old
     \<and> filter (\<lambda>e. e_target e = a) (read_edges (as_store s)) = [e] \<and> e_source e = n_id r
     \<and> task_transition_type_for_status (n_status old) = Inr (e_type e)"
  using assms(2,1)
proof (rule apply_patchE)
  fix st1 s1 st2
  assume ok: "store_ok (as_store s1)" "grows st (as_store s1)" "store_ok st2" "grows (as_store s1) st2"
    and trans: "assert_task_transition_integrity (map_option n_id (select_root_task (read_nodes st))) (as_tasks s1) (as_store s1) = Inr ()"
    and goal: "assert_goal_boundary turn (select_root_task (read_nodes st)) (as_tasks s1) (pe_goal_at env) (as_store s1) = Inr st2"
    and s: "s = s1\<lparr>as_store := mark_turn_done (pe_done_at env) (ti_id turn) mode st2\<rparr>"
  have tasks: "as_tasks s1 = a # as" using assms(4) s by simp
  from trans assms(3) tasks have "assert_task_transition_integrity (Some (n_id r)) (a # as) (as_store s1) = Inr ()" by simp
  from this ok(1) obtain old e where t: "as = []" "get_node (as_store s1) (n_id r) = Some old"
    "filter (\<lambda>e. e_target e = a) (read_edges (as_store s1)) = [e]" "e_source e = n_id r"
    "task_transition_type_for_status (n_status old) = Inr (e_type e)"
    by (rule assert_task_transition_integrityE)
  have "get_node st2 (n_id r) = get_node (as_store s1) (n_id r) \<and> read_edges st2 = read_edges (as_store s1)"
    using goal
  proof (cases rule: assert_goal_boundaryE)
    case no_goal
    then show ?thesis by simp
  next
    case (goal g task)
    have gn: "get_node st (n_id r) = Some r" by (rule select_root_get_node [OF assms(1,3)])
    have "n_goal_id old = n_goal_id r" using get_node_grows [OF ok(2) assms(1) ok(1) gn] t(2) by auto
    moreover have "n_goal_id r \<noteq> Some (gc_goal_id g)" using goal(3) assms(3) tasks by auto
    moreover have "n_goal_id task = Some (gc_goal_id g)" "get_node (as_store s1) (n_id task) = Some task"
      using read_nodes_find [OF ok(1) goal(2)] by simp_all
    ultimately have "n_id task \<noteq> n_id r" using t(2) by auto
    then show ?thesis
      using goal(6) get_node_update_row [OF ok(1) keeps_row_close] by (auto simp: read_edges_def split: if_splits)
  qed
  with t show ?thesis by (simp add: s)
qed

section \<open>Goals\<close>

lemma distinct_set_single: "distinct xs \<Longrightarrow> set xs = {x} \<Longrightarrow> xs = [x]"
proof (cases xs)
  case (Cons y ys)
  moreover assume "distinct xs" "set xs = {x}"
  ultimately have "y = x" "\<forall>z \<in> set ys. z = x" "x \<notin> set ys" by auto
  with Cons show ?thesis by (cases ys) auto
qed simp

lemma goal_task_unique:
  assumes "store_ok st" "find (\<lambda>n. n_goal_id n = Some g) (read_nodes st) = Some task"
  shows "filter (\<lambda>n. n_goal_id n = Some g) (read_nodes st) = [task]"
proof -
  have same: "n = task" if "n \<in> set (read_nodes st)" "n_goal_id n = Some g" for n
  proof -
    have n: "get_node st (n_id n) = Some n"
      unfolding by_id_read_nodes [OF assms(1), symmetric]
      by (rule by_id_distinct [OF distinct_read_nodes [OF assms(1)] that(1)])
    note t = read_nodes_find [OF assms]
    have "n_id n = n_id task" by (rule same_goal_rows [OF assms(1) n t(3) that(2) t(1)])
    from n [unfolded this] t(3) show ?thesis by (simp only: option.inject)
  qed
  let ?f = "filter (\<lambda>n. n_goal_id n = Some g) (read_nodes st)"
  have "set ?f = {task}" using read_nodes_find (1,2) [OF assms] by (auto dest: same)
  moreover have "distinct ?f"
    using distinct_read_nodes [OF assms(1)] by (simp add: distinct_map)
  ultimately show ?thesis by (rule distinct_set_single [rotated])
qed

lemma get_node_update_row_same:
  assumes "store_ok st" "keeps_row f" "get_node st i = Some n"
  shows "\<exists>row. n = parse_node_row row \<and> get_node (update_row i f st) i = Some (parse_node_row (f row))"
proof -
  obtain row where row: "row \<in> set (ds_nodes st)" "n = parse_node_row row" "n_id row = i"
    using get_nodeD [OF assms(3)] by blast
  then have "f row \<in> set (ds_nodes (update_row i f st))" by (force simp: update_row_def)
  moreover have "n_id (f row) = i" using assms(2) row(3) by (simp add: keeps_row_def)
  ultimately show ?thesis
    using get_node_row [OF update_row_ok [OF assms(1,2)]] row(2) by blast
qed

text \<open>
  a turn that belongs to a Goal leaves the session with exactly one node of that Goal, a task;
  it is done when the Goal is completed and open (neither done, failed nor frozen) otherwise.
\<close>

theorem apply_patch_goal_task:
  assumes "store_ok st" and "apply_patch turn ops mode write_source env st = Inr s"
    and "ti_goal turn = Some g"
  shows "\<exists>task. filter (\<lambda>n. n_goal_id n = Some (gc_goal_id g)) (read_nodes (as_store s)) = [task]
     \<and> n_kind task = KTask \<and> (if gc_status g = GCompleted then n_status task = SDone else is_open task)"
  using assms(2,1)
proof (rule apply_patchE)
  fix st1 s1 st2
  assume ok: "store_ok (as_store s1)" "store_ok st2"
    and goal: "assert_goal_boundary turn (select_root_task (read_nodes st)) (as_tasks s1) (pe_goal_at env) (as_store s1) = Inr st2"
    and s: "s = s1\<lparr>as_store := mark_turn_done (pe_done_at env) (ti_id turn) mode st2\<rparr>"
  from goal have "\<exists>task. get_node st2 (n_id task) = Some task \<and> n_goal_id task = Some (gc_goal_id g)
     \<and> (if gc_status g = GCompleted then n_status task = SDone else is_open task)"
  proof (cases rule: assert_goal_boundaryE)
    case no_goal
    with assms(3) show ?thesis by simp
  next
    case (goal g' task)
    note t = read_nodes_find [OF ok(1) goal(2)]
    have g: "g' = g" using goal(1) assms(3) by simp
    show ?thesis
    proof (cases "gc_status g = GCompleted")
      case True
      let ?f = "\<lambda>row. row\<lparr>n_status := SDone, n_updated_turn := Some (ti_id turn), n_updated_at := pe_goal_at env\<rparr>"
      obtain row where "task = parse_node_row row"
        "get_node (update_row (n_id task) ?f (as_store s1)) (n_id task) = Some (parse_node_row (?f row))"
        using get_node_update_row_same [OF ok(1) keeps_row_close t(3)] by blast
      with True goal(6) t(1) g show ?thesis by (intro exI [of _ "parse_node_row (?f row)"]) auto
    next
      case False
      with goal(6) t g show ?thesis
        by (intro exI [of _ task]) (cases "n_status task"; auto simp: is_open_def is_open_status_def)
    qed
  qed
  then obtain task where t: "get_node st2 (n_id task) = Some task" "n_goal_id task = Some (gc_goal_id g)"
    "if gc_status g = GCompleted then n_status task = SDone else is_open task" by blast
  then have mem: "task \<in> set (read_nodes st2)"
    using get_nodeD [OF t(1)] by (auto simp: set_read_nodes [OF ok(2)])
  then obtain task' where f: "find (\<lambda>n. n_goal_id n = Some (gc_goal_id g)) (read_nodes st2) = Some task'"
    using t(2) by (cases "find (\<lambda>n. n_goal_id n = Some (gc_goal_id g)) (read_nodes st2)") (auto simp: find_None_iff)
  note unique = goal_task_unique [OF ok(2) f]
  have "task \<in> set (filter (\<lambda>n. n_goal_id n = Some (gc_goal_id g)) (read_nodes st2))"
    using mem t(2) by simp
  then have "task' = task" unfolding unique by simp
  moreover have "n_kind task = KTask"
    using get_nodeD [OF t(1)] t(2) ok(2) by (auto simp: store_ok_def list_all_iff node_ok_def)
  ultimately show ?thesis using unique t(3) by (simp add: s)
qed

lemma get_node_idD: "Some x = map_option n_id (get_node st i) \<Longrightarrow> x = i"
  by (cases "get_node st i") (auto dest!: get_nodeD)

text \<open>
  the boundary of a Goal. After a committed patch every \<open>side_branch\<close> edge runs from a task that
  carries a Goal to a node that is not a task; and when a turn without a Goal replaces the open task
  \<open>r\<close> of a cleared Goal by the task \<open>a\<close>, then \<open>r\<close> is frozen and superseded by \<open>a\<close>.
\<close>

theorem apply_patch_goal_boundary:
  assumes "store_ok st" and "apply_patch turn ops mode write_source env st = Inr s"
  shows "list_all (\<lambda>e. e_type e = SideBranch \<longrightarrow>
       (\<exists>src trg. get_node (as_store s) (e_source e) = Some src \<and> get_node (as_store s) (e_target e) = Some trg
          \<and> n_kind src = KTask \<and> n_goal_id src \<noteq> None \<and> n_kind trg \<noteq> KTask)) (ds_edges (as_store s))
     \<and> (\<forall>r a as. ti_goal turn = None \<and> select_root_task (read_nodes st) = Some r \<and> is_open r
          \<and> truthy (n_goal_id r) \<and> as_tasks s = a # as \<longrightarrow>
          map_option n_status (get_node (as_store s) (n_id r)) = Some SFrozen
          \<and> list_ex (\<lambda>e. e_source e = n_id r \<and> e_target e = a \<and> e_type e = Supersedes) (ds_edges (as_store s)))"
  using assms(2,1)
proof (rule apply_patchE)
  fix st1 s1 st2
  assume ok: "store_ok (as_store s1)" "store_ok st2" "grows (as_store s1) st2"
    and goal: "assert_goal_boundary turn (select_root_task (read_nodes st)) (as_tasks s1) (pe_goal_at env) (as_store s1) = Inr st2"
    and s: "s = s1\<lparr>as_store := mark_turn_done (pe_done_at env) (ti_id turn) mode st2\<rparr>"
  have edges: "ds_edges st2 = ds_edges (as_store s1)"
    using goal by (cases rule: assert_goal_boundaryE) (auto split: if_splits)
  from goal obtain gt where *: "foldE (\<lambda>_ e. check_side_branch_edge (read_nodes (as_store s1)) (ti_id turn) gt e) ()
          (filter (\<lambda>e. e_type e = SideBranch) (read_edges (as_store s1))) = Inr ()"
    by (cases rule: assert_goal_boundaryE) auto
  have sb: "\<exists>src trg. get_node (as_store s1) (e_source e) = Some src \<and> get_node (as_store s1) (e_target e) = Some trg
          \<and> n_kind src = KTask \<and> n_goal_id src \<noteq> None \<and> n_kind trg \<noteq> KTask"
    if "e \<in> set (ds_edges (as_store s1))" "e_type e = SideBranch" for e
  proof -
    from that have "check_side_branch_edge (read_nodes (as_store s1)) (ti_id turn) gt e = Inr ()"
      using * by (simp add: foldE_unit_eq)
    then show ?thesis
      by (auto simp: check_side_branch_edge_def find_node_def find_read_nodes [OF ok(1)]
        error_simps truthy_def split: option.splits)
  qed
  have "\<exists>src trg. get_node st2 (e_source e) = Some src \<and> get_node st2 (e_target e) = Some trg
          \<and> n_kind src = KTask \<and> n_goal_id src \<noteq> None \<and> n_kind trg \<noteq> KTask"
    if e: "e \<in> set (ds_edges st2)" "e_type e = SideBranch" for e
  proof -
    from e edges sb obtain src trg where "get_node (as_store s1) (e_source e) = Some src"
      "get_node (as_store s1) (e_target e) = Some trg" "n_kind src = KTask" "n_goal_id src \<noteq> None" "n_kind trg \<noteq> KTask"
      by metis
    with get_node_grows [OF ok(3,1,2)] show ?thesis by metis
  qed
  moreover have "map_option n_status (get_node st2 (n_id r)) = Some SFrozen
          \<and> list_ex (\<lambda>e. e_source e = n_id r \<and> e_target e = a \<and> e_type e = Supersedes) (ds_edges st2)"
    if "ti_goal turn = None" "select_root_task (read_nodes st) = Some r" "is_open r"
      "truthy (n_goal_id r)" "as_tasks s1 = a # as" for r a as
    using goal
  proof (cases rule: assert_goal_boundaryE)
    case no_goal
    with that show ?thesis
      by (auto simp: check_cleared_goal_def find_node_def find_read_nodes [OF ok(1)] error_simps list_ex_iff
          dest: get_node_idD)
  next
    case (goal g task)
    with that show ?thesis by simp
  qed
  ultimately show ?thesis by (auto simp: s list_all_iff)
qed

end
