(* ===== verification/Dag_Reads.thy ===== *)
theory Dag_Reads
  imports Dag_Apply
begin

text \<open>
  What the store hands out: the turn that the queue processes next, the root task after a switch,
  and the part of the graph that the builder is shown.
\<close>

section \<open>Claiming a turn\<close>

interpretation turn_order: comparator cmp_turn_start
  unfolding cmp_turn_start_def by (rule comparator_key)

lemma release_running_simps [simp]:
  "t_id (release_running now t) = t_id t" "t_start (release_running now t) = t_start t"
  "t_status (release_running now t) \<noteq> TRunning"
  by (simp_all add: release_running_def)

text \<open>
  claiming. A claimed turn is running and no other turn is, whatever was running before; it was
  claimable, and no claimable turn starts at an earlier message. No turn is claimed only
  when none is claimable. Pending turns are claimable, turns to be retried from their retry time on,
  blocked turns always.
\<close>

theorem claim_next_turn_spec:
  assumes "distinct (map t_id (ds_turns st))"
  shows "(case claim_next_turn now st of
      (None, st') \<Rightarrow> list_all (\<lambda>t. \<not> claimable now (release_running now t)) (ds_turns st)
         \<and> list_all (\<lambda>t. t_status t \<noteq> TRunning) (ds_turns st')
    | (Some t, st') \<Rightarrow> filter (\<lambda>u. t_status u = TRunning) (ds_turns st') = [t] \<and> t_running_at t = Some now
         \<and> (\<exists>u \<in> set (ds_turns st). t_id u = t_id t \<and> claimable now (release_running now u)
              \<and> (\<forall>v \<in> set (ds_turns st). claimable now (release_running now v) \<longrightarrow> t_start u \<le> t_start v)))"
proof -
  let ?rel = "map (release_running now) (ds_turns st)"
  let ?cand = "filter (claimable now) ?rel"
  show ?thesis
  proof (cases "sort_cmp cmp_turn_start ?cand")
    case Nil
    then have "?cand = []" by (simp only: sort_cmp_eq_Nil)
    with Nil show ?thesis
      by (auto simp: claim_next_turn_def Let_def list_all_iff filter_empty_conv)
  next
    case (Cons row rest)
    then have row: "row \<in> set ?cand" by (metis list.set_intros(1) set_sort_cmp)
    have least: "t_start row \<le> t_start v" if "v \<in> set ?cand" for v
      using turn_order.hd_sort_cmp_least [OF that] Cons by (simp add: cmp_turn_start_def)
    let ?f = "\<lambda>t. t\<lparr>t_status := TRunning, t_running_at := Some now, t_updated_at := now\<rparr>"
    let ?upd = "map (\<lambda>t. if t_id t = t_id row then ?f t else t)"
    have ids: "map t_id ?rel = map t_id (ds_turns st)" by simp
    have one: "find (\<lambda>t. t_id t = t_id row) (?upd ts) = Some (?f row)
        \<and> filter (\<lambda>u. t_status u = TRunning) (?upd ts) = [?f row]"
      if "distinct (map t_id ts)" "row \<in> set ts" "\<forall>t \<in> set ts. t_status t \<noteq> TRunning" for ts
      using that
    proof (induction ts)
      case (Cons t ts)
      show ?case
      proof (cases "t = row")
        case True
        with Cons.prems(1) have "t_id row \<notin> t_id ` set ts" by simp
        then have "\<forall>u \<in> set ts. t_id u \<noteq> t_id row" by (metis image_eqI)
        then have "?upd ts = ts" by (simp add: map_idI)
        with True Cons.prems(3) show ?thesis by (simp add: filter_empty_conv)
      next
        case False
        with Cons.prems have "t_id t \<noteq> t_id row" by force
        with False Cons show ?thesis by auto
      qed
    qed simp
    have "claim_next_turn now st = (Some (?f row), st\<lparr>ds_turns := ?upd ?rel\<rparr>)"
      and "filter (\<lambda>u. t_status u = TRunning) (?upd ?rel) = [?f row]"
      using one [of ?rel] assms row ids Cons
      by (auto simp: claim_next_turn_def Let_def update_turn_def get_turn_def comp_def)
    moreover obtain u where "u \<in> set (ds_turns st)" "row = release_running now u" "claimable now row"
      using row by auto
    moreover have "t_start row \<le> t_start v" if "v \<in> set (ds_turns st)" "claimable now (release_running now v)" for v
      using least [of "release_running now v"] that by simp
    ultimately show ?thesis by (auto intro!: bexI [of _ u])
  qed
qed

section \<open>The root after a switch\<close>

lemma assert_task_transition_added:
  assumes "assert_task_transition_integrity pre (a # as) st = Inr ()" and "store_ok st"
  shows "as = [] \<and> (\<exists>added. get_node st a = Some added \<and> is_open_task added)"
  using assms(1) unfolding assert_task_transition_integrity_def Let_def by_id_read_nodes [OF assms(2)]
  by (auto simp: error_simps is_open_task_def split: option.splits)

lemma in_open_tasks: "store_ok st \<Longrightarrow> get_node st i = Some n \<Longrightarrow> is_open_task n \<Longrightarrow> n \<in> set (open_tasks st)"
  using get_nodeD by (fastforce simp: open_tasks_def set_read_nodes)

text \<open>
  the task that a committed patch adds becomes the root task of the session, unless the turn
  completes its Goal (then the new task is closed at once).
\<close>

theorem added_task_becomes_root:
  assumes "store_ok st" and "apply_patch turn ops mode write_source env st = Inr s"
    and "as_tasks s = a # as" and "goal_field gc_status turn \<noteq> Some GCompleted"
  shows "map_option n_id (select_root_task (read_nodes (as_store s))) = Some a"
  using assms(2,1)
proof (rule apply_patchE)
  fix st1 s1 st2
  assume ok: "store_ok (as_store s1)" "store_ok st2"
    and trans: "assert_task_transition_integrity (map_option n_id (select_root_task (read_nodes st))) (as_tasks s1) (as_store s1) = Inr ()"
    and goal: "assert_goal_boundary turn (select_root_task (read_nodes st)) (as_tasks s1) (pe_goal_at env) (as_store s1) = Inr st2"
    and s: "s = s1\<lparr>as_store := mark_turn_done (pe_done_at env) (ti_id turn) mode st2\<rparr>"
  have "st2 = as_store s1"
    using goal assms(4) by (cases rule: assert_goal_boundaryE) (auto simp: goal_field_def)
  moreover have "as_tasks s1 = a # as" using assms(3) s by simp
  ultimately obtain added where a: "get_node st2 a = Some added" "is_open_task added"
    using assert_task_transition_added [OF trans [unfolded \<open>as_tasks s1 = a # as\<close>] ok(1)] by auto
  have le: "length (open_tasks st2) \<le> 1"
    using apply_patch_open_tasks [OF assms(1,2)] by (simp add: s open_tasks_def)
  have mem: "added \<in> set (open_tasks st2)" by (rule in_open_tasks [OF ok(2) a])
  then have added: "added \<in> set (read_nodes st2)" "n_kind added = KTask" "is_open added"
    by (auto simp: open_tasks_def is_open_task_def)
  then obtain r where r: "select_root_task (read_nodes st2) = Some r"
    by (cases "select_root_task (read_nodes st2)") (auto simp: select_root_task_None)
  then have "r \<in> set (open_tasks st2)"
    using select_root_taskD [OF r] root_candidates_open [OF added]
    by (auto simp: open_tasks_def is_open_task_def)
  with le mem have "r = added" by (cases "open_tasks st2") auto
  moreover have "n_id added = a" using get_nodeD [OF a(1)] by auto
  ultimately show ?thesis using r by (simp add: s)
qed

section \<open>The builder's context\<close>

lemma task_subgraph_known:
  "i \<in> set (task_subgraph_node_ids r nodes edges) \<Longrightarrow> i = r \<or> i \<in> n_id ` set nodes"
proof -
  assume "i \<in> set (task_subgraph_node_ids r nodes edges)"
  then have "(r, i) \<in> (set (child_arcs nodes edges))\<^sup>*" by (simp add: task_subgraph_node_ids_def set_bfs)
  then show ?thesis
  proof (cases rule: rtranclE)
    case (step j)
    then obtain n where "by_id nodes i = Some n" by (auto simp: child_arcs_def split: option.splits)
    then show ?thesis using by_id_in by fastforce
  qed simp
qed

lemma select_ranked_superset: "set selected \<subseteq> set (select_ranked m selected ns)"
  by (induction m selected ns rule: select_ranked.induct) (auto split: if_splits)

lemma select_ranked_length: "int (length (select_ranked m selected ns)) \<le> max m (int (length selected))"
  by (induction m selected ns rule: select_ranked.induct) auto

lemma select_ranked_distinct: "distinct selected \<Longrightarrow> distinct (select_ranked m selected ns)"
  by (induction m selected ns rule: select_ranked.induct) auto

lemma to_context_simps [simp]:
  "c_id (to_context_node n) = n_id n" "c_kind (to_context_node n) = n_kind n"
  "c_status (to_context_node n) = n_status n" "c_goal_id (to_context_node n) = n_goal_id n"
  "ce_source (to_context_edge e) = e_source e" "ce_target (to_context_edge e) = e_target e"
  by (simp_all add: to_context_node_def to_context_edge_def)

text \<open>
  the builder's view of a session. It contains the whole active path, and every active, blocked
  or failed node of the root's subgraph; an edge is shown only with both its ends; and when more
  nodes than \<open>max_nodes\<close> are shown, all of them are of these two kinds.
\<close>

theorem read_builder_context_spec:
  assumes "store_ok st" and "select_root_task (read_nodes st) = Some r" and "n_id r \<noteq> []"
  shows "(let ctx = read_builder_context m st;
              ids = map c_id (dc_nodes ctx);
              inner = task_subgraph_node_ids (n_id r) (read_nodes st) (read_edges st);
              must = mandatory_ids (read_nodes st) (derive_active_path (read_nodes st) (read_edges st)) inner
          in dc_root ctx = Some (n_id r) \<and> set (dc_path ctx) \<subseteq> set ids
             \<and> list_all (\<lambda>n. n_id n \<in> set inner \<and> n_status n \<in> {SActive, SBlocked, SFailed} \<longrightarrow> n_id n \<in> set ids)
                 (read_nodes st)
             \<and> list_all (\<lambda>e. ce_source e \<in> set ids \<and> ce_target e \<in> set ids) (dc_edges ctx)
             \<and> int (length (dc_nodes ctx)) \<le> max m (int (length must)))"
proof -
  let ?nodes = "read_nodes st" and ?edges = "read_edges st"
  let ?path = "derive_active_path_selection ?nodes ?edges"
  let ?inner = "task_subgraph_node_ids (n_id r) ?nodes ?edges"
  let ?must = "mandatory_ids ?nodes (p_nodes ?path) ?inner"
  let ?ranked = "sort_cmp cmp_ranked (filter (\<lambda>n. n_id n \<in> set ?inner) ?nodes)"
  let ?sel = "select_ranked m ?must ?ranked"
  have walk: "walk ?edges (p_nodes ?path) (p_edges ?path)" "hd (p_nodes ?path) = n_id r"
    "set (tl (p_nodes ?path)) \<subseteq> set ?inner"
    using derive_active_walk [OF assms(2), of ?edges] by (auto simp: path_subgraph_def)
  then obtain rest where path: "p_nodes ?path = n_id r # rest"
    using walk_nonempty by (metis list.collapse)
  have root: "n_id r \<in> n_id ` set ?nodes"
    using select_root_taskD [OF assms(2)] root_candidates_tasks by blast
  then have ne: "?nodes \<noteq> []" by auto
  have ctx: "read_builder_context m st = \<lparr>dc_root = Some (n_id r),
            dc_nodes = map to_context_node (filter (\<lambda>n. n_id n \<in> set ?sel) ?nodes),
            dc_edges = map to_context_edge
              (filter (\<lambda>e. e_source e \<in> set ?sel \<and> e_target e \<in> set ?sel) ?edges),
            dc_path = p_nodes ?path,
            dc_path_edges = map (\<lambda>e. (e_id e, to_context_edge e))
              (List.map_filter (\<lambda>i. map_of (rev (map (\<lambda>e. (e_id e, e)) ?edges)) i) (p_edges ?path))\<rparr>"
    using ne assms(3) path by (simp add: read_builder_context_def Let_def)
  have known: "n_id ` set ?nodes = n_id ` set (ds_nodes st)" using assms(1) by (simp add: set_read_nodes image_image)
  have must_sel: "set ?must \<subseteq> set ?sel" by (rule select_ranked_superset)
  have sel_in: "i \<in> set (map c_id (dc_nodes (read_builder_context m st)))"
    if "i \<in> set ?sel" "i \<in> n_id ` set ?nodes" for i
    using that by (auto simp: ctx)
  have path_known: "i \<in> n_id ` set ?nodes" if "i \<in> set (p_nodes ?path)" for i
  proof (cases "i = n_id r")
    case False
    with that path walk(3) have "i \<in> set ?inner" by auto
    with False task_subgraph_known show ?thesis by blast
  qed (use root in simp)
  have len: "length (filter (\<lambda>n. n_id n \<in> set ?sel) ?nodes) \<le> length ?sel"
  proof -
    have "distinct (map n_id (filter (\<lambda>n. n_id n \<in> set ?sel) ?nodes))"
      using distinct_read_nodes [OF assms(1)] by (rule distinct_map_filter)
    then have "length (filter (\<lambda>n. n_id n \<in> set ?sel) ?nodes)
        = card (set (map n_id (filter (\<lambda>n. n_id n \<in> set ?sel) ?nodes)))"
      by (simp only: distinct_card length_map)
    also have "\<dots> \<le> card (set ?sel)" by (rule card_mono) auto
    finally show ?thesis using card_length [of ?sel] by linarith
  qed
  have "set (p_nodes ?path) \<subseteq> set (map c_id (dc_nodes (read_builder_context m st)))"
    using must_sel path_known sel_in by (auto simp: mandatory_ids_def)
  moreover have "n_id n \<in> set (map c_id (dc_nodes (read_builder_context m st)))"
    if "n \<in> set ?nodes" "n_id n \<in> set ?inner" "n_status n \<in> {SActive, SBlocked, SFailed}" for n
    using that must_sel by (intro sel_in) (auto simp: mandatory_ids_def)
  moreover have "ce_source e \<in> set (map c_id (dc_nodes (read_builder_context m st)))
      \<and> ce_target e \<in> set (map c_id (dc_nodes (read_builder_context m st)))"
    if "e \<in> set (dc_edges (read_builder_context m st))" for e
  proof -
    from that obtain d where d: "d \<in> set (ds_edges st)" "e = to_context_edge d" "e_source d \<in> set ?sel" "e_target d \<in> set ?sel"
      by (auto simp: ctx)
    have "e_source d \<in> n_id ` set ?nodes" "e_target d \<in> n_id ` set ?nodes"
      using assms(1) d(1) unfolding known by (auto simp: store_ok_def list_all_iff)
    with d sel_in show ?thesis by simp
  qed
  moreover have "int (length (dc_nodes (read_builder_context m st))) \<le> max m (int (length ?must))"
    using len select_ranked_length [of m ?must ?ranked] by (simp add: ctx)
  moreover have "dc_root (read_builder_context m st) = Some (n_id r)" "dc_path (read_builder_context m st) = p_nodes ?path"
    by (simp_all add: ctx)
  ultimately show ?thesis
    by (simp add: Let_def list_all_iff derive_active_path_def)
qed

end
