(* ===== verification/Dag_Repair.thy ===== *)
theory Dag_Repair
  imports Dag_Apply
begin

text \<open>
  \<open>repairTaskTransitionsOnce\<close> of \<open>session-dag/store.ts\<close>: when a store is opened for the first
  time by this version, every task but the last is closed and connected to its successor, unless
  the stored edges are ambiguous, conflict with the status, or would close a cycle.
\<close>

section \<open>Definitions\<close>

definition cmp_task :: "dag_node \<Rightarrow> dag_node \<Rightarrow> int" where
  "cmp_task l r = then_cmp (n_first_msg l - n_first_msg r)
     (then_cmp (n_created_at l - n_created_at r) (cmp_str (n_id l) (n_id r)))"

definition repaired_status ::
  "dag_node list \<Rightarrow> dag_edge list \<Rightarrow> dag_node \<Rightarrow> dag_edge option \<Rightarrow> node_status" where
  "repaired_status nodes edges old existing =
     (if is_open old then
        (case existing of
           Some e \<Rightarrow> (if e_type e = Continues then SDone else SFrozen)
         | None \<Rightarrow>
            (let ids = task_subgraph_node_ids (n_id old) nodes edges;
                 descendants = filter (\<lambda>n. n_kind n \<noteq> KTask \<and> n_id n \<in> set ids) nodes;
                 has_done = list_ex (\<lambda>n. n_status n = SDone) descendants;
                 has_open = list_ex (\<lambda>n. n_status n = SActive \<or> n_status n = SBlocked) descendants
             in if n_status old = SActive \<and> has_done \<and> \<not> has_open then SDone else SFrozen))
      else n_status old)"

record repair_state =
  rs_store :: dag_store
  rs_edges :: "dag_edge list"
  rs_next :: nat

text \<open>One pass of the loop. The random ids are \<open>ids 0, ids 1, ...\<close>; a \<open>continue\<close> skips the pair.\<close>

definition repair_pair ::
  "(nat \<Rightarrow> nat \<times> nat list) \<Rightarrow> dag_node list \<Rightarrow> repair_state \<Rightarrow> dag_node \<times> dag_node \<Rightarrow> store_error + repair_state" where
  "repair_pair ids nodes s pair =
     (case pair of (old, next_task) \<Rightarrow>
        let direct = filter (\<lambda>e. e_source e = n_id old \<and> e_target e = n_id next_task) (rs_edges s) in
        if length direct > 1 \<or> list_ex (\<lambda>e. e_type e \<noteq> Continues \<and> e_type e \<noteq> Supersedes) direct then Inr s
        else
         (let existing = (case direct of [] \<Rightarrow> None | e # _ \<Rightarrow> Some e);
              status = repaired_status nodes (rs_edges s) old existing in
          bindE (task_transition_type_for_status status) (\<lambda>expected.
          if (case existing of None \<Rightarrow> False | Some e \<Rightarrow> e_type e \<noteq> expected) then Inr s
          else if existing = None \<and> would_create_cycle (rs_store s) (n_id old) (n_id next_task) then Inr s
          else
           (let st1 = (if status \<noteq> n_status old then
                  update_row (n_id old) (\<lambda>row. row\<lparr>n_status := status, n_updated_turn := n_created_turn next_task,
                    n_updated_by := ByRepair, n_updated_at := n_created_at next_task\<rparr>) (rs_store s)
                else rs_store s)
            in if existing \<noteq> None then Inr (s\<lparr>rs_store := st1\<rparr>)
               else
                (let edge = \<lparr>e_id = ''e_'' @ new_sortable_id (ids (rs_next s)), e_source = n_id old,
                       e_target = n_id next_task, e_type = expected, e_created_turn = n_created_turn next_task,
                       e_created_by = ByRepair, e_created_at = n_created_at next_task\<rparr>
                 in bindE (throw_if (e_id edge \<in> e_id ` set (ds_edges st1)) UniqueViolation) (\<lambda>_.
                    Inr (s\<lparr>rs_store := st1\<lparr>ds_edges := ds_edges st1 @ [edge]\<rparr>,
                           rs_edges := rs_edges s @ [edge], rs_next := rs_next s + 1\<rparr>)))))))"

definition sorted_tasks :: "dag_node list \<Rightarrow> dag_node list" where
  "sorted_tasks nodes = sort_cmp cmp_task (filter (\<lambda>n. n_kind n = KTask) nodes)"

definition repair_task_transitions_once ::
  "(nat \<Rightarrow> nat \<times> nat list) \<Rightarrow> dag_store \<Rightarrow> store_error + dag_store" where
  "repair_task_transitions_once ids st =
     (if get_meta st ''task_transition_repair_v1'' = Some ''done'' then Inr st
      else
       (let nodes = read_nodes st; tasks = sorted_tasks nodes in
        bindE (foldE (repair_pair ids nodes) \<lparr>rs_store = st, rs_edges = read_edges st, rs_next = 0\<rparr>
            (zip tasks (tl tasks))) (\<lambda>s.
        Inr (set_meta ''task_transition_repair_v1'' ''done'' (rs_store s)))))"

section \<open>The repair keeps the store consistent\<close>

lemma repaired_status_terminal:
  "\<exists>ty. task_transition_type_for_status (repaired_status nodes edges old existing) = Inr ty"
  by (cases "n_status old")
    (auto simp: repaired_status_def task_transition_type_for_status_def is_open_def is_open_status_def Let_def
      split: option.splits)

lemma keeps_row_repair:
  "keeps_row (\<lambda>row. row\<lparr>n_status := x, n_updated_turn := t, n_updated_by := b, n_updated_at := a\<rparr>)"
  by (simp add: keeps_row_def)

text \<open>The outcomes of one pass: nothing, a new status of the old task, and then a new edge.\<close>

lemma repair_pair_cases:
  assumes "repair_pair ids nodes s (old, next_task) = Inr s'"
  shows "s' = s \<or> (\<exists>f b. keeps_row f \<and>
     (let st1 = (if b then update_row (n_id old) f (rs_store s) else rs_store s) in
       rs_store s' = st1 \<and> rs_edges s' = rs_edges s
       \<or> (\<exists>e. rs_store s' = st1\<lparr>ds_edges := ds_edges st1 @ [e]\<rparr> \<and> rs_edges s' = rs_edges s @ [e]
           \<and> e_source e = n_id old \<and> e_target e = n_id next_task \<and> e_id e \<notin> e_id ` set (ds_edges st1)
           \<and> filter (\<lambda>e. e_source e = n_id old \<and> e_target e = n_id next_task) (rs_edges s) = []
           \<and> \<not> would_create_cycle (rs_store s) (n_id old) (n_id next_task))))"
proof -
  let ?direct = "filter (\<lambda>e. e_source e = n_id old \<and> e_target e = n_id next_task) (rs_edges s)"
  let ?existing = "case ?direct of [] \<Rightarrow> None | e # _ \<Rightarrow> Some e"
  let ?status = "repaired_status nodes (rs_edges s) old ?existing"
  let ?f = "\<lambda>row. row\<lparr>n_status := ?status, n_updated_turn := n_created_turn next_task,
                    n_updated_by := ByRepair, n_updated_at := n_created_at next_task\<rparr>"
  let ?b = "?status \<noteq> n_status old"
  let ?st1 = "if ?b then update_row (n_id old) ?f (rs_store s) else rs_store s"
  obtain ty where ty: "task_transition_type_for_status ?status = Inr ty"
    using repaired_status_terminal by blast
  show ?thesis
  proof (cases "s' = s")
    case False
    define direct where "direct = ?direct"
    define st1 where "st1 = ?st1"
    define ex where "ex = (case direct of [] \<Rightarrow> None | e # _ \<Rightarrow> Some e)"
    have run: "(if length direct > 1 \<or> list_ex (\<lambda>e. e_type e \<noteq> Continues \<and> e_type e \<noteq> Supersedes) direct then Inr s
        else if (case ex of None \<Rightarrow> False | Some e \<Rightarrow> e_type e \<noteq> ty) then Inr s
        else if ex = None \<and> would_create_cycle (rs_store s) (n_id old) (n_id next_task) then Inr s
        else if ex \<noteq> None then Inr (s\<lparr>rs_store := st1\<rparr>)
        else (let edge = \<lparr>e_id = ''e_'' @ new_sortable_id (ids (rs_next s)), e_source = n_id old,
                       e_target = n_id next_task, e_type = ty, e_created_turn = n_created_turn next_task,
                       e_created_by = ByRepair, e_created_at = n_created_at next_task\<rparr>
                 in bindE (throw_if (e_id edge \<in> e_id ` set (ds_edges st1)) UniqueViolation) (\<lambda>_.
                    Inr (s\<lparr>rs_store := st1\<lparr>ds_edges := ds_edges st1 @ [edge]\<rparr>,
                           rs_edges := rs_edges s @ [edge], rs_next := rs_next s + 1\<rparr>)))) = Inr s'"
      using assms unfolding repair_pair_def Let_def prod.case ty bindE_simps ex_def direct_def st1_def .
    have "ex \<noteq> None \<and> rs_store s' = st1 \<and> rs_edges s' = rs_edges s
      \<or> (\<exists>e. ex = None \<and> rs_store s' = st1\<lparr>ds_edges := ds_edges st1 @ [e]\<rparr> \<and> rs_edges s' = rs_edges s @ [e]
           \<and> e_source e = n_id old \<and> e_target e = n_id next_task \<and> e_id e \<notin> e_id ` set (ds_edges st1)
           \<and> \<not> would_create_cycle (rs_store s) (n_id old) (n_id next_task))"
    proof (cases ex)
      case None
      let ?edge = "\<lparr>e_id = ''e_'' @ new_sortable_id (ids (rs_next s)), e_source = n_id old,
                       e_target = n_id next_task, e_type = ty, e_created_turn = n_created_turn next_task,
                       e_created_by = ByRepair, e_created_at = n_created_at next_task\<rparr>"
      from run None False have "e_id ?edge \<notin> e_id ` set (ds_edges st1)"
        "s' = s\<lparr>rs_store := st1\<lparr>ds_edges := ds_edges st1 @ [?edge]\<rparr>,
           rs_edges := rs_edges s @ [?edge], rs_next := rs_next s + 1\<rparr>"
        "\<not> would_create_cycle (rs_store s) (n_id old) (n_id next_task)"
        by (auto simp: Let_def error_simps split: if_splits)
      with None show ?thesis
        by (intro disjI2 exI [of _ ?edge]) simp
    next
      case (Some e)
      from run Some False have "s' = s\<lparr>rs_store := st1\<rparr>"
        by (auto split: if_splits)
      with Some show ?thesis by simp
    qed
    moreover have "ex = None \<Longrightarrow> ?direct = []" unfolding ex_def direct_def by (cases ?direct) auto
    ultimately have out: "rs_store s' = st1 \<and> rs_edges s' = rs_edges s
      \<or> (\<exists>e. rs_store s' = st1\<lparr>ds_edges := ds_edges st1 @ [e]\<rparr> \<and> rs_edges s' = rs_edges s @ [e]
           \<and> e_source e = n_id old \<and> e_target e = n_id next_task \<and> e_id e \<notin> e_id ` set (ds_edges st1)
           \<and> ?direct = [] \<and> \<not> would_create_cycle (rs_store s) (n_id old) (n_id next_task))"
      by blast
    obtain f b where fb: "keeps_row f" "(if b then update_row (n_id old) f (rs_store s) else rs_store s) = st1"
      using keeps_row_repair st1_def by blast
    show ?thesis
      by (rule disjI2, rule exI [of _ f], rule exI [of _ b]) (simp only: fb Let_def simp_thms, rule out)
  qed simp
qed

definition repair_inv :: "dag_store \<Rightarrow> repair_state \<Rightarrow> bool" where
  "repair_inv st s \<longleftrightarrow> store_ok (rs_store s) \<and> grows st (rs_store s)
     \<and> set (rs_edges s) = set (ds_edges (rs_store s))"

lemma repair_pair_inv:
  assumes "repair_pair ids nodes s (old, next_task) = Inr s'" and "repair_inv st s"
    and "{n_id old, n_id next_task} \<subseteq> n_id ` set (ds_nodes st)" and "n_id old \<noteq> n_id next_task"
  shows "repair_inv st s'"
  using repair_pair_cases [OF assms(1)]
proof (elim disjE exE conjE)
  assume "s' = s"
  with assms(2) show ?thesis by simp
next
  fix f b
  assume f: "keeps_row f"
  define st1 where "st1 = (if b then update_row (n_id old) f (rs_store s) else rs_store s)"
  assume "let st1 = if b then update_row (n_id old) f (rs_store s) else rs_store s in
       rs_store s' = st1 \<and> rs_edges s' = rs_edges s
       \<or> (\<exists>e. rs_store s' = st1\<lparr>ds_edges := ds_edges st1 @ [e]\<rparr> \<and> rs_edges s' = rs_edges s @ [e]
           \<and> e_source e = n_id old \<and> e_target e = n_id next_task \<and> e_id e \<notin> e_id ` set (ds_edges st1)
           \<and> filter (\<lambda>e. e_source e = n_id old \<and> e_target e = n_id next_task) (rs_edges s) = []
           \<and> \<not> would_create_cycle (rs_store s) (n_id old) (n_id next_task))"
  then have out: "rs_store s' = st1 \<and> rs_edges s' = rs_edges s
       \<or> (\<exists>e. rs_store s' = st1\<lparr>ds_edges := ds_edges st1 @ [e]\<rparr> \<and> rs_edges s' = rs_edges s @ [e]
           \<and> e_source e = n_id old \<and> e_target e = n_id next_task \<and> e_id e \<notin> e_id ` set (ds_edges st1)
           \<and> filter (\<lambda>e. e_source e = n_id old \<and> e_target e = n_id next_task) (rs_edges s) = []
           \<and> \<not> would_create_cycle (rs_store s) (n_id old) (n_id next_task))"
    unfolding Let_def st1_def [symmetric] .
  have ok1: "store_ok st1" "grows st st1" "ds_edges st1 = ds_edges (rs_store s)"
    using assms(2) f update_row_ok grows_update_row grows_trans by (auto simp: repair_inv_def st1_def)
  from out consider "rs_store s' = st1" "rs_edges s' = rs_edges s"
    | e where "rs_store s' = st1\<lparr>ds_edges := ds_edges st1 @ [e]\<rparr>" "rs_edges s' = rs_edges s @ [e]"
        "e_source e = n_id old" "e_target e = n_id next_task" "e_id e \<notin> e_id ` set (ds_edges st1)"
        "filter (\<lambda>e. e_source e = n_id old \<and> e_target e = n_id next_task) (rs_edges s) = []"
        "\<not> would_create_cycle (rs_store s) (n_id old) (n_id next_task)"
    by blast
  then show ?thesis
  proof cases
    case 1
    with ok1 assms(2) show ?thesis by (simp add: repair_inv_def)
  next
    case (2 e)
    have "{n_id old, n_id next_task} \<subseteq> n_id ` set (ds_nodes st1)"
    proof -
      have "i \<in> n_id ` set (ds_nodes st1)" if "i \<in> n_id ` set (ds_nodes st)" for i
      proof -
        from that obtain n where n: "n \<in> set (ds_nodes st)" "n_id n = i" by blast
        obtain n' where "n' \<in> set (ds_nodes st1)" "same_row n n'" using grows_node [OF ok1(2) n(1)] by blast
        with n(2) show ?thesis by (intro image_eqI [of _ _ n']) (simp_all add: same_row_def)
      qed
      with assms(3) show ?thesis by blast
    qed
    moreover have "edge_key e \<notin> edge_key ` set (ds_edges (rs_store s))"
      using 2(3,4,6) assms(2) by (auto simp: edge_key_def filter_empty_conv repair_inv_def)
    moreover have "no_cycle (arcs (ds_edges (rs_store s) @ [e]))"
    proof -
      have "arcs_of (ds_edges (rs_store s) @ [e]) = insert (n_id old, n_id next_task) (arcs_of (ds_edges (rs_store s)))"
        using 2(3,4) by (simp add: arcs_of_def)
      moreover have "acyclic (arcs_of (ds_edges (rs_store s)))"
        using assms(2) by (simp add: repair_inv_def store_ok_def acyclic_arcs)
      ultimately show ?thesis
        using acyclic_insert_arc [of "arcs_of (ds_edges (rs_store s))" "n_id old" "n_id next_task"] assms(4) 2(7)
        by (simp add: would_create_cycle_def set_reach_plus acyclic_arcs)
    qed
    ultimately have "store_ok (rs_store s')"
      using ok1 2 by (auto simp: store_ok_def)
    moreover have "grows st1 (rs_store s')"
      using 2(1) by (intro growsI [where ns = "ds_nodes st1" and ns' = "[]" and es = "[e]"]) (auto simp: list_all2_refl)
    ultimately show ?thesis
      using ok1 2(1,2) assms(2) grows_trans by (auto simp: repair_inv_def)
  qed
qed

lemma in_zip_tl: "distinct xs \<Longrightarrow> (a, b) \<in> set (zip xs (tl xs)) \<Longrightarrow> a \<in> set xs \<and> b \<in> set xs \<and> a \<noteq> b"
proof (induction xs)
  case (Cons x xs)
  then show ?case by (cases xs) auto
qed simp

text \<open>
  opening a store repairs it without damage. Whatever the old task statuses and edges, a repair
  that commits leaves a consistent store in which every node keeps its identity and every
  edge is kept; and opening the store again changes nothing.
\<close>

theorem repair_store_ok:
  assumes "store_ok st" and "repair_task_transitions_once ids st = Inr st'"
  shows "store_ok st' \<and> grows st st' \<and> repair_task_transitions_once ids' st' = Inr st'"
proof (cases "get_meta st ''task_transition_repair_v1'' = Some ''done''")
  case True
  with assms show ?thesis by (simp add: repair_task_transitions_once_def)
next
  case False
  let ?tasks = "sorted_tasks (read_nodes st)"
  from assms(2) False obtain s where
    run: "foldE (repair_pair ids (read_nodes st)) \<lparr>rs_store = st, rs_edges = read_edges st, rs_next = 0\<rparr>
       (zip ?tasks (tl ?tasks)) = Inr s"
    and st': "st' = set_meta ''task_transition_repair_v1'' ''done'' (rs_store s)"
    by (auto simp: repair_task_transitions_once_def Let_def error_simps)
  have tasks: "set ?tasks \<subseteq> set (read_nodes st)" by (auto simp: sorted_tasks_def)
  have "distinct (read_nodes st)" and nodes_inj: "inj_on n_id (set (read_nodes st))"
    using distinct_read_nodes [OF assms(1)] by (simp_all add: distinct_map)
  then have dist: "distinct ?tasks" by (simp add: sorted_tasks_def)
  have inj: "inj_on n_id (set ?tasks)" using nodes_inj tasks by (rule inj_on_subset)
  have "n_id ` set (read_nodes st) = n_id ` set (ds_nodes st)"
    by (simp add: set_read_nodes [OF assms(1)] image_image)
  with tasks have sub: "n_id ` set ?tasks \<subseteq> n_id ` set (ds_nodes st)" by blast
  have "repair_inv st s"
  proof (rule foldE_invariant [OF run])
    show "repair_inv st \<lparr>rs_store = st, rs_edges = read_edges st, rs_next = 0\<rparr>"
      using assms(1) by (simp add: repair_inv_def)
  next
    fix s x s'
    assume x: "x \<in> set (zip ?tasks (tl ?tasks))" "repair_inv st s" "repair_pair ids (read_nodes st) s x = Inr s'"
    obtain a b where ab: "x = (a, b)" by fastforce
    have mem: "a \<in> set ?tasks" "b \<in> set ?tasks" "a \<noteq> b"
      using in_zip_tl [OF dist x(1) [unfolded ab]] by blast+
    then have "n_id a \<noteq> n_id b" using inj_onD [OF inj] by blast
    moreover have "{n_id a, n_id b} \<subseteq> n_id ` set (ds_nodes st)" using mem sub by blast
    ultimately show "repair_inv st s'" using repair_pair_inv [OF x(3) [unfolded ab] x(2)] by blast
  qed
  moreover have "grows (rs_store s) st'" by (rule grows_same) (simp_all add: st' set_meta_def)
  ultimately have "store_ok (rs_store s)" "grows st st'"
    using grows_trans unfolding repair_inv_def by blast+
  moreover have "store_ok st'" using \<open>store_ok (rs_store s)\<close> by (simp add: st' store_ok_def set_meta_def)
  moreover have "repair_task_transitions_once ids' st' = Inr st'"
    by (simp add: st' repair_task_transitions_once_def get_meta_def set_meta_def)
  ultimately show ?thesis by blast
qed

end
