(* ===== verification/Dag_Example.thy ===== *)
theory Dag_Example
  imports Dag_Reads Dag_Repair
begin

text \<open>
  A small session: one open task with a subtask, and a turn that switches to a new task. The
  theorems of the DAG theories are applied to it, so that their hypotheses are seen to hold
  together.
\<close>

section \<open>A session and a task switch\<close>

definition ex_node :: "string \<Rightarrow> node_kind \<Rightarrow> node_status \<Rightarrow> string option \<Rightarrow> int \<Rightarrow> dag_node" where
  "ex_node i k s g t = \<lparr>n_id = i, n_session_key = ''s'', n_kind = k, n_status = s, n_title = ''title'',
     n_summary = ''summary'', n_detail = [], n_importance = 80, n_created_turn = Some ''t1'',
     n_updated_turn = Some ''t1'', n_first_msg = 0, n_last_msg = 2, n_refs = [], n_created_by = ByLlmPatch,
     n_updated_by = ByLlmPatch, n_created_at = 1, n_updated_at = t, n_goal_id = g\<rparr>"

definition ex_edge :: "string \<Rightarrow> string \<Rightarrow> string \<Rightarrow> edge_type \<Rightarrow> dag_edge" where
  "ex_edge i s t ty = \<lparr>e_id = i, e_source = s, e_target = t, e_type = ty, e_created_turn = Some ''t1'',
     e_created_by = ByLlmPatch, e_created_at = 1\<rparr>"

definition ex_store :: dag_store where
  "ex_store = \<lparr>ds_session = ''s'', ds_meta = Map.empty, ds_turns = [],
     ds_nodes = [ex_node ''a'' KTask SActive (Some ''g0'') 1, ex_node ''b'' KSubtask SActive None 1],
     ds_edges = [ex_edge ''e1'' ''a'' ''b'' Decomposes], ds_snaps = []\<rparr>"

definition ex_turn :: "goal_ctx option \<Rightarrow> turn_input" where
  "ex_turn g = \<lparr>ti_id = ''t2'', ti_start = 2, ti_end = 4, ti_user_text = Some ''hi'', ti_assistant_text = None, ti_goal = g\<rparr>"

definition ex_goal :: goal_ctx where
  "ex_goal = \<lparr>gc_goal_id = ''g1'', gc_objective = ''o'', gc_status = GActive\<rparr>"

definition ex_close :: update_node_op where
  "ex_close = \<lparr>u_node_id = ''a'', u_title = None, u_summary = None, u_status = Some SFrozen, u_importance = None,
     u_detail = None, u_refs = None\<rparr>"

definition ex_task :: add_node_op where
  "ex_task = \<lparr>a_temp_id = ''n0'', a_kind = KTask, a_status = SActive, a_title = ''next'', a_summary = ''s'',
     a_importance = 80, a_detail = None, a_refs = None\<rparr>"

definition ex_link :: add_edge_op where
  "ex_link = \<lparr>ae_source = ''a'', ae_target = ''n0'', ae_type = Supersedes\<rparr>"

definition ex_switch :: "patch_op list" where
  "ex_switch = [UpdateNode ex_close, AddNode ex_task, AddEdge ex_link]"

definition ex_env :: patch_env where
  "ex_env = \<lparr>pe_upsert_at = 5, pe_now = 6, pe_goal_at = 7, pe_done_at = 8, pe_ids = (\<lambda>k. (k, [k]))\<rparr>"

definition ex_turn_row :: "goal_ctx option \<Rightarrow> dag_turn" where
  "ex_turn_row g = new_turn 5 (ex_turn g)"

definition ex_switched :: "goal_ctx option \<Rightarrow> dag_store" where
  "ex_switched g = ex_store\<lparr>ds_turns := [ex_turn_row g],
     ds_nodes := [(ex_node ''a'' KTask SFrozen (Some ''g0'') 6)\<lparr>n_updated_turn := Some ''t2'', n_last_msg := 4\<rparr>,
       ex_node ''b'' KSubtask SActive None 1,
       \<lparr>n_id = ''n_00000000000'', n_session_key = ''s'', n_kind = KTask, n_status = SActive, n_title = ''next'',
         n_summary = ''s'', n_detail = [], n_importance = 80, n_created_turn = Some ''t2'', n_updated_turn = Some ''t2'',
         n_first_msg = 2, n_last_msg = 4, n_refs = [], n_created_by = ByLlmPatch, n_updated_by = ByLlmPatch,
         n_created_at = 6, n_updated_at = 6, n_goal_id = map_option gc_goal_id g\<rparr>],
     ds_edges := [ex_edge ''e1'' ''a'' ''b'' Decomposes,
       \<lparr>e_id = ''e_00000000011'', e_source = ''a'', e_target = ''n_00000000000'', e_type = Supersedes,
         e_created_turn = Some ''t2'', e_created_by = ByLlmPatch, e_created_at = 6\<rparr>]\<rparr>"

definition ex_state :: "goal_ctx option \<Rightarrow> apply_state" where
  "ex_state g = \<lparr>as_store = ex_switched g, as_temp = Map.empty(''n0'' \<mapsto> ''n_00000000000''), as_edges = [''e_00000000011''],
     as_children = [], as_tasks = [''n_00000000000''], as_next = 2\<rparr>"

definition ex_applied :: "goal_ctx option \<Rightarrow> apply_state" where
  "ex_applied g = (ex_state g)\<lparr>as_store := mark_turn_done 8 ''t2'' LlmPatch (ex_switched g)\<rparr>"

lemma ex_ids: "new_sortable_id (0, [0]) = ''00000000000''" "new_sortable_id (Suc 0, [Suc 0]) = ''00000000011''"
  by code_simp+

lemma no_refs: "sanitize_source_refs (source_refs_json None) t = []" "sanitize_source_refs (source_refs_json (Some [])) t = []"
  by (simp_all add: sanitize_source_refs_def source_refs_json_def dedupe_source_refs_def List.map_filter_simps)

lemma no_detail: "sanitize_detail_json k None = []" "sanitize_detail_json k (Some (JObj [])) = []"
  by (simp_all add: sanitize_detail_json_def)

lemma plain_row: "n_refs n = [] \<Longrightarrow> n_detail n = [] \<Longrightarrow> parse_node_row n = n"
  by (simp add: parse_node_row_def no_refs no_detail)

lemmas ex_defs = ex_node_def ex_edge_def ex_store_def ex_turn_def ex_close_def ex_task_def ex_link_def ex_env_def
  ex_switched_def ex_state_def

lemma ex_ops:
  assumes "g = None \<or> g = Some ex_goal"
  shows "foldE (apply_op (ex_turn g) ByLlmPatch ex_env)
     \<lparr>as_store = ex_store\<lparr>ds_turns := [ex_turn_row g]\<rparr>, as_temp = Map.empty, as_edges = [], as_children = [], as_tasks = [], as_next = 0\<rparr>
     ex_switch = Inr (ex_state g)"
proof -
  let ?s = "ex_store\<lparr>ds_turns := [ex_turn_row g]\<rparr>"
  let ?s1 = "?s\<lparr>ds_nodes := take 2 (ds_nodes (ex_switched g))\<rparr>"
  let ?s2 = "?s\<lparr>ds_nodes := ds_nodes (ex_switched g)\<rparr>"
  have 1: "update_node ex_close (ex_turn g) ByLlmPatch 6 ?s = Inr ?s1"
    by (simp add: update_node_def get_node_def plain_row ex_defs update_row_def default_to_def Let_def)
  have 2: "insert_node ex_task (ex_turn g) ByLlmPatch 6 (0, [0]) ?s1 = Inr (''n_00000000000'', ?s2)"
    using assms
    by (auto simp: insert_node_def Let_def ex_ids no_refs no_detail ex_defs ex_goal_def goal_field_def)
  have 3: "insert_edge ex_link (Map.empty(''n0'' \<mapsto> ''n_00000000000'')) ''t2'' ByLlmPatch 6 (Suc 0, [Suc 0]) ?s2
      = Inr (Some ''e_00000000011'', ex_switched g)"
  proof -
    have "arcs (ds_edges ?s2) = [(''a'', ''b'')]" by (simp add: ex_defs arcs_def)
    moreover have "''a'' \<notin> set (reach_plus [(''a'', ''b'')] ''n_00000000000'')" by code_simp
    ultimately have "\<not> would_create_cycle ?s2 ''a'' ''n_00000000000''" by (simp add: would_create_cycle_def)
    then show ?thesis
      by (simp add: insert_edge_def Let_def default_to_def ex_link_def get_node_def plain_row edge_exists_def ex_ids)
        (simp add: ex_defs plain_row)
  qed
  have "ti_id (ex_turn g) = ''t2''" "a_kind ex_task = KTask" "a_temp_id ex_task = ''n0''"
    by (simp_all add: ex_turn_def ex_task_def)
  then show ?thesis
    by (simp add: ex_switch_def apply_op_def 1 2 3 ex_env_def ex_state_def)
qed

lemma ex_apply:
  assumes "g = None \<or> g = Some ex_goal"
  shows "apply_patch (ex_turn g) ex_switch LlmPatch None ex_env ex_store = Inr (ex_applied g)"
proof -
  have root: "select_root_task (read_nodes ex_store) = Some (ex_node ''a'' KTask SActive (Some ''g0'') 1)"
    by code_simp
  have up: "upsert_turn 5 (ex_turn g) ex_store = Inr (ex_store\<lparr>ds_turns := [ex_turn_row g]\<rparr>)"
    by (simp add: upsert_turn_def ex_turn_row_def ex_defs)
  have goals: "check_goal_ops (ex_turn g) (Some (ex_node ''a'' KTask SActive (Some ''g0'') 1)) ex_switch = Inr ()"
    using assms by (auto simp: check_goal_ops_def ex_defs ex_goal_def)
  have checks: "assert_added_child_nodes_reachable [] (ex_switched g) = Inr ()"
    "assert_task_transition_integrity (Some ''a'') [''n_00000000000''] (ex_switched g) = Inr ()"
    using assms by (elim disjE; hypsubst; code_simp)+
  have nodes: "read_nodes (ex_switched g) = ds_nodes (ex_switched g)" "read_edges (ex_switched g) = ds_edges (ex_switched g)"
    using assms by (elim disjE; hypsubst; code_simp)+
  have boundary: "assert_goal_boundary (ex_turn g) (Some (ex_node ''a'' KTask SActive (Some ''g0'') 1)) [''n_00000000000''] 7 (ex_switched g)
       = Inr (ex_switched g)"
    using assms unfolding assert_goal_boundary_def nodes
    by (auto simp: ex_defs ex_goal_def Let_def find_node_def check_cleared_goal_def truthy_def)
  have env: "pe_upsert_at ex_env = 5" "pe_goal_at ex_env = 7" "pe_done_at ex_env = 8" "ti_id (ex_turn g) = ''t2''"
    "n_id (ex_node ''a'' KTask SActive (Some ''g0'') 1) = ''a''"
    "as_children (ex_state g) = []" "as_tasks (ex_state g) = [''n_00000000000'']" "as_store (ex_state g) = ex_switched g"
    by (simp_all add: ex_env_def ex_turn_def ex_node_def ex_state_def)
  show ?thesis
    by (simp add: apply_patch_def root up goals ex_ops [OF assms] checks boundary env Let_def build_source_def default_to_def
        ex_applied_def)
qed

lemma ex_store_ok: "store_ok ex_store"
  by code_simp

lemma ex_root: "select_root_task (read_nodes ex_store) = Some (ex_node ''a'' KTask SActive (Some ''g0'') 1)"
  by code_simp

lemmas ex_run = ex_apply [of None, simplified] and ex_goal_run = ex_apply [of "Some ex_goal", simplified]

lemma ex_tasks: "as_tasks (ex_applied g) = [''n_00000000000'']"
  by (simp add: ex_applied_def ex_state_def)

section \<open>The theorems at this session\<close>

theorem sortable_id_order_witness: "new_sortable_id (1700000000000, [31]) < new_sortable_id (1700000000001, [0])"
  by (rule sortable_id_order) simp_all

theorem validated_patch_wf_witness:
  "\<exists>ops. validate_dag_patch (JObj [(''ops'', JArr [
      JObj [(''op'', JStr ''add_node''), (''temp_id'', JStr ''n0''), (''kind'', JStr ''subtask''), (''status'', JStr ''active''),
            (''title'', JStr ''t''), (''summary'', JStr ''s''), (''importance'', JNum (Fin 50))],
      JObj [(''op'', JStr ''add_edge''), (''source_id'', JStr ''a''), (''target_id'', JStr ''n0''), (''type'', JStr ''decomposes'')]])])
      [(''a'', KTask)] = Inr ops \<and> patch_wf [(''a'', KTask)] ops"
  (is "\<exists>ops. validate_dag_patch ?input ?kinds = Inr ops \<and> _")
proof -
  have "case validate_dag_patch ?input ?kinds of Inr _ \<Rightarrow> True | Inl _ \<Rightarrow> False" by code_simp
  then obtain ops where "validate_dag_patch ?input ?kinds = Inr ops" by (auto split: sum.splits)
  with validated_patch_wf [OF this] show ?thesis by blast
qed

definition ex_ctx :: dag_context where
  "ex_ctx = read_builder_context 20 ex_store"

lemma ex_normalize: "\<exists>ops. normalize_dag_task_transition [AddNode ex_task] ex_ctx None = Inr ops"
proof -
  have "case normalize_dag_task_transition [AddNode ex_task] ex_ctx None of Inr _ \<Rightarrow> True | Inl _ \<Rightarrow> False" by code_simp
  then show ?thesis by (auto split: sum.splits)
qed

theorem normalized_switch_witness:
  "\<exists>ops ty. normalize_dag_task_transition [AddNode ex_task] ex_ctx None = Inr ops
     \<and> filter (is_task_edge ex_ctx ops ''n0'') (added_edges ops) = [\<lparr>ae_source = ''a'', ae_target = ''n0'', ae_type = ty\<rparr>]"
proof -
  obtain ops where ops: "normalize_dag_task_transition [AddNode ex_task] ex_ctx None = Inr ops"
    using ex_normalize by blast
  have "filter (\<lambda>a. a_kind a = KTask) (added_nodes [AddNode ex_task]) = [ex_task]" "a_temp_id ex_task = ''n0''"
    by (simp_all add: added_nodes_def List.map_filter_simps ex_task_def)
  moreover have "root_id_of ex_ctx = Some ''a''" by code_simp
  ultimately show ?thesis using normalized_switch [OF ops, of ex_task "''a''"] ops by auto
qed

theorem normalize_idempotent_witness:
  "\<exists>ops. normalize_dag_task_transition [AddNode ex_task] ex_ctx None = Inr ops
     \<and> normalize_dag_task_transition ops ex_ctx None = Inr ops"
proof -
  obtain ops where ops: "normalize_dag_task_transition [AddNode ex_task] ex_ctx None = Inr ops"
    using ex_normalize by blast
  with normalize_idempotent [OF ops] show ?thesis by blast
qed

theorem select_root_task_spec_witness:
  "\<exists>r. select_root_task (ds_nodes ex_store) = Some r \<and> is_open r \<and> n_updated_at (hd (ds_nodes ex_store)) \<le> n_updated_at r"
proof -
  let ?a = "ex_node ''a'' KTask SActive (Some ''g0'') 1"
  have root: "select_root_task (ds_nodes ex_store) = Some ?a" by code_simp
  have "n_kind ?a = KTask" "is_open ?a" "hd (ds_nodes ex_store) = ?a" "?a \<in> set (ds_nodes ex_store)"
    by (simp_all add: ex_node_def is_open_def is_open_status_def ex_store_def)
  with select_root_task_spec [of "ds_nodes ex_store"] root show ?thesis by (auto simp: list_all_iff)
qed

theorem active_path_walk_witness:
  "let p = derive_active_path_selection (ds_nodes ex_store) (ds_edges ex_store)
   in walk (ds_edges ex_store) (p_nodes p) (p_edges p) \<and> hd (p_nodes p) = ''a'' \<and> distinct (p_nodes p)"
proof -
  have "select_root_task (ds_nodes ex_store) = Some (ex_node ''a'' KTask SActive (Some ''g0'') 1)"
    "no_cycle (arcs (ds_edges ex_store))" by code_simp+
  from active_path_walk [OF this] show ?thesis by (simp add: Let_def ex_node_def)
qed

theorem active_path_target_witness:
  "last (p_nodes (derive_active_path_selection (ds_nodes ex_store) (ds_edges ex_store))) = ''b''"
proof -
  let ?a = "ex_node ''a'' KTask SActive (Some ''g0'') 1" and ?b = "ex_node ''b'' KSubtask SActive None 1"
  have "select_root_task (ds_nodes ex_store) = Some ?a" "no_cycle (arcs (ds_edges ex_store))" by code_simp+
  note target = active_path_target [OF this]
  have "find (\<lambda>n. has_chain (ds_nodes ex_store) (edges_within (path_subgraph ?a (ds_nodes ex_store) (ds_edges ex_store)) (ds_edges ex_store))
      (n_id ?a) (n_id n)) (frontier (ds_nodes ex_store) (path_subgraph ?a (ds_nodes ex_store) (ds_edges ex_store))) = Some ?b"
    by code_simp
  with target show ?thesis by (simp add: Let_def) (simp add: ex_node_def)
qed

theorem apply_patch_store_ok_witness: "store_ok (as_store (ex_applied None)) \<and> grows ex_store (as_store (ex_applied None))"
  using apply_patch_store_ok [OF ex_store_ok ex_run] .

theorem apply_patch_one_open_task_witness: "length (open_tasks (as_store (ex_applied None))) \<le> 1"
  using apply_patch_one_open_task [OF ex_store_ok ex_run] by blast

theorem apply_patch_children_reachable_witness: "children_reachable (as_store (ex_applied None))"
proof -
  have "children_reachable ex_store" by code_simp
  from apply_patch_children_reachable [OF ex_store_ok this ex_run] show ?thesis .
qed

theorem apply_patch_switch_witness:
  "\<exists>old e. get_node (as_store (ex_applied None)) ''a'' = Some old
     \<and> filter (\<lambda>e. e_target e = ''n_00000000000'') (read_edges (as_store (ex_applied None))) = [e]
     \<and> task_transition_type_for_status (n_status old) = Inr (e_type e)"
  using apply_patch_switch [OF ex_store_ok ex_run ex_root ex_tasks] by (auto simp: ex_node_def)

theorem apply_patch_goal_task_witness:
  "\<exists>task. filter (\<lambda>n. n_goal_id n = Some ''g1'') (read_nodes (as_store (ex_applied (Some ex_goal)))) = [task] \<and> is_open task"
  using apply_patch_goal_task [OF ex_store_ok ex_goal_run, of ex_goal] by (auto simp: ex_turn_def ex_goal_def)

theorem apply_patch_goal_boundary_witness:
  "map_option n_status (get_node (as_store (ex_applied None)) ''a'') = Some SFrozen"
proof -
  let ?r = "ex_node ''a'' KTask SActive (Some ''g0'') 1"
  have "ti_goal (ex_turn None) = None \<and> select_root_task (read_nodes ex_store) = Some ?r \<and> is_open ?r
      \<and> truthy (n_goal_id ?r) \<and> as_tasks (ex_applied None) = [''n_00000000000'']"
    by (simp add: ex_root ex_tasks ex_turn_def) (simp add: ex_node_def is_open_def is_open_status_def truthy_def)
  moreover have "n_id ?r = ''a''" by (simp add: ex_node_def)
  ultimately show ?thesis
    using apply_patch_goal_boundary [OF ex_store_ok ex_run, THEN conjunct2, rule_format, of ?r "''n_00000000000''" "[]"] by simp
qed

theorem claim_next_turn_spec_witness:
  "map_option t_status (fst (claim_next_turn 9 (ex_switched None))) = Some TRunning"
proof -
  have turns: "ds_turns (ex_switched None) = [ex_turn_row None]" by (simp add: ex_switched_def)
  then have d: "distinct (map t_id (ds_turns (ex_switched None)))" by simp
  have c: "claimable 9 (release_running 9 (ex_turn_row None))" by code_simp
  show ?thesis
  proof (cases "claim_next_turn 9 (ex_switched None)")
    case (Pair r st)
    with claim_next_turn_spec [OF d, of 9] c turns show ?thesis
      by (cases r) (auto simp: filter_eq_Cons_iff)
  qed
qed

theorem added_task_becomes_root_witness:
  "map_option n_id (select_root_task (read_nodes (as_store (ex_applied None)))) = Some ''n_00000000000''"
  by (rule added_task_becomes_root [OF ex_store_ok ex_run ex_tasks]) (simp add: ex_turn_def goal_field_def)

theorem read_builder_context_spec_witness:
  "dc_root (read_builder_context 20 ex_store) = Some ''a''
     \<and> set (dc_path (read_builder_context 20 ex_store)) \<subseteq> set (map c_id (dc_nodes (read_builder_context 20 ex_store)))"
proof -
  have i: "n_id (ex_node ''a'' KTask SActive (Some ''g0'') 1) = ''a''" by (simp add: ex_node_def)
  from read_builder_context_spec [OF ex_store_ok ex_root, of 20] show ?thesis by (simp add: Let_def i)
qed

definition ex_two_tasks :: dag_store where
  "ex_two_tasks = ex_store\<lparr>ds_nodes := ds_nodes ex_store @ [ex_node ''c'' KTask SActive None 1]\<rparr>"

theorem repair_store_ok_witness:
  "\<exists>st. repair_task_transitions_once (\<lambda>k. (k, [k])) ex_two_tasks = Inr st \<and> store_ok st \<and> grows ex_two_tasks st"
proof -
  have "case repair_task_transitions_once (\<lambda>k. (k, [k])) ex_two_tasks of Inr _ \<Rightarrow> True | Inl _ \<Rightarrow> False" by code_simp
  then obtain st where st: "repair_task_transitions_once (\<lambda>k. (k, [k])) ex_two_tasks = Inr st" by (auto split: sum.splits)
  have "store_ok ex_two_tasks" by code_simp
  from repair_store_ok [OF this st] st show ?thesis by blast
qed

end
