(* ===== verification/Js_Regex.thy ===== *)
theory Js_Regex
  imports Js_Values
begin

text \<open>
  Regular expressions of JavaScript, as far as the source uses them: classes of characters, greedy and
  lazy repetition, captures and back references, look-ahead and the assertions of line and word.
  A matcher returns all ends of a match in the order in which the backtracking search of
  ECMAScript finds them, so that the first one is the match. On top of it \<open>exec\<close>, \<open>test\<close>, \<open>search\<close>,
  \<open>replace\<close> and \<open>split\<close>.
\<close>

section \<open>Expressions and their matches\<close>

datatype regex =
    Sym "char \<Rightarrow> bool"
  | Eps
  | Seq regex regex
  | Alt regex regex
  | Star bool regex
  | Cap nat regex
  | Ref bool nat
  | Ahead bool regex
  | Bol bool
  | Eol bool
  | WordB

type_synonym captures = "nat \<Rightarrow> (nat \<times> nat) option"

type_synonym rx_state = "nat \<times> captures"

primrec groups :: "regex \<Rightarrow> nat list" where
  "groups (Sym p) = []"
| "groups Eps = []"
| "groups (Seq a b) = groups a @ groups b"
| "groups (Alt a b) = groups a @ groups b"
| "groups (Star g a) = groups a"
| "groups (Cap k a) = k # groups a"
| "groups (Ref ci k) = []"
| "groups (Ahead pos a) = groups a"
| "groups (Bol m) = []"
| "groups (Eol m) = []"
| "groups WordB = []"

text \<open>Each turn of a repetition consumes something, so the rest of the text bounds their number.\<close>

fun star_matches :: "bool \<Rightarrow> (rx_state \<Rightarrow> rx_state list) \<Rightarrow> nat \<Rightarrow> rx_state \<Rightarrow> rx_state list" where
  "star_matches greedy f 0 st = [st]"
| "star_matches greedy f (Suc n) st =
     (let more = concat (map (star_matches greedy f n) (filter (\<lambda>st'. fst st < fst st') (f st)))
      in if greedy then more @ [st] else st # more)"

definition line_end :: "char \<Rightarrow> bool" where
  "line_end c \<longleftrightarrow> c = CHR 10 \<or> c = CHR 13"

definition word_char :: "char \<Rightarrow> bool" where
  "word_char c = (let n = (of_char c :: nat) in
     48 \<le> n \<and> n \<le> 57 \<or> 65 \<le> n \<and> n \<le> 90 \<or> n = 95 \<or> 97 \<le> n \<and> n \<le> 122)"

definition word_at :: "string \<Rightarrow> nat \<Rightarrow> bool" where
  "word_at s i \<longleftrightarrow> i < length s \<and> word_char (s ! i)"

definition slice :: "nat \<Rightarrow> nat \<Rightarrow> 'a list \<Rightarrow> 'a list" where
  "slice b e s = take (e - b) (drop b s)"

primrec rx_match :: "regex \<Rightarrow> string \<Rightarrow> rx_state \<Rightarrow> rx_state list" where
  "rx_match (Sym p) s st = (if fst st < length s \<and> p (s ! fst st) then [(fst st + 1, snd st)] else [])"
| "rx_match Eps s st = [st]"
| "rx_match (Seq a b) s st = concat (map (rx_match b s) (rx_match a s st))"
| "rx_match (Alt a b) s st = rx_match a s st @ rx_match b s st"
| "rx_match (Star greedy a) s st =
     star_matches greedy (\<lambda>st. rx_match a s (fst st, \<lambda>k. if k \<in> set (groups a) then None else snd st k)) (length s - fst st) st"
| "rx_match (Cap k a) s st = map (\<lambda>st'. (fst st', (snd st')(k := Some (fst st, fst st')))) (rx_match a s st)"
| "rx_match (Ref ci k) s st =
     (case snd st k of
        None \<Rightarrow> [st]
      | Some (b, e) \<Rightarrow>
          (let here = slice (fst st) (fst st + (e - b)) s; there = slice b e s in
           if fst st + (e - b) \<le> length s \<and> (if ci then to_lower here = to_lower there else here = there)
           then [(fst st + (e - b), snd st)] else []))"
| "rx_match (Ahead pos a) s st =
     (case rx_match a s st of
        [] \<Rightarrow> if pos then [] else [st]
      | st' # _ \<Rightarrow> if pos then [(fst st, snd st')] else [])"
| "rx_match (Bol multi) s st = (if fst st = 0 \<or> multi \<and> line_end (s ! (fst st - 1)) then [st] else [])"
| "rx_match (Eol multi) s st = (if fst st \<ge> length s \<or> multi \<and> line_end (s ! fst st) then [st] else [])"
| "rx_match WordB s st = (if (fst st > 0 \<and> word_at s (fst st - 1)) \<noteq> word_at s (fst st) then [st] else [])"

lemma star_matches_bounds:
  assumes "\<And>st st'. st' \<in> set (f st) \<Longrightarrow> fst st \<le> N \<Longrightarrow> fst st' \<le> N"
  shows "st' \<in> set (star_matches g f n st) \<Longrightarrow> fst st \<le> N \<Longrightarrow> fst st \<le> fst st' \<and> fst st' \<le> N"
proof (induction n arbitrary: st)
  case (Suc n)
  then consider "st' = st" | mid where "mid \<in> set (f st)" "fst st < fst mid" "st' \<in> set (star_matches g f n mid)"
    by (auto simp: Let_def split: if_splits)
  then show ?case
  proof cases
    case 2
    with assms Suc.prems(2) have "fst mid \<le> N" by blast
    with Suc.IH [OF 2(3)] 2(2) show ?thesis by simp
  qed (use Suc.prems in simp)
qed simp

text \<open>A match goes forward and stays in the text.\<close>

lemma rx_match_bounds:
  "st' \<in> set (rx_match r s st) \<Longrightarrow> fst st \<le> length s \<Longrightarrow> fst st \<le> fst st' \<and> fst st' \<le> length s"
proof (induction r arbitrary: st st')
  case (Seq a b)
  then obtain mid where "mid \<in> set (rx_match a s st)" "st' \<in> set (rx_match b s mid)" by auto
  with Seq show ?case by (meson le_trans)
next
  case (Star g a)
  from Star.prems show ?case
    unfolding rx_match.simps
  proof (rule star_matches_bounds [rotated])
    fix st st' :: rx_state
    assume "st' \<in> set (rx_match a s (fst st, \<lambda>k. if k \<in> set (groups a) then None else snd st k))" "fst st \<le> length s"
    from Star.IH [OF this(1)] this(2) show "fst st' \<le> length s" by simp
  qed
next
  case (Ref ci k)
  then show ?case by (auto simp: Let_def split: option.splits if_splits)
next
  case (Ahead pos a)
  then show ?case by (auto split: list.splits if_splits)
qed (fastforce split: if_splits)+

section \<open>Search, replacement, splitting\<close>

definition match_at :: "regex \<Rightarrow> string \<Rightarrow> nat \<Rightarrow> (nat \<times> nat \<times> captures) option" where
  "match_at r s i = (case rx_match r s (i, Map.empty) of [] \<Rightarrow> None | (e, c) # _ \<Rightarrow> Some (i, e, c))"

fun first_match :: "regex \<Rightarrow> string \<Rightarrow> nat list \<Rightarrow> (nat \<times> nat \<times> captures) option" where
  "first_match r s [] = None"
| "first_match r s (i # is') = (case match_at r s i of None \<Rightarrow> first_match r s is' | Some m \<Rightarrow> Some m)"

definition rx_exec :: "regex \<Rightarrow> string \<Rightarrow> nat \<Rightarrow> (nat \<times> nat \<times> captures) option" where
  "rx_exec r s i = first_match r s [i..<Suc (length s)]"

definition rx_test :: "regex \<Rightarrow> string \<Rightarrow> bool" where
  "rx_test r s \<longleftrightarrow> rx_exec r s 0 \<noteq> None"

definition rx_search :: "regex \<Rightarrow> string \<Rightarrow> nat option" where
  "rx_search r s = map_option fst (rx_exec r s 0)"

lemma match_atD: "match_at r s i = Some (b, e, c) \<Longrightarrow> i \<le> length s \<Longrightarrow> b = i \<and> i \<le> e \<and> e \<le> length s"
  using rx_match_bounds [of "(e, c)" r s "(i, Map.empty)"]
  by (auto simp: match_at_def split: list.splits)

lemma first_matchD: "first_match r s is' = Some (b, e, c) \<Longrightarrow> b \<in> set is' \<and> match_at r s b = Some (b, e, c)"
proof (induction is')
  case (Cons i is')
  then show ?case by (auto simp: match_at_def split: option.splits list.splits)
qed simp

lemma rx_execD: "rx_exec r s i = Some (b, e, c) \<Longrightarrow> i \<le> b \<and> b \<le> e \<and> e \<le> length s"
  unfolding rx_exec_def using first_matchD [of r s "[i..<Suc (length s)]" b e c] match_atD [of r s b b e c] by auto

text \<open>The matches of a global expression; after an empty one the search moves on by one.\<close>

function all_matches :: "regex \<Rightarrow> string \<Rightarrow> nat \<Rightarrow> (nat \<times> nat \<times> captures) list" where
  "all_matches r s i =
     (case rx_exec r s i of
        None \<Rightarrow> []
      | Some (b, e, c) \<Rightarrow> (b, e, c) # all_matches r s (max (Suc b) e))"
  by pat_completeness auto

termination all_matches
  by (relation "measure (\<lambda>(r, s, i). Suc (length s) - i)") (auto dest!: rx_execD)

declare all_matches.simps [simp del]

definition captured :: "string \<Rightarrow> captures \<Rightarrow> nat \<Rightarrow> string" where
  "captured s c k = (case c k of None \<Rightarrow> [] | Some (b, e) \<Rightarrow> slice b e s)"

fun splice :: "string \<Rightarrow> (captures \<Rightarrow> string) \<Rightarrow> nat \<Rightarrow> (nat \<times> nat \<times> captures) list \<Rightarrow> string" where
  "splice s f i [] = drop i s"
| "splice s f i ((b, e, c) # ms) = slice i b s @ f c @ splice s f e ms"

definition replace_all :: "regex \<Rightarrow> (captures \<Rightarrow> string) \<Rightarrow> string \<Rightarrow> string" where
  "replace_all r f s = splice s f 0 (all_matches r s 0)"

definition replace_first :: "regex \<Rightarrow> (captures \<Rightarrow> string) \<Rightarrow> string \<Rightarrow> string" where
  "replace_first r f s = splice s f 0 (case rx_exec r s 0 of None \<Rightarrow> [] | Some m \<Rightarrow> [m])"

definition no_text :: "captures \<Rightarrow> string" where
  "no_text c = []"

text \<open>\<open>s.split(r)\<close>, for a separator that matches no empty text and has no captures.\<close>

fun pieces :: "string \<Rightarrow> nat \<Rightarrow> (nat \<times> nat \<times> captures) list \<Rightarrow> string list" where
  "pieces s i [] = [drop i s]"
| "pieces s i ((b, e, c) # ms) = slice i b s # pieces s e ms"

definition rx_split :: "regex \<Rightarrow> string \<Rightarrow> string list" where
  "rx_split r s = pieces s 0 (all_matches r s 0)"

lemma replace_all_none: "rx_exec r s 0 = None \<Longrightarrow> replace_all r f s = s"
  by (simp add: replace_all_def all_matches.simps)

lemma replace_first_none: "rx_exec r s 0 = None \<Longrightarrow> replace_first r f s = s"
  by (simp add: replace_first_def)

section \<open>Building blocks\<close>

definition lit :: "string \<Rightarrow> regex" where
  "lit w = foldr (\<lambda>c r. Seq (Sym ((=) c)) r) w Eps"

text \<open>With the flag \<open>i\<close>.\<close>

definition lit_ci :: "string \<Rightarrow> regex" where
  "lit_ci w = foldr (\<lambda>c r. Seq (Sym (\<lambda>d. to_lower [d] = to_lower [c])) r) w Eps"

definition any_of :: "string \<Rightarrow> regex" where
  "any_of w = Sym (\<lambda>c. c \<in> set w)"

definition none_of :: "string \<Rightarrow> regex" where
  "none_of w = Sym (\<lambda>c. c \<notin> set w)"

definition white :: regex where
  "white = Sym js_ws"

definition whites :: regex where
  "whites = Star True white"

definition opt :: "regex \<Rightarrow> regex" where
  "opt r = Alt r Eps"

definition plus :: "regex \<Rightarrow> regex" where
  "plus r = Seq r (Star True r)"

definition anything :: regex where
  "anything = Sym (\<lambda>_. True)"

fun seq_of :: "regex list \<Rightarrow> regex" where
  "seq_of [] = Eps"
| "seq_of [r] = r"
| "seq_of (r # q # rs) = Seq r (seq_of (q # rs))"

fun alt_of :: "regex list \<Rightarrow> regex" where
  "alt_of [] = Sym (\<lambda>_. False)"
| "alt_of [r] = r"
| "alt_of (r # q # rs) = Alt r (alt_of (q # rs))"

end
