(* ===== verification/Dag_Builder.thy ===== *)
theory Dag_Builder
  imports Dag_Reads Dag_Normalize Js_Regex
begin

text \<open>
  The builder of the session DAG (\<open>session-dag/builder.ts\<close>): from a turn and the answer of the
  model to a committed patch, and the deterministic patch that replaces an answer that cannot be
  used. The provider, the JSON parser and its repair are arguments, as are the fixed Chinese texts
  (strings here hold code units below 256, so the Chinese alternatives of \<open>fallbackStatus\<close> never
  match). Logging and usage records are left out.
\<close>

section \<open>Texts\<close>

definition truncate_text :: "string \<Rightarrow> nat \<Rightarrow> string" where
  "truncate_text s max_chars =
     (if max_chars = 0 \<or> length s \<le> max_chars then s
      else take max_chars s @ CHR 10 # ''... (truncated)'')"

text \<open>\<open>text.replace(/\s+/g, " ")\<close>\<close>

definition squeeze :: "string \<Rightarrow> string" where
  "squeeze s = replace_all (plus white) (\<lambda>_. [CHR 32]) s"

definition or_text :: "string \<Rightarrow> string \<Rightarrow> string" where
  "or_text a b = (if a = [] then b else a)"

record fallback_texts =
  ft_task_title :: string
  ft_task_summary :: string
  ft_turn_title :: string
  ft_turn_summary :: string
  ft_blank_title :: string
  ft_blank_summary :: string

definition fallback_title :: "fallback_texts \<Rightarrow> string \<Rightarrow> string" where
  "fallback_title ft s =
     (let normalized = js_trim (squeeze s)
      in if normalized = [] then ft_blank_title ft else truncate_text normalized 40)"

definition fallback_summary :: "fallback_texts \<Rightarrow> string \<Rightarrow> string" where
  "fallback_summary ft s =
     (let normalized = js_trim (squeeze s) in truncate_text (or_text normalized (ft_blank_summary ft)) 500)"

definition whole_word :: "string \<Rightarrow> regex" where
  "whole_word w = seq_of [WordB, lit w, WordB]"

definition fallback_status :: "dag_turn \<Rightarrow> node_status" where
  "fallback_status turn =
     (let s = to_lower (t_user_text turn @ CHR 10 # t_assistant_text turn) in
      if rx_test (lit ''blocked'') s then SBlocked
      else if rx_test (Alt (whole_word ''error'') (whole_word ''failed'')) s then SFailed
      else if rx_test (Alt (whole_word ''done'') (whole_word ''fixed'')) s then SDone
      else SActive)"

section \<open>Turns\<close>

definition turn_goal :: "dag_turn \<Rightarrow> goal_ctx option" where
  "turn_goal turn =
     (case (t_goal_id turn, t_goal_objective turn, t_goal_status turn) of
        (Some i, Some objective, Some status) \<Rightarrow>
          if i = [] \<or> objective = [] then None
          else Some \<lparr>gc_goal_id = i, gc_objective = objective, gc_status = status\<rparr>
      | _ \<Rightarrow> None)"

definition turn_to_input :: "dag_turn \<Rightarrow> turn_input" where
  "turn_to_input turn = \<lparr>ti_id = t_id turn, ti_start = t_start turn, ti_end = t_end turn,
     ti_user_text = Some (t_user_text turn), ti_assistant_text = Some (t_assistant_text turn), ti_goal = turn_goal turn\<rparr>"

section \<open>The deterministic patch\<close>

definition cmp_updated :: "dag_node \<Rightarrow> dag_node \<Rightarrow> int" where
  "cmp_updated left right = n_updated_at right - n_updated_at left"

definition latest :: "(dag_node \<Rightarrow> bool) \<Rightarrow> dag_node list \<Rightarrow> dag_node option" where
  "latest p nodes = (case sort_cmp cmp_updated (filter p nodes) of [] \<Rightarrow> None | n # _ \<Rightarrow> Some n)"

definition existing_task :: "dag_node list \<Rightarrow> dag_node option" where
  "existing_task = latest (\<lambda>n. n_kind n = KTask \<and> n_status n \<noteq> SFrozen)"

definition active_subtask :: "dag_node list \<Rightarrow> dag_node option" where
  "active_subtask = latest (\<lambda>n. n_kind n = KSubtask \<and> (n_status n = SActive \<or> n_status n = SBlocked))"

definition status_update :: "string \<Rightarrow> node_status \<Rightarrow> patch_op" where
  "status_update i s = UpdateNode ((empty_update i)\<lparr>u_status := Some s\<rparr>)"

definition continues_goal :: "dag_turn \<Rightarrow> dag_node option \<Rightarrow> bool" where
  "continues_goal turn existing =
     (case turn_goal turn of None \<Rightarrow> False | Some g \<Rightarrow> Option.bind existing n_goal_id = Some (gc_goal_id g))"

definition must_create_task :: "dag_turn \<Rightarrow> dag_node option \<Rightarrow> bool" where
  "must_create_task turn existing =
     (case existing of
        None \<Rightarrow> True
      | Some task \<Rightarrow>
          (case turn_goal turn of
             Some _ \<Rightarrow> \<not> continues_goal turn existing
           | None \<Rightarrow> truthy (n_goal_id task)))"

text \<open>The final status of the task that is left, and the type of the edge to the new one.\<close>

definition task_transition :: "dag_node \<Rightarrow> node_status \<times> edge_type" where
  "task_transition task =
     (if n_status task = SDone \<or> n_status task = SFailed then (n_status task, Continues) else (SFrozen, Supersedes))"

definition new_task_ops :: "fallback_texts \<Rightarrow> dag_turn \<Rightarrow> dag_node option \<Rightarrow> patch_op list" where
  "new_task_ops ft turn existing =
     (let said = or_text (t_user_text turn) (t_assistant_text turn) in
      (case existing of
         None \<Rightarrow> []
       | Some task \<Rightarrow> if fst (task_transition task) \<noteq> n_status task
                      then [status_update (n_id task) (fst (task_transition task))] else [])
      @ [AddNode \<lparr>a_temp_id = ''fallback_task'', a_kind = KTask,
           a_status = (if fallback_status turn = SBlocked then SBlocked else SActive),
           a_title = fallback_title ft (or_text said (ft_task_title ft)),
           a_summary = fallback_summary ft (or_text said (ft_task_summary ft)),
           a_importance = fallback_importance KTask SActive, a_detail = Some [], a_refs = Some []\<rparr>]
      @ (case existing of
           None \<Rightarrow> []
         | Some task \<Rightarrow> [AddEdge \<lparr>ae_source = n_id task, ae_target = ''fallback_task'', ae_type = snd (task_transition task)\<rparr>]))"

definition subtask_op :: "fallback_texts \<Rightarrow> dag_turn \<Rightarrow> patch_op" where
  "subtask_op ft turn =
     (let said = or_text (t_user_text turn) (t_assistant_text turn) in
      AddNode \<lparr>a_temp_id = ''fallback_subtask'', a_kind = KSubtask, a_status = fallback_status turn,
        a_title = fallback_title ft (or_text said (ft_turn_title ft)),
        a_summary = fallback_summary ft (or_text said (ft_turn_summary ft)),
        a_importance = fallback_importance KSubtask (fallback_status turn),
        a_detail = Some [(''result'', JStr (truncate_text (or_text (t_assistant_text turn) (t_user_text turn)) 500))],
        a_refs = Some []\<rparr>)"

definition fallback_ops :: "fallback_texts \<Rightarrow> dag_turn \<Rightarrow> dag_node list \<Rightarrow> patch_op list" where
  "fallback_ops ft turn nodes =
     (let existing = existing_task nodes;
          continues = continues_goal turn existing;
          create = must_create_task turn existing;
          task_ref = (if create then ''fallback_task'' else (case existing of None \<Rightarrow> [] | Some task \<Rightarrow> n_id task));
          link = (case active_subtask nodes of
              Some sub \<Rightarrow>
                if \<not> create then
                  (if continues then [status_update (n_id sub) SDone] else [])
                  @ [AddEdge \<lparr>ae_source = n_id sub, ae_target = ''fallback_subtask'', ae_type = Continues\<rparr>]
                else [AddEdge \<lparr>ae_source = task_ref, ae_target = ''fallback_subtask'', ae_type = Decomposes\<rparr>]
            | None \<Rightarrow> [AddEdge \<lparr>ae_source = task_ref, ae_target = ''fallback_subtask'', ae_type = Decomposes\<rparr>]);
          close = (case existing of
              None \<Rightarrow> []
            | Some task \<Rightarrow> if map_option gc_status (turn_goal turn) = Some GCompleted \<and> continues
                           then [status_update (n_id task) SDone] else [])
      in close @ (if create then new_task_ops ft turn existing else []) @ [subtask_op ft turn] @ link)"

definition apply_deterministic_fallback ::
  "fallback_texts \<Rightarrow> patch_env \<Rightarrow> dag_turn \<Rightarrow> dag_store \<Rightarrow> store_error + apply_state" where
  "apply_deterministic_fallback ft env turn st =
     apply_patch (turn_to_input turn) (fallback_ops ft turn (gr_nodes (read_graph_for_history_dag st)))
       DeterministicFallback (Some ByFallback) env st"

section \<open>The messages of a turn\<close>

definition trimmed_or_null :: "json option \<Rightarrow> string option" where
  "trimmed_or_null v = (case v of Some (JStr s) \<Rightarrow> if js_trim s = [] then None else Some (js_trim s) | _ \<Rightarrow> None)"

fun block_text :: "(jsnum \<Rightarrow> string) \<Rightarrow> json \<Rightarrow> string" where
  "block_text nt (JObj o') = (if map_of o' ''type'' = Some (JStr ''text'') then text_or nt (map_of o' ''text'') [] else [])"
| "block_text nt _ = []"

definition text_content :: "(jsnum \<Rightarrow> string) \<Rightarrow> json option \<Rightarrow> string" where
  "text_content nt content =
     (case content of
        None \<Rightarrow> []
      | Some JNull \<Rightarrow> []
      | Some (JStr s) \<Rightarrow> s
      | Some (JArr blocks) \<Rightarrow> join_with [CHR 10] (filter (\<lambda>t. t \<noteq> []) (map (block_text nt) blocks))
      | Some v \<Rightarrow> json_stringify nt v)"

record tool_call =
  tc_id :: "string option"
  tc_name :: string
  tc_arguments :: string

datatype turn_message =
    CallMessage nat string string "tool_call list"
  | ToolMessage nat string "string option" string string
  | TextMessage nat string string

definition summarize_call :: "(jsnum \<Rightarrow> string) \<Rightarrow> json \<Rightarrow> tool_call" where
  "summarize_call nt call =
     (let f = json_field ''function'' (Some call) in
      \<lparr>tc_id = trimmed_or_null (json_field ''id'' (Some call)),
       tc_name = text_or nt (nullish (json_field ''name'' f) (json_field ''name'' (Some call))) ''tool'',
       tc_arguments = truncate_text
         (text_or nt (nullish (json_field ''arguments'' f) (json_field ''arguments'' (Some call))) []) 800\<rparr>)"

definition normalize_turn_message :: "(jsnum \<Rightarrow> string) \<Rightarrow> json_obj \<Rightarrow> nat \<Rightarrow> turn_message" where
  "normalize_turn_message nt m index =
     (let role = text_or nt (map_of m ''role'') ''unknown'';
          content = text_content nt (map_of m ''content'');
          plain = (if role = ''tool'' then
               ToolMessage index role (trimmed_or_null (map_of m ''tool_call_id'')) (text_or nt (map_of m ''name'') ''tool'')
                 (truncate_text content 1000)
             else TextMessage index role
               (truncate_text content (if role = ''user'' \<or> role = ''assistant'' then 2000 else 1000)))
      in case (role = ''assistant'', map_of m ''tool_calls'') of
           (True, Some (JArr (call # calls))) \<Rightarrow> CallMessage index role content (map (summarize_call nt) (call # calls))
         | _ \<Rightarrow> plain)"

datatype build_error =
    SessionMissing
  | RangeOutside
  | RequestFailed string
  | NotAString
  | NotJson
  | PatchRejected patch_error
  | StoreRejected store_error

text \<open>\<open>messages.slice(start, end)\<close>; an internal continuation shows the text of the turn.\<close>

definition read_turn_messages :: "(jsnum \<Rightarrow> string) \<Rightarrow> json_obj list \<Rightarrow> dag_turn \<Rightarrow> build_error + turn_message list" where
  "read_turn_messages nt messages turn =
     (let first = nat (max 0 (t_start turn)); upto = min (length messages) (nat (t_end turn)) in
      if t_end turn < 0 \<or> upto \<le> first then Inl RangeOutside
      else Inr (map (\<lambda>(m, i). normalize_turn_message nt
             (if map_of m ''internal_context'' = Some (JStr ''goal_continuation'')
              then obj_put m (''content'', JStr (t_user_text turn)) else m) i)
           (zip (drop first (take upto messages)) [first..<upto])))"

section \<open>From the answer of the model to a committed patch\<close>

definition markdown_fence :: regex where
  "markdown_fence = seq_of [Bol False, lit ''```'', opt (lit_ci ''json''), whites, Cap 1 (Star False anything), whites,
     lit ''```'', Eol False]"

definition strip_markdown_fence :: "string \<Rightarrow> string" where
  "strip_markdown_fence s =
     (case rx_exec markdown_fence s 0 of None \<Rightarrow> s | Some (_, _, c) \<Rightarrow> js_trim (captured s c 1))"

definition parse_patch_json :: "(string \<Rightarrow> json option) \<Rightarrow> (string \<Rightarrow> json option) \<Rightarrow> json option \<Rightarrow> build_error + json" where
  "parse_patch_json parse repair content =
     (case content of
        Some (JStr s) \<Rightarrow>
          (let trimmed = strip_markdown_fence (js_trim s) in
           case parse trimmed of
             Some v \<Rightarrow> Inr v
           | None \<Rightarrow> (case repair trimmed of Some v \<Rightarrow> Inr v | None \<Rightarrow> Inl NotJson))
      | _ \<Rightarrow> Inl NotAString)"

definition context_kinds :: "dag_context \<Rightarrow> kind_map" where
  "context_kinds ctx = map (\<lambda>n. (c_id n, c_kind n)) (dc_nodes ctx)"

text \<open>What the model answers to the messages and the context: an error, or the content of its response.\<close>

type_synonym responder = "dag_turn \<Rightarrow> turn_message list \<Rightarrow> dag_context \<Rightarrow> string + json option"

record builder =
  bu_nt :: "jsnum \<Rightarrow> string"
  bu_parse :: "string \<Rightarrow> json option"
  bu_repair :: "string \<Rightarrow> json option"
  bu_respond :: responder
  bu_max_nodes :: int
  bu_texts :: fallback_texts

definition map_error :: "('e \<Rightarrow> 'f) \<Rightarrow> 'e + 'a \<Rightarrow> 'f + 'a" where
  "map_error f r = (case r of Inl e \<Rightarrow> Inl (f e) | Inr x \<Rightarrow> Inr x)"

lemma map_error_eq_Inr [error_simps]: "map_error f r = Inr x \<longleftrightarrow> r = Inr x"
  by (cases r) (simp_all add: map_error_def)

definition build_and_apply ::
  "builder \<Rightarrow> json_obj list option \<Rightarrow> patch_env \<Rightarrow> dag_turn \<Rightarrow> dag_store \<Rightarrow> build_error + apply_state" where
  "build_and_apply b session env turn st =
     (case session of
        None \<Rightarrow> Inl SessionMissing
      | Some messages \<Rightarrow>
          bindE (read_turn_messages (bu_nt b) messages turn) (\<lambda>turn_messages.
          let ctx = read_builder_context (bu_max_nodes b) st in
          bindE (map_error RequestFailed (bu_respond b turn turn_messages ctx)) (\<lambda>content.
          bindE (parse_patch_json (bu_parse b) (bu_repair b) content) (\<lambda>parsed.
          bindE (map_error PatchRejected (validate_dag_patch parsed (context_kinds ctx))) (\<lambda>validated.
          bindE (map_error PatchRejected (normalize_dag_task_transition validated ctx (turn_goal turn))) (\<lambda>patch.
          map_error StoreRejected (apply_patch (turn_to_input turn) patch LlmPatch (Some ByLlmPatch) env st)))))))"

section \<open>The deterministic patch applies\<close>

lemma latestD: "latest p nodes = Some n \<Longrightarrow> n \<in> set nodes \<and> p n"
proof -
  assume "latest p nodes = Some n"
  then obtain ns where "sort_cmp cmp_updated (filter p nodes) = n # ns"
    by (auto simp: latest_def split: list.splits)
  then have "n \<in> set (sort_cmp cmp_updated (filter p nodes))" by simp
  then show ?thesis by simp
qed

lemma latest_None: "latest p nodes = None \<longleftrightarrow> (\<forall>n \<in> set nodes. \<not> p n)"
  by (simp add: latest_def filter_empty_conv split: list.splits)
    (metis filter_empty_conv list.distinct(1) sort_cmp_eq_Nil)

text \<open>The ids of a patch are new, and none of the session's nodes has the name of a temporary id.\<close>

definition fresh_env :: "patch_env \<Rightarrow> dag_store \<Rightarrow> bool" where
  "fresh_env env st \<longleftrightarrow>
     (\<forall>k. ''n_'' @ new_sortable_id (pe_ids env k) \<notin> n_id ` set (ds_nodes st)
        \<and> ''e_'' @ new_sortable_id (pe_ids env k) \<notin> e_id ` set (ds_edges st))
     \<and> ''fallback_task'' \<notin> n_id ` set (ds_nodes st) \<and> ''fallback_subtask'' \<notin> n_id ` set (ds_nodes st)"

definition sides_ok :: "string \<Rightarrow> dag_store \<Rightarrow> bool" where
  "sides_ok turn_id st \<longleftrightarrow> list_all (\<lambda>e. e_type e = SideBranch \<longrightarrow>
     e_created_turn e \<noteq> Some turn_id
     \<and> (case (get_node st (e_source e), get_node st (e_target e)) of
          (Some src, Some trg) \<Rightarrow> truthy (n_goal_id src) \<and> n_kind src = KTask \<and> n_kind trg \<noteq> KTask
        | _ \<Rightarrow> False)) (ds_edges st)"

lemma insert_child:
  assumes "''n_'' @ new_sortable_id ids \<notin> n_id ` set (ds_nodes st)" and "a_kind op \<noteq> KTask"
    and "0 \<le> a_importance op" "a_importance op \<le> 100" and "ti_start turn \<le> ti_end turn"
  shows "\<exists>node. insert_node op turn src now ids st = Inr (''n_'' @ new_sortable_id ids, st\<lparr>ds_nodes := ds_nodes st @ [node]\<rparr>)
     \<and> n_id node = ''n_'' @ new_sortable_id ids \<and> n_kind node = a_kind op \<and> n_session_key node = ds_session st"
proof (cases "insert_node op turn src now ids st")
  case (Inl e)
  with assms show ?thesis by (simp add: insert_node_def Let_def)
next
  case (Inr r)
  then have "fst r = ''n_'' @ new_sortable_id ids"
    by (auto simp: insert_node_def Let_def error_simps)
  with Inr have ins: "insert_node op turn src now ids st = Inr (''n_'' @ new_sortable_id ids, snd r)"
    by (metis prod.collapse)
  then obtain node where "snd r = st\<lparr>ds_nodes := ds_nodes st @ [node]\<rparr>" "n_id node = ''n_'' @ new_sortable_id ids"
      "n_kind node = a_kind op" "node_ok (ds_session st) node"
    by (rule insert_nodeE)
  with ins show ?thesis by (intro exI [of _ node]) (simp add: node_ok_def)
qed

lemma find_append: "find P (xs @ ys) = (case find P xs of None \<Rightarrow> find P ys | Some x \<Rightarrow> Some x)"
  by (induction xs) auto

lemma insert_edge_into_new:
  assumes "store_ok st" and "''e_'' @ new_sortable_id ids \<notin> e_id ` set (ds_edges st)"
    and "get_node st s \<noteq> None" and "n_id node \<notin> n_id ` set (ds_nodes st)" and "n_session_key node = ds_session st"
    and "default_to (temp (ae_source op)) (ae_source op) = s" and "temp (ae_target op) = Some (n_id node)"
    and "ae_type op \<noteq> Supersedes"
  shows "\<exists>e. insert_edge op temp turn_id src now ids (st\<lparr>ds_nodes := ds_nodes st @ [node]\<rparr>)
        = Inr (Some (e_id e), st\<lparr>ds_nodes := ds_nodes st @ [node], ds_edges := ds_edges st @ [e]\<rparr>)
     \<and> e_source e = s \<and> e_target e = n_id node \<and> e_type e = ae_type op"
proof -
  let ?st = "st\<lparr>ds_nodes := ds_nodes st @ [node]\<rparr>"
  have s: "s \<in> n_id ` set (ds_nodes st)" using assms(1,3) by (simp add: get_node_None)
  have nodes: "get_node ?st s \<noteq> None" "get_node ?st (n_id node) \<noteq> None"
    using assms(3,5) by (auto simp: get_node_def find_None_iff)
  have ends: "\<forall>e \<in> set (ds_edges st). e_source e \<noteq> n_id node \<and> e_target e \<noteq> n_id node"
  proof -
    have "\<forall>e \<in> set (ds_edges st). e_source e \<in> n_id ` set (ds_nodes st) \<and> e_target e \<in> n_id ` set (ds_nodes st)"
      using assms(1) by (simp add: store_ok_def list_all_iff)
    with assms(4) show ?thesis by metis
  qed
  have "(n_id node, s) \<notin> (set (arcs (ds_edges st)))\<^sup>+"
    using ends by (auto simp: arcs_def dest!: tranclD)
  then have "\<not> would_create_cycle ?st s (n_id node)"
    by (simp add: would_create_cycle_def set_reach_plus)
  moreover have "\<not> edge_exists ?st s (n_id node) (ae_type op)"
    using ends by (auto simp: edge_exists_def list_ex_iff)
  moreover have "s \<noteq> n_id node" using s assms(4) by blast
  moreover obtain x y where "get_node ?st s = Some x" "get_node ?st (n_id node) = Some y"
    using nodes by blast
  moreover define e where "e = \<lparr>e_id = ''e_'' @ new_sortable_id ids, e_source = s, e_target = n_id node,
      e_type = ae_type op, e_created_turn = Some turn_id, e_created_by = src, e_created_at = now\<rparr>"
  ultimately have "insert_edge op temp turn_id src now ids ?st
      = Inr (Some (e_id e), st\<lparr>ds_nodes := ds_nodes st @ [node], ds_edges := ds_edges st @ [e]\<rparr>)"
    using assms(2,6,7,8) by (simp add: insert_edge_def Let_def default_to_def)
  then show ?thesis by (intro exI [of _ e]) (simp add: e_def)
qed

lemma sides_checked:
  assumes "sides_ok i st" and "store_ok st" and "store_ok st'" and "ds_session st' = ds_session st"
    and "ds_nodes st' = ds_nodes st @ ns" and "ds_edges st' = ds_edges st @ [e]" and "e_type e \<noteq> SideBranch"
  shows "foldE (\<lambda>_ e. check_side_branch_edge (read_nodes st') i None e) ()
          (filter (\<lambda>e. e_type e = SideBranch) (read_edges st')) = Inr ()"
proof -
  have kept: "get_node st' j = Some n" if "get_node st j = Some n" for j n
    using that assms(4,5) by (auto simp: get_node_def find_append split: option.splits)
  show ?thesis
    unfolding foldE_unit_eq
  proof
    fix d
    assume "d \<in> set (filter (\<lambda>e. e_type e = SideBranch) (read_edges st'))"
    with assms(6,7) have "d \<in> set (ds_edges st)" "e_type d = SideBranch" by auto
    with assms(1) obtain src trg where "get_node st (e_source d) = Some src" "get_node st (e_target d) = Some trg"
      "truthy (n_goal_id src)" "n_kind src = KTask" "n_kind trg \<noteq> KTask" "e_created_turn d \<noteq> Some i"
      by (fastforce simp: sides_ok_def list_all_iff split: option.splits)
    with kept show "check_side_branch_edge (read_nodes st') i None d = Inr ()"
      by (simp add: check_side_branch_edge_def find_node_def find_read_nodes [OF assms(3)] throw_if_def)
  qed
qed

lemma open_tasks_child:
  assumes "store_ok st" and "store_ok st'" and "ds_nodes st' = ds_nodes st @ [node]" and "n_kind node \<noteq> KTask"
  shows "length (open_tasks st') = length (open_tasks st)"
  using assms by (simp add: length_open_tasks is_open_task_def)

text \<open>What a patch does that adds one child and links it to a node of the session.\<close>

lemma child_patch_applies:
  assumes ok: "store_ok st" "children_reachable st" "length (open_tasks st) \<le> 1" "sides_ok (t_id turn) st" "fresh_env env st"
    and turn: "t_start turn < t_end turn" "turn_goal turn = None"
    and op: "a_kind a \<noteq> KTask" "0 \<le> a_importance a" "a_importance a \<le> 100"
    and edge: "ae_target e = a_temp_id a" "ae_source e \<noteq> a_temp_id a" "get_node st (ae_source e) \<noteq> None"
      "ae_type e = Decomposes \<or> ae_type e = Continues"
  shows "\<exists>s. apply_patch (turn_to_input turn) [AddNode a, AddEdge e] mode src env st = Inr s \<and> as_tasks s = []
     \<and> as_children s = [''n_'' @ new_sortable_id (pe_ids env 0)]"
proof -
  let ?turn = "turn_to_input turn" and ?src = "default_to src (build_source mode)"
  let ?i = "''n_'' @ new_sortable_id (pe_ids env 0)"
  have ti [simp]: "ti_goal ?turn = None" "ti_start ?turn = t_start turn" "ti_end ?turn = t_end turn" "ti_id ?turn = t_id turn"
    using turn(2) by (simp_all add: turn_to_input_def)
  have "\<exists>st1. upsert_turn (pe_upsert_at env) ?turn st = Inr st1"
    using turn(1) by (simp add: upsert_turn_def)
  then obtain st1 where st1: "upsert_turn (pe_upsert_at env) ?turn st = Inr st1" ..
  have frame: "ds_nodes st1 = ds_nodes st" "ds_edges st1 = ds_edges st" "ds_session st1 = ds_session st"
    using upsert_turn_frame [OF st1] by auto
  have ok1: "store_ok st1" by (rule upsert_turn_ok [OF ok(1) st1])
  have fresh: "?i \<notin> n_id ` set (ds_nodes st1)" "''e_'' @ new_sortable_id (pe_ids env 1) \<notin> e_id ` set (ds_edges st1)"
    using ok(5) frame by (auto simp: fresh_env_def)
  obtain node where node: "insert_node a ?turn ?src (pe_now env) (pe_ids env 0) st1 = Inr (?i, st1\<lparr>ds_nodes := ds_nodes st1 @ [node]\<rparr>)"
      "n_id node = ?i" "n_kind node = a_kind a" "n_session_key node = ds_session st1"
    using insert_child [OF fresh(1) op, of ?turn ?src "pe_now env"] turn(1) by auto
  have source: "get_node st1 (ae_source e) \<noteq> None"
    using edge(3) frame by (simp add: get_node_def)
  obtain d where d: "insert_edge e [a_temp_id a \<mapsto> ?i] (t_id turn) ?src (pe_now env) (pe_ids env 1) (st1\<lparr>ds_nodes := ds_nodes st1 @ [node]\<rparr>)
        = Inr (Some (e_id d), st1\<lparr>ds_nodes := ds_nodes st1 @ [node], ds_edges := ds_edges st1 @ [d]\<rparr>)"
      "e_source d = ae_source e" "e_target d = ?i" "e_type d = ae_type e"
    using insert_edge_into_new [OF ok1 fresh(2) source _ node(4), of "[a_temp_id a \<mapsto> ?i]" e "t_id turn" ?src "pe_now env"]
      fresh(1) node(2) edge by (auto simp: default_to_def)
  define st2 where "st2 = st1\<lparr>ds_nodes := ds_nodes st1 @ [node], ds_edges := ds_edges st1 @ [d]\<rparr>"
  define s1 where "s1 = \<lparr>as_store = st2, as_temp = [a_temp_id a \<mapsto> ?i], as_edges = [e_id d], as_children = [?i],
      as_tasks = [], as_next = 2\<rparr>"
  let ?s0 = "\<lparr>as_store = st1, as_temp = Map.empty, as_edges = [], as_children = [], as_tasks = [], as_next = 0\<rparr>"
  have fold: "foldE (apply_op ?turn ?src env) ?s0 [AddNode a, AddEdge e] = Inr s1"
    using node(1) d(1) op(1) by (simp add: apply_op_def Let_def s1_def st2_def)
  have ok2: "store_ok st2" using apply_ops_step [OF fold] ok1 by (simp add: s1_def)
  have arcs: "(ae_source e, ?i) \<in> arcs_of (ds_edges st2)" "arcs_of (ds_edges st) \<subseteq> arcs_of (ds_edges st2)"
    using d frame by (auto simp: st2_def arcs_of_def)
  obtain row where row: "row \<in> set (ds_nodes st)" "n_id row = ae_source e"
    using edge(3) by (auto dest: get_nodeD)
  have "\<exists>t \<in> set (ds_nodes st). n_kind t = KTask \<and> (n_id t, ae_source e) \<in> (arcs_of (ds_edges st))\<^sup>*"
  proof (cases "n_kind row = KTask")
    case True
    with row show ?thesis by auto
  next
    case False
    with ok(2) row have "ae_source e \<in> set (reachable_from_tasks (read_nodes st) (read_edges st))"
      by (auto simp: children_reachable_def list_all_iff)
    with ok(1) show ?thesis by (simp add: set_reachable)
  qed
  then obtain t where "t \<in> set (ds_nodes st2)" "n_kind t = KTask" "(n_id t, ?i) \<in> (arcs_of (ds_edges st2))\<^sup>*"
    using arcs rtrancl_mono [OF arcs(2)] frame by (auto simp: st2_def intro: rtrancl_into_rtrancl)
  then have "?i \<in> set (reachable_from_tasks (read_nodes st2) (read_edges st2))"
    using ok2 by (auto simp: set_reachable)
  then have reach: "assert_added_child_nodes_reachable [?i] st2 = Inr ()"
    by (simp add: assert_added_child_nodes_reachable_def Let_def)
  have "length (open_tasks st2) \<le> 1"
    using open_tasks_child [OF ok(1) ok2] node(3) op(1) ok(3) frame by (simp add: st2_def)
  then have integrity: "assert_task_transition_integrity r [] st2 = Inr ()" for r
    by (simp add: assert_task_transition_integrity_def open_tasks_def Let_def)
  have "foldE (\<lambda>_ e. check_side_branch_edge (read_nodes st2) (t_id turn) None e) ()
          (filter (\<lambda>e. e_type e = SideBranch) (read_edges st2)) = Inr ()"
    using edge(4) d(4) frame
    by (intro sides_checked [OF ok(4) ok(1) ok2, where ns = "[node]" and e = d]) (auto simp: st2_def)
  then have boundary: "assert_goal_boundary ?turn r [] goal_at st2 = Inr st2" for r goal_at
    by (simp add: assert_goal_boundary_def check_cleared_goal_def Let_def split: option.split)
  have "check_goal_ops ?turn r ops = Inr ()" for r ops
    by (simp add: check_goal_ops_def)
  then show ?thesis
    using st1 fold reach integrity boundary
    by (simp add: apply_patch_def Let_def s1_def)
qed


lemma edges_known:
  "store_ok st \<Longrightarrow> e \<in> set (ds_edges st) \<Longrightarrow> e_source e \<in> n_id ` set (ds_nodes st) \<and> e_target e \<in> n_id ` set (ds_nodes st)"
  by (simp add: store_ok_def list_all_iff)

lemma insert_edge_targets:
  "insert_edge op temp turn_id src now ids st = Inr (r, st') \<Longrightarrow>
     \<forall>d \<in> set (ds_edges st'). d \<in> set (ds_edges st) \<or> e_target d = default_to (temp (ae_target op)) (ae_target op)"
  by (auto simp: insert_edge_def Let_def error_simps split: if_splits)

text \<open>
  When every task of the session is frozen, the deterministic patch never commits: it adds a new
  task without the edge from the frozen root that the store demands.
\<close>

theorem fallback_frozen_stuck:
  assumes "store_ok st" and "existing_task (read_nodes st) = None" and "select_root_task (read_nodes st) = Some r"
  shows "\<exists>e. apply_deterministic_fallback ft env turn st = Inl e"
proof (rule ccontr)
  let ?turn = "turn_to_input turn"
  assume "\<not> ?thesis"
  moreover obtain a b where ops: "fallback_ops ft turn (read_nodes st) = [AddNode a, AddNode b,
      AddEdge \<lparr>ae_source = ''fallback_task'', ae_target = ''fallback_subtask'', ae_type = Decomposes\<rparr>]"
    and ab: "a_kind a = KTask" "a_temp_id a = ''fallback_task''" "a_kind b = KSubtask" "a_temp_id b = ''fallback_subtask''"
    using assms(2)
    by (simp add: fallback_ops_def must_create_task_def continues_goal_def new_task_ops_def subtask_op_def Let_def split: option.split)
  ultimately obtain s where run: "apply_patch ?turn [AddNode a, AddNode b,
      AddEdge \<lparr>ae_source = ''fallback_task'', ae_target = ''fallback_subtask'', ae_type = Decomposes\<rparr>]
      DeterministicFallback (Some ByFallback) env st = Inr s"
    by (cases "apply_deterministic_fallback ft env turn st")
      (auto simp: apply_deterministic_fallback_def read_graph_for_history_dag_def Let_def)
  from run assms(1) show False
  proof (rule apply_patchE)
    fix st1 s1 st2
    assume up: "upsert_turn (pe_upsert_at env) ?turn st = Inr st1"
      and fold: "foldE (apply_op ?turn (default_to (Some ByFallback) (build_source DeterministicFallback)) env)
         \<lparr>as_store = st1, as_temp = Map.empty, as_edges = [], as_children = [], as_tasks = [], as_next = 0\<rparr>
         [AddNode a, AddNode b, AddEdge \<lparr>ae_source = ''fallback_task'', ae_target = ''fallback_subtask'', ae_type = Decomposes\<rparr>] = Inr s1"
      and integrity: "assert_task_transition_integrity (map_option n_id (select_root_task (read_nodes st))) (as_tasks s1) (as_store s1) = Inr ()"
    have ok1: "store_ok st1" by (rule upsert_turn_ok [OF assms(1) up])
    obtain i j n m r2 st' where n: "i \<notin> n_id ` set (ds_nodes st1)" "n_id n = i" and m: "j \<notin> n_id ` set (ds_nodes (st1\<lparr>ds_nodes := ds_nodes st1 @ [n]\<rparr>))"
      and e: "insert_edge \<lparr>ae_source = ''fallback_task'', ae_target = ''fallback_subtask'', ae_type = Decomposes\<rparr>
          [''fallback_task'' \<mapsto> i, ''fallback_subtask'' \<mapsto> j] (ti_id ?turn) (default_to (Some ByFallback) (build_source DeterministicFallback))
          (pe_now env) (pe_ids env 2) (st1\<lparr>ds_nodes := (ds_nodes st1 @ [n]) @ [m]\<rparr>) = Inr (r2, st')"
      and s1: "as_store s1 = st'" "as_tasks s1 = [i]"
      using fold ab
      by (auto simp: apply_op_def error_simps Let_def numeral_2_eq_2 elim!: insert_nodeE split: option.splits)
    have "j \<noteq> i" using m n(2) by auto
    moreover have "e_target d \<noteq> i" if "d \<in> set (ds_edges st1)" for d
      using edges_known [OF ok1 that] n(1) by metis
    ultimately have "filter (\<lambda>e. e_target e = i) (read_edges st') = []"
      using insert_edge_targets [OF e] by (auto simp: filter_empty_conv default_to_def)
    with integrity s1 assms(3) show False
      by (auto simp: assert_task_transition_integrity_def Let_def error_simps split: option.splits)
  qed
qed

section \<open>What the answer of the model can change\<close>

lemma normalize_updates:
  assumes "normalize_dag_task_transition ops ctx goal = Inr ops'" and "u \<in> set (node_updates ops')"
  shows "u_node_id u \<in> u_node_id ` set (node_updates ops) \<union> c_id ` set (dc_nodes ctx)"
  using assms(1)
proof (cases rule: normalize_cases)
  case (same g rt)
  then have "rt \<in> set (dc_nodes ctx)" by (auto simp: context_root_task_def find_Some_iff split: option.splits)
  with same(5) assms(2) show ?thesis
    by (auto simp: normalize_same_goal_def error_simps Let_def empty_update_def split: if_splits)
next
  case (switch a r)
  from switch(3) show ?thesis
  proof (rule switch_taskE)
    fix rt task_edges root_updates explicit st ty upd
    assume rt: "find (\<lambda>n. c_id n = r) (dc_nodes ctx) = Some rt"
      and upd: "upd = (if explicit \<noteq> [] \<or> \<not> is_terminal_task_status (c_status rt)
         then [UpdateNode ((merge_root_updates r root_updates)\<lparr>u_status := Some st\<rparr>)]
         else if root_updates \<noteq> [] then [UpdateNode (merge_root_updates r root_updates)] else [])"
      and ops': "ops' = upd @ filter (\<lambda>op. \<not> is_add_edge op \<and> \<not> is_update_of r op) ops
               @ filter (\<lambda>op. is_add_edge op \<and> \<not> is_task_edge_op ctx ops (a_temp_id a) op) ops
               @ [AddEdge \<lparr>ae_source = r, ae_target = a_temp_id a, ae_type = ty\<rparr>]"
    have "r \<in> c_id ` set (dc_nodes ctx)" using rt by (auto simp: find_Some_iff)
    with assms(2) show ?thesis by (auto simp: ops' upd op_filter_simps split: if_splits)
  qed
next
  case none
  with assms(2) show ?thesis by blast
qed

lemma apply_op_keeps_row:
  assumes "apply_op turn src env s op = Inr s'" and "store_ok (as_store s)"
    and "n \<in> set (ds_nodes (as_store s))" and "\<And>u. op = UpdateNode u \<Longrightarrow> u_node_id u \<noteq> n_id n"
  shows "n \<in> set (ds_nodes (as_store s'))"
proof (cases op)
  case (AddNode a)
  with assms(1) obtain i st where ins: "insert_node a turn src (pe_now env) (pe_ids env (as_next s)) (as_store s) = Inr (i, st)"
    and st: "as_store s' = st"
    by (auto simp: apply_op_def error_simps Let_def)
  from ins obtain m where "st = (as_store s)\<lparr>ds_nodes := ds_nodes (as_store s) @ [m]\<rparr>" by (rule insert_nodeE)
  with st assms(3) show ?thesis by simp
next
  case (UpdateNode u)
  with assms(1) have "update_node u turn src (pe_now env) (as_store s) = Inr (as_store s')"
    by (auto simp: apply_op_def error_simps)
  then obtain f where "as_store s' = update_row (u_node_id u) f (as_store s)"
    using assms(2) by (rule update_nodeE)
  with assms(3) assms(4) [OF UpdateNode] show ?thesis by (auto simp: update_row_def intro!: image_eqI [of _ _ n])
next
  case (AddEdge e)
  with assms(1) obtain r st where
    ins: "insert_edge e (as_temp s) (ti_id turn) src (pe_now env) (pe_ids env (as_next s)) (as_store s) = Inr (r, st)"
    and st: "as_store s' = st"
    by (auto simp: apply_op_def error_simps split: option.splits)
  from ins assms(3) st show ?thesis by (cases rule: insert_edgeE) auto
qed

lemma apply_ops_keep_row:
  assumes "foldE (apply_op turn src env) s ops = Inr s'" and "store_ok (as_store s)"
    and "n \<in> set (ds_nodes (as_store s))" and "n_id n \<notin> u_node_id ` set (node_updates ops)"
  shows "n \<in> set (ds_nodes (as_store s'))"
proof -
  have "store_ok (as_store s') \<and> n \<in> set (ds_nodes (as_store s'))"
  proof (rule foldE_invariant [OF assms(1)])
    fix t op t'
    assume "op \<in> set ops" "store_ok (as_store t) \<and> n \<in> set (ds_nodes (as_store t))" "apply_op turn src env t op = Inr t'"
    moreover from this(1) assms(4) have "\<And>u. op = UpdateNode u \<Longrightarrow> u_node_id u \<noteq> n_id n" by force
    ultimately show "store_ok (as_store t') \<and> n \<in> set (ds_nodes (as_store t'))"
      using apply_op_step apply_op_keeps_row by blast
  qed (use assms(2,3) in simp)
  then show ?thesis ..
qed

lemma build_and_applyE:
  assumes "build_and_apply b session env turn st = Inr s"
  obtains parsed validated patch where
    "validate_dag_patch parsed (context_kinds (read_builder_context (bu_max_nodes b) st)) = Inr validated"
    "normalize_dag_task_transition validated (read_builder_context (bu_max_nodes b) st) (turn_goal turn) = Inr patch"
    "apply_patch (turn_to_input turn) patch LlmPatch (Some ByLlmPatch) env st = Inr s"
  using assms
  by (auto simp: build_and_apply_def Let_def error_simps split: option.splits)


end
