(* ===== verification/Dag_Queue.thy ===== *)
theory Dag_Queue
  imports Dag_Builder
begin

text \<open>
  The queue of a session's turns (\<open>session-dag/queue.ts\<close>). Each event of the class is a function of
  its state: a turn is enqueued, the queue wakes, its worker claims a turn, the building of the
  claimed turn ends, the retry timer fires, the queue is closed. While a turn is built the other
  events interleave, so the claimed turn is a field of the state. The slots that all workers share
  are a small machine of their own.
\<close>

section \<open>Retries\<close>

definition retry_delay_ms :: "int list \<Rightarrow> nat \<Rightarrow> int" where
  "retry_delay_ms backoff attempt_count =
     (let idx = nat (max 0 (min (int attempt_count) (int (length backoff) - 1)))
      in if idx < length backoff then backoff ! idx else 90000)"

lemma retry_delay_ms_in: "backoff \<noteq> [] \<Longrightarrow> retry_delay_ms backoff n \<in> set backoff"
  by (auto simp: retry_delay_ms_def Let_def nat_less_iff intro!: nth_mem)

record queue_config =
  qc_backoff :: "int list"
  qc_max_attempts :: nat

section \<open>The state and its events\<close>

record dag_queue =
  dq_store :: dag_store
  dq_running :: bool
  dq_current :: "dag_turn option"
  dq_returned :: bool
  dq_closed :: bool
  dq_store_closed :: bool
  dq_timer :: "int option"

definition q_wake :: "dag_queue \<Rightarrow> dag_queue" where
  "q_wake q =
     (if dq_closed q then q
      else (let q' = q\<lparr>dq_timer := None\<rparr> in if dq_running q' then q' else q'\<lparr>dq_running := True, dq_current := None, dq_returned := False\<rparr>))"

definition q_enqueue :: "int \<Rightarrow> turn_input \<Rightarrow> dag_queue \<Rightarrow> store_error + dag_queue" where
  "q_enqueue now turn q =
     (if dq_closed q then Inr q
      else bindE (upsert_turn now turn (dq_store q)) (\<lambda>st. Inr (q_wake (q\<lparr>dq_store := st\<rparr>))))"

definition schedule_retry :: "int \<Rightarrow> dag_queue \<Rightarrow> dag_queue" where
  "schedule_retry deadline q = (if dq_closed q then q else q\<lparr>dq_timer := Some deadline\<rparr>)"

definition close_store :: "dag_queue \<Rightarrow> dag_queue" where
  "close_store q = q\<lparr>dq_store_closed := True\<rparr>"

text \<open>The loop of the worker returns; the \<open>finally\<close> of \<open>wake\<close> runs some microtasks later.\<close>

definition worker_returns :: "dag_queue \<Rightarrow> dag_queue" where
  "worker_returns q = q\<lparr>dq_current := None, dq_returned := True\<rparr>"

definition worker_ends :: "dag_queue \<Rightarrow> dag_queue" where
  "worker_ends q = (let q' = q\<lparr>dq_running := False, dq_returned := False\<rparr> in if dq_closed q' then close_store q' else q')"

text \<open>The earliest deadline of the turns that wait for a retry.\<close>

fun earliest :: "int option list \<Rightarrow> int option" where
  "earliest [] = None"
| "earliest (None # ds) = earliest ds"
| "earliest (Some d # ds) = (case earliest ds of None \<Rightarrow> Some d | Some e \<Rightarrow> Some (min d e))"

definition next_retry_at :: "dag_store \<Rightarrow> int option" where
  "next_retry_at st = earliest (map t_next_retry (list_turns st [TRetry]))"

definition q_claim :: "int \<Rightarrow> dag_queue \<Rightarrow> dag_queue" where
  "q_claim now q =
     (if dq_closed q then worker_returns q
      else case claim_next_turn now (dq_store q) of
        (Some turn, st) \<Rightarrow> q\<lparr>dq_store := st, dq_current := Some turn\<rparr>
      | (None, st) \<Rightarrow>
          (let q' = q\<lparr>dq_store := st\<rparr> in
           worker_returns (case next_retry_at st of None \<Rightarrow> q' | Some d \<Rightarrow> schedule_retry (max d now) q')))"

text \<open>The building of the claimed turn ends: committed, or failed with a message; after the last
  attempt the deterministic patch is tried.\<close>

datatype outcome = Committed dag_store | Failed string

definition q_built :: "queue_config \<Rightarrow> int \<Rightarrow> outcome \<Rightarrow> outcome \<Rightarrow> dag_queue \<Rightarrow> dag_queue" where
  "q_built cfg now built fallback q =
     (case dq_current q of
        None \<Rightarrow> q
      | Some turn \<Rightarrow>
         (case built of
            Committed st \<Rightarrow> q\<lparr>dq_store := st, dq_current := None\<rparr>
          | Failed message \<Rightarrow>
              if t_attempts turn + 1 < qc_max_attempts cfg then
                (let deadline = now + retry_delay_ms (qc_backoff cfg) (t_attempts turn) in
                 worker_returns (schedule_retry deadline
                   (q\<lparr>dq_store := mark_turn_retry now (t_id turn) message deadline (dq_store q)\<rparr>)))
              else
               (case fallback of
                  Committed st \<Rightarrow> q\<lparr>dq_store := st, dq_current := None\<rparr>
                | Failed message \<Rightarrow>
                   (let deadline = now + retry_delay_ms (qc_backoff cfg) 0 in
                    worker_returns (schedule_retry deadline
                      (q\<lparr>dq_store := mark_turn_blocked now (t_id turn) message (Some deadline) (dq_store q)\<rparr>))))))"

definition q_timer :: "dag_queue \<Rightarrow> dag_queue" where
  "q_timer q = q_wake (q\<lparr>dq_timer := None\<rparr>)"

definition q_close :: "dag_queue \<Rightarrow> dag_queue" where
  "q_close q = (let q' = q\<lparr>dq_closed := True, dq_timer := None\<rparr> in if \<not> dq_running q' then close_store q' else q')"

definition has_processed_through :: "string \<Rightarrow> dag_store \<Rightarrow> bool" where
  "has_processed_through turn_id st =
     (case get_turn st turn_id of
        None \<Rightarrow> False
      | Some target \<Rightarrow>
         (case get_meta st ''last_processed_turn_id'' of
            None \<Rightarrow> False
          | Some i \<Rightarrow>
              (case if i = [] then None else get_turn st i of
                 None \<Rightarrow> False
               | Some processed \<Rightarrow> t_end processed \<ge> t_end target)))"

definition has_blocked_before_or_at :: "string \<Rightarrow> dag_store \<Rightarrow> bool" where
  "has_blocked_before_or_at turn_id st =
     (case get_turn st turn_id of
        None \<Rightarrow> False
      | Some target \<Rightarrow> list_ex (\<lambda>turn. t_start turn \<le> t_start target) (list_turns st [TBlocked]))"

section \<open>The contract of the builder\<close>

text \<open>
  What the queue relies on: a commit marks the turn as done and last processed, and leaves the other
  rows of the table of turns alone.
\<close>

definition turns_done :: "string \<Rightarrow> dag_store \<Rightarrow> dag_store \<Rightarrow> bool" where
  "turns_done i st st' \<longleftrightarrow>
     map t_id (ds_turns st') = map t_id (ds_turns st)
     \<and> list_all2 (\<lambda>t t'. if t_id t = i then t_status t' = TDone \<and> t_attempts t' = t_attempts t else t' = t) (ds_turns st) (ds_turns st')"

locale turn_builder =
  fixes commits :: "dag_turn \<Rightarrow> dag_store \<Rightarrow> dag_store \<Rightarrow> bool"
  assumes commits_done: "commits turn st st' \<Longrightarrow> t_id turn \<in> t_id ` set (ds_turns st) \<Longrightarrow> turns_done (t_id turn) st st'"

text \<open>
  The events, with outcomes that some builder can have. \<open>race\<close> says whether the queue may be woken
  between the return of the worker's loop and its \<open>finally\<close>.
\<close>

inductive queue_step ::
  "bool \<Rightarrow> (dag_turn \<Rightarrow> dag_store \<Rightarrow> dag_store \<Rightarrow> bool) \<Rightarrow> queue_config \<Rightarrow> dag_queue \<Rightarrow> dag_queue \<Rightarrow> bool"
  for race :: bool and commits :: "dag_turn \<Rightarrow> dag_store \<Rightarrow> dag_store \<Rightarrow> bool" and cfg :: queue_config where
  enqueue: "race \<or> \<not> dq_returned q \<Longrightarrow> q_enqueue now turn q = Inr q' \<Longrightarrow> queue_step race commits cfg q q'"
| wake: "race \<or> \<not> dq_returned q \<Longrightarrow> queue_step race commits cfg q (q_wake q)"
| claim: "dq_running q \<Longrightarrow> dq_current q = None \<Longrightarrow> \<not> dq_returned q \<Longrightarrow> queue_step race commits cfg q (q_claim now q)"
| built: "dq_running q \<Longrightarrow> dq_current q = Some turn \<Longrightarrow>
     (\<And>st. built = Committed st \<Longrightarrow> commits turn (dq_store q) st) \<Longrightarrow>
     (\<And>st. fallback = Committed st \<Longrightarrow> commits turn (dq_store q) st) \<Longrightarrow>
     queue_step race commits cfg q (q_built cfg now built fallback q)"
| ended: "dq_running q \<Longrightarrow> dq_returned q \<Longrightarrow> queue_step race commits cfg q (worker_ends q)"
| timer: "dq_timer q \<noteq> None \<Longrightarrow> \<not> dq_returned q \<Longrightarrow> queue_step race commits cfg q (q_timer q)"
| close: "queue_step race commits cfg q (q_close q)"

section \<open>Turns of the table\<close>

definition undone :: "dag_store \<Rightarrow> nat" where
  "undone st = length (filter (\<lambda>t. t_status t \<noteq> TDone) (ds_turns st))"

lemma get_turn_eq: "distinct (map t_id (ds_turns st)) \<Longrightarrow> t \<in> set (ds_turns st) \<Longrightarrow> get_turn st (t_id t) = Some t"
proof -
  assume d: "distinct (map t_id (ds_turns st))" and t: "t \<in> set (ds_turns st)"
  have "find (\<lambda>u. t_id u = t_id t) ts = Some t" if "distinct (map t_id ts)" "t \<in> set ts" for ts
    using that by (induction ts) force+
  from this [OF d t] show ?thesis by (simp add: get_turn_def)
qed

lemma get_turnD: "get_turn st i = Some t \<Longrightarrow> t \<in> set (ds_turns st) \<and> t_id t = i"
  by (auto simp: get_turn_def dest: find_SomeD)

text \<open>Claiming: which rows change, and what the claimed row is.\<close>

lemma claim_next_turn_cases:
  assumes "distinct (map t_id (ds_turns st))"
  obtains (none) st' where "claim_next_turn now st = (None, st')" "ds_turns st' = map (release_running now) (ds_turns st)"
      "\<forall>t \<in> set (ds_turns st'). \<not> claimable now t"
  | (some) row st' where "claim_next_turn now st = (Some (row\<lparr>t_status := TRunning, t_running_at := Some now, t_updated_at := now\<rparr>), st')"
      "row \<in> release_running now ` set (ds_turns st)" "claimable now row"
      "ds_turns st' = map (\<lambda>t. if t_id t = t_id row then t\<lparr>t_status := TRunning, t_running_at := Some now, t_updated_at := now\<rparr> else t)
          (map (release_running now) (ds_turns st))"
proof -
  define rel where "rel = map (release_running now) (ds_turns st)"
  have ids: "distinct (map t_id rel)" using assms by (simp add: rel_def comp_def)
  show ?thesis
  proof (cases "sort_cmp cmp_turn_start (filter (claimable now) rel)")
    case Nil
    then have "\<forall>t \<in> set rel. \<not> claimable now t"
      by (simp add: filter_empty_conv)
    with Nil show ?thesis by (intro none [of "st\<lparr>ds_turns := rel\<rparr>"]) (simp_all add: claim_next_turn_def rel_def Let_def)
  next
    case (Cons row rest)
    then have "row \<in> set (filter (claimable now) rel)"
      by (metis list.set_intros(1) set_sort_cmp)
    then have row: "row \<in> set rel" "claimable now row" by simp_all
    define run where "run = (\<lambda>t :: dag_turn. t\<lparr>t_status := TRunning, t_running_at := Some now, t_updated_at := now\<rparr>)"
    define upd where "upd = (\<lambda>t :: dag_turn. if t_id t = t_id row then run t else t)"
    have [simp]: "t_id (run t) = t_id t" "t_id (upd t) = t_id t" for t by (simp_all add: run_def upd_def)
    have "run row \<in> set (map upd rel)" using row(1) by (force simp: upd_def)
    moreover have "distinct (map t_id (map upd rel))" using ids by (simp add: comp_def)
    ultimately have "get_turn (st\<lparr>ds_turns := map upd rel\<rparr>) (t_id row) = Some (run row)"
      using get_turn_eq [of "st\<lparr>ds_turns := map upd rel\<rparr>" "run row"] by simp
    with Cons have "claim_next_turn now st = (Some (run row), st\<lparr>ds_turns := map upd rel\<rparr>)"
      unfolding claim_next_turn_def Let_def update_turn_def rel_def run_def upd_def by simp
    with row show ?thesis by (intro some [of row "st\<lparr>ds_turns := map upd rel\<rparr>"]) (simp_all add: run_def upd_def rel_def)
  qed
qed

section \<open>The invariant of the queue\<close>

definition turn_inv :: "queue_config \<Rightarrow> dag_turn \<Rightarrow> bool" where
  "turn_inv cfg t \<longleftrightarrow> (t_attempts t = 0 \<or> t_attempts t < qc_max_attempts cfg)
     \<and> (t_status t = TPending \<longrightarrow> t_next_retry t = None)"

text \<open>The claimed turn has a running row with the same number of attempts.\<close>

definition current_row :: "dag_store \<Rightarrow> dag_turn \<Rightarrow> bool" where
  "current_row st t \<longleftrightarrow>
     list_ex (\<lambda>row. t_id row = t_id t \<and> t_status row = TRunning \<and> t_attempts row = t_attempts t) (ds_turns st)"

definition queue_inv :: "queue_config \<Rightarrow> dag_queue \<Rightarrow> bool" where
  "queue_inv cfg q \<longleftrightarrow>
     distinct (map t_id (ds_turns (dq_store q))) \<and> list_all (turn_inv cfg) (ds_turns (dq_store q))
     \<and> (case dq_current q of
          None \<Rightarrow> True
        | Some t \<Rightarrow> dq_running q \<and> \<not> dq_returned q \<and> current_row (dq_store q) t)"

definition awake :: "dag_queue \<Rightarrow> bool" where
  "awake q \<longleftrightarrow> dq_running q \<and> \<not> dq_returned q \<or> dq_closed q \<or> dq_timer q \<noteq> None \<or> undone (dq_store q) = 0"

lemma turn_inv_release [simp]: "turn_inv cfg t \<Longrightarrow> turn_inv cfg (release_running now t)"
  by (simp add: turn_inv_def release_running_def)

lemma turn_inv_run [simp]:
  "turn_inv cfg t \<Longrightarrow> turn_inv cfg (t\<lparr>t_status := TRunning, t_running_at := a, t_updated_at := b\<rparr>)"
  by (simp add: turn_inv_def)

lemma q_wake_store [simp]: "dq_store (q_wake q) = dq_store q"
  by (simp add: q_wake_def Let_def)

lemma q_wake_inv: "queue_inv cfg q \<Longrightarrow> queue_inv cfg (q_wake q)"
  by (auto simp: queue_inv_def q_wake_def Let_def split: option.splits)

lemma q_wake_awake: "\<not> dq_returned q \<Longrightarrow> awake (q_wake q)"
  by (auto simp: awake_def q_wake_def Let_def)

lemma upsert_rows:
  assumes "upsert_turn now turn st = Inr st'"
  shows "ds_turns st' = map (\<lambda>t. if t_id t = ti_id turn then refresh_turn now turn t else t) (ds_turns st)
       \<and> ti_id turn \<in> t_id ` set (ds_turns st)
     \<or> ds_turns st' = ds_turns st @ [new_turn now turn] \<and> ti_id turn \<notin> t_id ` set (ds_turns st)"
  using assms by (auto simp: upsert_turn_def update_turn_def split: if_splits)

lemma refresh_simps [simp]:
  "t_status (refresh_turn now turn t) = t_status t" "t_attempts (refresh_turn now turn t) = t_attempts t"
  "t_next_retry (refresh_turn now turn t) = t_next_retry t"
  "ti_id turn = t_id t \<Longrightarrow> t_id (refresh_turn now turn t) = t_id t"
  by (simp_all add: refresh_turn_def)

lemma q_enqueue_inv:
  assumes "queue_inv cfg q" and "q_enqueue now turn q = Inr q'"
  shows "queue_inv cfg q'"
proof (cases "dq_closed q")
  case True
  with assms show ?thesis by (simp add: q_enqueue_def)
next
  case False
  with assms(2) obtain st where st: "upsert_turn now turn (dq_store q) = Inr st" "q' = q_wake (q\<lparr>dq_store := st\<rparr>)"
    by (auto simp: q_enqueue_def error_simps)
  from upsert_rows [OF st(1)] have "queue_inv cfg (q\<lparr>dq_store := st\<rparr>)"
  proof
    define f where "f = (\<lambda>t :: dag_turn. if t_id t = ti_id turn then refresh_turn now turn t else t)"
    assume "ds_turns st = map (\<lambda>t. if t_id t = ti_id turn then refresh_turn now turn t else t) (ds_turns (dq_store q))
      \<and> ti_id turn \<in> t_id ` set (ds_turns (dq_store q))"
    then have *: "ds_turns st = map f (ds_turns (dq_store q))" by (simp add: f_def)
    have same: "t_id (f t) = t_id t" "turn_inv cfg (f t) = turn_inv cfg t" "t_status (f t) = t_status t"
      "t_attempts (f t) = t_attempts t" for t
      by (simp_all add: turn_inv_def f_def)
    have "map t_id (ds_turns st) = map t_id (ds_turns (dq_store q))"
      using * same(1) by simp
    moreover have "list_all (turn_inv cfg) (ds_turns st) = list_all (turn_inv cfg) (ds_turns (dq_store q))"
      using * same(2) by (simp add: list_all_iff)
    moreover have "current_row st t = current_row (dq_store q) t" for t
      using * same by (simp add: current_row_def list_ex_iff)
    ultimately show ?thesis using assms(1) by (simp add: queue_inv_def split: option.splits)
  next
    assume "ds_turns st = ds_turns (dq_store q) @ [new_turn now turn] \<and> ti_id turn \<notin> t_id ` set (ds_turns (dq_store q))"
    with assms(1) show ?thesis by (auto simp: queue_inv_def turn_inv_def new_turn_def current_row_def split: option.splits)
  qed
  with st(2) show ?thesis by (simp add: q_wake_inv)
qed

lemma earliest_None: "earliest ds = None \<longleftrightarrow> (\<forall>d \<in> set ds. d = None)"
  by (induction ds rule: earliest.induct) (auto split: option.splits)

lemma nothing_claimable:
  assumes "\<forall>t \<in> set (ds_turns st). \<not> claimable now t \<and> t_status t \<noteq> TRunning \<and> turn_inv cfg t" and "undone st \<noteq> 0"
  shows "next_retry_at st \<noteq> None"
proof -
  from assms(2) obtain t where t: "t \<in> set (ds_turns st)" "t_status t \<noteq> TDone"
    by (auto simp: undone_def filter_empty_conv)
  with assms(1) have "\<not> claimable now t" "t_status t \<noteq> TRunning" "t_status t = TPending \<longrightarrow> t_next_retry t = None"
    by (auto simp: turn_inv_def)
  with t(2) have "t_status t = TRetry \<and> t_next_retry t \<noteq> None"
    by (cases "t_status t"; cases "t_next_retry t") (simp_all add: claimable_def)
  with t(1) show ?thesis
    by (auto simp: next_retry_at_def earliest_None list_turns_def)
qed

lemma q_claim_inv:
  assumes "queue_inv cfg q" and "dq_running q" and "\<not> dq_returned q"
  shows "queue_inv cfg (q_claim now q)"
proof (cases "dq_closed q")
  case True
  with assms show ?thesis by (simp add: q_claim_def worker_returns_def queue_inv_def)
next
  case False
  from assms have d: "distinct (map t_id (ds_turns (dq_store q)))" by (simp add: queue_inv_def)
  from d show ?thesis
  proof (cases rule: claim_next_turn_cases [where now = now])
    case (none st')
    with assms False show ?thesis
      by (auto simp: q_claim_def Let_def worker_returns_def schedule_retry_def queue_inv_def comp_def list_all_iff split: option.splits)
  next
    case (some row st')
    then obtain t where t: "t \<in> set (ds_turns (dq_store q))" "row = release_running now t" by blast
    then have "row \<in> set (map (release_running now) (ds_turns (dq_store q)))" by simp
    then have "row\<lparr>t_status := TRunning, t_running_at := Some now, t_updated_at := now\<rparr> \<in> set (ds_turns st')"
      unfolding some(4) by (force simp: image_iff)
    then have row: "current_row st' (row\<lparr>t_status := TRunning, t_running_at := Some now, t_updated_at := now\<rparr>)"
      by (auto simp: current_row_def list_ex_iff intro: bexI [rotated])
    have "list_all (turn_inv cfg) (ds_turns st')"
      using assms by (auto simp: some(4) queue_inv_def list_all_iff)
    moreover have "distinct (map t_id (ds_turns st'))"
      using d by (simp add: some(4) comp_def if_distrib cong: if_cong)
    ultimately show ?thesis
      using False some(1) row assms(2,3) by (simp add: q_claim_def queue_inv_def)
  qed
qed

lemma q_claim_awake:
  assumes "queue_inv cfg q" and "dq_running q" and "\<not> dq_returned q"
  shows "awake (q_claim now q)"
proof (cases "dq_closed q")
  case True
  then show ?thesis by (simp add: q_claim_def worker_returns_def awake_def)
next
  case False
  from assms have "distinct (map t_id (ds_turns (dq_store q)))" by (simp add: queue_inv_def)
  then show ?thesis
  proof (cases rule: claim_next_turn_cases [where now = now])
    case (none st')
    have "\<forall>t \<in> set (ds_turns st'). \<not> claimable now t \<and> t_status t \<noteq> TRunning \<and> turn_inv cfg t"
      using none(2,3) assms(1) by (auto simp: queue_inv_def list_all_iff)
    then have "undone st' \<noteq> 0 \<Longrightarrow> next_retry_at st' \<noteq> None" by (rule nothing_claimable)
    with none(1) False show ?thesis
      by (auto simp: q_claim_def Let_def worker_returns_def schedule_retry_def awake_def split: option.splits)
  next
    case (some row st')
    with False assms show ?thesis by (simp add: q_claim_def awake_def)
  qed
qed

lemma mark_retry_rows:
  "ds_turns (mark_turn_retry now i msg deadline st) = map (\<lambda>t. if t_id t = i
     then t\<lparr>t_status := TRetry, t_attempts := t_attempts t + 1, t_running_at := None,
       t_next_retry := Some deadline, t_last_error := Some (take 2000 msg), t_updated_at := now\<rparr> else t) (ds_turns st)"
  by (simp add: mark_turn_retry_def update_turn_def)

lemma mark_blocked_rows:
  "ds_turns (mark_turn_blocked now i msg deadline st) = map (\<lambda>t. if t_id t = i
     then t\<lparr>t_status := TBlocked, t_running_at := None, t_next_retry := deadline,
       t_last_error := Some (take 2000 msg), t_updated_at := now\<rparr> else t) (ds_turns st)"
  by (simp add: mark_turn_blocked_def update_turn_def)

lemma undone_done:
  assumes "turns_done i st st'" and "row \<in> set (ds_turns st)" "t_id row = i" "t_status row \<noteq> TDone"
  shows "undone st' < undone st"
proof -
  have "length (filter (\<lambda>t. t_status t \<noteq> TDone) ts') \<le> length (filter (\<lambda>t. t_status t \<noteq> TDone) ts)
      \<and> (row \<in> set ts \<longrightarrow> length (filter (\<lambda>t. t_status t \<noteq> TDone) ts') < length (filter (\<lambda>t. t_status t \<noteq> TDone) ts))"
    if "list_all2 (\<lambda>t t'. if t_id t = i then t_status t' = TDone \<and> t_attempts t' = t_attempts t else t' = t) ts ts'" for ts ts'
    using that assms(3,4) by (induction rule: list_all2_induct) (auto split: if_splits)
  with assms(1,2) show ?thesis by (auto simp: undone_def turns_done_def)
qed

lemma turns_done_inv:
  assumes "turns_done i st st'" and "list_all (turn_inv cfg) (ds_turns st)"
  shows "list_all (turn_inv cfg) (ds_turns st')"
proof -
  have "list_all (turn_inv cfg) ts'"
    if "list_all2 (\<lambda>t t'. if t_id t = i then t_status t' = TDone \<and> t_attempts t' = t_attempts t else t' = t) ts ts'"
      "list_all (turn_inv cfg) ts" for ts ts'
    using that by (induction rule: list_all2_induct) (auto simp: turn_inv_def split: if_splits)
  with assms show ?thesis by (auto simp: turns_done_def)
qed

text \<open>How the building of a turn ends.\<close>

lemma q_built_cases:
  assumes "dq_current q = Some turn"
  obtains (committed) st where "q_built cfg now built fallback q = q\<lparr>dq_store := st, dq_current := None\<rparr>"
      "built = Committed st \<or> fallback = Committed st"
  | (retry) message deadline where "t_attempts turn + 1 < qc_max_attempts cfg"
      "q_built cfg now built fallback q = worker_returns (schedule_retry deadline
         (q\<lparr>dq_store := mark_turn_retry now (t_id turn) message deadline (dq_store q)\<rparr>))"
  | (blocked) message deadline where
      "q_built cfg now built fallback q = worker_returns (schedule_retry deadline
         (q\<lparr>dq_store := mark_turn_blocked now (t_id turn) message (Some deadline) (dq_store q)\<rparr>))"
proof (cases built)
  case (Committed st)
  then show ?thesis by (intro committed [of st]) (simp_all add: q_built_def assms)
next
  case failed: (Failed message)
  show ?thesis
  proof (cases "t_attempts turn + 1 < qc_max_attempts cfg")
    case True
    with failed show ?thesis by (intro retry [of "now + retry_delay_ms (qc_backoff cfg) (t_attempts turn)" message])
        (simp_all add: q_built_def assms Let_def)
  next
    case False
    show ?thesis
    proof (cases fallback)
      case (Committed st)
      with failed False show ?thesis by (intro committed [of st]) (simp_all add: q_built_def assms)
    next
      case (Failed message')
      with failed False show ?thesis by (intro blocked [of "now + retry_delay_ms (qc_backoff cfg) 0" message'])
          (simp_all add: q_built_def assms Let_def)
    qed
  qed
qed

lemma schedule_simps [simp]:
  "dq_store (schedule_retry d q) = dq_store q" "dq_running (schedule_retry d q) = dq_running q"
  "dq_closed (schedule_retry d q) = dq_closed q"
  by (simp_all add: schedule_retry_def)

lemma returns_simps [simp]:
  "dq_store (worker_returns q) = dq_store q" "dq_running (worker_returns q) = dq_running q"
  "dq_closed (worker_returns q) = dq_closed q" "dq_current (worker_returns q) = None" "dq_returned (worker_returns q)"
  "dq_timer (worker_returns q) = dq_timer q"
  by (simp_all add: worker_returns_def)

lemma mark_retry_inv:
  assumes "queue_inv cfg q" and "dq_current q = Some turn" and "t_attempts turn + 1 < qc_max_attempts cfg"
  shows "distinct (map t_id (ds_turns (mark_turn_retry now (t_id turn) message deadline (dq_store q))))
    \<and> list_all (turn_inv cfg) (ds_turns (mark_turn_retry now (t_id turn) message deadline (dq_store q)))"
proof
  from assms(1,2) obtain row where row: "row \<in> set (ds_turns (dq_store q))" "t_id row = t_id turn" "t_attempts row = t_attempts turn"
    by (auto simp: queue_inv_def current_row_def list_ex_iff)
  have d: "distinct (map t_id (ds_turns (dq_store q)))" using assms(1) by (simp add: queue_inv_def)
  then show "distinct (map t_id (ds_turns (mark_turn_retry now (t_id turn) message deadline (dq_store q))))"
    by (simp add: mark_retry_rows comp_def if_distrib cong: if_cong)
  have "t_attempts t + 1 < qc_max_attempts cfg" if "t \<in> set (ds_turns (dq_store q))" "t_id t = t_id turn" for t
    using that row assms(3) d by (metis get_turn_eq option.inject)
  with assms(1) show "list_all (turn_inv cfg) (ds_turns (mark_turn_retry now (t_id turn) message deadline (dq_store q)))"
    by (auto simp: mark_retry_rows queue_inv_def list_all_iff turn_inv_def)
qed

lemma mark_blocked_inv:
  assumes "queue_inv cfg q"
  shows "distinct (map t_id (ds_turns (mark_turn_blocked now i message deadline (dq_store q))))
    \<and> list_all (turn_inv cfg) (ds_turns (mark_turn_blocked now i message deadline (dq_store q)))"
proof
  show "distinct (map t_id (ds_turns (mark_turn_blocked now i message deadline (dq_store q))))"
    using assms by (simp add: queue_inv_def mark_blocked_rows comp_def if_distrib cong: if_cong)
  show "list_all (turn_inv cfg) (ds_turns (mark_turn_blocked now i message deadline (dq_store q)))"
    using assms by (auto simp: mark_blocked_rows queue_inv_def list_all_iff turn_inv_def)
qed

context turn_builder
begin

lemma built_inv:
  assumes "queue_inv cfg q" and "dq_current q = Some turn"
    and "\<And>st. built = Committed st \<Longrightarrow> commits turn (dq_store q) st"
    and "\<And>st. fallback = Committed st \<Longrightarrow> commits turn (dq_store q) st"
  shows "queue_inv cfg (q_built cfg now built fallback q)"
  using assms(2)
proof (cases rule: q_built_cases [where cfg = cfg and now = now and built = built and fallback = fallback])
  case (committed st)
  then have "commits turn (dq_store q) st" using assms(3,4) by blast
  moreover have "t_id turn \<in> t_id ` set (ds_turns (dq_store q))"
  proof -
    from assms(1,2) have "current_row (dq_store q) turn" by (simp add: queue_inv_def)
    then obtain row where "row \<in> set (ds_turns (dq_store q))" "t_id row = t_id turn" by (auto simp: current_row_def list_ex_iff)
    then show ?thesis by (metis image_eqI)
  qed
  ultimately have marked: "turns_done (t_id turn) (dq_store q) st" by (rule commits_done)
  with committed(1) turns_done_inv [OF marked] assms(1) marked show ?thesis
    by (simp add: queue_inv_def turns_done_def)
next
  case (retry message deadline)
  then show ?thesis using mark_retry_inv [OF assms(1,2) retry(1)] by (simp add: queue_inv_def)
next
  case (blocked message deadline)
  then show ?thesis using mark_blocked_inv [OF assms(1)] by (simp add: queue_inv_def)
qed

lemma built_awake:
  assumes "queue_inv cfg q" and "dq_current q = Some turn"
  shows "awake (q_built cfg now built fallback q)"
  using assms(2)
proof (cases rule: q_built_cases [where cfg = cfg and now = now and built = built and fallback = fallback])
  case (committed st)
  with assms show ?thesis by (auto simp: awake_def queue_inv_def)
qed (auto simp: awake_def schedule_retry_def worker_returns_def)

lemma step_inv:
  "queue_step race commits cfg q q' \<Longrightarrow> queue_inv cfg q \<Longrightarrow> queue_inv cfg q'"
proof (induction rule: queue_step.induct)
  case (built q turn built fallback now)
  then show ?case using built_inv by blast
next
  case (ended q)
  then show ?case by (auto simp: queue_inv_def worker_ends_def close_store_def Let_def split: option.splits)
next
  case (timer q)
  then have "queue_inv cfg (q\<lparr>dq_timer := None\<rparr>)" by (simp add: queue_inv_def split: option.splits)
  then show ?case unfolding q_timer_def by (rule q_wake_inv)
next
  case (close q)
  then show ?case by (auto simp: queue_inv_def q_close_def close_store_def Let_def split: option.splits)
qed (use q_enqueue_inv q_wake_inv q_claim_inv in blast)+

lemma step_awake:
  "queue_step False commits cfg q q' \<Longrightarrow> queue_inv cfg q \<Longrightarrow> awake q \<Longrightarrow> awake q'"
proof (induction rule: queue_step.induct)
  case (enqueue q now turn q')
  then show ?case
    using q_wake_awake [of "q\<lparr>dq_store := st\<rparr>" for st] by (auto simp: q_enqueue_def error_simps split: if_splits)
next
  case (wake q)
  then show ?case by (simp add: q_wake_awake)
next
  case (claim q now)
  then show ?case using q_claim_awake by blast
next
  case (built q turn built fallback now)
  then show ?case using built_awake by blast
next
  case (ended q)
  then show ?case by (auto simp: awake_def worker_ends_def close_store_def Let_def)
next
  case (timer q)
  then show ?case unfolding q_timer_def by (intro q_wake_awake) simp
next
  case (close q)
  then show ?case by (simp add: awake_def q_close_def close_store_def Let_def)
qed

lemma run_awake:
  assumes "(queue_step False commits cfg)\<^sup>*\<^sup>* q q'" and "queue_inv cfg q" and "awake q"
  shows "queue_inv cfg q' \<and> awake q'"
  using assms(1) by (induction rule: rtranclp_induct) (use assms(2,3) step_inv step_awake in blast)+

end

section \<open>The builder keeps the contract\<close>

lemma apply_op_turns: "apply_op turn src env s op = Inr s' \<Longrightarrow> ds_turns (as_store s') = ds_turns (as_store s)"
  by (cases op)
    (auto simp: apply_op_def error_simps Let_def insert_node_def update_node_def insert_edge_def split: option.splits if_splits)

lemma apply_ops_turns:
  "foldE (apply_op turn src env) s ops = Inr s' \<Longrightarrow> ds_turns (as_store s') = ds_turns (as_store s)"
  by (erule foldE_relation [where R = "\<lambda>s s'. ds_turns (as_store s') = ds_turns (as_store s)"])
    (auto dest: apply_op_turns)

lemma goal_boundary_turns:
  "assert_goal_boundary turn pre_root added goal_at st = Inr st' \<Longrightarrow> ds_turns st' = ds_turns st"
  by (cases rule: assert_goal_boundaryE) (auto split: if_splits)

lemma apply_patch_turns:
  assumes "apply_patch turn ops mode write_source env st = Inr s" and "ti_id turn \<in> t_id ` set (ds_turns st)"
  shows "turns_done (ti_id turn) st (as_store s)"
proof -
  from assms(1) obtain st1 s1 st2 where
    up: "upsert_turn (pe_upsert_at env) turn st = Inr st1"
    and fold: "foldE (apply_op turn (default_to write_source (build_source mode)) env)
       \<lparr>as_store = st1, as_temp = Map.empty, as_edges = [], as_children = [], as_tasks = [], as_next = 0\<rparr> ops = Inr s1"
    and goal: "assert_goal_boundary turn (select_root_task (read_nodes st)) (as_tasks s1) (pe_goal_at env) (as_store s1) = Inr st2"
    and s: "s = s1\<lparr>as_store := mark_turn_done (pe_done_at env) (ti_id turn) mode st2\<rparr>"
    unfolding apply_patch_def Let_def by (auto simp: error_simps)
  have "ds_turns st2 = ds_turns st1"
    using apply_ops_turns [OF fold] goal_boundary_turns [OF goal] by simp
  moreover have "ds_turns st1 = map (\<lambda>t. if t_id t = ti_id turn then refresh_turn (pe_upsert_at env) turn t else t) (ds_turns st)"
    using upsert_rows [OF up] assms(2) by blast
  ultimately show ?thesis
    by (auto simp: s turns_done_def mark_turn_done_def set_meta_def update_turn_def list_all2_map2 intro!: list_all2_refl)
qed

text \<open>A commit of the model: its answer, or the deterministic patch.\<close>

definition builder_commits ::
  "builder \<Rightarrow> json_obj list option \<Rightarrow> dag_turn \<Rightarrow> dag_store \<Rightarrow> dag_store \<Rightarrow> bool" where
  "builder_commits b session turn st st' \<longleftrightarrow>
     (\<exists>env s. (build_and_apply b session env turn st = Inr s
        \<or> apply_deterministic_fallback (bu_texts b) env turn st = Inr s) \<and> st' = as_store s)"

interpretation dag_builder: turn_builder "builder_commits b session" for b session
proof
  fix turn st st'
  assume "builder_commits b session turn st st'" and known: "t_id turn \<in> t_id ` set (ds_turns st)"
  then obtain env s ops mode src where "apply_patch (turn_to_input turn) ops mode src env st = Inr s" "st' = as_store s"
    unfolding builder_commits_def apply_deterministic_fallback_def by (metis build_and_applyE)
  moreover have "ti_id (turn_to_input turn) = t_id turn" by (simp add: turn_to_input_def)
  ultimately show "turns_done (t_id turn) st st'"
    using apply_patch_turns known by metis
qed

section \<open>What the queue guarantees\<close>

definition start_queue :: "dag_store \<Rightarrow> dag_queue" where
  "start_queue st = q_wake \<lparr>dq_store = st, dq_running = False, dq_current = None, dq_returned = False,
     dq_closed = False, dq_store_closed = False, dq_timer = None\<rparr>"

lemma start_queue_inv:
  "distinct (map t_id (ds_turns st)) \<Longrightarrow> list_all (turn_inv cfg) (ds_turns st) \<Longrightarrow> queue_inv cfg (start_queue st) \<and> awake (start_queue st)"
  by (simp add: start_queue_def q_wake_def queue_inv_def awake_def)


text \<open>The worker alone: claims and builds.\<close>

inductive worker_step ::
  "(dag_turn \<Rightarrow> dag_store \<Rightarrow> dag_store \<Rightarrow> bool) \<Rightarrow> queue_config \<Rightarrow> dag_queue \<Rightarrow> dag_queue \<Rightarrow> bool"
  for commits :: "dag_turn \<Rightarrow> dag_store \<Rightarrow> dag_store \<Rightarrow> bool" and cfg :: queue_config where
  claim: "dq_running q \<Longrightarrow> dq_current q = None \<Longrightarrow> \<not> dq_returned q \<Longrightarrow> worker_step commits cfg q (q_claim now q)"
| built: "dq_running q \<Longrightarrow> dq_current q = Some turn \<Longrightarrow>
     (\<And>st. built = Committed st \<Longrightarrow> commits turn (dq_store q) st) \<Longrightarrow>
     (\<And>st. fallback = Committed st \<Longrightarrow> commits turn (dq_store q) st) \<Longrightarrow>
     worker_step commits cfg q (q_built cfg now built fallback q)"

definition work_left :: "dag_queue \<Rightarrow> nat" where
  "work_left q = (if dq_returned q then 0 else 2 * undone (dq_store q) + (if dq_current q = None then 2 else 1))"

lemma undone_claim:
  assumes "distinct (map t_id (ds_turns st))"
  shows "undone (snd (claim_next_turn now st)) = undone st"
proof -
  have "undone st' = undone st" if "list_all2 (\<lambda>t t'. (t_status t' = TDone) = (t_status t = TDone)) (ds_turns st) (ds_turns st')" for st'
    using that unfolding undone_def by (induction rule: list_all2_induct) auto
  moreover from assms have "list_all2 (\<lambda>t t'. (t_status t' = TDone) = (t_status t = TDone)) (ds_turns st) (ds_turns (snd (claim_next_turn now st)))"
  proof (cases rule: claim_next_turn_cases [where now = now])
    case (none st')
    then show ?thesis by (auto simp: list_all2_map2 release_running_def intro!: list_all2_refl)
  next
    case (some row st')
    have "t_status t \<noteq> TDone" if "t \<in> set (ds_turns st)" "t_id t = t_id row" for t
    proof -
      from some(2) obtain u where u: "u \<in> set (ds_turns st)" "row = release_running now u" by blast
      with that assms have "u = t" by (metis get_turn_eq option.inject release_running_simps(1))
      with u some(3) show ?thesis by (auto simp: claimable_def release_running_def split: if_splits)
    qed
    with some(1,4) show ?thesis
      by (auto simp: list_all2_map2 release_running_def intro!: list_all2_same [THEN iffD2])
  qed
  ultimately show ?thesis by blast
qed

context turn_builder
begin

lemma worker_step_inv: "worker_step commits cfg q q' \<Longrightarrow> queue_inv cfg q \<Longrightarrow> queue_inv cfg q'"
  by (erule worker_step.cases) (use q_claim_inv built_inv in blast)+

text \<open>A claim takes the builder one step nearer to its answer, an answer finishes the turn or the loop.\<close>

lemma work_decreases:
  assumes "worker_step commits cfg q q'" and "queue_inv cfg q"
  shows "work_left q' < work_left q"
  using assms(1)
proof cases
  case (claim now)
  have d: "distinct (map t_id (ds_turns (dq_store q)))" using assms(2) by (simp add: queue_inv_def)
  show ?thesis
  proof (cases "dq_closed q")
    case True
    with claim show ?thesis by (simp add: work_left_def q_claim_def)
  next
    case False
    with claim show ?thesis
      using undone_claim [OF d, of now]
      by (cases "claim_next_turn now (dq_store q)") (auto simp: work_left_def q_claim_def Let_def split: option.splits)
  qed
next
  case (built turn built fallback now)
  from built(3) have open_loop: "\<not> dq_returned q" and row: "current_row (dq_store q) turn"
    using assms(2) by (simp_all add: queue_inv_def)
  from built(3) show ?thesis
  proof (cases rule: q_built_cases [where cfg = cfg and now = now and built = built and fallback = fallback])
    case (committed st)
    from row obtain r where r: "r \<in> set (ds_turns (dq_store q))" "t_id r = t_id turn" "t_status r = TRunning"
      by (auto simp: current_row_def list_ex_iff)
    have "commits turn (dq_store q) st" using committed(2) built(4,5) by blast
    moreover have "t_id turn \<in> t_id ` set (ds_turns (dq_store q))" using r(1,2) by (metis image_eqI)
    ultimately have "turns_done (t_id turn) (dq_store q) st" by (rule commits_done)
    moreover have "t_status r \<noteq> TDone" using r(3) by simp
    ultimately have "undone st < undone (dq_store q)" using undone_done r(1,2) by blast
    with committed(1) open_loop built(1,3) show ?thesis by (simp add: work_left_def)
  qed (simp_all add: work_left_def open_loop built(1))
qed

lemma worker_run_work:
  assumes "(worker_step commits cfg ^^ n) q q'" and "queue_inv cfg q"
  shows "queue_inv cfg q' \<and> n + work_left q' \<le> work_left q"
  using assms(1)
proof (induction n arbitrary: q')
  case (Suc n)
  then obtain m where m: "(worker_step commits cfg ^^ n) q m" "worker_step commits cfg m q'" by auto
  from Suc.IH [OF m(1)] worker_step_inv [OF m(2)] work_decreases [OF m(2)] show ?case by simp
qed (simp add: assms(2))

end

text \<open>
  C9: The worker's loop ends. Left alone, it makes at most two steps for each turn that is not done and
  two more, whatever the builder answers, and as long as it has not returned a step is possible.
\<close>

theorem worker_terminates:
  assumes "(worker_step (builder_commits b session) cfg ^^ n) q q'" and "queue_inv cfg q"
  shows "n \<le> 2 * undone (dq_store q) + 2
     \<and> (dq_running q' \<and> \<not> dq_returned q' \<longrightarrow> (\<exists>q''. worker_step (builder_commits b session) cfg q' q''))"
proof
  have "work_left q \<le> 2 * undone (dq_store q) + 2" by (simp add: work_left_def)
  with dag_builder.worker_run_work [OF assms] show "n \<le> 2 * undone (dq_store q) + 2" by simp
  show "dq_running q' \<and> \<not> dq_returned q' \<longrightarrow> (\<exists>q''. worker_step (builder_commits b session) cfg q' q'')"
  proof (cases "dq_current q'")
    case None
    then show ?thesis using worker_step.claim by blast
  next
    case (Some turn)
    then show ?thesis
      using worker_step.built [where built = "Failed []" and fallback = "Failed []"] by blast
  qed
qed

section \<open>The slots of all workers\<close>

text \<open>
  \<open>runWithSlot\<close>: a worker enters or waits, and the one that leaves resolves the promise of the first
  that waits. The resolved worker goes on in a later microtask, without looking at the limit again.
\<close>

record slots =
  sl_active :: nat
  sl_waiting :: "string list"
  sl_resolved :: "string list"

definition slot_enter :: "nat \<Rightarrow> string \<Rightarrow> slots \<Rightarrow> slots" where
  "slot_enter limit w s =
     (if sl_active s \<ge> limit then s\<lparr>sl_waiting := sl_waiting s @ [w]\<rparr> else s\<lparr>sl_active := sl_active s + 1\<rparr>)"

definition slot_resume :: "slots \<Rightarrow> slots" where
  "slot_resume s = (case sl_resolved s of [] \<Rightarrow> s | _ # ws \<Rightarrow> s\<lparr>sl_resolved := ws, sl_active := sl_active s + 1\<rparr>)"

definition slot_leave :: "slots \<Rightarrow> slots" where
  "slot_leave s =
     (let s' = s\<lparr>sl_active := sl_active s - 1\<rparr> in
      case sl_waiting s' of [] \<Rightarrow> s' | w # ws \<Rightarrow> s'\<lparr>sl_waiting := ws, sl_resolved := sl_resolved s' @ [w]\<rparr>)"

text \<open>\<open>race\<close>: a worker may enter while a resolved one has not gone on yet.\<close>

inductive slot_step :: "bool \<Rightarrow> nat \<Rightarrow> slots \<Rightarrow> slots \<Rightarrow> bool" for race :: bool and limit :: nat where
  enter: "race \<or> sl_resolved s = [] \<Longrightarrow> slot_step race limit s (slot_enter limit w s)"
| resume: "sl_resolved s \<noteq> [] \<Longrightarrow> slot_step race limit s (slot_resume s)"
| leave: "sl_active s > 0 \<Longrightarrow> slot_step race limit s (slot_leave s)"

definition no_slots :: slots where
  "no_slots = \<lparr>sl_active = 0, sl_waiting = [], sl_resolved = []\<rparr>"

definition slots_used :: "slots \<Rightarrow> nat" where
  "slots_used s = sl_active s + length (sl_resolved s)"

lemma slot_step_used:
  assumes "slot_step race limit s s'"
  shows "(sl_waiting s \<noteq> [] \<longrightarrow> limit \<le> slots_used s) \<longrightarrow> (sl_waiting s' \<noteq> [] \<longrightarrow> limit \<le> slots_used s')"
    and "\<not> race \<Longrightarrow> slots_used s \<le> limit \<Longrightarrow> slots_used s' \<le> limit"
  using assms
  by (cases; auto simp: slots_used_def slot_enter_def slot_resume_def slot_leave_def Let_def split: list.splits if_splits)+

lemma slot_run_used:
  assumes "(slot_step race limit)\<^sup>*\<^sup>* no_slots s"
  shows "(sl_waiting s \<noteq> [] \<longrightarrow> limit \<le> slots_used s) \<and> (\<not> race \<longrightarrow> slots_used s \<le> limit)"
  using assms
proof (induction rule: rtranclp_induct)
  case base
  then show ?case by (simp add: no_slots_def slots_used_def)
next
  case (step s s')
  then show ?case using slot_step_used [OF step(2)] by blast
qed

text \<open>
  No slot is lost and no worker waits for nothing: whenever a worker waits, as many slots as
  configured are taken or handed over. When no worker enters while a slot is being handed over, never
  more workers run than configured.
\<close>

theorem slots_shared:
  assumes "(slot_step race limit)\<^sup>*\<^sup>* no_slots s"
  shows "(sl_waiting s \<noteq> [] \<longrightarrow> limit \<le> sl_active s + length (sl_resolved s)) \<and> (\<not> race \<longrightarrow> sl_active s \<le> limit)"
  using slot_run_used [OF assms] by (auto simp: slots_used_def)

text \<open>The limit does not hold for every interleaving: a worker that enters in between is one too many.\<close>

lemma slot_limit_exceeded:
  "\<exists>s. (slot_step True 1)\<^sup>*\<^sup>* no_slots s \<and> sl_active s = 2"
proof -
  define s0 where "s0 = slot_enter 1 ''b'' (slot_enter 1 ''a'' no_slots)"
  define s1 where "s1 = slot_leave s0"
  define s2 where "s2 = slot_enter 1 ''c'' s1"
  have steps: "slot_step True 1 no_slots (slot_enter 1 ''a'' no_slots)" "slot_step True 1 (slot_enter 1 ''a'' no_slots) s0"
    "slot_step True 1 s1 s2"
    by (simp_all add: s0_def s2_def slot_step.enter)
  have "sl_active s0 = 1" "sl_resolved s2 = [''b'']" "sl_active s2 = 1"
    by (simp_all add: s0_def s1_def s2_def slot_enter_def slot_leave_def no_slots_def)
  then have "sl_active (slot_resume s2) = 2" "sl_resolved s2 \<noteq> []" "sl_active s0 > 0"
    by (simp_all add: slot_resume_def)
  then have "slot_step True 1 s0 s1" "slot_step True 1 s2 (slot_resume s2)" "sl_active (slot_resume s2) = 2"
    unfolding s1_def by (blast intro: slot_step.leave slot_step.resume)+
  with steps show ?thesis
    by (meson converse_rtranclp_into_rtranclp rtranclp.rtrancl_refl)
qed

end
