(* ===== verification/Session_Text.thy ===== *)
theory Session_Text
  imports Js_Regex
begin

text \<open>
  How stored texts are cleaned before they are shown to a model again: \<open>stripThink\<close> of
  \<open>utils/helpers.ts\<close> and \<open>sanitizeAssistantReplayText\<close> of \<open>core/session/manager.ts\<close>, each regular
  expression as it is written there.
\<close>

section \<open>Thinking blocks and leaked tags\<close>

definition think_name :: regex where
  "think_name = Alt (lit_ci ''think'') (lit_ci ''thought'')"

definition think_block :: regex where
  "think_block = seq_of [lit ''<'', Cap 1 think_name, lit ''>'', Cap 2 (Star False anything), lit ''</'', Ref True 1, lit ''>'']"

definition think_open :: regex where
  "think_open = seq_of [Bol False, whites, lit ''<'', Cap 1 think_name, lit ''>'']"

definition think_close :: regex where
  "think_close = seq_of [lit ''</'', Cap 1 think_name, lit ''>'']"

definition not_tag_char :: regex where
  "not_tag_char = Ahead False (Sym (\<lambda>c. word_char c \<or> c \<in> set ''-_:/>''))"

definition think_partial :: regex where
  "think_partial = alt_of [lit_ci ''thi'', lit_ci ''thin'', lit_ci ''think'', lit_ci ''thought'']"

definition partial_end :: regex where
  "partial_end = seq_of [whites, lit ''<'',
     Cap 1 (alt_of [lit_ci ''thi'', lit_ci ''thin'', lit_ci ''think'', lit_ci ''thought'', lit_ci ''channel'', lit_ci ''|chan'',
       Seq (lit_ci ''|channel'') (opt (lit ''|''))]), opt (lit ''>''), Eol False]"

definition ant_letter :: regex where
  "ant_letter = Sym (\<lambda>c. let n = (of_char c :: nat) in 65 \<le> n \<and> n \<le> 90 \<or> 97 \<le> n \<and> n \<le> 122)"

definition ant_tag_name :: regex where
  "ant_tag_name = seq_of [lit ''ant'', ant_letter, Star True (Sym (\<lambda>c. word_char c \<or> c = CHR '':'' \<or> c = CHR ''-''))]"

definition ant_attributes :: regex where
  "ant_attributes = opt (Seq white (Star True (none_of ''>'')))"

definition ant_tag :: regex where
  "ant_tag = seq_of [lit ''<'', opt (lit ''/''), ant_tag_name, ant_attributes, lit ''>'']"

definition ant_block :: regex where
  "ant_block = seq_of [lit ''<'', Cap 1 ant_tag_name, ant_attributes, lit ''>'', Star False anything, lit ''</'', Ref False 1,
     whites, lit ''>'']"

definition blanks :: regex where
  "blanks = Star True (any_of [CHR 32, CHR 9])"

definition ant_orphan_line :: regex where
  "ant_orphan_line = seq_of [Cap 1 (Alt (Bol False) (lit [CHR 10])), blanks, ant_tag, blanks,
     Ahead True (Alt (lit [CHR 10]) (Eol False))]"

definition drop_block_start :: "string \<Rightarrow> string" where
  "drop_block_start out =
     (if rx_test think_open out then
        (case rx_search think_close out of
           None \<Rightarrow> []
         | Some close \<Rightarrow> replace_first (Seq (Bol False) think_close) no_text (drop close out))
      else out)"

definition strip_think :: "string \<Rightarrow> string" where
  "strip_think s =
     (if s = [] then []
      else
       (let out = drop_block_start (replace_all think_block no_text s);
            out = replace_first (seq_of [Bol False, whites, think_close]) no_text out;
            out = replace_first (seq_of [think_close, whites, Eol False]) no_text out;
            out = replace_first (seq_of [Bol False, whites, lit ''<'', opt (lit ''|''), lit_ci ''channel'', opt (lit ''|''), lit ''>'']) no_text out;
            out = replace_first (seq_of [Bol False, whites, lit ''<'', Cap 1 think_partial, not_tag_char, whites]) no_text out;
            out = replace_first (seq_of [Bol False, whites, lit ''<'', Cap 1 think_name, not_tag_char, whites]) no_text out;
            out = replace_first partial_end no_text out;
            out = replace_first (seq_of [plus white, lit ''<'', Cap 1 think_name, lit ''>'', whites, Eol False]) no_text out;
            out = replace_all ant_block no_text out;
            out = replace_all ant_orphan_line (\<lambda>c. captured out c 1) out;
            out = replace_first (seq_of [Bol False, whites, ant_tag]) no_text out;
            out = replace_first (seq_of [ant_tag, whites, Eol False]) no_text out;
            out = replace_first (seq_of [whites, lit ''<'', opt (lit ''/''), ant_tag_name, Eol False]) no_text out
        in js_trim out))"

section \<open>The text of an assistant\<close>

definition message_time :: regex where
  "message_time = seq_of [Bol False, lit ''[Message Time: '', plus (none_of '']''), lit '']'', opt (lit [CHR 10])]"

definition line_break :: regex where
  "line_break = Seq (opt (lit [CHR 13])) (lit [CHR 10])"

definition image_line :: regex where
  "image_line = seq_of [Bol False, lit ''[image: '', any_of ''/~'', plus (none_of '']''), lit '']'', whites, Eol False]"

definition call_line :: regex where
  "call_line = seq_of [Bol True, whites, Cap 1 (Alt (lit ''generate_image'') (lit ''message'')), lit ''('',
     Star True (none_of '')''), lit '')'', whites, Eol True]"

definition sanitize_assistant_replay_text :: "string \<Rightarrow> string" where
  "sanitize_assistant_replay_text content =
     (let out = replace_first message_time no_text (strip_think content);
          out = join_with [CHR 10] (filter (\<lambda>line. \<not> rx_test image_line line) (rx_split line_break out))
      in js_trim (replace_all call_line no_text out))"

end
