(* ===== verification/Js_Date.thy ===== *)
theory Js_Date
  imports Js_Values
begin

text \<open>
  The part of JavaScript's \<open>Date\<close> that the source relies on: the civil calendar (proleptic Gregorian,
  UTC), \<open>toISOString\<close>, and the test that a string is the ISO text of some instant. Instants are
  integers (milliseconds since 1970); \<open>Date\<close> covers those up to \<open>8.64e15\<close> in absolute value.
\<close>

definition max_date_ms :: int where
  "max_date_ms = 8640000000000000"

section \<open>The civil calendar\<close>

text \<open>Years start on 1 March, so that the leap day is the last day of a year.\<close>

definition civil_from_days :: "int \<Rightarrow> int \<times> int \<times> int" where
  "civil_from_days days =
     (let z = days + 719468;
          era = z div 146097;
          doe = z mod 146097;
          yoe = (doe - doe div 1460 + doe div 36524 - doe div 146096) div 365;
          doy = doe - (365 * yoe + yoe div 4 - yoe div 100);
          mp = (5 * doy + 2) div 153;
          d = doy - (153 * mp + 2) div 5 + 1;
          m = (if mp < 10 then mp + 3 else mp - 9);
          y = yoe + era * 400
      in (if m \<le> 2 then y + 1 else y, m, d))"

definition days_from_civil :: "int \<Rightarrow> int \<Rightarrow> int \<Rightarrow> int" where
  "days_from_civil y m d =
     (let y' = (if m \<le> 2 then y - 1 else y);
          era = y' div 400;
          yoe = y' mod 400;
          mp = (m + 9) mod 12;
          doy = (153 * mp + 2) div 5 + d - 1;
          doe = yoe * 365 + yoe div 4 - yoe div 100 + doy
      in era * 146097 + doe - 719468)"

section \<open>ISO text\<close>

fun pad_left :: "nat \<Rightarrow> string \<Rightarrow> string" where
  "pad_left n s = (if length s < n then replicate (n - length s) (CHR ''0'') @ s else s)"

definition digits :: "nat \<Rightarrow> int \<Rightarrow> string" where
  "digits n i = pad_left n (nat_str (nat i))"

definition year_str :: "int \<Rightarrow> string" where
  "year_str y = (if 0 \<le> y \<and> y \<le> 9999 then digits 4 y
     else if y < 0 then CHR ''-'' # digits 6 (- y) else CHR ''+'' # digits 6 y)"

definition to_iso_string :: "int \<Rightarrow> string" where
  "to_iso_string ms =
     (let day = ms div 86400000; rest = ms mod 86400000
      in case civil_from_days day of (y, m, d) \<Rightarrow>
        year_str y @ ''-'' @ digits 2 m @ ''-'' @ digits 2 d @ ''T''
          @ digits 2 (rest div 3600000) @ '':'' @ digits 2 (rest div 60000 mod 60) @ '':''
          @ digits 2 (rest div 1000 mod 60) @ ''.'' @ digits 3 (rest mod 1000) @ ''Z'')"

text \<open>
  \<open>const parsed = new Date(value); Number.isFinite(parsed.getTime()) && parsed.toISOString() === value\<close>:
  the fields are read at the places where \<open>toISOString\<close> writes them; the last test compares the texts.
\<close>

definition field_at :: "string \<Rightarrow> nat \<Rightarrow> nat \<Rightarrow> int" where
  "field_at s start len = int (str_nat (take len (drop start s)))"

definition iso_to_ms :: "string \<Rightarrow> int" where
  "iso_to_ms s =
     (let expanded = (s \<noteq> [] \<and> (hd s = CHR ''+'' \<or> hd s = CHR ''-''));
          o0 = (if expanded then 7 else 4);
          y = (if expanded then (if hd s = CHR ''-'' then - field_at s 1 6 else field_at s 1 6) else field_at s 0 4)
      in days_from_civil y (field_at s (o0 + 1) 2) (field_at s (o0 + 4) 2) * 86400000
         + field_at s (o0 + 7) 2 * 3600000 + field_at s (o0 + 10) 2 * 60000
         + field_at s (o0 + 13) 2 * 1000 + field_at s (o0 + 16) 3)"

definition parse_iso :: "string \<Rightarrow> int option" where
  "parse_iso s =
     (let ms = iso_to_ms s in
      if \<bar>ms\<bar> \<le> max_date_ms \<and> to_iso_string ms = s then Some ms else None)"

lemma parse_iso_text: "parse_iso s = Some ms \<Longrightarrow> to_iso_string ms = s \<and> \<bar>ms\<bar> \<le> max_date_ms"
  by (auto simp: parse_iso_def Let_def split: if_splits)

lemma parse_iso_inj: "parse_iso s = Some ms \<Longrightarrow> parse_iso t = Some ms \<Longrightarrow> s = t"
  using parse_iso_text by blast

section \<open>The calendar round trip\<close>

lemma civil_ranges:
  assumes n: "0 \<le> n" "n < 146097"
  defines "yoe \<equiv> (n - n div 1460 + n div 36524 - n div 146096) div 365"
  shows "0 \<le> yoe \<and> yoe < 400 \<and> 0 \<le> n - (365 * yoe + yoe div 4 - yoe div 100)
     \<and> n - (365 * yoe + yoe div 4 - yoe div 100) \<le> (366::int)"
proof (cases "n = 146096")
  case True
  then show ?thesis by (simp add: yoe_def)
next
  case False
  define a b e f g where "a = n div 1460" and "b = n div 36524" and "e = n div 146096"
    and "f = yoe div 4" and "g = yoe div 100"
  have e: "e = 0" using n False by (simp add: e_def)
  have a: "1460 * a \<le> n" "n < 1460 * a + 1460" unfolding a_def by linarith+
  have b: "36524 * b \<le> n" "n < 36524 * b + 36524" "0 \<le> b" "b \<le> 3"
    unfolding b_def using n False by linarith+
  have y: "365 * yoe \<le> n - a + b" "n - a + b < 365 * yoe + 365"
    unfolding yoe_def a_def [symmetric] b_def [symmetric] e_def [symmetric] e by linarith+
  have f: "4 * f \<le> yoe" "yoe < 4 * f + 4" unfolding f_def by linarith+
  have g: "100 * g \<le> yoe" "yoe < 100 * g + 100" unfolding g_def by linarith+
  from a b have a_le: "0 \<le> a" "a \<le> 100" using n by linarith+
  have y0: "0 \<le> yoe" using y a b n by linarith
  have y400: "yoe < 400" using y a b n False by linarith
  have g03: "0 \<le> g" "g \<le> 3" using g y0 y400 by linarith+
  have "g \<le> b" using y g a b by linarith
  moreover have "b \<le> g"
  proof (rule ccontr)
    assume "\<not> b \<le> g"
    then have less: "n - a + b < 36500 * b" using y g by linarith
    show False
    proof (cases "a \<le> 25 * b")
      case True
      with less b show False by linarith
    next
      case False
      with less a b show False by linarith
    qed
  qed
  ultimately have gb: "g = b" by simp
  have "0 \<le> n - 365 * yoe - f + g" "n - 365 * yoe - f + g \<le> 366"
    using y f a b gb a_le by linarith+
  then show ?thesis using y0 y400 by (simp add: f_def g_def)
qed

lemma civil_from_days_spec:
  "civil_from_days z = (y, m, d) \<Longrightarrow>
     days_from_civil y m d = z \<and> 1 \<le> m \<and> m \<le> 12 \<and> 1 \<le> d \<and> d \<le> 31
     \<and> (z + 719468) div 146097 * 400 \<le> y \<and> y \<le> (z + 719468) div 146097 * 400 + 400"
proof -
  assume run: "civil_from_days z = (y, m, d)"
  define n era where "n = (z + 719468) mod 146097" and "era = (z + 719468) div 146097"
  define yoe where "yoe = (n - n div 1460 + n div 36524 - n div 146096) div 365"
  define doy where "doy = n - (365 * yoe + yoe div 4 - yoe div 100)"
  define mp where "mp = (5 * doy + 2) div 153"
  have n: "0 \<le> n" "n < 146097" by (simp_all add: n_def)
  note ranges = civil_ranges [OF n, folded yoe_def, folded doy_def]
  have mp: "153 * mp \<le> 5 * doy + 2" "5 * doy + 2 < 153 * mp + 153" unfolding mp_def by linarith+
  have mp11: "0 \<le> mp" "mp \<le> 11" using ranges mp by linarith+
  have out: "m = (if mp < 10 then mp + 3 else mp - 9)" "d = doy - (153 * mp + 2) div 5 + 1"
    "y = (if m \<le> 2 then yoe + era * 400 + 1 else yoe + era * 400)"
    using run unfolding civil_from_days_def Let_def n_def [symmetric] era_def [symmetric] yoe_def [symmetric]
      doy_def [symmetric] mp_def [symmetric] by auto
  have y': "(if m \<le> 2 then y - 1 else y) = yoe + era * 400" using out(3) by simp
  have "(yoe + era * 400) div 400 = era" "(yoe + era * 400) mod 400 = yoe"
    using ranges by simp_all
  moreover have "(m + 9) mod 12 = mp" using out(1) mp11 by (auto split: if_splits)
  ultimately have "days_from_civil y m d = era * 146097 + (yoe * 365 + yoe div 4 - yoe div 100 + doy) - 719468"
    unfolding days_from_civil_def Let_def y' out(2) by simp
  also have "\<dots> = era * 146097 + n - 719468" by (simp add: doy_def)
  also have "\<dots> = z" by (simp add: era_def n_def)
  finally have "days_from_civil y m d = z" .
  moreover have "1 \<le> d" "d \<le> 31" using out(2) mp by linarith+
  ultimately show ?thesis
    using out(1,3) mp11 ranges by (auto simp: era_def [symmetric] split: if_splits)
qed

section \<open>The text round trip\<close>

lemma length_nat_str: "k < 10 ^ Suc n \<Longrightarrow> length (nat_str k) \<le> Suc n"
proof (induction n arbitrary: k)
  case 0
  then show ?case by (simp add: nat_str.simps)
next
  case (Suc n)
  show ?case
  proof (cases "k < 10")
    case False
    have "k div 10 < 10 ^ Suc n" using Suc.prems by (simp add: less_mult_imp_div_less mult.commute)
    with Suc.IH False show ?thesis by (subst nat_str.simps) simp
  qed (simp add: nat_str.simps)
qed

lemma str_nat_zeros: "str_nat (replicate j (CHR ''0'') @ s) = str_nat s"
  by (induction j) (simp_all add: str_nat_def)

lemma digits_spec:
  assumes "0 \<le> i" "i < 10 ^ Suc n"
  shows "length (digits (Suc n) i) = Suc n \<and> int (str_nat (digits (Suc n) i)) = i"
proof -
  have "nat i < 10 ^ Suc n" using assms by (simp add: nat_less_iff)
  then have "length (nat_str (nat i)) \<le> Suc n" by (rule length_nat_str)
  then show ?thesis using assms(1) by (simp add: digits_def str_nat_zeros)
qed

lemma hd_digits: "hd (digits n i) \<noteq> CHR ''+'' \<and> hd (digits n i) \<noteq> CHR ''-''"
proof -
  have "c \<in> set (digits n i) \<Longrightarrow> c \<noteq> CHR ''+'' \<and> c \<noteq> CHR ''-''" for c
    using nat_str_digits [of c "nat i"] by (auto simp: digits_def split: if_splits)
  moreover have "digits n i \<noteq> []" by (simp add: digits_def)
  ultimately show ?thesis using hd_in_set by blast
qed

lemma fields_of_text:
  assumes "length Y = k" "length M = 2" "length D = 2" "length H = 2" "length N = 2" "length S = 2" "length F = 3"
  defines "s \<equiv> Y @ ''-'' @ M @ ''-'' @ D @ ''T'' @ H @ '':'' @ N @ '':'' @ S @ ''.'' @ F @ ''Z''"
  shows "field_at s (k + 1) 2 = int (str_nat M)" "field_at s (k + 4) 2 = int (str_nat D)"
    "field_at s (k + 7) 2 = int (str_nat H)" "field_at s (k + 10) 2 = int (str_nat N)"
    "field_at s (k + 13) 2 = int (str_nat S)" "field_at s (k + 16) 3 = int (str_nat F)"
  using assms(1-7) by (simp_all add: field_at_def s_def)

lemma year_str_spec:
  assumes "\<bar>y\<bar> < 1000000"
  defines "expanded \<equiv> hd (year_str y) = CHR ''+'' \<or> hd (year_str y) = CHR ''-''"
  shows "year_str y \<noteq> [] \<and> length (year_str y) = (if expanded then 7 else 4)
    \<and> (if expanded then (if hd (year_str y) = CHR ''-'' then - int (str_nat (tl (year_str y)))
          else int (str_nat (tl (year_str y)))) else int (str_nat (year_str y))) = y"
proof -
  consider "0 \<le> y" "y \<le> 9999" | "y < 0" | "y > 9999" by linarith
  then show ?thesis
  proof cases
    case 1
    then have "length (digits 4 y) = 4" "int (str_nat (digits 4 y)) = y"
      using digits_spec [of y 3] by (simp_all add: numeral_eq_Suc)
    with 1 show ?thesis using hd_digits [of 4 y] by (auto simp: year_str_def expanded_def)
  next
    case 2
    then have "length (digits 6 (- y)) = 6" "int (str_nat (digits 6 (- y))) = - y"
      using digits_spec [of "- y" 5] assms(1) by (simp_all add: numeral_eq_Suc)
    with 2 show ?thesis by (simp add: year_str_def expanded_def)
  next
    case 3
    then have "length (digits 6 y) = 6" "int (str_nat (digits 6 y)) = y"
      using digits_spec [of y 5] assms(1) by (simp_all add: numeral_eq_Suc)
    with 3 show ?thesis by (simp add: year_str_def expanded_def)
  qed
qed

lemma mixed_radix:
  "s1 * 1000 + x = r \<Longrightarrow> s2 * 60 + y = s1 \<Longrightarrow> s3 * 60 + z = s2 \<Longrightarrow>
     s3 * 3600000 + z * 60000 + y * 1000 + x = (r::int)"
  by linarith

lemma iso_to_ms_to_iso_string:
  assumes "\<bar>ms\<bar> \<le> max_date_ms"
  shows "iso_to_ms (to_iso_string ms) = ms"
proof -
  obtain y m d where civil: "civil_from_days (ms div 86400000) = (y, m, d)" by (metis prod_cases3)
  define r where "r = ms mod 86400000"
  have r: "0 \<le> r" "r < 86400000" by (simp_all add: r_def)
  note spec = civil_from_days_spec [OF civil]
  have days: "- 100000000 \<le> ms div 86400000" "ms div 86400000 \<le> 100000000"
    using assms unfolding max_date_ms_def by linarith+
  have y: "\<bar>y\<bar> < 1000000" using spec days by linarith
  let ?Y = "year_str y" and ?M = "digits 2 m" and ?D = "digits 2 d" and ?H = "digits 2 (r div 3600000)"
    and ?N = "digits 2 (r div 60000 mod 60)" and ?S = "digits 2 (r div 1000 mod 60)" and ?F = "digits 3 (r mod 1000)"
  have iso: "to_iso_string ms = ?Y @ ''-'' @ ?M @ ''-'' @ ?D @ ''T'' @ ?H @ '':'' @ ?N @ '':'' @ ?S @ ''.'' @ ?F @ ''Z''"
    by (simp add: to_iso_string_def civil r_def Let_def)
  have two: "length (digits 2 i) = 2 \<and> int (str_nat (digits 2 i)) = i" if "0 \<le> i" "i < 100" for i
    using digits_spec [of i 1] that by (simp add: numeral_eq_Suc)
  have M: "length ?M = 2 \<and> int (str_nat ?M) = m" and D: "length ?D = 2 \<and> int (str_nat ?D) = d"
    using spec by (intro two; linarith)+
  have H: "length ?H = 2 \<and> int (str_nat ?H) = r div 3600000"
    using r by (intro two) (linarith, linarith)
  have N: "length ?N = 2 \<and> int (str_nat ?N) = r div 60000 mod 60"
    and S: "length ?S = 2 \<and> int (str_nat ?S) = r div 1000 mod 60"
    by (intro two; (simp add: order.strict_trans1 [of _ 60])?)+
  have F: "length ?F = 3 \<and> int (str_nat ?F) = r mod 1000"
    using digits_spec [of "r mod 1000" 2] by (simp add: numeral_eq_Suc)
  note ys = year_str_spec [OF y]
  define k where "k = length ?Y"
  note fields = fields_of_text [OF k_def [symmetric] M [THEN conjunct1] D [THEN conjunct1] H [THEN conjunct1]
      N [THEN conjunct1] S [THEN conjunct1] F [THEN conjunct1], folded iso]
  have head: "to_iso_string ms \<noteq> []" "hd (to_iso_string ms) = hd ?Y" using ys by (simp_all add: iso)
  have year: "field_at (to_iso_string ms) 1 6 = int (str_nat (tl ?Y))" if "k = 7"
    using that by (cases ?Y) (simp_all add: iso field_at_def k_def)
  have year4: "field_at (to_iso_string ms) 0 4 = int (str_nat ?Y)" if "k = 4"
    using that by (simp add: iso field_at_def k_def)
  define s where "s = to_iso_string ms"
  define ex where "ex \<longleftrightarrow> hd ?Y = CHR ''+'' \<or> hd ?Y = CHR ''-''"
  have k: "k = (if ex then 7 else 4)" using ys by (simp add: k_def ex_def)
  have yv: "(if ex then (if hd ?Y = CHR ''-'' then - field_at s 1 6 else field_at s 1 6) else field_at s 0 4) = y"
    using ys year year4 k unfolding s_def ex_def [symmetric] by (simp split: if_splits)
  have "s \<noteq> [] \<and> (hd s = CHR ''+'' \<or> hd s = CHR ''-'') \<longleftrightarrow> ex" and "hd s = hd ?Y"
    using head by (simp_all add: s_def ex_def)
  then have base: "iso_to_ms (to_iso_string ms) = days_from_civil y (field_at (to_iso_string ms) (k + 1) 2) (field_at (to_iso_string ms) (k + 4) 2) * 86400000
         + field_at (to_iso_string ms) (k + 7) 2 * 3600000 + field_at (to_iso_string ms) (k + 10) 2 * 60000
         + field_at (to_iso_string ms) (k + 13) 2 * 1000 + field_at (to_iso_string ms) (k + 16) 3"
    unfolding s_def [symmetric] iso_to_ms_def Let_def by (simp only: yv k [symmetric])
  have "iso_to_ms (to_iso_string ms) = days_from_civil y m d * 86400000
      + r div 3600000 * 3600000 + r div 60000 mod 60 * 60000 + r div 1000 mod 60 * 1000 + r mod 1000"
    unfolding base fields by (simp only: M [THEN conjunct2] D [THEN conjunct2] H [THEN conjunct2]
      N [THEN conjunct2] S [THEN conjunct2] F [THEN conjunct2])
  also have "\<dots> = ms div 86400000 * 86400000 + r"
  proof -
    have "r div 3600000 * 3600000 + r div 60000 mod 60 * 60000 + r div 1000 mod 60 * 1000 + r mod 1000 = r"
    proof -
      have "r div 60000 = r div 1000 div 60" "r div 3600000 = r div 1000 div 60 div 60"
        using zdiv_zmult2_eq [of 60 r 1000] zdiv_zmult2_eq [of 60 "r div 1000" 60]
          zdiv_zmult2_eq [of 3600 r 1000] by simp_all
      then show ?thesis
        by (simp only:) (rule mixed_radix; rule div_mult_mod_eq)
    qed
    with spec show ?thesis by simp
  qed
  finally show ?thesis by (simp add: r_def)
qed

lemma parse_iso_to_iso_string [simp]: "\<bar>ms\<bar> \<le> max_date_ms \<Longrightarrow> parse_iso (to_iso_string ms) = Some ms"
  by (simp add: parse_iso_def iso_to_ms_to_iso_string)

end
