(* ===== verification/Session_State.thy ===== *)
theory Session_State
  imports Js_Date
begin

text \<open>
  What \<open>session/goal-state.ts\<close> and \<open>session/task-plan-state.ts\<close> share: a value that is kept in the
  metadata of a session as a JSON object, under a fixed key, and is validated whenever it is read.
  The locale \<open>stored_state\<close> is that contract; both components interpret it.
\<close>

section \<open>Shared tests\<close>

definition has_exact_keys :: "json_obj \<Rightarrow> string list \<Rightarrow> bool" where
  "has_exact_keys obj expected \<longleftrightarrow>
     length (obj_keys obj) = length expected \<and> list_all (\<lambda>k. k \<in> set expected) (obj_keys obj)"

definition is_hex :: "char \<Rightarrow> bool" where
  "is_hex c \<longleftrightarrow> c \<in> set ''0123456789abcdefABCDEF''"

text \<open>\<open>/^[0-9a-f]{8}-[0-9a-f]{4}-[1-5][0-9a-f]{3}-[89ab][0-9a-f]{3}-[0-9a-f]{12}$/i\<close>\<close>

definition uuid_char :: "nat \<Rightarrow> char \<Rightarrow> bool" where
  "uuid_char i c =
     (if i \<in> {8, 13, 18, 23} then c = CHR ''-''
      else if i = 14 then c \<in> set ''12345''
      else if i = 19 then c \<in> set ''89abAB''
      else is_hex c)"

definition uuid_pattern :: "string \<Rightarrow> bool" where
  "uuid_pattern s \<longleftrightarrow> length s = 36 \<and> list_all (\<lambda>i. uuid_char i (s ! i)) [0..<36]"

definition is_iso_timestamp :: "json option \<Rightarrow> bool" where
  "is_iso_timestamp v = (case v of Some (JStr s) \<Rightarrow> parse_iso s \<noteq> None | _ \<Rightarrow> False)"

text \<open>A string field that is not blank and not longer than a bound.\<close>

definition text_field :: "json option \<Rightarrow> nat \<Rightarrow> string option" where
  "text_field v max_length =
     (case v of Some (JStr s) \<Rightarrow> if js_trim s = [] \<or> length s > max_length then None else Some s | _ \<Rightarrow> None)"

definition iso_text :: "json option \<Rightarrow> string option" where
  "iso_text v = (case v of Some (JStr s) \<Rightarrow> if is_iso_timestamp v then Some s else None | _ \<Rightarrow> None)"

lemma iso_text_eq: "iso_text v = Some s \<longleftrightarrow> v = Some (JStr s) \<and> parse_iso s \<noteq> None"
  by (auto simp: iso_text_def is_iso_timestamp_def split: option.splits json.splits)

lemma text_field_eq: "text_field v n = Some s \<longleftrightarrow> v = Some (JStr s) \<and> js_trim s \<noteq> [] \<and> length s \<le> n"
  by (auto simp: text_field_def split: option.splits json.splits)

text \<open>
  \<open>nextGoalUpdatedAt\<close> and \<open>nextTaskPlanUpdatedAt\<close>: at least one millisecond after the last update,
  even when the clock stands still or runs backwards.
\<close>

definition next_updated_at :: "string \<Rightarrow> int \<Rightarrow> string" where
  "next_updated_at previous now =
     to_iso_string (case parse_iso previous of Some p \<Rightarrow> max now (p + 1) | None \<Rightarrow> now)"

text \<open>Clock readings that \<open>Date\<close> can represent; one millisecond is kept for the successor.\<close>

definition clock_ok :: "int \<Rightarrow> bool" where
  "clock_ok now \<longleftrightarrow> \<bar>now\<bar> \<le> max_date_ms"

definition timestamp_ok :: "string \<Rightarrow> bool" where
  "timestamp_ok s \<longleftrightarrow> (case parse_iso s of None \<Rightarrow> False | Some p \<Rightarrow> p < max_date_ms)"

lemma next_updated_at_later:
  assumes "clock_ok now" and "parse_iso previous = Some p" and "p < max_date_ms"
  shows "parse_iso (next_updated_at previous now) = Some (max now (p + 1))"
proof -
  have "\<bar>max now (p + 1)\<bar> \<le> max_date_ms"
    using assms parse_iso_text [OF assms(2)] by (auto simp: clock_ok_def max_def)
  then show ?thesis using assms(2) by (simp add: next_updated_at_def)
qed

lemma next_updated_at_iso: "clock_ok now \<Longrightarrow> timestamp_ok previous \<Longrightarrow> parse_iso (next_updated_at previous now) \<noteq> None"
  using next_updated_at_later by (auto simp: timestamp_ok_def split: option.splits)

section \<open>A validated value in the metadata\<close>

definition meta_read :: "(json \<Rightarrow> 'v option) \<Rightarrow> string \<Rightarrow> json_obj \<Rightarrow> 'v option" where
  "meta_read parse k metadata = Option.bind (map_of metadata k) parse"

definition meta_write :: "string \<Rightarrow> json \<Rightarrow> json_obj \<Rightarrow> json_obj" where
  "meta_write k v metadata = obj_put metadata (k, v)"

definition meta_delete :: "string \<Rightarrow> json_obj \<Rightarrow> json_obj" where
  "meta_delete k metadata = filter (\<lambda>kv. fst kv \<noteq> k) metadata"

lemma meta_read_write_other [simp]: "k \<noteq> k' \<Longrightarrow> meta_read parse k (meta_write k' v m) = meta_read parse k m"
  by (simp add: meta_read_def meta_write_def map_of_obj_put)

lemma map_of_delete: "map_of (meta_delete k' m) k = (if k = k' then None else map_of m k)"
  unfolding meta_delete_def by (induction m) auto

lemma meta_read_delete [simp]:
  "meta_read parse k (meta_delete k' m) = (if k = k' then None else meta_read parse k m)"
  by (simp add: meta_read_def map_of_delete)

locale stored_state =
  fixes parse :: "json \<Rightarrow> 'v option"
    and encode :: "'v \<Rightarrow> json"
    and valid :: "'v \<Rightarrow> bool"
    and key :: string
  assumes parse_encode: "valid v \<Longrightarrow> parse (encode v) = Some v"
    and parse_valid: "parse j = Some v \<Longrightarrow> valid v"
begin

lemma read_valid: "meta_read parse key m = Some v \<Longrightarrow> valid v"
  by (auto simp: meta_read_def intro: parse_valid split: bind_splits)

lemma read_write: "valid v \<Longrightarrow> meta_read parse key (meta_write key (encode v) m) = Some v"
  by (simp add: meta_read_def meta_write_def map_of_obj_put parse_encode)

lemma read_write_iff: "meta_read parse key (meta_write key (encode v) m) = Some v \<longleftrightarrow> valid v"
  using read_valid read_write by blast

lemma encode_inj: "valid v \<Longrightarrow> valid w \<Longrightarrow> encode v = encode w \<Longrightarrow> v = w"
  using parse_encode by (metis option.inject)

end

end
