(* ===== verification/Session_History.thy ===== *)
theory Session_History
  imports Session_Text Session_State
begin

text \<open>
  What a session shows of its messages to a model, and what it keeps of them (class \<open>Session\<close> of
  \<open>core/session/manager.ts\<close>, \<open>findLegalMessageStart\<close> of \<open>utils/helpers.ts\<close>). Messages are JSON objects
  as they are stored. A \<open>for ... of\<close> over a value that is not iterable throws, which is an error here.
\<close>

section \<open>Messages\<close>

datatype history_error = NotIterable

type_synonym message = json_obj

definition role_is :: "string \<Rightarrow> message \<Rightarrow> bool" where
  "role_is r m \<longleftrightarrow> map_of m ''role'' = Some (JStr r)"

text \<open>\<open>for (x of v ?? [])\<close>; a string yields its characters.\<close>

definition js_iter :: "json option \<Rightarrow> history_error + json list" where
  "js_iter v = (case nullish v None of
     None \<Rightarrow> Inr []
   | Some (JArr vs) \<Rightarrow> Inr vs
   | Some (JStr s) \<Rightarrow> Inr (map (\<lambda>c. JStr [c]) s)
   | Some _ \<Rightarrow> Inl NotIterable)"

definition js_slice_from :: "int \<Rightarrow> 'a list \<Rightarrow> 'a list" where
  "js_slice_from k xs = (if k < 0 then drop (length xs - nat (- k)) xs else drop (nat k) xs)"

definition estimate_message_tokens :: "(jsnum \<Rightarrow> string) \<Rightarrow> message \<Rightarrow> nat" where
  "estimate_message_tokens nt m = (length (json_stringify nt (JObj m)) + 3) div 4"

section \<open>Where a legal window starts\<close>

definition call_id :: "(jsnum \<Rightarrow> string) \<Rightarrow> json \<Rightarrow> string list" where
  "call_id nt call =
     (case json_field ''id'' (Some call) of
        None \<Rightarrow> []
      | Some i \<Rightarrow> if js_truthy (Some i) then [json_text nt i] else [])"

definition declared_ids :: "(jsnum \<Rightarrow> string) \<Rightarrow> message \<Rightarrow> history_error + string list" where
  "declared_ids nt m = bindE (js_iter (map_of m ''tool_calls'')) (\<lambda>calls. Inr (concat (map (call_id nt) calls)))"

definition result_id :: "(jsnum \<Rightarrow> string) \<Rightarrow> message \<Rightarrow> string option" where
  "result_id nt m =
     (case map_of m ''tool_call_id'' of
        None \<Rightarrow> None
      | Some i \<Rightarrow> if js_truthy (Some i) then Some (json_text nt i) else None)"

fun legal_scan ::
  "(jsnum \<Rightarrow> string) \<Rightarrow> nat \<Rightarrow> nat \<Rightarrow> string list \<Rightarrow> message list \<Rightarrow> history_error + nat" where
  "legal_scan nt index start declared [] = Inr start"
| "legal_scan nt index start declared (m # ms) =
     (if role_is ''assistant'' m then
        bindE (declared_ids nt m) (\<lambda>ids. legal_scan nt (index + 1) start (declared @ ids) ms)
      else if role_is ''tool'' m then
        (case result_id nt m of
           Some i \<Rightarrow> if i \<in> set declared then legal_scan nt (index + 1) start declared ms
                      else legal_scan nt (index + 1) (index + 1) [] ms
         | None \<Rightarrow> legal_scan nt (index + 1) start declared ms)
      else legal_scan nt (index + 1) start declared ms)"

definition find_legal_message_start :: "(jsnum \<Rightarrow> string) \<Rightarrow> message list \<Rightarrow> history_error + nat" where
  "find_legal_message_start nt ms = legal_scan nt 0 0 [] ms"

definition drop_illegal :: "(jsnum \<Rightarrow> string) \<Rightarrow> message list \<Rightarrow> history_error + message list" where
  "drop_illegal nt ms = bindE (find_legal_message_start nt ms) (\<lambda>start. Inr (drop start ms))"

section \<open>What a model is shown\<close>

definition align_window_to_user_turn :: "message list \<Rightarrow> message list" where
  "align_window_to_user_turn ms =
     (case index_of (role_is ''user'') ms of
        None \<Rightarrow> ms
      | Some i \<Rightarrow> drop (if i > 0 \<and> js_truthy (map_of (ms ! (i - 1)) ''channelDelivery'') then i - 1 else i) ms)"

definition replay_extra_keys :: "string list" where
  "replay_extra_keys = [''tool_calls'', ''tool_call_id'', ''name'', ''reasoning_content'', ''thinking_blocks'', ''extra_content'']"

definition has_assistant_replay_state :: "message \<Rightarrow> bool" where
  "has_assistant_replay_state m \<longleftrightarrow> has_key m ''tool_calls'' \<or> has_key m ''reasoning_content'' \<or> has_key m ''thinking_blocks''"

definition image_placeholder_text :: "string \<Rightarrow> string" where
  "image_placeholder_text path = (if path = [] then ''[image]'' else ''[image: '' @ path @ '']'')"

definition media_part :: "json \<Rightarrow> string list" where
  "media_part v = (case v of JStr path \<Rightarrow> if path = [] then [] else [image_placeholder_text path] | _ \<Rightarrow> [])"

definition preset_part :: "(jsnum \<Rightarrow> string) \<Rightarrow> json \<Rightarrow> string list" where
  "preset_part nt preset =
     (let name = to_lower (js_trim (text_or nt (json_field ''name'' (Some preset)) []));
          given = js_trim (text_or nt (json_field ''transport'' (Some preset)) ''mcp'');
          transport = (if given = [] then ''mcp'' else given)
      in if name = [] then []
         else [''[MCP Preset Attachment: @'' @ name @ ''; tool_prefix=mcp_'' @ name @ ''_; transport='' @ transport @ '']''])"

definition user_text :: "(jsnum \<Rightarrow> string) \<Rightarrow> bool \<Rightarrow> message \<Rightarrow> string \<Rightarrow> history_error + string" where
  "user_text nt include_timestamps m content =
     bindE (js_iter (map_of m ''media'')) (\<lambda>media.
     bindE (js_iter (map_of m ''mcp_presets'')) (\<lambda>presets.
       let parts = (if content = [] then [] else [content]) @ concat (map media_part media) @ concat (map (preset_part nt) presets);
           shown = join_with [CHR 10] parts
       in Inr (case map_of m ''timestamp'' of
            Some ts \<Rightarrow> if include_timestamps \<and> js_truthy (Some ts)
                       then ''[Message Time: '' @ json_text nt ts @ '']'' @ [CHR 10] @ shown else shown
          | None \<Rightarrow> shown)))"

definition synthesize_content :: "(jsnum \<Rightarrow> string) \<Rightarrow> bool \<Rightarrow> message \<Rightarrow> history_error + message option" where
  "synthesize_content nt include_timestamps m =
     (let content = (case map_of m ''content'' of None \<Rightarrow> JStr [] | Some c \<Rightarrow> c) in
      bindE (case content of
               JStr s \<Rightarrow>
                 if role_is ''assistant'' m then Inr (JStr (sanitize_assistant_replay_text s))
                 else if role_is ''user'' m then bindE (user_text nt include_timestamps m s) (\<lambda>t. Inr (JStr t))
                 else Inr (JStr s)
             | c \<Rightarrow> Inr c) (\<lambda>content.
      Inr (if role_is ''assistant'' m \<and> (case content of JStr s \<Rightarrow> js_trim s = [] | _ \<Rightarrow> False)
               \<and> \<not> has_assistant_replay_state m
           then None
           else Some ((case map_of m ''role'' of None \<Rightarrow> [] | Some r \<Rightarrow> [(''role'', r)])
             @ [(''content'', content)]
             @ List.map_filter (\<lambda>k. map_option (Pair k) (map_of m k)) replay_extra_keys))))"

definition sanitize_call :: "json \<Rightarrow> json" where
  "sanitize_call call =
     (let next = meta_delete ''provider_specific_fields'' (spread call) in
      JObj (case map_of next ''function'' of
              Some (JObj f) \<Rightarrow> obj_put next (''function'', JObj (meta_delete ''provider_specific_fields'' f))
            | Some (JArr vs) \<Rightarrow> obj_put next (''function'', JObj (meta_delete ''provider_specific_fields'' (spread (JArr vs))))
            | _ \<Rightarrow> next))"

definition sanitize_cross_provider_replay :: "string option \<Rightarrow> message \<Rightarrow> message" where
  "sanitize_cross_provider_replay target m =
     (case target of
        None \<Rightarrow> m
      | Some provider \<Rightarrow>
          if \<not> role_is ''assistant'' m \<or> provider = [] \<or> map_of m ''model_provider'' = Some (JStr provider) then m
          else (let s = meta_delete ''extra_content'' (meta_delete ''thinking_blocks'' (meta_delete ''reasoning_content'' m)) in
                case map_of s ''tool_calls'' of
                  Some (JArr calls) \<Rightarrow> obj_put s (''tool_calls'', JArr (map sanitize_call calls))
                | _ \<Rightarrow> s))"

text \<open>The newest messages within the budget, but at least one. The list is read from its end.\<close>

fun pick_tokens :: "(jsnum \<Rightarrow> string) \<Rightarrow> int \<Rightarrow> int \<Rightarrow> message list \<Rightarrow> message list \<Rightarrow> message list" where
  "pick_tokens nt budget used selected [] = selected"
| "pick_tokens nt budget used selected (m # older) =
     (let cost = int (estimate_message_tokens nt m) in
      if selected \<noteq> [] \<and> used + cost > budget then selected
      else pick_tokens nt budget (used + cost) (m # selected) older)"

text \<open>From the last message of the user on.\<close>

fun last_user_turn :: "message list \<Rightarrow> message list option" where
  "last_user_turn [] = None"
| "last_user_turn (m # ms) =
     (case last_user_turn ms of
        Some t \<Rightarrow> Some t
      | None \<Rightarrow> if role_is ''user'' m then Some (m # ms) else None)"

definition select_tokens :: "(jsnum \<Rightarrow> string) \<Rightarrow> int \<Rightarrow> message list \<Rightarrow> message list" where
  "select_tokens nt budget out =
     (let selected = pick_tokens nt budget 0 [] (rev out) in
      case index_of (role_is ''user'') selected of
        Some i \<Rightarrow> drop i selected
      | None \<Rightarrow> (case last_user_turn out of Some t \<Rightarrow> t | None \<Rightarrow> selected))"

record session =
  se_messages :: "message list"
  se_metadata :: json_obj
  se_consolidated :: int
  se_updated_at :: string

definition history_window :: "(jsnum \<Rightarrow> string) \<Rightarrow> int \<Rightarrow> session \<Rightarrow> history_error + message list" where
  "history_window nt max_messages s =
     (let visible = js_slice_from (se_consolidated s) (se_messages s);
          limit = (if max_messages > 0 then max_messages else 120)
      in drop_illegal nt (align_window_to_user_turn (js_slice_from (- limit) visible)))"

definition get_history ::
  "(jsnum \<Rightarrow> string) \<Rightarrow> int \<Rightarrow> int option \<Rightarrow> bool \<Rightarrow> string option \<Rightarrow> session \<Rightarrow> history_error + message list" where
  "get_history nt max_messages max_tokens include_timestamps target s =
     bindE (history_window nt max_messages s) (\<lambda>window.
     bindE (mapE (\<lambda>m. synthesize_content nt include_timestamps (sanitize_cross_provider_replay target m))
              (filter (\<lambda>m. \<not> js_truthy (map_of m ''commandMessage'')) window)) (\<lambda>synthesized.
     let out = List.map_filter id synthesized in
     bindE (case max_tokens of
              Some budget \<Rightarrow>
                if budget > 0 \<and> out \<noteq> [] then drop_illegal nt (select_tokens nt budget out) else Inr out
            | None \<Rightarrow> Inr out) (drop_illegal nt)))"

section \<open>What a session keeps\<close>

definition add_message :: "int \<Rightarrow> int \<Rightarrow> string \<Rightarrow> json \<Rightarrow> json_obj \<Rightarrow> session \<Rightarrow> session" where
  "add_message now later role content extra s = s\<lparr>
     se_messages := se_messages s @
       [obj_merge [(''role'', JStr role), (''content'', content), (''timestamp'', JStr (to_iso_string now))] extra],
     se_updated_at := to_iso_string later\<rparr>"

definition recent_suffix :: "nat \<Rightarrow> message list \<Rightarrow> message list" where
  "recent_suffix max_messages ms =
     (let retained = js_slice_from (- int max_messages) ms in
      case index_of (role_is ''user'') retained of
        Some i \<Rightarrow> drop i retained
      | None \<Rightarrow> (case last_user_turn ms of Some t \<Rightarrow> take max_messages t | None \<Rightarrow> retained))"

definition retain_recent_legal_suffix ::
  "(jsnum \<Rightarrow> string) \<Rightarrow> int \<Rightarrow> int \<Rightarrow> session \<Rightarrow> history_error + session" where
  "retain_recent_legal_suffix nt now max_messages s =
     (if max_messages \<le> 0 then Inr (s\<lparr>se_messages := [], se_consolidated := 0\<rparr>)
      else
        bindE (drop_illegal nt (recent_suffix (nat max_messages) (se_messages s))) (\<lambda>retained.
        let capped = (if int (length retained) > max_messages then js_slice_from (- max_messages) retained else retained) in
        bindE (drop_illegal nt capped) (\<lambda>kept.
        Inr (s\<lparr>se_messages := kept,
               se_consolidated := max 0 (se_consolidated s - (int (length (se_messages s)) - int (length kept))),
               se_updated_at := to_iso_string now\<rparr>))))"

text \<open>The session, and what is handed to \<open>onArchive\<close>.\<close>

definition enforce_file_cap ::
  "(jsnum \<Rightarrow> string) \<Rightarrow> int \<Rightarrow> int \<Rightarrow> session \<Rightarrow> history_error + session \<times> message list" where
  "enforce_file_cap nt now limit s =
     (if limit \<le> 0 \<or> int (length (se_messages s)) \<le> limit then Inr (s, [])
      else
        bindE (retain_recent_legal_suffix nt now limit s) (\<lambda>s'.
        let dropped_count = int (length (se_messages s)) - int (length (se_messages s')) in
        if dropped_count \<le> 0 then Inr (s', [])
        else
          (let dropped = take (nat dropped_count) (se_messages s);
               already = min (se_consolidated s) dropped_count
           in Inr (s', js_slice_from already dropped))))"

definition clear_session :: "int \<Rightarrow> session \<Rightarrow> session" where
  "clear_session now s = s\<lparr>se_messages := [], se_consolidated := 0,
     se_metadata := meta_delete ''lastSummary'' (se_metadata s), se_updated_at := to_iso_string now\<rparr>"

section \<open>Every result has its call\<close>

definition calls :: "(jsnum \<Rightarrow> string) \<Rightarrow> string \<Rightarrow> message \<Rightarrow> bool" where
  "calls nt i m \<longleftrightarrow> role_is ''assistant'' m \<and> (case declared_ids nt m of Inr ids \<Rightarrow> i \<in> set ids | Inl _ \<Rightarrow> False)"

definition results_called :: "(jsnum \<Rightarrow> string) \<Rightarrow> message list \<Rightarrow> bool" where
  "results_called nt ms \<longleftrightarrow> (\<forall>k < length ms. role_is ''tool'' (ms ! k) \<longrightarrow>
     (case result_id nt (ms ! k) of None \<Rightarrow> True | Some i \<Rightarrow> \<exists>j < k. calls nt i (ms ! j)))"

fun legal_from :: "(jsnum \<Rightarrow> string) \<Rightarrow> string list \<Rightarrow> message list \<Rightarrow> bool" where
  "legal_from nt declared [] = True"
| "legal_from nt declared (m # ms) =
     (if role_is ''assistant'' m then (case declared_ids nt m of Inr ids \<Rightarrow> legal_from nt (declared @ ids) ms | Inl _ \<Rightarrow> False)
      else if role_is ''tool'' m then
        (case result_id nt m of Some i \<Rightarrow> i \<in> set declared | None \<Rightarrow> True) \<and> legal_from nt declared ms
      else legal_from nt declared ms)"

lemma roles_apart: "role_is ''tool'' m \<Longrightarrow> \<not> role_is ''assistant'' m"
  by (simp add: role_is_def)

lemma legal_from_called:
  assumes "legal_from nt declared ms" and "k < length ms" and "role_is ''tool'' (ms ! k)" and "result_id nt (ms ! k) = Some i"
  shows "i \<in> set declared \<or> (\<exists>j < k. calls nt i (ms ! j))"
  using assms
proof (induction nt declared ms arbitrary: k rule: legal_from.induct)
  case (2 nt declared m ms)
  show ?case
  proof (cases k)
    case 0
    with 2(4-7) roles_apart show ?thesis by (auto split: if_splits)
  next
    case (Suc l)
    note later = 2(5-7) [unfolded Suc, simplified]
    show ?thesis
    proof (cases "role_is ''assistant'' m")
      case True
      with 2(4) obtain ids where ids: "declared_ids nt m = Inr ids" "legal_from nt (declared @ ids) ms"
        by (auto split: sum.splits)
      from 2(1) [OF True ids later] show ?thesis
        using True ids(1) Suc by (fastforce simp: calls_def)
    next
      case False
      with 2(4) have "legal_from nt declared ms" by (auto split: if_splits)
      with 2(2,3) False later show ?thesis using Suc by (metis Suc_less_eq nth_Cons_Suc)
    qed
  qed
qed simp

lemma legal_from_results: "legal_from nt [] ms \<Longrightarrow> results_called nt ms"
  using legal_from_called [of nt "[]" ms] by (auto simp: results_called_def split: option.splits)

lemma legal_scan_start:
  assumes "legal_scan nt index start declared ms = Inr r"
  shows "r = start \<and> legal_from nt declared ms \<or> index < r \<and> legal_from nt [] (drop (r - index) ms)"
  using assms
proof (induction nt index start declared ms rule: legal_scan.induct)
  case (2 nt index start declared m ms)
  have shift: "drop (r - index) (m # ms) = drop (r - Suc index) ms" if "Suc index \<le> r"
  proof -
    from that have "r - index = Suc (r - Suc index)" by simp
    then show ?thesis by simp
  qed
  show ?case
  proof (cases "role_is ''assistant'' m")
    case True
    with "2.prems" obtain ids where "declared_ids nt m = Inr ids" "legal_scan nt (index + 1) start (declared @ ids) ms = Inr r"
      by (auto simp: error_simps)
    with 2(1) [OF True] True shift show ?thesis by fastforce
  next
    case False
    note other = this
    show ?thesis
    proof (cases "role_is ''tool'' m \<and> (\<exists>i. result_id nt m = Some i \<and> i \<notin> set declared)")
      case True
      then obtain i where i: "role_is ''tool'' m" "result_id nt m = Some i" "i \<notin> set declared" by blast
      with "2.prems" other have "legal_scan nt (index + 1) (index + 1) [] ms = Inr r" by simp
      with 2(4) [OF other i(1)] i shift show ?thesis by fastforce
    next
      case False
      then have here: "legal_from nt declared ms \<Longrightarrow> legal_from nt declared (m # ms)"
        using other by (auto split: option.splits)
      from "2.prems" other False have "legal_scan nt (index + 1) start declared ms = Inr r"
        by (auto split: if_splits option.splits)
      then have "r = start \<and> legal_from nt declared ms \<or> index + 1 < r \<and> legal_from nt [] (drop (r - (index + 1)) ms)"
        using "2.IH"(2-) other False by (cases "role_is ''tool'' m"; cases "result_id nt m"; simp)
      then show ?thesis using here shift by auto
    qed
  qed
qed simp

lemma drop_illegalE:
  assumes "drop_illegal nt ms = Inr out"
  obtains k where "out = drop k ms" and "legal_from nt [] out"
proof -
  from assms obtain k where k: "legal_scan nt 0 0 [] ms = Inr k" "out = drop k ms"
    by (auto simp: drop_illegal_def find_legal_message_start_def error_simps)
  from legal_scan_start [OF k(1)] have "legal_from nt [] (drop k ms)" by auto
  with k(2) that show ?thesis by blast
qed

section \<open>The history is an end of the window\<close>

lemma js_slice_from_suffix: "\<exists>k. js_slice_from i xs = drop k xs"
  by (auto simp: js_slice_from_def)

lemma length_js_slice_from: "i < 0 \<Longrightarrow> length (js_slice_from i xs) \<le> nat (- i)"
  by (auto simp: js_slice_from_def)

lemma align_window_suffix: "\<exists>k. align_window_to_user_turn ms = drop k ms"
  by (auto simp: align_window_to_user_turn_def split: option.splits intro: exI [of _ 0])

lemma pick_tokens_suffix: "\<exists>n. pick_tokens nt b u sel older = rev (take n older) @ sel"
proof (induction nt b u sel older rule: pick_tokens.induct)
  case (2 nt b u sel m older)
  show ?case
  proof (cases "sel \<noteq> [] \<and> u + int (estimate_message_tokens nt m) > b")
    case True
    then show ?thesis by (auto simp: Let_def intro: exI [of _ 0])
  next
    case False
    with 2 [OF refl False] obtain n where
      "pick_tokens nt b (u + int (estimate_message_tokens nt m)) (m # sel) older = rev (take n older) @ m # sel" by blast
    with False show ?thesis by (auto simp: Let_def intro!: exI [of _ "Suc n"])
  qed
qed simp

lemma last_user_turn_suffix:
  "last_user_turn ms = Some t \<Longrightarrow> \<exists>k. t = drop k ms \<and> t \<noteq> [] \<and> role_is ''user'' (hd t) \<and> list_all (\<lambda>m. \<not> role_is ''user'' m) (tl t)"
proof (induction ms arbitrary: t)
  case (Cons m ms)
  have none: "last_user_turn ms = None \<Longrightarrow> list_all (\<lambda>m. \<not> role_is ''user'' m) ms"
    by (induction ms) (auto split: option.splits if_splits)
  show ?case
  proof (cases "last_user_turn ms")
    case None
    with Cons.prems none show ?thesis by (auto split: if_splits intro!: exI [of _ 0])
  next
    case (Some t')
    with Cons.IH obtain k where "t' = drop k ms" "t' \<noteq> []" "role_is ''user'' (hd t')" "list_all (\<lambda>m. \<not> role_is ''user'' m) (tl t')"
      by blast
    with Some Cons.prems show ?thesis by (auto intro!: exI [of _ "Suc k"])
  qed
qed simp

lemma picked_suffix: "\<exists>k. pick_tokens nt b 0 [] (rev out) = drop k out"
proof -
  obtain n where "pick_tokens nt b 0 [] (rev out) = rev (take n (rev out)) @ []" using pick_tokens_suffix by blast
  then show ?thesis by (auto simp: rev_take intro!: exI [of _ "length out - n"])
qed

lemma select_tokens_suffix: "\<exists>k. select_tokens nt b out = drop k out"
proof -
  obtain k where k: "pick_tokens nt b 0 [] (rev out) = drop k out" using picked_suffix by blast
  show ?thesis
    using k last_user_turn_suffix [of out] by (fastforce simp: select_tokens_def Let_def split: option.splits)
qed

lemma drop_illegal_suffix: "drop_illegal nt ms = Inr out \<Longrightarrow> \<exists>k. out = drop k ms"
  by (erule drop_illegalE) blast

text \<open>The shape of a successful run.\<close>

lemma get_historyE:
  assumes "get_history nt max_messages max_tokens ts target s = Inr out"
  obtains window shown budgeted j k where
    "history_window nt max_messages s = Inr window"
    "mapE (\<lambda>m. synthesize_content nt ts (sanitize_cross_provider_replay target m))
       (filter (\<lambda>m. \<not> js_truthy (map_of m ''commandMessage'')) window) = Inr shown"
    "out = drop k budgeted" "legal_from nt [] out"
    "budgeted = List.map_filter id shown \<and> (\<forall>b. max_tokens = Some b \<longrightarrow> b \<le> 0 \<or> List.map_filter id shown = [])
     \<or> (\<exists>b. max_tokens = Some b \<and> b > 0 \<and> budgeted = drop j (select_tokens nt b (List.map_filter id shown)))"
proof -
  from assms obtain window shown budgeted where
    w: "history_window nt max_messages s = Inr window" and
    m: "mapE (\<lambda>m. synthesize_content nt ts (sanitize_cross_provider_replay target m))
       (filter (\<lambda>m. \<not> js_truthy (map_of m ''commandMessage'')) window) = Inr shown" and
    b: "(case max_tokens of
          Some budget \<Rightarrow> if budget > 0 \<and> List.map_filter id shown \<noteq> []
            then drop_illegal nt (select_tokens nt budget (List.map_filter id shown)) else Inr (List.map_filter id shown)
        | None \<Rightarrow> Inr (List.map_filter id shown)) = Inr budgeted" and
    o: "drop_illegal nt budgeted = Inr out"
    by (auto simp: get_history_def Let_def error_simps)
  from o obtain k where k: "out = drop k budgeted" "legal_from nt [] out" by (rule drop_illegalE)
  show ?thesis
  proof (cases "\<exists>budget. max_tokens = Some budget \<and> budget > 0 \<and> List.map_filter id shown \<noteq> []")
    case True
    with b obtain budget j where "max_tokens = Some budget" "budget > 0"
      "budgeted = drop j (select_tokens nt budget (List.map_filter id shown))"
      using drop_illegal_suffix by fastforce
    then show ?thesis using that [OF w m k, of j] by blast
  next
    case False
    with b have "budgeted = List.map_filter id shown" by (auto split: option.splits if_splits)
    then show ?thesis using that [OF w m k, of 0] False by fastforce
  qed
qed

lemma budgeted_suffix:
  assumes "budgeted = xs \<or> (\<exists>b. budgeted = drop j (select_tokens nt b xs))"
  shows "\<exists>k. budgeted = drop k xs"
  using assms select_tokens_suffix by (metis drop_0 drop_drop)

lemma length_map_filter_le: "length (List.map_filter f xs) \<le> length xs"
  by (simp add: List.map_filter_def)

lemma history_window_spec:
  assumes "history_window nt max_messages s = Inr window"
  shows "\<exists>k. window = drop k (js_slice_from (se_consolidated s) (se_messages s))"
    and "int (length window) \<le> (if max_messages > 0 then max_messages else 120)"
proof -
  let ?visible = "js_slice_from (se_consolidated s) (se_messages s)"
  let ?limit = "if max_messages > 0 then max_messages else 120"
  from assms obtain k where k: "window = drop k (align_window_to_user_turn (js_slice_from (- ?limit) ?visible))"
    unfolding history_window_def Let_def by (elim drop_illegalE) blast
  obtain j where j: "align_window_to_user_turn (js_slice_from (- ?limit) ?visible) = drop j (js_slice_from (- ?limit) ?visible)"
    using align_window_suffix by blast
  obtain i where i: "js_slice_from (- ?limit) ?visible = drop i ?visible" using js_slice_from_suffix by blast
  show "\<exists>k. window = drop k ?visible" using k j i by (metis drop_drop)
  have "length (js_slice_from (- ?limit) ?visible) \<le> nat ?limit"
    using length_js_slice_from [of "- ?limit" ?visible] by (cases "max_messages > 0") auto
  then have "length window \<le> nat ?limit" unfolding k j by simp
  then show "int (length window) \<le> ?limit" by (cases "max_messages > 0") auto
qed

text \<open>
  C39: What a model is shown of a session. No result of a tool call is shown without the message of the
  assistant that made the call before it; at most the configured number of messages is shown; and
  what is shown is the cleaned form of an end of the messages that are not consolidated yet, without
  commands and empty answers.
\<close>

theorem get_history_spec:
  assumes "get_history nt max_messages max_tokens ts target s = Inr out"
  shows "results_called nt out \<and> int (length out) \<le> (if max_messages > 0 then max_messages else 120)
     \<and> (\<exists>j k shown. mapE (\<lambda>m. synthesize_content nt ts (sanitize_cross_provider_replay target m))
            (filter (\<lambda>m. \<not> js_truthy (map_of m ''commandMessage'')) (drop j (js_slice_from (se_consolidated s) (se_messages s))))
          = Inr shown \<and> out = drop k (List.map_filter id shown))"
  using assms
proof (rule get_historyE)
  fix window shown budgeted j k
  assume w: "history_window nt max_messages s = Inr window"
    and m: "mapE (\<lambda>m. synthesize_content nt ts (sanitize_cross_provider_replay target m))
       (filter (\<lambda>m. \<not> js_truthy (map_of m ''commandMessage'')) window) = Inr shown"
    and out: "out = drop k budgeted" "legal_from nt [] out"
    and b: "budgeted = List.map_filter id shown \<and> (\<forall>b. max_tokens = Some b \<longrightarrow> b \<le> 0 \<or> List.map_filter id shown = [])
     \<or> (\<exists>b. max_tokens = Some b \<and> b > 0 \<and> budgeted = drop j (select_tokens nt b (List.map_filter id shown)))"
  from b budgeted_suffix obtain i where i: "budgeted = drop i (List.map_filter id shown)" by blast
  have "length shown \<le> length window"
    using m by (metis length_filter_le list_all2_lengthD mapE_eq_Inr)
  then have "length out \<le> length window"
    unfolding out(1) i using length_map_filter_le [of id shown] by simp
  moreover obtain l where "window = drop l (js_slice_from (se_consolidated s) (se_messages s))"
    using history_window_spec(1) [OF w] by blast
  ultimately show ?thesis
    using history_window_spec(2) [OF w] legal_from_results [OF out(2)] m out(1) i
    by (intro conjI) (auto simp: add.commute)
qed

section \<open>The budget of tokens\<close>

definition tokens_of :: "(jsnum \<Rightarrow> string) \<Rightarrow> message list \<Rightarrow> int" where
  "tokens_of nt ms = (\<Sum>m \<leftarrow> ms. int (estimate_message_tokens nt m))"

lemma tokens_of_simps [simp]:
  "tokens_of nt [] = 0" "tokens_of nt (m # ms) = int (estimate_message_tokens nt m) + tokens_of nt ms"
  by (simp_all add: tokens_of_def)

lemma tokens_of_nonneg: "0 \<le> tokens_of nt ms"
  by (induction ms) auto

lemma tokens_of_drop: "tokens_of nt (drop k ms) \<le> tokens_of nt ms"
proof -
  have "tokens_of nt ms = tokens_of nt (take k ms) + tokens_of nt (drop k ms)"
    by (metis append_take_drop_id map_append sum_list_append tokens_of_def)
  with tokens_of_nonneg [of nt "take k ms"] show ?thesis by simp
qed

lemma pick_tokens_budget:
  assumes "u = tokens_of nt sel" and "length sel \<le> 1 \<or> u \<le> b"
  shows "length (pick_tokens nt b u sel older) \<le> 1 \<or> tokens_of nt (pick_tokens nt b u sel older) \<le> b"
  using assms
proof (induction nt b u sel older rule: pick_tokens.induct)
  case (2 nt b u sel m older)
  show ?case
  proof (cases "sel \<noteq> [] \<and> u + int (estimate_message_tokens nt m) > b")
    case True
    with 2 show ?thesis by (auto simp: Let_def)
  next
    case False
    then have "length (m # sel) \<le> 1 \<or> u + int (estimate_message_tokens nt m) \<le> b" by (cases sel) auto
    with 2(1) [OF refl False] 2(2) False show ?thesis by (auto simp: Let_def)
  qed
qed simp

text \<open>
  The budget of tokens is kept: what is shown is within it, by the estimate of the program, or it
  holds no message of the user but its first, so that nothing older than the last turn is shown.
\<close>

theorem history_token_budget:
  assumes "get_history nt max_messages (Some b) ts target s = Inr out" and "b > 0"
  shows "tokens_of nt out \<le> b \<or> list_all (\<lambda>m. \<not> role_is ''user'' m) (tl out)"
  using assms(1)
proof (rule get_historyE)
  fix window budgeted j k and shown :: "message option list"
  let ?xs = "List.map_filter id shown"
  assume out: "out = drop k budgeted"
    and bud: "budgeted = ?xs \<and> (\<forall>b'. Some b = Some b' \<longrightarrow> b' \<le> 0 \<or> ?xs = [])
     \<or> (\<exists>b'. Some b = Some b' \<and> b' > 0 \<and> budgeted = drop j (select_tokens nt b' ?xs))"
  let ?good = "\<lambda>ms. tokens_of nt ms \<le> b \<or> list_all (\<lambda>m. \<not> role_is ''user'' m) (tl ms)"
  have short: "?good ms" if "length ms \<le> 1" for ms
    using that by (cases ms) auto
  have suffix: "?good (drop i ms)" if "?good ms" for i ms
    using that tokens_of_drop [of nt i ms]
    by (auto simp: list_all_iff tl_drop dest: in_set_dropD)
  have "?good (select_tokens nt b ?xs)"
  proof -
    define sel where "sel = pick_tokens nt b 0 [] (rev ?xs)"
    have "?good sel" using pick_tokens_budget [of 0 nt "[]" b "rev ?xs"] short [of sel] by (auto simp: sel_def)
    moreover have "?good t" if "last_user_turn ?xs = Some t" for t
      using last_user_turn_suffix [OF that] by auto
    ultimately show ?thesis
      using suffix by (auto simp: select_tokens_def Let_def sel_def [symmetric] split: option.splits)
  qed
  with bud suffix out assms(2) show ?thesis by auto
qed

section \<open>What is kept and what is archived\<close>

lemma recent_suffix_spec:
  assumes "m \<in> set (js_slice_from (- int n) ms)" and "role_is ''user'' m"
    and "n > 0"
  shows "\<exists>k. recent_suffix n ms = drop k ms" and "length (recent_suffix n ms) \<le> n"
proof -
  obtain i where i: "index_of (role_is ''user'') (js_slice_from (- int n) ms) = Some i"
    using assms index_of_None by (metis option.exhaust)
  obtain j where j: "js_slice_from (- int n) ms = drop j ms" using js_slice_from_suffix by blast
  have eq: "recent_suffix n ms = drop i (js_slice_from (- int n) ms)" by (simp add: recent_suffix_def i)
  then show "\<exists>k. recent_suffix n ms = drop k ms" using j by auto
  have "length (js_slice_from (- int n) ms) \<le> n"
    using assms(3) by (auto simp: js_slice_from_def)
  then show "length (recent_suffix n ms) \<le> n" by (simp add: eq)
qed

lemma retain_spec:
  assumes "retain_recent_legal_suffix nt now limit s = Inr s'" and "limit > 0"
    and "m \<in> set (js_slice_from (- limit) (se_messages s))" and "role_is ''user'' m"
  shows "(\<exists>k. se_messages s' = drop k (se_messages s)) \<and> int (length (se_messages s')) \<le> limit \<and> legal_from nt [] (se_messages s')
     \<and> se_consolidated s' = max 0 (se_consolidated s - (int (length (se_messages s)) - int (length (se_messages s'))))"
proof -
  let ?ms = "se_messages s" and ?r = "recent_suffix (nat limit) (se_messages s)"
  have lim: "- limit = - int (nat limit)" using assms(2) by simp
  have "nat limit > 0" using assms(2) by simp
  note recent = recent_suffix_spec [OF assms(3) [unfolded lim] assms(4) this]
  from assms(1,2) obtain retained kept where r: "drop_illegal nt ?r = Inr retained"
    and k: "drop_illegal nt (if int (length retained) > limit then js_slice_from (- limit) retained else retained) = Inr kept"
    and s': "s' = s\<lparr>se_messages := kept,
       se_consolidated := max 0 (se_consolidated s - (int (length ?ms) - int (length kept))), se_updated_at := to_iso_string now\<rparr>"
    by (auto simp: retain_recent_legal_suffix_def Let_def error_simps)
  obtain i where i: "retained = drop i ?r" using drop_illegal_suffix [OF r] by blast
  have short: "int (length retained) \<le> limit" using recent(2) assms(2) unfolding i by simp
  with k have k: "drop_illegal nt retained = Inr kept" by simp
  from k obtain j where j: "kept = drop j retained" "legal_from nt [] kept" by (rule drop_illegalE)
  have "\<exists>l. kept = drop l ?ms" using i j(1) recent(1) by auto
  moreover have "int (length kept) \<le> limit" using short j(1) by simp
  ultimately show ?thesis using j(2) by (simp add: s')
qed

text \<open>
  C40: The cap of the session file loses nothing. As long as one of the newest messages is from the
  user, the messages that are neither consolidated nor archived before are afterwards either handed to
  the archive or still there, in order and each once; what stays is within the limit, and no result
  of a tool call has lost its call.
\<close>

theorem enforce_file_cap_spec:
  assumes "enforce_file_cap nt now limit s = Inr (s', archived)" and "limit > 0"
    and "m \<in> set (js_slice_from (- limit) (se_messages s))" and "role_is ''user'' m"
    and "0 \<le> se_consolidated s"
  shows "archived @ js_slice_from (se_consolidated s') (se_messages s') = js_slice_from (se_consolidated s) (se_messages s)
     \<and> int (length (se_messages s')) \<le> limit \<and> 0 \<le> se_consolidated s'
     \<and> (int (length (se_messages s)) > limit \<longrightarrow> results_called nt (se_messages s'))"
proof (cases "int (length (se_messages s)) \<le> limit")
  case True
  with assms show ?thesis by (simp add: enforce_file_cap_def)
next
  case False
  let ?ms = "se_messages s"
  from False assms(1,2) obtain s1 where s1: "retain_recent_legal_suffix nt now limit s = Inr s1"
    and rest: "(let dropped_count = int (length ?ms) - int (length (se_messages s1)) in
        if dropped_count \<le> 0 then Inr (s1, [])
        else (let dropped = take (nat dropped_count) ?ms; already = min (se_consolidated s) dropped_count
           in Inr (s1, js_slice_from already dropped))) = (Inr (s', archived) :: history_error + session \<times> message list)"
    by (auto simp: enforce_file_cap_def error_simps)
  from retain_spec [OF s1 assms(2-4)] obtain k where k: "se_messages s1 = drop k ?ms"
    and len: "int (length (se_messages s1)) \<le> limit" and legal: "legal_from nt [] (se_messages s1)"
    and con: "se_consolidated s1 = max 0 (se_consolidated s - (int (length ?ms) - int (length (se_messages s1))))"
    by blast
  define d where "d = length ?ms - length (se_messages s1)"
  have shorter: "length (se_messages s1) < length ?ms" using False len by simp
  have "d = min k (length ?ms)" by (simp add: d_def k)
  then have "se_messages s1 = drop d ?ms" using k by (simp add: min_def)
  moreover have "0 < d" "int (length ?ms) - int (length (se_messages s1)) = int d"
    using shorter by (simp_all add: d_def)
  ultimately have d: "0 < d" "int (length ?ms) - int (length (se_messages s1)) = int d" "se_messages s1 = drop d ?ms"
    by blast+
  with rest have s': "s' = s1" "archived = js_slice_from (min (se_consolidated s) (int d)) (take d ?ms)"
    by (auto simp: Let_def)
  have "archived @ js_slice_from (se_consolidated s1) (drop d ?ms) = js_slice_from (se_consolidated s) ?ms"
  proof (cases "se_consolidated s \<le> int d")
    case True
    then have "nat (se_consolidated s) \<le> d" by simp
    then have "drop (nat (se_consolidated s)) ?ms = drop (nat (se_consolidated s)) (take d ?ms) @ drop d ?ms"
      by (metis append_take_drop_id drop_append diff_is_0_eq drop_0 length_take min.absorb2 d_def diff_le_self)
    with True assms(5) con d(2) show ?thesis by (simp add: s'(2) js_slice_from_def)
  next
    case False
    with con d(2) have "se_consolidated s1 = se_consolidated s - int d" by simp
    with False show ?thesis by (simp add: s'(2) js_slice_from_def nat_diff_distrib)
  qed
  with d(3) con len legal_from_results [OF legal] show ?thesis by (simp add: s'(1))
qed

end
