(* ===== verification/Dag_Snapshot.thy ===== *)
theory Dag_Snapshot
  imports Dag_Apply Session_History
begin

text \<open>
  The snapshot of the session DAG that goes into the system prompt (\<open>session-dag/snapshot.ts\<close>): which
  nodes it holds within a budget of tokens, and its text.
\<close>

section \<open>The text\<close>

fun kind_str :: "node_kind \<Rightarrow> string" where
  "kind_str KTask = ''task''"
| "kind_str KSubtask = ''subtask''"
| "kind_str KDecision = ''decision''"

fun status_str :: "node_status \<Rightarrow> string" where
  "status_str SActive = ''active''"
| "status_str SDone = ''done''"
| "status_str SFailed = ''failed''"
| "status_str SBlocked = ''blocked''"
| "status_str SFrozen = ''frozen''"

lemma parse_kind_str: "parse_kind (kind_str k) = Some k"
  by (cases k) (simp_all add: parse_kind_def)

lemma parse_node_status_str: "parse_status (status_str s) = Some s"
  by (cases s) (simp_all add: parse_status_def)

definition int_str :: "int \<Rightarrow> string" where
  "int_str i = (if i < 0 then CHR ''-'' # nat_str (nat (- i)) else nat_str (nat i))"

text \<open>A property in a template: \<open>undefined\<close> when it is missing.\<close>

definition field_str :: "string option \<Rightarrow> string" where
  "field_str v = (case v of None \<Rightarrow> ''undefined'' | Some s \<Rightarrow> s)"

definition ref_line :: "string \<Rightarrow> source_ref \<Rightarrow> string" where
  "ref_line indent r =
     (case sr_type r of
        RFile \<Rightarrow> indent @ ''- file '' @ field_str (sr_path r)
          @ (case sr_line r of None \<Rightarrow> [] | Some l \<Rightarrow> if l = 0 then [] else CHR '':'' # int_str l)
      | RArtifact \<Rightarrow> indent @ ''- artifact '' @ field_str (sr_artifact_path r)
      | RUrl \<Rightarrow> indent @ ''- url '' @ field_str (sr_url r))"

definition node_lines :: "string \<Rightarrow> dag_node \<Rightarrow> string list" where
  "node_lines indent n =
     [''- ['' @ kind_str (n_kind n) @ '' '' @ status_str (n_status n) @ '' importance='' @ int_str (n_importance n) @ ''] '' @ n_title n,
      indent @ ''summary: '' @ n_summary n]
     @ (if n_refs n = [] then [] else (indent @ ''refs:'') # map (ref_line indent) (n_refs n))"

definition append_node_list :: "string \<Rightarrow> dag_node list \<Rightarrow> string list" where
  "append_node_list indent nodes = (if nodes = [] then [''- (none)''] else concat (map (node_lines indent) nodes))"

definition by_importance :: "dag_node \<Rightarrow> dag_node \<Rightarrow> int" where
  "by_importance left right =
     then_cmp (n_importance right - n_importance left)
       (then_cmp (n_updated_at right - n_updated_at left) (cmp_str (n_id left) (n_id right)))"

definition path_in :: "dag_graph \<Rightarrow> string list \<Rightarrow> dag_node list" where
  "path_in g selected =
     filter (\<lambda>n. n_id n \<in> set selected)
       (List.map_filter (\<lambda>i. find (\<lambda>n. n_id n = i) (gr_nodes g)) (gr_path_nodes g))"

definition closed_in :: "dag_graph \<Rightarrow> string list \<Rightarrow> node_status set \<Rightarrow> dag_node list" where
  "closed_in g selected statuses =
     sort_cmp by_importance
       (filter (\<lambda>n. n_kind n = KTask \<and> n_status n \<in> statuses \<and> n_id n \<notin> set (map n_id (path_in g selected)))
         (filter (\<lambda>n. n_id n \<in> set selected) (gr_nodes g)))"

definition render_snapshot_text :: "dag_graph \<Rightarrow> string list \<Rightarrow> string" where
  "render_snapshot_text g selected =
     join_with [CHR 10]
       ([''[Working Memory DAG Snapshot]'', [], ''current_active_path:''] @ append_node_list ''  '' (path_in g selected)
        @ [[], ''completed_tasks:''] @ append_node_list ''  '' (closed_in g selected {SDone})
        @ [[], ''frozen_or_failed_tasks:''] @ append_node_list ''  '' (closed_in g selected {SFailed, SFrozen}))"

section \<open>The selection\<close>

text \<open>No number occurs in the message whose tokens are estimated.\<close>

definition snapshot_tokens :: "string \<Rightarrow> nat" where
  "snapshot_tokens snapshot =
     estimate_message_tokens (\<lambda>_. []) [(''role'', JStr ''system''), (''content'', JStr snapshot)]"

definition ranked_tasks :: "dag_graph \<Rightarrow> string list \<Rightarrow> dag_node list" where
  "ranked_tasks g selected =
     sort_cmp by_importance
       (filter (\<lambda>n. n_id n \<notin> set selected \<and> n_kind n = KTask \<and> n_status n \<in> {SDone, SFailed, SFrozen}) (gr_nodes g))"

definition over_budget :: "dag_graph \<Rightarrow> int option \<Rightarrow> string list \<Rightarrow> bool" where
  "over_budget g budget selected =
     (case budget of None \<Rightarrow> False
      | Some b \<Rightarrow> b > 0 \<and> int (snapshot_tokens (render_snapshot_text g selected)) > b)"

text \<open>A JavaScript set keeps the order in which its elements were added.\<close>

fun add_ranked :: "dag_graph \<Rightarrow> int option \<Rightarrow> string list \<Rightarrow> dag_node list \<Rightarrow> string list" where
  "add_ranked g budget selected [] = selected"
| "add_ranked g budget selected (n # ns) =
     (let more = (if n_id n \<in> set selected then selected else selected @ [n_id n]) in
      if over_budget g budget more then filter (\<lambda>i. i \<noteq> n_id n) more
      else add_ranked g budget more ns)"

definition path_ids :: "dag_graph \<Rightarrow> string list" where
  "path_ids g = rev (remdups (rev (filter (\<lambda>i. i \<in> n_id ` set (gr_nodes g)) (gr_path_nodes g))))"

definition select_snapshot_nodes :: "dag_graph \<Rightarrow> int option \<Rightarrow> string list" where
  "select_snapshot_nodes g budget =
     add_ranked g budget (path_ids g) (ranked_tasks g (path_ids g))"

record snapshot_draft =
  sd_text :: string
  sd_json :: json_obj
  sd_tokens :: nat

definition build_dag_snapshot_text :: "dag_graph \<Rightarrow> int option \<Rightarrow> snapshot_draft" where
  "build_dag_snapshot_text g budget =
     (let selected = select_snapshot_nodes g budget; snapshot = render_snapshot_text g selected
      in \<lparr>sd_text = snapshot,
          sd_json = [(''sessionKey'', JStr (gr_session_key g)), (''nodeIds'', JArr (map JStr selected)),
            (''activePathNodeIds'', JArr (map JStr (gr_path_nodes g))), (''activePathEdgeIds'', JArr (map JStr (gr_path_edges g)))],
          sd_tokens = snapshot_tokens snapshot\<rparr>)"

definition build_snapshot ::
  "int \<Rightarrow> nat \<times> nat list \<Rightarrow> int option \<Rightarrow> string option \<Rightarrow> dag_store \<Rightarrow> store_error + dag_snapshot \<times> dag_store" where
  "build_snapshot now id_src budget turn_id st =
     (let draft = build_dag_snapshot_text (read_graph_for_history_dag st) budget;
          turn = (case turn_id of Some t \<Rightarrow> Some t | None \<Rightarrow> get_meta st ''last_processed_turn_id'')
      in create_snapshot now id_src turn (sd_text draft) (sd_json draft) (of_nat (sd_tokens draft)) st)"

definition refresh_graph_active_path :: "dag_graph \<Rightarrow> dag_graph" where
  "refresh_graph_active_path g =
     (let path = derive_active_path_selection (gr_nodes g) (gr_edges g)
      in g\<lparr>gr_path_nodes := p_nodes path, gr_path_edges := p_edges path\<rparr>)"

section \<open>The selection is the longest that fits\<close>

lemma add_ranked_spec:
  assumes "distinct (selected @ map n_id ns)"
  shows "\<exists>k \<le> length ns. add_ranked g budget selected ns = selected @ map n_id (take k ns)
     \<and> (k > 0 \<longrightarrow> \<not> over_budget g budget (selected @ map n_id (take k ns)))
     \<and> (k < length ns \<longrightarrow> over_budget g budget (selected @ map n_id (take (Suc k) ns)))"
  using assms
proof (induction ns arbitrary: selected)
  case (Cons n ns)
  let ?more = "selected @ [n_id n]"
  from Cons.prems have new: "n_id n \<notin> set selected" and d: "distinct (?more @ map n_id ns)" by auto
  show ?case
  proof (cases "over_budget g budget ?more")
    case True
    moreover have "filter (\<lambda>i. i \<noteq> n_id n) selected = selected" using new by (auto simp: filter_id_conv)
    ultimately show ?thesis using new by (intro exI [of _ 0]) simp
  next
    case False
    from Cons.IH [OF d] obtain k where k: "k \<le> length ns" "add_ranked g budget ?more ns = ?more @ map n_id (take k ns)"
      "k > 0 \<Longrightarrow> \<not> over_budget g budget (?more @ map n_id (take k ns))"
      "k < length ns \<Longrightarrow> over_budget g budget (?more @ map n_id (take (Suc k) ns))" by blast
    with False new show ?thesis by (cases k) (auto intro!: exI [of _ "Suc k"])
  qed
qed simp

lemma set_path_ids: "set (path_ids g) = {i \<in> set (gr_path_nodes g). i \<in> n_id ` set (gr_nodes g)}"
  by (auto simp: path_ids_def)

lemma ranked_tasks_new:
  assumes "distinct (map n_id (gr_nodes g))"
  shows "distinct (selected @ map n_id (ranked_tasks g selected)) = distinct selected"
proof -
  have "distinct (map n_id (ranked_tasks g selected))"
  proof -
    have "mset (map n_id (ranked_tasks g selected))
        \<subseteq># mset (map n_id (gr_nodes g))"
      by (simp add: ranked_tasks_def image_mset_subseteq_mono multiset_filter_subset)
    with assms show ?thesis by (metis distinct_append mset_append mset_eq_imp_distinct_iff subset_mset.le_iff_add ex_mset)
  qed
  then show ?thesis by (auto simp: ranked_tasks_def)
qed

text \<open>
  What the snapshot holds. It starts with the known nodes of the active path and goes on with the
  closed tasks, the most important first, as many as the budget of tokens allows: whenever a closed
  task is in, the estimate of the text is within the budget, and the first task that is left out would
  exceed it. Without a budget every closed task is in.
\<close>

theorem snapshot_selection:
  assumes "distinct (map n_id (gr_nodes g))"
  shows "\<exists>k. let ranked = map n_id (ranked_tasks g (path_ids g)); selected = path_ids g @ take k ranked
     in select_snapshot_nodes g budget = selected \<and> k \<le> length ranked
        \<and> (k > 0 \<longrightarrow> \<not> over_budget g budget selected)
        \<and> (k < length ranked \<longrightarrow> over_budget g budget (path_ids g @ take (Suc k) ranked))
        \<and> set (path_ids g) = {i \<in> set (gr_path_nodes g). i \<in> n_id ` set (gr_nodes g)}
        \<and> sd_tokens (build_dag_snapshot_text g budget) = snapshot_tokens (render_snapshot_text g selected)"
proof -
  have "distinct (path_ids g @ map n_id (ranked_tasks g (path_ids g)))"
    unfolding ranked_tasks_new [OF assms] by (simp add: path_ids_def)
  from add_ranked_spec [OF this, of g budget] show ?thesis
    by (auto simp: Let_def select_snapshot_nodes_def build_dag_snapshot_text_def set_path_ids take_map)
qed

end
