(* ===== verification/Dag_Queue_Example.thy ===== *)
theory Dag_Queue_Example
  imports Dag_Example Dag_Queue Dag_Snapshot
begin

text \<open>
  The session of \<^verbatim>\<open>Dag_Example\<close> with its builder and its queue: the theorems of the builder and of
  the queue at concrete inputs.
\<close>

section \<open>The builder\<close>

definition ex_texts :: fallback_texts where
  "ex_texts = \<lparr>ft_task_title = ''task'', ft_task_summary = ''task'', ft_turn_title = ''turn'', ft_turn_summary = ''turn'',
     ft_blank_title = ''turn'', ft_blank_summary = ''turn''\<rparr>"

definition ex_open_store :: dag_store where
  "ex_open_store = \<lparr>ds_session = ''s'', ds_meta = Map.empty, ds_turns = [],
     ds_nodes = [ex_node ''a'' KTask SActive None 1, ex_node ''b'' KSubtask SActive None 1],
     ds_edges = [ex_edge ''e1'' ''a'' ''b'' Decomposes], ds_snaps = []\<rparr>"

definition ex_plain_turn :: dag_turn where
  "ex_plain_turn = new_turn 5 (ex_turn None)"

lemma ex_open_facts:
  "store_ok ex_open_store" "children_reachable ex_open_store" "length (open_tasks ex_open_store) \<le> 1"
  "sides_ok (t_id ex_plain_turn) ex_open_store"
  "t_start ex_plain_turn < t_end ex_plain_turn" "turn_goal ex_plain_turn = None"
  "existing_task (read_nodes ex_open_store) = Some (ex_node ''a'' KTask SActive None 1)"
  by code_simp+

lemma ex_fresh: "fresh_env ex_env ex_open_store"
  by (simp add: fresh_env_def ex_open_store_def ex_node_def ex_edge_def)


definition ex_frozen_store :: dag_store where
  "ex_frozen_store = ex_open_store\<lparr>ds_nodes := [ex_node ''a'' KTask SFrozen None 1, ex_node ''b'' KSubtask SActive None 1]\<rparr>"

theorem fallback_frozen_stuck_witness:
  "\<exists>e. apply_deterministic_fallback ex_texts ex_env ex_plain_turn ex_frozen_store = Inl e"
proof (rule fallback_frozen_stuck)
  show "store_ok ex_frozen_store" "existing_task (read_nodes ex_frozen_store) = None" by code_simp+
  show "select_root_task (read_nodes ex_frozen_store) = Some (ex_node ''a'' KTask SFrozen None 1)" by code_simp
qed

text \<open>An answer that adds a subtask to the open task.\<close>

definition ex_answer :: json where
  "ex_answer = JObj [(''ops'', JArr [
      JObj [(''op'', JStr ''add_node''), (''temp_id'', JStr ''n0''), (''kind'', JStr ''subtask''), (''status'', JStr ''active''),
            (''title'', JStr ''t''), (''summary'', JStr ''s''), (''importance'', JNum (Fin 50))],
      JObj [(''op'', JStr ''add_edge''), (''source_id'', JStr ''a''), (''target_id'', JStr ''n0''), (''type'', JStr ''decomposes'')]])]"

definition ex_builder :: builder where
  "ex_builder = \<lparr>bu_nt = (\<lambda>_. ''0''), bu_parse = (\<lambda>_. Some ex_answer), bu_repair = (\<lambda>_. None),
     bu_respond = (\<lambda>_ _ _. Inr (Some (JStr ''ok''))), bu_max_nodes = 20, bu_texts = ex_texts\<rparr>"

definition ex_messages :: "json_obj list" where
  "ex_messages = replicate 4 [(''role'', JStr ''user''), (''content'', JStr ''hi'')]"

definition ex_child :: add_node_op where
  "ex_child = \<lparr>a_temp_id = ''n0'', a_kind = KSubtask, a_status = SActive, a_title = ''t'', a_summary = ''s'',
     a_importance = 50, a_detail = Some [], a_refs = Some []\<rparr>"

definition ex_child_edge :: add_edge_op where
  "ex_child_edge = \<lparr>ae_source = ''a'', ae_target = ''n0'', ae_type = Decomposes\<rparr>"

lemma ex_patch:
  "validate_dag_patch ex_answer (context_kinds (read_builder_context 20 ex_open_store)) = Inr [AddNode ex_child, AddEdge ex_child_edge]"
  "normalize_dag_task_transition [AddNode ex_child, AddEdge ex_child_edge] (read_builder_context 20 ex_open_store) None
     = Inr [AddNode ex_child, AddEdge ex_child_edge]"
  by code_simp+

lemma ex_build: "\<exists>s. build_and_apply ex_builder (Some ex_messages) ex_env ex_plain_turn ex_open_store = Inr s"
proof -
  have "get_node ex_open_store ''a'' = Some (ex_node ''a'' KTask SActive None 1)" by code_simp
  then have "\<exists>s. apply_patch (turn_to_input ex_plain_turn) [AddNode ex_child, AddEdge ex_child_edge] LlmPatch (Some ByLlmPatch) ex_env ex_open_store
      = Inr s \<and> as_tasks s = [] \<and> as_children s = [''n_'' @ new_sortable_id (pe_ids ex_env 0)]"
    by (intro child_patch_applies [OF ex_open_facts(1-4) ex_fresh ex_open_facts(5,6)])
      (simp_all add: ex_child_def ex_child_edge_def)
  moreover have "case read_turn_messages (bu_nt ex_builder) ex_messages ex_plain_turn of Inr _ \<Rightarrow> True | Inl _ \<Rightarrow> False"
    by code_simp
  then obtain ms where "read_turn_messages (bu_nt ex_builder) ex_messages ex_plain_turn = Inr ms"
    by (auto split: sum.splits)
  moreover have "parse_patch_json (bu_parse ex_builder) (bu_repair ex_builder) (Some (JStr ''ok'')) = Inr ex_answer"
    by code_simp
  moreover have "bu_respond ex_builder = (\<lambda>_ _ _. Inr (Some (JStr ''ok'')))" "bu_max_nodes ex_builder = 20"
    by (simp_all add: ex_builder_def)
  ultimately show ?thesis
    using ex_patch ex_open_facts(6) by (auto simp: build_and_apply_def map_error_def Let_def)
qed


section \<open>The queue\<close>

definition ex_cfg :: queue_config where
  "ex_cfg = \<lparr>qc_backoff = [1000, 5000], qc_max_attempts = 3\<rparr>"

definition ex_queue_store :: dag_store where
  "ex_queue_store = ex_open_store\<lparr>ds_turns := [ex_plain_turn]\<rparr>"

text \<open>The turn is claimed, and its building fails once.\<close>

definition ex_claimed :: dag_queue where
  "ex_claimed = q_claim 9 (start_queue ex_queue_store)"

definition ex_failed :: dag_queue where
  "ex_failed = q_built ex_cfg 10 (Failed ''no answer'') (Failed []) ex_claimed"

lemma ex_start_running: "dq_running (start_queue ex_queue_store)" "dq_current (start_queue ex_queue_store) = None"
  "\<not> dq_returned (start_queue ex_queue_store)" "dq_running ex_claimed" "dq_current ex_claimed \<noteq> None"
  by code_simp+

lemma ex_queue_steps:
  "queue_step race commits ex_cfg (start_queue ex_queue_store) ex_claimed" "queue_step race commits ex_cfg ex_claimed ex_failed"
  "worker_step commits ex_cfg (start_queue ex_queue_store) ex_claimed" "worker_step commits ex_cfg ex_claimed ex_failed"
  using ex_start_running unfolding ex_failed_def
  by (auto simp: ex_claimed_def intro!: queue_step.claim queue_step.built worker_step.claim worker_step.built)

lemma ex_queue_start: "distinct (map t_id (ds_turns ex_queue_store))" "list_all (turn_inv ex_cfg) (ds_turns ex_queue_store)"
  by code_simp+


theorem worker_terminates_witness:
  "(2::nat) \<le> 2 * undone (dq_store (start_queue ex_queue_store)) + 2"
proof -
  have "(worker_step (builder_commits ex_builder None) ex_cfg ^^ 2) (start_queue ex_queue_store) ex_failed"
    using ex_queue_steps(3,4) by (auto simp: numeral_2_eq_2)
  moreover have "queue_inv ex_cfg (start_queue ex_queue_store)"
    using start_queue_inv [OF ex_queue_start] by blast
  ultimately show ?thesis using worker_terminates by blast
qed

theorem slots_shared_witness:
  "sl_waiting (slot_enter 1 ''b'' (slot_enter 1 ''a'' no_slots)) = [''b'']
     \<and> sl_active (slot_enter 1 ''b'' (slot_enter 1 ''a'' no_slots)) \<le> 1"
proof -
  have "sl_resolved no_slots = []" "sl_resolved (slot_enter 1 ''a'' no_slots) = []" by code_simp+
  then have "slot_step False 1 no_slots (slot_enter 1 ''a'' no_slots)"
    "slot_step False 1 (slot_enter 1 ''a'' no_slots) (slot_enter 1 ''b'' (slot_enter 1 ''a'' no_slots))"
    by (auto intro: slot_step.enter)
  then have "(slot_step False 1)\<^sup>*\<^sup>* no_slots (slot_enter 1 ''b'' (slot_enter 1 ''a'' no_slots))"
    by (meson converse_rtranclp_into_rtranclp rtranclp.rtrancl_refl)
  from slots_shared [OF this] show ?thesis by (simp add: slot_enter_def no_slots_def)
qed

section \<open>Behaviours worth knowing\<close>

text \<open>
  A later turn is claimed while an earlier one waits for its retry. Its commit makes
  \<open>hasProcessedThrough\<close> true of the earlier turn, which has not been processed.
\<close>

definition ex_two_turns :: dag_store where
  "ex_two_turns = ex_open_store\<lparr>ds_turns := [ex_plain_turn, new_turn 6 ((ex_turn None)\<lparr>ti_id := ''t3'', ti_start := 4, ti_end := 6\<rparr>)]\<rparr>"

definition ex_overtaken :: dag_store where
  "ex_overtaken = mark_turn_done 13 ''t3'' LlmPatch (snd (claim_next_turn 12 (mark_turn_retry 10 ''t2'' ''no answer'' 1000
     (snd (claim_next_turn 9 ex_two_turns)))))"

lemma overtaken_turn_counts_as_processed:
  "map t_status (ds_turns ex_overtaken) = [TRetry, TDone] \<and> has_processed_through ''t2'' ex_overtaken"
  by code_simp

text \<open>
  Woken between the return of the worker's loop and its \<open>finally\<close>, the queue drops the retry timer and
  starts no worker: the turn waits until the next event.
\<close>

lemma woken_too_early:
  "\<exists>q. (queue_step True commits ex_cfg)\<^sup>*\<^sup>* (start_queue ex_queue_store) q \<and> \<not> awake q"
proof -
  let ?q = "worker_ends (q_wake ex_failed)"
  have "\<not> awake ?q" "dq_running ex_failed" "dq_running (q_wake ex_failed)" "dq_returned (q_wake ex_failed)" by code_simp+
  then have "queue_step True commits ex_cfg ex_failed (q_wake ex_failed)" "queue_step True commits ex_cfg (q_wake ex_failed) ?q"
    by (auto intro: queue_step.wake queue_step.ended)
  with ex_queue_steps(1,2) \<open>\<not> awake ?q\<close> show ?thesis
    by (meson converse_rtranclp_into_rtranclp rtranclp.rtrancl_refl)
qed

text \<open>
  After a switch from a finished task both tasks carry the time of the patch, so the deterministic
  patch takes the finished one, which was created earlier, for the existing task and not the root.
\<close>

definition ex_finished_store :: dag_store where
  "ex_finished_store = ex_open_store\<lparr>
     ds_nodes := [ex_node ''a'' KTask SDone None 6, (ex_node ''c'' KTask SActive None 6)\<lparr>n_created_at := 6\<rparr>],
     ds_edges := [ex_edge ''e1'' ''a'' ''c'' Continues]\<rparr>"

lemma fallback_takes_closed_task:
  "map_option n_id (existing_task (read_nodes ex_finished_store)) = Some ''a''
     \<and> map_option n_id (select_root_task (read_nodes ex_finished_store)) = Some ''c''"
  by code_simp

section \<open>The snapshot\<close>

text \<open>The open task and its subtask, and a finished task that fits into 60 tokens but not into 40.\<close>

definition ex_snapshot_graph :: dag_graph where
  "ex_snapshot_graph = \<lparr>gr_session_key = ''s'',
     gr_nodes = [ex_node ''a'' KTask SActive None 1, ex_node ''b'' KSubtask SActive None 1, ex_node ''c'' KTask SDone None 1],
     gr_edges = [ex_edge ''e1'' ''a'' ''b'' Decomposes], gr_path_nodes = [''a'', ''b''], gr_path_edges = [''e1''], gr_snapshot_text = []\<rparr>"

lemma ex_selected: "select_snapshot_nodes ex_snapshot_graph (Some 100) = [''a'', ''b'', ''c'']"
  "select_snapshot_nodes ex_snapshot_graph (Some 40) = [''a'', ''b'']"
  by code_simp+

theorem snapshot_selection_witness: "\<not> over_budget ex_snapshot_graph (Some 100) [''a'', ''b'', ''c'']"
proof -
  have d: "distinct (map n_id (gr_nodes ex_snapshot_graph))" by code_simp
  have r: "map n_id (ranked_tasks ex_snapshot_graph [''a'', ''b'']) = [''c'']"
    "path_ids ex_snapshot_graph = [''a'', ''b'']" by code_simp+
  from snapshot_selection [OF d, of "Some 100"] obtain k where
    "select_snapshot_nodes ex_snapshot_graph (Some 100) = [''a'', ''b''] @ take k [''c'']"
    "k > 0 \<Longrightarrow> \<not> over_budget ex_snapshot_graph (Some 100) ([''a'', ''b''] @ take k [''c''])"
    unfolding Let_def r(2) r(1) by blast
  with ex_selected(1) show ?thesis by (cases k) auto
qed

end
