(* ===== verification/Task_Plan.thy ===== *)
theory Task_Plan
  imports Session_State
begin

text \<open>
  The execution checklist of a session: \<open>session/task-plan-state.ts\<close> (the stored plan and its
  validation), \<open>agent-runtime/task-plan-runtime.ts\<close> (the operations; one call of \<open>mutate\<close> is one
  function from the metadata to an error or the result with the saved metadata, since the mutex
  serialises them and an error restores the metadata), and
  \<open>agent-runtime/task-plan-continuation.ts\<close> (the bounded correction of a premature hand-off).
\<close>

section \<open>The stored plan\<close>

datatype plan_status = PActive | PCompleted | PBlocked

datatype item_status = IPending | IInProgress | ICompleted | IBlocked

record plan_item =
  i_id :: string
  i_content :: string
  i_status :: item_status

record task_plan =
  tp_id :: string
  tp_title :: string
  tp_status :: plan_status
  tp_items :: "plan_item list"
  tp_created :: string
  tp_updated :: string

definition parse_plan_status :: "string \<Rightarrow> plan_status option" where
  "parse_plan_status = map_of [(''active'', PActive), (''completed'', PCompleted), (''blocked'', PBlocked)]"

definition parse_item_status :: "string \<Rightarrow> item_status option" where
  "parse_item_status = map_of [(''pending'', IPending), (''in_progress'', IInProgress),
     (''completed'', ICompleted), (''blocked'', IBlocked)]"

fun plan_status_str :: "plan_status \<Rightarrow> string" where
  "plan_status_str PActive = ''active''"
| "plan_status_str PCompleted = ''completed''"
| "plan_status_str PBlocked = ''blocked''"

fun item_status_str :: "item_status \<Rightarrow> string" where
  "item_status_str IPending = ''pending''"
| "item_status_str IInProgress = ''in_progress''"
| "item_status_str ICompleted = ''completed''"
| "item_status_str IBlocked = ''blocked''"

definition status_field :: "(string \<Rightarrow> 'a option) \<Rightarrow> json option \<Rightarrow> 'a option" where
  "status_field parse v = (case v of Some (JStr s) \<Rightarrow> parse s | _ \<Rightarrow> None)"

text \<open>One pass of the loop over the items: \<open>seen\<close> is the set \<open>ids\<close>.\<close>

definition parse_plan_item :: "string list \<Rightarrow> json \<Rightarrow> plan_item option" where
  "parse_plan_item seen item =
     (case item of
        JObj obj \<Rightarrow>
          if \<not> has_exact_keys obj [''id'', ''content'', ''status''] then None
          else (case map_of obj ''id'' of
            Some (JStr i) \<Rightarrow>
              if js_trim i = [] \<or> i \<in> set seen then None
              else Option.bind (text_field (map_of obj ''content'') 1000) (\<lambda>content.
                   map_option (\<lambda>st. \<lparr>i_id = i, i_content = content, i_status = st\<rparr>)
                     (status_field parse_item_status (map_of obj ''status'')))
          | _ \<Rightarrow> None)
      | _ \<Rightarrow> None)"

fun parse_plan_items :: "string list \<Rightarrow> json list \<Rightarrow> plan_item list option" where
  "parse_plan_items seen [] = Some []"
| "parse_plan_items seen (x # xs) =
     Option.bind (parse_plan_item seen x) (\<lambda>item.
       map_option (\<lambda>items. item # items) (parse_plan_items (i_id item # seen) xs))"

definition plan_keys :: "string list" where
  "plan_keys = [''planId'', ''title'', ''status'', ''items'', ''createdAt'', ''updatedAt'']"

definition parse_task_plan_state :: "json \<Rightarrow> task_plan option" where
  "parse_task_plan_state value =
     (case value of
        JObj obj \<Rightarrow>
          if \<not> has_exact_keys obj plan_keys then None
          else (case map_of obj ''planId'' of
            Some (JStr plan_id) \<Rightarrow>
              if \<not> uuid_pattern plan_id then None
              else Option.bind (text_field (map_of obj ''title'') 300) (\<lambda>title.
                Option.bind (status_field parse_plan_status (map_of obj ''status'')) (\<lambda>status.
                (case map_of obj ''items'' of
                   Some (JArr xs) \<Rightarrow>
                     if length xs < 3 \<or> length xs > 50 then None
                     else Option.bind (parse_plan_items [] xs) (\<lambda>items.
                       Option.bind (iso_text (map_of obj ''createdAt'')) (\<lambda>created.
                       map_option (\<lambda>updated. \<lparr>tp_id = plan_id, tp_title = title, tp_status = status,
                           tp_items = items, tp_created = created, tp_updated = updated\<rparr>)
                         (iso_text (map_of obj ''updatedAt''))))
                 | _ \<Rightarrow> None)))
          | _ \<Rightarrow> None)
      | _ \<Rightarrow> None)"

definition item_json :: "plan_item \<Rightarrow> json" where
  "item_json i = JObj [(''id'', JStr (i_id i)), (''content'', JStr (i_content i)),
     (''status'', JStr (item_status_str (i_status i)))]"

definition plan_json :: "task_plan \<Rightarrow> json" where
  "plan_json p = JObj [(''planId'', JStr (tp_id p)), (''title'', JStr (tp_title p)),
     (''status'', JStr (plan_status_str (tp_status p))), (''items'', JArr (map item_json (tp_items p))),
     (''createdAt'', JStr (tp_created p)), (''updatedAt'', JStr (tp_updated p))]"

definition read_task_plan_state :: "json_obj \<Rightarrow> task_plan option" where
  "read_task_plan_state = meta_read parse_task_plan_state ''taskPlanState''"

text \<open>\<open>publicTaskPlanState\<close>: what the clients are sent; absent fields are \<open>None\<close>.\<close>

record agent_plan =
  ap_id :: "string option"
  ap_title :: string
  ap_status :: "plan_status option"
  ap_items :: "plan_item list"
  ap_created :: "string option"
  ap_updated :: "string option"

definition public_task_plan_state :: "task_plan option \<Rightarrow> agent_plan" where
  "public_task_plan_state p =
     (case p of
        None \<Rightarrow> \<lparr>ap_id = None, ap_title = [], ap_status = None, ap_items = [], ap_created = None, ap_updated = None\<rparr>
      | Some p \<Rightarrow> \<lparr>ap_id = Some (tp_id p), ap_title = tp_title p, ap_status = Some (tp_status p),
          ap_items = tp_items p, ap_created = Some (tp_created p), ap_updated = Some (tp_updated p)\<rparr>)"

record route =
  rt_channel :: string
  rt_chat_id :: string

definition parse_task_plan_route :: "json \<Rightarrow> route option" where
  "parse_task_plan_route value =
     (case value of
        JObj obj \<Rightarrow>
          if \<not> has_exact_keys obj [''channel'', ''chatId''] then None
          else (case (map_of obj ''channel'', map_of obj ''chatId'') of
                  (Some (JStr c), Some (JStr i)) \<Rightarrow>
                    if js_trim c = [] \<or> js_trim i = [] then None
                    else Some \<lparr>rt_channel = c, rt_chat_id = i\<rparr>
                | _ \<Rightarrow> None)
      | _ \<Rightarrow> None)"

definition route_json :: "route \<Rightarrow> json" where
  "route_json r = JObj [(''channel'', JStr (rt_channel r)), (''chatId'', JStr (rt_chat_id r))]"

section \<open>The operations\<close>

datatype plan_error =
    InvalidPlanTitle
  | InvalidPlanItemId
  | InvalidPlanItemContent
  | InvalidPlanItems
  | DuplicatePlanItemId
  | PlanSessionUnavailable
  | PlanRouteUnavailable
  | PlanAlreadyActive
  | InvalidPlanItemStatus
  | PlanNotFound
  | PlanIsCompleted
  | PlanItemNotFound
  | PlanItemCompleted
  | PlanItemInProgress

definition normalize_text :: "'e \<Rightarrow> json option \<Rightarrow> nat \<Rightarrow> 'e + string" where
  "normalize_text err v max_length =
     (case v of
        Some (JStr s) \<Rightarrow>
          (let t = js_trim s in if t = [] \<or> length t > max_length then Inl err else Inr t)
      | _ \<Rightarrow> Inl err)"

definition is_alnum :: "char \<Rightarrow> bool" where
  "is_alnum c \<longleftrightarrow> (let n = (of_char c :: nat) in 48 \<le> n \<and> n \<le> 57 \<or> 65 \<le> n \<and> n \<le> 90 \<or> 97 \<le> n \<and> n \<le> 122)"

text \<open>\<open>/^[A-Za-z0-9][A-Za-z0-9._-]{0,79}$/\<close>\<close>

definition item_id_pattern :: "string \<Rightarrow> bool" where
  "item_id_pattern s \<longleftrightarrow> (case s of [] \<Rightarrow> False
     | c # cs \<Rightarrow> is_alnum c \<and> length cs \<le> 79 \<and> list_all (\<lambda>d. is_alnum d \<or> d \<in> set ''._-'') cs)"

definition normalize_item_id :: "json option \<Rightarrow> plan_error + string" where
  "normalize_item_id v =
     (case v of Some (JStr s) \<Rightarrow> if item_id_pattern s then Inr s else Inl InvalidPlanItemId
      | _ \<Rightarrow> Inl InvalidPlanItemId)"

fun normalize_item_list :: "string list \<Rightarrow> json list \<Rightarrow> plan_error + plan_item list" where
  "normalize_item_list seen [] = Inr []"
| "normalize_item_list seen (raw # raws) =
     (case raw of
        JObj obj \<Rightarrow>
          bindE (normalize_item_id (map_of obj ''id'')) (\<lambda>i.
          bindE (throw_if (i \<in> set seen) DuplicatePlanItemId) (\<lambda>_.
          bindE (normalize_text InvalidPlanItemContent (map_of obj ''content'') 1000) (\<lambda>content.
          bindE (normalize_item_list (i # seen) raws) (\<lambda>items.
          Inr (\<lparr>i_id = i, i_content = content, i_status = IPending\<rparr> # items)))))
      | _ \<Rightarrow> Inl InvalidPlanItems)"

definition normalize_items :: "json option \<Rightarrow> plan_error + plan_item list" where
  "normalize_items v =
     (case v of
        Some (JArr xs) \<Rightarrow> if length xs < 3 \<or> length xs > 50 then Inl InvalidPlanItems else normalize_item_list [] xs
      | _ \<Rightarrow> Inl InvalidPlanItems)"

definition derived_plan_status :: "plan_item list \<Rightarrow> plan_status" where
  "derived_plan_status items =
     (if list_all (\<lambda>i. i_status i = ICompleted) items then PCompleted
      else if list_ex (\<lambda>i. i_status i = IBlocked) items then PBlocked
      else PActive)"

definition create_plan ::
  "int \<Rightarrow> string \<Rightarrow> json option \<Rightarrow> json option \<Rightarrow> route \<Rightarrow> json_obj option \<Rightarrow> plan_error + task_plan \<times> json_obj" where
  "create_plan now uuid title items route session =
     bindE (normalize_text InvalidPlanTitle title 300) (\<lambda>title.
     bindE (normalize_items items) (\<lambda>items.
     bindE (throw_if (js_trim (rt_channel route) = [] \<or> js_trim (rt_chat_id route) = []) PlanRouteUnavailable) (\<lambda>_.
     case session of
       None \<Rightarrow> Inl PlanSessionUnavailable
     | Some metadata \<Rightarrow>
         bindE (throw_if (map_option tp_status (read_task_plan_state metadata) = Some PActive) PlanAlreadyActive) (\<lambda>_.
         let plan = \<lparr>tp_id = uuid, tp_title = title, tp_status = PActive, tp_items = items,
               tp_created = to_iso_string now, tp_updated = to_iso_string now\<rparr>
         in Inr (plan, meta_write ''taskPlanRoute'' (route_json route)
                        (meta_write ''taskPlanState'' (plan_json plan) metadata))))))"

definition update_plan_item ::
  "int \<Rightarrow> json option \<Rightarrow> json option \<Rightarrow> json_obj option \<Rightarrow> plan_error + task_plan \<times> json_obj" where
  "update_plan_item now item_id status session =
     bindE (normalize_item_id item_id) (\<lambda>i.
     case status_field parse_item_status status of
       None \<Rightarrow> Inl InvalidPlanItemStatus
     | Some st \<Rightarrow>
       (case session of
          None \<Rightarrow> Inl PlanSessionUnavailable
        | Some metadata \<Rightarrow>
          (case read_task_plan_state metadata of
             None \<Rightarrow> Inl PlanNotFound
           | Some current \<Rightarrow>
              bindE (throw_if (tp_status current = PCompleted) PlanIsCompleted) (\<lambda>_.
              case index_of (\<lambda>item. i_id item = i) (tp_items current) of
                None \<Rightarrow> Inl PlanItemNotFound
              | Some k \<Rightarrow>
                  bindE (throw_if (i_status (tp_items current ! k) = ICompleted \<and> st \<noteq> ICompleted) PlanItemCompleted) (\<lambda>_.
                  bindE (throw_if (st = IInProgress \<and>
                      list_ex (\<lambda>j. j \<noteq> k \<and> i_status (tp_items current ! j) = IInProgress) [0..<length (tp_items current)])
                    PlanItemInProgress) (\<lambda>_.
                  let items = (tp_items current)[k := (tp_items current ! k)\<lparr>i_status := st\<rparr>];
                      updated = current\<lparr>tp_status := derived_plan_status items, tp_items := items,
                        tp_updated := next_updated_at (tp_updated current) now\<rparr>
                  in Inr (updated, meta_write ''taskPlanState'' (plan_json updated) metadata)))))))"

section \<open>A stored plan is valid\<close>

definition item_ok :: "plan_item \<Rightarrow> bool" where
  "item_ok i \<longleftrightarrow> js_trim (i_id i) \<noteq> [] \<and> js_trim (i_content i) \<noteq> [] \<and> length (i_content i) \<le> 1000"

definition plan_ok :: "task_plan \<Rightarrow> bool" where
  "plan_ok p \<longleftrightarrow> uuid_pattern (tp_id p) \<and> js_trim (tp_title p) \<noteq> [] \<and> length (tp_title p) \<le> 300
     \<and> 3 \<le> length (tp_items p) \<and> length (tp_items p) \<le> 50
     \<and> list_all item_ok (tp_items p) \<and> distinct (map i_id (tp_items p))
     \<and> parse_iso (tp_created p) \<noteq> None \<and> parse_iso (tp_updated p) \<noteq> None"

lemma parse_status_str [simp]:
  "parse_plan_status (plan_status_str s) = Some s" "parse_item_status (item_status_str t) = Some t"
  by (cases s; simp add: parse_plan_status_def) (cases t; simp add: parse_item_status_def)

lemma parse_plan_item_ok: "parse_plan_item seen x = Some i \<Longrightarrow> item_ok i \<and> i_id i \<notin> set seen"
  by (auto simp: parse_plan_item_def item_ok_def text_field_eq split: json.splits option.splits if_splits bind_splits)

lemma parse_plan_items_ok:
  "parse_plan_items seen xs = Some items \<Longrightarrow>
     length items = length xs \<and> list_all item_ok items \<and> distinct (map i_id items) \<and> i_id ` set items \<inter> set seen = {}"
proof (induction seen xs arbitrary: items rule: parse_plan_items.induct)
  case (2 seen x xs)
  then obtain i rest where i: "parse_plan_item seen x = Some i" "parse_plan_items (i_id i # seen) xs = Some rest"
    "items = i # rest"
    by (auto split: bind_splits)
  with 2(1) [OF i(1,2)] parse_plan_item_ok [OF i(1)] show ?case by auto
qed simp

lemma parse_plan_items_encode:
  "list_all item_ok items \<Longrightarrow> distinct (map i_id items) \<Longrightarrow> i_id ` set items \<inter> set seen = {} \<Longrightarrow>
     parse_plan_items seen (map item_json items) = Some items"
proof (induction items arbitrary: seen)
  case (Cons i items)
  have "text_field (Some (JStr (i_content i))) 1000 = Some (i_content i)"
    using Cons.prems(1) by (simp add: text_field_eq item_ok_def [of i])
  with Cons.prems have "parse_plan_item seen (item_json i) = Some i"
    by (simp add: parse_plan_item_def item_json_def has_exact_keys_def obj_keys_def status_field_def item_ok_def [of i])
  with Cons show ?case by auto
qed simp

lemma parse_task_plan_ok: "parse_task_plan_state j = Some p \<Longrightarrow> plan_ok p"
  by (auto simp: parse_task_plan_state_def plan_ok_def text_field_eq iso_text_eq
      split: json.splits option.splits if_splits bind_splits dest!: parse_plan_items_ok)

lemma parse_plan_json: "plan_ok p \<Longrightarrow> parse_task_plan_state (plan_json p) = Some p"
proof -
  assume ok: "plan_ok p"
  then have "parse_plan_items [] (map item_json (tp_items p)) = Some (tp_items p)"
    by (intro parse_plan_items_encode) (auto simp: plan_ok_def)
  moreover have "text_field (Some (JStr (tp_title p))) 300 = Some (tp_title p)"
    "iso_text (Some (JStr (tp_created p))) = Some (tp_created p)"
    "iso_text (Some (JStr (tp_updated p))) = Some (tp_updated p)"
    using ok unfolding text_field_eq iso_text_eq plan_ok_def by simp_all
  ultimately show ?thesis
    using ok by (simp add: parse_task_plan_state_def plan_json_def has_exact_keys_def plan_keys_def obj_keys_def
        status_field_def plan_ok_def)
qed

interpretation plan_store: stored_state parse_task_plan_state plan_json plan_ok "''taskPlanState''"
  by unfold_locales (simp_all add: parse_plan_json parse_task_plan_ok)

section \<open>What the operations do\<close>

lemma normalize_text_eq:
  "normalize_text e v n = Inr t \<longleftrightarrow> (\<exists>s. v = Some (JStr s) \<and> t = js_trim s \<and> t \<noteq> [] \<and> length t \<le> n)"
  by (auto simp: normalize_text_def Let_def split: option.splits json.splits)

lemma is_alnum_not_ws: "is_alnum c \<Longrightarrow> \<not> js_ws c"
  by (auto simp: is_alnum_def js_ws_def Let_def)

lemma item_id_trim: "item_id_pattern s \<Longrightarrow> js_trim s \<noteq> []"
proof
  assume s: "item_id_pattern s" "js_trim s = []"
  then obtain c cs where c: "s = c # cs" "is_alnum c" by (auto simp: item_id_pattern_def split: list.splits)
  then have "js_trim_start s = s" using is_alnum_not_ws by (simp add: js_trim_start_id)
  with s(2) obtain t where "s = t" "list_all js_ws s"
    using js_trim_end_prefix [of s] by (auto simp: js_trim_def)
  with c is_alnum_not_ws show False by simp
qed

lemma normalize_item_list_ok:
  "normalize_item_list seen xs = Inr items \<Longrightarrow>
     length items = length xs \<and> list_all item_ok items \<and> distinct (map i_id items)
     \<and> i_id ` set items \<inter> set seen = {} \<and> list_all (\<lambda>i. i_status i = IPending) items"
proof (induction seen xs arbitrary: items rule: normalize_item_list.induct)
  case (2 seen raw raws)
  then obtain obj where raw: "raw = JObj obj" by (auto split: json.splits)
  with "2.prems" obtain i content rest where *:
    "normalize_item_id (map_of obj ''id'') = Inr i" "i \<notin> set seen"
    "normalize_text InvalidPlanItemContent (map_of obj ''content'') 1000 = Inr content"
    "normalize_item_list (i # seen) raws = Inr rest"
    "items = \<lparr>i_id = i, i_content = content, i_status = IPending\<rparr> # rest"
    by (auto simp: error_simps)
  have "js_trim i \<noteq> []"
    using *(1) item_id_trim by (auto simp: normalize_item_id_def split: option.splits json.splits if_splits)
  moreover have "js_trim content \<noteq> []" "length content \<le> 1000" using *(3) by (auto simp: normalize_text_eq)
  moreover have "length rest = length raws \<and> list_all item_ok rest \<and> distinct (map i_id rest)
     \<and> i_id ` set rest \<inter> set (i # seen) = {} \<and> list_all (\<lambda>i. i_status i = IPending) rest"
    using raw * by (intro "2.IH") auto
  moreover from calculation(1-3) have "item_ok \<lparr>i_id = i, i_content = content, i_status = IPending\<rparr>"
    by (simp add: item_ok_def)
  ultimately show ?case using *(2,5) by auto
qed simp

lemma clock_ok_iso: "clock_ok now \<Longrightarrow> parse_iso (to_iso_string now) = Some now"
  by (simp add: clock_ok_def)

text \<open>
  Creating a checklist. A plan that is created is valid, has all items pending, and is what the
  session reads back afterwards; any input that fails a check, and an active plan in the session,
  make the call fail (with no effect on the metadata).
\<close>

theorem create_plan_spec:
  assumes "create_plan now uuid title items route (Some metadata) = Inr (plan, metadata')"
    and "clock_ok now" and "uuid_pattern uuid"
  shows "plan_ok plan \<and> read_task_plan_state metadata' = Some plan
     \<and> list_all (\<lambda>i. i_status i = IPending) (tp_items plan) \<and> tp_status plan = derived_plan_status (tp_items plan)
     \<and> map_option tp_status (read_task_plan_state metadata) \<noteq> Some PActive"
proof -
  from assms(1) obtain t its where t: "normalize_text InvalidPlanTitle title 300 = Inr t"
    and items: "normalize_items items = Inr its"
    and not_active: "map_option tp_status (read_task_plan_state metadata) \<noteq> Some PActive"
    and plan: "plan = \<lparr>tp_id = uuid, tp_title = t, tp_status = PActive, tp_items = its,
               tp_created = to_iso_string now, tp_updated = to_iso_string now\<rparr>"
    and metadata': "metadata' = meta_write ''taskPlanRoute'' (route_json route)
                        (meta_write ''taskPlanState'' (plan_json plan) metadata)"
    by (auto simp: create_plan_def error_simps Let_def)
  from items obtain xs where xs: "3 \<le> length xs" "length xs \<le> 50" "normalize_item_list [] xs = Inr its"
    by (auto simp: normalize_items_def not_less split: option.splits json.splits if_splits)
  note its_ok = normalize_item_list_ok [OF xs(3)]
  have "js_trim t \<noteq> []" "length t \<le> 300" using t by (auto simp: normalize_text_eq)
  then have ok: "plan_ok plan"
    using xs its_ok assms(2,3) by (simp add: plan_ok_def plan clock_ok_iso)
  moreover have "read_task_plan_state metadata' = Some plan"
    by (simp add: read_task_plan_state_def metadata' plan_store.read_write [OF ok])
  moreover have "derived_plan_status its = PActive"
    using its_ok xs(1) by (cases its) (auto simp: derived_plan_status_def list_all_iff list_ex_iff)
  ultimately show ?thesis using not_active its_ok by (simp add: plan)
qed

lemma update_plan_itemE:
  assumes "update_plan_item now item_id status (Some metadata) = Inr (updated, metadata')"
  obtains i st current k where "normalize_item_id item_id = Inr i" "status_field parse_item_status status = Some st"
    "read_task_plan_state metadata = Some current" "tp_status current \<noteq> PCompleted"
    "k < length (tp_items current)" "i_id (tp_items current ! k) = i"
    "i_status (tp_items current ! k) = ICompleted \<longrightarrow> st = ICompleted"
    "st = IInProgress \<longrightarrow> (\<forall>j < length (tp_items current). j \<noteq> k \<longrightarrow> i_status (tp_items current ! j) \<noteq> IInProgress)"
    "updated = current\<lparr>tp_status := derived_plan_status ((tp_items current)[k := (tp_items current ! k)\<lparr>i_status := st\<rparr>]),
        tp_items := (tp_items current)[k := (tp_items current ! k)\<lparr>i_status := st\<rparr>],
        tp_updated := next_updated_at (tp_updated current) now\<rparr>"
    "metadata' = meta_write ''taskPlanState'' (plan_json updated) metadata"
proof -
  note run = assms [unfolded update_plan_item_def]
  obtain i where i: "normalize_item_id item_id = Inr i"
    using run by (cases "normalize_item_id item_id") auto
  obtain st where st: "status_field parse_item_status status = Some st"
    using run i by (cases "status_field parse_item_status status") auto
  obtain current where c: "read_task_plan_state metadata = Some current"
    using run i st by (cases "read_task_plan_state metadata") auto
  obtain k where k: "index_of (\<lambda>item. i_id item = i) (tp_items current) = Some k"
    using run i st c by (cases "index_of (\<lambda>item. i_id item = i) (tp_items current)") (auto simp: error_simps)
  from run i st c k have "tp_status current \<noteq> PCompleted"
    "i_status (tp_items current ! k) = ICompleted \<longrightarrow> st = ICompleted"
    "\<not> (st = IInProgress \<and> list_ex (\<lambda>j. j \<noteq> k \<and> i_status (tp_items current ! j) = IInProgress) [0..<length (tp_items current)])"
    "updated = current\<lparr>tp_status := derived_plan_status ((tp_items current)[k := (tp_items current ! k)\<lparr>i_status := st\<rparr>]),
        tp_items := (tp_items current)[k := (tp_items current ! k)\<lparr>i_status := st\<rparr>],
        tp_updated := next_updated_at (tp_updated current) now\<rparr>"
    "metadata' = meta_write ''taskPlanState'' (plan_json updated) metadata"
    by (auto simp: error_simps Let_def)
  with index_of_Some [OF k] i st c show ?thesis
    by (intro that [of i st current k]) (auto simp: list_ex_iff)
qed

definition in_progress :: "task_plan \<Rightarrow> nat" where
  "in_progress p = length (filter (\<lambda>i. i_status i = IInProgress) (tp_items p))"

lemma length_filter_update:
  "k < length xs \<Longrightarrow> length (filter P (xs[k := y])) + (if P (xs ! k) then 1 else 0)
     = length (filter P xs) + (if P y then 1 else 0)"
proof (induction xs arbitrary: k)
  case (Cons x xs)
  then show ?case by (cases k) auto
qed simp

lemma filter_only: "k < length xs \<Longrightarrow> (\<forall>j < length xs. j \<noteq> k \<longrightarrow> \<not> P (xs ! j)) \<Longrightarrow>
    length (filter P xs) = (if P (xs ! k) then 1 else 0)"
proof (induction xs arbitrary: k)
  case (Cons x xs)
  show ?case
  proof (cases k)
    case 0
    have "\<not> P (xs ! j)" if "j < length xs" for j using Cons.prems(2) 0 that by (metis Suc_less_eq length_Cons nat.distinct(1) nth_Cons_Suc)
    then have "filter P xs = []" by (auto simp: filter_empty_conv in_set_conv_nth)
    with 0 show ?thesis by simp
  next
    case (Suc k')
    have "\<not> P x" using Cons.prems(2) Suc by (metis length_greater_0_conv list.distinct(1) nat.distinct(1) nth_Cons_0)
    moreover have "length (filter P xs) = (if P (xs ! k') then 1 else 0)"
      using Cons.prems Suc by (intro Cons.IH) (auto dest: spec [of _ "Suc _"])
    ultimately show ?thesis using Suc by simp
  qed
qed simp

lemma update_in_progress:
  assumes "update_plan_item now item_id status (Some metadata) = Inr (updated, metadata')"
    and "read_task_plan_state metadata = Some current" and "in_progress current \<le> 1"
  shows "in_progress updated \<le> 1"
  using assms(1)
proof (rule update_plan_itemE)
  fix i st current' k
  assume *: "read_task_plan_state metadata = Some current'" "k < length (tp_items current')"
    "st = IInProgress \<longrightarrow> (\<forall>j < length (tp_items current'). j \<noteq> k \<longrightarrow> i_status (tp_items current' ! j) \<noteq> IInProgress)"
    "updated = current'\<lparr>tp_status := derived_plan_status ((tp_items current')[k := (tp_items current' ! k)\<lparr>i_status := st\<rparr>]),
        tp_items := (tp_items current')[k := (tp_items current' ! k)\<lparr>i_status := st\<rparr>],
        tp_updated := next_updated_at (tp_updated current') now\<rparr>"
  have same: "current' = current" using *(1) assms(2) by simp
  let ?P = "\<lambda>i. i_status i = IInProgress"
  note len = length_filter_update [OF *(2), of ?P "(tp_items current' ! k)\<lparr>i_status := st\<rparr>"]
  show ?thesis
  proof (cases "st = IInProgress")
    case True
    with *(3) have "length (filter ?P (tp_items current')) = (if ?P (tp_items current' ! k) then 1 else 0)"
      by (intro filter_only [OF *(2)]) auto
    with len show ?thesis by (auto simp: in_progress_def *(4) split: if_splits)
  next
    case False
    with len assms(3) show ?thesis by (auto simp: in_progress_def *(4) same split: if_splits)
  qed
qed

text \<open>
  updating an item changes that item only. The plan read afterwards is the returned one; ids,
  contents, title and creation time stay, and no other item's status moves; a completed item stays
  completed; the plan's status is the one its items determine; and the time of the update is
  strictly later than the last, however the clock moved.
\<close>

theorem update_plan_item_spec:
  assumes "update_plan_item now item_id status (Some metadata) = Inr (updated, metadata')"
    and "read_task_plan_state metadata = Some current" and "clock_ok now" and "timestamp_ok (tp_updated current)"
  shows "read_task_plan_state metadata' = Some updated \<and> plan_ok updated
     \<and> tp_id updated = tp_id current \<and> tp_title updated = tp_title current \<and> tp_created updated = tp_created current
     \<and> list_all2 (\<lambda>a b. i_id b = i_id a \<and> i_content b = i_content a
          \<and> (i_status a = ICompleted \<longrightarrow> i_status b = ICompleted)
          \<and> (Inr (i_id a) \<noteq> normalize_item_id item_id \<longrightarrow> i_status b = i_status a)) (tp_items current) (tp_items updated)
     \<and> tp_status updated = derived_plan_status (tp_items updated)
     \<and> (\<exists>p q. parse_iso (tp_updated current) = Some p \<and> parse_iso (tp_updated updated) = Some q \<and> p < q \<and> now \<le> q)"
  using assms(1)
proof (rule update_plan_itemE)
  fix i st current' k
  assume *: "normalize_item_id item_id = Inr i" "read_task_plan_state metadata = Some current'"
    "k < length (tp_items current')" "i_id (tp_items current' ! k) = i"
    "i_status (tp_items current' ! k) = ICompleted \<longrightarrow> st = ICompleted"
    "updated = current'\<lparr>tp_status := derived_plan_status ((tp_items current')[k := (tp_items current' ! k)\<lparr>i_status := st\<rparr>]),
        tp_items := (tp_items current')[k := (tp_items current' ! k)\<lparr>i_status := st\<rparr>],
        tp_updated := next_updated_at (tp_updated current') now\<rparr>"
    "metadata' = meta_write ''taskPlanState'' (plan_json updated) metadata"
  have same: "current' = current" using *(2) assms(2) by simp
  have ok: "plan_ok current" using plan_store.read_valid assms(2) by (simp add: read_task_plan_state_def)
  from assms(4) obtain p where p: "parse_iso (tp_updated current) = Some p" "p < max_date_ms"
    by (auto simp: timestamp_ok_def split: option.splits)
  note later = next_updated_at_later [OF assms(3) p]
  let ?items = "(tp_items current)[k := (tp_items current ! k)\<lparr>i_status := st\<rparr>]"
  have ids: "map i_id ?items = map i_id (tp_items current)"
    using *(3) by (auto simp: same map_update intro!: list_update_id [of "map i_id (tp_items current)" k, simplified])
      (metis list_update_id map_update)
  have items_ok: "list_all item_ok ?items"
    using ok *(3) by (auto simp: same plan_ok_def list_all_length nth_list_update item_ok_def)
  have upd_ok: "plan_ok updated"
    using ok later items_ok ids by (simp add: *(6) same plan_ok_def)
  then have "read_task_plan_state metadata' = Some updated"
    by (simp add: read_task_plan_state_def *(7) plan_store.read_write)
  moreover have "list_all2 (\<lambda>a b. i_id b = i_id a \<and> i_content b = i_content a
          \<and> (i_status a = ICompleted \<longrightarrow> i_status b = ICompleted)
          \<and> (Inr (i_id a) \<noteq> normalize_item_id item_id \<longrightarrow> i_status b = i_status a)) (tp_items current) ?items"
    using *(1,3,4,5) by (auto simp: same list_all2_conv_all_nth nth_list_update)
  ultimately show ?thesis
    using upd_ok later p by (auto simp: *(6) same)
qed

section \<open>Every reachable plan\<close>

text \<open>
  What can happen to the metadata of a session, as far as the checklist is concerned: a plan is
  created, an item is updated, or another key is written. The clock and the stored time are within
  the range of \<open>Date\<close>.
\<close>

inductive plan_step :: "json_obj \<Rightarrow> json_obj \<Rightarrow> bool" where
  create: "create_plan now uuid title items route (Some m) = Inr (plan, m') \<Longrightarrow> clock_ok now \<Longrightarrow>
     uuid_pattern uuid \<Longrightarrow> plan_step m m'"
| update: "update_plan_item now item_id status (Some m) = Inr (plan, m') \<Longrightarrow> clock_ok now \<Longrightarrow>
     read_task_plan_state m = Some current \<Longrightarrow> timestamp_ok (tp_updated current) \<Longrightarrow> plan_step m m'"
| other: "k \<noteq> ''taskPlanState'' \<Longrightarrow> plan_step m (meta_write k v m)"

definition plan_inv :: "json_obj \<Rightarrow> bool" where
  "plan_inv m \<longleftrightarrow> (case read_task_plan_state m of None \<Rightarrow> True
     | Some p \<Rightarrow> in_progress p \<le> 1 \<and> tp_status p = derived_plan_status (tp_items p) \<and> plan_ok p)"

lemma create_plan_read:
  "create_plan now uuid title items route (Some m) = Inr (plan, m') \<Longrightarrow> clock_ok now \<Longrightarrow> uuid_pattern uuid \<Longrightarrow> plan_inv m'"
proof -
  assume run: "create_plan now uuid title items route (Some m) = Inr (plan, m')" and env: "clock_ok now" "uuid_pattern uuid"
  from run obtain t its xs where t: "normalize_text InvalidPlanTitle title 300 = Inr t"
    and xs: "3 \<le> length xs" "length xs \<le> 50" "normalize_item_list [] xs = Inr its"
    and plan: "plan = \<lparr>tp_id = uuid, tp_title = t, tp_status = PActive, tp_items = its,
               tp_created = to_iso_string now, tp_updated = to_iso_string now\<rparr>"
    and m': "m' = meta_write ''taskPlanRoute'' (route_json route) (meta_write ''taskPlanState'' (plan_json plan) m)"
    by (auto simp: create_plan_def error_simps Let_def normalize_items_def not_less split: option.splits json.splits if_splits)
  note its = normalize_item_list_ok [OF xs(3)]
  have ok: "plan_ok plan"
    using its xs env t by (auto simp: plan_ok_def plan clock_ok_iso normalize_text_eq)
  have "filter (\<lambda>i. i_status i = IInProgress) its = []" using its by (auto simp: filter_empty_conv list_all_iff)
  moreover have "derived_plan_status its = PActive"
    using its xs(1) by (cases its) (auto simp: derived_plan_status_def list_all_iff list_ex_iff)
  moreover have "read_task_plan_state m' = Some plan"
    by (simp add: read_task_plan_state_def m' plan_store.read_write [OF ok])
  ultimately show ?thesis using ok by (simp add: plan_inv_def in_progress_def plan)
qed

lemma update_plan_read:
  assumes run: "update_plan_item now item_id status (Some m) = Inr (updated, m')"
    and env: "clock_ok now" "timestamp_ok (tp_updated current)"
    and read: "read_task_plan_state m = Some current" and inv: "plan_inv m"
  shows "plan_inv m'"
  using run
proof (rule update_plan_itemE)
  fix i st current' k
  assume *: "read_task_plan_state m = Some current'" "k < length (tp_items current')"
    "updated = current'\<lparr>tp_status := derived_plan_status ((tp_items current')[k := (tp_items current' ! k)\<lparr>i_status := st\<rparr>]),
        tp_items := (tp_items current')[k := (tp_items current' ! k)\<lparr>i_status := st\<rparr>],
        tp_updated := next_updated_at (tp_updated current') now\<rparr>"
    "m' = meta_write ''taskPlanState'' (plan_json updated) m"
  have same: "current' = current" using *(1) read by simp
  let ?items = "(tp_items current)[k := (tp_items current ! k)\<lparr>i_status := st\<rparr>]"
  have ok: "plan_ok current" using inv read by (simp add: plan_inv_def)
  have "map i_id ?items = map i_id (tp_items current)"
    using *(2) by (simp add: same map_update list_update_same_conv)
  moreover have "list_all item_ok ?items"
    using ok *(2) by (auto simp: same plan_ok_def list_all_length nth_list_update item_ok_def)
  ultimately have "plan_ok updated"
    using ok next_updated_at_iso [OF env] by (simp add: *(3) same plan_ok_def)
  moreover have "in_progress updated \<le> 1"
    using update_in_progress [OF run read] inv read by (simp add: plan_inv_def)
  moreover have "read_task_plan_state m' = Some updated"
    using calculation(1) by (simp add: read_task_plan_state_def *(4) plan_store.read_write)
  ultimately show ?thesis by (simp add: plan_inv_def *(3))
qed

lemma plan_step_inv: "plan_step m m' \<Longrightarrow> plan_inv m \<Longrightarrow> plan_inv m'"
proof (induction rule: plan_step.induct)
  case (create now uuid title items route m plan m')
  then show ?case using create_plan_read by blast
next
  case (update now item_id status m plan m' current)
  then show ?case using update_plan_read by blast
next
  case (other k m v)
  then show ?case by (simp add: plan_inv_def read_task_plan_state_def)
qed

text \<open>
  C28: in every session that started without a checklist, whatever sequence of operations it went
  through, the checklist has at most one item in progress, is completed exactly when all its items
  are and blocked exactly when it is not completed and some item is blocked, and passes the
  validation that reads it back.
\<close>

theorem reachable_plan_inv:
  assumes "plan_step\<^sup>*\<^sup>* m m'" and "map_of m ''taskPlanState'' = None"
  shows "(case read_task_plan_state m' of None \<Rightarrow> True
     | Some p \<Rightarrow> in_progress p \<le> 1 \<and> tp_status p = derived_plan_status (tp_items p) \<and> plan_ok p)"
proof -
  have "plan_inv m" using assms(2) by (simp add: plan_inv_def read_task_plan_state_def meta_read_def)
  with assms(1) have "plan_inv m'"
    by (induction rule: rtranclp_induct) (auto intro: plan_step_inv)
  then show ?thesis by (simp add: plan_inv_def)
qed

section \<open>The bounded correction\<close>

text \<open>\<open>message.content.matchAll(/sha256:[a-f0-9]{64}/g)\<close>\<close>

definition is_lower_hex :: "char \<Rightarrow> bool" where
  "is_lower_hex c \<longleftrightarrow> c \<in> set ''0123456789abcdef''"

definition hash_here :: "string \<Rightarrow> bool" where
  "hash_here s \<longleftrightarrow> take 7 s = ''sha256:'' \<and> length (take 64 (drop 7 s)) = 64 \<and> list_all is_lower_hex (take 64 (drop 7 s))"

function find_hashes :: "string \<Rightarrow> string list" where
  "find_hashes s = (if s = [] then [] else if hash_here s then take 71 s # find_hashes (drop 71 s) else find_hashes (tl s))"
  by pat_completeness auto
termination find_hashes by (relation "measure length") auto

declare find_hashes.simps [simp del]

record message =
  m_role :: string
  m_content :: json

type_synonym progress = "string \<times> (string \<times> item_status) list \<times> string list"

record cont_state =
  cs_progress :: "progress option"
  cs_corrections :: nat

definition message_hashes :: "message \<Rightarrow> string list" where
  "message_hashes m = (case m_content m of JStr s \<Rightarrow> if m_role m = ''tool'' then find_hashes s else [] | _ \<Rightarrow> [])"

text \<open>\<open>JSON.stringify\<close> of the progress is compared for equality only; it is injective on these values.\<close>

definition plan_progress :: "task_plan \<Rightarrow> message list \<Rightarrow> progress" where
  "plan_progress plan messages =
     (tp_id plan, map (\<lambda>i. (i_id i, i_status i)) (tp_items plan), sort (remdups (concat (map message_hashes messages))))"

definition pending_items :: "task_plan \<Rightarrow> plan_item list" where
  "pending_items plan = filter (\<lambda>i. i_status i \<noteq> ICompleted) (tp_items plan)"

text \<open>
  One call: the unfinished items that the correction lists, or \<open>None\<close>. Whether the final answer
  is a premature hand-off (a regular expression over Chinese and English phrases) is the
  argument \<open>premature\<close>.
\<close>

definition continuation_call ::
  "(string \<Rightarrow> bool) \<Rightarrow> task_plan option \<times> string \<times> message list \<Rightarrow> cont_state \<Rightarrow> plan_item list option \<times> cont_state" where
  "continuation_call premature input s =
     (case input of (plan_opt, final_content, messages) \<Rightarrow>
      case plan_opt of
        None \<Rightarrow> (None, s)
      | Some plan \<Rightarrow>
          if tp_status plan \<noteq> PActive \<or> \<not> premature final_content then (None, s)
          else if list_ex (\<lambda>i. i_status i = IBlocked) (tp_items plan) then (None, s)
          else if pending_items plan = [] then (None, s)
          else
           (let progress = plan_progress plan messages;
                count = (if cs_progress s \<noteq> Some progress then 0 else cs_corrections s) + 1;
                s' = \<lparr>cs_progress = Some progress, cs_corrections = count\<rparr>
            in if count > 2 then (None, s') else (Some (pending_items plan), s')))"

fun continuation_run ::
  "(string \<Rightarrow> bool) \<Rightarrow> (task_plan option \<times> string \<times> message list) list \<Rightarrow> cont_state \<Rightarrow> plan_item list option list" where
  "continuation_run premature [] s = []"
| "continuation_run premature (x # xs) s =
     (case continuation_call premature x s of (r, s') \<Rightarrow> r # continuation_run premature xs s')"

definition corrections :: "plan_item list option list \<Rightarrow> nat" where
  "corrections rs = length (filter (\<lambda>r. r \<noteq> None) rs)"

definition same_progress :: "progress \<Rightarrow> task_plan option \<times> string \<times> message list \<Rightarrow> bool" where
  "same_progress pr x \<longleftrightarrow> (case x of (p, _, messages) \<Rightarrow> case p of None \<Rightarrow> True | Some plan \<Rightarrow> plan_progress plan messages = pr)"

lemma continuation_bound:
  "list_all (same_progress pr) xs \<Longrightarrow>
     corrections (continuation_run premature xs s) \<le> (if cs_progress s = Some pr then 2 - cs_corrections s else 2)"
proof (induction xs arbitrary: s)
  case (Cons x xs)
  obtain r s' where call: "continuation_call premature x s = (r, s')" by fastforce
  have IH: "corrections (continuation_run premature xs s') \<le> (if cs_progress s' = Some pr then 2 - cs_corrections s' else 2)"
    using Cons by simp
  obtain p f ms where x: "x = (p, f, ms)" by (metis prod_cases3)
  have "s' = s \<and> r = None \<or> cs_progress s' = Some pr
      \<and> cs_corrections s' = (if cs_progress s = Some pr then cs_corrections s else 0) + 1
      \<and> (r \<noteq> None \<longrightarrow> cs_corrections s' \<le> 2)"
    using call Cons.prems
    by (auto simp: continuation_call_def x same_progress_def Let_def split: option.splits if_splits)
  then show ?case
    using IH call by (auto simp: corrections_def)
qed (simp add: corrections_def)

text \<open>
  the correction is bounded. As long as the plan's items and the set of artifact hashes do not
  change, at most two premature hand-offs are answered by a correction, however many there are.
\<close>

theorem corrections_bounded:
  assumes "list_all (same_progress pr) xs"
  shows "corrections (continuation_run premature xs s) \<le> 2"
  using continuation_bound [OF assms, of premature s] by (simp split: if_splits)

end
