(* ===== verification/Goal_State.thy ===== *)
theory Goal_State
  imports Session_State Dag_Types
begin

text \<open>
  The stored Goal of a session (\<open>session/goal-state.ts\<close>): its validation, its route, its public form,
  and the arithmetic of \<open>goal-runtime.ts\<close> on usage and budgets.
\<close>

section \<open>The Goal\<close>

record goal_state =
  gs_id :: string
  gs_objective :: string
  gs_status :: goal_status
  gs_budget :: "int option"
  gs_used :: int
  gs_time :: int
  gs_created :: string
  gs_updated :: string

definition parse_goal_status :: "string \<Rightarrow> goal_status option" where
  "parse_goal_status = map_of [(''active'', GActive), (''paused'', GPaused), (''blocked'', GBlocked),
     (''usage_limited'', GUsageLimited), (''budget_limited'', GBudgetLimited), (''completed'', GCompleted)]"

fun goal_status_str :: "goal_status \<Rightarrow> string" where
  "goal_status_str GActive = ''active''"
| "goal_status_str GPaused = ''paused''"
| "goal_status_str GBlocked = ''blocked''"
| "goal_status_str GUsageLimited = ''usage_limited''"
| "goal_status_str GBudgetLimited = ''budget_limited''"
| "goal_status_str GCompleted = ''completed''"

definition max_safe_integer :: int where
  "max_safe_integer = 9007199254740991"

definition safe_integer :: "json option \<Rightarrow> int option" where
  "safe_integer v =
     (case v of Some (JNum (Fin q)) \<Rightarrow>
        if is_integer_rat q \<and> \<bar>\<lfloor>q\<rfloor>\<bar> \<le> max_safe_integer then Some \<lfloor>q\<rfloor> else None
      | _ \<Rightarrow> None)"

definition non_negative_integer :: "json option \<Rightarrow> int option" where
  "non_negative_integer v = (case safe_integer v of Some i \<Rightarrow> if 0 \<le> i then Some i else None | None \<Rightarrow> None)"

text \<open>\<open>null\<close>, or a positive safe integer; the outer \<open>None\<close> rejects.\<close>

definition budget_field :: "json option \<Rightarrow> int option option" where
  "budget_field v =
     (if v = Some JNull then Some None
      else (case safe_integer v of Some i \<Rightarrow> if 0 < i then Some (Some i) else None | None \<Rightarrow> None))"

definition goal_keys :: "string list" where
  "goal_keys = [''goalId'', ''objective'', ''status'', ''tokenBudget'', ''tokensUsed'', ''timeUsedSeconds'',
     ''createdAt'', ''updatedAt'']"

definition parse_goal_state :: "json \<Rightarrow> goal_state option" where
  "parse_goal_state value =
     (case value of
        JObj obj \<Rightarrow>
          if \<not> has_exact_keys obj goal_keys then None
          else (case map_of obj ''goalId'' of
            Some (JStr goal_id) \<Rightarrow>
              if \<not> uuid_pattern goal_id then None
              else Option.bind (text_field (map_of obj ''objective'') 12000) (\<lambda>objective.
                Option.bind (case map_of obj ''status'' of Some (JStr s) \<Rightarrow> parse_goal_status s | _ \<Rightarrow> None) (\<lambda>status.
                Option.bind (budget_field (map_of obj ''tokenBudget'')) (\<lambda>budget.
                Option.bind (non_negative_integer (map_of obj ''tokensUsed'')) (\<lambda>used.
                Option.bind (non_negative_integer (map_of obj ''timeUsedSeconds'')) (\<lambda>time.
                Option.bind (iso_text (map_of obj ''createdAt'')) (\<lambda>created.
                map_option (\<lambda>updated. \<lparr>gs_id = goal_id, gs_objective = objective, gs_status = status,
                    gs_budget = budget, gs_used = used, gs_time = time, gs_created = created, gs_updated = updated\<rparr>)
                  (iso_text (map_of obj ''updatedAt''))))))))
          | _ \<Rightarrow> None)
      | _ \<Rightarrow> None)"

definition int_json :: "int \<Rightarrow> json" where
  "int_json i = JNum (Fin (of_int i))"

definition goal_json :: "goal_state \<Rightarrow> json" where
  "goal_json g = JObj [(''goalId'', JStr (gs_id g)), (''objective'', JStr (gs_objective g)),
     (''status'', JStr (goal_status_str (gs_status g))),
     (''tokenBudget'', case gs_budget g of None \<Rightarrow> JNull | Some b \<Rightarrow> int_json b),
     (''tokensUsed'', int_json (gs_used g)), (''timeUsedSeconds'', int_json (gs_time g)),
     (''createdAt'', JStr (gs_created g)), (''updatedAt'', JStr (gs_updated g))]"

definition read_goal_state :: "json_obj \<Rightarrow> goal_state option" where
  "read_goal_state = meta_read parse_goal_state ''goalState''"

definition sustained_goal_active :: "json_obj \<Rightarrow> bool" where
  "sustained_goal_active m \<longleftrightarrow> map_option gs_status (read_goal_state m) = Some GActive"

definition runner_wall_llm_timeout_s :: "json_obj option \<Rightarrow> int option" where
  "runner_wall_llm_timeout_s m =
     (if sustained_goal_active (case m of None \<Rightarrow> [] | Some m \<Rightarrow> m) then Some 0 else None)"

text \<open>\<open>publicGoalState\<close>: what the clients are sent; \<open>null\<close> is \<open>None\<close>.\<close>

record agent_goal =
  ag_id :: "string option"
  ag_status :: "goal_status option"
  ag_objective :: string
  ag_budget :: "int option"
  ag_used :: int
  ag_time :: int
  ag_created :: "string option"
  ag_updated :: "string option"

definition public_goal_state :: "goal_state option \<Rightarrow> agent_goal" where
  "public_goal_state g =
     (case g of
        None \<Rightarrow> \<lparr>ag_id = None, ag_status = None, ag_objective = [], ag_budget = None, ag_used = 0, ag_time = 0,
                 ag_created = None, ag_updated = None\<rparr>
      | Some g \<Rightarrow> \<lparr>ag_id = Some (gs_id g), ag_status = Some (gs_status g), ag_objective = gs_objective g,
                 ag_budget = gs_budget g, ag_used = gs_used g, ag_time = gs_time g,
                 ag_created = Some (gs_created g), ag_updated = Some (gs_updated g)\<rparr>)"

text \<open>\<open>objective.split(/\r?\n/, 1)[0].slice(0, 120)\<close>: the first line without its terminator.\<close>

fun first_line :: "string \<Rightarrow> string" where
  "first_line [] = []"
| "first_line (c # cs) =
     (if c = CHR 0x0A then []
      else if c = CHR 0x0D \<and> cs \<noteq> [] \<and> hd cs = CHR 0x0A then []
      else c # first_line cs)"

definition goal_summary :: "string \<Rightarrow> string" where
  "goal_summary objective = take 120 (first_line objective)"

section \<open>Routes\<close>

datatype source_kind = SrcGui | SrcTui | SrcIm

record turn_source =
  ts_kind :: source_kind
  ts_channel :: string

definition parse_source_kind :: "string \<Rightarrow> source_kind option" where
  "parse_source_kind = map_of [(''gui'', SrcGui), (''tui'', SrcTui), (''im'', SrcIm)]"

definition parse_turn_source :: "json option \<Rightarrow> turn_source option" where
  "parse_turn_source v =
     (case v of
        Some (JObj obj) \<Rightarrow>
          if length (obj_keys obj) \<noteq> 2 \<or> \<not> has_key obj ''kind'' \<or> \<not> has_key obj ''channel'' then None
          else (case (map_of obj ''kind'', map_of obj ''channel'') of
                  (Some (JStr k), Some (JStr c)) \<Rightarrow>
                    (case parse_source_kind k of
                       None \<Rightarrow> None
                     | Some kind \<Rightarrow> if js_trim c = [] then None else Some \<lparr>ts_kind = kind, ts_channel = c\<rparr>)
                | _ \<Rightarrow> None)
      | _ \<Rightarrow> None)"

record goal_route =
  gr_channel :: string
  gr_chat_id :: string
  gr_source :: "turn_source option"

definition parse_goal_route :: "json \<Rightarrow> goal_route option" where
  "parse_goal_route value =
     (case value of
        JObj obj \<Rightarrow>
          if \<not> has_exact_keys obj [''channel'', ''chatId''] \<and> \<not> has_exact_keys obj [''channel'', ''chatId'', ''source''] then None
          else (case (map_of obj ''channel'', map_of obj ''chatId'') of
                  (Some (JStr c), Some (JStr i)) \<Rightarrow>
                    if js_trim c = [] \<or> js_trim i = [] then None
                    else if \<not> has_key obj ''source'' then
                      Some \<lparr>gr_channel = c, gr_chat_id = i, gr_source = None\<rparr>
                    else map_option (\<lambda>s. \<lparr>gr_channel = c, gr_chat_id = i, gr_source = Some s\<rparr>)
                           (parse_turn_source (map_of obj ''source''))
                | _ \<Rightarrow> None)
      | _ \<Rightarrow> None)"

definition read_goal_route :: "json_obj \<Rightarrow> goal_route option" where
  "read_goal_route = meta_read parse_goal_route ''goalRoute''"

section \<open>Usage\<close>

record usage =
  us_prompt :: "jsnum option"
  us_completion :: "jsnum option"
  us_total :: "jsnum option"

definition normalize_usage_value :: "jsnum option \<Rightarrow> int" where
  "normalize_usage_value v = (case v of Some (Fin q) \<Rightarrow> if q \<le> 0 then 0 else \<lfloor>q\<rfloor> | _ \<Rightarrow> 0)"

definition goal_turn_tokens :: "usage \<Rightarrow> int" where
  "goal_turn_tokens u =
     (let total = normalize_usage_value (us_total u) in
      if total > 0 then total
      else normalize_usage_value (us_prompt u) + normalize_usage_value (us_completion u))"

lemma normalize_usage_value_nonneg: "0 \<le> normalize_usage_value v"
  by (auto simp: normalize_usage_value_def split: option.splits jsnum.splits)

lemma goal_turn_tokens_nonneg: "0 \<le> goal_turn_tokens u"
  using normalize_usage_value_nonneg by (simp add: goal_turn_tokens_def Let_def add_nonneg_nonneg)

section \<open>The stored Goal reads back\<close>

definition goal_ok :: "goal_state \<Rightarrow> bool" where
  "goal_ok g \<longleftrightarrow> uuid_pattern (gs_id g) \<and> js_trim (gs_objective g) \<noteq> [] \<and> length (gs_objective g) \<le> 12000
     \<and> (case gs_budget g of None \<Rightarrow> True | Some b \<Rightarrow> 0 < b \<and> b \<le> max_safe_integer)
     \<and> 0 \<le> gs_used g \<and> gs_used g \<le> max_safe_integer \<and> 0 \<le> gs_time g \<and> gs_time g \<le> max_safe_integer
     \<and> parse_iso (gs_created g) \<noteq> None \<and> parse_iso (gs_updated g) \<noteq> None"

lemma parse_goal_status_str [simp]: "parse_goal_status (goal_status_str s) = Some s"
  by (cases s) (simp_all add: parse_goal_status_def)

lemma safe_integer_eq: "safe_integer v = Some i \<longleftrightarrow> v = Some (int_json i) \<and> \<bar>i\<bar> \<le> max_safe_integer"
  by (auto simp: safe_integer_def int_json_def is_integer_rat_def split: option.splits json.splits jsnum.splits)

lemma int_json_inject [simp]: "int_json i = int_json j \<longleftrightarrow> i = j"
  by (simp add: int_json_def)

lemma int_json_not_null [simp]: "int_json i \<noteq> JNull" "JNull \<noteq> int_json i"
  by (simp_all add: int_json_def)

lemma non_negative_integer_eq:
  "non_negative_integer v = Some i \<longleftrightarrow> v = Some (int_json i) \<and> 0 \<le> i \<and> i \<le> max_safe_integer"
proof -
  have "non_negative_integer v = Some i \<longleftrightarrow> safe_integer v = Some i \<and> 0 \<le> i"
    by (auto simp: non_negative_integer_def split: option.splits if_splits)
  then show ?thesis by (auto simp: safe_integer_eq)
qed

lemma budget_field_eq:
  "budget_field v = Some b \<longleftrightarrow> (case b of None \<Rightarrow> v = Some JNull
     | Some i \<Rightarrow> v = Some (int_json i) \<and> 0 < i \<and> i \<le> max_safe_integer)"
proof (cases b)
  case None
  then show ?thesis by (auto simp: budget_field_def split: option.splits if_splits)
next
  case (Some i)
  have "budget_field v = Some (Some i) \<longleftrightarrow> v \<noteq> Some JNull \<and> safe_integer v = Some i \<and> 0 < i"
    by (auto simp: budget_field_def split: option.splits if_splits)
  then show ?thesis using Some by (auto simp: safe_integer_eq)
qed

lemma parse_goal_ok: "parse_goal_state j = Some g \<Longrightarrow> goal_ok g"
  by (auto simp: parse_goal_state_def goal_ok_def text_field_eq iso_text_eq non_negative_integer_eq budget_field_eq
      split: json.splits option.splits if_splits bind_splits)

lemma parse_goal_json: "goal_ok g \<Longrightarrow> parse_goal_state (goal_json g) = Some g"
proof -
  assume ok: "goal_ok g"
  have "text_field (Some (JStr (gs_objective g))) 12000 = Some (gs_objective g)"
    "iso_text (Some (JStr (gs_created g))) = Some (gs_created g)"
    "iso_text (Some (JStr (gs_updated g))) = Some (gs_updated g)"
    "non_negative_integer (Some (int_json (gs_used g))) = Some (gs_used g)"
    "non_negative_integer (Some (int_json (gs_time g))) = Some (gs_time g)"
    "budget_field (Some (case gs_budget g of None \<Rightarrow> JNull | Some b \<Rightarrow> int_json b)) = Some (gs_budget g)"
    using ok unfolding text_field_eq iso_text_eq non_negative_integer_eq budget_field_eq goal_ok_def
    by (auto split: option.splits)
  then show ?thesis
    using ok by (simp add: parse_goal_state_def goal_json_def has_exact_keys_def goal_keys_def obj_keys_def goal_ok_def)
qed

interpretation goal_store: stored_state parse_goal_state goal_json goal_ok "''goalState''"
  by unfold_locales (simp_all add: parse_goal_json parse_goal_ok)

text \<open>
  a Goal survives storage. What \<open>parseGoalState\<close> accepts satisfies every bound of the state, a
  Goal within the bounds is read back as itself, and writing another key of the metadata (the
  route, the inbox) does not change it.
\<close>

theorem goal_round_trip:
  "(goal_ok g \<longrightarrow> read_goal_state (meta_write ''goalState'' (goal_json g) m) = Some g)
   \<and> (read_goal_state m = Some h \<longrightarrow> goal_ok h)
   \<and> (k \<noteq> ''goalState'' \<longrightarrow> read_goal_state (meta_write k v m) = read_goal_state m)"
  by (auto simp: read_goal_state_def goal_store.read_write dest: goal_store.read_valid)

end
