(* ===== verification/Goal_Inbox.thy ===== *)
theory Goal_Inbox
  imports Goal_State
begin

text \<open>
  The inbox of a session with a Goal, and the transfers out of it (\<open>goal-runtime.ts\<close>): user messages
  wait in the metadata of the session, under \<open>goalTurnInbox\<close>, until a turn reserves and consumes
  them. Each operation is the body that \<open>mutate\<close> runs: a function of the metadata, which returns a
  value and the new metadata, or throws and changes nothing. \<open>Date.parse\<close> is modelled on the texts
  that \<open>toISOString\<close> writes; the decimal form of numbers is the argument \<open>nt\<close>.
\<close>

datatype goal_error =
    SessionDeletionInProgress | GoalNotFound | GoalIdMismatch | InvalidTransition | GoalTurnSettling
  | GoalControlBusy | GoalUnfinished | GoalRouteUnavailable | BudgetExhausted | InvalidObjective
  | InvalidTokenBudget | ClearCancelFailed | RequestIdConflict | GoalInboxInvalid
  | GoalInboxMetadataInvalid | GoalInboxFull | GoalInboxEntryUnavailable | JsTypeError

section \<open>Entries\<close>

record inbox_entry =
  en_id :: string
  en_turn :: "string option"
  en_channel :: string
  en_chat :: string
  en_sender :: string
  en_content :: string
  en_media :: "string list"
  en_meta :: json_obj
  en_received :: string

text \<open>JSON values only: a number that is not finite has no JSON form.\<close>

fun to_json_value :: "json \<Rightarrow> json option" where
  "to_json_value JNull = Some JNull"
| "to_json_value (JBool b) = Some (JBool b)"
| "to_json_value (JStr s) = Some (JStr s)"
| "to_json_value (JNum n) = (if is_finite_num n then Some (JNum n) else None)"
| "to_json_value (JArr xs) = map_option JArr (those (map to_json_value xs))"
| "to_json_value (JObj kvs) = map_option JObj (those (map (\<lambda>kv. map_option (Pair (fst kv)) (to_json_value (snd kv))) kvs))"

text \<open>\<open>String(v)\<close>, and \<open>String(undefined)\<close>.\<close>

definition text_of :: "(jsnum \<Rightarrow> string) \<Rightarrow> json option \<Rightarrow> string" where
  "text_of nt v = (case v of None \<Rightarrow> ''undefined'' | Some v \<Rightarrow> json_text nt v)"

fun str_item :: "json \<Rightarrow> string option" where
  "str_item (JStr s) = Some s"
| "str_item _ = None"

definition turn_field :: "json option \<Rightarrow> string option option" where
  "turn_field v = (case v of Some JNull \<Rightarrow> Some None | Some (JStr s) \<Rightarrow> Some (Some s) | _ \<Rightarrow> None)"

definition str_field :: "json option \<Rightarrow> string option" where
  "str_field v = (case v of Some (JStr s) \<Rightarrow> Some s | _ \<Rightarrow> None)"

definition nonempty_field :: "json option \<Rightarrow> string option" where
  "nonempty_field v = (case str_field v of Some s \<Rightarrow> if s = [] then None else Some s | None \<Rightarrow> None)"

definition media_field :: "json option \<Rightarrow> string list option" where
  "media_field v = (case v of Some (JArr xs) \<Rightarrow> those (map str_item xs) | _ \<Rightarrow> None)"

definition meta_field :: "json option \<Rightarrow> json_obj option" where
  "meta_field v =
     (case v of Some (JObj o') \<Rightarrow> (case to_json_value (JObj o') of Some (JObj m) \<Rightarrow> Some m | _ \<Rightarrow> None)
      | _ \<Rightarrow> None)"

definition parse_entry :: "json \<Rightarrow> inbox_entry option" where
  "parse_entry value =
     (case value of
        JObj obj \<Rightarrow>
          Option.bind (nonempty_field (map_of obj ''id'')) (\<lambda>i.
          Option.bind (turn_field (map_of obj ''turnId'')) (\<lambda>turn.
          Option.bind (nonempty_field (map_of obj ''channel'')) (\<lambda>channel.
          Option.bind (nonempty_field (map_of obj ''chatId'')) (\<lambda>chat.
          Option.bind (str_field (map_of obj ''senderId'')) (\<lambda>sender.
          Option.bind (str_field (map_of obj ''content'')) (\<lambda>content.
          Option.bind (media_field (map_of obj ''media'')) (\<lambda>media.
          Option.bind (meta_field (map_of obj ''metadata'')) (\<lambda>meta.
          map_option (\<lambda>received. \<lparr>en_id = i, en_turn = turn, en_channel = channel, en_chat = chat,
              en_sender = sender, en_content = content, en_media = media, en_meta = meta, en_received = received\<rparr>)
            (iso_text (map_of obj ''receivedAt''))))))))))
      | _ \<Rightarrow> None)"

definition parse_inbox :: "json option \<Rightarrow> goal_error + inbox_entry list" where
  "parse_inbox value =
     (case value of
        None \<Rightarrow> Inr []
      | Some JNull \<Rightarrow> Inr []
      | Some (JArr xs) \<Rightarrow> (case those (map parse_entry xs) of Some es \<Rightarrow> Inr es | None \<Rightarrow> Inl GoalInboxInvalid)
      | _ \<Rightarrow> Inl GoalInboxInvalid)"

definition entry_json :: "inbox_entry \<Rightarrow> json" where
  "entry_json e = JObj [(''id'', JStr (en_id e)),
     (''turnId'', case en_turn e of None \<Rightarrow> JNull | Some t \<Rightarrow> JStr t),
     (''channel'', JStr (en_channel e)), (''chatId'', JStr (en_chat e)), (''senderId'', JStr (en_sender e)),
     (''content'', JStr (en_content e)), (''media'', JArr (map JStr (en_media e))),
     (''metadata'', JObj (en_meta e)), (''receivedAt'', JStr (en_received e))]"

definition read_inbox :: "json_obj \<Rightarrow> goal_error + inbox_entry list" where
  "read_inbox m = parse_inbox (map_of m ''goalTurnInbox'')"

definition write_inbox :: "inbox_entry list \<Rightarrow> json_obj \<Rightarrow> json_obj" where
  "write_inbox es m = meta_write ''goalTurnInbox'' (JArr (map entry_json es)) m"

section \<open>What a message brings\<close>

definition inbox_metadata_keys :: "string list" where
  "inbox_metadata_keys = [''client_request_id'', ''queued_at'', ''turn_source'', ''webui_request_digest'',
     ''webui_queue_surface'', ''webui'', ''wantsStream'', ''webui_language'', ''model_preset'',
     ''model_provider'', ''model'', ''mcp_presets'', ''image_generation'', ''message_id'',
     ''computerUseInteractive'', ''computerUseMessageRole'', ''thread_ts'', ''reply_to'', ''topic_id'']"

definition source_kind_str :: "source_kind \<Rightarrow> string" where
  "source_kind_str k = (case k of SrcGui \<Rightarrow> ''gui'' | SrcTui \<Rightarrow> ''tui'' | SrcIm \<Rightarrow> ''im'')"

definition turn_source_json :: "turn_source \<Rightarrow> json" where
  "turn_source_json s = JObj [(''kind'', JStr (source_kind_str (ts_kind s))), (''channel'', JStr (ts_channel s))]"

definition keep_metadata :: "json_obj \<Rightarrow> string \<Rightarrow> (string \<times> json) option" where
  "keep_metadata metadata k =
     (case map_of metadata k of
        None \<Rightarrow> None
      | Some v \<Rightarrow>
          if k = ''computerUseInteractive'' \<and> v \<noteq> JBool False then None
          else if k = ''computerUseMessageRole'' \<and> v \<notin> JStr ` set [''user'', ''assistant'', ''tool'', ''system'', ''non-user''] then None
          else map_option (Pair k) (to_json_value v))"

definition blank_field :: "json option \<Rightarrow> bool" where
  "blank_field v = (case v of Some (JStr s) \<Rightarrow> js_trim s = [] | _ \<Rightarrow> True)"

definition sanitize_goal_inbox_metadata :: "string \<Rightarrow> json_obj \<Rightarrow> goal_error + json_obj" where
  "sanitize_goal_inbox_metadata channel metadata =
     (let out = List.map_filter (keep_metadata metadata) inbox_metadata_keys in
      bindE (throw_if (channel = ''websocket''
               \<and> (blank_field (map_of out ''client_request_id'') \<or> blank_field (map_of out ''webui_request_digest'')))
               GoalInboxMetadataInvalid) (\<lambda>_.
      bindE (if \<not> has_key out ''turn_source'' then Inr out
             else case parse_turn_source (map_of out ''turn_source'') of
                    None \<Rightarrow> Inl GoalInboxMetadataInvalid
                  | Some source \<Rightarrow> Inr (obj_put out (''turn_source'', turn_source_json source))) (\<lambda>out.
      if \<not> has_key out ''queued_at'' then Inr out
      else case iso_text (map_of out ''queued_at'') of
             None \<Rightarrow> Inl GoalInboxMetadataInvalid
           | Some queued_at \<Rightarrow> Inr (obj_put out (''queued_at'', JStr queued_at)))))"

record inbound_message =
  im_channel :: string
  im_chat :: string
  im_sender :: string
  im_role :: string
  im_content :: string
  im_media :: "string list"
  im_metadata :: json_obj
  im_timestamp :: int
  im_source :: "turn_source option"
  im_internal :: bool

definition native_background :: "inbound_message \<Rightarrow> bool" where
  "native_background message \<longleftrightarrow> im_internal message \<or> im_role message \<noteq> ''user''
     \<or> im_channel message \<in> set [''system'', ''cron'']
     \<or> to_lower (im_sender message) \<in> set [''subagent'', ''goal-runtime'', ''system'', ''cron'']
     \<or> im_channel message = ''websocket''
        \<and> (map_option ts_channel (im_source message) \<noteq> Some ''websocket''
           \<or> map_option ts_kind (im_source message) \<notin> {Some SrcGui, Some SrcTui})"

definition message_source :: "inbound_message \<Rightarrow> turn_source option" where
  "message_source message =
     (case im_source message of Some s \<Rightarrow> Some s
      | None \<Rightarrow> parse_turn_source (map_of (im_metadata message) ''turn_source''))"

definition message_metadata :: "inbound_message \<Rightarrow> goal_error + json_obj" where
  "message_metadata message =
     sanitize_goal_inbox_metadata (im_channel message)
       (obj_merge (im_metadata message)
         ((case message_source message of Some s \<Rightarrow> [(''turn_source'', turn_source_json s)] | None \<Rightarrow> [])
          @ [(''computerUseMessageRole'', JStr (if im_role message \<in> set [''user'', ''assistant'', ''tool'', ''system'']
                then im_role message else ''non-user''))]
          @ (if native_background message then [(''computerUseInteractive'', JBool False)] else [])))"

section \<open>Operations\<close>

type_synonym 'a inbox_op = "json_obj \<Rightarrow> goal_error + ('a \<times> json_obj)"

definition enqueue_entry :: "string \<Rightarrow> json_obj \<Rightarrow> inbound_message \<Rightarrow> inbox_entry inbox_op" where
  "enqueue_entry uuid metadata message m =
     (let i = (case map_of metadata ''client_request_id'' of Some (JStr s) \<Rightarrow> s | _ \<Rightarrow> uuid) in
      bindE (read_inbox m) (\<lambda>inbox.
      case find (\<lambda>e. en_id e = i) inbox of
        Some existing \<Rightarrow> Inr (existing, m)
      | None \<Rightarrow>
          bindE (throw_if (length inbox \<ge> 20) GoalInboxFull) (\<lambda>_.
          let entry = \<lparr>en_id = i, en_turn = None, en_channel = im_channel message, en_chat = im_chat message,
                en_sender = im_sender message, en_content = im_content message, en_media = im_media message,
                en_meta = metadata, en_received = to_iso_string (im_timestamp message)\<rparr>
          in Inr (entry, write_inbox (inbox @ [entry]) m))))"

definition enqueue_user_message :: "string \<Rightarrow> inbound_message \<Rightarrow> inbox_entry inbox_op" where
  "enqueue_user_message uuid message m =
     bindE (message_metadata message) (\<lambda>metadata. enqueue_entry uuid metadata message m)"

definition reserve_inbox_entry :: "string \<Rightarrow> inbox_entry option inbox_op" where
  "reserve_inbox_entry turn m =
     bindE (read_inbox m) (\<lambda>inbox.
     case index_of (\<lambda>e. en_turn e = None) inbox of
       None \<Rightarrow> Inr (None, m)
     | Some i \<Rightarrow>
         let updated = (inbox ! i)\<lparr>en_turn := Some turn\<rparr>
         in Inr (Some updated, write_inbox (inbox[i := updated]) m))"

definition consume_inbox_entry :: "string \<Rightarrow> string \<Rightarrow> inbox_entry inbox_op" where
  "consume_inbox_entry entry_id turn m =
     bindE (read_inbox m) (\<lambda>inbox.
     case index_of (\<lambda>e. en_id e = entry_id \<and> en_turn e = Some turn) inbox of
       None \<Rightarrow> Inl GoalInboxEntryUnavailable
     | Some i \<Rightarrow> Inr (inbox ! i, write_inbox (remove_at i inbox) m))"

text \<open>\<open>persist\<close> is the caller's: what it writes to the metadata of the session.\<close>

definition persist_inbox_entry_for_turn :: "(inbox_entry \<Rightarrow> json_obj \<Rightarrow> json_obj) \<Rightarrow> string \<Rightarrow> inbox_entry option inbox_op" where
  "persist_inbox_entry_for_turn persist turn m =
     bindE (read_inbox m) (\<lambda>inbox.
     case index_of (\<lambda>e. en_turn e = Some turn) inbox of
       None \<Rightarrow> Inr (None, m)
     | Some i \<Rightarrow> Inr (Some (inbox ! i), write_inbox (remove_at i inbox) (persist (inbox ! i) m)))"

definition goal_route_json :: "goal_route \<Rightarrow> json" where
  "goal_route_json r = JObj ([(''channel'', JStr (gr_channel r)), (''chatId'', JStr (gr_chat_id r))]
     @ (case gr_source r of None \<Rightarrow> [] | Some s \<Rightarrow> [(''source'', turn_source_json s)]))"

definition persist_goal_user_turn ::
  "(inbox_entry option \<Rightarrow> json_obj \<Rightarrow> json_obj) \<Rightarrow> string \<Rightarrow> goal_route \<Rightarrow> (inbox_entry option \<times> goal_state option) inbox_op" where
  "persist_goal_user_turn persist turn route m =
     bindE (read_inbox m) (\<lambda>inbox.
     let goal = read_goal_state m;
         found = index_of (\<lambda>e. en_turn e = Some turn) inbox;
         entry = map_option (\<lambda>i. inbox ! i) found;
         m1 = persist entry m;
         m2 = (case found of None \<Rightarrow> m1 | Some i \<Rightarrow> write_inbox (remove_at i inbox) m1);
         m3 = (case goal of None \<Rightarrow> m2
               | Some g \<Rightarrow> if gs_status g \<noteq> GCompleted then meta_write ''goalRoute'' (goal_route_json route) m2 else m2)
     in Inr ((entry, goal), m3))"

definition reset_dispatching_inbox :: "unit inbox_op" where
  "reset_dispatching_inbox m =
     (if \<not> has_key m ''goalTurnInbox'' then Inr ((), m)
      else bindE (read_inbox m) (\<lambda>inbox. Inr ((), write_inbox (map (\<lambda>e. e\<lparr>en_turn := None\<rparr>) inbox) m)))"

datatype removal = Removed | Reserved | Missing

definition remove_unreserved_inbox_entry :: "string \<Rightarrow> removal inbox_op" where
  "remove_unreserved_inbox_entry entry_id m =
     bindE (read_inbox m) (\<lambda>inbox.
     case index_of (\<lambda>e. en_id e = entry_id \<and> str_field (map_of (en_meta e) ''client_request_id'') \<noteq> None
            \<and> parse_turn_source (map_of (en_meta e) ''turn_source'') \<noteq> None) inbox of
       None \<Rightarrow> Inr (Missing, m)
     | Some i \<Rightarrow>
         if en_turn (inbox ! i) \<noteq> None then Inr (Reserved, m)
         else Inr (Removed, write_inbox (remove_at i inbox) m))"

text \<open>
  Reordering: the waiting entries whose request id is in the list are put back, into the places
  they hold together, in the order of the list; an id of the list that no waiting entry has is a
  \<open>TypeError\<close> when its turn comes.
\<close>

definition request_id :: "(jsnum \<Rightarrow> string) \<Rightarrow> inbox_entry \<Rightarrow> string" where
  "request_id nt e = text_of nt (map_of (en_meta e) ''client_request_id'')"

definition waiting_for :: "(jsnum \<Rightarrow> string) \<Rightarrow> string list \<Rightarrow> inbox_entry \<Rightarrow> bool" where
  "waiting_for nt ids e \<longleftrightarrow> en_turn e = None \<and> request_id nt e \<in> set ids"

fun place_entries ::
  "(jsnum \<Rightarrow> string) \<Rightarrow> (string \<Rightarrow> inbox_entry option) \<Rightarrow> (string \<Rightarrow> string option) \<Rightarrow> string list \<Rightarrow> inbox_entry list
     \<Rightarrow> goal_error + inbox_entry list" where
  "place_entries nt entries queued_at ids [] = Inr []"
| "place_entries nt entries queued_at ids (e # es) =
     (if en_turn e \<noteq> None \<or> entries (request_id nt e) = None then
        bindE (place_entries nt entries queued_at ids es) (\<lambda>es'. Inr (e # es'))
      else case ids of
        [] \<Rightarrow> Inl JsTypeError
      | i # ids' \<Rightarrow>
          (case entries i of
             None \<Rightarrow> Inl JsTypeError
           | Some selected \<Rightarrow>
               bindE (place_entries nt entries queued_at ids' es) (\<lambda>es'.
               Inr (selected\<lparr>en_meta := (case queued_at i of
                      None \<Rightarrow> meta_delete ''queued_at'' (en_meta selected)
                    | Some q \<Rightarrow> obj_put (en_meta selected) (''queued_at'', JStr q))\<rparr> # es'))))"

definition reorder_inbox_entries ::
  "(jsnum \<Rightarrow> string) \<Rightarrow> string list \<Rightarrow> (string \<Rightarrow> string option) \<Rightarrow> unit inbox_op" where
  "reorder_inbox_entries nt ordered_ids queued_at m =
     bindE (read_inbox m) (\<lambda>inbox.
     let entries = map_of (rev (map (\<lambda>e. (request_id nt e, e)) (filter (waiting_for nt ordered_ids) inbox)))
     in bindE (place_entries nt entries queued_at ordered_ids inbox) (\<lambda>es. Inr ((), write_inbox es m)))"

section \<open>Transfers to a running turn\<close>

text \<open>A record that is malformed is dropped; \<open>descriptor\<close> and \<open>messageFields\<close> may be arrays.\<close>

definition is_object :: "json option \<Rightarrow> bool" where
  "is_object v = (case v of Some (JObj _) \<Rightarrow> True | Some (JArr _) \<Rightarrow> True | _ \<Rightarrow> False)"

fun transfer_item :: "json \<Rightarrow> json_obj option" where
  "transfer_item (JObj r) =
     (if str_field (map_of r ''clientRequestId'') = None \<or> str_field (map_of r ''expectedTurnId'') = None
        \<or> map_of r ''store'' \<notin> {Some (JStr ''slot''), Some (JStr ''goal'')}
        \<or> \<not> is_object (map_of r ''descriptor'') \<or> \<not> is_object (map_of r ''messageFields'') then None
      else Some r)"
| "transfer_item _ = None"

definition parse_queue_steer_transfers :: "json option \<Rightarrow> json_obj list" where
  "parse_queue_steer_transfers v = (case v of Some (JArr xs) \<Rightarrow> List.map_filter transfer_item xs | _ \<Rightarrow> [])"

definition read_transfers :: "json_obj \<Rightarrow> json_obj list" where
  "read_transfers m = parse_queue_steer_transfers (map_of m ''webui_queue_steer_transfers'')"

definition write_transfers :: "json_obj list \<Rightarrow> json_obj \<Rightarrow> json_obj" where
  "write_transfers ts m = meta_write ''webui_queue_steer_transfers'' (JArr (map JObj ts)) m"

definition transfer_id :: "json_obj \<Rightarrow> string option" where
  "transfer_id t = str_field (map_of t ''clientRequestId'')"

definition webui_source :: turn_source where
  "webui_source = \<lparr>ts_kind = SrcGui, ts_channel = ''websocket''\<rparr>"

definition entry_source :: "string \<Rightarrow> inbox_entry \<Rightarrow> turn_source option" where
  "entry_source surface e =
     (case parse_turn_source (map_of (en_meta e) ''turn_source'') of
        Some s \<Rightarrow> Some s
      | None \<Rightarrow> if en_channel e = ''websocket'' \<and> map_of (en_meta e) ''webui'' = Some (JBool True)
                  \<and> map_of (en_meta e) ''webui_queue_surface'' = Some (JStr surface)
                then Some webui_source else None)"

definition steerable :: "string \<Rightarrow> string \<times> string \<Rightarrow> inbox_entry \<Rightarrow> bool" where
  "steerable surface route e \<longleftrightarrow>
     entry_source surface e = Some webui_source
     \<and> en_channel e = fst route \<and> en_chat e = snd route
     \<and> map_of (en_meta e) ''webui_queue_surface'' = Some (JStr surface)
     \<and> take 1 (js_trim_start (en_content e)) \<noteq> ''/''"

text \<open>\<open>String(entry.metadata.queued_at ?? entry.receivedAt)\<close>\<close>

definition queued_at_text :: "(jsnum \<Rightarrow> string) \<Rightarrow> inbox_entry \<Rightarrow> string" where
  "queued_at_text nt e =
     (case map_of (en_meta e) ''queued_at'' of
        None \<Rightarrow> en_received e | Some JNull \<Rightarrow> en_received e | Some v \<Rightarrow> json_text nt v)"

definition transfer_of ::
  "(jsnum \<Rightarrow> string) \<Rightarrow> string \<Rightarrow> string \<Rightarrow> string \<Rightarrow> string \<Rightarrow> turn_source \<Rightarrow> inbox_entry \<Rightarrow> json_obj" where
  "transfer_of nt session_key client_request_id expected_turn_id surface source e =
     [(''clientRequestId'', JStr client_request_id), (''expectedTurnId'', JStr expected_turn_id),
      (''store'', JStr ''goal''),
      (''descriptor'', JObj [(''clientRequestId'', JStr client_request_id), (''content'', JStr (en_content e)),
         (''media'', JArr (map JStr (en_media e))), (''queuedAt'', JStr (queued_at_text nt e)),
         (''sessionKey'', JStr session_key), (''source'', turn_source_json source), (''queueSurface'', JStr surface)]),
      (''messageFields'', JObj [(''channel'', JStr (en_channel e)), (''chatId'', JStr (en_chat e)),
         (''senderId'', JStr (en_sender e)), (''content'', JStr (en_content e)),
         (''media'', JArr (map JStr (en_media e))),
         (''metadata'', JObj (obj_put (en_meta e) (''turn_source'', turn_source_json source))),
         (''timestamp'', JStr (en_received e)), (''sessionKey'', JStr session_key),
         (''turnSource'', turn_source_json source)])]"

datatype steer_result =
    Transferred inbox_entry json_obj
  | NotSteerable
  | SteerReserved
  | SteerMissing

definition begin_queue_steer_transfer ::
  "(jsnum \<Rightarrow> string) \<Rightarrow> string \<Rightarrow> string \<Rightarrow> string \<Rightarrow> string \<Rightarrow> string \<times> string \<Rightarrow> steer_result inbox_op" where
  "begin_queue_steer_transfer nt session_key client_request_id expected_turn_id surface route m =
     (let transfers = read_transfers m in
      bindE (read_inbox m) (\<lambda>inbox.
      case index_of (\<lambda>e. en_id e = client_request_id) inbox of
        None \<Rightarrow>
          Inr (if list_ex (\<lambda>t. transfer_id t = Some client_request_id) transfers then SteerReserved else SteerMissing, m)
      | Some i \<Rightarrow>
         (let entry = inbox ! i in
          if en_turn entry \<noteq> None then Inr (SteerReserved, m)
          else if \<not> steerable surface route entry then Inr (NotSteerable, m)
          else
           (let transfer = transfer_of nt session_key client_request_id expected_turn_id surface webui_source entry;
                m1 = (case read_goal_route m of
                        None \<Rightarrow> m
                      | Some r \<Rightarrow>
                          if gr_source r = None \<and> gr_channel r = en_channel entry \<and> gr_chat_id r = en_chat entry
                          then meta_write ''goalRoute'' (goal_route_json (r\<lparr>gr_source := Some webui_source\<rparr>)) m else m)
            in Inr (Transferred entry transfer,
                 write_transfers (filter (\<lambda>t. transfer_id t \<noteq> Some client_request_id) transfers @ [transfer])
                   (write_inbox (remove_at i inbox) m1))))))"

definition cmp_queued :: "(jsnum \<Rightarrow> string) \<Rightarrow> inbox_entry \<Rightarrow> inbox_entry \<Rightarrow> int" where
  "cmp_queued nt a b = then_cmp (cmp_str (queued_at_text nt a) (queued_at_text nt b)) (cmp_str (en_id a) (en_id b))"

text \<open>The entry of a transfer that a turn did not take; its fields are read as they were written.\<close>

definition restored_entry :: "string \<Rightarrow> string \<Rightarrow> int \<Rightarrow> json_obj \<Rightarrow> inbox_entry option" where
  "restored_entry client_request_id queued_at now t =
     (case map_of t ''messageFields'' of
        Some (JObj f) \<Rightarrow>
          Option.bind (str_field (map_of f ''channel'')) (\<lambda>channel.
          Option.bind (str_field (map_of f ''chatId'')) (\<lambda>chat.
          Option.bind (str_field (map_of f ''senderId'')) (\<lambda>sender.
          Option.bind (str_field (map_of f ''content'')) (\<lambda>content.
          Option.bind (media_field (map_of f ''media'')) (\<lambda>media.
          case map_of f ''metadata'' of
            Some (JObj meta) \<Rightarrow> Some \<lparr>en_id = client_request_id, en_turn = None, en_channel = channel, en_chat = chat,
              en_sender = sender, en_content = content, en_media = media,
              en_meta = obj_put meta (''queued_at'', JStr queued_at), en_received = to_iso_string now\<rparr>
          | _ \<Rightarrow> None)))))
      | _ \<Rightarrow> None)"

definition restore_goal_queue_steer_transfer ::
  "(jsnum \<Rightarrow> string) \<Rightarrow> string \<Rightarrow> string \<Rightarrow> int \<Rightarrow> inbox_entry option inbox_op" where
  "restore_goal_queue_steer_transfer nt client_request_id queued_at now m =
     (case find (\<lambda>t. transfer_id t = Some client_request_id \<and> map_of t ''store'' = Some (JStr ''goal'')) (read_transfers m) of
        None \<Rightarrow> Inr (None, m)
      | Some transfer \<Rightarrow>
          bindE (read_inbox m) (\<lambda>inbox.
          case find (\<lambda>e. en_id e = client_request_id) inbox of
            Some existing \<Rightarrow> Inr (Some existing, m)
          | None \<Rightarrow>
             (case restored_entry client_request_id queued_at now transfer of
                None \<Rightarrow> Inl JsTypeError
              | Some entry \<Rightarrow> Inr (Some entry, write_inbox (sort_cmp (cmp_queued nt) (inbox @ [entry])) m))))"

definition mark_queue_steer_transfer_consumed :: "string \<Rightarrow> string \<Rightarrow> int \<Rightarrow> unit inbox_op" where
  "mark_queue_steer_transfer_consumed client_request_id expected_turn_id now m =
     (let transfers = read_transfers m in
      case index_of (\<lambda>t. transfer_id t = Some client_request_id
              \<and> str_field (map_of t ''expectedTurnId'') = Some expected_turn_id) transfers of
        None \<Rightarrow> Inr ((), m)
      | Some i \<Rightarrow>
         if js_truthy (map_of (transfers ! i) ''consumedAt'') then Inr ((), m)
         else Inr ((), write_transfers (transfers[i := obj_put (transfers ! i) (''consumedAt'', JStr (to_iso_string now))]) m))"

definition complete_queue_steer_transfer :: "string \<Rightarrow> unit inbox_op" where
  "complete_queue_steer_transfer client_request_id m =
     (let transfers = filter (\<lambda>t. transfer_id t \<noteq> Some client_request_id) (read_transfers m) in
      Inr ((), if transfers \<noteq> [] then write_transfers transfers m else meta_delete ''webui_queue_steer_transfers'' m))"

section \<open>The stored inbox reads back\<close>

definition json_ok :: "json \<Rightarrow> bool" where
  "json_ok v \<longleftrightarrow> to_json_value v = Some v"

definition entry_ok :: "inbox_entry \<Rightarrow> bool" where
  "entry_ok e \<longleftrightarrow> en_id e \<noteq> [] \<and> en_channel e \<noteq> [] \<and> en_chat e \<noteq> [] \<and> parse_iso (en_received e) \<noteq> None
     \<and> json_ok (JObj (en_meta e))"

lemma those_map_Some: "(\<And>x y. x \<in> set xs \<Longrightarrow> f x = Some y \<Longrightarrow> y = g x) \<Longrightarrow> those (map f xs) = Some ys \<Longrightarrow> ys = map g xs"
  by (induction xs arbitrary: ys) (auto split: option.splits)

lemma those_map_iff: "those (map f xs) = Some ys \<longleftrightarrow> list_all2 (\<lambda>x y. f x = Some y) xs ys"
proof (induction xs arbitrary: ys)
  case (Cons x xs)
  then show ?case by (cases ys) (auto split: option.splits)
qed auto

lemma those_map_all: "(\<And>x. x \<in> set xs \<Longrightarrow> f x = Some (g x)) \<Longrightarrow> those (map f xs) = Some (map g xs)"
  by (induction xs) auto

lemma to_json_value_id: "to_json_value v = Some w \<Longrightarrow> w = v"
proof (induction v arbitrary: w rule: to_json_value.induct)
  case (5 xs)
  then obtain ys where ys: "those (map to_json_value xs) = Some ys" "w = JArr ys" by auto
  have "ys = map (\<lambda>x. x) xs"
    using ys(1) "5.IH" by (intro those_map_Some [of xs to_json_value]) auto
  with ys(2) show ?case by simp
next
  case (6 kvs)
  let ?f = "\<lambda>kv. map_option (Pair (fst kv)) (to_json_value (snd kv))"
  from 6 obtain ys where ys: "those (map ?f kvs) = Some ys" "w = JObj ys" by auto
  have "ys = map (\<lambda>x. x) kvs"
    using ys(1) "6.IH" by (intro those_map_Some [of kvs ?f]) force+
  with ys(2) show ?case by simp
qed (auto split: if_splits)

lemma to_json_value_ok: "to_json_value v = Some w \<Longrightarrow> json_ok w"
  using to_json_value_id by (force simp: json_ok_def)

lemma json_ok_simps [simp]:
  "json_ok JNull" "json_ok (JBool b)" "json_ok (JStr s)"
  by (simp_all add: json_ok_def)

lemma those_id_all: "(\<forall>x\<in>set xs. f x = Some x) \<Longrightarrow> those (map f xs) = Some xs"
  using those_map_all [of xs f "\<lambda>x. x"] by simp

lemma json_ok_obj: "json_ok (JObj kvs) \<longleftrightarrow> (\<forall>kv \<in> set kvs. json_ok (snd kv))"
proof
  let ?f = "\<lambda>kv. map_option (Pair (fst kv)) (to_json_value (snd kv))"
  assume "json_ok (JObj kvs)"
  then have "list_all2 (\<lambda>x y. ?f x = Some y) kvs kvs"
    using those_map_iff [of ?f kvs kvs] by (auto simp: json_ok_def)
  then show "\<forall>kv \<in> set kvs. json_ok (snd kv)"
    by (fastforce simp: json_ok_def list_all2_conv_all_nth in_set_conv_nth dest: to_json_value_id)
next
  let ?f = "\<lambda>kv. map_option (Pair (fst kv)) (to_json_value (snd kv))"
  assume "\<forall>kv \<in> set kvs. json_ok (snd kv)"
  then have "those (map ?f kvs) = Some kvs" by (intro those_id_all) (auto simp: json_ok_def)
  then show "json_ok (JObj kvs)" by (simp add: json_ok_def)
qed

lemma json_ok_meta_field: "meta_field v = Some m \<longleftrightarrow> v = Some (JObj m) \<and> json_ok (JObj m)"
  by (auto simp: meta_field_def json_ok_def split: option.splits json.splits dest: to_json_value_id
      simp del: to_json_value.simps)

lemma obj_put_set: "set (obj_put a kv) \<subseteq> insert kv (set a)"
  by (induction a kv rule: obj_put.induct) auto

lemma json_ok_put: "json_ok (JObj m) \<Longrightarrow> json_ok v \<Longrightarrow> json_ok (JObj (obj_put m (k, v)))"
  using obj_put_set [of m "(k, v)"] by (fastforce simp: json_ok_obj)

lemma media_field_eq: "media_field v = Some ss \<longleftrightarrow> v = Some (JArr (map JStr ss))"
proof -
  have "str_item x = Some s \<longleftrightarrow> x = JStr s" for x s by (cases x) auto
  then have "those (map str_item xs) = Some ss \<longleftrightarrow> xs = map JStr ss" for xs
    by (auto simp: those_map_iff list_all2_conv_all_nth intro: nth_equalityI)
  then show ?thesis by (auto simp: media_field_def split: option.splits json.splits)
qed

lemma nonempty_field_eq: "nonempty_field v = Some s \<longleftrightarrow> v = Some (JStr s) \<and> s \<noteq> []"
  by (auto simp: nonempty_field_def str_field_def split: option.splits json.splits if_splits)

lemma str_field_eq: "str_field v = Some s \<longleftrightarrow> v = Some (JStr s)"
  by (auto simp: str_field_def split: option.splits json.splits)

lemma turn_field_eq: "turn_field v = Some t \<longleftrightarrow> v = Some (case t of None \<Rightarrow> JNull | Some s \<Rightarrow> JStr s)"
  by (auto simp: turn_field_def split: option.splits json.splits)

lemmas entry_field_simps = nonempty_field_eq str_field_eq turn_field_eq media_field_eq json_ok_meta_field iso_text_eq

lemma parse_entry_ok: "parse_entry j = Some e \<Longrightarrow> entry_ok e"
  by (auto simp: parse_entry_def entry_ok_def entry_field_simps split: json.splits bind_splits)

lemma parse_entry_json: "entry_ok e \<Longrightarrow> parse_entry (entry_json e) = Some e"
proof -
  assume ok: "entry_ok e"
  then have "nonempty_field (Some (JStr (en_id e))) = Some (en_id e)"
    "turn_field (Some (case en_turn e of None \<Rightarrow> JNull | Some t \<Rightarrow> JStr t)) = Some (en_turn e)"
    "nonempty_field (Some (JStr (en_channel e))) = Some (en_channel e)"
    "nonempty_field (Some (JStr (en_chat e))) = Some (en_chat e)"
    "str_field (Some (JStr (en_sender e))) = Some (en_sender e)"
    "str_field (Some (JStr (en_content e))) = Some (en_content e)"
    "media_field (Some (JArr (map JStr (en_media e)))) = Some (en_media e)"
    "meta_field (Some (JObj (en_meta e))) = Some (en_meta e)"
    "iso_text (Some (JStr (en_received e))) = Some (en_received e)"
    by (simp_all only: entry_field_simps entry_ok_def simp_thms)
  then show ?thesis by (simp add: parse_entry_def entry_json_def)
qed

definition inbox_value :: "json \<Rightarrow> inbox_entry list option" where
  "inbox_value j = (case parse_inbox (Some j) of Inr es \<Rightarrow> Some es | Inl _ \<Rightarrow> None)"

lemma inbox_value_ok: "inbox_value j = Some es \<Longrightarrow> list_all entry_ok es"
  by (auto simp: inbox_value_def parse_inbox_def those_map_iff list_all2_conv_all_nth list_all_length
      intro: parse_entry_ok split: json.splits option.splits)

interpretation inbox_store: stored_state inbox_value "\<lambda>es. JArr (map entry_json es)" "list_all entry_ok" "''goalTurnInbox''"
proof
  fix es assume "list_all entry_ok es"
  then have "those (map parse_entry (map entry_json es)) = Some es"
    using those_id_all [of es "parse_entry \<circ> entry_json"] by (simp add: parse_entry_json list_all_iff)
  then show "inbox_value (JArr (map entry_json es)) = Some es"
    by (simp add: inbox_value_def parse_inbox_def)
qed (rule inbox_value_ok)

lemma read_inbox_eq:
  "read_inbox m = (case map_of m ''goalTurnInbox'' of None \<Rightarrow> Inr []
     | Some _ \<Rightarrow> (case meta_read inbox_value ''goalTurnInbox'' m of Some es \<Rightarrow> Inr es | None \<Rightarrow> Inl GoalInboxInvalid))"
  by (auto simp: read_inbox_def meta_read_def inbox_value_def parse_inbox_def split: option.splits json.splits)

lemma read_write_inbox: "list_all entry_ok es \<Longrightarrow> read_inbox (write_inbox es m) = Inr es"
  using inbox_store.read_write [of es m] by (simp add: read_inbox_eq write_inbox_def meta_write_def map_of_obj_put)

lemma read_inbox_ok: "read_inbox m = Inr es \<Longrightarrow> list_all entry_ok es"
  using inbox_store.read_valid [of m] by (auto simp: read_inbox_eq split: option.splits)

lemma read_inbox_other [simp]: "k \<noteq> ''goalTurnInbox'' \<Longrightarrow> read_inbox (meta_write k v m) = read_inbox m"
  by (simp add: read_inbox_def meta_write_def map_of_obj_put)

lemma read_inbox_delete [simp]: "k \<noteq> ''goalTurnInbox'' \<Longrightarrow> read_inbox (meta_delete k m) = read_inbox m"
  by (simp add: read_inbox_def map_of_delete)

section \<open>What each operation does to the entries\<close>

lemma map_of_filter_keys: "(\<And>k kv. f k = Some kv \<Longrightarrow> fst kv = k) \<Longrightarrow>
    map_of (List.map_filter f ks) k = (if k \<in> set ks then map_option snd (f k) else None)"
  by (induction ks) (auto simp: List.map_filter_simps split: option.splits)

lemma keep_metadata_key: "keep_metadata md k = Some kv \<Longrightarrow> fst kv = k"
  by (auto simp: keep_metadata_def split: option.splits if_splits)

lemma keep_metadata_ok: "keep_metadata md k = Some kv \<Longrightarrow> json_ok (snd kv)"
  by (auto simp: keep_metadata_def split: option.splits if_splits intro: to_json_value_ok)

lemma sanitize_json_ok:
  assumes "sanitize_goal_inbox_metadata channel md = Inr out"
  shows "json_ok (JObj out)"
proof -
  let ?out = "List.map_filter (keep_metadata md) inbox_metadata_keys"
  have base: "json_ok (JObj ?out)"
    by (auto simp: json_ok_obj map_filter_def intro: keep_metadata_ok)
  have src: "json_ok (turn_source_json s)" for s by (simp add: turn_source_json_def json_ok_obj)
  show ?thesis
    using assms base src
    by (auto simp: sanitize_goal_inbox_metadata_def Let_def error_simps json_ok_put split: if_splits option.splits)
qed

lemma sanitize_request_id:
  assumes "sanitize_goal_inbox_metadata channel md = Inr out"
  shows "str_field (map_of out ''client_request_id'') = str_field (map_of md ''client_request_id'')"
proof -
  let ?out = "List.map_filter (keep_metadata md) inbox_metadata_keys"
  have "map_of ?out ''client_request_id'' = map_option snd (keep_metadata md ''client_request_id'')"
    by (subst map_of_filter_keys [OF keep_metadata_key]) (auto simp: inbox_metadata_keys_def)
  then have base: "str_field (map_of ?out ''client_request_id'') = str_field (map_of md ''client_request_id'')"
    by (cases "map_of md ''client_request_id''")
      (auto simp: keep_metadata_def str_field_def split: json.splits option.splits dest: to_json_value_id)
  show ?thesis
    using assms base
    by (auto simp: sanitize_goal_inbox_metadata_def Let_def error_simps map_of_obj_put split: if_splits option.splits)
qed

definition message_ok :: "inbound_message \<Rightarrow> bool" where
  "message_ok message \<longleftrightarrow> im_channel message \<noteq> [] \<and> im_chat message \<noteq> [] \<and> \<bar>im_timestamp message\<bar> \<le> max_date_ms
     \<and> map_of (im_metadata message) ''client_request_id'' \<noteq> Some (JStr [])"

lemma map_of_obj_merge_other:
  "k \<notin> set (map fst b) \<Longrightarrow> map_of (obj_merge a b) k = map_of a k"
  unfolding obj_merge_def
proof (induction b arbitrary: a)
  case (Cons kv b)
  then show ?case by (cases kv) (auto simp: map_of_obj_put)
qed simp

lemma message_metadata_request_id:
  "message_metadata message = Inr md \<Longrightarrow>
     str_field (map_of md ''client_request_id'') = str_field (map_of (im_metadata message) ''client_request_id'')"
  unfolding message_metadata_def
  by (drule sanitize_request_id) (subst (asm) map_of_obj_merge_other, auto split: option.splits if_splits)

lemma find_None_ids: "find (\<lambda>e. en_id e = i) es = None \<longleftrightarrow> i \<notin> set (map en_id es)"
  by (auto simp: find_None_iff)

lemma enqueueE:
  assumes "enqueue_user_message uuid message m = Inr (e, m')" and "message_ok message" and "uuid \<noteq> []"
  obtains (old) es where "read_inbox m = Inr es" "e \<in> set es" "m' = m"
  | (new) es where "read_inbox m = Inr es" "en_id e \<notin> set (map en_id es)" "length es < 20" "entry_ok e"
      "en_turn e = None" "m' = write_inbox (es @ [e]) m"
proof -
  from assms(1) obtain md where md: "message_metadata message = Inr md"
    and run: "enqueue_entry uuid md message m = Inr (e, m')"
    by (auto simp: enqueue_user_message_def error_simps)
  define i where "i = (case map_of md ''client_request_id'' of Some (JStr s) \<Rightarrow> s | _ \<Rightarrow> uuid)"
  have i: "i \<noteq> []"
    using message_metadata_request_id [OF md] assms(2,3)
    by (auto simp: i_def message_ok_def str_field_def split: option.splits json.splits)
  from run obtain es where es: "read_inbox m = Inr es"
    by (auto simp: enqueue_entry_def error_simps Let_def)
  show ?thesis
  proof (cases "find (\<lambda>e. en_id e = i) es")
    case None
    let ?e = "\<lparr>en_id = i, en_turn = None, en_channel = im_channel message, en_chat = im_chat message,
                en_sender = im_sender message, en_content = im_content message, en_media = im_media message,
                en_meta = md, en_received = to_iso_string (im_timestamp message)\<rparr>"
    have *: "e = ?e" "m' = write_inbox (es @ [?e]) m" "length es < 20"
      using run es None by (auto simp: enqueue_entry_def error_simps Let_def i_def [symmetric])
    have "entry_ok ?e"
      using assms(2) i sanitize_json_ok md by (auto simp: entry_ok_def message_ok_def message_metadata_def)
    with * es None show ?thesis by (intro new [of es]) (auto simp: find_None_iff)
  next
    case (Some x)
    then have "x \<in> set es" by (auto dest: find_SomeD)
    then show ?thesis using run es Some by (intro old [of es]) (auto simp: enqueue_entry_def i_def [symmetric])
  qed
qed

lemma entry_ok_turn [simp]: "entry_ok (e\<lparr>en_turn := t\<rparr>) = entry_ok e"
  by (simp add: entry_ok_def)

lemma list_all_update: "list_all P xs \<Longrightarrow> P y \<Longrightarrow> list_all P (xs[i := y])"
  using set_update_subset_insert [of xs i y] by (auto simp: list_all_iff)

section \<open>Every run of the inbox\<close>

definition inbox_ids :: "json_obj \<Rightarrow> string list" where
  "inbox_ids m = (case read_inbox m of Inr es \<Rightarrow> map en_id es | Inl _ \<Rightarrow> [])"

definition inbox_inv :: "json_obj \<Rightarrow> bool" where
  "inbox_inv m \<longleftrightarrow> (case read_inbox m of Inr es \<Rightarrow> distinct (map en_id es) | Inl _ \<Rightarrow> False)"

text \<open>
  Reordering keeps the entries when the ids it is given are different from one another and the
  waiting entries have different request ids.
\<close>

definition placed :: "(jsnum \<Rightarrow> string) \<Rightarrow> (string \<Rightarrow> inbox_entry option) \<Rightarrow> inbox_entry \<Rightarrow> bool" where
  "placed nt entries e \<longleftrightarrow> en_turn e = None \<and> entries (request_id nt e) \<noteq> None"

lemma place_entries_Cons:
  "place_entries nt entries q ids (e # es) = Inr es' \<Longrightarrow>
     (\<not> placed nt entries e \<longrightarrow> (\<exists>r. place_entries nt entries q ids es = Inr r \<and> es' = e # r))
     \<and> (placed nt entries e \<longrightarrow> (\<exists>i ids' sel r. ids = i # ids' \<and> entries i = Some sel
           \<and> place_entries nt entries q ids' es = Inr r
           \<and> es' = sel\<lparr>en_meta := (case q i of None \<Rightarrow> meta_delete ''queued_at'' (en_meta sel)
                    | Some q \<Rightarrow> obj_put (en_meta sel) (''queued_at'', JStr q))\<rparr> # r))"
  by (cases "placed nt entries e"; cases ids)
    (auto simp: placed_def error_simps split: option.splits if_splits)

lemma place_entries_ids:
  "place_entries nt entries q ids es = Inr es' \<Longrightarrow>
     length (filter (placed nt entries) es) \<le> length ids
     \<and> (\<forall>i \<in> set (take (length (filter (placed nt entries) es)) ids). entries i \<noteq> None)
     \<and> mset (map en_id es') = mset (map en_id (filter (\<lambda>e. \<not> placed nt entries e) es))
         + mset (map (\<lambda>i. en_id (the (entries i))) (take (length (filter (placed nt entries) es)) ids))"
proof (induction es arbitrary: ids es')
  case (Cons e es)
  note step = place_entries_Cons [OF Cons.prems]
  show ?case
  proof (cases "placed nt entries e")
    case False
    with step obtain r where "place_entries nt entries q ids es = Inr r" "es' = e # r" by blast
    with Cons.IH [of ids r] False show ?thesis by simp
  next
    case True
    with step obtain i ids' sel r where *: "ids = i # ids'" "entries i = Some sel"
      "place_entries nt entries q ids' es = Inr r"
      "es' = sel\<lparr>en_meta := (case q i of None \<Rightarrow> meta_delete ''queued_at'' (en_meta sel)
                    | Some q \<Rightarrow> obj_put (en_meta sel) (''queued_at'', JStr q))\<rparr> # r" by blast
    from Cons.IH [OF *(3)] True * show ?thesis by simp
  qed
qed simp

lemma place_entries_ok:
  "place_entries nt entries q ids es = Inr es' \<Longrightarrow> list_all entry_ok es \<Longrightarrow> (\<And>i e. entries i = Some e \<Longrightarrow> entry_ok e) \<Longrightarrow>
     list_all entry_ok es'"
proof (induction es arbitrary: ids es')
  case (Cons e es)
  note step = place_entries_Cons [OF Cons.prems(1)]
  show ?case
  proof (cases "placed nt entries e")
    case False
    with step obtain r where "place_entries nt entries q ids es = Inr r" "es' = e # r" by blast
    with Cons.IH [of ids r] Cons.prems(2,3) show ?thesis by simp
  next
    case True
    with step obtain i ids' sel r where *: "entries i = Some sel"
      "place_entries nt entries q ids' es = Inr r"
      "es' = sel\<lparr>en_meta := (case q i of None \<Rightarrow> meta_delete ''queued_at'' (en_meta sel)
                    | Some q \<Rightarrow> obj_put (en_meta sel) (''queued_at'', JStr q))\<rparr> # r" by blast
    have "entry_ok sel" using Cons.prems(3) *(1) by blast
    then have "entry_ok (hd es')"
      by (auto simp: *(3) entry_ok_def json_ok_put split: option.split) (auto simp: json_ok_obj meta_delete_def)
    moreover have "list_all entry_ok r" using Cons.IH [OF *(2)] Cons.prems(2,3) by simp
    ultimately show ?thesis by (simp add: *(3))
  qed
qed simp

lemma reorder_ids:
  assumes run: "reorder_inbox_entries nt ids q m = Inr (u, m')" and es: "read_inbox m = Inr es"
    and ids: "distinct ids" and req: "distinct (map (request_id nt) (filter (waiting_for nt ids) es))"
  obtains es' where "read_inbox m' = Inr es'" "mset (map en_id es') = mset (map en_id es)"
proof -
  let ?ws = "filter (waiting_for nt ids) es"
  let ?entries = "map_of (rev (map (\<lambda>e. (request_id nt e, e)) ?ws))"
  let ?P = "placed nt ?entries"
  from run es obtain es' where place: "place_entries nt ?entries q ids es = Inr es'" and m': "m' = write_inbox es' m"
    by (auto simp: reorder_inbox_entries_def error_simps Let_def)
  have dom: "?entries i \<noteq> None \<longleftrightarrow> i \<in> request_id nt ` set ?ws" for i
    by (force simp: map_of_eq_None_iff image_iff)
  have at: "?entries (request_id nt e) = Some e" if "e \<in> set ?ws" for e
    using that req by (intro map_of_is_SomeI) (auto simp: rev_map [symmetric] comp_def)
  have P: "?P e \<longleftrightarrow> waiting_for nt ids e" if "e \<in> set es" for e
    using that by (auto simp only: dom placed_def) (auto simp: waiting_for_def)
  have ws: "filter ?P es = ?ws" using P by (rule filter_cong [OF refl])
  have rest: "filter (\<lambda>e. \<not> ?P e) es = filter (\<lambda>e. \<not> waiting_for nt ids e) es" using P by (intro filter_cong) auto
  let ?ids = "take (length ?ws) ids"
  note place_ids = place_entries_ids [OF place, unfolded ws rest]
  have "set ?ids \<subseteq> request_id nt ` set ?ws" using place_ids dom by blast
  moreover have "card (set ?ids) = length ?ws" using ids place_ids by (simp add: distinct_card)
  moreover have "card (request_id nt ` set ?ws) = length ?ws" using distinct_card [OF req] by simp
  ultimately have "set ?ids = set (map (request_id nt) ?ws)" using card_subset_eq [of "request_id nt ` set ?ws" "set ?ids"] by simp
  then have "mset ?ids = mset (map (request_id nt) ?ws)"
    using ids req set_eq_iff_mset_eq_distinct [of ?ids "map (request_id nt) ?ws"] distinct_take by blast
  then have "mset (map (\<lambda>i. en_id (the (?entries i))) ?ids) = mset (map (\<lambda>i. en_id (the (?entries i))) (map (request_id nt) ?ws))"
    by (simp only: mset_map)
  also have "map (\<lambda>i. en_id (the (?entries i))) (map (request_id nt) ?ws) = map en_id ?ws"
    by (simp only: map_map comp_def at option.sel cong: map_cong)
  finally have "mset (map en_id es') = mset (map en_id (filter (\<lambda>e. \<not> waiting_for nt ids e) es)) + mset (map en_id ?ws)"
    using place_ids by simp
  also have "\<dots> = mset (map en_id es)"
    using multiset_partition [of "mset es" "waiting_for nt ids"]
    by (simp only: mset_map mset_filter flip: image_mset_union) (simp add: union_commute)
  finally have ids': "mset (map en_id es') = mset (map en_id es)" .
  have "list_all entry_ok es" using read_inbox_ok [OF es] .
  moreover have "entry_ok e" if "?entries i = Some e" for i e
    using map_of_SomeD [OF that] calculation by (auto simp: list_all_iff)
  ultimately have "list_all entry_ok es'" by (rule place_entries_ok [OF place])
  with m' ids' show ?thesis by (intro that [of es']) (auto simp: read_write_inbox)
qed

text \<open>
  A step of the inbox, with the id that entered or left it. The callbacks of the caller write other
  keys of the metadata; a request id that reorders is not used twice.
\<close>

datatype inbox_event = Entered string | Left string | Kept

definition keeps_inbox :: "(json_obj \<Rightarrow> json_obj) \<Rightarrow> bool" where
  "keeps_inbox f \<longleftrightarrow> (\<forall>m. read_inbox (f m) = read_inbox m)"

inductive inbox_step :: "json_obj \<Rightarrow> inbox_event \<Rightarrow> json_obj \<Rightarrow> bool" where
  enqueue: "enqueue_user_message uuid message m = Inr (e, m') \<Longrightarrow> message_ok message \<Longrightarrow> uuid \<noteq> [] \<Longrightarrow>
     inbox_step m (if en_id e \<in> set (inbox_ids m) then Kept else Entered (en_id e)) m'"
| reserve: "reserve_inbox_entry turn m = Inr (r, m') \<Longrightarrow> inbox_step m Kept m'"
| consume: "consume_inbox_entry i turn m = Inr (e, m') \<Longrightarrow> inbox_step m (Left i) m'"
| persist: "persist_inbox_entry_for_turn persist turn m = Inr (r, m') \<Longrightarrow>
     inbox_step m (case r of None \<Rightarrow> Kept | Some e \<Rightarrow> Left (en_id e)) m'"
| persist_turn: "persist_goal_user_turn persist turn route m = Inr ((r, g), m') \<Longrightarrow> keeps_inbox (persist None) \<Longrightarrow>
     inbox_step m (case r of None \<Rightarrow> Kept | Some e \<Rightarrow> Left (en_id e)) m'"
| reset: "reset_dispatching_inbox m = Inr (u, m') \<Longrightarrow> inbox_step m Kept m'"
| remove: "remove_unreserved_inbox_entry i m = Inr (r, m') \<Longrightarrow>
     inbox_step m (if r = Removed then Left i else Kept) m'"
| reorder: "reorder_inbox_entries nt ids q m = Inr (u, m') \<Longrightarrow> distinct ids \<Longrightarrow> read_inbox m = Inr es \<Longrightarrow>
     distinct (map (request_id nt) (filter (waiting_for nt ids) es)) \<Longrightarrow> inbox_step m Kept m'"
| transfer: "begin_queue_steer_transfer nt key i turn surface route m = Inr (r, m') \<Longrightarrow>
     inbox_step m (case r of Transferred e t \<Rightarrow> Left i | _ \<Rightarrow> Kept) m'"
| restore: "restore_goal_queue_steer_transfer nt i queued_at now m = Inr (r, m') \<Longrightarrow>
     (\<forall>e. r = Some e \<longrightarrow> entry_ok e) \<Longrightarrow>
     inbox_step m (if r = None \<or> i \<in> set (inbox_ids m) then Kept else Entered i) m'"
| consumed: "mark_queue_steer_transfer_consumed i turn now m = Inr (u, m') \<Longrightarrow> inbox_step m Kept m'"
| complete: "complete_queue_steer_transfer i m = Inr (u, m') \<Longrightarrow> inbox_step m Kept m'"
| other: "k \<noteq> ''goalTurnInbox'' \<Longrightarrow> inbox_step m Kept (meta_write k v m)"

fun event_ids :: "inbox_event \<Rightarrow> string multiset \<times> string multiset" where
  "event_ids (Entered i) = ({#i#}, {#})"
| "event_ids (Left i) = ({#}, {#i#})"
| "event_ids Kept = ({#}, {#})"

definition balanced :: "json_obj \<Rightarrow> inbox_event \<Rightarrow> json_obj \<Rightarrow> bool" where
  "balanced m ev m' \<longleftrightarrow> (\<exists>es es'. read_inbox m = Inr es \<and> read_inbox m' = Inr es' \<and>
     mset (map en_id es') + snd (event_ids ev) = mset (map en_id es) + fst (event_ids ev)
     \<and> (\<forall>i. ev = Entered i \<longrightarrow> i \<notin> set (map en_id es)))"

lemma balanced_same: "read_inbox m = Inr es \<Longrightarrow> read_inbox m' = Inr es' \<Longrightarrow> mset (map en_id es') = mset (map en_id es) \<Longrightarrow>
    balanced m Kept m'"
  by (simp add: balanced_def)

lemma balanced_left:
  assumes "read_inbox m = Inr es" "i < length es" "en_id (es ! i) = k" "read_inbox m' = Inr (remove_at i es)"
  shows "balanced m (Left k) m'"
proof -
  have "mset (map en_id es) = image_mset en_id (add_mset (es ! i) (mset (remove_at i es)))"
    using remove_at_mset [OF assms(2)] by simp
  then show ?thesis using assms by (simp add: balanced_def)
qed

lemma balanced_entered:
  assumes "read_inbox m = Inr es" "k \<notin> set (map en_id es)" "read_inbox m' = Inr es'" "mset es' = add_mset e (mset es)" "en_id e = k"
  shows "balanced m (Entered k) m'"
  using assms by (auto simp: balanced_def)

lemma removed_reads: "read_inbox m = Inr es \<Longrightarrow> read_inbox (write_inbox (remove_at i es) m'') = Inr (remove_at i es)"
  by (rule read_write_inbox) (metis remove_at_ok read_inbox_ok)

lemma write_transfers_inbox [simp]: "read_inbox (write_transfers ts m) = read_inbox m"
  by (simp add: write_transfers_def)

lemma restored_entry_id: "restored_entry i q now t = Some e \<Longrightarrow> en_id e = i"
  by (auto simp: restored_entry_def split: option.splits json.splits bind_splits)

lemma balanced_unread: "read_inbox m' = read_inbox m \<Longrightarrow> balanced m Kept m' \<or> read_inbox m = Inl GoalInboxInvalid"
  by (cases "read_inbox m") (auto simp: balanced_def, auto simp: read_inbox_eq split: option.splits)

lemma inbox_step_balanced: "inbox_step m ev m' \<Longrightarrow> balanced m ev m' \<or> read_inbox m = Inl GoalInboxInvalid"
proof (induction rule: inbox_step.induct)
  case (enqueue uuid message m e m')
  from enqueue show ?case
  proof (cases rule: enqueueE)
    case (old es)
    then have "en_id e \<in> set (inbox_ids m)" by (auto simp: inbox_ids_def)
    with old show ?thesis by (simp add: balanced_def)
  next
    case (new es)
    have "list_all entry_ok (es @ [e])" using read_inbox_ok [OF new(1)] new(4) by simp
    then have "read_inbox m' = Inr (es @ [e])" by (simp add: new(6) read_write_inbox)
    moreover have "en_id e \<notin> set (inbox_ids m)" using new by (simp add: inbox_ids_def)
    ultimately show ?thesis using new by (simp add: balanced_entered)
  qed
next
  case (reserve turn m r m')
  then obtain es where es: "read_inbox m = Inr es" by (auto simp: reserve_inbox_entry_def error_simps)
  show ?case
  proof (cases "index_of (\<lambda>e. en_turn e = None) es")
    case None
    with reserve es show ?thesis by (simp add: reserve_inbox_entry_def balanced_def)
  next
    case (Some i)
    let ?es = "es[i := (es ! i)\<lparr>en_turn := Some turn\<rparr>]"
    have i: "i < length es" using index_of_Some [OF Some] by simp
    have "list_all entry_ok ?es" using read_inbox_ok [OF es] i by (intro list_all_update) (simp_all add: list_all_length)
    moreover have "map en_id ?es = map en_id es" using i by (simp add: map_update list_update_same_conv)
    moreover have "m' = write_inbox ?es m" using reserve es Some by (auto simp: reserve_inbox_entry_def Let_def)
    ultimately show ?thesis using es by (metis balanced_same read_write_inbox)
  qed
next
  case (consume i turn m e m')
  then obtain es where es: "read_inbox m = Inr es" by (auto simp: consume_inbox_entry_def error_simps)
  with consume obtain k where k: "index_of (\<lambda>e. en_id e = i \<and> en_turn e = Some turn) es = Some k"
    "m' = write_inbox (remove_at k es) m"
    by (auto simp: consume_inbox_entry_def split: option.splits)
  with index_of_Some [OF k(1)] es show ?case by (auto intro!: balanced_left [of m es k] simp: removed_reads)
next
  case (persist persist turn m r m')
  then obtain es where es: "read_inbox m = Inr es" by (auto simp: persist_inbox_entry_for_turn_def error_simps)
  show ?case
  proof (cases "index_of (\<lambda>e. en_turn e = Some turn) es")
    case None
    with persist es show ?thesis by (simp add: persist_inbox_entry_for_turn_def balanced_def)
  next
    case (Some k)
    with index_of_Some [OF Some] persist es show ?thesis
      by (auto simp: persist_inbox_entry_for_turn_def removed_reads intro!: balanced_left [of m es k])
  qed
next
  case (persist_turn persist turn route m r g m')
  then obtain es where es: "read_inbox m = Inr es" by (auto simp: persist_goal_user_turn_def error_simps)
  show ?case
  proof (cases "index_of (\<lambda>e. en_turn e = Some turn) es")
    case None
    then have "r = None" "read_inbox m' = read_inbox (persist None m)"
      using persist_turn(1) es by (auto simp: persist_goal_user_turn_def Let_def split: option.splits if_splits)
    with persist_turn(2) es show ?thesis by (simp add: keeps_inbox_def balanced_def)
  next
    case (Some k)
    then have "r = Some (es ! k)" "read_inbox m' = Inr (remove_at k es)"
      using persist_turn(1) es removed_reads [OF es]
      by (auto simp: persist_goal_user_turn_def Let_def split: option.splits if_splits)
    with index_of_Some [OF Some] es show ?thesis by (auto intro!: balanced_left [of m es k])
  qed
next
  case (reset m u m')
  show ?case
  proof (cases "has_key m ''goalTurnInbox''")
    case False
    then have "read_inbox m = Inr []" by (simp add: has_key_map_of read_inbox_def parse_inbox_def)
    with False reset show ?thesis by (simp add: reset_dispatching_inbox_def balanced_def)
  next
    case True
    with reset obtain es where es: "read_inbox m = Inr es" by (auto simp: reset_dispatching_inbox_def error_simps)
    let ?es = "map (\<lambda>e. e\<lparr>en_turn := None\<rparr>) es"
    have "list_all entry_ok ?es" using read_inbox_ok [OF es] by (simp add: list_all_iff)
    moreover have "m' = write_inbox ?es m" using reset True es by (simp add: reset_dispatching_inbox_def)
    ultimately show ?thesis using es by (auto intro!: balanced_same [of m es _ ?es] simp: read_write_inbox comp_def)
  qed
next
  case (remove i m r m')
  then obtain es where es: "read_inbox m = Inr es" by (auto simp: remove_unreserved_inbox_entry_def error_simps)
  let ?P = "\<lambda>e. en_id e = i \<and> str_field (map_of (en_meta e) ''client_request_id'') \<noteq> None
            \<and> parse_turn_source (map_of (en_meta e) ''turn_source'') \<noteq> None"
  show ?case
  proof (cases "index_of ?P es")
    case None
    with remove es show ?thesis by (simp add: remove_unreserved_inbox_entry_def balanced_def)
  next
    case (Some k)
    note k = index_of_Some [OF Some]
    show ?thesis
    proof (cases "en_turn (es ! k)")
      case None
      with k Some remove es have "r = Removed" "m' = write_inbox (remove_at k es) m"
        by (simp_all add: remove_unreserved_inbox_entry_def)
      with k es show ?thesis by (auto intro!: balanced_left [of m es k] simp: removed_reads)
    next
      case (Some t)
      with k \<open>index_of ?P es = Some k\<close> remove es show ?thesis
        by (simp add: remove_unreserved_inbox_entry_def balanced_def)
    qed
  qed
next
  case (reorder nt ids q m u m' es)
  then obtain es' where "read_inbox m' = Inr es'" "mset (map en_id es') = mset (map en_id es)"
    using reorder_ids by blast
  with reorder(3) show ?case using balanced_same by blast
next
  case (transfer nt key i turn surface route m r m')
  then obtain es where es: "read_inbox m = Inr es" by (auto simp: begin_queue_steer_transfer_def Let_def error_simps)
  show ?case
  proof (cases "index_of (\<lambda>e. en_id e = i) es")
    case None
    with transfer es show ?thesis by (auto simp: begin_queue_steer_transfer_def balanced_def Let_def split: if_splits)
  next
    case (Some k)
    note k = index_of_Some [OF Some]
    show ?thesis
    proof (cases "en_turn (es ! k) = None \<and> steerable surface route (es ! k)")
      case False
      with Some transfer es show ?thesis by (auto simp: begin_queue_steer_transfer_def balanced_def Let_def split: if_splits)
    next
      case True
      with Some transfer es obtain e t where "r = Transferred e t" "read_inbox m' = Inr (remove_at k es)"
        by (auto simp: begin_queue_steer_transfer_def Let_def removed_reads [OF es])
      with k es show ?thesis by (auto intro!: balanced_left [of m es k])
    qed
  qed
next
  case (restore nt i queued_at now m r m')
  show ?case
  proof (cases "find (\<lambda>t. transfer_id t = Some i \<and> map_of t ''store'' = Some (JStr ''goal'')) (read_transfers m)")
    case None
    with restore show ?thesis by (auto simp: restore_goal_queue_steer_transfer_def balanced_def read_inbox_eq split: option.splits)
  next
    case (Some t)
    with restore obtain es where es: "read_inbox m = Inr es"
      by (auto simp: restore_goal_queue_steer_transfer_def error_simps)
    show ?thesis
    proof (cases "find (\<lambda>e. en_id e = i) es")
      case (Some e)
      then have "i \<in> set (inbox_ids m)" using es by (auto simp: inbox_ids_def dest!: find_SomeD)
      with Some restore es \<open>find _ (read_transfers m) = Some t\<close> show ?thesis
        by (simp add: restore_goal_queue_steer_transfer_def balanced_def)
    next
      case None
      with restore es \<open>find _ (read_transfers m) = Some t\<close> obtain e where e: "restored_entry i queued_at now t = Some e"
        "r = Some e" "m' = write_inbox (sort_cmp (cmp_queued nt) (es @ [e])) m"
        by (auto simp: restore_goal_queue_steer_transfer_def split: option.splits)
      have "list_all entry_ok (sort_cmp (cmp_queued nt) (es @ [e]))"
        using read_inbox_ok [OF es] restore(2) e(2) by (auto simp: list_all_iff)
      then have "read_inbox m' = Inr (sort_cmp (cmp_queued nt) (es @ [e]))" using e(3) by (simp add: read_write_inbox)
      moreover have "i \<notin> set (map en_id es)" using None by (simp add: find_None_ids)
      ultimately show ?thesis
        using es e(2) restored_entry_id [OF e(1)]
          balanced_entered [of m es i m' "sort_cmp (cmp_queued nt) (es @ [e])" e] by (simp add: inbox_ids_def)
    qed
  qed
next
  case (consumed i turn now m u m')
  then have "read_inbox m' = read_inbox m"
    by (auto simp: mark_queue_steer_transfer_consumed_def Let_def split: option.splits if_splits)
  then show ?case by (rule balanced_unread)
next
  case (complete i m u m')
  then have "read_inbox m' = read_inbox m"
    by (auto simp: complete_queue_steer_transfer_def Let_def split: if_splits)
  then show ?case by (rule balanced_unread)
next
  case (other k m v)
  then show ?case by (intro balanced_unread) simp
qed

inductive inbox_run :: "json_obj \<Rightarrow> inbox_event list \<Rightarrow> json_obj \<Rightarrow> bool" where
  start: "inbox_run m [] m"
| step: "inbox_run m evs m' \<Longrightarrow> inbox_step m' ev m'' \<Longrightarrow> inbox_run m (evs @ [ev]) m''"

definition entered :: "inbox_event list \<Rightarrow> string multiset" where
  "entered evs = sum_list (map (fst \<circ> event_ids) evs)"

definition departed :: "inbox_event list \<Rightarrow> string multiset" where
  "departed evs = sum_list (map (snd \<circ> event_ids) evs)"

lemma inbox_run_balanced:
  "inbox_run m evs m' \<Longrightarrow> map_of m ''goalTurnInbox'' = None \<Longrightarrow>
     \<exists>es. read_inbox m' = Inr es \<and> distinct (map en_id es) \<and> mset (map en_id es) + departed evs = entered evs"
proof (induction rule: inbox_run.induct)
  case (start m)
  then show ?case by (simp add: read_inbox_def parse_inbox_def entered_def departed_def)
next
  case (step m evs m' ev m'')
  then obtain es where es: "read_inbox m' = Inr es" "distinct (map en_id es)" "mset (map en_id es) + departed evs = entered evs"
    by blast
  with inbox_step_balanced [OF step(2)] obtain es' where es': "read_inbox m'' = Inr es'"
    "mset (map en_id es') + snd (event_ids ev) = mset (map en_id es) + fst (event_ids ev)"
    "\<And>i. ev = Entered i \<Longrightarrow> i \<notin> set (map en_id es)"
    by (auto simp: balanced_def)
  have "distinct (map en_id es')"
  proof (cases ev)
    case (Entered i)
    with es'(2) have "mset (map en_id es') = mset (i # map en_id es)" by simp
    then have "distinct (map en_id es') = distinct (i # map en_id es)" by (rule mset_eq_imp_distinct_iff)
    with es'(3) Entered es(2) show ?thesis by simp
  next
    case (Left i)
    with es'(2) have "mset (i # map en_id es') = mset (map en_id es)" by simp
    then have "distinct (i # map en_id es') = distinct (map en_id es)" by (rule mset_eq_imp_distinct_iff)
    with es(2) show ?thesis by simp
  next
    case Kept
    with es'(2) have "mset (map en_id es') = mset (map en_id es)" by simp
    with es(2) show ?thesis by (metis mset_eq_imp_distinct_iff)
  qed
  moreover have "mset (map en_id es') + departed (evs @ [ev]) = entered (evs @ [ev])"
  proof -
    have "mset (map en_id es') + departed (evs @ [ev]) = (mset (map en_id es') + snd (event_ids ev)) + departed evs"
      by (simp add: departed_def)
    also have "\<dots> = (mset (map en_id es) + departed evs) + fst (event_ids ev)" by (simp only: es'(2)) simp
    also have "\<dots> = entered (evs @ [ev])" by (simp only: es(3)) (simp add: entered_def)
    finally show ?thesis .
  qed
  ultimately show ?case using es'(1) by blast
qed


text \<open>
  the inbox is a queue. A turn reserves the oldest entry that no turn has reserved, and only that
  entry changes; a turn finds nothing exactly when all entries are reserved. What the turn then
  consumes is the entry it reserved; the others stay, in their order.
\<close>

theorem reserve_then_consume:
  assumes "reserve_inbox_entry turn m = Inr (r, m')" and "read_inbox m = Inr es" and "distinct (map en_id es)"
  shows "case r of
       None \<Rightarrow> m' = m \<and> list_all (\<lambda>e. en_turn e \<noteq> None) es
     | Some e \<Rightarrow> (\<exists>before x after. es = before @ x # after \<and> list_all (\<lambda>e. en_turn e \<noteq> None) before
          \<and> en_turn x = None \<and> e = x\<lparr>en_turn := Some turn\<rparr> \<and> read_inbox m' = Inr (before @ e # after)
          \<and> (\<exists>m''. consume_inbox_entry (en_id e) turn m' = Inr (e, m'') \<and> read_inbox m'' = Inr (before @ after)))"
proof (cases "index_of (\<lambda>e. en_turn e = None) es")
  case None
  with assms show ?thesis by (auto simp: reserve_inbox_entry_def index_of_None list_all_iff)
next
  case (Some i)
  let ?before = "take i es" and ?x = "es ! i" and ?after = "drop (Suc i) es"
  let ?e = "?x\<lparr>en_turn := Some turn\<rparr>"
  note split = index_of_split [OF Some]
  have i: "i < length es" using index_of_Some [OF Some] by simp
  have upd: "es[i := ?e] = ?before @ ?e # ?after" using i by (simp add: upd_conv_take_nth_drop)
  have r: "r = Some ?e" "m' = write_inbox (?before @ ?e # ?after) m"
    using assms(1,2) Some by (simp_all add: reserve_inbox_entry_def Let_def upd)
  have "list_all entry_ok es" by (rule read_inbox_ok [OF assms(2)])
  then have ok: "list_all entry_ok (?before @ ?x # ?after)" using split by metis
  then have read: "read_inbox m' = Inr (?before @ ?e # ?after)" unfolding r(2) by (intro read_write_inbox) simp
  have "distinct (map en_id (?before @ ?x # ?after))" using assms(3) split by metis
  then have "en_id ?e \<notin> set (map en_id ?before)" by simp
  then have "list_all (\<lambda>e. \<not> (en_id e = en_id ?e \<and> en_turn e = Some turn)) ?before"
    by (fastforce simp: list_all_iff image_iff)
  then have "index_of (\<lambda>e. en_id e = en_id ?e \<and> en_turn e = Some turn) (?before @ ?e # ?after) = Some (length ?before)"
    by (intro index_of_append) auto
  then have consume: "consume_inbox_entry (en_id ?e) turn m' = Inr (?e, write_inbox (?before @ ?after) m')"
    by (simp only: consume_inbox_entry_def read bindE_simps option.case remove_at_length nth_append_length)
  have rest: "read_inbox (write_inbox (?before @ ?after) m') = Inr (?before @ ?after)"
    using ok by (intro read_write_inbox) simp
  show ?thesis
    unfolding r(1) option.case
    by (rule exI [of _ ?before], rule exI [of _ ?x], rule exI [of _ ?after]) (use split read consume rest in auto)
qed

lemma transfer_item_of [simp]:
  "transfer_item (JObj (transfer_of nt key i turn surface source e)) = Some (transfer_of nt key i turn surface source e)"
  by (simp add: transfer_of_def str_field_def is_object_def)

lemma transfer_item_id: "transfer_item j = Some t \<Longrightarrow> transfer_item (JObj t) = Some t"
  by (cases j) (auto split: if_splits)

lemma read_write_transfers:
  "list_all (\<lambda>t. transfer_item (JObj t) = Some t) ts \<Longrightarrow> read_transfers (write_transfers ts m) = ts"
proof -
  have "List.map_filter transfer_item (map JObj ts) = ts" if "list_all (\<lambda>t. transfer_item (JObj t) = Some t) ts"
    using that by (induction ts) (simp_all add: List.map_filter_simps)
  then show "list_all (\<lambda>t. transfer_item (JObj t) = Some t) ts \<Longrightarrow> ?thesis"
    by (simp add: read_transfers_def parse_queue_steer_transfers_def write_transfers_def meta_write_def map_of_obj_put)
qed

lemma read_transfers_ok: "list_all (\<lambda>t. transfer_item (JObj t) = Some t) (read_transfers m)"
  by (auto simp: read_transfers_def parse_queue_steer_transfers_def list_all_iff map_filter_def transfer_item_id
      simp del: transfer_item.simps split: option.splits json.splits)

lemma find_append_None: "list_all (\<lambda>x. \<not> P x) xs \<Longrightarrow> find P (xs @ ys) = find P ys"
  by (induction xs) auto

lemma restored_transfer:
  "restored_entry i q now (transfer_of nt key i turn surface source e) =
     Some (e\<lparr>en_id := i, en_turn := None,
       en_meta := obj_put (obj_put (en_meta e) (''turn_source'', turn_source_json source)) (''queued_at'', JStr q),
       en_received := to_iso_string now\<rparr>)"
proof -
  have "media_field (Some (JArr (map JStr (en_media e)))) = Some (en_media e)" by (simp only: media_field_eq)
  then show ?thesis by (simp add: restored_entry_def transfer_of_def str_field_def)
qed

text \<open>
  a message that was handed to a running turn and was not taken comes back. A transfer takes the
  entry out of the inbox; restoring it puts the same message back (same id, sender, text and
  media, not reserved) among the entries that stayed.
\<close>

theorem transfer_then_restore:
  assumes "begin_queue_steer_transfer nt key i turn surface route m = Inr (Transferred e t, m1)"
    and "read_inbox m = Inr es" and "distinct (map en_id es)" and "\<bar>now\<bar> \<le> max_date_ms"
  shows "\<exists>rest e' m2 es2. mset es = add_mset e (mset rest) \<and> read_inbox m1 = Inr rest
     \<and> restore_goal_queue_steer_transfer nt i queued_at now m1 = Inr (Some e', m2)
     \<and> read_inbox m2 = Inr es2 \<and> mset es2 = add_mset e' (mset rest)
     \<and> en_id e' = i \<and> en_turn e' = None \<and> en_channel e' = en_channel e \<and> en_chat e' = en_chat e
     \<and> en_sender e' = en_sender e \<and> en_content e' = en_content e \<and> en_media e' = en_media e"
proof -
  obtain k where k: "index_of (\<lambda>e. en_id e = i) es = Some k"
    using assms(1,2) by (cases "index_of (\<lambda>e. en_id e = i) es") (auto simp: begin_queue_steer_transfer_def Let_def split: if_splits)
  note at = index_of_Some [OF k]
  let ?kept = "filter (\<lambda>t. transfer_id t \<noteq> Some i) (read_transfers m)"
  have "en_turn (es ! k) = None \<and> steerable surface route (es ! k)"
    using assms(1,2) k by (auto simp: begin_queue_steer_transfer_def Let_def split: if_splits)
  with assms(1,2) k obtain m0 where e: "e = es ! k" and t: "t = transfer_of nt key i turn surface webui_source e"
    and m1: "m1 = write_transfers (?kept @ [t]) (write_inbox (remove_at k es) m0)"
    by (auto simp: begin_queue_steer_transfer_def Let_def)
  let ?rest = "remove_at k es"
  have rest: "mset es = add_mset e (mset ?rest)" using remove_at_mset [of k es] at by (simp add: e)
  have read1: "read_inbox m1 = Inr ?rest" by (simp add: m1 removed_reads [OF assms(2)])
  have "list_all (\<lambda>t. transfer_item (JObj t) = Some t) (?kept @ [t])"
    using read_transfers_ok [of m] by (simp add: t list_all_iff del: transfer_item.simps)
  then have transfers: "read_transfers m1 = ?kept @ [t]" unfolding m1 by (rule read_write_transfers)
  have tid: "transfer_id t = Some i" "map_of t ''store'' = Some (JStr ''goal'')"
    by (simp_all add: t transfer_id_def transfer_of_def str_field_def)
  have found: "find (\<lambda>t. transfer_id t = Some i \<and> map_of t ''store'' = Some (JStr ''goal'')) (read_transfers m1) = Some t"
    unfolding transfers by (subst find_append_None) (auto simp: list_all_iff tid)
  have "distinct (en_id e # map en_id ?rest)"
    using mset_eq_imp_distinct_iff [of "map en_id es" "en_id e # map en_id ?rest"] rest assms(3) by simp
  then have absent: "find (\<lambda>e. en_id e = i) ?rest = None" using at by (simp add: find_None_ids e)
  let ?e' = "e\<lparr>en_id := i, en_turn := None,
       en_meta := obj_put (obj_put (en_meta e) (''turn_source'', turn_source_json webui_source)) (''queued_at'', JStr queued_at),
       en_received := to_iso_string now\<rparr>"
  let ?es2 = "sort_cmp (cmp_queued nt) (?rest @ [?e'])"
  have restored: "restored_entry i queued_at now t = Some ?e'" unfolding t by (rule restored_transfer)
  have step: "restore_goal_queue_steer_transfer nt i queued_at now m1 = Inr (Some ?e', write_inbox ?es2 m1)"
    by (simp add: restore_goal_queue_steer_transfer_def found read1 absent restored)
  have src: "json_ok (turn_source_json s)" for s by (simp add: turn_source_json_def json_ok_obj)
  have "list_all entry_ok es" by (rule read_inbox_ok [OF assms(2)])
  then have "entry_ok e" "list_all entry_ok ?rest" using at by (auto simp: e list_all_length remove_at_ok [unfolded list_all_length])
  moreover have "i \<noteq> []" using at \<open>entry_ok e\<close> by (simp add: e entry_ok_def)
  ultimately have "entry_ok ?e'" using assms(4) src by (simp add: entry_ok_def json_ok_put)
  then have "list_all entry_ok ?es2" using \<open>list_all entry_ok ?rest\<close> by (auto simp: list_all_iff)
  then have "read_inbox (write_inbox ?es2 m1) = Inr ?es2" by (rule read_write_inbox)
  with rest read1 step show ?thesis
    by (intro exI [of _ ?rest] exI [of _ ?e'] exI [of _ "write_inbox ?es2 m1"] exI [of _ ?es2]) simp
qed

end
