(* ===== verification/Session_Example.thy ===== *)
theory Session_Example
  imports Task_Plan Goal_Inbox
begin

text \<open>
  A session with a checklist, a Goal and one message in the inbox. The theorems of the session
  theories are applied to it, so that their hypotheses are seen to hold together.
\<close>

section \<open>A checklist\<close>

definition ex_uuid :: string where
  "ex_uuid = ''01234567-89ab-4cde-8f01-23456789abcd''"

definition ex_item :: "string \<Rightarrow> json" where
  "ex_item i = JObj [(''id'', JStr i), (''content'', JStr ''work'')]"

definition ex_items :: json where
  "ex_items = JArr [ex_item ''a'', ex_item ''b'', ex_item ''c'']"

definition ex_route :: route where
  "ex_route = \<lparr>rt_channel = ''websocket'', rt_chat_id = ''1''\<rparr>"

definition ex_plan :: task_plan where
  "ex_plan = \<lparr>tp_id = ex_uuid, tp_title = ''plan'', tp_status = PActive,
     tp_items = map (\<lambda>i. \<lparr>i_id = i, i_content = ''work'', i_status = IPending\<rparr>) [''a'', ''b'', ''c''],
     tp_created = to_iso_string 0, tp_updated = to_iso_string 0\<rparr>"

definition ex_planned :: json_obj where
  "ex_planned = meta_write ''taskPlanRoute'' (route_json ex_route) (meta_write ''taskPlanState'' (plan_json ex_plan) [])"

lemma ex_uuid_ok: "uuid_pattern ex_uuid"
  by code_simp

lemma ex_clock: "clock_ok 0" "clock_ok 5"
  by (simp_all add: clock_ok_def max_date_ms_def)

lemma ex_create: "create_plan 0 ex_uuid (Some (JStr ''plan'')) (Some ex_items) ex_route (Some []) = Inr (ex_plan, ex_planned)"
proof -
  have "normalize_text InvalidPlanTitle (Some (JStr ''plan'')) 300 = Inr ''plan''"
    "normalize_items (Some ex_items) = Inr (tp_items ex_plan)"
    "js_trim (rt_channel ex_route) \<noteq> []" "js_trim (rt_chat_id ex_route) \<noteq> []"
    by code_simp+
  moreover have "read_task_plan_state [] = None" by (simp add: read_task_plan_state_def meta_read_def)
  ultimately show ?thesis by (simp add: create_plan_def Let_def ex_planned_def) (simp add: ex_plan_def)
qed

theorem create_plan_spec_witness: "plan_ok ex_plan \<and> read_task_plan_state ex_planned = Some ex_plan"
  using create_plan_spec [OF ex_create ex_clock(1) ex_uuid_ok] by blast

lemma ex_plan_ok: "plan_ok ex_plan"
proof -
  have trims: "js_trim ''plan'' \<noteq> []" "js_trim ''work'' \<noteq> []" "js_trim ''a'' \<noteq> []" "js_trim ''b'' \<noteq> []" "js_trim ''c'' \<noteq> []"
    by code_simp+
  have "list_all item_ok (tp_items ex_plan)" "distinct (map i_id (tp_items ex_plan))" "length (tp_items ex_plan) = 3"
    using trims by (simp_all add: ex_plan_def item_ok_def)
  moreover have "tp_id ex_plan = ex_uuid" "tp_title ex_plan = ''plan''" "tp_created ex_plan = to_iso_string 0"
    "tp_updated ex_plan = to_iso_string 0" by (simp_all add: ex_plan_def)
  ultimately show ?thesis
    using trims(1) ex_uuid_ok by (simp add: plan_ok_def clock_ok_iso [OF ex_clock(1)])
qed

lemma ex_read_plan: "read_task_plan_state ex_planned = Some ex_plan"
  using plan_store.read_write [OF ex_plan_ok, of "[]"] by (simp add: ex_planned_def read_task_plan_state_def)

lemma ex_time: "timestamp_ok (tp_updated ex_plan)"
  by (simp add: timestamp_ok_def ex_plan_def clock_ok_iso [OF ex_clock(1)]) (simp add: max_date_ms_def)

lemma ex_update:
  "\<exists>p m. update_plan_item 5 (Some (JStr ''b'')) (Some (JStr ''in_progress'')) (Some ex_planned) = Inr (p, m)"
proof -
  have "normalize_item_id (Some (JStr ''b'')) = Inr ''b''" "status_field parse_item_status (Some (JStr ''in_progress'')) = Some IInProgress"
    by code_simp+
  moreover have "index_of (\<lambda>item. i_id item = ''b'') (tp_items ex_plan) = Some 1"
    "i_status (tp_items ex_plan ! 1) = IPending" "tp_status ex_plan = PActive"
    "\<not> list_ex (\<lambda>j. j \<noteq> 1 \<and> i_status (tp_items ex_plan ! j) = IInProgress) [0..<length (tp_items ex_plan)]"
    by (simp_all add: ex_plan_def upt_rec numeral_3_eq_3)
  ultimately show ?thesis by (simp add: update_plan_item_def ex_read_plan Let_def)
qed

theorem update_plan_item_spec_witness:
  "\<exists>p m. update_plan_item 5 (Some (JStr ''b'')) (Some (JStr ''in_progress'')) (Some ex_planned) = Inr (p, m)
     \<and> read_task_plan_state m = Some p \<and> tp_created p = tp_created ex_plan"
proof -
  obtain p m where run: "update_plan_item 5 (Some (JStr ''b'')) (Some (JStr ''in_progress'')) (Some ex_planned) = Inr (p, m)"
    using ex_update by blast
  with update_plan_item_spec [OF run ex_read_plan ex_clock(2) ex_time] show ?thesis by blast
qed

theorem reachable_plan_inv_witness:
  "case read_task_plan_state ex_planned of None \<Rightarrow> True
     | Some p \<Rightarrow> in_progress p \<le> 1 \<and> tp_status p = derived_plan_status (tp_items p) \<and> plan_ok p"
proof (rule reachable_plan_inv)
  show "plan_step\<^sup>*\<^sup>* [] ex_planned"
    using plan_step.create [OF ex_create ex_clock(1) ex_uuid_ok] by (rule r_into_rtranclp)
qed simp

definition ex_call :: "task_plan option \<times> string \<times> message list" where
  "ex_call = (Some ex_plan, ''say continue'', [])"

theorem corrections_bounded_witness:
  "corrections (continuation_run (\<lambda>_. True) [ex_call, ex_call, ex_call] \<lparr>cs_progress = None, cs_corrections = 0\<rparr>) \<le> 2"
  by (rule corrections_bounded [of "plan_progress ex_plan []"]) (simp add: same_progress_def ex_call_def)

section \<open>A Goal\<close>

definition ex_goal_state :: goal_state where
  "ex_goal_state = \<lparr>gs_id = ex_uuid, gs_objective = ''ship'', gs_status = GActive, gs_budget = Some 100, gs_used = 0,
     gs_time = 0, gs_created = to_iso_string 0, gs_updated = to_iso_string 0\<rparr>"

lemma ex_goal_ok: "goal_ok ex_goal_state"
proof -
  have "js_trim ''ship'' \<noteq> []" by code_simp
  moreover have "parse_iso (to_iso_string 0) = Some 0"
    using ex_clock(1) by (simp add: clock_ok_def)
  ultimately show ?thesis
    using ex_uuid_ok by (simp add: goal_ok_def ex_goal_state_def max_safe_integer_def)
qed

theorem goal_round_trip_witness: "read_goal_state (meta_write ''goalState'' (goal_json ex_goal_state) []) = Some ex_goal_state"
  using goal_round_trip [of ex_goal_state "[]"] ex_goal_ok by blast

section \<open>A message in the inbox\<close>

definition ex_message :: inbound_message where
  "ex_message = \<lparr>im_channel = ''websocket'', im_chat = ''1'', im_sender = ''user'', im_role = ''user'', im_content = ''hello'',
     im_media = [], im_metadata = [(''client_request_id'', JStr ''r1''), (''webui_request_digest'', JStr ''d''),
       (''webui_queue_surface'', JStr ''chat_composer'')],
     im_timestamp = 0, im_source = Some webui_source, im_internal = False\<rparr>"

definition ex_meta :: json_obj where
  "ex_meta = [(''client_request_id'', JStr ''r1''), (''turn_source'', turn_source_json webui_source),
     (''webui_request_digest'', JStr ''d''), (''webui_queue_surface'', JStr ''chat_composer''), (''computerUseMessageRole'', JStr ''user'')]"

definition ex_entry :: inbox_entry where
  "ex_entry = \<lparr>en_id = ''r1'', en_turn = None, en_channel = ''websocket'', en_chat = ''1'', en_sender = ''user'',
     en_content = ''hello'', en_media = [], en_meta = ex_meta, en_received = to_iso_string 0\<rparr>"

definition ex_inbox :: json_obj where
  "ex_inbox = write_inbox [ex_entry] []"

lemma ex_metadata: "message_metadata ex_message = Inr ex_meta"
  by code_simp

lemma ex_message_ok: "message_ok ex_message"
  by (simp add: message_ok_def ex_message_def max_date_ms_def)

lemma ex_enqueue: "enqueue_user_message ''u'' ex_message [] = Inr (ex_entry, ex_inbox)"
proof -
  have "read_inbox [] = Inr []" by (simp add: read_inbox_def parse_inbox_def)
  moreover have "map_of ex_meta ''client_request_id'' = Some (JStr ''r1'')" by (simp add: ex_meta_def)
  ultimately show ?thesis
    by (simp add: enqueue_user_message_def ex_metadata enqueue_entry_def Let_def ex_inbox_def ex_entry_def)
      (simp add: ex_message_def)
qed

lemma ex_entry_ok: "entry_ok ex_entry"
proof -
  have "json_ok (JObj ex_meta)" by code_simp
  moreover have "parse_iso (to_iso_string 0) = Some 0" using ex_clock(1) by (simp add: clock_ok_def)
  ultimately show ?thesis by (simp add: entry_ok_def ex_entry_def)
qed

lemma ex_read_inbox: "read_inbox ex_inbox = Inr [ex_entry]"
  unfolding ex_inbox_def by (rule read_write_inbox) (simp add: ex_entry_ok)


theorem reserve_then_consume_witness:
  "\<exists>m e m'. reserve_inbox_entry ''t'' ex_inbox = Inr (Some e, m) \<and> consume_inbox_entry ''r1'' ''t'' m = Inr (e, m')
     \<and> read_inbox m' = Inr []"
proof -
  have none: "en_turn ex_entry = None" "en_id ex_entry = ''r1''" by (simp_all add: ex_entry_def)
  obtain r m where run: "reserve_inbox_entry ''t'' ex_inbox = Inr (r, m)"
    by (simp add: reserve_inbox_entry_def ex_read_inbox none Let_def)
  from reserve_then_consume [OF run ex_read_inbox] none run show ?thesis
    by (cases r) (auto simp: Cons_eq_append_conv)
qed

theorem transfer_then_restore_witness:
  "\<exists>e t m e' m'. begin_queue_steer_transfer (\<lambda>_. []) ''k'' ''r1'' ''t'' ''chat_composer'' (''websocket'', ''1'') ex_inbox
       = Inr (Transferred e t, m)
     \<and> restore_goal_queue_steer_transfer (\<lambda>_. []) ''r1'' ''q'' 5 m = Inr (Some e', m') \<and> en_content e' = ''hello''"
proof -
  have "steerable ''chat_composer'' (''websocket'', ''1'') ex_entry" by code_simp
  moreover have fields: "en_turn ex_entry = None" "en_id ex_entry = ''r1''" "en_content ex_entry = ''hello''"
    by (simp_all add: ex_entry_def)
  ultimately obtain t m where run: "begin_queue_steer_transfer (\<lambda>_. []) ''k'' ''r1'' ''t'' ''chat_composer'' (''websocket'', ''1'') ex_inbox
       = Inr (Transferred ex_entry t, m)"
    by (simp add: begin_queue_steer_transfer_def ex_read_inbox Let_def)
  have "\<bar>5\<bar> \<le> max_date_ms" by (simp add: max_date_ms_def)
  from transfer_then_restore [OF run ex_read_inbox _ this, of "''q''"] run fields show ?thesis by fastforce
qed

end
