(* ===== verification/Goal_Runtime.thy ===== *)
theory Goal_Runtime
  imports Goal_Inbox
begin

text \<open>
  The runtime of the Goal of one session (\<open>goal-runtime.ts\<close>): its lifecycle (create, pause, resume,
  edit, budget, clear), the settlement of turns, leases and work reservations, the effects that are
  published after a save, idempotent control requests, and the deletion of the session.

  The maps of the class from session keys are the fields of one record, for one key. An operation
  maps a state to an error or a value and the next state (the state also changes when it throws:
  \<open>finally\<close>). The callback \<open>cancelActiveTasks\<close> is an argument, a function of the state: while it
  runs, the cancelled turn settles. Clock readings and the new id are arguments.
\<close>

section \<open>State\<close>

record goal_lease =
  le_goal :: string
  le_turn :: string
  le_settling :: bool

datatype work_kind = WorkInbox | WorkContinuation

record work_reservation =
  wr_turn :: string
  wr_kind :: work_kind

record settlement =
  st_goal :: "goal_state option"
  st_public :: agent_goal
  st_continue :: bool

datatype control_action = CtlPause | CtlResume | CtlEdit | CtlSetBudget | CtlClear

record control_request =
  cr_id :: string
  cr_goal :: string
  cr_action :: control_action
  cr_objective :: "json option"
  cr_budget :: "json option"

record control_result =
  co_ok :: bool
  co_warning :: bool
  co_error :: "goal_error option"

type_synonym control_summary = "string \<times> control_action \<times> string option \<times> int option option"

record control_record =
  ct_summary :: control_summary
  ct_result :: "control_result option"
  ct_completed :: "int option"

datatype callback = CancelTasks | ScheduleWork goal_state | InvalidateWork

type_synonym goal_effect = "goal_route \<times> agent_goal"

record goal_rt =
  rt_session :: "json_obj option"
  rt_bus :: bool
  rt_claims :: "(string \<times> string) list"
  rt_lease :: "goal_lease option"
  rt_work :: "work_reservation option"
  rt_control :: bool
  rt_deleting :: bool
  rt_settlements :: "(string \<times> string \<times> settlement) list"
  rt_controls :: "(string \<times> control_record) list"
  rt_generation :: nat
  rt_effects :: "(nat \<times> goal_effect) list"
  rt_published :: "goal_effect list"
  rt_calls :: "callback list"

text \<open>\<open>Map.set\<close> keeps the place of a key it has.\<close>

fun map_set :: "'k \<Rightarrow> 'v \<Rightarrow> ('k \<times> 'v) list \<Rightarrow> ('k \<times> 'v) list" where
  "map_set k v [] = [(k, v)]"
| "map_set k v (kv # kvs) = (if fst kv = k then (k, v) # kvs else kv # map_set k v kvs)"

definition map_delete :: "'k \<Rightarrow> ('k \<times> 'v) list \<Rightarrow> ('k \<times> 'v) list" where
  "map_delete k = filter (\<lambda>kv. fst kv \<noteq> k)"

type_synonym 'a rt_op = "goal_rt \<Rightarrow> (goal_error + 'a) \<times> goal_rt"

definition finally_op :: "'a rt_op \<Rightarrow> (goal_rt \<Rightarrow> goal_rt) \<Rightarrow> 'a rt_op" where
  "finally_op operation fin s = (case operation s of (r, s') \<Rightarrow> (r, fin s'))"

definition bind_op :: "'a rt_op \<Rightarrow> ('a \<Rightarrow> 'b rt_op) \<Rightarrow> 'b rt_op" where
  "bind_op operation f s = (case operation s of (Inl e, s') \<Rightarrow> (Inl e, s') | (Inr x, s') \<Rightarrow> f x s')"

definition call :: "callback \<Rightarrow> goal_rt \<Rightarrow> goal_rt" where
  "call c s = s\<lparr>rt_calls := rt_calls s @ [c]\<rparr>"

section \<open>Mutations and effects\<close>

record 'a mutation =
  mu_value :: 'a
  mu_metadata :: json_obj
  mu_commit :: "goal_rt \<Rightarrow> goal_rt"
  mu_effect :: "goal_effect option"

definition enqueue_effect :: "goal_effect \<Rightarrow> goal_rt \<Rightarrow> goal_rt" where
  "enqueue_effect e s = s\<lparr>rt_effects := rt_effects s @ [(rt_generation s, e)]\<rparr>"

text \<open>One effect of the queue runs: it is dropped when the session was cleared since.\<close>

definition run_effect :: "goal_rt \<Rightarrow> goal_rt" where
  "run_effect s =
     (case rt_effects s of
        [] \<Rightarrow> s
      | (generation, e) # rest \<Rightarrow>
          if rt_deleting s \<or> rt_generation s \<noteq> generation then s\<lparr>rt_effects := rest\<rparr>
          else s\<lparr>rt_effects := rest, rt_published := rt_published s @ [e]\<rparr>)"

definition flush_effects :: "goal_rt \<Rightarrow> goal_rt" where
  "flush_effects s = (run_effect ^^ length (rt_effects s)) s"

definition mutate :: "(goal_rt \<Rightarrow> json_obj \<Rightarrow> goal_error + 'a mutation) \<Rightarrow> 'a rt_op" where
  "mutate operation s =
     (if rt_deleting s then (Inl SessionDeletionInProgress, s)
      else case rt_session s of
        None \<Rightarrow> (Inl GoalNotFound, s)
      | Some metadata \<Rightarrow>
         (case operation s metadata of
            Inl e \<Rightarrow> (Inl e, s)
          | Inr mu \<Rightarrow>
             (let s1 = mu_commit mu (s\<lparr>rt_session := Some (mu_metadata mu)\<rparr>)
              in (Inr (mu_value mu), case mu_effect mu of None \<Rightarrow> s1 | Some e \<Rightarrow> enqueue_effect e s1))))"

definition goal_state_effect :: "goal_rt \<Rightarrow> goal_route option \<Rightarrow> agent_goal \<Rightarrow> goal_effect option" where
  "goal_state_effect s route state = (if rt_bus s then map_option (\<lambda>r. (r, state)) route else None)"

definition get_goal :: "goal_rt \<Rightarrow> goal_state option" where
  "get_goal s = Option.bind (rt_session s) read_goal_state"

definition get_public :: "goal_rt \<Rightarrow> agent_goal" where
  "get_public s = public_goal_state (get_goal s)"

definition get_route :: "goal_rt \<Rightarrow> goal_route option" where
  "get_route s = Option.bind (rt_session s) read_goal_route"

section \<open>Lifecycle guards\<close>

definition lease_settling :: "goal_rt \<Rightarrow> bool" where
  "lease_settling s \<longleftrightarrow> (case rt_lease s of Some l \<Rightarrow> le_settling l | None \<Rightarrow> False)"

definition assert_session_available :: "goal_rt \<Rightarrow> goal_error + unit" where
  "assert_session_available s = throw_if (rt_deleting s) SessionDeletionInProgress"

definition assert_lifecycle_available :: "goal_rt \<Rightarrow> goal_error + unit" where
  "assert_lifecycle_available s =
     bindE (assert_session_available s) (\<lambda>_. throw_if (rt_control s \<or> lease_settling s) GoalTurnSettling)"

definition begin_lifecycle_control :: "unit rt_op" where
  "begin_lifecycle_control s =
     (case assert_lifecycle_available s of
        Inl e \<Rightarrow> (Inl e, s)
      | Inr _ \<Rightarrow> (Inr (), s\<lparr>rt_control := True\<rparr>))"

definition end_lifecycle_control :: "goal_rt \<Rightarrow> goal_rt" where
  "end_lifecycle_control s = s\<lparr>rt_control := False\<rparr>"

definition set_settling :: "bool \<Rightarrow> goal_rt \<Rightarrow> goal_rt" where
  "set_settling b s = s\<lparr>rt_lease := map_option (\<lambda>l. l\<lparr>le_settling := b\<rparr>) (rt_lease s)\<rparr>"

definition begin_lifecycle_settlement :: "unit rt_op" where
  "begin_lifecycle_settlement = bind_op begin_lifecycle_control (\<lambda>_ s. (Inr (), set_settling True s))"

definition end_lifecycle_settlement :: "goal_rt \<Rightarrow> goal_rt" where
  "end_lifecycle_settlement s = set_settling False (end_lifecycle_control s)"

section \<open>Arguments\<close>

definition normalize_objective :: "json option \<Rightarrow> goal_error + string" where
  "normalize_objective value =
     (case value of
        Some (JStr s) \<Rightarrow>
          (let objective = js_trim s in
           if objective = [] \<or> length objective > 12000 then Inl InvalidObjective else Inr objective)
      | _ \<Rightarrow> Inl InvalidObjective)"

text \<open>\<open>value ?? null\<close>; the budget \<open>null\<close> (no limit) is \<open>Inr None\<close>, a missing one is refused.\<close>

definition or_null :: "json option \<Rightarrow> json option" where
  "or_null v = (case v of None \<Rightarrow> Some JNull | Some v \<Rightarrow> Some v)"

definition normalize_token_budget :: "json option \<Rightarrow> goal_error + int option" where
  "normalize_token_budget value =
     (case value of
        Some JNull \<Rightarrow> Inr None
      | _ \<Rightarrow> (case safe_integer value of
               None \<Rightarrow> Inl InvalidTokenBudget
             | Some i \<Rightarrow> if i \<le> 0 then Inl InvalidTokenBudget else Inr (Some i)))"

section \<open>What each operation writes\<close>

type_synonym goal_body = "json_obj \<Rightarrow> goal_error + goal_state \<times> json_obj"

definition write_goal :: "goal_state \<Rightarrow> json_obj \<Rightarrow> json_obj" where
  "write_goal g m = meta_write ''goalState'' (goal_json g) m"

definition current_goal :: "string \<Rightarrow> json_obj \<Rightarrow> goal_error + goal_state" where
  "current_goal goal_id m =
     (case read_goal_state m of
        None \<Rightarrow> Inl GoalNotFound
      | Some g \<Rightarrow> if gs_id g \<noteq> goal_id then Inl GoalIdMismatch else Inr g)"

definition create_body :: "string \<Rightarrow> int \<Rightarrow> string \<Rightarrow> int option \<Rightarrow> goal_route \<Rightarrow> goal_body" where
  "create_body uuid now objective budget route m =
     bindE (throw_if (case read_goal_state m of None \<Rightarrow> False | Some g \<Rightarrow> gs_status g \<noteq> GCompleted) GoalUnfinished) (\<lambda>_.
     let goal = \<lparr>gs_id = uuid, gs_objective = objective, gs_status = GActive, gs_budget = budget, gs_used = 0,
           gs_time = 0, gs_created = to_iso_string now, gs_updated = to_iso_string now\<rparr>
     in Inr (goal, meta_write ''goalRoute'' (goal_route_json route) (write_goal goal m)))"

definition touch :: "int \<Rightarrow> goal_state \<Rightarrow> goal_state" where
  "touch now g = g\<lparr>gs_updated := next_updated_at (gs_updated g) now\<rparr>"

definition update_body :: "int \<Rightarrow> string \<Rightarrow> goal_status \<Rightarrow> goal_body" where
  "update_body now goal_id status m =
     bindE (current_goal goal_id m) (\<lambda>goal.
     bindE (throw_if (gs_status goal \<noteq> GActive) InvalidTransition) (\<lambda>_.
     let updated = touch now (goal\<lparr>gs_status := status\<rparr>) in Inr (updated, write_goal updated m)))"

definition pause_body :: "int \<Rightarrow> string \<Rightarrow> goal_body" where
  "pause_body now goal_id m =
     bindE (current_goal goal_id m) (\<lambda>current.
     bindE (throw_if (gs_status current \<noteq> GActive) InvalidTransition) (\<lambda>_.
     let updated = touch now (current\<lparr>gs_status := GPaused\<rparr>) in Inr (updated, write_goal updated m)))"

definition resume_body :: "int \<Rightarrow> string \<Rightarrow> goal_body" where
  "resume_body now goal_id m =
     bindE (current_goal goal_id m) (\<lambda>current.
     bindE (throw_if (gs_status current = GBudgetLimited) BudgetExhausted) (\<lambda>_.
     bindE (throw_if (gs_status current \<notin> {GPaused, GBlocked, GUsageLimited}) InvalidTransition) (\<lambda>_.
     let updated = touch now (current\<lparr>gs_status := GActive\<rparr>) in Inr (updated, write_goal updated m))))"

definition edit_body :: "int \<Rightarrow> string \<Rightarrow> string \<Rightarrow> goal_body" where
  "edit_body now goal_id objective m =
     bindE (current_goal goal_id m) (\<lambda>current.
     bindE (throw_if (gs_status current = GActive \<or> gs_status current = GCompleted) InvalidTransition) (\<lambda>_.
     let updated = touch now (current\<lparr>gs_objective := objective\<rparr>) in Inr (updated, write_goal updated m)))"

definition exhausted :: "int option \<Rightarrow> int \<Rightarrow> bool" where
  "exhausted budget used \<longleftrightarrow> (case budget of None \<Rightarrow> False | Some b \<Rightarrow> b \<le> used)"

definition budget_status :: "int option \<Rightarrow> goal_state \<Rightarrow> goal_status" where
  "budget_status budget g =
     (if gs_status g = GBudgetLimited \<and> \<not> exhausted budget (gs_used g) then GPaused
      else if gs_status g = GActive \<and> exhausted budget (gs_used g) then GBudgetLimited
      else gs_status g)"

definition budget_body :: "int \<Rightarrow> string \<Rightarrow> int option \<Rightarrow> goal_body" where
  "budget_body now goal_id budget m =
     bindE (current_goal goal_id m) (\<lambda>current.
     bindE (throw_if (gs_status current = GCompleted) InvalidTransition) (\<lambda>_.
     let updated = touch now (current\<lparr>gs_status := budget_status budget current, gs_budget := budget\<rparr>)
     in Inr (updated, write_goal updated m)))"

definition clear_pause_body :: "int \<Rightarrow> string \<Rightarrow> goal_body" where
  "clear_pause_body now goal_id m =
     bindE (current_goal goal_id m) (\<lambda>goal.
     bindE (throw_if (gs_status goal \<noteq> GActive) GoalTurnSettling) (\<lambda>_.
     let updated = touch now (goal\<lparr>gs_status := GPaused\<rparr>) in Inr (updated, write_goal updated m)))"

definition is_clearable_paused_goal :: "goal_state \<Rightarrow> goal_state \<Rightarrow> bool" where
  "is_clearable_paused_goal current snapshot \<longleftrightarrow>
     gs_id current = gs_id snapshot \<and> gs_objective current = gs_objective snapshot \<and> gs_status current = GPaused
     \<and> gs_budget current = gs_budget snapshot \<and> gs_created current = gs_created snapshot
     \<and> gs_used current \<ge> gs_used snapshot \<and> gs_time current \<ge> gs_time snapshot
     \<and> (case (parse_iso (gs_updated current), parse_iso (gs_updated snapshot)) of
          (Some c, Some p) \<Rightarrow> c \<ge> p | _ \<Rightarrow> False)"

definition clear_body :: "string \<Rightarrow> goal_state option \<Rightarrow> json_obj \<Rightarrow> goal_error + json_obj" where
  "clear_body goal_id snapshot m =
     bindE (current_goal goal_id m) (\<lambda>goal.
     bindE (throw_if (case snapshot of None \<Rightarrow> False | Some p \<Rightarrow> \<not> is_clearable_paused_goal goal p) GoalTurnSettling) (\<lambda>_.
     Inr (meta_delete ''goalRoute'' (meta_delete ''goalState'' m))))"

section \<open>Settlement of a turn\<close>

record settle_input =
  si_turn :: string
  si_goal :: "string option"
  si_usage :: usage
  si_latency :: rat
  si_stop :: string
  si_error :: "string option"

definition settled_status :: "settle_input \<Rightarrow> goal_status \<Rightarrow> goal_status" where
  "settled_status input status =
     (if status = GActive \<and> si_stop input \<in> set [''error'', ''toolError'']
      then if si_error input = Some ''quota_exhausted'' then GUsageLimited else GBlocked
      else status)"

definition settle_goal :: "int \<Rightarrow> settle_input \<Rightarrow> goal_state \<Rightarrow> goal_state" where
  "settle_goal now input current =
     (let status = settled_status input (gs_status current);
          used = gs_used current + goal_turn_tokens (si_usage input);
          time = gs_time current + \<lceil>max 0 (si_latency input) / 1000\<rceil>;
          status = (if status = GActive \<and> exhausted (gs_budget current) used then GBudgetLimited else status)
      in touch now (current\<lparr>gs_status := status, gs_used := used, gs_time := time\<rparr>))"

fun drop_oldest :: "nat \<Rightarrow> 'a list \<Rightarrow> 'a list" where
  "drop_oldest limit [] = []"
| "drop_oldest limit (x # xs) = (if length (x # xs) > limit then drop_oldest limit xs else x # xs)"

definition no_settlement :: "goal_state option \<Rightarrow> settlement" where
  "no_settlement current = \<lparr>st_goal = None, st_public = public_goal_state current, st_continue = False\<rparr>"

definition plain :: "'a \<Rightarrow> json_obj \<Rightarrow> 'a mutation" where
  "plain v m = \<lparr>mu_value = v, mu_metadata = m, mu_commit = id, mu_effect = None\<rparr>"

definition settle_operation :: "int \<Rightarrow> settle_input \<Rightarrow> string \<Rightarrow> goal_rt \<Rightarrow> json_obj \<Rightarrow> goal_error + settlement mutation" where
  "settle_operation now input goal_id s m =
     (case map_of (rt_settlements s) (si_turn input) of
        Some (cached_goal, result) \<Rightarrow> if cached_goal \<noteq> goal_id then Inl GoalIdMismatch else Inr (plain result m)
      | None \<Rightarrow>
         (case read_goal_state m of
            None \<Rightarrow> Inr (plain (no_settlement None) m)
          | Some current \<Rightarrow>
              if gs_id current \<noteq> goal_id then Inr (plain (no_settlement (Some current)) m)
              else
               (let updated = settle_goal now input current;
                    state = public_goal_state (Some updated);
                    result = \<lparr>st_goal = Some updated, st_public = state, st_continue = (gs_status updated = GActive)\<rparr>
                in Inr \<lparr>mu_value = result, mu_metadata = write_goal updated m,
                     mu_commit = (\<lambda>s. s\<lparr>rt_settlements :=
                        drop_oldest 64 (map_set (si_turn input) (goal_id, result) (rt_settlements s))\<rparr>),
                     mu_effect = goal_state_effect s (read_goal_route m) state\<rparr>)))"

definition settle_turn :: "int \<Rightarrow> settle_input \<Rightarrow> settlement rt_op" where
  "settle_turn now input s =
     (case si_goal input of
        None \<Rightarrow> (Inr (no_settlement None), s)
      | Some goal_id \<Rightarrow>
          if goal_id = [] then (Inr (no_settlement None), s)
          else mutate (settle_operation now input goal_id)
            (case rt_lease s of
               Some l \<Rightarrow> if le_turn l = si_turn input \<and> le_goal l = goal_id then set_settling True s else s
             | None \<Rightarrow> s))"

section \<open>Lifecycle operations\<close>

definition with_control :: "'a rt_op \<Rightarrow> 'a rt_op" where
  "with_control operation = bind_op begin_lifecycle_control (\<lambda>_. finally_op operation end_lifecycle_control)"

definition with_settlement :: "'a rt_op \<Rightarrow> 'a rt_op" where
  "with_settlement operation = bind_op begin_lifecycle_settlement (\<lambda>_. finally_op operation end_lifecycle_settlement)"

definition goal_operation ::
  "goal_body \<Rightarrow> (goal_rt \<Rightarrow> goal_rt) \<Rightarrow> goal_rt \<Rightarrow> json_obj \<Rightarrow> goal_error + goal_state mutation" where
  "goal_operation body commit s m =
     bindE (body m) (\<lambda>(updated, m'). Inr \<lparr>mu_value = updated, mu_metadata = m', mu_commit = commit,
        mu_effect = goal_state_effect s (read_goal_route m') (public_goal_state (Some updated))\<rparr>)"

definition create_goal :: "int \<Rightarrow> string \<Rightarrow> json option \<Rightarrow> json option \<Rightarrow> goal_route \<Rightarrow> string \<Rightarrow> goal_state rt_op" where
  "create_goal now uuid objective budget route turn s =
     (case bindE (normalize_objective objective) (\<lambda>objective.
           bindE (normalize_token_budget (or_null budget)) (\<lambda>budget.
           bindE (throw_if (js_trim (gr_channel route) = [] \<or> js_trim (gr_chat_id route) = []) GoalRouteUnavailable) (\<lambda>_.
           Inr (objective, budget)))) of
        Inl e \<Rightarrow> (Inl e, s)
      | Inr (objective, budget) \<Rightarrow>
          with_control (mutate (\<lambda>s m. bindE (create_body uuid now objective budget route m) (\<lambda>(goal, m').
            Inr \<lparr>mu_value = goal, mu_metadata = m',
              mu_commit = (\<lambda>s. s\<lparr>rt_claims := map_set turn (gs_id goal) (rt_claims s),
                 rt_lease := Some \<lparr>le_goal = gs_id goal, le_turn = turn, le_settling = False\<rparr>\<rparr>),
              mu_effect = goal_state_effect s (Some route) (public_goal_state (Some goal))\<rparr>))) s)"

definition settle_lease_of :: "string \<Rightarrow> goal_rt \<Rightarrow> goal_rt" where
  "settle_lease_of goal_id s =
     (if map_option le_goal (rt_lease s) = Some goal_id then set_settling True s else s)"

text \<open>The model reports \<open>completed\<close> or \<open>blocked\<close> (the type of \<open>status\<close>).\<close>

definition update_from_model :: "int \<Rightarrow> string \<Rightarrow> goal_status \<Rightarrow> goal_state rt_op" where
  "update_from_model now goal_id status =
     with_control (mutate (goal_operation (update_body now goal_id status) (settle_lease_of goal_id)))"

definition invalidate_continuation_reservation :: "goal_rt \<Rightarrow> goal_rt" where
  "invalidate_continuation_reservation s =
     (if map_option wr_kind (rt_work s) = Some WorkContinuation then s\<lparr>rt_work := None\<rparr> else s)"

text \<open>The callback: whether the cancellation succeeded, and the state it leaves.\<close>

type_synonym cancel_tasks = "goal_rt \<Rightarrow> bool \<times> goal_rt"

definition pause_and_cancel :: "cancel_tasks \<Rightarrow> int \<Rightarrow> string \<Rightarrow> (goal_state \<times> bool) rt_op" where
  "pause_and_cancel cancel now goal_id =
     with_settlement (bind_op (mutate (goal_operation (pause_body now goal_id) id)) (\<lambda>goal s.
       case cancel (call CancelTasks (invalidate_continuation_reservation (call InvalidateWork s))) of
         (ok, s') \<Rightarrow> (Inr (goal, \<not> ok), s')))"

definition resume_goal :: "int \<Rightarrow> string \<Rightarrow> goal_state rt_op" where
  "resume_goal now goal_id =
     with_control (bind_op (mutate (goal_operation (resume_body now goal_id) id)) (\<lambda>goal s.
       (Inr goal, call (ScheduleWork goal) s)))"

definition edit_goal :: "int \<Rightarrow> string \<Rightarrow> json option \<Rightarrow> goal_state rt_op" where
  "edit_goal now goal_id objective s =
     (case normalize_objective objective of
        Inl e \<Rightarrow> (Inl e, s)
      | Inr normalized \<Rightarrow> with_control (mutate (goal_operation (edit_body now goal_id normalized) id)) s)"

definition will_cancel :: "goal_rt \<Rightarrow> string \<Rightarrow> int option \<Rightarrow> bool" where
  "will_cancel s goal_id budget =
     (case get_goal s of
        None \<Rightarrow> False
      | Some before \<Rightarrow> gs_id before = goal_id \<and> gs_status before = GActive \<and> exhausted budget (gs_used before))"

text \<open>After the write: the Goal ran out of budget and its turn is cancelled, or it goes on.\<close>

definition after_budget :: "cancel_tasks \<Rightarrow> bool \<Rightarrow> goal_state \<Rightarrow> goal_state rt_op" where
  "after_budget cancel cancels goal s =
     (if gs_status goal = GBudgetLimited \<and> cancels then
        (case cancel (call CancelTasks (invalidate_continuation_reservation (call InvalidateWork s))) of
           (_, s') \<Rightarrow> (Inr goal, s'))
      else if gs_status goal = GActive then
        (Inr goal, call (ScheduleWork goal) (invalidate_continuation_reservation (call InvalidateWork s)))
      else (Inr goal, s))"

definition budget_control :: "cancel_tasks \<Rightarrow> int \<Rightarrow> string \<Rightarrow> int option \<Rightarrow> bool \<Rightarrow> goal_state rt_op" where
  "budget_control cancel now goal_id budget cancels =
     finally_op
       (bind_op (mutate (goal_operation (budget_body now goal_id budget) id)) (after_budget cancel cancels))
       (if cancels then end_lifecycle_settlement else end_lifecycle_control)"

definition set_budget :: "cancel_tasks \<Rightarrow> int \<Rightarrow> string \<Rightarrow> json option \<Rightarrow> goal_state rt_op" where
  "set_budget cancel now goal_id value s =
     (case normalize_token_budget value of
        Inl e \<Rightarrow> (Inl e, s)
      | Inr budget \<Rightarrow>
          bind_op begin_lifecycle_control (\<lambda>_ s1.
            let cancels = will_cancel s1 goal_id budget
            in budget_control cancel now goal_id budget cancels (if cancels then set_settling True s1 else s1)) s)"

definition clear_goal_runtime_work :: "goal_rt \<Rightarrow> goal_rt" where
  "clear_goal_runtime_work s =
     invalidate_continuation_reservation (s\<lparr>rt_claims := [], rt_lease := None, rt_settlements := []\<rparr>)"

definition clear_operation :: "string \<Rightarrow> goal_state option \<Rightarrow> goal_rt \<Rightarrow> json_obj \<Rightarrow> goal_error + unit mutation" where
  "clear_operation goal_id snapshot s m =
     bindE (clear_body goal_id snapshot m) (\<lambda>m'. Inr \<lparr>mu_value = (), mu_metadata = m', mu_commit = id,
        mu_effect = goal_state_effect s (read_goal_route m) (public_goal_state None)\<rparr>)"

text \<open>A running Goal is paused and its turn cancelled before it is cleared.\<close>

definition pause_to_clear :: "cancel_tasks \<Rightarrow> int \<Rightarrow> string \<Rightarrow> goal_state option rt_op" where
  "pause_to_clear cancel now goal_id =
     bind_op (mutate (goal_operation (clear_pause_body now goal_id) id)) (\<lambda>paused s.
       case cancel (call CancelTasks (call InvalidateWork s)) of
         (ok, s') \<Rightarrow> (if ok then Inr (Some paused) else Inl ClearCancelFailed, s'))"

definition finish_clear :: "string \<Rightarrow> goal_state option \<Rightarrow> unit rt_op" where
  "finish_clear goal_id snapshot =
     bind_op (mutate (clear_operation goal_id snapshot)) (\<lambda>_ s.
       (Inr (), clear_goal_runtime_work (call InvalidateWork s)))"

definition clear_goal :: "cancel_tasks \<Rightarrow> int \<Rightarrow> string \<Rightarrow> unit rt_op" where
  "clear_goal cancel now goal_id =
     with_settlement (\<lambda>s.
       case get_goal s of
         None \<Rightarrow> (Inl GoalNotFound, s)
       | Some current \<Rightarrow>
           if gs_id current \<noteq> goal_id then (Inl GoalIdMismatch, s)
           else if map_option le_goal (rt_lease s) = Some goal_id \<and> gs_status current = GActive
           then bind_op (pause_to_clear cancel now goal_id) (finish_clear goal_id) s
           else finish_clear goal_id None s)"

section \<open>Leases and reservations\<close>

definition register_lease :: "string \<Rightarrow> string \<Rightarrow> unit rt_op" where
  "register_lease goal_id turn s =
     (case bindE (assert_lifecycle_available s) (\<lambda>_.
           throw_if (case rt_lease s of Some l \<Rightarrow> le_turn l \<noteq> turn | None \<Rightarrow> False) GoalControlBusy) of
        Inl e \<Rightarrow> (Inl e, s)
      | Inr _ \<Rightarrow> (Inr (), s\<lparr>rt_lease := Some \<lparr>le_goal = goal_id, le_turn = turn, le_settling = False\<rparr>\<rparr>))"

definition goal_id_for_turn :: "goal_rt \<Rightarrow> string \<Rightarrow> string option" where
  "goal_id_for_turn s turn =
     (case map_of (rt_claims s) turn of
        Some g \<Rightarrow> Some g
      | None \<Rightarrow> (case rt_lease s of Some l \<Rightarrow> if le_turn l = turn then Some (le_goal l) else None | None \<Rightarrow> None))"

definition has_goal_lease :: "goal_rt \<Rightarrow> bool" where
  "has_goal_lease s \<longleftrightarrow> rt_lease s \<noteq> None"

definition reserve_work :: "string \<Rightarrow> work_kind \<Rightarrow> goal_rt \<Rightarrow> bool \<times> goal_rt" where
  "reserve_work turn kind s =
     (if rt_deleting s then (False, s)
      else if rt_work s \<noteq> None then (False, s)
      else (True, s\<lparr>rt_work := Some \<lparr>wr_turn = turn, wr_kind = kind\<rparr>\<rparr>))"

definition has_work_reservation :: "goal_rt \<Rightarrow> bool" where
  "has_work_reservation s \<longleftrightarrow> rt_work s \<noteq> None"

definition owns_work_reservation :: "goal_rt \<Rightarrow> string \<Rightarrow> bool" where
  "owns_work_reservation s turn \<longleftrightarrow> map_option wr_turn (rt_work s) = Some turn"

definition release_work :: "string \<Rightarrow> goal_rt \<Rightarrow> goal_rt" where
  "release_work turn s = (if map_option wr_turn (rt_work s) = Some turn then s\<lparr>rt_work := None\<rparr> else s)"

definition release_turn :: "string \<Rightarrow> goal_rt \<Rightarrow> goal_rt" where
  "release_turn turn s =
     (let s1 = s\<lparr>rt_claims := map_delete turn (rt_claims s)\<rparr>
      in if map_option le_turn (rt_lease s1) = Some turn then s1\<lparr>rt_lease := None\<rparr> else s1)"

section \<open>The inbox of the session\<close>

text \<open>The operations of the inbox run as mutations, without effects.\<close>

definition inbox_operation :: "'a inbox_op \<Rightarrow> 'a rt_op" where
  "inbox_operation f = mutate (\<lambda>s m. bindE (f m) (\<lambda>(v, m'). Inr (plain v m')))"

definition inbox_of :: "goal_rt \<Rightarrow> goal_error + inbox_entry list" where
  "inbox_of s = (case rt_session s of None \<Rightarrow> Inr [] | Some m \<Rightarrow> read_inbox m)"

definition queue_steer_transfers :: "goal_rt \<Rightarrow> json_obj list" where
  "queue_steer_transfers s = (case rt_session s of None \<Rightarrow> [] | Some m \<Rightarrow> read_transfers m)"

definition reset_dispatching :: "unit rt_op" where
  "reset_dispatching s =
     (case rt_session s of
        None \<Rightarrow> (Inr (), s)
      | Some m \<Rightarrow> if has_key m ''goalTurnInbox'' then inbox_operation reset_dispatching_inbox s else (Inr (), s))"

section \<open>Control requests\<close>

definition control_summary :: "control_request \<Rightarrow> goal_error + control_summary" where
  "control_summary r =
     bindE (if cr_action r = CtlEdit then bindE (normalize_objective (cr_objective r)) (\<lambda>x. Inr (Some x)) else Inr None) (\<lambda>objective.
     bindE (if cr_action r = CtlSetBudget then bindE (normalize_token_budget (cr_budget r)) (\<lambda>x. Inr (Some x)) else Inr None) (\<lambda>budget.
     Inr (cr_goal r, cr_action r, objective, budget)))"

definition control_ttl_ms :: int where
  "control_ttl_ms = 10 * 60 * 1000"

definition expired :: "int \<Rightarrow> control_record \<Rightarrow> bool" where
  "expired now c \<longleftrightarrow> (case ct_completed c of None \<Rightarrow> False | Some t \<Rightarrow> now - t \<ge> control_ttl_ms)"

definition cleanup_control_requests :: "int \<Rightarrow> goal_rt \<Rightarrow> goal_rt" where
  "cleanup_control_requests now s = s\<lparr>rt_controls := filter (\<lambda>kc. \<not> expired now (snd kc)) (rt_controls s)\<rparr>"

definition failed :: "goal_error \<Rightarrow> control_result" where
  "failed e = \<lparr>co_ok = False, co_warning = False, co_error = Some e\<rparr>"

definition control_outcome :: "('a \<Rightarrow> bool) \<Rightarrow> (goal_error + 'a) \<times> goal_rt \<Rightarrow> control_result \<times> goal_rt" where
  "control_outcome warn x =
     (case x of (r, s) \<Rightarrow>
       (case r of Inl e \<Rightarrow> failed e | Inr v \<Rightarrow> \<lparr>co_ok = True, co_warning = warn v, co_error = None\<rparr>, flush_effects s))"

definition perform_control :: "cancel_tasks \<Rightarrow> int \<Rightarrow> control_request \<Rightarrow> goal_rt \<Rightarrow> control_result \<times> goal_rt" where
  "perform_control cancel now r s =
     (case cr_action r of
        CtlPause \<Rightarrow> control_outcome snd (pause_and_cancel cancel now (cr_goal r) s)
      | CtlResume \<Rightarrow> control_outcome (\<lambda>_. False) (resume_goal now (cr_goal r) s)
      | CtlEdit \<Rightarrow> control_outcome (\<lambda>_. False)
          (edit_goal now (cr_goal r) (case cr_objective r of None \<Rightarrow> Some (JStr []) | Some JNull \<Rightarrow> Some (JStr []) | v \<Rightarrow> v) s)
      | CtlSetBudget \<Rightarrow> control_outcome (\<lambda>_. False) (set_budget cancel now (cr_goal r) (or_null (cr_budget r)) s)
      | CtlClear \<Rightarrow> control_outcome (\<lambda>_. False) (clear_goal cancel now (cr_goal r) s))"

datatype control_start = Answered control_result | InFlight | Started control_summary

definition start_control :: "int \<Rightarrow> control_request \<Rightarrow> goal_rt \<Rightarrow> control_start \<times> goal_rt" where
  "start_control now r s =
     (if js_trim (cr_id r) = [] then (Answered (failed InvalidTransition), s)
      else case control_summary r of
        Inl e \<Rightarrow> (Answered (failed e), s)
      | Inr summary \<Rightarrow>
         (let s1 = cleanup_control_requests now s in
          case map_of (rt_controls s1) (cr_id r) of
            Some c \<Rightarrow>
              if ct_summary c \<noteq> summary then (Answered (failed RequestIdConflict), s1)
              else (case ct_result c of Some result \<Rightarrow> (Answered result, s1) | None \<Rightarrow> (InFlight, s1))
          | None \<Rightarrow>
              if list_ex (\<lambda>kc. ct_result (snd kc) = None) (rt_controls s1) then (Answered (failed GoalControlBusy), s1)
              else (Started summary, s1\<lparr>rt_controls := map_set (cr_id r)
                      \<lparr>ct_summary = summary, ct_result = None, ct_completed = None\<rparr> (rt_controls s1)\<rparr>)))"

definition cmp_completed :: "string \<times> control_record \<Rightarrow> string \<times> control_record \<Rightarrow> int" where
  "cmp_completed a b = (case (ct_completed (snd a), ct_completed (snd b)) of (Some x, Some y) \<Rightarrow> x - y | _ \<Rightarrow> 0)"

definition evicted :: "(string \<times> control_record) list \<Rightarrow> string list" where
  "evicted records =
     (let completed = sort_cmp cmp_completed (filter (\<lambda>kc. ct_completed (snd kc) \<noteq> None) records)
      in map fst (take (length completed - 32) completed))"

definition finish_control :: "int \<Rightarrow> string \<Rightarrow> control_result \<Rightarrow> goal_rt \<Rightarrow> goal_rt" where
  "finish_control now i result s =
     (case map_of (rt_controls s) i of
        None \<Rightarrow> s
      | Some c \<Rightarrow>
         (let records = map_set i (c\<lparr>ct_result := Some result, ct_completed := Some now\<rparr>) (rt_controls s)
          in s\<lparr>rt_controls := filter (\<lambda>kc. fst kc \<notin> set (evicted records)) records\<rparr>))"

text \<open>A whole request: \<open>now\<close> when it arrives and runs, \<open>later\<close> when its result is recorded.\<close>

definition control :: "cancel_tasks \<Rightarrow> int \<Rightarrow> int \<Rightarrow> control_request \<Rightarrow> goal_rt \<Rightarrow> control_result option \<times> goal_rt" where
  "control cancel now later r s =
     (case start_control now r s of
        (Answered result, s1) \<Rightarrow> (Some result, s1)
      | (InFlight, s1) \<Rightarrow> (None, s1)
      | (Started summary, s1) \<Rightarrow>
         (case perform_control cancel now r s1 of
            (result, s2) \<Rightarrow> (Some result, finish_control later (cr_id r) result s2)))"

section \<open>Deletion of the session\<close>

definition clear_runtime_state :: "goal_rt \<Rightarrow> goal_rt" where
  "clear_runtime_state s = s\<lparr>rt_generation := Suc (rt_generation s), rt_claims := [], rt_lease := None, rt_work := None,
     rt_control := False, rt_controls := [], rt_settlements := []\<rparr>"

definition begin_session_deletion :: "unit rt_op" where
  "begin_session_deletion s =
     (if rt_deleting s then (Inl SessionDeletionInProgress, s)
      else (Inr (), clear_runtime_state (s\<lparr>rt_deleting := True\<rparr>)))"

definition end_session_deletion :: "goal_rt \<Rightarrow> goal_rt" where
  "end_session_deletion s = (clear_runtime_state s)\<lparr>rt_deleting := False\<rparr>"

definition invalidate_session :: "goal_rt \<Rightarrow> goal_rt" where
  "invalidate_session s = clear_runtime_state s"

section \<open>The life of a Goal\<close>

text \<open>
  The abstract lifecycle: what can happen to the metadata of a session, as far as its Goal is
  concerned. \<open>X\<close> holds the ids that the supply of new ids avoids.
\<close>

inductive goal_write :: "string set \<Rightarrow> json_obj \<Rightarrow> json_obj \<Rightarrow> bool" for X :: "string set" where
  create: "create_body uuid now objective budget route m = Inr (g, m') \<Longrightarrow> uuid \<notin> X \<Longrightarrow> goal_write X m m'"
| update: "update_body now i status m = Inr (g, m') \<Longrightarrow> status \<in> {GCompleted, GBlocked} \<Longrightarrow> goal_write X m m'"
| pause: "pause_body now i m = Inr (g, m') \<Longrightarrow> goal_write X m m'"
| resume: "resume_body now i m = Inr (g, m') \<Longrightarrow> goal_write X m m'"
| edit: "edit_body now i objective m = Inr (g, m') \<Longrightarrow> goal_write X m m'"
| budget: "budget_body now i b m = Inr (g, m') \<Longrightarrow> goal_write X m m'"
| clear_pause: "clear_pause_body now i m = Inr (g, m') \<Longrightarrow> goal_write X m m'"
| clear: "clear_body i snapshot m = Inr m' \<Longrightarrow> goal_write X m m'"
| settle: "read_goal_state m = Some g \<Longrightarrow> goal_write X m (write_goal (settle_goal now input g) m)"
| other: "read_goal_state m' = read_goal_state m \<Longrightarrow> goal_write X m m'"

inductive_cases goal_writeE: "goal_write X m m'"

text \<open>From which status a Goal reaches which, in one step.\<close>

fun goal_transition :: "goal_status \<Rightarrow> goal_status \<Rightarrow> bool" where
  "goal_transition GActive t \<longleftrightarrow> True"
| "goal_transition GPaused t \<longleftrightarrow> t = GPaused \<or> t = GActive"
| "goal_transition GBlocked t \<longleftrightarrow> t = GBlocked \<or> t = GActive"
| "goal_transition GUsageLimited t \<longleftrightarrow> t = GUsageLimited \<or> t = GActive"
| "goal_transition GBudgetLimited t \<longleftrightarrow> t = GBudgetLimited \<or> t = GPaused"
| "goal_transition GCompleted t \<longleftrightarrow> t = GCompleted"

definition evolves :: "goal_state \<Rightarrow> goal_state \<Rightarrow> bool" where
  "evolves g g' \<longleftrightarrow> gs_id g' = gs_id g \<and> gs_created g' = gs_created g \<and> gs_used g \<le> gs_used g' \<and> gs_time g \<le> gs_time g'
     \<and> (gs_status g = GCompleted \<longrightarrow> gs_status g' = GCompleted \<and> gs_objective g' = gs_objective g \<and> gs_budget g' = gs_budget g)"

lemma evolves_refl [simp]: "evolves g g"
  by (simp add: evolves_def)

lemma evolves_trans: "evolves g h \<Longrightarrow> evolves h k \<Longrightarrow> evolves g k"
  by (auto simp: evolves_def)

lemma parse_goal_json_inv: "parse_goal_state (goal_json g) = Some h \<Longrightarrow> h = g"
proof -
  assume *: "parse_goal_state (goal_json g) = Some h"
  have "gs_budget h = gs_budget g"
    if "budget_field (Some (case gs_budget g of None \<Rightarrow> JNull | Some b \<Rightarrow> int_json b)) = Some (gs_budget h)"
    using that by (cases "gs_budget g"; cases "gs_budget h") (simp_all add: budget_field_eq)
  with * show "h = g"
    by (auto simp: parse_goal_state_def goal_json_def text_field_eq iso_text_eq non_negative_integer_eq
        split: if_splits bind_splits)
qed

lemma read_write_goal: "read_goal_state (write_goal g m) = (if goal_ok g then Some g else None)"
proof (cases "read_goal_state (write_goal g m)")
  case None
  then show ?thesis using goal_store.read_write [of g m] by (auto simp: read_goal_state_def write_goal_def)
next
  case (Some h)
  then have "h = g" using parse_goal_json_inv
    by (auto simp: read_goal_state_def write_goal_def meta_read_def meta_write_def map_of_obj_put)
  with Some show ?thesis using goal_store.read_valid [of "write_goal g m" h] by (simp add: read_goal_state_def)
qed

lemma read_write_goal_eq [simp]: "read_goal_state (write_goal g m) = Some h \<longleftrightarrow> h = g \<and> goal_ok g"
  by (auto simp: read_write_goal)

lemma read_goal_route_write [simp]: "read_goal_state (meta_write ''goalRoute'' v m) = read_goal_state m"
  by (simp add: read_goal_state_def)

lemma current_goal_eq: "current_goal i m = Inr g \<longleftrightarrow> read_goal_state m = Some g \<and> gs_id g = i"
  by (auto simp: current_goal_def split: option.splits)

lemma touch_simps [simp]:
  "gs_id (touch now g) = gs_id g" "gs_objective (touch now g) = gs_objective g" "gs_status (touch now g) = gs_status g"
  "gs_budget (touch now g) = gs_budget g" "gs_used (touch now g) = gs_used g" "gs_time (touch now g) = gs_time g"
  "gs_created (touch now g) = gs_created g" "gs_updated (touch now g) = next_updated_at (gs_updated g) now"
  by (simp_all add: touch_def)

lemmas body_defs = update_body_def pause_body_def resume_body_def edit_body_def budget_body_def clear_pause_body_def

lemma create_body_read:
  "create_body uuid now objective budget route m = Inr (g, m') \<Longrightarrow>
     read_goal_state m' = (if goal_ok g then Some g else None) \<and> gs_id g = uuid \<and> gs_status g = GActive
     \<and> gs_used g = 0 \<and> gs_budget g = budget \<and> gs_objective g = objective
     \<and> (case read_goal_state m of None \<Rightarrow> True | Some h \<Rightarrow> gs_status h = GCompleted)"
  by (auto simp: create_body_def error_simps Let_def read_write_goal split: option.splits)

lemma settle_goal_simps [simp]:
  "gs_id (settle_goal now input g) = gs_id g" "gs_objective (settle_goal now input g) = gs_objective g"
  "gs_budget (settle_goal now input g) = gs_budget g" "gs_created (settle_goal now input g) = gs_created g"
  "gs_used (settle_goal now input g) = gs_used g + goal_turn_tokens (si_usage input)"
  "gs_time (settle_goal now input g) = gs_time g + \<lceil>max 0 (si_latency input) / 1000\<rceil>"
  "gs_updated (settle_goal now input g) = next_updated_at (gs_updated g) now"
  by (simp_all add: settle_goal_def Let_def touch_def)

lemma settle_time_nonneg: "0 \<le> \<lceil>max 0 (l :: rat) / 1000\<rceil>"
proof -
  have "0 \<le> max 0 l / 1000" by simp
  then show ?thesis by linarith
qed

definition fresh_goal :: "string set \<Rightarrow> goal_state \<Rightarrow> bool" where
  "fresh_goal X g \<longleftrightarrow> gs_id g \<notin> X \<and> gs_status g = GActive \<and> gs_used g = 0"

text \<open>What every write does to the Goal of the session.\<close>

lemma goal_write_step:
  assumes "goal_write X m m'" and "read_goal_state m = Some g"
  shows "case read_goal_state m' of None \<Rightarrow> True
     | Some g' \<Rightarrow> gs_id g' = gs_id g \<and> evolves g g' \<and> goal_transition (gs_status g) (gs_status g') \<or> gs_status g = GCompleted \<and> fresh_goal X g'"
  using assms
proof (induction rule: goal_write.induct)
  case (create uuid now objective budget route m g' m')
  then show ?case using create_body_read [OF create(1)] by (auto simp: fresh_goal_def split: option.splits)
next
  case (update now i status m g' m')
  then show ?case
    by (auto simp: body_defs error_simps Let_def current_goal_eq evolves_def read_write_goal split: if_splits)
next
  case (pause now i m g' m')
  then show ?case
    by (auto simp: body_defs error_simps Let_def current_goal_eq evolves_def read_write_goal split: if_splits)
next
  case (resume now i m g' m')
  then show ?case
    by (auto simp: body_defs error_simps Let_def current_goal_eq evolves_def read_write_goal split: if_splits)
next
  case (edit now i objective m g' m')
  then show ?case
    by (cases "gs_status g") (auto simp: body_defs error_simps Let_def current_goal_eq evolves_def read_write_goal split: if_splits)
next
  case (budget now i b m g' m')
  then show ?case
    by (cases "gs_status g")
      (auto simp: body_defs error_simps Let_def current_goal_eq evolves_def read_write_goal budget_status_def split: if_splits)
next
  case (clear_pause now i m g' m')
  then show ?case
    by (auto simp: body_defs error_simps Let_def current_goal_eq evolves_def read_write_goal split: if_splits)
next
  case (clear i snapshot m m')
  then show ?case by (auto simp: clear_body_def error_simps read_goal_state_def)
next
  case (settle m g' now input)
  then have [simp]: "g' = g" by simp
  have "goal_transition (gs_status g) (gs_status (settle_goal now input g))"
    by (cases "gs_status g") (auto simp: settle_goal_def settled_status_def Let_def)
  moreover have "gs_status (settle_goal now input g) = GCompleted" if "gs_status g = GCompleted"
    using that by (simp add: settle_goal_def settled_status_def Let_def)
  ultimately show ?case
    using goal_turn_tokens_nonneg [of "si_usage input"] settle_time_nonneg [of "si_latency input"]
    by (auto simp: evolves_def read_write_goal)
next
  case (other m' m)
  then show ?case by (cases "gs_status g") auto
qed

lemma goal_write_none:
  "goal_write X m m' \<Longrightarrow> read_goal_state m = None \<Longrightarrow> read_goal_state m' = Some g' \<Longrightarrow> fresh_goal X g'"
proof (induction rule: goal_write.induct)
  case (create uuid now objective budget route m g m')
  then show ?case using create_body_read [OF create(1)] by (auto simp: fresh_goal_def split: if_splits)
next
  case (clear i snapshot m m')
  then show ?case by (auto simp: clear_body_def error_simps current_goal_eq)
qed (auto simp: body_defs error_simps current_goal_eq)

lemma goal_writes_evolve:
  assumes "(goal_write X)\<^sup>*\<^sup>* m m'" and "read_goal_state m = Some g" and "gs_id g \<in> X"
  shows "case read_goal_state m' of None \<Rightarrow> True | Some g' \<Rightarrow> gs_id g' = gs_id g \<longrightarrow> evolves g g'"
  using assms(1)
proof (induction rule: rtranclp_induct)
  case base
  then show ?case using assms(2) by simp
next
  case (step m1 m2)
  show ?case
  proof (cases "read_goal_state m2")
    case (Some g2)
    have "evolves g g2" if same: "gs_id g2 = gs_id g"
    proof (cases "read_goal_state m1")
      case None
      from goal_write_none [OF step(2) None Some] same assms(3) show ?thesis by (simp add: fresh_goal_def)
    next
      case (Some g1)
      with goal_write_step [OF step(2) Some] \<open>read_goal_state m2 = Some g2\<close> same assms(3) have "gs_id g1 = gs_id g" "evolves g1 g2" by (auto simp: fresh_goal_def)
      with step.IH Some show ?thesis using evolves_trans by auto
    qed
    with Some show ?thesis by simp
  qed simp
qed

section \<open>The operations implement the lifecycle\<close>

definition writes :: "string set \<Rightarrow> goal_rt \<Rightarrow> goal_rt \<Rightarrow> bool" where
  "writes X s s' \<longleftrightarrow>
     (case (rt_session s, rt_session s') of
        (None, None) \<Rightarrow> True
      | (Some m, Some m') \<Rightarrow> (goal_write X)\<^sup>*\<^sup>* m m'
      | _ \<Rightarrow> False)"

text \<open>Operations, and callbacks, that change the session only by writes.\<close>

definition keeps :: "string set \<Rightarrow> (goal_rt \<Rightarrow> 'a \<times> goal_rt) \<Rightarrow> bool" where
  "keeps X f \<longleftrightarrow> (\<forall>s. writes X s (snd (f s)))"

lemma writes_same: "rt_session s' = rt_session s \<Longrightarrow> writes X s s'"
  by (simp add: writes_def split: option.splits)

lemma writes_trans: "writes X s t \<Longrightarrow> writes X t u \<Longrightarrow> writes X s u"
  by (auto simp: writes_def split: option.splits)

lemma writes_cong: "writes X s t \<Longrightarrow> rt_session s' = rt_session s \<Longrightarrow> rt_session t' = rt_session t \<Longrightarrow> writes X s' t'"
  by (simp add: writes_def)

lemma session_simps [simp]:
  "rt_session (call c s) = rt_session s" "rt_session (enqueue_effect e s) = rt_session s"
  "rt_session (end_lifecycle_control s) = rt_session s" "rt_session (set_settling b s) = rt_session s"
  "rt_session (end_lifecycle_settlement s) = rt_session s" "rt_session (settle_lease_of i s) = rt_session s"
  "rt_session (invalidate_continuation_reservation s) = rt_session s"
  "rt_session (clear_goal_runtime_work s) = rt_session s" "rt_session (clear_runtime_state s) = rt_session s"
  "rt_session (release_work t s) = rt_session s" "rt_session (release_turn t s) = rt_session s"
  "rt_session (end_session_deletion s) = rt_session s" "rt_session (invalidate_session s) = rt_session s"
  "rt_session (snd (begin_session_deletion s)) = rt_session s" "rt_session (snd (register_lease g t s)) = rt_session s"
  "rt_session (snd (reserve_work t k s)) = rt_session s" "rt_session (cleanup_control_requests now s) = rt_session s"
  "rt_session (finish_control now i r s) = rt_session s"
  by (simp_all add: call_def enqueue_effect_def end_lifecycle_control_def set_settling_def end_lifecycle_settlement_def
      settle_lease_of_def invalidate_continuation_reservation_def clear_goal_runtime_work_def clear_runtime_state_def
      release_work_def release_turn_def Let_def end_session_deletion_def invalidate_session_def begin_session_deletion_def
      register_lease_def reserve_work_def cleanup_control_requests_def finish_control_def split: sum.splits option.splits)

lemma session_run_effect [simp]: "rt_session (run_effect s) = rt_session s"
  by (simp add: run_effect_def split: list.splits prod.splits)

lemma session_flush [simp]: "rt_session (flush_effects s) = rt_session s"
proof -
  have "rt_session ((run_effect ^^ n) s) = rt_session s" for n by (induction n) simp_all
  then show ?thesis by (simp add: flush_effects_def)
qed

lemma session_begin [simp]:
  "rt_session (snd (begin_lifecycle_control s)) = rt_session s" "rt_session (snd (begin_lifecycle_settlement s)) = rt_session s"
  by (simp_all add: begin_lifecycle_control_def begin_lifecycle_settlement_def bind_op_def split: sum.splits)

text \<open>A composition changes the session as its parts do.\<close>

lemma keepsI: "(\<And>s. writes X s (snd (f s))) \<Longrightarrow> keeps X f"
  by (simp add: keeps_def)

lemma keepsD: "keeps X f \<Longrightarrow> writes X s (snd (f s))"
  by (simp add: keeps_def)

lemma keeps_same: "(\<And>s. rt_session (snd (f s)) = rt_session s) \<Longrightarrow> keeps X f"
  by (simp add: keeps_def writes_same)

lemma keeps_bind:
  assumes "keeps X f" and "\<And>x. keeps X (g x)"
  shows "keeps X (bind_op f g)"
proof (rule keepsI)
  fix s
  obtain r t where f: "f s = (r, t)" by fastforce
  with keepsD [OF assms(1), of s] have t: "writes X s t" by simp
  show "writes X s (snd (bind_op f g s))"
    using f t by (cases r) (auto simp: bind_op_def intro: writes_trans keepsD [OF assms(2)])
qed

lemma keeps_finally:
  assumes "keeps X f" and "\<And>t. rt_session (fin t) = rt_session t"
  shows "keeps X (finally_op f fin)"
proof (rule keepsI)
  fix s
  show "writes X s (snd (finally_op f fin s))"
    using assms keepsD [OF assms(1), of s] by (cases "f s") (simp add: finally_op_def writes_def)
qed

lemma keeps_control: "keeps X f \<Longrightarrow> keeps X (with_control f)"
  unfolding with_control_def by (intro keeps_bind keeps_finally; (assumption | rule keeps_same)?) simp_all

lemma keeps_settlement: "keeps X f \<Longrightarrow> keeps X (with_settlement f)"
  unfolding with_settlement_def by (intro keeps_bind keeps_finally; (assumption | rule keeps_same)?) simp_all

lemma keeps_mutate:
  assumes "\<And>s m mu. operation s m = Inr mu \<Longrightarrow>
      (goal_write X)\<^sup>*\<^sup>* m (mu_metadata mu) \<and> (\<forall>t. rt_session (mu_commit mu t) = rt_session t)"
  shows "keeps X (mutate operation)"
proof (rule keepsI)
  fix s
  show "writes X s (snd (mutate operation s))"
  proof (cases "rt_session s")
    case None
    then show ?thesis by (simp add: mutate_def writes_same)
  next
    case (Some m)
    show ?thesis
    proof (cases "operation s m")
      case (Inl e)
      with Some show ?thesis by (simp add: mutate_def writes_same)
    next
      case (Inr mu)
      with assms [OF Inr] Some show ?thesis
        by (simp add: mutate_def writes_def Let_def split: option.splits)
    qed
  qed
qed

lemma keeps_goal_operation:
  assumes "\<And>m g m'. body m = Inr (g, m') \<Longrightarrow> goal_write X m m'" and "\<And>t. rt_session (commit t) = rt_session t"
  shows "keeps X (mutate (goal_operation body commit))"
  using assms by (intro keeps_mutate) (auto simp: goal_operation_def error_simps split: prod.splits)

lemmas keeps_rules = keeps_control keeps_settlement keeps_bind keeps_goal_operation

lemma create_goal_keeps: "uuid \<notin> X \<Longrightarrow> keeps X (create_goal now uuid objective budget route turn)"
proof (rule keepsI)
  fix s
  assume "uuid \<notin> X"
  then have *: "keeps X (with_control (mutate (\<lambda>s m. bindE (create_body uuid now ob bu route m) (\<lambda>(goal, m').
            Inr \<lparr>mu_value = goal, mu_metadata = m',
              mu_commit = (\<lambda>s. s\<lparr>rt_claims := map_set turn (gs_id goal) (rt_claims s),
                 rt_lease := Some \<lparr>le_goal = gs_id goal, le_turn = turn, le_settling = False\<rparr>\<rparr>),
              mu_effect = goal_state_effect s (Some route) (public_goal_state (Some goal))\<rparr>))))" for ob bu
    by (intro keeps_control keeps_mutate) (auto simp: error_simps intro!: r_into_rtranclp intro: goal_write.create split: prod.splits)
  show "writes X s (snd (create_goal now uuid objective budget route turn s))"
    using keepsD [OF *] by (auto simp: create_goal_def writes_same split: sum.splits prod.splits)
qed

lemma update_from_model_keeps: "status \<in> {GCompleted, GBlocked} \<Longrightarrow> keeps X (update_from_model now i status)"
  unfolding update_from_model_def
  by (intro keeps_rules) (auto intro: goal_write.update simp: settle_lease_of_def)

lemma resume_goal_keeps: "keeps X (resume_goal now i)"
  unfolding resume_goal_def by (intro keeps_rules keeps_same) (auto intro: goal_write.resume)

lemma edit_goal_keeps: "keeps X (edit_goal now i objective)"
proof (rule keepsI)
  fix s
  have "keeps X (with_control (mutate (goal_operation (edit_body now i b) id)))" for b
    by (intro keeps_rules) (auto intro: goal_write.edit)
  then show "writes X s (snd (edit_goal now i objective s))"
    by (auto simp: edit_goal_def writes_same dest: keepsD split: sum.splits)
qed

lemma keeps_cancel:
  assumes "keeps X cancel" and "\<And>s. rt_session (f s) = rt_session s"
  shows "keeps X (\<lambda>s. case cancel (f s) of (ok, t) \<Rightarrow> (r ok, t))"
proof (rule keepsI)
  fix s
  show "writes X s (snd (case cancel (f s) of (ok, t) \<Rightarrow> (r ok, t)))"
    using keepsD [OF assms(1), of "f s"] assms(2) [of s] by (cases "cancel (f s)") (simp add: writes_def)
qed

lemma pause_and_cancel_keeps: "keeps X cancel \<Longrightarrow> keeps X (pause_and_cancel cancel now i)"
  unfolding pause_and_cancel_def
  by (intro keeps_rules keeps_cancel) (auto intro: goal_write.pause)

lemma after_budget_keeps: "keeps X cancel \<Longrightarrow> keeps X (after_budget cancel cancels goal)"
  unfolding after_budget_def
  by (cases "gs_status goal = GBudgetLimited \<and> cancels"; cases "gs_status goal = GActive")
    (auto intro: keeps_cancel keeps_same)

lemma set_budget_keeps:
  assumes "keeps X cancel"
  shows "keeps X (set_budget cancel now i value)"
proof (rule keepsI)
  fix s
  have control: "keeps X (budget_control cancel now i budget cancels)" for budget cancels
    unfolding budget_control_def
    by (intro keeps_finally keeps_bind keeps_goal_operation after_budget_keeps assms) (auto intro: goal_write.budget)
  have "keeps X (\<lambda>s1. let cancels = will_cancel s1 i budget
            in budget_control cancel now i budget cancels (if cancels then set_settling True s1 else s1))" for budget
  proof (rule keepsI)
    fix s1
    show "writes X s1 (snd (let cancels = will_cancel s1 i budget
            in budget_control cancel now i budget cancels (if cancels then set_settling True s1 else s1)))"
      by (rule writes_cong [OF keepsD [OF control]]) (simp_all add: Let_def)
  qed
  then have run: "keeps X (bind_op begin_lifecycle_control (\<lambda>_ s1. let cancels = will_cancel s1 i budget
            in budget_control cancel now i budget cancels (if cancels then set_settling True s1 else s1)))" for budget
    by (intro keeps_bind keeps_same [of begin_lifecycle_control]) simp_all
  show "writes X s (snd (set_budget cancel now i value s))"
    using keepsD [OF run] by (auto simp: set_budget_def writes_same split: sum.splits)
qed

lemma finish_clear_keeps: "keeps X (finish_clear i snapshot)"
  unfolding finish_clear_def
  by (intro keeps_bind keeps_mutate keeps_same)
    (auto simp: clear_operation_def error_simps intro!: r_into_rtranclp intro: goal_write.clear)

lemma pause_to_clear_keeps: "keeps X cancel \<Longrightarrow> keeps X (pause_to_clear cancel now i)"
  unfolding pause_to_clear_def
  by (intro keeps_rules keeps_cancel) (auto intro: goal_write.clear_pause)

lemma clear_goal_keeps:
  assumes "keeps X cancel"
  shows "keeps X (clear_goal cancel now i)"
  unfolding clear_goal_def
proof (intro keeps_settlement keepsI)
  fix s
  have "keeps X (bind_op (pause_to_clear cancel now i) (finish_clear i))"
    by (intro keeps_bind pause_to_clear_keeps finish_clear_keeps assms)
  then show "writes X s (snd (case get_goal s of
         None \<Rightarrow> (Inl GoalNotFound, s)
       | Some current \<Rightarrow>
           if gs_id current \<noteq> i then (Inl GoalIdMismatch, s)
           else if map_option le_goal (rt_lease s) = Some i \<and> gs_status current = GActive
           then bind_op (pause_to_clear cancel now i) (finish_clear i) s
           else finish_clear i None s))"
    by (auto simp: writes_same intro: keepsD finish_clear_keeps split: option.splits)
qed

lemma settle_turn_keeps: "keeps X (settle_turn now input)"
proof (rule keepsI)
  fix s
  have "keeps X (mutate (settle_operation now input i))" for i
    by (intro keeps_mutate)
      (auto simp: settle_operation_def plain_def Let_def intro!: r_into_rtranclp intro: goal_write.settle goal_write.other
        split: option.splits prod.splits if_splits)
  from keepsD [OF this] have "writes X s (snd (mutate (settle_operation now input i) (if c then set_settling True s else s)))" for i c
    by (rule writes_cong) simp_all
  from this [of _ True] this [of _ False] show "writes X s (snd (settle_turn now input s))"
    by (auto simp: settle_turn_def writes_same split: option.splits)
qed

text \<open>The operations of the inbox leave the Goal alone.\<close>

definition keeps_goal :: "'a inbox_op \<Rightarrow> bool" where
  "keeps_goal f \<longleftrightarrow> (\<forall>m v m'. f m = Inr (v, m') \<longrightarrow> read_goal_state m' = read_goal_state m)"

lemma goal_write_inbox [simp]: "read_goal_state (write_inbox es m) = read_goal_state m"
  by (simp add: write_inbox_def read_goal_state_def)

lemma goal_write_transfers [simp]: "read_goal_state (write_transfers ts m) = read_goal_state m"
  by (simp add: write_transfers_def read_goal_state_def)

lemma goal_delete [simp]: "k \<noteq> ''goalState'' \<Longrightarrow> read_goal_state (meta_delete k m) = read_goal_state m"
  by (simp add: read_goal_state_def)

lemma keeps_goal_split:
  "keeps_goal f \<longleftrightarrow> (\<forall>m. case f m of Inl e \<Rightarrow> True | Inr (v, m') \<Rightarrow> read_goal_state m' = read_goal_state m)"
  by (auto simp: keeps_goal_def split: sum.splits)

lemma steer_keeps_goal: "keeps_goal (begin_queue_steer_transfer nt key i turn surface target)"
  unfolding keeps_goal_split
  by (simp add: begin_queue_steer_transfer_def bindE_def Let_def split: sum.split option.split)

lemma inbox_operations_keep_goal:
  "keeps_goal (enqueue_user_message uuid message)" "keeps_goal (reserve_inbox_entry turn)"
  "keeps_goal (consume_inbox_entry i turn)" "keeps_goal (remove_unreserved_inbox_entry i)"
  "keeps_goal (reorder_inbox_entries nt ids q)" "keeps_goal reset_dispatching_inbox"
  "keeps_goal (restore_goal_queue_steer_transfer nt i queued_at now)"
  "keeps_goal (mark_queue_steer_transfer_consumed i turn now)" "keeps_goal (complete_queue_steer_transfer i)"
  by (auto simp: keeps_goal_def enqueue_user_message_def enqueue_entry_def reserve_inbox_entry_def consume_inbox_entry_def
      remove_unreserved_inbox_entry_def reorder_inbox_entries_def reset_dispatching_inbox_def
      restore_goal_queue_steer_transfer_def mark_queue_steer_transfer_consumed_def complete_queue_steer_transfer_def
      error_simps Let_def split: option.splits if_splits)

lemma persist_operations_keep_goal:
  assumes "\<And>e m. read_goal_state (persist e m) = read_goal_state m"
  shows "keeps_goal (persist_inbox_entry_for_turn persist turn)"
  using assms by (auto simp: keeps_goal_def persist_inbox_entry_for_turn_def error_simps split: option.splits)

lemma persist_turn_keeps_goal:
  assumes "\<And>e m. read_goal_state (persist e m) = read_goal_state m"
  shows "keeps_goal (persist_goal_user_turn persist turn target)"
  unfolding keeps_goal_split
  using assms by (simp add: persist_goal_user_turn_def bindE_def Let_def split: sum.split option.split)

lemma inbox_operation_keeps: "keeps_goal f \<Longrightarrow> keeps X (inbox_operation f)"
  unfolding inbox_operation_def
  by (intro keeps_mutate)
    (auto simp: error_simps plain_def keeps_goal_def intro!: r_into_rtranclp goal_write.other)

lemma reset_dispatching_keeps: "keeps X reset_dispatching"
proof (rule keepsI)
  fix s
  show "writes X s (snd (reset_dispatching s))"
    using keepsD [OF inbox_operation_keeps [OF inbox_operations_keep_goal(6)]]
    by (auto simp: reset_dispatching_def writes_same split: option.splits)
qed

lemma control_outcome_session: "rt_session (snd (control_outcome w x)) = rt_session (snd x)"
  by (simp add: control_outcome_def split: prod.splits)

lemma perform_control_keeps: "keeps X cancel \<Longrightarrow> keeps X (perform_control cancel now r)"
proof (rule keepsI)
  fix s
  assume c: "keeps X cancel"
  show "writes X s (snd (perform_control cancel now r s))"
    by (cases "cr_action r"; simp add: perform_control_def writes_def control_outcome_session)
      (use keepsD [OF pause_and_cancel_keeps [OF c]] keepsD [OF resume_goal_keeps] keepsD [OF edit_goal_keeps]
        keepsD [OF set_budget_keeps [OF c]] keepsD [OF clear_goal_keeps [OF c]] in \<open>auto simp: writes_def\<close>)
qed

lemma start_control_session [simp]: "rt_session (snd (start_control now r s)) = rt_session s"
  by (simp add: start_control_def Let_def split: sum.splits option.splits)

lemma control_keeps:
  assumes "keeps X cancel"
  shows "keeps X (control cancel now later r)"
proof (rule keepsI)
  fix s
  have "rt_session (snd (start_control now r s)) = rt_session s" by simp
  with keepsD [OF perform_control_keeps [OF assms], of "snd (start_control now r s)" now r]
  show "writes X s (snd (control cancel now later r s))"
    by (cases "start_control now r s"; cases "perform_control cancel now r (snd (start_control now r s))")
      (auto simp: control_def writes_def split: control_start.splits option.splits)
qed

end
