(* ===== verification/Goal_Life.thy ===== *)
theory Goal_Life
  imports Goal_Runtime
begin

text \<open>
  What the runtime of the Goal guarantees: every operation implements the lifecycle of the Goal,
  over any run; a turn is settled once; a spent budget stops the Goal; requests are answered once;
  the lifecycle lock is exclusive and given back; a deleted session stays silent.
\<close>

section \<open>Runs of the runtime\<close>

inductive rt_step :: "string set \<Rightarrow> cancel_tasks \<Rightarrow> goal_rt \<Rightarrow> goal_rt \<Rightarrow> bool"
  for X :: "string set" and cancel :: cancel_tasks where
  create: "uuid \<notin> X \<Longrightarrow> rt_step X cancel s (snd (create_goal now uuid objective budget route turn s))"
| update: "status \<in> {GCompleted, GBlocked} \<Longrightarrow> rt_step X cancel s (snd (update_from_model now i status s))"
| pause: "rt_step X cancel s (snd (pause_and_cancel cancel now i s))"
| resume: "rt_step X cancel s (snd (resume_goal now i s))"
| edit: "rt_step X cancel s (snd (edit_goal now i objective s))"
| budget: "rt_step X cancel s (snd (set_budget cancel now i value s))"
| clear: "rt_step X cancel s (snd (clear_goal cancel now i s))"
| settle: "rt_step X cancel s (snd (settle_turn now input s))"
| control: "rt_step X cancel s (snd (control cancel now later r s))"
| enqueue: "rt_step X cancel s (snd (inbox_operation (enqueue_user_message uuid message) s))"
| reserve_entry: "rt_step X cancel s (snd (inbox_operation (reserve_inbox_entry turn) s))"
| consume_entry: "rt_step X cancel s (snd (inbox_operation (consume_inbox_entry i turn) s))"
| remove_entry: "rt_step X cancel s (snd (inbox_operation (remove_unreserved_inbox_entry i) s))"
| reorder: "rt_step X cancel s (snd (inbox_operation (reorder_inbox_entries nt ids q) s))"
| steer: "rt_step X cancel s (snd (inbox_operation (begin_queue_steer_transfer nt key i turn surface target) s))"
| restore: "rt_step X cancel s (snd (inbox_operation (restore_goal_queue_steer_transfer nt i queued_at now) s))"
| consumed: "rt_step X cancel s (snd (inbox_operation (mark_queue_steer_transfer_consumed i turn now) s))"
| complete: "rt_step X cancel s (snd (inbox_operation (complete_queue_steer_transfer i) s))"
| persist: "(\<And>e m. read_goal_state (persist e m) = read_goal_state m) \<Longrightarrow>
     rt_step X cancel s (snd (inbox_operation (persist_inbox_entry_for_turn persist turn) s))"
| persist_turn: "(\<And>e m. read_goal_state (persist' e m) = read_goal_state m) \<Longrightarrow>
     rt_step X cancel s (snd (inbox_operation (persist_goal_user_turn persist' turn target) s))"
| reset: "rt_step X cancel s (snd (reset_dispatching s))"
| lease: "rt_step X cancel s (snd (register_lease i turn s))"
| reserve: "rt_step X cancel s (snd (reserve_work turn kind s))"
| release_work: "rt_step X cancel s (release_work turn s)"
| release_turn: "rt_step X cancel s (release_turn turn s)"
| effect: "rt_step X cancel s (run_effect s)"
| begin_delete: "rt_step X cancel s (snd (begin_session_deletion s))"
| end_delete: "rt_step X cancel s (end_session_deletion s)"
| invalidate: "rt_step X cancel s (invalidate_session s)"

inductive_cases rt_stepE: "rt_step X cancel s s'"

lemmas operation_keeps = create_goal_keeps update_from_model_keeps pause_and_cancel_keeps resume_goal_keeps
  edit_goal_keeps set_budget_keeps clear_goal_keeps settle_turn_keeps control_keeps
  reset_dispatching_keeps inbox_operation_keeps [OF inbox_operations_keep_goal(1)]
  inbox_operation_keeps [OF inbox_operations_keep_goal(2)] inbox_operation_keeps [OF inbox_operations_keep_goal(3)]
  inbox_operation_keeps [OF inbox_operations_keep_goal(4)] inbox_operation_keeps [OF inbox_operations_keep_goal(5)]
  inbox_operation_keeps [OF inbox_operations_keep_goal(7)] inbox_operation_keeps [OF inbox_operations_keep_goal(8)]
  inbox_operation_keeps [OF inbox_operations_keep_goal(9)] inbox_operation_keeps [OF steer_keeps_goal]
  inbox_operation_keeps [OF persist_operations_keep_goal] inbox_operation_keeps [OF persist_turn_keeps_goal]

lemma rt_step_writes: "rt_step X cancel s s' \<Longrightarrow> keeps X cancel \<Longrightarrow> writes X s s'"
  by (induction rule: rt_step.induct) (auto intro: keepsD operation_keeps writes_same)

lemma rt_run_writes: "(rt_step X cancel)\<^sup>*\<^sup>* s s' \<Longrightarrow> keeps X cancel \<Longrightarrow> writes X s s'"
  by (induction rule: rtranclp_induct) (auto intro: writes_trans rt_step_writes writes_same)

lemma writes_goal:
  "writes X s s' \<Longrightarrow> get_goal s = Some g \<Longrightarrow>
     \<exists>m m'. rt_session s = Some m \<and> rt_session s' = Some m' \<and> (goal_write X)\<^sup>*\<^sup>* m m' \<and> read_goal_state m = Some g"
  by (auto simp: writes_def get_goal_def split: option.splits bind_splits)

text \<open>Over any run of the runtime, as long as the Goal of the session is the same Goal (ids are
  never reused: the supply avoids \<open>X\<close>), its creation time stays, its used tokens and time only
  grow, and once it is completed its status, objective and budget never change again. The callback
  that cancels tasks may itself run any writes of the lifecycle.\<close>

theorem goal_history:
  assumes "(rt_step X cancel)\<^sup>*\<^sup>* s s'" and "keeps X cancel"
    and "get_goal s = Some g" and "gs_id g \<in> X" and "get_goal s' = Some g'" and "gs_id g' = gs_id g"
  shows "evolves g g'"
proof -
  from writes_goal [OF rt_run_writes [OF assms(1,2)] assms(3)] obtain m m'
    where "(goal_write X)\<^sup>*\<^sup>* m m'" "read_goal_state m = Some g" "rt_session s' = Some m'" by blast
  with goal_writes_evolve [of X m m' g] assms(4-) show ?thesis by (simp add: get_goal_def)
qed

text \<open>The abstract machine of one Goal slot, and its refinement.\<close>

inductive lifecycle :: "string set \<Rightarrow> goal_state option \<Rightarrow> goal_state option \<Rightarrow> bool" for X :: "string set" where
  stay: "lifecycle X g g"
| created: "fresh_goal X g \<Longrightarrow> (case old of None \<Rightarrow> True | Some h \<Rightarrow> gs_status h = GCompleted) \<Longrightarrow> lifecycle X old (Some g)"
| moved: "evolves g g' \<Longrightarrow> goal_transition (gs_status g) (gs_status g') \<Longrightarrow> lifecycle X (Some g) (Some g')"
| dropped: "lifecycle X (Some g) None"

lemma goal_write_lifecycle:
  assumes "goal_write X m m'"
  shows "lifecycle X (read_goal_state m) (read_goal_state m')"
proof (cases "read_goal_state m")
  case None
  with goal_write_none [OF assms] show ?thesis by (cases "read_goal_state m'") (auto intro: lifecycle.intros)
next
  case (Some g)
  with goal_write_step [OF assms] show ?thesis by (cases "read_goal_state m'") (auto intro: lifecycle.intros)
qed

lemma writes_lifecycle:
  assumes "writes X s s'"
  shows "(lifecycle X)\<^sup>*\<^sup>* (get_goal s) (get_goal s')"
proof (cases "rt_session s")
  case None
  with assms show ?thesis by (auto simp: writes_def get_goal_def split: option.splits)
next
  case (Some m)
  with assms obtain m' where "rt_session s' = Some m'" and *: "(goal_write X)\<^sup>*\<^sup>* m m'"
    by (auto simp: writes_def split: option.splits)
  from * have "(lifecycle X)\<^sup>*\<^sup>* (read_goal_state m) (read_goal_state m')"
    by (induction rule: rtranclp_induct) (auto intro: goal_write_lifecycle rtranclp.rtrancl_into_rtrancl)
  with Some \<open>rt_session s' = Some m'\<close> show ?thesis by (simp add: get_goal_def)
qed


section \<open>Settlement\<close>

lemma drop_oldest_snoc: "0 < k \<Longrightarrow> drop_oldest k (xs @ [x]) = drop_oldest (k - 1) xs @ [x]"
  by (induction xs) auto

lemma drop_oldest_set: "set (drop_oldest k xs) \<subseteq> set xs"
  by (induction xs) auto

lemma drop_oldest_length [simp]: "length (drop_oldest k xs) \<le> k"
  by (induction xs) auto

lemma map_set_new: "map_of kvs k = None \<Longrightarrow> map_set k v kvs = kvs @ [(k, v)]"
  by (induction kvs) (auto split: if_splits)

lemma settlement_cached:
  "map_of kvs k = None \<Longrightarrow> map_of (drop_oldest 64 (map_set k v kvs)) k = Some v"
proof -
  assume *: "map_of kvs k = None"
  then have "map_of (drop_oldest 63 kvs) k = None"
    using drop_oldest_set [of 63 kvs] by (fastforce simp: map_of_eq_None_iff)
  with * show ?thesis by (simp add: map_set_new drop_oldest_snoc map_add_def)
qed

lemma settle_simps [simp]:
  "rt_deleting (set_settling b s) = rt_deleting s" "rt_settlements (set_settling b s) = rt_settlements s"
  "rt_bus (set_settling b s) = rt_bus s"
  by (simp_all add: set_settling_def)

lemma settle_goal_budget: "gs_status (settle_goal now input g) = GActive \<Longrightarrow>
  \<not> exhausted (gs_budget g) (gs_used (settle_goal now input g))"
  by (auto simp: settle_goal_def Let_def touch_def split: if_splits)

text \<open>The state in which the settlement runs: the lease of the turn is closed for changes.\<close>

definition settle_entry :: "settle_input \<Rightarrow> string \<Rightarrow> goal_rt \<Rightarrow> goal_rt" where
  "settle_entry input goal_id s =
     (case rt_lease s of
        Some l \<Rightarrow> if le_turn l = si_turn input \<and> le_goal l = goal_id then set_settling True s else s
      | None \<Rightarrow> s)"

lemma settle_entry_simps [simp]:
  "rt_session (settle_entry input i s) = rt_session s" "rt_deleting (settle_entry input i s) = rt_deleting s"
  "rt_settlements (settle_entry input i s) = rt_settlements s" "rt_bus (settle_entry input i s) = rt_bus s"
  by (simp_all add: settle_entry_def split: option.splits)

lemma settle_turn_mutate:
  "si_goal input = Some i \<Longrightarrow> i \<noteq> [] \<Longrightarrow> settle_turn now input s = mutate (settle_operation now input i) (settle_entry input i s)"
  by (simp add: settle_turn_def settle_entry_def)

lemma enqueue_effect_simps [simp]:
  "rt_settlements (enqueue_effect e s) = rt_settlements s" "rt_deleting (enqueue_effect e s) = rt_deleting s"
  by (simp_all add: enqueue_effect_def)

text \<open>Settling a turn of the current Goal for the first time adds the tokens and the seconds
  (rounded up) of the turn, keeps the id, objective and budget, and stops the Goal when the turn
  failed or the budget is spent: it continues exactly when it is still active, and then there is
  budget left. The result is kept under the turn's id, with at most 64 others.\<close>

theorem settle_turn_spec:
  assumes "\<not> rt_deleting s" and "get_goal s = Some g" and "si_goal input = Some (gs_id g)" and "gs_id g \<noteq> []"
    and "map_of (rt_settlements s) (si_turn input) = None"
  shows "\<exists>g' r s'. settle_turn now input s = (Inr r, s') \<and> st_goal r = Some g'
     \<and> gs_id g' = gs_id g \<and> gs_objective g' = gs_objective g \<and> gs_budget g' = gs_budget g
     \<and> gs_used g' = gs_used g + goal_turn_tokens (si_usage input)
     \<and> gs_time g' = gs_time g + \<lceil>max 0 (si_latency input) / 1000\<rceil>
     \<and> (st_continue r \<longleftrightarrow> gs_status g' = GActive)
     \<and> (st_continue r \<longrightarrow> \<not> exhausted (gs_budget g') (gs_used g') \<and> si_stop input \<notin> {''error'', ''toolError''})
     \<and> get_goal s' = (if goal_ok g' then Some g' else None)
     \<and> map_of (rt_settlements s') (si_turn input) = Some (gs_id g, r) \<and> length (rt_settlements s') \<le> 64"
proof -
  obtain m where m: "rt_session s = Some m" "read_goal_state m = Some g"
    using assms(2) by (auto simp: get_goal_def split: bind_splits)
  let ?g = "settle_goal now input g"
  have stop: "gs_status ?g = GActive \<Longrightarrow> si_stop input \<notin> {''error'', ''toolError''}"
    by (auto simp: settle_goal_def Let_def touch_def settled_status_def split: if_splits)
  show ?thesis
    using assms m stop settle_goal_budget [of now input g] settlement_cached [OF assms(5)]
    by (auto simp: settle_turn_mutate mutate_def settle_operation_def Let_def get_goal_def read_write_goal
        split: option.splits)
qed

text \<open>A turn is settled once: settling it again, whatever usage and clock the retry brings,
  returns the first result and leaves the session as it is.\<close>

theorem settle_turn_once:
  assumes "settle_turn now input s = (Inr r, s1)" and "st_goal r = Some g"
    and "si_turn input' = si_turn input" and "si_goal input' = si_goal input"
  shows "fst (settle_turn now' input' s1) = Inr r \<and> rt_session (snd (settle_turn now' input' s1)) = rt_session s1"
proof -
  from assms(1,2) obtain i where i: "si_goal input = Some i" "i \<noteq> []"
    by (cases "si_goal input"; cases "si_goal input = Some []") (auto simp: settle_turn_def no_settlement_def)
  with assms(1) have run: "mutate (settle_operation now input i) (settle_entry input i s) = (Inr r, s1)"
    by (simp add: settle_turn_mutate)
  have first: "map_of (rt_settlements s1) (si_turn input) = Some (i, r) \<and> \<not> rt_deleting s1 \<and> rt_session s1 \<noteq> None"
  proof (cases "map_of (rt_settlements s) (si_turn input)")
    case None
    with run assms(2) settlement_cached [OF None] show ?thesis
      by (auto simp: mutate_def settle_operation_def Let_def plain_def no_settlement_def
          split: if_splits option.splits)
  next
    case (Some kr)
    with run show ?thesis
      by (cases kr) (auto simp: mutate_def settle_operation_def Let_def plain_def split: if_splits option.splits)
  qed
  then obtain m where "rt_session s1 = Some m" by blast
  with first i assms(3,4) show ?thesis
    by (simp add: settle_turn_mutate mutate_def settle_operation_def Let_def plain_def)
qed

section \<open>The lifecycle lock\<close>

lemma lock_simps [simp]:
  "rt_control (call c s) = rt_control s" "rt_control (enqueue_effect e s) = rt_control s"
  "rt_control (end_lifecycle_control s) = False" "rt_control (end_lifecycle_settlement s) = False"
  "rt_control (set_settling b s) = rt_control s" "rt_control (settle_lease_of i s) = rt_control s"
  "rt_control (invalidate_continuation_reservation s) = rt_control s"
  "rt_control (release_work t s) = rt_control s" "rt_control (release_turn t s) = rt_control s"
  "rt_control (clear_runtime_state s) = False" "rt_control (end_session_deletion s) = False"
  "rt_control (invalidate_session s) = False" "rt_control (snd (register_lease g t s)) = rt_control s"
  "rt_control (snd (reserve_work t k s)) = rt_control s" "rt_control (cleanup_control_requests now s) = rt_control s"
  "rt_control (finish_control now i r s) = rt_control s" "rt_control (run_effect s) = rt_control s"
  "rt_control (settle_entry input i s) = rt_control s" "rt_control (snd (start_control now req s)) = rt_control s"
  by (simp_all add: call_def enqueue_effect_def end_lifecycle_control_def set_settling_def end_lifecycle_settlement_def
      settle_lease_of_def invalidate_continuation_reservation_def clear_runtime_state_def release_work_def
      release_turn_def Let_def end_session_deletion_def invalidate_session_def register_lease_def reserve_work_def
      cleanup_control_requests_def finish_control_def run_effect_def settle_entry_def start_control_def
      split: sum.splits option.splits list.splits prod.splits)

lemma lock_flush [simp]: "rt_control (flush_effects s) = rt_control s"
proof -
  have "rt_control ((run_effect ^^ n) s) = rt_control s" for n by (induction n) simp_all
  then show ?thesis by (simp add: flush_effects_def)
qed

lemma lock_deletion: "\<not> rt_control s \<Longrightarrow> \<not> rt_control (snd (begin_session_deletion s))"
  by (simp add: begin_session_deletion_def)

lemma lock_mutate:
  assumes "\<And>m mu t. operation s m = Inr mu \<Longrightarrow> rt_control (mu_commit mu t) = rt_control t"
  shows "rt_control (snd (mutate operation s)) = rt_control s"
  using assms by (auto simp: mutate_def Let_def split: option.splits sum.splits)

lemma lock_inbox [simp]: "rt_control (snd (inbox_operation f s)) = rt_control s"
  unfolding inbox_operation_def by (rule lock_mutate) (auto simp: error_simps plain_def)

text \<open>A lifecycle operation gives the lock back, whether it returns or throws.\<close>

definition unlocks :: "(goal_rt \<Rightarrow> 'a \<times> goal_rt) \<Rightarrow> bool" where
  "unlocks f \<longleftrightarrow> (\<forall>s. \<not> rt_control s \<longrightarrow> \<not> rt_control (snd (f s)))"

lemma unlocksD: "unlocks f \<Longrightarrow> \<not> rt_control s \<Longrightarrow> \<not> rt_control (snd (f s))"
  by (simp add: unlocks_def)

lemma finally_control: "rt_control (snd (finally_op f end_lifecycle_control s)) = False"
  by (simp add: finally_op_def split: prod.splits)

lemma finally_settlement: "rt_control (snd (finally_op f end_lifecycle_settlement s)) = False"
  by (simp add: finally_op_def split: prod.splits)

lemma unlocks_control [simp]: "\<not> rt_control s \<Longrightarrow> \<not> rt_control (snd (with_control f s))"
  by (auto simp: with_control_def bind_op_def begin_lifecycle_control_def finally_control split: sum.splits)

lemma unlocks_settlement [simp]: "\<not> rt_control s \<Longrightarrow> \<not> rt_control (snd (with_settlement f s))"
  by (auto simp: with_settlement_def bind_op_def begin_lifecycle_settlement_def
      begin_lifecycle_control_def finally_settlement split: sum.splits)

lemma unlocks_create: "unlocks (create_goal now uuid objective budget route turn)"
  by (auto simp: unlocks_def create_goal_def split: sum.splits)

lemma unlocks_edit: "unlocks (edit_goal now i objective)"
  by (auto simp: unlocks_def edit_goal_def split: sum.splits)

lemma unlocks_budget: "unlocks (set_budget cancel now i value)"
  by (auto simp: unlocks_def set_budget_def bind_op_def begin_lifecycle_control_def budget_control_def Let_def
      finally_control finally_settlement split: sum.splits)

lemma unlocks_settle: "unlocks (settle_turn now input)"
proof -
  have "rt_control (snd (mutate (settle_operation now input i) t)) = rt_control t" for i t
    by (rule lock_mutate) (auto simp: settle_operation_def plain_def Let_def split: option.splits prod.splits if_splits)
  then show ?thesis
    by (auto simp: unlocks_def settle_turn_def set_settling_def split: option.splits if_splits)
qed

lemma unlocks_perform: "unlocks (perform_control cancel now r)"
proof -
  have [simp]: "rt_control (snd (control_outcome w x)) = rt_control (snd x)" for w and x :: "(goal_error + 'a) \<times> goal_rt"
    by (simp add: control_outcome_def split: prod.splits)
  show ?thesis
    using unlocks_edit unlocks_budget
    by (cases "cr_action r")
      (auto simp: unlocks_def perform_control_def pause_and_cancel_def resume_goal_def clear_goal_def)
qed

lemma unlocks_request: "unlocks (control cancel now later r)"
  unfolding unlocks_def
proof (intro allI impI)
  fix s :: goal_rt
  assume "\<not> rt_control s"
  then have "\<not> rt_control (snd (start_control now r s))" by simp
  with unlocksD [OF unlocks_perform this, of cancel now r]
  show "\<not> rt_control (snd (control cancel now later r s))"
    by (cases "start_control now r s"; cases "perform_control cancel now r (snd (start_control now r s))")
      (auto simp: control_def split: control_start.splits)
qed

lemma unlocks_reset: "unlocks reset_dispatching"
  by (auto simp: unlocks_def reset_dispatching_def split: option.splits)


text \<open>The lock is exclusive: while a lifecycle operation or a settlement is under way, every
  other lifecycle operation and every new lease is refused, and the state does not change.\<close>

theorem lifecycle_exclusive:
  assumes "rt_control s \<or> lease_settling s" and "\<not> rt_deleting s"
  shows "update_from_model now i status s = (Inl GoalTurnSettling, s) \<and> pause_and_cancel cancel now i s = (Inl GoalTurnSettling, s)
    \<and> resume_goal now i s = (Inl GoalTurnSettling, s) \<and> clear_goal cancel now i s = (Inl GoalTurnSettling, s)
    \<and> register_lease i turn s = (Inl GoalTurnSettling, s)
    \<and> (\<exists>e. create_goal now uuid objective budget route turn s = (Inl e, s))
    \<and> (\<exists>e. edit_goal now i objective s = (Inl e, s)) \<and> (\<exists>e. set_budget cancel now i value s = (Inl e, s))"
proof -
  have busy: "begin_lifecycle_control s = (Inl GoalTurnSettling, s)"
    using assms by (simp add: begin_lifecycle_control_def assert_lifecycle_available_def assert_session_available_def throw_if_def)
  then have [simp]: "with_control f s = (Inl GoalTurnSettling, s)" "with_settlement f s = (Inl GoalTurnSettling, s)"
    for f :: "'b rt_op"
    by (simp_all add: with_control_def with_settlement_def begin_lifecycle_settlement_def bind_op_def)
  have [simp]: "with_control f s = (Inl GoalTurnSettling, s)" "with_settlement g s = (Inl GoalTurnSettling, s)"
    "with_settlement h s = (Inl GoalTurnSettling, s)"
    for f :: "goal_state rt_op" and g :: "(goal_state \<times> bool) rt_op" and h :: "unit rt_op"
    using busy by (simp_all add: with_control_def with_settlement_def begin_lifecycle_settlement_def bind_op_def)
  have "register_lease i turn s = (Inl GoalTurnSettling, s)"
    using assms by (simp add: register_lease_def assert_lifecycle_available_def assert_session_available_def throw_if_def)
  then show ?thesis using busy
    by (auto simp: update_from_model_def pause_and_cancel_def resume_goal_def clear_goal_def create_goal_def
        edit_goal_def set_budget_def bind_op_def split: sum.splits)
qed

section \<open>Pause, budget, clear\<close>

definition lifecycle_free :: "goal_rt \<Rightarrow> bool" where
  "lifecycle_free s \<longleftrightarrow> \<not> rt_deleting s \<and> \<not> rt_control s \<and> \<not> lease_settling s"

lemma begin_control_free: "lifecycle_free s \<Longrightarrow> begin_lifecycle_control s = (Inr (), s\<lparr>rt_control := True\<rparr>)"
  by (simp add: lifecycle_free_def begin_lifecycle_control_def assert_lifecycle_available_def assert_session_available_def)

text \<open>The state in which the callback runs.\<close>

definition paused_state :: "int \<Rightarrow> string \<Rightarrow> goal_state \<Rightarrow> json_obj \<Rightarrow> goal_rt \<Rightarrow> goal_rt" where
  "paused_state now i g m s =
     (let g' = touch now (g\<lparr>gs_status := GPaused\<rparr>) in
      call CancelTasks (invalidate_continuation_reservation (call InvalidateWork
        (snd (mutate (goal_operation (pause_body now i) id) (set_settling True (s\<lparr>rt_control := True\<rparr>)))))))"

lemma invalidate_simps [simp]:
  "rt_calls (invalidate_continuation_reservation s) = rt_calls s" "rt_lease (invalidate_continuation_reservation s) = rt_lease s"
  "rt_session (invalidate_continuation_reservation s) = rt_session s" "rt_deleting (invalidate_continuation_reservation s) = rt_deleting s"
  by (simp_all add: invalidate_continuation_reservation_def)

lemma call_simps [simp]:
  "rt_calls (call c s) = rt_calls s @ [c]" "rt_lease (call c s) = rt_lease s" "rt_deleting (call c s) = rt_deleting s"
  "rt_work (call c s) = rt_work s"
  by (simp_all add: call_def)

lemma effect_more [simp]:
  "rt_calls (enqueue_effect e s) = rt_calls s" "rt_lease (enqueue_effect e s) = rt_lease s"
  "rt_work (enqueue_effect e s) = rt_work s"
  by (simp_all add: enqueue_effect_def)

lemma settling_more [simp]: "rt_calls (set_settling b s) = rt_calls s"
  by (simp add: set_settling_def)

lemma no_continuation: "map_option wr_kind (rt_work (invalidate_continuation_reservation s)) \<noteq> Some WorkContinuation"
  by (simp add: invalidate_continuation_reservation_def)

text \<open>Pausing a running Goal saves it as paused, drops a reserved continuation and closes the
  lifecycle before the tasks are cancelled: whatever the cancellation does, it starts from such a
  state; its failure is only a warning.\<close>

theorem pause_before_cancel:
  assumes "lifecycle_free s" and "rt_session s = Some m" and "read_goal_state m = Some g" and "gs_status g = GActive"
  shows "\<exists>t. pause_and_cancel cancel now (gs_id g) s =
        (Inr (touch now (g\<lparr>gs_status := GPaused\<rparr>), \<not> fst (cancel t)), end_lifecycle_settlement (snd (cancel t)))
     \<and> rt_session t = Some (write_goal (touch now (g\<lparr>gs_status := GPaused\<rparr>)) m)
     \<and> assert_lifecycle_available t = Inl GoalTurnSettling
     \<and> map_option wr_kind (rt_work t) \<noteq> Some WorkContinuation
     \<and> rt_calls t = rt_calls s @ [InvalidateWork, CancelTasks]"
proof (intro exI conjI)
  let ?t = "paused_state now (gs_id g) g m s"
  have free: "\<not> rt_deleting s" using assms(1) by (simp add: lifecycle_free_def)
  have body: "pause_body now (gs_id g) m =
      Inr (touch now (g\<lparr>gs_status := GPaused\<rparr>), write_goal (touch now (g\<lparr>gs_status := GPaused\<rparr>)) m)"
    using assms by (simp add: pause_body_def current_goal_def Let_def)
  show "pause_and_cancel cancel now (gs_id g) s =
        (Inr (touch now (g\<lparr>gs_status := GPaused\<rparr>), \<not> fst (cancel ?t)), end_lifecycle_settlement (snd (cancel ?t)))"
    using assms(2) free
    by (simp add: pause_and_cancel_def with_settlement_def begin_lifecycle_settlement_def bind_op_def begin_control_free [OF assms(1)]
        finally_op_def mutate_def goal_operation_def body Let_def paused_state_def split: prod.splits)
  show "rt_session ?t = Some (write_goal (touch now (g\<lparr>gs_status := GPaused\<rparr>)) m)"
    using assms(2) free by (simp add: paused_state_def mutate_def goal_operation_def body Let_def split: option.splits)
  show "assert_lifecycle_available ?t = Inl GoalTurnSettling"
    using assms(2) free
    by (simp add: assert_lifecycle_available_def assert_session_available_def paused_state_def mutate_def goal_operation_def body Let_def
        split: option.splits)
  show "map_option wr_kind (rt_work ?t) \<noteq> Some WorkContinuation"
    unfolding paused_state_def Let_def by (simp only: call_simps no_continuation not_False_eq_True)
  show "rt_calls ?t = rt_calls s @ [InvalidateWork, CancelTasks]"
    using assms(2) free by (simp add: paused_state_def mutate_def goal_operation_def body Let_def split: option.splits)
qed

lemma with_control_run:
  "lifecycle_free s \<Longrightarrow> with_control f s = finally_op f end_lifecycle_control (s\<lparr>rt_control := True\<rparr>)"
  by (simp add: with_control_def bind_op_def begin_control_free)

text \<open>Resuming makes a paused, blocked or usage limited Goal active and schedules its work; the
  budget is not consulted: only the status decides. A budget limited Goal is refused as exhausted.\<close>

theorem resume_goal_spec:
  assumes "lifecycle_free s" and "rt_session s = Some m" and "read_goal_state m = Some g"
  shows "fst (resume_goal now (gs_id g) s) =
      (if gs_status g = GBudgetLimited then Inl BudgetExhausted
       else if gs_status g = GActive \<or> gs_status g = GCompleted then Inl InvalidTransition
       else Inr (touch now (g\<lparr>gs_status := GActive\<rparr>)))
    \<and> (gs_status g \<in> {GPaused, GBlocked, GUsageLimited} \<longrightarrow>
        rt_calls (snd (resume_goal now (gs_id g) s)) = rt_calls s @ [ScheduleWork (touch now (g\<lparr>gs_status := GActive\<rparr>))])
    \<and> (gs_status g \<notin> {GPaused, GBlocked, GUsageLimited} \<longrightarrow> rt_session (snd (resume_goal now (gs_id g) s)) = rt_session s)"
proof -
  have "\<not> rt_deleting s" using assms(1) by (simp add: lifecycle_free_def)
  with assms show ?thesis
    by (cases "gs_status g")
      (simp_all add: resume_goal_def with_control_run bind_op_def finally_op_def mutate_def goal_operation_def resume_body_def
        current_goal_def Let_def end_lifecycle_control_def split: option.splits)
qed

text \<open>Setting the budget stores it whatever the status (a completed Goal is refused), and afterwards
  the status agrees with it: an active Goal has budget left, a budget limited one has none.\<close>

theorem set_budget_spec:
  assumes "set_budget cancel now i value s = (Inr g', s')" and "get_goal s = Some g"
    and "gs_status g = GBudgetLimited \<longrightarrow> exhausted (gs_budget g) (gs_used g)"
  shows "gs_id g = i \<and> gs_status g \<noteq> GCompleted \<and> Inr (gs_budget g') = normalize_token_budget value
     \<and> gs_used g' = gs_used g \<and> gs_objective g' = gs_objective g
     \<and> (gs_status g' = GActive \<longrightarrow> \<not> exhausted (gs_budget g') (gs_used g'))
     \<and> (gs_status g' = GBudgetLimited \<longrightarrow> exhausted (gs_budget g') (gs_used g'))"
proof -
  obtain b where b: "normalize_token_budget value = Inr b"
    using assms(1) by (auto simp: set_budget_def split: sum.splits)
  obtain m where m: "rt_session s = Some m" "read_goal_state m = Some g"
    using assms(2) by (auto simp: get_goal_def split: bind_splits)
  obtain u s1 where s1: "begin_lifecycle_control s = (Inr u, s1)" "rt_session s1 = Some m"
    using assms(1) b m session_begin(1) [of s]
    by (cases "begin_lifecycle_control s"; cases "fst (begin_lifecycle_control s)") (auto simp: set_budget_def bind_op_def)
  obtain t where t: "rt_session t = Some m"
      "fst (bind_op (mutate (goal_operation (budget_body now i b) id)) (after_budget cancel (will_cancel s1 i b)) t) = Inr g'"
    using assms(1) b s1 that [of s1] that [of "set_settling True s1"]
    by (auto simp: set_budget_def bind_op_def [of begin_lifecycle_control] budget_control_def finally_op_def Let_def
        split: prod.splits if_splits)
  then have "\<exists>m'. budget_body now i b m = Inr (g', m')"
    by (auto simp: bind_op_def mutate_def goal_operation_def after_budget_def Let_def error_simps
        split: if_splits option.splits sum.splits prod.splits)
  with m b assms(3) show ?thesis
    by (auto simp: budget_body_def error_simps current_goal_eq Let_def budget_status_def split: if_splits)
qed

lemma mutate_Inr:
  "mutate operation s = (Inr v, s') \<Longrightarrow>
     \<exists>m mu. \<not> rt_deleting s \<and> rt_session s = Some m \<and> operation s m = Inr mu \<and> v = mu_value mu
       \<and> s' = (case mu_effect mu of None \<Rightarrow> mu_commit mu (s\<lparr>rt_session := Some (mu_metadata mu)\<rparr>)
              | Some e \<Rightarrow> enqueue_effect e (mu_commit mu (s\<lparr>rt_session := Some (mu_metadata mu)\<rparr>)))"
  by (auto simp: mutate_def Let_def split: if_splits option.splits sum.splits)

lemma begin_settlement_session: "begin_lifecycle_settlement s = (r, t) \<Longrightarrow> rt_session t = rt_session s"
  using session_begin(2) [of s] by (simp del: session_begin)

lemma finish_clear_Inr:
  assumes "finish_clear i snapshot s = (Inr u, s')"
  shows "get_goal s' = None \<and> get_route s' = None \<and> rt_claims s' = [] \<and> rt_lease s' = None \<and> rt_settlements s' = []
    \<and> map_option wr_kind (rt_work s') \<noteq> Some WorkContinuation"
proof -
  obtain t where t: "mutate (clear_operation i snapshot) s = (Inr (), t)" "s' = clear_goal_runtime_work (call InvalidateWork t)"
    using assms by (auto simp: finish_clear_def bind_op_def split: sum.splits prod.splits)
  from mutate_Inr [OF t(1)] obtain m where "rt_session t = Some (meta_delete ''goalRoute'' (meta_delete ''goalState'' m))"
    by (auto simp: clear_operation_def clear_body_def error_simps Let_def split: option.splits)
  moreover have "read_goal_state (meta_delete ''goalRoute'' (meta_delete ''goalState'' m)) = None"
    "read_goal_route (meta_delete ''goalRoute'' (meta_delete ''goalState'' m)) = None" for m
    by (simp_all add: read_goal_state_def read_goal_route_def meta_read_def map_of_delete)
  moreover have "rt_claims s' = []" "rt_lease s' = None" "rt_settlements s' = []"
    "map_option wr_kind (rt_work s') \<noteq> Some WorkContinuation"
    unfolding t(2) clear_goal_runtime_work_def
    by (simp_all add: invalidate_continuation_reservation_def)
  ultimately show ?thesis by (simp add: get_goal_def get_route_def t(2))
qed

text \<open>Clearing that succeeds leaves neither Goal nor route, no lease, claim, settlement record or
  reserved continuation; and it only succeeds on the Goal it was asked to clear.\<close>

theorem clear_goal_spec:
  assumes "clear_goal cancel now i s = (Inr u, s')"
  shows "get_goal s' = None \<and> get_route s' = None \<and> rt_claims s' = [] \<and> rt_lease s' = None \<and> rt_settlements s' = []
    \<and> map_option wr_kind (rt_work s') \<noteq> Some WorkContinuation \<and> map_option gs_id (get_goal s) = Some i"
proof -
  obtain r1 s1 where s1: "begin_lifecycle_settlement s = (r1, s1)" by fastforce
  define body where "body = (\<lambda>s. case get_goal s of
         None \<Rightarrow> (Inl GoalNotFound, s)
       | Some current \<Rightarrow>
           if gs_id current \<noteq> i then (Inl GoalIdMismatch, s)
           else if map_option le_goal (rt_lease s) = Some i \<and> gs_status current = GActive
           then bind_op (pause_to_clear cancel now i) (finish_clear i) s
           else finish_clear i None s)"
  have "r1 = Inr () \<and> finally_op body end_lifecycle_settlement s1 = (Inr u, s')"
    using assms s1 by (cases r1) (simp_all add: clear_goal_def with_settlement_def bind_op_def [of begin_lifecycle_settlement] body_def)
  then obtain t' where t': "body s1 = (Inr u, t')" "s' = end_lifecycle_settlement t'"
    by (auto simp: finally_op_def split: prod.splits)
  then obtain g where g: "get_goal s1 = Some g" "gs_id g = i"
    by (auto simp: body_def split: option.splits if_splits)
  have "\<exists>snapshot t. finish_clear i snapshot t = (Inr u, t')"
    using t'(1) g by (auto simp: body_def bind_op_def [of "pause_to_clear cancel now i"] split: if_splits sum.splits prod.splits)
  then obtain snapshot t where t: "finish_clear i snapshot t = (Inr u, t')" by blast
  have "get_goal s = Some g"
    using g(1) begin_settlement_session [OF s1] by (simp add: get_goal_def)
  with finish_clear_Inr [OF t] t'(2) g(2) show ?thesis
    by (simp add: get_goal_def get_route_def end_lifecycle_settlement_def end_lifecycle_control_def set_settling_def)
qed

section \<open>Deletion and effects\<close>

lemma deleting_mutate [simp]: "rt_deleting s \<Longrightarrow> mutate operation s = (Inl SessionDeletionInProgress, s)"
  by (simp add: mutate_def)

lemma deleting_begin [simp]: "rt_deleting s \<Longrightarrow> begin_lifecycle_control s = (Inl SessionDeletionInProgress, s)"
  by (simp add: begin_lifecycle_control_def assert_lifecycle_available_def assert_session_available_def)

lemma deleting_with [simp]:
  "rt_deleting s \<Longrightarrow> with_control f s = (Inl SessionDeletionInProgress, s)"
  "rt_deleting s \<Longrightarrow> with_settlement g s = (Inl SessionDeletionInProgress, s)"
  by (simp_all add: with_control_def with_settlement_def begin_lifecycle_settlement_def bind_op_def)

definition silent :: "goal_rt \<Rightarrow> goal_rt \<Rightarrow> bool" where
  "silent s s' \<longleftrightarrow> rt_session s' = rt_session s \<and> rt_published s' = rt_published s \<and> rt_calls s' = rt_calls s
     \<and> (rt_lease s' \<noteq> None \<longrightarrow> rt_lease s \<noteq> None) \<and> (rt_work s' \<noteq> None \<longrightarrow> rt_work s \<noteq> None)"

lemma silent_refl [simp]: "silent s s"
  by (simp add: silent_def)

lemma flush_deleting: "rt_deleting s \<Longrightarrow> silent s (flush_effects s) \<and> rt_deleting (flush_effects s)"
proof -
  assume d: "rt_deleting s"
  have "silent s ((run_effect ^^ n) s) \<and> rt_deleting ((run_effect ^^ n) s)" for n
    by (induction n) (use d in \<open>auto simp: silent_def run_effect_def split: list.splits prod.splits\<close>)
  then show ?thesis by (simp add: flush_effects_def)
qed

lemma deleting_operations [simp]:
  "rt_deleting s \<Longrightarrow> snd (create_goal now uuid objective budget route turn s) = s"
  "rt_deleting s \<Longrightarrow> snd (update_from_model now i status s) = s"
  "rt_deleting s \<Longrightarrow> snd (pause_and_cancel cancel now i s) = s"
  "rt_deleting s \<Longrightarrow> snd (resume_goal now i s) = s"
  "rt_deleting s \<Longrightarrow> snd (edit_goal now i new s) = s"
  "rt_deleting s \<Longrightarrow> snd (set_budget cancel now i value s) = s"
  "rt_deleting s \<Longrightarrow> snd (clear_goal cancel now i s) = s"
  "rt_deleting s \<Longrightarrow> snd (inbox_operation f s) = s"
  "rt_deleting s \<Longrightarrow> snd (reset_dispatching s) = s"
  "rt_deleting s \<Longrightarrow> snd (register_lease i turn s) = s"
  "rt_deleting s \<Longrightarrow> snd (reserve_work turn kind s) = s"
  "rt_deleting s \<Longrightarrow> snd (begin_session_deletion s) = s"
  by (simp_all add: create_goal_def update_from_model_def pause_and_cancel_def resume_goal_def edit_goal_def set_budget_def
      clear_goal_def inbox_operation_def reset_dispatching_def register_lease_def assert_lifecycle_available_def
      assert_session_available_def reserve_work_def begin_session_deletion_def bind_op_def
      split: sum.split option.split prod.split)

lemma deleting_settle: "rt_deleting s \<Longrightarrow> silent s (snd (settle_turn now input s)) \<and> rt_deleting (snd (settle_turn now input s))"
  by (cases "si_goal input"; cases "rt_lease s") (simp_all add: settle_turn_def silent_def set_settling_def)

lemma control_deleting:
  assumes "rt_deleting s"
  shows "silent s (snd (control cancel now later r s)) \<and> rt_deleting (snd (control cancel now later r s))"
proof -
  obtain a s1 where start: "start_control now r s = (a, s1)" by fastforce
  have s1: "silent s s1 \<and> rt_deleting s1"
    using assms start by (auto simp: start_control_def silent_def cleanup_control_requests_def Let_def
        split: if_splits sum.splits option.splits)
  obtain res s2 where perform: "perform_control cancel now r s1 = (res, s2)" by fastforce
  have "s2 = flush_effects s1"
    using perform s1
    by (cases "cr_action r") (auto simp: perform_control_def control_outcome_def dest!: arg_cong [of _ _ snd] split: prod.splits)
  with s1 flush_deleting [of s1] have s2: "silent s s2 \<and> rt_deleting s2" by (auto simp: silent_def)
  then have "silent s (finish_control later (cr_id r) res s2) \<and> rt_deleting (finish_control later (cr_id r) res s2)"
    by (simp add: silent_def finish_control_def Let_def split: option.splits)
  with start perform s1 show ?thesis by (auto simp: control_def split: control_start.splits)
qed

text \<open>Once the deletion of the session has begun, nothing writes its metadata, publishes an effect,
  calls back, takes a lease or a reservation, until the deletion ends.\<close>

theorem deleted_session_silent:
  assumes "rt_step X cancel s s'" and "rt_deleting s"
  shows "silent s s' \<and> (rt_deleting s' \<or> s' = end_session_deletion s)"
  using assms
proof (induction rule: rt_step.induct)
  case (settle s now input)
  then show ?case using deleting_settle by auto
next
  case (control s now later r)
  then show ?case using control_deleting by auto
next
  case (release_turn s turn)
  then show ?case by (simp add: release_turn_def silent_def Let_def)
qed (simp_all add: silent_def release_work_def run_effect_def end_session_deletion_def invalidate_session_def
    clear_runtime_state_def split: list.split prod.split)

lemma run_effects:
  "rt_effects s = es @ rest \<Longrightarrow> \<not> rt_deleting s \<Longrightarrow>
     rt_effects ((run_effect ^^ length es) s) = rest \<and> rt_deleting ((run_effect ^^ length es) s) = False
     \<and> rt_generation ((run_effect ^^ length es) s) = rt_generation s
     \<and> rt_published ((run_effect ^^ length es) s) = rt_published s @ map snd (filter (\<lambda>ge. fst ge = rt_generation s) es)"
proof (induction es arbitrary: rest rule: rev_induct)
  case (snoc e es)
  then show ?case by (cases e) (auto simp: run_effect_def)
qed simp

text \<open>Flushing publishes the queued effects in the order of the saves, each once, and drops those
  that were queued before the session was last invalidated; the queue is empty afterwards.\<close>

theorem flush_effects_spec:
  assumes "\<not> rt_deleting s"
  shows "rt_effects (flush_effects s) = [] \<and> rt_published (flush_effects s) =
     rt_published s @ map snd (filter (\<lambda>ge. fst ge = rt_generation s) (rt_effects s))"
  using run_effects [of s "rt_effects s" "[]"] assms by (simp add: flush_effects_def)

section \<open>Control requests\<close>

lemma map_of_filter_distinct:
  "distinct (map fst kvs) \<Longrightarrow>
     map_of (filter P kvs) k = (case map_of kvs k of None \<Rightarrow> None | Some v \<Rightarrow> if P (k, v) then Some v else None)"
proof (induction kvs)
  case (Cons kv kvs)
  then have "k = fst kv \<Longrightarrow> map_of kvs k = None" by (force simp: map_of_eq_None_iff)
  with Cons show ?case by (cases kv) (auto split: option.splits)
qed simp

text \<open>A control request is answered once. The same request within ten minutes gets the recorded
  answer (or waits for the one in flight), a different one under its id is a conflict, and while it
  is in flight every other request is refused; none of this touches the session.\<close>

theorem control_retry:
  assumes "map_of (rt_controls s) (cr_id r) = Some c" and "distinct (map fst (rt_controls s))" and "\<not> expired now c"
    and "js_trim (cr_id r) \<noteq> []" and "control_summary r = Inr summary"
  shows "control cancel now later r s =
      (if ct_summary c \<noteq> summary then Some (failed RequestIdConflict) else ct_result c, cleanup_control_requests now s)
    \<and> (ct_result c = None \<and> map_of (rt_controls s) (cr_id r') = None \<longrightarrow>
         (\<exists>e. fst (control cancel now later r' s) = Some (failed e)) \<and> rt_session (snd (control cancel now later r' s)) = rt_session s)"
proof (intro conjI impI)
  have kept: "map_of (rt_controls (cleanup_control_requests now s)) (cr_id r) = Some c"
    using assms(1-3) by (simp add: cleanup_control_requests_def map_of_filter_distinct)
  with assms(4,5) show "control cancel now later r s =
      (if ct_summary c \<noteq> summary then Some (failed RequestIdConflict) else ct_result c, cleanup_control_requests now s)"
    by (simp add: control_def start_control_def Let_def split: option.split)
  assume *: "ct_result c = None \<and> map_of (rt_controls s) (cr_id r') = None"
  then have "map_of (rt_controls (cleanup_control_requests now s)) (cr_id r') = None"
    using assms(2) by (simp add: cleanup_control_requests_def map_of_filter_distinct)
  moreover have "list_ex (\<lambda>kc. ct_result (snd kc) = None) (rt_controls (cleanup_control_requests now s))"
    using map_of_SomeD [OF kept] * by (auto simp: list_ex_iff intro!: bexI [of _ "(cr_id r, c)"])
  ultimately have "\<exists>e. start_control now r' s = (Answered (failed e), snd (start_control now r' s))"
    by (auto simp: start_control_def Let_def split: sum.splits)
  then obtain e where "start_control now r' s = (Answered (failed e), snd (start_control now r' s))" ..
  then have "control cancel now later r' s = (Some (failed e), snd (start_control now r' s))"
    by (cases "start_control now r' s") (simp add: control_def)
  then show "\<exists>e. fst (control cancel now later r' s) = Some (failed e)"
    and "rt_session (snd (control cancel now later r' s)) = rt_session s" by auto
qed

end
