(* ===== verification/Goal_Example.thy ===== *)
theory Goal_Example
  imports Session_Example Goal_Life
begin

text \<open>
  A session whose Goal is worked on, settled, paused, resumed and cleared: the theorems on the
  runtime of the Goal applied to concrete states.
\<close>

definition ex_goal_route :: goal_route where
  "ex_goal_route = \<lparr>gr_channel = ''websocket'', gr_chat_id = ''1'', gr_source = None\<rparr>"

definition ex_session :: json_obj where
  "ex_session = write_goal ex_goal_state []"

definition ex_rt :: goal_rt where
  "ex_rt = \<lparr>rt_session = Some ex_session, rt_bus = True, rt_claims = [],
     rt_lease = Some \<lparr>le_goal = ex_uuid, le_turn = ''t1'', le_settling = False\<rparr>,
     rt_work = Some \<lparr>wr_turn = ''t2'', wr_kind = WorkContinuation\<rparr>, rt_control = False, rt_deleting = False,
     rt_settlements = [], rt_controls = [], rt_generation = 0, rt_effects = [], rt_published = [], rt_calls = []\<rparr>"

definition ex_settle :: settle_input where
  "ex_settle = \<lparr>si_turn = ''t1'', si_goal = Some ex_uuid,
     si_usage = \<lparr>us_prompt = None, us_completion = None, us_total = Some (Fin 120)\<rparr>,
     si_latency = 1500, si_stop = ''completed'', si_error = None\<rparr>"

definition ex_cancel :: cancel_tasks where
  "ex_cancel s = (True, snd (settle_turn 7 ex_settle s))"

lemma ex_read_goal: "read_goal_state ex_session = Some ex_goal_state"
  by (simp add: ex_session_def ex_goal_ok)

lemma ex_rt_fields [simp]:
  "rt_session ex_rt = Some ex_session" "rt_deleting ex_rt = False" "rt_control ex_rt = False" "rt_settlements ex_rt = []"
  "rt_calls ex_rt = []" "rt_controls ex_rt = []" "rt_effects ex_rt = []" "rt_published ex_rt = []"
  by (simp_all add: ex_rt_def)

lemma ex_goal_fields [simp]:
  "gs_id ex_goal_state = ex_uuid" "gs_status ex_goal_state = GActive" "gs_used ex_goal_state = 0"
  "gs_budget ex_goal_state = Some 100"
  by (simp_all add: ex_goal_state_def)

lemma ex_settle_fields [simp]: "si_turn ex_settle = ''t1''" "si_goal ex_settle = Some ex_uuid"
  by (simp_all add: ex_settle_def)

lemma ex_get_goal [simp]: "get_goal ex_rt = Some ex_goal_state"
  by (simp add: get_goal_def ex_read_goal)

lemma ex_uuid_nonempty [simp]: "ex_uuid \<noteq> []"
  by (simp add: ex_uuid_def)

lemma ex_free [simp]: "lifecycle_free ex_rt"
  by (simp add: lifecycle_free_def lease_settling_def ex_rt_def)

lemma ex_cancel_keeps: "keeps X ex_cancel"
  by (rule keepsI) (simp add: ex_cancel_def keepsD [OF settle_turn_keeps])

lemma ex_tokens: "goal_turn_tokens (si_usage ex_settle) = 120"
  by (simp add: ex_settle_def goal_turn_tokens_def normalize_usage_value_def)

section \<open>A settled turn\<close>

lemma ex_settled: "\<exists>r s'. settle_turn 7 ex_settle ex_rt = (Inr r, s') \<and> st_goal r \<noteq> None"
  by (auto simp: settle_turn_mutate mutate_def settle_operation_def ex_read_goal Let_def)

theorem settle_turn_spec_witness:
  "\<exists>g' r s'. settle_turn 7 ex_settle ex_rt = (Inr r, s') \<and> st_goal r = Some g' \<and> gs_used g' = 120 \<and> \<not> st_continue r"
  using settle_turn_spec [of ex_rt ex_goal_state ex_settle 7] by (auto simp: ex_tokens exhausted_def)

theorem settle_turn_once_witness:
  "\<exists>r s'. settle_turn 7 ex_settle ex_rt = (Inr r, s') \<and> fst (settle_turn 9 ex_settle s') = Inr r"
proof -
  obtain r s' g where run: "settle_turn 7 ex_settle ex_rt = (Inr r, s')" "st_goal r = Some g"
    using ex_settled by auto
  from settle_turn_once [OF run refl refl] run(1) show ?thesis by blast
qed

theorem goal_history_witness:
  "case get_goal (snd (pause_and_cancel ex_cancel 5 ex_uuid ex_rt)) of None \<Rightarrow> True
     | Some g \<Rightarrow> gs_id g \<noteq> ex_uuid \<or> gs_created g = to_iso_string 0 \<and> 0 \<le> gs_used g"
proof (cases "get_goal (snd (pause_and_cancel ex_cancel 5 ex_uuid ex_rt))")
  case (Some g)
  have "evolves ex_goal_state g" if "gs_id g = ex_uuid"
    by (rule goal_history [of "{ex_uuid}" ex_cancel ex_rt, OF r_into_rtranclp [of "rt_step {ex_uuid} ex_cancel", OF rt_step.pause] ex_cancel_keeps _ _ Some])
      (simp_all add: that)
  with Some show ?thesis by (auto simp: evolves_def) (simp add: ex_goal_state_def)
qed simp



theorem lifecycle_exclusive_witness:
  "resume_goal 5 ex_uuid (ex_rt\<lparr>rt_control := True\<rparr>) = (Inl GoalTurnSettling, ex_rt\<lparr>rt_control := True\<rparr>)"
  using lifecycle_exclusive [of "ex_rt\<lparr>rt_control := True\<rparr>"] by simp

theorem pause_before_cancel_witness:
  "\<exists>t. snd (pause_and_cancel ex_cancel 5 ex_uuid ex_rt) = end_lifecycle_settlement (snd (ex_cancel t))
     \<and> rt_calls t = [InvalidateWork, CancelTasks]"
  using pause_before_cancel [OF ex_free _ ex_read_goal, of ex_cancel 5] by auto

section \<open>A Goal whose budget is spent, resumed\<close>

definition ex_spent :: goal_state where
  "ex_spent = ex_goal_state\<lparr>gs_status := GPaused, gs_used := 100\<rparr>"

definition ex_spent_rt :: goal_rt where
  "ex_spent_rt = ex_rt\<lparr>rt_session := Some (write_goal ex_spent [])\<rparr>"

lemma ex_spent_ok: "goal_ok ex_spent"
  using ex_goal_ok by (simp add: ex_spent_def goal_ok_def max_safe_integer_def)

lemma ex_read_spent: "read_goal_state (write_goal ex_spent []) = Some ex_spent"
  by (simp add: ex_spent_ok)

text \<open>A paused Goal that has used up its budget becomes active again.\<close>

theorem resume_goal_spec_witness:
  "exhausted (gs_budget ex_spent) (gs_used ex_spent)
   \<and> fst (resume_goal 5 ex_uuid ex_spent_rt) = Inr (touch 5 (ex_spent\<lparr>gs_status := GActive\<rparr>))"
proof -
  have "lifecycle_free ex_spent_rt" by (simp add: lifecycle_free_def lease_settling_def ex_spent_rt_def ex_rt_def)
  moreover have "gs_id ex_spent = ex_uuid" "gs_status ex_spent = GPaused" "gs_budget ex_spent = Some 100" "gs_used ex_spent = 100"
    by (simp_all add: ex_spent_def)
  ultimately show ?thesis
    using resume_goal_spec [of ex_spent_rt "write_goal ex_spent []" ex_spent 5, OF _ _ ex_read_spent] by (simp add: ex_spent_rt_def exhausted_def)
qed

section \<open>Budget, clear, deletion, requests\<close>

lemma ex_budget_run:
  "\<exists>g' s'. set_budget ex_cancel 5 ex_uuid (Some (JNum (Fin 50))) ex_rt = (Inr g', s')"
proof -
  have budget: "normalize_token_budget (Some (JNum (Fin 50))) = Inr (Some 50)" by code_simp
  have "\<not> exhausted (Some 50) 0" by (simp add: exhausted_def)
  then have "will_cancel (ex_rt\<lparr>rt_control := True\<rparr>) ex_uuid (Some 50) = False"
    by (simp add: will_cancel_def get_goal_def ex_read_goal)
  then show ?thesis
    by (simp add: set_budget_def budget bind_op_def begin_control_free budget_control_def finally_op_def mutate_def
        goal_operation_def budget_body_def current_goal_def ex_read_goal Let_def after_budget_def budget_status_def split: prod.split)
qed

theorem set_budget_spec_witness:
  "\<exists>g' s'. set_budget ex_cancel 5 ex_uuid (Some (JNum (Fin 50))) ex_rt = (Inr g', s') \<and> gs_used g' = 0"
proof -
  obtain g' s' where run: "set_budget ex_cancel 5 ex_uuid (Some (JNum (Fin 50))) ex_rt = (Inr g', s')"
    using ex_budget_run by blast
  from set_budget_spec [OF run ex_get_goal] run show ?thesis by auto
qed

lemma ex_clear_run: "\<exists>s'. clear_goal ex_cancel 5 ex_uuid ex_spent_rt = (Inr (), s')"
proof -
  have fields: "gs_id ex_spent = ex_uuid" "gs_status ex_spent = GPaused" by (simp_all add: ex_spent_def)
  have "lifecycle_free ex_spent_rt" by (simp add: lifecycle_free_def lease_settling_def ex_spent_rt_def ex_rt_def)
  moreover have "rt_session ex_spent_rt = Some (write_goal ex_spent [])" "rt_deleting ex_spent_rt = False"
    by (simp_all add: ex_spent_rt_def)
  ultimately show ?thesis
    by (simp add: clear_goal_def with_settlement_def begin_lifecycle_settlement_def bind_op_def begin_control_free
        finally_op_def get_goal_def ex_read_spent fields finish_clear_def mutate_def clear_operation_def clear_body_def
        current_goal_def Let_def split: prod.split)
qed

theorem clear_goal_spec_witness:
  "\<exists>s'. clear_goal ex_cancel 5 ex_uuid ex_spent_rt = (Inr (), s') \<and> get_goal s' = None \<and> rt_lease s' = None"
proof -
  obtain s' where run: "clear_goal ex_cancel 5 ex_uuid ex_spent_rt = (Inr (), s')"
    using ex_clear_run by blast
  from clear_goal_spec [OF run] run show ?thesis by blast
qed

theorem deleted_session_silent_witness:
  "silent (snd (begin_session_deletion ex_rt)) (snd (settle_turn 7 ex_settle (snd (begin_session_deletion ex_rt))))"
proof -
  have "rt_deleting (snd (begin_session_deletion ex_rt))"
    by (simp add: begin_session_deletion_def clear_runtime_state_def)
  from deleted_session_silent [OF rt_step.settle [of "{}" ex_cancel] this] show ?thesis by blast
qed

theorem flush_effects_spec_witness:
  "rt_published (flush_effects (enqueue_effect (ex_goal_route, public_goal_state None) ex_rt)) = [(ex_goal_route, public_goal_state None)]"
  using flush_effects_spec [of "enqueue_effect (ex_goal_route, public_goal_state None) ex_rt"]
  by (simp add: enqueue_effect_def)

definition ex_request :: control_request where
  "ex_request = \<lparr>cr_id = ''r'', cr_goal = ex_uuid, cr_action = CtlPause, cr_objective = None, cr_budget = None\<rparr>"

definition ex_pending :: goal_rt where
  "ex_pending = ex_rt\<lparr>rt_controls := [(''r'', \<lparr>ct_summary = (ex_uuid, CtlPause, None, None), ct_result = None, ct_completed = None\<rparr>)]\<rparr>"

theorem control_retry_witness:
  "fst (control ex_cancel 5 6 ex_request ex_pending) = None
   \<and> (\<exists>e. fst (control ex_cancel 5 6 (ex_request\<lparr>cr_id := ''q''\<rparr>) ex_pending) = Some (failed e))"
proof -
  have trim: "js_trim ''r'' \<noteq> []" by code_simp
  show ?thesis
    using control_retry [of ex_pending ex_request
        "\<lparr>ct_summary = (ex_uuid, CtlPause, None, None), ct_result = None, ct_completed = None\<rparr>" 5
        "(ex_uuid, CtlPause, None, None)" ex_cancel 6 "ex_request\<lparr>cr_id := ''q''\<rparr>"] trim
    by (simp add: ex_pending_def ex_request_def expired_def control_summary_def)
qed

end
