(* ===== verification/Session_History_Example.thy ===== *)
theory Session_History_Example
  imports Session_History
begin

text \<open>A short session with one tool call: the theorems of the history at it, and the end of a long turn.\<close>

definition ex_nt :: "jsnum \<Rightarrow> string" where
  "ex_nt n = ''0''"

definition ex_user :: message where
  "ex_user = [(''role'', JStr ''user''), (''content'', JStr ''hi'')]"

definition ex_call :: message where
  "ex_call = [(''role'', JStr ''assistant''), (''content'', JStr []),
     (''tool_calls'', JArr [JObj [(''id'', JStr ''c1'')]])]"

definition ex_result :: message where
  "ex_result = [(''role'', JStr ''tool''), (''tool_call_id'', JStr ''c1''), (''content'', JStr ''ok'')]"

definition ex_orphan :: message where
  "ex_orphan = [(''role'', JStr ''tool''), (''tool_call_id'', JStr ''c0''), (''content'', JStr ''ok'')]"

definition ex_session :: session where
  "ex_session = \<lparr>se_messages = [ex_orphan, ex_user, ex_call, ex_result], se_metadata = [], se_consolidated = 0,
     se_updated_at = []\<rparr>"

lemma ex_history: "get_history ex_nt 0 None False None ex_session = Inr [ex_user, ex_call,
    [(''role'', JStr ''tool''), (''content'', JStr ''ok''), (''tool_call_id'', JStr ''c1'')]]"
  by code_simp

theorem get_history_spec_witness:
  "results_called ex_nt [ex_user, ex_call, [(''role'', JStr ''tool''), (''content'', JStr ''ok''), (''tool_call_id'', JStr ''c1'')]]"
  using get_history_spec [OF ex_history] by blast

lemma ex_budgeted: "get_history ex_nt 0 (Some 12) False None ex_session = Inr [ex_user, ex_call,
    [(''role'', JStr ''tool''), (''content'', JStr ''ok''), (''tool_call_id'', JStr ''c1'')]]"
  by code_simp

theorem history_token_budget_witness:
  "tokens_of ex_nt [ex_user, ex_call, [(''role'', JStr ''tool''), (''content'', JStr ''ok''), (''tool_call_id'', JStr ''c1'')]] \<le> 12
   \<or> list_all (\<lambda>m. \<not> role_is ''user'' m) [ex_call, [(''role'', JStr ''tool''), (''content'', JStr ''ok''), (''tool_call_id'', JStr ''c1'')]]"
  using history_token_budget [OF ex_budgeted] by simp

lemma ex_capped: "\<exists>s'. enforce_file_cap ex_nt 0 3 ex_session = Inr (s', [ex_orphan])"
proof -
  have "case enforce_file_cap ex_nt 0 3 ex_session of Inr (_, a) \<Rightarrow> a = [ex_orphan] | Inl _ \<Rightarrow> False" by code_simp
  then show ?thesis by (auto split: sum.splits)
qed

theorem enforce_file_cap_spec_witness:
  "\<exists>s'. enforce_file_cap ex_nt 0 3 ex_session = Inr (s', [ex_orphan])
     \<and> ex_orphan # js_slice_from (se_consolidated s') (se_messages s') = [ex_orphan, ex_user, ex_call, ex_result]"
proof -
  obtain s' where s': "enforce_file_cap ex_nt 0 3 ex_session = Inr (s', [ex_orphan])" using ex_capped by blast
  have "ex_user \<in> set (js_slice_from (- 3) (se_messages ex_session))" "role_is ''user'' ex_user" "se_consolidated ex_session = 0"
    "js_slice_from 0 (se_messages ex_session) = [ex_orphan, ex_user, ex_call, ex_result]"
    by (simp_all add: ex_session_def js_slice_from_def role_is_def ex_user_def)
  with enforce_file_cap_spec [OF s', of ex_user] s' show ?thesis by auto
qed

text \<open>
  When the newest messages hold none from the user, the messages from the last one of the user on are
  kept, up to the limit: the newest are dropped, and the archive is handed the ones that stay.
\<close>

lemma cap_loses_newest:
  "case enforce_file_cap ex_nt 0 2 (ex_session\<lparr>se_messages := [ex_user, ex_call, ex_result, ex_call, ex_result]\<rparr>) of
     Inr (s', archived) \<Rightarrow> se_messages s' = [ex_user, ex_call] \<and> archived = [ex_user, ex_call, ex_result]
   | Inl _ \<Rightarrow> False"
  by code_simp

end
