(* ===== verification/Patch_Envelope.thy ===== *)
theory Patch_Envelope
  imports Js_Values
begin

text \<open>
  The patch language of the edit tool (\<open>tools/patch-envelope.ts\<close>): its parser with every error and its
  line, the checks on paths, and the scanner that reports progress on a patch that is still being
  written. Paths are those of a POSIX system (\<open>process.platform\<close> is not \<open>win32\<close>).
\<close>

section \<open>Texts\<close>

definition starts_with :: "string \<Rightarrow> string \<Rightarrow> bool" where
  "starts_with w s \<longleftrightarrow> take (length w) s = w"

fun split_char :: "char \<Rightarrow> string \<Rightarrow> string list" where
  "split_char d [] = [[]]"
| "split_char d (c # cs) =
     (if c = d then [] # split_char d cs
      else (case split_char d cs of [] \<Rightarrow> [[c]] | w # ws \<Rightarrow> (c # w) # ws))"

text \<open>\<open>/\r\n?/g\<close> by a line feed.\<close>

fun normalize_line_endings :: "string \<Rightarrow> string" where
  "normalize_line_endings [] = []"
| "normalize_line_endings [c] = [if c = CHR 13 then CHR 10 else c]"
| "normalize_line_endings (c # d # cs) =
     (if c = CHR 13 then (if d = CHR 10 then CHR 10 # normalize_line_endings cs else CHR 10 # normalize_line_endings (d # cs))
      else c # normalize_line_endings (d # cs))"

definition ends_in_newline :: "string \<Rightarrow> bool" where
  "ends_in_newline s \<longleftrightarrow> s \<noteq> [] \<and> last s = CHR 10"

section \<open>Operations and errors\<close>

datatype line_kind = Context | Remove | Add

type_synonym hunk_line = "line_kind \<times> string"

record hunk =
  hk_line :: nat
  hk_anchor :: "string option"
  hk_lines :: "hunk_line list"
  hk_eof :: bool

datatype file_op =
    AddFile string nat "string list"
  | DeleteFile string nat
  | UpdateFile string nat "(string \<times> nat) option" "hunk list"

datatype path_fault = EmptyPath | NullByte | TildePath | DrivePrefix | AbsoluteForm | DotDot

datatype envelope_fault =
    BadPath path_fault
  | ExtraNewline
  | NoBegin
  | NoEnd
  | NoHeader
  | TooManyOperations
  | AddBodyLine
  | DeleteBody
  | LateMove
  | NoHunkStart
  | BadHunkHeader
  | BadAnchor
  | BadHunkLine
  | EofNotLast
  | HunkChangesNothing
  | UnanchoredAdd
  | UpdateChangesNothing
  | NoOperation
  | DuplicatePath string
  | PathIsMoveTarget string
  | MoveToItself string
  | MoveToSource string
  | DuplicateMove string
  | TargetsConflict string string

datatype envelope_error = AtLine nat envelope_fault

fun op_path :: "file_op \<Rightarrow> string" where
  "op_path (AddFile p _ _) = p"
| "op_path (DeleteFile p _) = p"
| "op_path (UpdateFile p _ _ _) = p"

fun op_line :: "file_op \<Rightarrow> nat" where
  "op_line (AddFile _ n _) = n"
| "op_line (DeleteFile _ n) = n"
| "op_line (UpdateFile _ n _ _) = n"

fun op_move :: "file_op \<Rightarrow> (string \<times> nat) option" where
  "op_move (UpdateFile _ _ mv _) = mv"
| "op_move _ = None"

section \<open>Paths\<close>

definition is_absolute :: "string \<Rightarrow> bool" where
  "is_absolute p \<longleftrightarrow> starts_with ''/'' p"

definition segments :: "string \<Rightarrow> string list" where
  "segments p = split_char (CHR ''/'') p"

text \<open>\<open>path.posix.normalize\<close>: the segments are read from the left onto a stack.\<close>

fun normalize_segments :: "bool \<Rightarrow> string list \<Rightarrow> string list \<Rightarrow> string list" where
  "normalize_segments climb stack [] = rev stack"
| "normalize_segments climb stack (seg # segs) =
     (if seg = [] \<or> seg = ''.'' then normalize_segments climb stack segs
      else if seg = ''..'' then
        (case stack of
           t # ts \<Rightarrow> if t \<noteq> ''..'' then normalize_segments climb ts segs
                     else normalize_segments climb (if climb then seg # stack else stack) segs
         | [] \<Rightarrow> normalize_segments climb (if climb then [seg] else []) segs)
      else normalize_segments climb (seg # stack) segs)"

definition posix_normalize :: "string \<Rightarrow> string" where
  "posix_normalize p =
     (let absolute = is_absolute p; trailing = (p \<noteq> [] \<and> last p = CHR ''/'');
          body = join_with ''/'' (normalize_segments (\<not> absolute) [] (segments p))
      in if p = [] then ''.''
         else if body = [] then (if absolute then ''/'' else if trailing then ''./'' else ''.'')
         else (if absolute then ''/'' else []) @ body @ (if trailing then ''/'' else []))"

definition slash_path :: "string \<Rightarrow> string" where
  "slash_path = map (\<lambda>c. if c = CHR 92 then CHR ''/'' else c)"

definition drive_prefix :: "string \<Rightarrow> bool" where
  "drive_prefix p = (case p of
     c # d # _ \<Rightarrow> (let n = (of_char c :: nat) in (65 \<le> n \<and> n \<le> 90 \<or> 97 \<le> n \<and> n \<le> 122) \<and> d = CHR '':'')
   | _ \<Rightarrow> False)"

definition normalize_patch_path :: "string \<Rightarrow> path_fault + string" where
  "normalize_patch_path raw =
     (let p = js_trim raw in
      if p = [] then Inl EmptyPath
      else if CHR 0x00 \<in> set p then Inl NullByte
      else if starts_with ''~'' p then Inl TildePath
      else if drive_prefix p \<and> \<not> is_absolute p then Inl DrivePrefix
      else if starts_with [CHR 92] p \<and> \<not> is_absolute p then Inl AbsoluteForm
      else if ''..'' \<in> set (segments (slash_path p)) then Inl DotDot
      else (let normalized = (if is_absolute p then slash_path (posix_normalize p) else posix_normalize (slash_path p))
            in if normalized = [] then Inl EmptyPath else Inr normalized))"

definition normalize_path_at_line :: "string \<Rightarrow> nat \<Rightarrow> envelope_error + string" where
  "normalize_path_at_line raw n = (case normalize_patch_path raw of Inl f \<Rightarrow> Inl (AtLine n (BadPath f)) | Inr p \<Rightarrow> Inr p)"

definition is_ancestor_path :: "string \<Rightarrow> string \<Rightarrow> bool" where
  "is_ancestor_path parent child \<longleftrightarrow> starts_with (parent @ ''/'') child"

section \<open>Conflicts between the paths of a patch\<close>

record path_state =
  ps_sources :: "string list"
  ps_moves :: "string list"
  ps_targets :: "(string \<times> nat) list"

definition note_operation :: "path_state \<Rightarrow> file_op \<Rightarrow> envelope_error + path_state" where
  "note_operation s operation =
     (let p = op_path operation in
      bindE (throw_if (p \<in> set (ps_sources s)) (AtLine (op_line operation) (DuplicatePath p))) (\<lambda>_.
      bindE (throw_if (p \<in> set (ps_moves s)) (AtLine (op_line operation) (PathIsMoveTarget p))) (\<lambda>_.
      let s = s\<lparr>ps_sources := ps_sources s @ [p]\<rparr> in
      case operation of
        AddFile _ n _ \<Rightarrow> Inr (s\<lparr>ps_targets := ps_targets s @ [(p, n)]\<rparr>)
      | DeleteFile _ _ \<Rightarrow> Inr s
      | UpdateFile _ _ None _ \<Rightarrow> Inr s
      | UpdateFile _ _ (Some (t, n)) _ \<Rightarrow>
          bindE (throw_if (t = p) (AtLine n (MoveToItself t))) (\<lambda>_.
          bindE (throw_if (t \<in> set (ps_sources s)) (AtLine n (MoveToSource t))) (\<lambda>_.
          bindE (throw_if (t \<in> set (ps_moves s)) (AtLine n (DuplicateMove t))) (\<lambda>_.
          Inr (s\<lparr>ps_moves := ps_moves s @ [t], ps_targets := ps_targets s @ [(t, n)]\<rparr>)))))))"

definition check_move_source :: "string list \<Rightarrow> file_op \<Rightarrow> envelope_error + unit" where
  "check_move_source sources operation =
     (case op_move operation of
        None \<Rightarrow> Inr ()
      | Some (t, n) \<Rightarrow> throw_if (t \<in> set sources) (AtLine n (MoveToSource t)))"

fun check_ancestors :: "(string \<times> nat) list \<Rightarrow> envelope_error + unit" where
  "check_ancestors [] = Inr ()"
| "check_ancestors (left # rest) =
     bindE (foldE (\<lambda>_ right.
         throw_if (is_ancestor_path (fst left) (fst right) \<or> is_ancestor_path (fst right) (fst left))
           (AtLine (snd right) (TargetsConflict (fst left) (fst right)))) () rest)
       (\<lambda>_. check_ancestors rest)"

definition validate_patch_path_conflicts :: "file_op list \<Rightarrow> envelope_error + unit" where
  "validate_patch_path_conflicts operations =
     bindE (foldE note_operation \<lparr>ps_sources = [], ps_moves = [], ps_targets = []\<rparr> operations) (\<lambda>s.
     bindE (foldE (\<lambda>_ operation. check_move_source (ps_sources s) operation) () operations) (\<lambda>_.
     check_ancestors (ps_targets s)))"

section \<open>The parser\<close>

definition begin_patch :: string where "begin_patch = ''*** Begin Patch''"
definition end_patch :: string where "end_patch = ''*** End Patch''"
definition end_of_file :: string where "end_of_file = ''*** End of File''"
definition add_file_prefix :: string where "add_file_prefix = ''*** Add File: ''"
definition delete_file_prefix :: string where "delete_file_prefix = ''*** Delete File: ''"
definition update_file_prefix :: string where "update_file_prefix = ''*** Update File: ''"
definition move_to_prefix :: string where "move_to_prefix = ''*** Move to: ''"

datatype header_kind = HAdd | HDelete | HUpdate

definition header_prefix :: "string \<Rightarrow> (header_kind \<times> string) option" where
  "header_prefix line =
     (if starts_with add_file_prefix line then Some (HAdd, drop (length add_file_prefix) line)
      else if starts_with delete_file_prefix line then Some (HDelete, drop (length delete_file_prefix) line)
      else if starts_with update_file_prefix line then Some (HUpdate, drop (length update_file_prefix) line)
      else None)"

definition parse_file_header :: "string \<Rightarrow> nat \<Rightarrow> envelope_error + (header_kind \<times> string) option" where
  "parse_file_header line n =
     (case header_prefix line of
        None \<Rightarrow> Inr None
      | Some (k, raw) \<Rightarrow> bindE (normalize_path_at_line raw n) (\<lambda>p. Inr (Some (k, p))))"

definition ends_with :: "string \<Rightarrow> string \<Rightarrow> bool" where
  "ends_with w s \<longleftrightarrow> starts_with (rev w) (rev s)"

definition parse_hunk_header :: "string \<Rightarrow> nat \<Rightarrow> envelope_error + string option" where
  "parse_hunk_header line n =
     (if line = ''@@'' then Inr None
      else if \<not> starts_with ''@@'' line then Inl (AtLine n NoHunkStart)
      else if \<not> starts_with ''@@ '' line then Inl (AtLine n BadHunkHeader)
      else (let anchor = drop 3 line in
            if anchor = [] \<or> ends_with '' @@'' anchor then Inl (AtLine n BadAnchor) else Inr (Some anchor)))"

definition line_kind_of :: "string \<Rightarrow> line_kind option" where
  "line_kind_of line =
     (case line of
        [] \<Rightarrow> None
      | c # _ \<Rightarrow> if c = CHR 32 then Some Context else if c = CHR ''-'' then Some Remove
                 else if c = CHR ''+'' then Some Add else None)"

text \<open>
  The parser reads the lines between the first and the last, with the number of the next line. Each
  reader returns what it has read, the number of the next line and the rest.
\<close>

fun read_add_lines :: "nat \<Rightarrow> string list \<Rightarrow> envelope_error + string list \<times> nat \<times> string list" where
  "read_add_lines n [] = Inr ([], n, [])"
| "read_add_lines n (line # rest) =
     bindE (parse_file_header line n) (\<lambda>header.
     if header \<noteq> None then Inr ([], n, line # rest)
     else if \<not> starts_with ''+'' line then Inl (AtLine n AddBodyLine)
     else bindE (read_add_lines (n + 1) rest) (\<lambda>(ls, m, rest'). Inr (drop 1 line # ls, m, rest')))"

fun read_hunk_lines ::
  "nat \<Rightarrow> string list \<Rightarrow> envelope_error + hunk_line list \<times> bool \<times> nat \<times> string list" where
  "read_hunk_lines n [] = Inr ([], False, n, [])"
| "read_hunk_lines n (line # rest) =
     (if starts_with ''@@'' line then Inr ([], False, n, line # rest)
      else bindE (parse_file_header line n) (\<lambda>header.
        if header \<noteq> None then Inr ([], False, n, line # rest)
        else if starts_with move_to_prefix line then Inl (AtLine n LateMove)
        else if line = end_of_file then
          (case rest of
             [] \<Rightarrow> Inr ([], True, n + 1, [])
           | next_line # _ \<Rightarrow>
               if starts_with ''@@'' next_line then Inr ([], True, n + 1, rest)
               else bindE (parse_file_header next_line (n + 1)) (\<lambda>header.
                 if header = None then Inl (AtLine (n + 1) EofNotLast) else Inr ([], True, n + 1, rest)))
        else (case line_kind_of line of
                None \<Rightarrow> Inl (AtLine n BadHunkLine)
              | Some k \<Rightarrow>
                  bindE (read_hunk_lines (n + 1) rest) (\<lambda>(ls, eof, m, rest'). Inr ((k, drop 1 line) # ls, eof, m, rest')))))"

definition check_hunk :: "nat \<Rightarrow> string option \<Rightarrow> hunk_line list \<Rightarrow> bool \<Rightarrow> envelope_error + hunk" where
  "check_hunk n anchor ls eof =
     bindE (throw_if (list_all (\<lambda>l. fst l = Context) ls) (AtLine n HunkChangesNothing)) (\<lambda>_.
     bindE (throw_if (anchor = None \<and> list_all (\<lambda>l. fst l = Add) ls \<and> \<not> eof) (AtLine n UnanchoredAdd)) (\<lambda>_.
     Inr \<lparr>hk_line = n, hk_anchor = anchor, hk_lines = ls, hk_eof = eof\<rparr>))"

lemma read_add_lines_length: "read_add_lines n ls = Inr (as, m, rest) \<Longrightarrow> length rest \<le> length ls"
  by (induction n ls arbitrary: as m rest rule: read_add_lines.induct)
    (fastforce simp: error_simps split: if_splits)+

lemma read_hunk_lines_length: "read_hunk_lines n ls = Inr (hs, eof, m, rest) \<Longrightarrow> length rest \<le> length ls"
  by (induction n ls arbitrary: hs eof m rest rule: read_hunk_lines.induct)
    (fastforce simp: error_simps split: if_splits list.splits option.splits)+

lemma bindE_cong [fundef_cong]:
  "m = m' \<Longrightarrow> (\<And>x. m' = Inr x \<Longrightarrow> f x = f' x) \<Longrightarrow> bindE m f = bindE m' f'"
  by (cases m') simp_all

function read_hunks :: "nat \<Rightarrow> string list \<Rightarrow> envelope_error + hunk list \<times> nat \<times> string list" where
  "read_hunks n [] = Inr ([], n, [])"
| "read_hunks n (line # rest) =
     bindE (parse_file_header line n) (\<lambda>header.
     if header \<noteq> None then Inr ([], n, line # rest)
     else if starts_with move_to_prefix line then Inl (AtLine n LateMove)
     else bindE (parse_hunk_header line n) (\<lambda>anchor.
          bindE (read_hunk_lines (n + 1) rest) (\<lambda>(ls, eof, m, rest').
          bindE (check_hunk n anchor ls eof) (\<lambda>h.
          bindE (read_hunks m rest') (\<lambda>(hs, k, rest''). Inr (h # hs, k, rest''))))))"
  by pat_completeness auto

termination read_hunks
  by (relation "measure (\<lambda>(n, ls). length ls)") (auto dest: read_hunk_lines_length)

lemma read_hunks_length: "read_hunks n ls = Inr (hs, m, rest) \<Longrightarrow> length rest \<le> length ls"
proof (induction n ls arbitrary: hs m rest rule: read_hunks.induct)
  case (2 n line ls)
  then show ?case by (fastforce simp: error_simps dest: read_hunk_lines_length split: if_splits)
qed simp

definition read_move :: "nat \<Rightarrow> string list \<Rightarrow> envelope_error + (string \<times> nat) option \<times> nat \<times> string list" where
  "read_move n ls =
     (case ls of
        line # rest \<Rightarrow>
          if starts_with move_to_prefix line then
            bindE (normalize_path_at_line (drop (length move_to_prefix) line) n) (\<lambda>t. Inr (Some (t, n), n + 1, rest))
          else Inr (None, n, ls)
      | [] \<Rightarrow> Inr (None, n, ls))"

lemma read_move_length: "read_move n ls = Inr (mv, m, rest) \<Longrightarrow> length rest \<le> length ls"
  by (auto simp: read_move_def error_simps split: list.splits if_splits)

text \<open>The body of one operation, after its header.\<close>

definition read_body :: "header_kind \<Rightarrow> string \<Rightarrow> nat \<Rightarrow> string list \<Rightarrow> envelope_error + file_op \<times> nat \<times> string list" where
  "read_body k p n ls =
     (case k of
        HAdd \<Rightarrow> bindE (read_add_lines (n + 1) ls) (\<lambda>(added, m, rest). Inr (AddFile p n added, m, rest))
      | HDelete \<Rightarrow>
          (case ls of
             [] \<Rightarrow> Inr (DeleteFile p n, n + 1, [])
           | next_line # _ \<Rightarrow>
               bindE (parse_file_header next_line (n + 1)) (\<lambda>header.
               if header = None then Inl (AtLine (n + 1) DeleteBody) else Inr (DeleteFile p n, n + 1, ls)))
      | HUpdate \<Rightarrow>
          bindE (read_move (n + 1) ls) (\<lambda>(mv, m, rest).
          bindE (read_hunks m rest) (\<lambda>(hs, m', rest').
          bindE (throw_if (mv = None \<and> hs = []) (AtLine n UpdateChangesNothing)) (\<lambda>_.
          Inr (UpdateFile p n mv hs, m', rest')))))"

lemma read_body_length: "read_body k p n ls = Inr (operation, m, rest) \<Longrightarrow> length rest \<le> length ls"
  by (auto simp: read_body_def error_simps split: header_kind.splits list.splits if_splits
      dest!: read_add_lines_length read_hunks_length read_move_length)

function read_operations :: "nat \<Rightarrow> nat \<Rightarrow> string list \<Rightarrow> envelope_error + file_op list" where
  "read_operations k0 n [] = Inr []"
| "read_operations k0 n (line # rest) =
     bindE (parse_file_header line n) (\<lambda>header.
     case header of
       None \<Rightarrow> Inl (AtLine n NoHeader)
     | Some (k, p) \<Rightarrow>
         if k0 = 20 then Inl (AtLine n TooManyOperations)
         else bindE (read_body k p n rest) (\<lambda>(operation, m, rest').
              bindE (read_operations (k0 + 1) m rest') (\<lambda>ops. Inr (operation # ops))))"
  by pat_completeness auto

termination read_operations
  by (relation "measure (\<lambda>(c, n, ls). length ls)") (auto dest: read_body_length)

definition parse_patch_envelope :: "string \<Rightarrow> envelope_error + file_op list" where
  "parse_patch_envelope input =
     (let normalized = normalize_line_endings input;
          body = (if ends_in_newline normalized then butlast normalized else normalized);
          ls = split_char (CHR 10) body
      in bindE (throw_if (ends_in_newline body) (AtLine (length ls) ExtraNewline)) (\<lambda>_.
         bindE (throw_if (hd ls \<noteq> begin_patch) (AtLine 1 NoBegin)) (\<lambda>_.
         bindE (throw_if (last ls \<noteq> end_patch) (AtLine (length ls) NoEnd)) (\<lambda>_.
         bindE (read_operations 0 2 (butlast (tl ls))) (\<lambda>operations.
         bindE (throw_if (operations = []) (AtLine 2 NoOperation)) (\<lambda>_.
         bindE (validate_patch_path_conflicts operations) (\<lambda>_. Inr operations)))))))"

end
