(* ===== verification/Patch_Scan.thy ===== *)
theory Patch_Scan
  imports Patch_Envelope
begin

text \<open>
  The scanner of \<open>tools/patch-envelope.ts\<close>, which reports the files of a patch while the model is still
  writing it, and its agreement with the parser on a complete patch.
\<close>

section \<open>The scanner\<close>

record progress =
  pg_kind :: header_kind
  pg_path :: string
  pg_move :: "string option"
  pg_added :: nat
  pg_deleted :: nat

datatype scan_phase = InBody | BeforeHunk | InHunk | AfterEof

record scan_state =
  sc_file :: progress
  sc_phase :: scan_phase
  sc_has_hunk :: bool
  sc_changed :: bool

type_synonym scan = "progress list \<times> scan_state option"

definition close_current :: "scan_state option \<Rightarrow> bool" where
  "close_current st =
     (case st of
        None \<Rightarrow> True
      | Some st \<Rightarrow>
          \<not> (pg_kind (sc_file st) = HUpdate \<and> \<not> sc_has_hunk st \<and> pg_move (sc_file st) = None)
          \<and> \<not> (sc_phase st = InHunk \<and> \<not> sc_changed st))"

definition open_file :: "header_kind \<Rightarrow> string \<Rightarrow> scan_state" where
  "open_file k p = \<lparr>sc_file = \<lparr>pg_kind = k, pg_path = p, pg_move = None, pg_added = 0, pg_deleted = 0\<rparr>,
     sc_phase = (if k = HUpdate then BeforeHunk else InBody), sc_has_hunk = False, sc_changed = False\<rparr>"

definition scan_body :: "nat \<Rightarrow> string \<Rightarrow> scan_state \<Rightarrow> scan_state option" where
  "scan_body n line st =
     (let f = sc_file st in
      if pg_kind f = HAdd then
        (if starts_with ''+'' line then Some (st\<lparr>sc_file := f\<lparr>pg_added := pg_added f + 1\<rparr>\<rparr>) else None)
      else if pg_kind f = HDelete then None
      else if sc_phase st = BeforeHunk \<and> starts_with move_to_prefix line then
        (if pg_move f \<noteq> None then None
         else case normalize_path_at_line (drop (length move_to_prefix) line) n of
                Inl _ \<Rightarrow> None
              | Inr t \<Rightarrow> Some (st\<lparr>sc_file := f\<lparr>pg_move := Some t\<rparr>\<rparr>))
      else if line = end_of_file then
        (if sc_phase st \<noteq> InHunk \<or> \<not> sc_changed st then None else Some (st\<lparr>sc_phase := AfterEof\<rparr>))
      else if starts_with ''@@'' line then
        (if sc_phase st = AfterEof \<or> sc_phase st = InHunk \<and> \<not> sc_changed st then None
         else case parse_hunk_header line n of
                Inl _ \<Rightarrow> None
              | Inr _ \<Rightarrow> Some (st\<lparr>sc_phase := InHunk, sc_has_hunk := True, sc_changed := False\<rparr>))
      else if sc_phase st \<noteq> InHunk then None
      else if starts_with ''+'' line then Some (st\<lparr>sc_file := f\<lparr>pg_added := pg_added f + 1\<rparr>, sc_changed := True\<rparr>)
      else if starts_with ''-'' line then Some (st\<lparr>sc_file := f\<lparr>pg_deleted := pg_deleted f + 1\<rparr>, sc_changed := True\<rparr>)
      else if starts_with [CHR 32] line then Some st
      else None)"

text \<open>One line; \<open>None\<close> ends the loop.\<close>

definition scan_line :: "nat \<Rightarrow> string \<Rightarrow> scan \<Rightarrow> scan option" where
  "scan_line n line s =
     (if line = end_patch then None
      else case parse_file_header line n of
        Inl _ \<Rightarrow> None
      | Inr (Some (k, p)) \<Rightarrow>
          if close_current (snd s)
          then Some ((case snd s of None \<Rightarrow> fst s | Some st \<Rightarrow> fst s @ [sc_file st]), Some (open_file k p)) else None
      | Inr None \<Rightarrow>
          (case snd s of
             None \<Rightarrow> None
           | Some st \<Rightarrow> map_option (\<lambda>st'. (fst s, Some st')) (scan_body n line st)))"

fun scan_lines :: "nat \<Rightarrow> string list \<Rightarrow> scan \<Rightarrow> scan" where
  "scan_lines n [] s = s"
| "scan_lines n (line # rest) s =
     (case scan_line n line s of None \<Rightarrow> s | Some s' \<Rightarrow> scan_lines (n + 1) rest s')"

definition scan_files :: "scan \<Rightarrow> progress list" where
  "scan_files s = (case snd s of None \<Rightarrow> fst s | Some st \<Rightarrow> fst s @ [sc_file st])"

definition scan_patch_envelope_prefix :: "string \<Rightarrow> progress list" where
  "scan_patch_envelope_prefix input =
     (let normalized = normalize_line_endings input;
          ls = split_char (CHR 10) normalized;
          ls = (if ends_in_newline normalized then ls else butlast ls);
          ls = (if ls \<noteq> [] \<and> last ls = [] then butlast ls else ls)
      in if ls = [] \<or> hd ls \<noteq> begin_patch then [] else scan_files (scan_lines 2 (tl ls) ([], None)))"

section \<open>What the parser has read, as progress\<close>

definition lines_of :: "line_kind \<Rightarrow> hunk_line list \<Rightarrow> nat" where
  "lines_of k ls = length (filter (\<lambda>l. fst l = k) ls)"

fun progress_of :: "file_op \<Rightarrow> progress" where
  "progress_of (AddFile p n ls) = \<lparr>pg_kind = HAdd, pg_path = p, pg_move = None, pg_added = length ls, pg_deleted = 0\<rparr>"
| "progress_of (DeleteFile p n) = \<lparr>pg_kind = HDelete, pg_path = p, pg_move = None, pg_added = 0, pg_deleted = 0\<rparr>"
| "progress_of (UpdateFile p n mv hs) = \<lparr>pg_kind = HUpdate, pg_path = p, pg_move = map_option fst mv,
     pg_added = (\<Sum>h \<leftarrow> hs. lines_of Add (hk_lines h)), pg_deleted = (\<Sum>h \<leftarrow> hs. lines_of Remove (hk_lines h))\<rparr>"

text \<open>Only the last hunk of a file is marked with the end of the file.\<close>

definition eof_last :: "hunk list \<Rightarrow> bool" where
  "eof_last hs \<longleftrightarrow> list_all (\<lambda>h. \<not> hk_eof h) (butlast hs)"

fun op_eof_last :: "file_op \<Rightarrow> bool" where
  "op_eof_last (UpdateFile p n mv hs) = eof_last hs"
| "op_eof_last _ = True"

section \<open>The scanner follows the parser\<close>

lemma starts_with_self [simp]: "starts_with w (w @ s)"
  by (simp add: starts_with_def)

lemma starts_withD: "starts_with w s \<Longrightarrow> s = w @ drop (length w) s"
  unfolding starts_with_def by (metis append_take_drop_id)

lemma starts_with_Cons: "starts_with [c] s \<longleftrightarrow> (\<exists>t. s = c # t)"
  by (cases s) (auto simp: starts_with_def)

lemma starts_with_nth: "starts_with w s \<Longrightarrow> i < length w \<Longrightarrow> s ! i = w ! i"
  unfolding starts_with_def by (metis nth_take)

text \<open>The marks differ in their fifth character.\<close>

lemma header_mark: "header_prefix line = Some r \<Longrightarrow> line ! 4 \<in> {CHR ''A'', CHR ''D'', CHR ''U''}"
  by (auto simp: header_prefix_def add_file_prefix_def delete_file_prefix_def update_file_prefix_def
      dest: starts_with_nth [where i = 4] split: if_splits)

lemma move_mark: "starts_with move_to_prefix line \<Longrightarrow> line ! 4 = CHR ''M''"
  by (auto simp: move_to_prefix_def dest: starts_with_nth [where i = 4])

lemma end_mark: "end_patch ! 4 = CHR ''E''"
  by (simp add: end_patch_def)

lemmas line_marks = begin_patch_def end_patch_def end_of_file_def move_to_prefix_def

lemma line_kind_of_eq:
  "line_kind_of line = Some k \<longleftrightarrow>
     (case k of Context \<Rightarrow> starts_with [CHR 32] line | Remove \<Rightarrow> starts_with ''-'' line | Add \<Rightarrow> starts_with ''+'' line)"
  by (cases line; cases k) (auto simp: line_kind_of_def starts_with_def)

lemma scan_add_lines:
  assumes "read_add_lines n ls = Inr (added, m, rest)" and "pg_kind (sc_file st) = HAdd"
  shows "scan_lines n (ls @ xs) (d, Some st)
    = scan_lines m (rest @ xs) (d, Some (st\<lparr>sc_file := (sc_file st)\<lparr>pg_added := pg_added (sc_file st) + length added\<rparr>\<rparr>))"
  using assms
proof (induction n ls arbitrary: added m rest st rule: read_add_lines.induct)
  case (1 n)
  then show ?case by simp
next
  case (2 n line ls)
  from "2.prems"(1) obtain header where header: "parse_file_header line n = Inr header"
    by (auto simp: error_simps)
  show ?case
  proof (cases header)
    case (Some h)
    with "2.prems" header show ?thesis by auto
  next
    case None
    with "2.prems"(1) header obtain added' where plus: "starts_with ''+'' line"
      and read: "read_add_lines (n + 1) ls = Inr (added', m, rest)" and added: "added = drop 1 line # added'"
      by (auto simp: error_simps split: if_splits)
    have "line \<noteq> end_patch" using plus by (auto simp: end_patch_def starts_with_def)
    then have "scan_line n line (d, Some st)
        = Some (d, Some (st\<lparr>sc_file := (sc_file st)\<lparr>pg_added := pg_added (sc_file st) + 1\<rparr>\<rparr>))"
      using plus "2.prems"(2) header None by (simp add: scan_line_def scan_body_def Let_def)
    with "2.IH" [OF _ _ read, where x = None] plus None added "2.prems"(2) show ?thesis by simp
  qed
qed

definition count_lines :: "hunk_line list \<Rightarrow> bool \<Rightarrow> scan_state \<Rightarrow> scan_state" where
  "count_lines ls eof st = st\<lparr>
     sc_file := (sc_file st)\<lparr>pg_added := pg_added (sc_file st) + lines_of Add ls,
       pg_deleted := pg_deleted (sc_file st) + lines_of Remove ls\<rparr>,
     sc_changed := sc_changed st \<or> \<not> list_all (\<lambda>l. fst l = Context) ls,
     sc_phase := (if eof then AfterEof else sc_phase st)\<rparr>"

lemma scan_hunk_line:
  assumes "parse_file_header line n = Inr None" and "\<not> starts_with ''@@'' line" and "line \<noteq> end_of_file"
    and "line_kind_of line = Some k" and "pg_kind (sc_file st) = HUpdate" and "sc_phase st = InHunk"
  shows "scan_line n line (d, Some st) = Some (d, Some (count_lines [(k, drop 1 line)] False st))"
proof -
  have "line \<noteq> end_patch" using assms(4) by (auto simp: end_patch_def line_kind_of_def)
  moreover have "scan_body n line st = Some (count_lines [(k, drop 1 line)] False st)"
    using assms(2-6)
    by (cases k) (auto simp: line_kind_of_eq scan_body_def Let_def starts_with_Cons count_lines_def lines_of_def)
  ultimately show ?thesis using assms(1) by (simp add: scan_line_def)
qed

lemma count_lines_count [simp]:
  "count_lines ls eof (count_lines [l] False st) = count_lines (l # ls) eof st"
  "count_lines [] False st = st"
  by (auto simp: count_lines_def lines_of_def)

lemma scan_hunk_lines:
  assumes "read_hunk_lines n ls = Inr (hs, eof, m, rest)"
    and "pg_kind (sc_file st) = HUpdate" and "sc_phase st = InHunk"
    and "eof \<Longrightarrow> sc_changed st \<or> \<not> list_all (\<lambda>l. fst l = Context) hs"
  shows "scan_lines n (ls @ xs) (d, Some st) = scan_lines m (rest @ xs) (d, Some (count_lines hs eof st))"
  using assms
proof (induction n ls arbitrary: hs eof m rest st rule: read_hunk_lines.induct)
  case (1 n)
  then show ?case by simp
next
  case (2 n line ls)
  show ?case
  proof (cases "starts_with ''@@'' line \<or> parse_file_header line n \<noteq> Inr None")
    case True
    with "2.prems"(1) have "hs = [] \<and> \<not> eof \<and> m = n \<and> rest = line # ls"
      by (auto simp: error_simps split: if_splits)
    then show ?thesis by simp
  next
    case False
    then have line: "\<not> starts_with ''@@'' line" and header: "parse_file_header line n = Inr None" by simp_all
    show ?thesis
    proof (cases "line = end_of_file")
      case True
      then have "\<not> starts_with move_to_prefix line" by (simp add: line_marks starts_with_def)
      with True "2.prems"(1) line header have r: "hs = []" "eof" "m = n + 1" "rest = ls"
        by (auto simp: error_simps split: if_splits list.splits)
      with "2.prems"(4) have "sc_changed st" by simp
      moreover have "line \<noteq> end_patch" using True by (simp add: line_marks)
      ultimately have "scan_line n line (d, Some st) = Some (d, Some (count_lines [] True st))"
        using header "2.prems"(2,3) True by (simp add: scan_line_def scan_body_def count_lines_def lines_of_def Let_def)
      with r show ?thesis by simp
    next
      case no_eof: False
      with "2.prems"(1) line header obtain k hs' where k: "line_kind_of line = Some k"
        and read: "read_hunk_lines (n + 1) ls = Inr (hs', eof, m, rest)" and hs: "hs = (k, drop 1 line) # hs'"
        and move: "\<not> starts_with move_to_prefix line"
        by (auto simp: error_simps split: if_splits option.splits)
      let ?st = "count_lines [(k, drop 1 line)] False st"
      have st: "pg_kind (sc_file ?st) = HUpdate" "sc_phase ?st = InHunk"
        "eof \<Longrightarrow> sc_changed ?st \<or> \<not> list_all (\<lambda>l. fst l = Context) hs'"
        using "2.prems"(2-4) hs by (auto simp: count_lines_def)
      have "scan_lines (n + 1) (ls @ xs) (d, Some ?st) = scan_lines m (rest @ xs) (d, Some (count_lines hs' eof ?st))"
        by (rule "2.IH" [OF line _ move no_eof k read st, where x = None]) simp_all
      with scan_hunk_line [OF header line no_eof k "2.prems"(2,3)] hs show ?thesis by simp
    qed
  qed
qed

lemma scan_hunk_header:
  assumes "parse_file_header line n = Inr None" and "parse_hunk_header line n = Inr anchor"
    and "\<not> starts_with move_to_prefix line" and "pg_kind (sc_file st) = HUpdate"
    and "sc_phase st = BeforeHunk \<or> sc_phase st = InHunk \<and> sc_changed st"
  shows "scan_line n line (d, Some st) = Some (d, Some (st\<lparr>sc_phase := InHunk, sc_has_hunk := True, sc_changed := False\<rparr>))"
proof -
  have "starts_with ''@@'' line" using assms(2) by (auto simp: parse_hunk_header_def starts_with_def split: if_splits)
  moreover from this have "line \<noteq> end_patch" "line \<noteq> end_of_file" by (auto simp: line_marks starts_with_def)
  ultimately show ?thesis using assms by (auto simp: scan_line_def scan_body_def Let_def)
qed

lemma check_hunkD:
  "check_hunk n anchor ls eof = Inr h \<Longrightarrow> \<not> list_all (\<lambda>l. fst l = Context) ls \<and> hk_lines h = ls \<and> hk_eof h = eof \<and> hk_line h = n"
  by (auto simp: check_hunk_def error_simps)

definition add_counts :: "hunk list \<Rightarrow> progress \<Rightarrow> progress" where
  "add_counts hs f = f\<lparr>pg_added := pg_added f + (\<Sum>h \<leftarrow> hs. lines_of Add (hk_lines h)),
     pg_deleted := pg_deleted f + (\<Sum>h \<leftarrow> hs. lines_of Remove (hk_lines h))\<rparr>"

lemma scan_hunks:
  assumes "read_hunks n ls = Inr (hs, m, rest)" and "pg_kind (sc_file st) = HUpdate" and "eof_last hs"
    and "sc_phase st = BeforeHunk \<or> sc_phase st = InHunk \<and> sc_changed st"
  shows "\<exists>st'. scan_lines n (ls @ xs) (d, Some st) = scan_lines m (rest @ xs) (d, Some st')
     \<and> sc_file st' = add_counts hs (sc_file st) \<and> (hs \<noteq> [] \<or> sc_has_hunk st \<longrightarrow> sc_has_hunk st')
     \<and> (sc_phase st' = InHunk \<longrightarrow> sc_changed st')"
  using assms
proof (induction n ls arbitrary: hs m rest st rule: read_hunks.induct)
  case (1 n)
  then show ?case by (auto simp: add_counts_def intro!: exI [of _ st])
next
  case (2 n line ls)
  show ?case
  proof (cases "parse_file_header line n = Inr None")
    case False
    with "2.prems"(1) have "hs = [] \<and> m = n \<and> rest = line # ls" by (auto simp: error_simps split: if_splits)
    with "2.prems"(4) show ?thesis by (auto simp: add_counts_def intro!: exI [of _ st])
  next
    case header: True
    with "2.prems"(1) obtain anchor ls' eof j rest' h hs' where move: "\<not> starts_with move_to_prefix line"
      and anchor: "parse_hunk_header line n = Inr anchor" and lines: "read_hunk_lines (n + 1) ls = Inr (ls', eof, j, rest')"
      and h: "check_hunk n anchor ls' eof = Inr h" and more: "read_hunks j rest' = Inr (hs', m, rest)" and hs: "hs = h # hs'"
      by (auto simp: error_simps split: if_splits)
    note hD = check_hunkD [OF h]
    let ?st = "st\<lparr>sc_phase := InHunk, sc_has_hunk := True, sc_changed := False\<rparr>"
    have "scan_lines (n + 1) (ls @ xs) (d, Some ?st) = scan_lines j (rest' @ xs) (d, Some (count_lines ls' eof ?st))"
      using hD "2.prems"(2) by (intro scan_hunk_lines [OF lines]) simp_all
    with scan_hunk_header [OF header anchor move "2.prems"(2,4)]
    have first: "scan_lines n ((line # ls) @ xs) (d, Some st) = scan_lines j (rest' @ xs) (d, Some (count_lines ls' eof ?st))"
      by simp
    have counted: "sc_file (count_lines ls' eof ?st) = add_counts [h] (sc_file st)"
      using hD by (simp add: count_lines_def add_counts_def)
    have changed: "sc_changed (count_lines ls' eof ?st)" "sc_has_hunk (count_lines ls' eof ?st)"
      using hD by (simp_all add: count_lines_def)
    show ?thesis
    proof (cases "hs' = []")
      case True
      have "read_hunks j rest' = Inr ([], m, rest)" using more True by simp
      then have "m = j \<and> rest = rest'" by (cases rest') (auto simp: error_simps split: if_splits)
      with first counted changed True hs show ?thesis by (intro exI [of _ "count_lines ls' eof ?st"]) simp
    next
      case False
      with "2.prems"(3) hs hD have "\<not> eof" "eof_last hs'" by (simp_all add: eof_last_def)
      then have "\<exists>st'. scan_lines j (rest' @ xs) (d, Some (count_lines ls' eof ?st)) = scan_lines m (rest @ xs) (d, Some st')
          \<and> sc_file st' = add_counts hs' (sc_file (count_lines ls' eof ?st))
          \<and> (hs' \<noteq> [] \<or> sc_has_hunk (count_lines ls' eof ?st) \<longrightarrow> sc_has_hunk st')
          \<and> (sc_phase st' = InHunk \<longrightarrow> sc_changed st')"
        using "2.prems"(2) changed
        by (intro "2.IH" [OF header _ move anchor lines refl refl refl h more])
          (simp_all add: count_lines_def counted)
      with first counted changed show ?thesis
        by (auto simp: hs add_counts_def ac_simps)
    qed
  qed
qed

lemma scan_open:
  assumes "parse_file_header line n = Inr (Some (k, p))" and "close_current st"
  shows "scan_line n line (d, st) = Some (scan_files (d, st), Some (open_file k p))"
proof -
  have "line \<noteq> end_patch" using assms(1) header_mark end_mark
    by (force simp: parse_file_header_def split: option.splits)
  with assms show ?thesis by (cases st) (simp_all add: scan_line_def scan_files_def)
qed

lemma scan_op_body:
  assumes "read_body k p n ls = Inr (operation, m, rest)" and "op_eof_last operation"
  shows "\<exists>st'. scan_lines (n + 1) (ls @ xs) (d, Some (open_file k p)) = scan_lines m (rest @ xs) (d, Some st')
     \<and> sc_file st' = progress_of operation \<and> close_current (Some st')"
proof (cases k)
  case HAdd
  with assms(1) obtain added where added: "read_add_lines (n + 1) ls = Inr (added, m, rest)" and op': "operation = AddFile p n added"
    by (auto simp: read_body_def error_simps)
  let ?st = "open_file HAdd p"
  have "scan_lines (n + 1) (ls @ xs) (d, Some ?st)
      = scan_lines m (rest @ xs) (d, Some (?st\<lparr>sc_file := (sc_file ?st)\<lparr>pg_added := pg_added (sc_file ?st) + length added\<rparr>\<rparr>))"
    by (rule scan_add_lines [OF added]) (simp add: open_file_def)
  then show ?thesis unfolding HAdd op'
    by (intro exI conjI) (assumption, simp_all add: open_file_def close_current_def)
next
  case HDelete
  with assms(1) have "operation = DeleteFile p n" "m = n + 1" "rest = ls"
    by (auto simp: read_body_def error_simps split: list.splits if_splits)
  then show ?thesis unfolding HDelete
    by (intro exI [of _ "open_file HDelete p"]) (simp add: open_file_def close_current_def)
next
  case HUpdate
  with assms(1) obtain mv j rest' hs where mv: "read_move (n + 1) ls = Inr (mv, j, rest')"
    and hs: "read_hunks j rest' = Inr (hs, m, rest)" and some: "mv \<noteq> None \<or> hs \<noteq> []" and op': "operation = UpdateFile p n mv hs"
    by (auto simp: read_body_def error_simps)
  let ?f = "\<lparr>pg_kind = HUpdate, pg_path = p, pg_move = map_option fst mv, pg_added = 0, pg_deleted = 0\<rparr>"
  let ?st = "\<lparr>sc_file = ?f, sc_phase = BeforeHunk, sc_has_hunk = False, sc_changed = False\<rparr>"
  have moved: "scan_lines (n + 1) (ls @ xs) (d, Some (open_file HUpdate p)) = scan_lines j (rest' @ xs) (d, Some ?st)"
  proof (cases mv)
    case None
    with mv have "j = n + 1 \<and> rest' = ls" by (auto simp: read_move_def error_simps split: list.splits if_splits)
    with None show ?thesis by (simp add: open_file_def)
  next
    case (Some t)
    with mv obtain line where line: "ls = line # rest'" "starts_with move_to_prefix line" "j = n + 2"
      "normalize_path_at_line (drop (length move_to_prefix) line) (n + 1) = Inr (fst t)"
      by (auto simp: read_move_def error_simps split: list.splits if_splits)
    from line(2) have "line \<noteq> end_patch" "header_prefix line = None"
      using move_mark header_mark end_mark by (force, cases "header_prefix line") force+
    with line Some have "scan_line (n + 1) line (d, Some (open_file HUpdate p)) = Some (d, Some ?st)"
      by (simp add: scan_line_def parse_file_header_def scan_body_def Let_def open_file_def)
    with line show ?thesis by simp
  qed
  from assms(2) op' have "eof_last hs" by simp
  then obtain st' where "scan_lines j (rest' @ xs) (d, Some ?st) = scan_lines m (rest @ xs) (d, Some st')"
    "sc_file st' = add_counts hs ?f" "hs \<noteq> [] \<Longrightarrow> sc_has_hunk st'" "sc_phase st' = InHunk \<Longrightarrow> sc_changed st'"
    using scan_hunks [OF hs, of ?st xs d] by auto
  with moved some show ?thesis unfolding HUpdate op'
    by (intro exI [of _ st']) (auto simp: add_counts_def close_current_def)
qed

lemma scan_operations:
  assumes "read_operations k0 n ls = Inr ops" and "list_all op_eof_last ops" and "close_current st"
  shows "\<exists>n' s. scan_lines n (ls @ xs) (d, st) = scan_lines n' xs s \<and> scan_files s = scan_files (d, st) @ map progress_of ops"
  using assms
proof (induction k0 n ls arbitrary: ops d st rule: read_operations.induct)
  case (1 k0 n)
  then show ?case by auto
next
  case (2 k0 n line ls)
  from "2.prems"(1) obtain h where h: "parse_file_header line n = Inr h"
    by (auto simp: error_simps)
  with "2.prems"(1) obtain k p where "h = Some (k, p)" by (cases h) auto
  with h have header: "parse_file_header line n = Inr (Some (k, p))" by simp
  with "2.prems"(1) obtain operation m rest ops' where few: "k0 \<noteq> 20" and body: "read_body k p n ls = Inr (operation, m, rest)"
    and more: "read_operations (k0 + 1) m rest = Inr ops'" and ops: "ops = operation # ops'"
    by (auto simp: error_simps split: if_splits)
  from "2.prems"(2) ops have eof: "op_eof_last operation" "list_all op_eof_last ops'" by simp_all
  obtain st' where st': "scan_lines (n + 1) (ls @ xs) (scan_files (d, st), Some (open_file k p))
      = scan_lines m (rest @ xs) (scan_files (d, st), Some st')" "sc_file st' = progress_of operation" "close_current (Some st')"
    using scan_op_body [OF body eof(1)] by blast
  from "2.IH" [OF header refl refl few body refl refl more eof(2) st'(3), of "scan_files (d, st)"]
    scan_open [OF header "2.prems"(3)] st'(1,2)
  show ?case by (simp add: ops scan_files_def)
qed

lemma split_char_append: "split_char d (xs @ d # ys) = split_char d xs @ split_char d ys"
proof (induction xs)
  case Nil
  then show ?case by simp
next
  case (Cons x xs)
  have "split_char d xs \<noteq> []" by (induction xs) (auto split: list.splits)
  with Cons show ?case by (auto split: list.splits)
qed

lemma scan_line_empty: "scan_line n [] s = None"
  by (auto simp: scan_line_def line_marks parse_file_header_def header_prefix_def add_file_prefix_def delete_file_prefix_def
      update_file_prefix_def starts_with_def scan_body_def Let_def split: option.split)

lemma scan_lines_drop_empty: "scan_lines n (ls @ [[]]) s = scan_lines n ls s"
  by (induction ls arbitrary: n s) (auto simp: scan_line_empty split: option.split)

lemma scan_line_end: "scan_line n end_patch s = None"
  by (simp add: scan_line_def)

lemma parse_patch_envelopeE:
  assumes "parse_patch_envelope input = Inr ops"
  obtains body where "normalize_line_endings input = body \<or> normalize_line_endings input = body @ [CHR 10]"
    and "\<not> ends_in_newline body" and "split_char (CHR 10) body = begin_patch # butlast (tl (split_char (CHR 10) body)) @ [end_patch]"
    and "read_operations 0 2 (butlast (tl (split_char (CHR 10) body))) = Inr ops" and "ops \<noteq> []"
    and "validate_patch_path_conflicts ops = Inr ()"
proof -
  define nl where "nl = normalize_line_endings input"
  define body where "body = (if ends_in_newline nl then butlast nl else nl)"
  let ?ls = "split_char (CHR 10) body"
  from assms have p: "\<not> ends_in_newline body" "hd ?ls = begin_patch" "last ?ls = end_patch"
    "read_operations 0 2 (butlast (tl ?ls)) = Inr ops" "ops \<noteq> []" "validate_patch_path_conflicts ops = Inr ()"
    by (auto simp: parse_patch_envelope_def Let_def error_simps nl_def body_def)
  have "nl = body \<or> nl = body @ [CHR 10]"
    by (auto simp: body_def ends_in_newline_def) (metis append_butlast_last_id)
  moreover have "?ls = begin_patch # butlast (tl ?ls) @ [end_patch]"
  proof -
    have "?ls \<noteq> []" by (induction body) (auto split: list.splits)
    then obtain l ls where ls: "?ls = l # ls" by (cases ?ls) auto
    with p(2,3) have "ls \<noteq> []" by (auto simp: begin_patch_def end_patch_def)
    then have "ls = butlast ls @ [last ls]" by simp
    with ls p(2,3) \<open>ls \<noteq> []\<close> show ?thesis by simp
  qed
  ultimately show ?thesis using p that by (simp add: nl_def)
qed


section \<open>What the parser accepts\<close>

definition safe_path :: "string \<Rightarrow> bool" where
  "safe_path p \<longleftrightarrow> p \<noteq> [] \<and> CHR 0x00 \<notin> set p \<and> ''..'' \<notin> set (segments p)"

lemma set_split_char: "w \<in> set (split_char d s) \<Longrightarrow> set w \<subseteq> set s \<and> d \<notin> set w"
  by (induction s arbitrary: w) (fastforce split: if_splits list.splits)+

lemma split_char_id: "d \<notin> set w \<Longrightarrow> split_char d w = [w]"
  by (induction w) auto

lemma split_char_not_Nil [simp]: "split_char d s \<noteq> []"
  by (induction s) (auto split: list.splits)

text \<open>The segments of a path whose separators may be of either kind.\<close>

lemma segments_slash_join:
  "segments (slash_path (join_with ''/'' ws)) = (if ws = [] then [[]] else concat (map (\<lambda>w. segments (slash_path w)) ws))"
  by (induction "''/''" ws rule: join_with.induct) (simp_all add: segments_def slash_path_def split_char_append)

lemma join_with_Cons_char: "ws \<noteq> [] \<Longrightarrow> join_with sep ((c # hd ws) # tl ws) = c # join_with sep ws"
  by (cases ws rule: list.exhaust; cases "tl ws") auto

lemma join_with_empty: "ws \<noteq> [] \<Longrightarrow> join_with sep ([] # ws) = sep @ join_with sep ws"
  by (cases ws) auto

lemma join_split: "join_with ''/'' (segments s) = s"
  unfolding segments_def
proof (induction s)
  case (Cons c s)
  obtain w ws where w: "split_char (CHR ''/'') s = w # ws" by (cases "split_char (CHR ''/'') s") auto
  with Cons join_with_Cons_char [of "w # ws" "''/''" c] join_with_empty [of "w # ws" "''/''"] show ?case by auto
qed simp

lemma set_normalize_segments:
  "set (normalize_segments climb stack segs) \<subseteq> set stack \<union> set segs"
  by (induction climb stack segs rule: normalize_segments.induct) (auto split: list.splits if_splits)

lemma slash_path_id: "CHR 92 \<notin> set p \<Longrightarrow> slash_path p = p"
  by (induction p) (auto simp: slash_path_def)

lemma dots_posix_normalize:
  assumes "''..'' \<notin> set (segments (slash_path p))"
  shows "''..'' \<notin> set (segments (slash_path (posix_normalize p)))"
proof -
  let ?segs = "normalize_segments (\<not> is_absolute p) [] (segments p)"
  have "segments (slash_path p) = concat (map (\<lambda>w. segments (slash_path w)) (segments p))"
    using segments_slash_join [of "segments p"] join_split [of p] by (simp add: segments_def)
  with assms have "''..'' \<notin> set (segments (slash_path w))" if "w \<in> set ?segs" for w
    using that set_normalize_segments [of "\<not> is_absolute p" "[]" "segments p"] by auto
  then have body: "''..'' \<notin> set (segments (slash_path (join_with ''/'' ?segs)))"
    unfolding segments_slash_join by auto
  have wrap: "''..'' \<notin> set (segments (slash_path ((if a then ''/'' else []) @ b @ (if t then ''/'' else []))))"
    if "''..'' \<notin> set (segments (slash_path b))" for a t b
    using that split_char_append [of "CHR ''/''" "slash_path b" "[]"]
    by (auto simp: segments_def slash_path_def)
  show ?thesis
    using wrap [OF body] by (auto simp: posix_normalize_def Let_def segments_def slash_path_def)
qed

lemma set_join_with: "set (join_with sep ws) \<subseteq> set sep \<union> (\<Union>w \<in> set ws. set w)"
  by (induction sep ws rule: join_with.induct) auto

lemma set_posix_normalize: "set (posix_normalize p) \<subseteq> set p \<union> {CHR ''/'', CHR ''.''}"
proof -
  have "set w \<subseteq> set p" if "w \<in> set (normalize_segments (\<not> is_absolute p) [] (segments p))" for w
    using that set_normalize_segments [of "\<not> is_absolute p" "[]" "segments p"] set_split_char
    by (fastforce simp: segments_def)
  then have "set (join_with ''/'' (normalize_segments (\<not> is_absolute p) [] (segments p))) \<subseteq> set p \<union> {CHR ''/''}"
    using set_join_with [of "''/''" "normalize_segments (\<not> is_absolute p) [] (segments p)"] by fastforce
  then show ?thesis by (auto simp: posix_normalize_def Let_def)
qed

lemma normalized_path_safe:
  assumes "normalize_patch_path raw = Inr p"
  shows "safe_path p"
proof -
  let ?t = "js_trim raw"
  have t: "CHR 0x00 \<notin> set ?t" "''..'' \<notin> set (segments (slash_path ?t))" and ne: "p \<noteq> []"
    and p: "p = (if is_absolute ?t then slash_path (posix_normalize ?t) else posix_normalize (slash_path ?t))"
    using assms by (auto simp: normalize_patch_path_def Let_def split: if_splits)
  have slashes: "slash_path (slash_path s) = slash_path s" "CHR 92 \<notin> set (slash_path s)" for s
    by (induction s) (auto simp: slash_path_def)
  show ?thesis
  proof (cases "is_absolute ?t")
    case True
    have "CHR 0x00 \<notin> set (posix_normalize ?t)" using t(1) set_posix_normalize [of ?t] by auto
    then have "CHR 0x00 \<notin> set (slash_path (posix_normalize ?t))" by (auto simp: slash_path_def split: if_splits)
    with True ne p dots_posix_normalize [OF t(2)] show ?thesis by (simp add: safe_path_def)
  next
    case False
    have "CHR 0x00 \<notin> set (slash_path ?t)" using t(1) by (auto simp: slash_path_def split: if_splits)
    then have null: "CHR 0x00 \<notin> set p" using False p set_posix_normalize [of "slash_path ?t"] by auto
    have "CHR 92 \<notin> set p" using False p slashes(2) [of ?t] set_posix_normalize [of "slash_path ?t"] by auto
    moreover have "''..'' \<notin> set (segments (slash_path p))"
      using False p dots_posix_normalize [of "slash_path ?t"] t(2) slashes(1) by simp
    ultimately show ?thesis using null ne slash_path_id by (simp add: safe_path_def)
  qed
qed

definition hunk_ok :: "hunk \<Rightarrow> bool" where
  "hunk_ok h \<longleftrightarrow> \<not> list_all (\<lambda>l. fst l = Context) (hk_lines h) \<and> hk_anchor h \<noteq> Some []
     \<and> (hk_anchor h = None \<and> list_all (\<lambda>l. fst l = Add) (hk_lines h) \<longrightarrow> hk_eof h)"

definition op_ok :: "file_op \<Rightarrow> bool" where
  "op_ok operation \<longleftrightarrow> safe_path (op_path operation) \<and> (case op_move operation of None \<Rightarrow> True | Some t \<Rightarrow> safe_path (fst t))
     \<and> (case operation of UpdateFile _ _ mv hs \<Rightarrow> (mv \<noteq> None \<or> hs \<noteq> []) \<and> list_all hunk_ok hs | _ \<Rightarrow> True)"

definition move_targets :: "file_op list \<Rightarrow> string list" where
  "move_targets ops = map fst (List.map_filter op_move ops)"

text \<open>The files that a patch creates.\<close>

definition created :: "file_op list \<Rightarrow> string list" where
  "created ops = concat (map (\<lambda>operation. (case operation of AddFile p _ _ \<Rightarrow> [p] | UpdateFile _ _ (Some t) _ \<Rightarrow> [fst t] | _ \<Rightarrow> [])) ops)"

lemma header_safe: "parse_file_header line n = Inr (Some (k, p)) \<Longrightarrow> safe_path p"
  by (auto simp: parse_file_header_def normalize_path_at_line_def error_simps normalized_path_safe split: option.splits sum.splits)

lemma check_hunk_ok:
  "check_hunk n anchor hl eof = Inr h \<Longrightarrow> parse_hunk_header line n = Inr anchor \<Longrightarrow> hunk_ok h"
  by (auto simp: check_hunk_def parse_hunk_header_def hunk_ok_def error_simps Let_def split: if_splits)

lemma read_hunks_ok: "read_hunks n ls = Inr (hs, m, rest) \<Longrightarrow> list_all hunk_ok hs"
proof (induction n ls arbitrary: hs m rest rule: read_hunks.induct)
  case (2 n line ls)
  show ?case
  proof (cases "parse_file_header line n = Inr None")
    case True
    with "2.prems" obtain anchor ls' eof j rest' h hs' where move: "\<not> starts_with move_to_prefix line"
      and anchor: "parse_hunk_header line n = Inr anchor" and lines: "read_hunk_lines (n + 1) ls = Inr (ls', eof, j, rest')"
      and h: "check_hunk n anchor ls' eof = Inr h" and more: "read_hunks j rest' = Inr (hs', m, rest)" and hs: "hs = h # hs'"
      by (auto simp: error_simps split: if_splits)
    from "2.IH" [OF True _ move anchor lines refl refl refl h more] check_hunk_ok [OF h anchor] hs show ?thesis by simp
  qed (use "2.prems" in \<open>auto simp: error_simps split: if_splits\<close>)
qed simp

lemma read_move_ok: "read_move n ls = Inr (mv, m, rest) \<Longrightarrow> (case mv of None \<Rightarrow> True | Some t \<Rightarrow> safe_path (fst t))"
  by (auto simp: read_move_def normalize_path_at_line_def error_simps
      split: list.splits if_splits sum.splits dest: normalized_path_safe)

lemma read_body_ok:
  assumes "read_body k p n ls = Inr (operation, m, rest)" and "safe_path p"
  shows "op_ok operation"
proof (cases k)
  case HUpdate
  with assms(1) obtain mv j rest' hs where "read_move (n + 1) ls = Inr (mv, j, rest')"
    and "read_hunks j rest' = Inr (hs, m, rest)" and "mv \<noteq> None \<or> hs \<noteq> []" and "operation = UpdateFile p n mv hs"
    by (auto simp: read_body_def error_simps)
  with assms(2) show ?thesis by (auto simp: op_ok_def dest: read_hunks_ok read_move_ok)
qed (use assms in \<open>auto simp: read_body_def op_ok_def error_simps split: list.splits if_splits\<close>)

lemma read_operations_ok:
  "read_operations k0 n ls = Inr ops \<Longrightarrow> k0 \<le> 20 \<Longrightarrow> list_all op_ok ops \<and> length ops + k0 \<le> 20"
proof (induction k0 n ls arbitrary: ops rule: read_operations.induct)
  case (2 k0 n line ls)
  from "2.prems"(1) obtain h where h: "parse_file_header line n = Inr h" by (auto simp: error_simps)
  with "2.prems"(1) obtain k p where "h = Some (k, p)" by (cases h) auto
  with h have header: "parse_file_header line n = Inr (Some (k, p))" by simp
  with "2.prems"(1) obtain operation m rest ops' where few: "k0 \<noteq> 20" and body: "read_body k p n ls = Inr (operation, m, rest)"
    and more: "read_operations (k0 + 1) m rest = Inr ops'" and ops: "ops = operation # ops'"
    by (auto simp: error_simps split: if_splits)
  have "k0 + 1 \<le> 20" using few "2.prems"(2) by simp
  from "2.IH" [OF header refl refl few body refl refl more this] read_body_ok [OF body header_safe [OF header]]
  show ?case by (simp add: ops)
qed simp

lemma note_operationD:
  assumes "note_operation s operation = Inr s'"
    and "distinct (ps_sources s)" "distinct (ps_moves s)"
  shows "ps_sources s' = ps_sources s @ [op_path operation] \<and> ps_moves s' = ps_moves s @ move_targets [operation]
     \<and> map fst (ps_targets s') = map fst (ps_targets s) @ created [operation]
     \<and> distinct (ps_sources s') \<and> distinct (ps_moves s')"
  using assms
  by (cases operation)
    (auto simp: note_operation_def Let_def error_simps move_targets_def created_def List.map_filter_simps split: option.splits)

lemma note_operations:
  assumes "foldE note_operation s ops = Inr s'" and "distinct (ps_sources s)" "distinct (ps_moves s)"
  shows "ps_sources s' = ps_sources s @ map op_path ops \<and> ps_moves s' = ps_moves s @ move_targets ops
     \<and> map fst (ps_targets s') = map fst (ps_targets s) @ created ops
     \<and> distinct (ps_sources s') \<and> distinct (ps_moves s')"
  using assms
proof (induction ops arbitrary: s)
  case Nil
  then show ?case by (simp add: move_targets_def created_def List.map_filter_simps)
next
  case (Cons operation ops)
  then obtain s1 where s1: "note_operation s operation = Inr s1" "foldE note_operation s1 ops = Inr s'"
    by (auto simp: error_simps)
  have more: "move_targets (operation # ops) = move_targets [operation] @ move_targets ops"
    "created (operation # ops) = created [operation] @ created ops"
    by (simp_all add: move_targets_def created_def List.map_filter_simps split: option.splits)
  note first = note_operationD [OF s1(1) Cons.prems(2,3)]
  then have "distinct (ps_sources s1)" "distinct (ps_moves s1)" by blast+
  from first Cons.IH [OF s1(2) this] show ?case unfolding more by (elim conjE) (simp del: distinct_append)
qed

lemma check_ancestors_sorted:
  "check_ancestors ts = Inr () \<Longrightarrow> sorted_wrt (\<lambda>a b. \<not> is_ancestor_path a b \<and> \<not> is_ancestor_path b a) (map fst ts)"
  by (induction ts rule: check_ancestors.induct) (auto simp: error_simps foldE_throw_if)

text \<open>
  What the parser accepts. A patch has one to twenty operations; every path is normalised, not empty
  and holds neither a null byte nor a segment \<open>..\<close>; every hunk changes something, and a hunk that only
  adds has an anchor or the end of the file; no file is operated on twice, no move target is another
  operation's file or target, and no created file lies below another.
\<close>

theorem parsed_patch_ok:
  assumes "parse_patch_envelope input = Inr ops"
  shows "ops \<noteq> [] \<and> length ops \<le> 20 \<and> list_all op_ok ops \<and> distinct (map op_path ops @ move_targets ops)
     \<and> sorted_wrt (\<lambda>a b. \<not> is_ancestor_path a b \<and> \<not> is_ancestor_path b a) (created ops)"
  using assms
proof (rule parse_patch_envelopeE)
  fix body
  assume read: "read_operations 0 2 (butlast (tl (split_char (CHR 10) body))) = Inr ops" and ne: "ops \<noteq> []"
    and valid: "validate_patch_path_conflicts ops = Inr ()"
  from valid obtain s where s: "foldE note_operation \<lparr>ps_sources = [], ps_moves = [], ps_targets = []\<rparr> ops = Inr s"
    and moves: "foldE (\<lambda>_ operation. check_move_source (ps_sources s) operation) () ops = Inr ()"
    and anc: "check_ancestors (ps_targets s) = Inr ()"
    by (auto simp: validate_patch_path_conflicts_def error_simps)
  from note_operations [OF s] have st: "ps_sources s = map op_path ops" "ps_moves s = move_targets ops"
    "map fst (ps_targets s) = created ops" "distinct (map op_path ops)" "distinct (move_targets ops)" by auto
  have "t \<notin> set (map op_path ops)" if "t \<in> set (move_targets ops)" for t
  proof -
    from that obtain operation n where "operation \<in> set ops" "op_move operation = Some (t, n)"
      by (auto simp: move_targets_def List.map_filter_def)
    with moves have "check_move_source (ps_sources s) operation = Inr ()" by (simp add: foldE_unit_eq)
    with \<open>op_move operation = Some (t, n)\<close> st(1) show ?thesis by (simp add: check_move_source_def error_simps)
  qed
  with st(4,5) have "distinct (map op_path ops @ move_targets ops)" by auto
  with ne read_operations_ok [OF read] check_ancestors_sorted [OF anc] st(3) show ?thesis by simp
qed

end
