(* ===== verification/Patch_Hunks.thy ===== *)
theory Patch_Hunks
  imports Patch_Envelope "HOL-Library.Sublist"
begin

text \<open>
  The text part of \<open>tools/apply-patch.ts\<close>: lines and line endings, the search for the place of a hunk,
  the replacement of its lines, and the counts that the summary of a patch reports.
\<close>

section \<open>Lines of a text\<close>

fun crlf_to_lf :: "string \<Rightarrow> string" where
  "crlf_to_lf (c # d # cs) = (if c = CHR 13 \<and> d = CHR 10 then CHR 10 # crlf_to_lf cs else c # crlf_to_lf (d # cs))"
| "crlf_to_lf cs = cs"

definition split_text_lines :: "string \<Rightarrow> string list" where
  "split_text_lines s =
     (if s = [] then []
      else let ls = split_char (CHR 10) s in if last ls = [] then butlast ls else ls)"

definition lines_to_text :: "string list \<Rightarrow> string \<Rightarrow> string" where
  "lines_to_text ls newline = (if ls = [] then [] else join_with newline ls @ newline)"

definition text_line_count :: "string \<Rightarrow> nat" where
  "text_line_count s = (if s = [] then 0 else length (split_text_lines (crlf_to_lf s)))"

text \<open>The table of \<open>lineDiffStats\<close>, row by row from the last; a row is filled from its end.\<close>

fun diff_row :: "'a \<Rightarrow> 'a list \<Rightarrow> nat list \<Rightarrow> nat list" where
  "diff_row x [] below = [0]"
| "diff_row x (y # ys) below =
     (let rest = diff_row x ys (tl below)
      in (if x = y then hd (tl below) + 1 else max (hd below) (hd rest)) # rest)"

definition diff_table :: "'a list \<Rightarrow> 'a list \<Rightarrow> nat list" where
  "diff_table xs ys = foldr (\<lambda>x below. diff_row x ys below) xs (replicate (length ys + 1) 0)"

definition line_diff_stats :: "string \<Rightarrow> string \<Rightarrow> nat \<times> nat" where
  "line_diff_stats before after =
     (let before_lines = split_text_lines (crlf_to_lf before);
          after_lines = split_text_lines (crlf_to_lf after);
          common = hd (diff_table before_lines after_lines)
      in (length after_lines - common, length before_lines - common))"

section \<open>Errors\<close>

datatype patch_error =
    Envelope envelope_error
  | BadPatchPath path_fault
  | EscapesWorkspace string
  | NamesWorkspace string
  | CannotInspect string
  | SymbolicLink string
  | ParentNotDirectory string
  | NotRegularFile "string list"
  | AlreadyExists string
  | DoesNotExist string
  | MoveTargetExists string
  | BinaryFile string
  | LoneCarriageReturn string
  | MixedLineEndings string
  | HunkNotFound string nat
  | IoError string
  | Aborted
  | DeleteVerification "string list"
  | WriteVerification "string list"
  | RollbackFailed patch_error "string list list"

section \<open>Line endings\<close>

fun lone_return :: "string \<Rightarrow> bool" where
  "lone_return [] = False"
| "lone_return [c] = (c = CHR 13)"
| "lone_return (c # d # cs) = (c = CHR 13 \<and> d \<noteq> CHR 10 \<or> lone_return (d # cs))"

fun has_crlf :: "string \<Rightarrow> bool" where
  "has_crlf (c # d # cs) = (c = CHR 13 \<and> d = CHR 10 \<or> has_crlf (d # cs))"
| "has_crlf cs = False"

fun drop_crlf :: "string \<Rightarrow> string" where
  "drop_crlf (c # d # cs) = (if c = CHR 13 \<and> d = CHR 10 then drop_crlf cs else c # drop_crlf (d # cs))"
| "drop_crlf cs = cs"

definition detect_newline :: "string \<Rightarrow> string \<Rightarrow> patch_error + string \<times> string" where
  "detect_newline s rel =
     bindE (throw_if (lone_return s) (LoneCarriageReturn rel)) (\<lambda>_.
     bindE (throw_if (has_crlf s \<and> CHR 10 \<in> set (drop_crlf s)) (MixedLineEndings rel)) (\<lambda>_.
     Inr (crlf_to_lf s, if has_crlf s then [CHR 13, CHR 10] else [CHR 10])))"

section \<open>The place of a hunk\<close>

text \<open>Of the characters that \<open>normalizeUnicodeMatch\<close> rewrites only the non-breaking space is below 256.\<close>

definition normalize_unicode_match :: "string \<Rightarrow> string" where
  "normalize_unicode_match s = map (\<lambda>c. if c = CHR 0xA0 then CHR 32 else c) (js_trim s)"

definition line_transforms :: "(string \<Rightarrow> string) list" where
  "line_transforms = [\<lambda>s. s, js_trim_end, js_trim, normalize_unicode_match]"

definition pattern_at :: "(string \<Rightarrow> string) \<Rightarrow> string list \<Rightarrow> string list \<Rightarrow> nat \<Rightarrow> bool" where
  "pattern_at tr ls pattern i \<longleftrightarrow> map tr (take (length pattern) (drop i ls)) = map tr pattern"

fun seek_with :: "(string \<Rightarrow> string) list \<Rightarrow> string list \<Rightarrow> string list \<Rightarrow> nat \<Rightarrow> bool \<Rightarrow> nat option" where
  "seek_with [] ls pattern cursor eof = None"
| "seek_with (tr # trs) ls pattern cursor eof =
     (case find (\<lambda>i. \<not> (eof \<and> i + length pattern \<noteq> length ls) \<and> pattern_at tr ls pattern i)
         [cursor ..< length ls + 1 - length pattern] of
        Some i \<Rightarrow> Some i
      | None \<Rightarrow> seek_with trs ls pattern cursor eof)"

definition seek_sequence :: "string list \<Rightarrow> string list \<Rightarrow> nat \<Rightarrow> bool \<Rightarrow> nat option" where
  "seek_sequence = seek_with line_transforms"

record replacement =
  rp_start :: nat
  rp_old :: nat
  rp_lines :: "string list"
  rp_hunk :: nat

definition old_lines :: "hunk \<Rightarrow> string list" where
  "old_lines h = map snd (filter (\<lambda>l. fst l \<noteq> Add) (hk_lines h))"

text \<open>Context lines are kept as the file has them; the index is \<open>startIndex + sourceOffset\<close>.\<close>

fun replacement_lines :: "string list \<Rightarrow> nat \<Rightarrow> hunk_line list \<Rightarrow> string list" where
  "replacement_lines ls i [] = []"
| "replacement_lines ls i ((Add, s) # rest) = s # replacement_lines ls i rest"
| "replacement_lines ls i ((Context, s) # rest) = ls ! i # replacement_lines ls (i + 1) rest"
| "replacement_lines ls i ((Remove, s) # rest) = replacement_lines ls (i + 1) rest"

definition locate_replacement :: "string \<Rightarrow> string list \<Rightarrow> hunk \<Rightarrow> nat \<Rightarrow> nat \<Rightarrow> patch_error + replacement \<times> nat" where
  "locate_replacement rel ls h cursor k =
     bindE (case hk_anchor h of
              None \<Rightarrow> Inr cursor
            | Some anchor \<Rightarrow>
                (case seek_sequence ls [anchor] cursor False of
                   None \<Rightarrow> Inl (HunkNotFound rel (hk_line h))
                 | Some i \<Rightarrow> Inr (i + 1))) (\<lambda>search_cursor.
     if old_lines h = [] then
       (let start = (if hk_eof h then length ls else search_cursor)
        in Inr (\<lparr>rp_start = start, rp_old = 0, rp_lines = map snd (hk_lines h), rp_hunk = k\<rparr>, start))
     else
       (case seek_sequence ls (old_lines h) search_cursor (hk_eof h) of
          None \<Rightarrow> Inl (HunkNotFound rel (hk_line h))
        | Some start \<Rightarrow>
            Inr (\<lparr>rp_start = start, rp_old = length (old_lines h),
                  rp_lines = replacement_lines ls start (hk_lines h), rp_hunk = k\<rparr>,
                 start + length (old_lines h))))"

section \<open>Applying the hunks\<close>

fun locate_all :: "string \<Rightarrow> string list \<Rightarrow> nat \<Rightarrow> nat \<Rightarrow> hunk list \<Rightarrow> patch_error + replacement list" where
  "locate_all rel ls k cursor [] = Inr []"
| "locate_all rel ls k cursor (h # hs) =
     bindE (locate_replacement rel ls h cursor k) (\<lambda>(r, cursor').
     bindE (locate_all rel ls (k + 1) cursor' hs) (\<lambda>rs. Inr (r # rs)))"

definition cmp_replacement :: "replacement \<Rightarrow> replacement \<Rightarrow> int" where
  "cmp_replacement left right =
     then_cmp (int (rp_start right) - int (rp_start left)) (int (rp_hunk right) - int (rp_hunk left))"

definition splice_lines :: "string list \<Rightarrow> replacement \<Rightarrow> string list" where
  "splice_lines ls r = take (rp_start r) ls @ rp_lines r @ drop (rp_start r + rp_old r) ls"

definition apply_hunks :: "string \<Rightarrow> hunk list \<Rightarrow> string \<Rightarrow> patch_error + string" where
  "apply_hunks body hunks rel =
     bindE (detect_newline body rel) (\<lambda>(normalized, newline).
     let source_lines = split_text_lines normalized in
     bindE (locate_all rel source_lines 0 0 hunks) (\<lambda>replacements.
     Inr (lines_to_text (foldl splice_lines source_lines (sort_cmp cmp_replacement replacements)) newline)))"

context comparator
begin

lemma insert_cmp_last: "\<forall>y \<in> set ys. cmp y x < 0 \<Longrightarrow> insert_cmp cmp x ys = ys @ [x]"
proof (induction ys)
  case (Cons y ys)
  then show ?case using cmp_sym [of y x] by (auto simp: sgn_if split: if_splits)
qed simp

lemma sort_cmp_rev: "sorted_wrt (\<lambda>x y. cmp y x < 0) xs \<Longrightarrow> sort_cmp cmp xs = rev xs"
  by (induction xs) (auto simp: sort_cmp_Cons intro: insert_cmp_last)

end

interpretation replacement_order: comparator cmp_replacement
  unfolding cmp_replacement_def by (intro comparator_intros)

section \<open>The table counts the common lines\<close>

definition longest_common :: "'a list \<Rightarrow> 'a list \<Rightarrow> nat \<Rightarrow> bool" where
  "longest_common xs ys n \<longleftrightarrow>
     (\<exists>zs. subseq zs xs \<and> subseq zs ys \<and> length zs = n) \<and> (\<forall>zs. subseq zs xs \<longrightarrow> subseq zs ys \<longrightarrow> length zs \<le> n)"

fun tails :: "'a list \<Rightarrow> 'a list list" where
  "tails [] = [[]]"
| "tails (y # ys) = (y # ys) # tails ys"

lemma longest_common_Nil: "longest_common [] ys 0" "longest_common xs [] 0"
  by (auto simp: longest_common_def)

lemma subseq_ConsD: "subseq (z # zs) (x # xs) \<Longrightarrow> (z = x \<and> subseq zs xs) \<or> (z \<noteq> x \<and> subseq (z # zs) xs)"
  by (auto split: if_splits)

lemma longest_common_same:
  assumes "longest_common xs ys n"
  shows "longest_common (x # xs) (x # ys) (n + 1)"
proof -
  from assms obtain zs where "subseq zs xs" "subseq zs ys" "length zs = n" by (auto simp: longest_common_def)
  then have "subseq (x # zs) (x # xs) \<and> subseq (x # zs) (x # ys) \<and> length (x # zs) = n + 1" by simp
  moreover have "length zs \<le> n + 1" if zs: "subseq zs (x # xs)" "subseq zs (x # ys)" for zs
  proof (cases zs)
    case (Cons z zs')
    with zs have "subseq zs' xs" "subseq zs' ys" by (auto split: if_splits dest: subseq_Cons')
    with assms Cons show ?thesis by (simp add: longest_common_def)
  qed simp
  ultimately show ?thesis unfolding longest_common_def by blast
qed

lemma longest_common_differ:
  assumes "x \<noteq> y" and n: "longest_common xs (y # ys) n" and m: "longest_common (x # xs) ys m"
  shows "longest_common (x # xs) (y # ys) (max n m)"
proof -
  have "\<exists>zs. subseq zs (x # xs) \<and> subseq zs (y # ys) \<and> length zs = max n m"
    using n m unfolding longest_common_def max_def by (metis list_emb_Cons)
  moreover have "length zs \<le> max n m" if zs: "subseq zs (x # xs)" "subseq zs (y # ys)" for zs
  proof (cases zs)
    case (Cons z zs')
    with zs assms(1) have "subseq zs xs \<and> subseq zs (y # ys) \<or> subseq zs (x # xs) \<and> subseq zs ys"
      by (auto dest!: subseq_ConsD)
    with n m show ?thesis by (auto simp: longest_common_def le_max_iff_disj)
  qed simp
  ultimately show ?thesis unfolding longest_common_def by blast
qed

lemma diff_row_longest:
  "list_all2 (longest_common xs) (tails ys) below
    \<Longrightarrow> list_all2 (longest_common (x # xs)) (tails ys) (diff_row x ys below)"
proof (induction ys arbitrary: below)
  case Nil
  then show ?case by (simp add: longest_common_Nil)
next
  case (Cons y ys)
  then obtain b below' where below: "below = b # below'" "longest_common xs (y # ys) b"
    "list_all2 (longest_common xs) (tails ys) below'" by (auto simp: list_all2_Cons1)
  let ?rest = "diff_row x ys below'"
  note rest = Cons.IH [OF below(3)]
  have hd: "list_all2 R (tails ys) ns \<Longrightarrow> R ys (hd ns)" for R ns
    by (cases ys) (auto simp: list_all2_Cons1)
  have "longest_common (x # xs) (y # ys) (if x = y then hd below' + 1 else max b (hd ?rest))"
    using hd [OF below(3)] hd [OF rest] below(2) longest_common_same longest_common_differ by (metis (full_types))
  with rest below(1) show ?case by (cases "x = y") (simp_all add: Let_def)
qed

lemma diff_table_longest: "list_all2 (longest_common xs) (tails ys) (diff_table xs ys)"
proof (induction xs)
  case Nil
  show ?case by (induction ys) (simp_all add: diff_table_def longest_common_Nil)
next
  case (Cons x xs)
  then show ?case using diff_row_longest by (simp add: diff_table_def)
qed

text \<open>
  C33: The counts of a summary are least. With \<open>(added, deleted)\<close> as computed by the table, the old and the
  new text have a common subsequence of lines that leaves out \<open>deleted\<close> lines of the old and \<open>added\<close> lines
  of the new text, and no common subsequence is longer: no edit of lines needs fewer.
\<close>

theorem line_diff_stats_least:
  "longest_common (split_text_lines (crlf_to_lf before)) (split_text_lines (crlf_to_lf after))
     (length (split_text_lines (crlf_to_lf before)) - snd (line_diff_stats before after))
   \<and> length (split_text_lines (crlf_to_lf before)) + fst (line_diff_stats before after)
      = length (split_text_lines (crlf_to_lf after)) + snd (line_diff_stats before after)"
proof -
  let ?old = "split_text_lines (crlf_to_lf before)" and ?new = "split_text_lines (crlf_to_lf after)"
  let ?n = "hd (diff_table ?old ?new)"
  have n: "longest_common ?old ?new ?n"
    using diff_table_longest [of ?old ?new] by (cases ?new) (auto simp: list_all2_Cons1)
  then have "?n \<le> length ?old" "?n \<le> length ?new"
    by (auto simp: longest_common_def dest: list_emb_length)
  with n show ?thesis by (simp add: line_diff_stats_def Let_def)
qed

section \<open>The search\<close>

definition in_window :: "string list \<Rightarrow> string list \<Rightarrow> nat \<Rightarrow> bool \<Rightarrow> nat \<Rightarrow> bool" where
  "in_window ls pattern cursor eof i \<longleftrightarrow> cursor \<le> i \<and> i + length pattern \<le> length ls
     \<and> (eof \<longrightarrow> i + length pattern = length ls)"

lemma find_upt_Some:
  "find P [a ..< b] = Some i \<longleftrightarrow> a \<le> i \<and> i < b \<and> P i \<and> (\<forall>j. a \<le> j \<longrightarrow> j < i \<longrightarrow> \<not> P j)"
proof (induction "b - a" arbitrary: a)
  case (Suc n)
  then have "a < b" by simp
  with Suc.hyps(1) [of "a + 1"] Suc.hyps(2) show ?case
    by (auto simp: upt_rec [of a b] Suc_le_eq) (metis le_neq_implies_less Suc_leI)+
qed auto

lemma seek_with_Cons:
  "seek_with (tr # trs) ls pattern cursor eof =
     (case find (\<lambda>i. in_window ls pattern cursor eof i \<and> pattern_at tr ls pattern i) [cursor ..< length ls + 1 - length pattern] of
        Some i \<Rightarrow> Some i
      | None \<Rightarrow> seek_with trs ls pattern cursor eof)"
proof -
  have "find (\<lambda>i. \<not> (eof \<and> i + length pattern \<noteq> length ls) \<and> pattern_at tr ls pattern i) [cursor ..< length ls + 1 - length pattern]
    = find (\<lambda>i. in_window ls pattern cursor eof i \<and> pattern_at tr ls pattern i) [cursor ..< length ls + 1 - length pattern]"
    by (rule find_cong) (auto simp: in_window_def)
  then show ?thesis by simp
qed

lemma seek_with_SomeD:
  "seek_with trs ls pattern cursor eof = Some i \<Longrightarrow>
     \<exists>earlier tr later. trs = earlier @ tr # later \<and> in_window ls pattern cursor eof i \<and> pattern_at tr ls pattern i
       \<and> (\<forall>j < i. \<not> (in_window ls pattern cursor eof j \<and> pattern_at tr ls pattern j))
       \<and> (\<forall>t \<in> set earlier. \<forall>j. \<not> (in_window ls pattern cursor eof j \<and> pattern_at t ls pattern j))"
proof (induction trs)
  case (Cons tr trs)
  let ?P = "\<lambda>i. in_window ls pattern cursor eof i \<and> pattern_at tr ls pattern i"
  show ?case
  proof (cases "find ?P [cursor ..< length ls + 1 - length pattern]")
    case None
    then have none: "\<not> ?P j" for j by (auto simp: find_None_iff in_window_def)
    from Cons None obtain earlier t later where "trs = earlier @ t # later"
      and "in_window ls pattern cursor eof i \<and> pattern_at t ls pattern i"
      and "\<forall>j < i. \<not> (in_window ls pattern cursor eof j \<and> pattern_at t ls pattern j)"
      and "\<forall>t \<in> set earlier. \<forall>j. \<not> (in_window ls pattern cursor eof j \<and> pattern_at t ls pattern j)"
      by (auto simp: seek_with_Cons simp del: seek_with.simps)
    with none show ?thesis by (intro exI [of _ "tr # earlier"] exI [of _ t] exI [of _ later]) auto
  next
    case (Some k)
    with Cons.prems have "k = i" by (simp add: seek_with_Cons del: seek_with.simps)
    with Some show ?thesis
      by (intro exI [of _ "[]"] exI [of _ tr] exI [of _ trs]) (auto simp: find_upt_Some in_window_def)
  qed
qed simp

lemma seek_with_None:
  "seek_with trs ls pattern cursor eof = None \<longleftrightarrow>
     (\<forall>t \<in> set trs. \<forall>j. \<not> (in_window ls pattern cursor eof j \<and> pattern_at t ls pattern j))"
  by (induction trs)
    (auto simp: seek_with_Cons find_None_iff in_window_def simp del: seek_with.simps(2) split: option.splits
      dest!: find_SomeD)

text \<open>
  The search for lines. It finds a place exactly when some way of comparing lines (equal, equal up to
  trailing white space, up to surrounding white space, with non-breaking spaces) fits in the window;
  the strictest way that fits anywhere decides, and the first place for it is taken.
\<close>

theorem seek_sequence_spec:
  "case seek_sequence ls pattern cursor eof of
     None \<Rightarrow> \<not> (\<exists>t \<in> set line_transforms. \<exists>j. in_window ls pattern cursor eof j \<and> pattern_at t ls pattern j)
   | Some i \<Rightarrow> \<exists>stricter t weaker. line_transforms = stricter @ t # weaker
        \<and> in_window ls pattern cursor eof i \<and> pattern_at t ls pattern i
        \<and> \<not> (\<exists>j < i. in_window ls pattern cursor eof j \<and> pattern_at t ls pattern j)
        \<and> \<not> (\<exists>s \<in> set stricter. \<exists>j. in_window ls pattern cursor eof j \<and> pattern_at s ls pattern j)"
proof (cases "seek_sequence ls pattern cursor eof")
  case None
  then show ?thesis using seek_with_None [of line_transforms ls pattern cursor eof, folded seek_sequence_def] by auto
next
  case (Some i)
  then show ?thesis using seek_with_SomeD [of line_transforms ls pattern cursor eof i]
    by (simp add: seek_sequence_def) blast
qed

lemma seek_sequenceD:
  assumes "seek_sequence ls pattern cursor eof = Some i"
  shows "in_window ls pattern cursor eof i \<and> (\<exists>t \<in> set line_transforms. pattern_at t ls pattern i)"
proof -
  obtain stricter t weaker where "line_transforms = stricter @ t # weaker" "in_window ls pattern cursor eof i" "pattern_at t ls pattern i"
    using seek_with_SomeD [OF assms [unfolded seek_sequence_def]] by blast
  moreover from this(1) have "t \<in> set line_transforms" by (metis in_set_conv_decomp)
  ultimately show ?thesis by blast
qed

section \<open>The replacements\<close>

definition same_line :: "string \<Rightarrow> string \<Rightarrow> bool" where
  "same_line a b \<longleftrightarrow> (\<exists>t \<in> set line_transforms. t a = t b)"

definition hunk_located :: "string list \<Rightarrow> nat \<Rightarrow> hunk \<Rightarrow> replacement \<Rightarrow> bool" where
  "hunk_located ls cursor h r \<longleftrightarrow>
     cursor \<le> rp_start r \<and> rp_start r + rp_old r \<le> length ls
     \<and> (case hk_anchor h of None \<Rightarrow> True | Some a \<Rightarrow> \<exists>k. cursor \<le> k \<and> k < rp_start r \<and> same_line (ls ! k) a)
     \<and> rp_old r = length (old_lines h) \<and> (\<exists>t \<in> set line_transforms. pattern_at t ls (old_lines h) (rp_start r))
     \<and> rp_lines r = replacement_lines ls (rp_start r) (hk_lines h)
     \<and> (hk_eof h \<longrightarrow> rp_start r + rp_old r = length ls)"

fun hunks_located :: "string list \<Rightarrow> nat \<Rightarrow> hunk list \<Rightarrow> replacement list \<Rightarrow> bool" where
  "hunks_located ls cursor [] rs \<longleftrightarrow> rs = []"
| "hunks_located ls cursor (h # hs) rs \<longleftrightarrow>
     (\<exists>r rs'. rs = r # rs' \<and> hunk_located ls cursor h r \<and> hunks_located ls (rp_start r + rp_old r) hs rs')"

lemma old_lines_Nil: "old_lines h = [] \<Longrightarrow> replacement_lines ls i (hk_lines h) = map snd (hk_lines h)"
proof -
  have "filter (\<lambda>l. fst l \<noteq> Add) hl = [] \<Longrightarrow> replacement_lines ls i hl = map snd hl" for hl
    by (induction ls i hl rule: replacement_lines.induct) auto
  then show "old_lines h = [] \<Longrightarrow> ?thesis" by (simp add: old_lines_def)
qed

lemma locate_replacementD:
  assumes "locate_replacement rel ls h cursor k = Inr (r, cursor')" and "cursor \<le> length ls"
  shows "hunk_located ls cursor h r \<and> cursor' = rp_start r + rp_old r \<and> rp_hunk r = k"
proof -
  from assms(1) obtain c where c: "(case hk_anchor h of None \<Rightarrow> Inr cursor | Some anchor \<Rightarrow>
        (case seek_sequence ls [anchor] cursor False of None \<Rightarrow> Inl (HunkNotFound rel (hk_line h)) | Some i \<Rightarrow> Inr (i + 1))) = Inr c"
    by (auto simp: locate_replacement_def error_simps)
  have anchor: "cursor \<le> c \<and> c \<le> length ls
      \<and> (case hk_anchor h of None \<Rightarrow> True | Some a \<Rightarrow> \<exists>k. cursor \<le> k \<and> k < c \<and> same_line (ls ! k) a)"
  proof (cases "hk_anchor h")
    case (Some a)
    with c obtain i where i: "seek_sequence ls [a] cursor False = Some i" "c = i + 1"
      by (auto split: option.splits)
    from seek_sequenceD [OF i(1)] obtain t where t: "t \<in> set line_transforms" "pattern_at t ls [a] i"
      and window: "cursor \<le> i" "i < length ls" by (auto simp: in_window_def)
    then have "t (ls ! i) = t a" by (simp add: pattern_at_def take_Suc hd_drop_conv_nth)
    with t(1) have "same_line (ls ! i) a" unfolding same_line_def by (intro bexI [of _ t])
    with window i(2) Some show ?thesis by auto
  qed (use c assms(2) in simp)
  show ?thesis
  proof (cases "old_lines h = []")
    case True
    with assms(1) c anchor show ?thesis
      by (auto simp: locate_replacement_def hunk_located_def error_simps Let_def old_lines_Nil pattern_at_def
          line_transforms_def split: option.splits if_splits)
  next
    case False
    with assms(1) c obtain start where start: "seek_sequence ls (old_lines h) c (hk_eof h) = Some start"
      and r: "r = \<lparr>rp_start = start, rp_old = length (old_lines h),
                  rp_lines = replacement_lines ls start (hk_lines h), rp_hunk = k\<rparr>" "cursor' = start + length (old_lines h)"
      by (auto simp: locate_replacement_def error_simps split: option.splits if_splits)
    from seek_sequenceD [OF start] anchor show ?thesis
      unfolding r hunk_located_def in_window_def by (auto split: option.splits)
  qed
qed

lemma hunk_located_bound: "hunk_located ls cursor h r \<Longrightarrow> cursor \<le> rp_start r \<and> rp_start r + rp_old r \<le> length ls"
  by (simp add: hunk_located_def)

lemma locate_allD:
  assumes "locate_all rel ls k cursor hs = Inr rs" and "cursor \<le> length ls"
  shows "hunks_located ls cursor hs rs \<and> map rp_hunk rs = [k ..< k + length hs]"
  using assms
proof (induction rel ls k cursor hs arbitrary: rs rule: locate_all.induct)
  case (2 rel ls k cursor h hs)
  then obtain r cursor' rs' where r: "locate_replacement rel ls h cursor k = Inr (r, cursor')"
    and rs': "locate_all rel ls (k + 1) cursor' hs = Inr rs'" and rs: "rs = r # rs'"
    by (auto simp: error_simps)
  note D = locate_replacementD [OF r "2.prems"(2)]
  then have "cursor' \<le> length ls" using hunk_located_bound by auto
  from "2.IH" [OF r refl rs' this] D rs show ?case by (simp add: upt_conv_Cons del: upt_Suc)
qed simp

section \<open>Splicing from the end is merging from the front\<close>

fun merge_replacements :: "string list \<Rightarrow> nat \<Rightarrow> replacement list \<Rightarrow> string list" where
  "merge_replacements ls pos [] = drop pos ls"
| "merge_replacements ls pos (r # rs) =
     take (rp_start r - pos) (drop pos ls) @ rp_lines r @ merge_replacements ls (rp_start r + rp_old r) rs"

lemma take_more: "pos \<le> n \<Longrightarrow> take pos ls @ take (n - pos) (drop pos ls) = take n ls"
  by (metis le_add_diff_inverse take_add)

lemma splice_merge:
  "hunks_located ls pos hs rs \<Longrightarrow> pos \<le> length ls \<Longrightarrow>
     foldr (\<lambda>r a. splice_lines a r) rs ls = take pos ls @ merge_replacements ls pos rs"
proof (induction hs arbitrary: pos rs)
  case (Cons h hs)
  then obtain r rs' where rs: "rs = r # rs'" and r: "hunk_located ls pos h r"
    and rs': "hunks_located ls (rp_start r + rp_old r) hs rs'" by auto
  note bound = hunk_located_bound [OF r]
  let ?stop = "rp_start r + rp_old r"
  have "splice_lines (take ?stop ls @ merge_replacements ls ?stop rs') r
      = take (rp_start r) ls @ rp_lines r @ merge_replacements ls ?stop rs'"
    using bound by (simp add: splice_lines_def min_def)
  also have "take (rp_start r) ls = take pos ls @ take (rp_start r - pos) (drop pos ls)"
    using bound by (simp add: take_more)
  finally show ?case using Cons.IH [OF rs'] bound rs by simp
qed simp

lemma located_starts:
  "hunks_located ls cursor hs rs \<Longrightarrow> sorted_wrt (\<lambda>x y. rp_start x \<le> rp_start y) rs \<and> (\<forall>r \<in> set rs. cursor \<le> rp_start r)"
proof (induction hs arbitrary: cursor rs)
  case (Cons h hs)
  then obtain r rs' where rs: "rs = r # rs'" and r: "hunk_located ls cursor h r"
    and rs': "hunks_located ls (rp_start r + rp_old r) hs rs'" by auto
  from Cons.IH [OF rs'] hunk_located_bound [OF r] rs show ?case by fastforce
qed simp

lemma sorted_replacements:
  assumes "hunks_located ls cursor hs rs" and "map rp_hunk rs = [k ..< n]"
  shows "sort_cmp cmp_replacement rs = rev rs"
proof (rule replacement_order.sort_cmp_rev)
  have "sorted_wrt (<) (map rp_hunk rs)" using assms(2) by simp
  with located_starts [OF assms(1)] show "sorted_wrt (\<lambda>x y. cmp_replacement y x < 0) rs"
    by (auto simp: sorted_wrt_iff_nth_less cmp_replacement_def then_cmp_def) (metis (mono_tags) le_neq_implies_less)+
qed

text \<open>
  C32: What applying the hunks of a file does. Every hunk has a place after the previous one, after its
  anchor, where its old lines stand up to white space, at the end of the file where it says so; the
  splices from the last to the first give the text in which the old lines of each hunk, and no others, are
  replaced by its new lines, context lines kept as the file has them, with the line endings of the file.
\<close>

theorem apply_hunks_merges:
  assumes "apply_hunks body hunks rel = Inr result"
  shows "\<exists>rs. hunks_located (split_text_lines (crlf_to_lf body)) 0 hunks rs
     \<and> result = lines_to_text (merge_replacements (split_text_lines (crlf_to_lf body)) 0 rs)
         (if has_crlf body then [CHR 13, CHR 10] else [CHR 10])"
proof -
  let ?ls = "split_text_lines (crlf_to_lf body)"
  from assms obtain rs where rs: "locate_all rel ?ls 0 0 hunks = Inr rs"
    and result: "result = lines_to_text (foldl splice_lines ?ls (sort_cmp cmp_replacement rs))
       (if has_crlf body then [CHR 13, CHR 10] else [CHR 10])"
    by (auto simp: apply_hunks_def detect_newline_def error_simps Let_def)
  from locate_allD [OF rs] have located: "hunks_located ?ls 0 hunks rs" "map rp_hunk rs = [0 ..< length hunks]" by auto
  from sorted_replacements [OF this] splice_merge [OF located(1)]
  have "foldl splice_lines ?ls (sort_cmp cmp_replacement rs) = merge_replacements ?ls 0 rs"
    by (simp add: foldl_conv_foldr)
  with located(1) result show ?thesis by auto
qed

end
