(* ===== verification/Patch_Apply.thy ===== *)
theory Patch_Apply
  imports Patch_Hunks "HOL-Library.Word"
begin

text \<open>
  The edit tool \<open>apply_patch\<close> (\<open>tools/apply-patch.ts\<close>): a patch is parsed, its paths are resolved inside
  the workspace, every change is planned from snapshots of the files, and the planned changes are
  made, verified, or rolled back. A file system is a map from absolute paths to nodes. Everything
  outside that can go wrong (aborts at each check, failing calls, texts of bytes) is in the environment.
\<close>

section \<open>Files and their environment\<close>

type_synonym bytes = "8 word list"

type_synonym path = "string list"

datatype fs_node = RegularFile bytes | Directory | Link | OtherNode

type_synonym files = "path \<Rightarrow> fs_node option"

text \<open>A text is held with whether it begins with the byte order mark U+FEFF.\<close>

type_synonym raw_text = "bool \<times> string"

datatype checkpoint =
    AtStart | AtResolve nat | AtOperation nat | AtRead path | AtPlanned
  | AtNothing | AtReported | AtChange nat | AtVerify nat | AtContent nat | BeforeLint | AfterLint

record lint_request =
  lr_path :: path
  lr_content :: raw_text
  lr_previous :: "raw_text option"
  lr_delta :: bool

record patch_env =
  pe_workspace :: path
  pe_decode :: "bytes \<Rightarrow> string option"
  pe_lossy :: "bytes \<Rightarrow> string"
  pe_aborted :: "checkpoint \<Rightarrow> bool"
  pe_inspect_fails :: "path \<Rightarrow> bool"
  pe_read_fails :: "path \<Rightarrow> bool"
  pe_remove_fails :: "path \<Rightarrow> bool"
  pe_mkdir_fails :: "path \<Rightarrow> bool"
  pe_write_fails :: "path \<Rightarrow> bytes option option"
  pe_verify_fails :: "path \<Rightarrow> bool"
  pe_restore_fails :: "path \<Rightarrow> bool"
  pe_lint :: "lint_request list \<Rightarrow> patch_error + (string \<Rightarrow> string)"

definition check_abort :: "patch_env \<Rightarrow> checkpoint \<Rightarrow> patch_error + unit" where
  "check_abort env c = throw_if (pe_aborted env c) Aborted"

definition utf8_bom :: bytes where "utf8_bom = [0xEF, 0xBB, 0xBF]"

text \<open>\<open>Buffer.from(text, "utf8")\<close> for code units below 256.\<close>

definition utf8_encode :: "string \<Rightarrow> bytes" where
  "utf8_encode s = concat (map (\<lambda>c. let n = (of_char c :: nat) in
     if n < 128 then [word_of_nat n] else [word_of_nat (192 + n div 64), word_of_nat (128 + n mod 64)]) s)"

definition encode_text :: "raw_text \<Rightarrow> bytes" where
  "encode_text t = (if fst t then utf8_bom else []) @ utf8_encode (snd t)"

definition has_bom :: "bytes \<Rightarrow> bool" where
  "has_bom b \<longleftrightarrow> take 3 b = utf8_bom"

definition without_bom :: "bytes \<Rightarrow> bytes" where
  "without_bom b = (if has_bom b then drop 3 b else b)"

text \<open>\<open>buffer.toString("utf8")\<close>, which never fails.\<close>

definition buffer_text :: "patch_env \<Rightarrow> bytes \<Rightarrow> raw_text" where
  "buffer_text env b = (has_bom b, pe_lossy env (without_bom b))"

definition decode_text :: "patch_env \<Rightarrow> bytes \<Rightarrow> string \<Rightarrow> patch_error + raw_text" where
  "decode_text env b rel =
     (if 0 \<in> set b then Inl (BinaryFile rel)
      else case pe_decode env (without_bom b) of
             None \<Rightarrow> Inl (BinaryFile rel)
           | Some body \<Rightarrow> Inr (has_bom b, body))"

section \<open>Paths inside the workspace\<close>

text \<open>\<open>path.resolve\<close> and \<open>path.relative\<close>, on the segments of absolute paths.\<close>

definition resolve_segments :: "path \<Rightarrow> string \<Rightarrow> path" where
  "resolve_segments ws normalized =
     normalize_segments False [] (if is_absolute normalized then segments normalized else ws @ segments normalized)"

fun relative_segments :: "path \<Rightarrow> path \<Rightarrow> path" where
  "relative_segments (a # as) (b # bs) =
     (if a = b then relative_segments as bs else replicate (length (a # as)) ''..'' @ b # bs)"
| "relative_segments as bs = replicate (length as) ''..'' @ bs"

fun inspect_path :: "patch_env \<Rightarrow> files \<Rightarrow> string \<Rightarrow> path \<Rightarrow> path \<Rightarrow> patch_error + unit" where
  "inspect_path env fs normalized current [] = Inr ()"
| "inspect_path env fs normalized current (seg # rest) =
     (let current = current @ [seg] in
      if pe_inspect_fails env current then Inl (CannotInspect normalized)
      else case fs current of
             None \<Rightarrow> Inr ()
           | Some node \<Rightarrow>
               if node = Link then Inl (SymbolicLink normalized)
               else if rest \<noteq> [] \<and> node \<noteq> Directory then Inl (ParentNotDirectory normalized)
               else inspect_path env fs normalized current rest)"

definition resolve_normalized_path :: "patch_env \<Rightarrow> files \<Rightarrow> string \<Rightarrow> string \<Rightarrow> patch_error + path" where
  "resolve_normalized_path env fs normalized requested =
     (let target = resolve_segments (pe_workspace env) normalized;
          relative = relative_segments (pe_workspace env) target
      in if relative \<noteq> [] \<and> hd relative = ''..'' then Inl (EscapesWorkspace requested)
         else if relative = [] then Inl (NamesWorkspace requested)
         else bindE (inspect_path env fs normalized (pe_workspace env) relative) (\<lambda>_. Inr target))"

definition resolve_path :: "patch_env \<Rightarrow> files \<Rightarrow> string \<Rightarrow> patch_error + path" where
  "resolve_path env fs requested =
     (case normalize_patch_path requested of
        Inl f \<Rightarrow> Inl (BadPatchPath f)
      | Inr normalized \<Rightarrow> resolve_normalized_path env fs normalized requested)"

definition relative_path :: "patch_env \<Rightarrow> files \<Rightarrow> string \<Rightarrow> patch_error + string" where
  "relative_path env fs requested =
     bindE (resolve_path env fs requested) (\<lambda>target. Inr (join_with ''/'' (relative_segments (pe_workspace env) target)))"

fun normalize_operation :: "patch_env \<Rightarrow> files \<Rightarrow> file_op \<Rightarrow> patch_error + file_op" where
  "normalize_operation env fs (AddFile p n ls) = bindE (relative_path env fs p) (\<lambda>p'. Inr (AddFile p' n ls))"
| "normalize_operation env fs (DeleteFile p n) = bindE (relative_path env fs p) (\<lambda>p'. Inr (DeleteFile p' n))"
| "normalize_operation env fs (UpdateFile p n mv hs) =
     bindE (relative_path env fs p) (\<lambda>p'.
     case mv of
       None \<Rightarrow> Inr (UpdateFile p' n None hs)
     | Some (t, m) \<Rightarrow> bindE (relative_path env fs t) (\<lambda>t'. Inr (UpdateFile p' n (Some (t', m)) hs)))"

definition lift_envelope :: "envelope_error + 'a \<Rightarrow> patch_error + 'a" where
  "lift_envelope r = (case r of Inl e \<Rightarrow> Inl (Envelope e) | Inr x \<Rightarrow> Inr x)"

definition normalize_operations :: "patch_env \<Rightarrow> files \<Rightarrow> file_op list \<Rightarrow> patch_error + file_op list" where
  "normalize_operations env fs ops =
     bindE (mapE (normalize_operation env fs) ops) (\<lambda>normalized.
     bindE (lift_envelope (validate_patch_path_conflicts normalized)) (\<lambda>_. Inr normalized))"

section \<open>Planning\<close>

datatype change =
    WriteChange (ch_rel: string) (ch_target: path) (ch_before: "bytes option") (ch_after: bytes)
      (ch_verify: raw_text) (ch_lint: raw_text) (ch_previous: "raw_text option") (ch_existed: bool)
  | DeleteChange (ch_rel: string) (ch_target: path) (ch_bytes: bytes)
  | UnchangedFile (ch_rel: string) (ch_target: path) (ch_bytes: bytes)

record summary =
  su_action :: string
  su_path :: string
  su_added :: nat
  su_deleted :: nat

record plan =
  pl_changes :: "change list"
  pl_summaries :: "summary list"
  pl_initial :: "(path \<times> bytes option) list"

definition format_summary :: "summary \<Rightarrow> string" where
  "format_summary s =
     (let stats = (if su_added s \<noteq> 0 \<or> su_deleted s \<noteq> 0
                   then '' (+'' @ nat_str (su_added s) @ ''/-'' @ nat_str (su_deleted s) @ '')'' else [])
      in ''- '' @ su_action s @ '' '' @ su_path s @ stats)"

definition patch_contains_null :: "file_op \<Rightarrow> bool" where
  "patch_contains_null operation =
     (case operation of
        AddFile _ _ ls \<Rightarrow> list_ex (\<lambda>s. CHR 0x00 \<in> set s) ls
      | DeleteFile _ _ \<Rightarrow> False
      | UpdateFile _ _ _ hs \<Rightarrow>
          list_ex (\<lambda>h. (case hk_anchor h of None \<Rightarrow> False | Some a \<Rightarrow> CHR 0x00 \<in> set a)
            \<or> list_ex (\<lambda>l. CHR 0x00 \<in> set (snd l)) (hk_lines h)) hs)"

definition operation_summary :: "file_op \<Rightarrow> string \<Rightarrow> string \<Rightarrow> bool \<Rightarrow> summary" where
  "operation_summary operation before after unchanged =
     (if unchanged then \<lparr>su_action = ''unchanged'', su_path = op_path operation, su_added = 0, su_deleted = 0\<rparr>
      else case operation of
        AddFile p _ _ \<Rightarrow> \<lparr>su_action = ''add'', su_path = p, su_added = text_line_count after, su_deleted = 0\<rparr>
      | DeleteFile p _ \<Rightarrow> \<lparr>su_action = ''delete'', su_path = p, su_added = 0, su_deleted = text_line_count before\<rparr>
      | UpdateFile p _ mv _ \<Rightarrow>
          (let (added, deleted) = line_diff_stats before after in
           case mv of
             Some (t, _) \<Rightarrow> \<lparr>su_action = ''move'', su_path = p @ '' -> '' @ t, su_added = added, su_deleted = deleted\<rparr>
           | None \<Rightarrow> \<lparr>su_action = ''update'', su_path = p, su_added = added, su_deleted = deleted\<rparr>))"

definition read_snapshot :: "patch_env \<Rightarrow> files \<Rightarrow> path \<Rightarrow> patch_error + bytes option" where
  "read_snapshot env fs target =
     bindE (check_abort env (AtRead target)) (\<lambda>_.
     if pe_inspect_fails env target then Inl (IoError ''lstat'')
     else case fs target of
            None \<Rightarrow> Inr None
          | Some (RegularFile b) \<Rightarrow> if pe_read_fails env target then Inl (IoError ''read'') else Inr (Some b)
          | Some _ \<Rightarrow> Inl (NotRegularFile target))"

text \<open>\<open>getSnapshot\<close>: the snapshot and the cache with it.\<close>

definition get_snapshot ::
  "patch_env \<Rightarrow> files \<Rightarrow> path \<Rightarrow> (path \<times> bytes option) list \<Rightarrow> patch_error + bytes option \<times> (path \<times> bytes option) list" where
  "get_snapshot env fs target snaps =
     (case map_of snaps target of
        Some s \<Rightarrow> Inr (s, snaps)
      | None \<Rightarrow> bindE (read_snapshot env fs target) (\<lambda>s. Inr (s, snaps @ [(target, s)])))"

definition add_change :: "plan \<Rightarrow> (path \<times> bytes option) list \<Rightarrow> change list \<Rightarrow> summary \<Rightarrow> plan" where
  "add_change pl snaps cs s = \<lparr>pl_changes = pl_changes pl @ cs, pl_summaries = pl_summaries pl @ [s], pl_initial = snaps\<rparr>"

definition updated_text :: "patch_env \<Rightarrow> raw_text \<Rightarrow> bytes \<Rightarrow> hunk list \<Rightarrow> string \<Rightarrow> patch_error + bytes \<times> raw_text" where
  "updated_text env decoded b hs rel =
     (if hs = [] then Inr (b, decoded)
      else bindE (apply_hunks (snd decoded) hs rel) (\<lambda>body.
           Inr (encode_text (fst decoded, body), (fst decoded, body))))"

fun plan_operation ::
  "patch_env \<Rightarrow> files \<Rightarrow> (string \<Rightarrow> path option) \<Rightarrow> plan \<Rightarrow> nat \<times> file_op \<Rightarrow> patch_error + plan" where
  "plan_operation env fs resolved pl (i, operation) =
     bindE (check_abort env (AtOperation i)) (\<lambda>_.
     bindE (throw_if (patch_contains_null operation) (BinaryFile (op_path operation))) (\<lambda>_.
     let rel = op_path operation; target = the (resolved rel) in
     bindE (get_snapshot env fs target (pl_initial pl)) (\<lambda>(source, snaps).
     case operation of
       AddFile _ _ ls \<Rightarrow>
         bindE (throw_if (source \<noteq> None) (AlreadyExists rel)) (\<lambda>_.
         let body = lines_to_text ls [CHR 10] in
         Inr (add_change pl snaps
           [WriteChange rel target None (utf8_encode body) (False, body) (False, body) None False]
           (operation_summary operation [] body False)))
     | DeleteFile _ _ \<Rightarrow>
         (case source of
            None \<Rightarrow> Inl (DoesNotExist rel)
          | Some b \<Rightarrow>
              bindE (decode_text env b rel) (\<lambda>decoded.
              Inr (add_change pl snaps [DeleteChange rel target b] (operation_summary operation (snd decoded) [] False))))
     | UpdateFile _ _ mv hs \<Rightarrow>
         (case source of
            None \<Rightarrow> Inl (DoesNotExist rel)
          | Some b \<Rightarrow>
              bindE (decode_text env b rel) (\<lambda>decoded.
              bindE (updated_text env decoded b hs rel) (\<lambda>(after, after_raw).
              case mv of
                Some (t, _) \<Rightarrow>
                  bindE (get_snapshot env fs (the (resolved t)) snaps) (\<lambda>(destination, snaps').
                  bindE (throw_if (destination \<noteq> None) (MoveTargetExists t)) (\<lambda>_.
                  Inr (add_change pl snaps'
                    [WriteChange t (the (resolved t)) None after (buffer_text env after) after_raw None False,
                     DeleteChange rel target b]
                    (operation_summary operation (snd decoded) (snd after_raw) False))))
              | None \<Rightarrow>
                  Inr (add_change pl snaps
                    [if b = after then UnchangedFile rel target b
                     else WriteChange rel target (Some b) after (buffer_text env after) after_raw (Some decoded) True]
                    (operation_summary operation (snd decoded) (snd after_raw) (b = after)))))))))"

fun resolve_operation ::
  "patch_env \<Rightarrow> files \<Rightarrow> (string \<Rightarrow> path option) \<Rightarrow> nat \<times> file_op \<Rightarrow> patch_error + (string \<Rightarrow> path option)" where
  "resolve_operation env fs resolved (i, operation) =
     bindE (check_abort env (AtResolve i)) (\<lambda>_.
     bindE (resolve_normalized_path env fs (op_path operation) (op_path operation)) (\<lambda>target.
     let resolved = resolved(op_path operation \<mapsto> target) in
     case op_move operation of
       None \<Rightarrow> Inr resolved
     | Some (t, _) \<Rightarrow>
         bindE (resolve_normalized_path env fs t t) (\<lambda>move_target. Inr (resolved(t \<mapsto> move_target)))))"

definition plan_operations :: "patch_env \<Rightarrow> files \<Rightarrow> file_op list \<Rightarrow> patch_error + plan" where
  "plan_operations env fs ops =
     bindE (foldE (resolve_operation env fs) Map.empty (zip [0 ..< length ops] ops)) (\<lambda>resolved.
     foldE (plan_operation env fs resolved) \<lparr>pl_changes = [], pl_summaries = [], pl_initial = []\<rparr>
       (zip [0 ..< length ops] ops))"

section \<open>Making the changes\<close>

text \<open>
  \<open>fs.mkdir\<close> with \<open>recursive\<close>, \<open>fs.writeFile\<close> and \<open>fs.rm\<close>; \<open>None\<close> is a failing call. A link in the way counts
  as failing: \<open>resolveNormalizedPath\<close> has refused every path with a link in it.
\<close>

definition make_dirs :: "files \<Rightarrow> path \<Rightarrow> files option" where
  "make_dirs fs p =
     (if list_ex (\<lambda>i. fs (take i p) \<notin> {None, Some Directory}) [0 ..< length p + 1] then None
      else Some (\<lambda>q. if prefix q p then Some Directory else fs q))"

definition put_file :: "files \<Rightarrow> path \<Rightarrow> bytes \<Rightarrow> files option" where
  "put_file fs p b =
     (case fs p of
        None \<Rightarrow> Some (fs(p \<mapsto> RegularFile b))
      | Some (RegularFile _) \<Rightarrow> Some (fs(p \<mapsto> RegularFile b))
      | _ \<Rightarrow> None)"

definition remove_file :: "bool \<Rightarrow> files \<Rightarrow> path \<Rightarrow> files option" where
  "remove_file force fs p =
     (case fs p of
        None \<Rightarrow> (if force then Some fs else None)
      | Some Directory \<Rightarrow> None
      | Some _ \<Rightarrow> Some (fs(p := None)))"

definition actionable :: "change \<Rightarrow> bool" where
  "actionable c = (case c of UnchangedFile _ _ _ \<Rightarrow> False | _ \<Rightarrow> True)"

text \<open>A failing write may leave other bytes in the file.\<close>

definition make_change :: "patch_env \<Rightarrow> files \<Rightarrow> change \<Rightarrow> patch_error option \<times> files" where
  "make_change env fs c =
     (case c of
        DeleteChange _ target _ \<Rightarrow>
          if pe_remove_fails env target then (Some (IoError ''rm''), fs)
          else (case remove_file False fs target of None \<Rightarrow> (Some (IoError ''rm''), fs) | Some fs' \<Rightarrow> (None, fs'))
      | WriteChange _ target _ after _ _ _ _ \<Rightarrow>
          if pe_mkdir_fails env target then (Some (IoError ''mkdir''), fs)
          else (case make_dirs fs (butlast target) of
                  None \<Rightarrow> (Some (IoError ''mkdir''), fs)
                | Some fs1 \<Rightarrow>
                    (case pe_write_fails env target of
                       Some left \<Rightarrow>
                         (Some (IoError ''write''),
                          case left of None \<Rightarrow> fs1 | Some b \<Rightarrow> (case put_file fs1 target b of None \<Rightarrow> fs1 | Some fs2 \<Rightarrow> fs2))
                     | None \<Rightarrow>
                         (case put_file fs1 target after of
                            None \<Rightarrow> (Some (IoError ''write''), fs1)
                          | Some fs2 \<Rightarrow> (None, fs2))))
      | UnchangedFile _ _ _ \<Rightarrow> (None, fs))"

definition mark_attempted :: "path list \<Rightarrow> path \<Rightarrow> path list" where
  "mark_attempted attempted target = (if target \<in> set attempted then attempted else attempted @ [target])"

fun make_changes ::
  "patch_env \<Rightarrow> nat \<Rightarrow> change list \<Rightarrow> files \<Rightarrow> path list \<Rightarrow> patch_error option \<times> files \<times> path list" where
  "make_changes env i [] fs attempted = (None, fs, attempted)"
| "make_changes env i (c # cs) fs attempted =
     (if pe_aborted env (AtChange i) then (Some Aborted, fs, attempted)
      else (let attempted = mark_attempted attempted (ch_target c) in
            case make_change env fs c of
              (Some e, fs') \<Rightarrow> (Some e, fs', attempted)
            | (None, fs') \<Rightarrow> make_changes env (i + 1) cs fs' attempted))"

section \<open>Verification and roll back\<close>

definition verify_change :: "patch_env \<Rightarrow> files \<Rightarrow> nat \<Rightarrow> change \<Rightarrow> patch_error + lint_request list" where
  "verify_change env fs i c =
     bindE (check_abort env (AtVerify i)) (\<lambda>_.
     case c of
       DeleteChange _ target _ \<Rightarrow> if fs target \<noteq> None then Inl (DeleteVerification target) else Inr []
     | WriteChange _ target _ _ verify lint previous existed \<Rightarrow>
         (if pe_verify_fails env target then Inl (IoError ''stat'')
          else case fs target of
            None \<Rightarrow> Inl (IoError ''stat'')
          | Some (RegularFile b) \<Rightarrow>
              bindE (check_abort env (AtContent i)) (\<lambda>_.
              if buffer_text env b \<noteq> verify then Inl (WriteVerification target)
              else Inr [\<lparr>lr_path = target, lr_content = lint, lr_previous = previous, lr_delta = existed\<rparr>])
          | Some _ \<Rightarrow> Inl (WriteVerification target))
     | UnchangedFile _ _ _ \<Rightarrow> Inr [])"

fun verify_changes :: "patch_env \<Rightarrow> files \<Rightarrow> nat \<Rightarrow> change list \<Rightarrow> patch_error + lint_request list" where
  "verify_changes env fs i [] = Inr []"
| "verify_changes env fs i (c # cs) =
     bindE (verify_change env fs i c) (\<lambda>requests.
     bindE (verify_changes env fs (i + 1) cs) (\<lambda>more. Inr (requests @ more)))"

definition restore_file :: "patch_env \<Rightarrow> (path \<times> bytes option) list \<Rightarrow> files \<Rightarrow> path \<Rightarrow> files option" where
  "restore_file env initial fs target =
     (if pe_restore_fails env target then None
      else case map_of initial target of
             Some (Some b) \<Rightarrow>
               (case make_dirs fs (butlast target) of None \<Rightarrow> None | Some fs1 \<Rightarrow> put_file fs1 target b)
           | _ \<Rightarrow> remove_file True fs target)"

text \<open>From the last attempted path to the first; the paths that could not be restored.\<close>

fun rollback :: "patch_env \<Rightarrow> (path \<times> bytes option) list \<Rightarrow> files \<Rightarrow> path list \<Rightarrow> path list \<times> files" where
  "rollback env initial fs [] = ([], fs)"
| "rollback env initial fs (target # targets) =
     (case restore_file env initial fs target of
        None \<Rightarrow> (let (failures, fs') = rollback env initial fs targets in (target # failures, fs'))
      | Some fs' \<Rightarrow> rollback env initial fs' targets)"

text \<open>The answer, with the targets reported as not changed.\<close>

definition apply_changes :: "patch_env \<Rightarrow> plan \<Rightarrow> files \<Rightarrow> (patch_error + string \<times> path list) \<times> files" where
  "apply_changes env pl fs =
     (let todo = filter actionable (pl_changes pl);
          unchanged = map ch_target (filter (\<lambda>c. \<not> actionable c) (pl_changes pl));
          summaries = join_with [CHR 10] (map format_summary (pl_summaries pl))
      in if todo = [] then
           (bindE (check_abort env AtNothing) (\<lambda>_. bindE (check_abort env AtReported) (\<lambda>_.
              Inr (''No changes made by patch:'' @ [CHR 10] @ summaries, unchanged))), fs)
         else
           (let (failed, fs1, attempted) = make_changes env 0 todo fs [];
                result = (case failed of
                   Some e \<Rightarrow> Inl e
                 | None \<Rightarrow>
                     bindE (verify_changes env fs1 0 todo) (\<lambda>requests.
                     bindE (check_abort env BeforeLint) (\<lambda>_.
                     bindE (pe_lint env requests) (\<lambda>append_results.
                     bindE (check_abort env AfterLint) (\<lambda>_.
                     Inr (append_results (''Patch applied:'' @ [CHR 10] @ summaries), unchanged))))))
            in case result of
                 Inr answer \<Rightarrow> (Inr answer, fs1)
               | Inl e \<Rightarrow>
                   (let (failures, fs2) = rollback env (pl_initial pl) fs1 (rev attempted)
                    in (if failures = [] then Inl e else Inl (RollbackFailed e failures), fs2))))"

section \<open>The tool\<close>

datatype outcome =
    Answer string "path list"
  | InputNotText
  | OtherParameters
  | PatchRefused patch_error
  | Thrown patch_error

definition plan_patch :: "patch_env \<Rightarrow> files \<Rightarrow> string \<Rightarrow> patch_error + plan" where
  "plan_patch env fs input =
     bindE (check_abort env AtStart) (\<lambda>_.
     bindE (lift_envelope (parse_patch_envelope input)) (\<lambda>parsed.
     bindE (normalize_operations env fs parsed) (\<lambda>ops.
     bindE (plan_operations env fs ops) (\<lambda>pl.
     bindE (check_abort env AtPlanned) (\<lambda>_. Inr pl)))))"

definition execute_patch :: "patch_env \<Rightarrow> json \<Rightarrow> files \<Rightarrow> outcome \<times> files" where
  "execute_patch env params fs =
     (case params of
        JObj kvs \<Rightarrow>
          (case map_of kvs ''input'' of
             Some (JStr input) \<Rightarrow>
               if js_trim input = [] then (InputNotText, fs)
               else if length kvs \<noteq> 1 then (OtherParameters, fs)
               else (case plan_patch env fs input of
                  Inl Aborted \<Rightarrow> (Thrown Aborted, fs)
                | Inl e \<Rightarrow> (PatchRefused e, fs)
                | Inr pl \<Rightarrow>
                    (case apply_changes env pl fs of
                       (Inl e, fs') \<Rightarrow> (Thrown e, fs')
                     | (Inr (answer, unchanged), fs') \<Rightarrow> (Answer answer unchanged, fs')))
           | _ \<Rightarrow> (InputNotText, fs))
      | _ \<Rightarrow> (InputNotText, fs))"

section \<open>Paths stay inside the workspace\<close>

lemma relative_segmentsD:
  "relative_segments as bs = [] \<or> hd (relative_segments as bs) \<noteq> ''..'' \<Longrightarrow> bs = as @ relative_segments as bs"
  by (induction as bs rule: relative_segments.induct) (auto split: if_splits, metis hd_replicate length_0_conv)

lemma no_dots_normalized:
  "''..'' \<notin> set stack \<Longrightarrow> ''..'' \<notin> set (normalize_segments False stack segs)"
  by (induction False stack segs rule: normalize_segments.induct) (auto split: list.splits)

text \<open>A file system is a tree: what exists stands in a directory.\<close>

definition files_ok :: "files \<Rightarrow> bool" where
  "files_ok fs \<longleftrightarrow> (\<forall>p s. fs (p @ [s]) \<noteq> None \<longrightarrow> fs p = Some Directory)"

lemma below_missing: "files_ok fs \<Longrightarrow> fs p = None \<Longrightarrow> fs (p @ q) = None"
proof (induction q rule: rev_induct)
  case (snoc s q)
  then have "fs (p @ q) = None" by simp
  with snoc.prems(1) show ?case by (metis append_assoc files_ok_def option.discI)
qed simp

lemma inspect_pathD:
  assumes "inspect_path env fs n cur rel = Inr ()" and "files_ok fs" and "0 < i" and "i \<le> length rel"
  shows "fs (cur @ take i rel) \<noteq> Some Link \<and> (i < length rel \<longrightarrow> fs (cur @ take i rel) \<in> {None, Some Directory})"
  using assms
proof (induction env fs n cur rel arbitrary: i rule: inspect_path.induct)
  case (2 env fs n cur seg rest)
  show ?case
  proof (cases "fs (cur @ [seg])")
    case None
    have "cur @ take i (seg # rest) = (cur @ [seg]) @ take (i - 1) rest" using "2.prems"(3) by (cases i) auto
    moreover have "fs ((cur @ [seg]) @ take (i - 1) rest) = None" by (rule below_missing [OF "2.prems"(2) None])
    ultimately show ?thesis by simp
  next
    case (Some node)
    with "2.prems"(1) have node: "node \<noteq> Link" "rest = [] \<or> node = Directory" "\<not> pe_inspect_fails env (cur @ [seg])"
      and more: "inspect_path env fs n (cur @ [seg]) rest = Inr ()"
      by (auto simp: Let_def split: if_splits)
    show ?thesis
    proof (cases "i = 1")
      case True
      with Some node show ?thesis by auto
    next
      case False
      with "2.prems"(3,4) have "0 < i - 1" "i - 1 \<le> length rest" by auto
      with "2.IH" [OF refl node(3) Some node(1) _ more "2.prems"(2)] node(2)
      have "fs ((cur @ [seg]) @ take (i - 1) rest) \<noteq> Some Link
        \<and> (i - 1 < length rest \<longrightarrow> fs ((cur @ [seg]) @ take (i - 1) rest) \<in> {None, Some Directory})" by auto
      moreover have "(cur @ [seg]) @ take (i - 1) rest = cur @ take i (seg # rest)" using "2.prems"(3) by (cases i) auto
      ultimately show ?thesis using "2.prems"(3) by auto
    qed
  qed
qed simp

text \<open>
  C31: A path of a patch, relative or absolute, resolves to a place strictly below the workspace: no
  segment is \<open>..\<close>, no node on the way to it (itself included) is a symbolic link, and what exists on the way
  is a directory.
\<close>

theorem resolve_path_contained:
  assumes "resolve_path env fs requested = Inr target" and "files_ok fs"
  shows "\<exists>rel. rel \<noteq> [] \<and> target = pe_workspace env @ rel \<and> ''..'' \<notin> set target
     \<and> list_all (\<lambda>i. fs (pe_workspace env @ take (i + 1) rel) \<noteq> Some Link
         \<and> (i + 1 = length rel \<or> fs (pe_workspace env @ take (i + 1) rel) \<in> {None, Some Directory})) [0 ..< length rel]"
proof -
  let ?ws = "pe_workspace env"
  let ?rel = "relative_segments ?ws target"
  from assms(1) obtain normalized where n: "target = resolve_segments ?ws normalized"
    and rel: "?rel \<noteq> []" "hd ?rel \<noteq> ''..''" and inspected: "inspect_path env fs normalized ?ws ?rel = Inr ()"
    by (auto simp: resolve_path_def resolve_normalized_path_def error_simps Let_def split: sum.splits if_splits)
  have below: "target = ?ws @ ?rel" using rel by (intro relative_segmentsD) simp
  have dots: "''..'' \<notin> set target" by (simp add: n resolve_segments_def no_dots_normalized)
  have "fs (?ws @ take (i + 1) ?rel) \<noteq> Some Link
      \<and> (i + 1 = length ?rel \<or> fs (?ws @ take (i + 1) ?rel) \<in> {None, Some Directory})" if "i \<in> set [0 ..< length ?rel]" for i
    using inspect_pathD [OF inspected assms(2), of "i + 1"] that by auto
  then have way: "list_all (\<lambda>i. fs (?ws @ take (i + 1) ?rel) \<noteq> Some Link
      \<and> (i + 1 = length ?rel \<or> fs (?ws @ take (i + 1) ?rel) \<in> {None, Some Directory})) [0 ..< length ?rel]"
    unfolding list_all_iff by blast
  show ?thesis by (intro exI [of _ ?rel] conjI) (fact rel(1) below dots way)+
qed

section \<open>What is planned\<close>

definition snaps_ok :: "files \<Rightarrow> (path \<times> bytes option) list \<Rightarrow> bool" where
  "snaps_ok fs snaps \<longleftrightarrow> (\<forall>(t, s) \<in> set snaps. fs t = map_option RegularFile s)"

fun change_ok :: "files \<Rightarrow> change \<Rightarrow> bool" where
  "change_ok fs (WriteChange rel t before after verify lint previous existed) \<longleftrightarrow>
     fs t = map_option RegularFile before \<and> existed = (before \<noteq> None) \<and> before \<noteq> Some after"
| "change_ok fs (DeleteChange rel t b) \<longleftrightarrow> fs t = Some (RegularFile b)"
| "change_ok fs (UnchangedFile rel t b) \<longleftrightarrow> fs t = Some (RegularFile b)"

definition plan_ok :: "files \<Rightarrow> plan \<Rightarrow> bool" where
  "plan_ok fs pl \<longleftrightarrow> snaps_ok fs (pl_initial pl) \<and> list_all (change_ok fs) (pl_changes pl)
     \<and> ch_target ` set (pl_changes pl) \<subseteq> dom (map_of (pl_initial pl))"

lemma get_snapshotD:
  assumes "get_snapshot env fs t snaps = Inr (s, snaps')" and "snaps_ok fs snaps"
  shows "snaps_ok fs snaps' \<and> fs t = map_option RegularFile s \<and> t \<in> dom (map_of snaps') \<and> dom (map_of snaps) \<subseteq> dom (map_of snaps')"
proof (cases "map_of snaps t")
  case None
  with assms show ?thesis
    by (auto simp: get_snapshot_def read_snapshot_def snaps_ok_def error_simps map_add_def
        split: if_splits option.splits fs_node.splits)
next
  case (Some r)
  with assms show ?thesis
    by (auto simp: get_snapshot_def snaps_ok_def dest: map_of_SomeD)
qed

lemma plan_operation_ok:
  assumes "plan_operation env fs resolved pl (i, operation) = Inr pl'" and ok: "plan_ok fs pl"
  shows "plan_ok fs pl'"
proof -
  let ?rel = "op_path operation"
  from assms(1) obtain source snaps where s: "get_snapshot env fs (the (resolved ?rel)) (pl_initial pl) = Inr (source, snaps)"
    by (auto simp: error_simps Let_def)
  have S: "snaps_ok fs snaps" "fs (the (resolved ?rel)) = map_option RegularFile source" "the (resolved ?rel) \<in> dom (map_of snaps)"
    "dom (map_of (pl_initial pl)) \<subseteq> dom (map_of snaps)"
    using get_snapshotD [OF s] ok by (auto simp: plan_ok_def)
  have add: "plan_ok fs (add_change pl snaps' cs su)"
    if "snaps_ok fs snaps'" "dom (map_of snaps) \<subseteq> dom (map_of snaps')" "list_all (change_ok fs) cs" "ch_target ` set cs \<subseteq> dom (map_of snaps')"
    for snaps' cs su
  proof -
    have "ch_target ` set (pl_changes pl) \<subseteq> dom (map_of snaps')" using that(2) ok S(4) unfolding plan_ok_def by (meson order_trans)
    with that ok show ?thesis by (simp add: plan_ok_def add_change_def image_Un)
  qed
  show ?thesis
  proof (cases operation)
    case (AddFile p n ls)
    with assms(1) s S show ?thesis by (auto simp: error_simps Let_def intro!: add)
  next
    case (DeleteFile p n)
    with assms(1) s S show ?thesis by (auto simp: error_simps Let_def split: option.splits intro!: add)
  next
    case (UpdateFile p n mv hs)
    show ?thesis
    proof (cases mv)
      case None
      with assms(1) s UpdateFile obtain b after raw decoded su where b: "source = Some b"
        and pl': "pl' = add_change pl snaps [if b = after then UnchangedFile p (the (resolved p)) b
          else WriteChange p (the (resolved p)) (Some b) after (buffer_text env after) raw (Some decoded) True] su"
        by (auto simp: error_simps Let_def split: option.splits)
      show ?thesis unfolding pl' by (intro add) (use S UpdateFile b in auto)
    next
      case (Some tm)
      obtain t m where tm: "tm = (t, m)" by (cases tm)
      from assms(1) s UpdateFile Some tm obtain b after raw snaps' su where b: "source = Some b"
        and dest: "get_snapshot env fs (the (resolved t)) snaps = Inr (None, snaps')"
        and pl': "pl' = add_change pl snaps' [WriteChange t (the (resolved t)) None after (buffer_text env after) raw None False,
          DeleteChange p (the (resolved p)) b] su"
        by (auto simp: error_simps Let_def split: option.splits)
      from get_snapshotD [OF dest S(1)] S(2,3) b UpdateFile show ?thesis unfolding pl' by (intro add) auto
    qed
  qed
qed

lemma plan_operations_ok:
  assumes "plan_operations env fs ops = Inr pl"
  shows "plan_ok fs pl"
proof -
  from assms obtain resolved where run: "foldE (plan_operation env fs resolved)
      \<lparr>pl_changes = [], pl_summaries = [], pl_initial = []\<rparr> (zip [0 ..< length ops] ops) = Inr pl"
    by (auto simp: plan_operations_def error_simps)
  show ?thesis
  proof (rule foldE_invariant [OF run])
    fix pl x pl'
    assume "plan_ok fs pl" and "plan_operation env fs resolved pl x = Inr pl'"
    then show "plan_ok fs pl'" using plan_operation_ok by (cases x) metis
  qed (simp add: plan_ok_def snaps_ok_def)
qed

lemma planned: "plan_patch env fs input = Inr pl \<Longrightarrow> plan_ok fs pl"
  using plan_operations_ok by (auto simp: plan_patch_def error_simps)

text \<open>
  A plan never overwrites what it does not know. A file that a patch adds or moves to does not exist,
  a file that it changes or deletes is a regular file whose bytes the plan holds, a change that changes
  nothing is not planned as a write, and the bytes of every planned target are kept for the roll back.
\<close>

theorem planned_changes_known:
  assumes "plan_patch env fs input = Inr pl"
  shows "snaps_ok fs (pl_initial pl) \<and> list_all (change_ok fs) (pl_changes pl)
     \<and> ch_target ` set (pl_changes pl) \<subseteq> dom (map_of (pl_initial pl))"
  using planned [OF assms] unfolding plan_ok_def .

section \<open>A failed patch leaves the files as they were\<close>

text \<open>A path is as it was, or is a directory that was made for a file below it.\<close>

definition as_before :: "files \<Rightarrow> files \<Rightarrow> path \<Rightarrow> bool" where
  "as_before fs fs' p \<longleftrightarrow> fs' p = fs p \<or> fs p = None \<and> fs' p = Some Directory"

lemma make_dirsD:
  assumes "make_dirs cur d = Some cur'"
  shows "as_before cur cur' p" and "\<not> prefix p d \<Longrightarrow> cur' p = cur p"
proof -
  from assms have dirs: "\<forall>i \<le> length d. cur (take i d) \<in> {None, Some Directory}"
    and cur': "cur' = (\<lambda>q. if prefix q d then Some Directory else cur q)"
    by (auto simp: make_dirs_def list_ex_iff less_Suc_eq_le split: if_splits)
  have "cur p \<in> {None, Some Directory}" if "prefix p d"
    using dirs that prefix_length_le [OF that] by (metis append_eq_conv_conj prefixE)
  with cur' show "as_before cur cur' p" by (auto simp: as_before_def)
  show "\<not> prefix p d \<Longrightarrow> cur' p = cur p" using cur' by simp
qed

lemma as_before_trans: "as_before fs cur p \<Longrightarrow> as_before cur cur' p \<Longrightarrow> as_before fs cur' p"
  by (auto simp: as_before_def)

lemma put_fileD: "put_file cur t b = Some cur' \<Longrightarrow> cur' t = Some (RegularFile b) \<and> (\<forall>p. p \<noteq> t \<longrightarrow> cur' p = cur p)"
  by (auto simp: put_file_def split: option.splits fs_node.splits)

lemma remove_fileD: "remove_file force cur t = Some cur' \<Longrightarrow> cur' t = None \<and> (\<forall>p. p \<noteq> t \<longrightarrow> cur' p = cur p)"
  by (auto simp: remove_file_def split: option.splits fs_node.splits if_splits)

lemma make_change_other:
  assumes "make_change env cur c = (e, cur')" and "p \<noteq> ch_target c"
  shows "as_before cur cur' p"
proof (cases c)
  case (WriteChange rel t before after verify lint previous existed)
  show ?thesis
  proof (cases "make_dirs cur (butlast t)")
    case (Some cur1)
    have "cur' p = cur p \<or> cur' p = cur1 p"
      using assms WriteChange Some
      by (auto simp: make_change_def split: if_splits option.splits dest!: put_fileD)
    with make_dirsD(1) [OF Some, of p] show ?thesis by (auto simp: as_before_def)
  qed (use assms WriteChange in \<open>auto simp: make_change_def as_before_def split: if_splits\<close>)
qed (use assms in \<open>auto simp: make_change_def as_before_def split: if_splits option.splits dest!: remove_fileD\<close>)

lemma make_changes_attempted:
  assumes "make_changes env i cs cur attempted = (e, cur', attempted')"
  shows "set attempted \<subseteq> set attempted' \<and> set attempted' \<subseteq> set attempted \<union> ch_target ` set cs
    \<and> (\<forall>p. p \<notin> set attempted' \<longrightarrow> as_before cur cur' p) \<and> (e = None \<longrightarrow> ch_target ` set cs \<subseteq> set attempted')"
  using assms
proof (induction env i cs cur attempted arbitrary: rule: make_changes.induct)
  case (1 env i fs attempted)
  then show ?case by (auto simp: as_before_def)
next
  case (2 env i c cs fs attempted)
  show ?case
  proof (cases "pe_aborted env (AtChange i)")
    case True
    with "2.prems" show ?thesis by (auto simp: as_before_def)
  next
    case False
    let ?att = "mark_attempted attempted (ch_target c)"
    have att: "set ?att = insert (ch_target c) (set attempted)" by (auto simp: mark_attempted_def)
    obtain e1 fs1 where c: "make_change env fs c = (e1, fs1)" by fastforce
    show ?thesis
    proof (cases e1)
      case None
      with "2.prems" False c have "make_changes env (i + 1) cs fs1 ?att = (e, cur', attempted')" by simp
      with "2.IH" [OF False refl c [symmetric] None] have IH: "set ?att \<subseteq> set attempted'"
        "set attempted' \<subseteq> set ?att \<union> ch_target ` set cs" "\<forall>p. p \<notin> set attempted' \<longrightarrow> as_before fs1 cur' p"
        "e = None \<longrightarrow> ch_target ` set cs \<subseteq> set attempted'" by blast+
      have "as_before fs cur' p" if "p \<notin> set attempted'" for p
      proof (rule as_before_trans)
        show "as_before fs fs1 p" using make_change_other [OF c, of p] IH(1) that att by auto
        show "as_before fs1 cur' p" using IH(3) that by blast
      qed
      with IH att show ?thesis by auto
    next
      case (Some x)
      with "2.prems" False c have "fs1 = cur'" "attempted' = ?att" "e = Some x" by auto
      with make_change_other [OF c] att show ?thesis by auto
    qed
  qed
qed

lemma restore_fileD:
  assumes "restore_file env initial cur t = Some cur'" and "snaps_ok fs initial" and "t \<in> dom (map_of initial)"
  shows "cur' t = fs t \<and> (\<forall>p. p \<noteq> t \<longrightarrow> as_before cur cur' p)"
proof -
  from assms(3) obtain s where s: "map_of initial t = Some s"
    by blast
  then have fs: "fs t = map_option RegularFile s" using assms(2) by (auto simp: snaps_ok_def dest!: map_of_SomeD)
  show ?thesis
  proof (cases s)
    case None
    with assms(1) s fs show ?thesis
      by (auto simp: restore_file_def as_before_def split: if_splits dest!: remove_fileD)
  next
    case (Some b)
    with assms(1) s obtain cur1 where "make_dirs cur (butlast t) = Some cur1" "put_file cur1 t b = Some cur'"
      by (auto simp: restore_file_def split: if_splits option.splits)
    with make_dirsD(1) put_fileD fs Some show ?thesis by (fastforce simp: as_before_def)
  qed
qed

lemma rollback_restores:
  assumes "rollback env initial cur targets = (failures, cur')" and "snaps_ok fs initial"
    and "set targets \<subseteq> dom (map_of initial)" and "\<forall>p. p \<notin> set targets \<union> bad \<longrightarrow> as_before fs cur p"
  shows "p \<notin> set failures \<union> bad \<Longrightarrow> as_before fs cur' p"
  using assms
proof (induction env initial cur targets arbitrary: failures bad rule: rollback.induct)
  case (1 env initial fs)
  then show ?case by simp
next
  case (2 env initial cur t targets)
  show ?case
  proof (cases "restore_file env initial cur t")
    case None
    with "2.prems"(2) obtain failures' where r: "rollback env initial cur targets = (failures', cur')" "failures = t # failures'"
      by (auto simp: Let_def split: prod.splits)
    show ?thesis
      by (rule "2.IH"(1) [OF None, where bad = "insert t bad" and failures = failures']) (use r "2.prems" in auto)
  next
    case (Some cur1)
    from restore_fileD [OF Some "2.prems"(3)] "2.prems"(4)
    have t: "cur1 t = fs t" "\<forall>p. p \<noteq> t \<longrightarrow> as_before cur cur1 p" by auto
    have "as_before fs cur1 p" if "p \<notin> set targets \<union> bad" for p
    proof (cases "p = t")
      case True
      with t(1) show ?thesis by (simp add: as_before_def)
    next
      case False
      with that "2.prems"(5) t(2) as_before_trans show ?thesis by auto
    qed
    then show ?thesis
      by (intro "2.IH"(2) [OF Some, where bad = bad and failures = failures]) (use "2.prems" Some in auto)
  qed
qed

lemma apply_changes_failed:
  assumes "apply_changes env pl fs = (Inl e, fs')" and ok: "plan_ok fs pl"
  shows "p \<notin> (case e of RollbackFailed _ ps \<Rightarrow> set ps | _ \<Rightarrow> {}) \<Longrightarrow> as_before fs fs' p"
proof (cases "filter actionable (pl_changes pl) = []")
  case True
  with assms(1) show ?thesis by (auto simp: apply_changes_def Let_def as_before_def)
next
  case False
  assume p: "p \<notin> (case e of RollbackFailed _ ps \<Rightarrow> set ps | _ \<Rightarrow> {})"
  obtain failed fs1 attempted where run: "make_changes env 0 (filter actionable (pl_changes pl)) fs [] = (failed, fs1, attempted)"
    by (metis prod_cases3)
  obtain failures fs2 where undone: "rollback env (pl_initial pl) fs1 (rev attempted) = (failures, fs2)" by fastforce
  from assms(1) False run undone have fs': "fs' = fs2" and e: "failures = [] \<or> (\<exists>e'. e = RollbackFailed e' failures)"
    by (auto simp: apply_changes_def Let_def split: sum.splits if_splits)
  have "set attempted \<subseteq> ch_target ` set (pl_changes pl)" using make_changes_attempted [OF run] by auto
  with ok have "set (rev attempted) \<subseteq> dom (map_of (pl_initial pl))" unfolding plan_ok_def set_rev by (meson order_trans)
  moreover have "\<forall>p. p \<notin> set (rev attempted) \<union> {} \<longrightarrow> as_before fs fs1 p" using make_changes_attempted [OF run] by simp
  moreover have "p \<notin> set failures \<union> {}" using p e by auto
  ultimately show ?thesis using rollback_restores [OF undone, where bad = "{}"] ok fs' unfolding plan_ok_def by blast
qed

text \<open>
  C29: A patch that is refused or fails changes no file. Whatever call fails and wherever the run is aborted,
  after an outcome other than an answer every path holds what it held before, except that directories
  made on the way may remain and except for the paths the error names as not restored; and a
  patch that is refused before the first change leaves everything as it was.
\<close>

theorem failed_patch_restores:
  assumes "execute_patch env params fs = (result, fs')"
  shows "case result of
      Answer _ _ \<Rightarrow> True
    | Thrown (RollbackFailed e ps) \<Rightarrow> \<forall>p. p \<in> set ps \<or> as_before fs fs' p
    | Thrown e \<Rightarrow> \<forall>p. as_before fs fs' p
    | _ \<Rightarrow> fs' = fs"
proof -
  have thrown: "p \<notin> (case e of RollbackFailed _ ps \<Rightarrow> set ps | _ \<Rightarrow> {}) \<Longrightarrow> as_before fs fs' p"
    if "result = Thrown e" for e p
  proof (cases "fs' = fs")
    case False
    assume p: "p \<notin> (case e of RollbackFailed _ ps \<Rightarrow> set ps | _ \<Rightarrow> {})"
    from assms that False obtain input pl where "plan_patch env fs input = Inr pl" "apply_changes env pl fs = (Inl e, fs')"
      by (auto simp: execute_patch_def split: json.splits option.splits sum.splits if_splits patch_error.splits prod.splits)
    with p apply_changes_failed planned show ?thesis by blast
  qed (simp add: as_before_def)
  show ?thesis
  proof (cases result)
    case (Thrown e)
    with thrown [OF Thrown] show ?thesis by (cases e) auto
  qed (use assms in \<open>auto simp: execute_patch_def split: json.splits option.splits sum.splits if_splits patch_error.splits prod.splits\<close>)
qed

section \<open>A patch that is answered has been made\<close>

fun change_made :: "patch_env \<Rightarrow> files \<Rightarrow> change \<Rightarrow> bool" where
  "change_made env fs (WriteChange rel t before after verify lint previous existed) \<longleftrightarrow>
     (case fs t of Some (RegularFile b) \<Rightarrow> buffer_text env b = verify | _ \<Rightarrow> False)"
| "change_made env fs (DeleteChange rel t b) \<longleftrightarrow> fs t = None"
| "change_made env fs (UnchangedFile rel t b) \<longleftrightarrow> True"

lemma verify_changeD: "verify_change env fs i c = Inr r \<Longrightarrow> change_made env fs c"
  by (cases c) (auto simp: verify_change_def error_simps split: if_splits option.splits fs_node.splits)

lemma verify_changesD: "verify_changes env fs i cs = Inr r \<Longrightarrow> list_all (change_made env fs) cs"
  by (induction env fs i cs arbitrary: r rule: verify_changes.induct) (auto simp: error_simps dest: verify_changeD)

text \<open>
  C30: A patch that is answered has been made: every planned file is there with the text that was planned,
  every deleted or moved file is gone, and every other path holds what it held before or is a
  directory made for a new file.
\<close>

theorem answered_patch_made:
  assumes "execute_patch env params fs = (Answer answer unchanged, fs')"
  shows "\<exists>input pl. plan_patch env fs input = Inr pl \<and> plan_ok fs pl \<and> list_all (change_made env fs') (pl_changes pl)
     \<and> unchanged = map ch_target (filter (\<lambda>c. \<not> actionable c) (pl_changes pl))
     \<and> (\<forall>p. p \<in> ch_target ` set (filter actionable (pl_changes pl)) \<or> as_before fs fs' p)"
proof -
  from assms obtain input pl where pl: "plan_patch env fs input = Inr pl"
    and run: "apply_changes env pl fs = (Inr (answer, unchanged), fs')"
    by (auto simp: execute_patch_def split: json.splits option.splits sum.splits if_splits patch_error.splits prod.splits)
  let ?todo = "filter actionable (pl_changes pl)"
  have other: "change_made env fs' c" if "\<not> actionable c" for c
    using that by (cases c) (auto simp: actionable_def)
  have "list_all (change_made env fs') ?todo \<and> unchanged = map ch_target (filter (\<lambda>c. \<not> actionable c) (pl_changes pl))
     \<and> (\<forall>p. p \<in> ch_target ` set ?todo \<or> as_before fs fs' p)"
  proof (cases "?todo = []")
    case True
    with run show ?thesis by (auto simp: apply_changes_def Let_def error_simps as_before_def)
  next
    case False
    obtain failed fs1 attempted where made: "make_changes env 0 ?todo fs [] = (failed, fs1, attempted)"
      by (metis prod_cases3)
    let ?names = "map ch_target (filter (\<lambda>c. \<not> actionable c) (pl_changes pl))"
    have "failed = None" using run False made
      by (cases failed) (simp_all add: apply_changes_def Let_def split: prod.splits if_splits)
    define text_of where "text_of = ''Patch applied:'' @ [CHR 10] @ join_with [CHR 10] (map format_summary (pl_summaries pl))"
    define finish where "finish = bindE (verify_changes env fs1 0 ?todo) (\<lambda>requests. bindE (check_abort env BeforeLint) (\<lambda>_.
        bindE (pe_lint env requests) (\<lambda>append_results. bindE (check_abort env AfterLint) (\<lambda>_.
        Inr (append_results text_of, ?names)))))"
    have "finish = Inr (answer, unchanged) \<and> fs' = fs1"
      using run False made \<open>failed = None\<close> unfolding apply_changes_def Let_def
      by (cases finish) (simp_all add: finish_def text_of_def split: prod.splits if_splits)
    then obtain requests where "verify_changes env fs1 0 ?todo = Inr requests" "fs' = fs1" "unchanged = ?names"
      by (auto simp: finish_def error_simps)
    moreover from \<open>failed = None\<close> make_changes_attempted [OF made]
    have "p \<in> ch_target ` set ?todo \<or> as_before fs fs1 p" for p by auto
    ultimately show ?thesis using verify_changesD by blast
  qed
  with other have "list_all (change_made env fs') (pl_changes pl)" by (auto simp: list_all_iff)
  with \<open>list_all (change_made env fs') ?todo \<and> _\<close> pl planned show ?thesis by blast
qed

end
