(* ===== verification/Patch_Example.thy ===== *)
theory Patch_Example
  imports Patch_Scan Patch_Apply
begin

text \<open>
  A patch that adds one file and changes another, applied to a small workspace: the theorems on the
  edit tool at concrete inputs, with a run that succeeds and one whose second write fails.
\<close>

definition ex_patch :: string where
  "ex_patch = join_with [CHR 10] [''*** Begin Patch'', ''*** Add File: d/n'', ''+x'', ''*** Update File: ./a'',
     ''@@ top'', ''-old'', ''+new'', ''*** End Patch'']"

definition ex_ops :: "file_op list" where
  "ex_ops = [AddFile ''d/n'' 2 [''x''],
     UpdateFile ''a'' 4 None [\<lparr>hk_line = 5, hk_anchor = Some ''top'', hk_lines = [(Remove, ''old''), (Add, ''new'')], hk_eof = False\<rparr>]]"

lemma ex_parse: "parse_patch_envelope ex_patch = Inr ex_ops"
  by code_simp


theorem parsed_patch_ok_witness: "distinct (map op_path ex_ops) \<and> list_all op_ok ex_ops"
  using parsed_patch_ok [OF ex_parse] by simp

section \<open>A patch that the scanner follows only in part\<close>

definition ex_eof_patch :: string where
  "ex_eof_patch = join_with [CHR 10] [''*** Begin Patch'', ''*** Update File: a'', ''@@'', ''+x'', ''*** End of File'',
     ''@@'', ''+y'', ''*** End of File'', ''*** End Patch'']"

lemma scan_stops_after_eof:
  "(case parse_patch_envelope ex_eof_patch of Inl _ \<Rightarrow> [] | Inr ops \<Rightarrow> map (pg_added \<circ> progress_of) ops) = [2]
    \<and> map pg_added (scan_patch_envelope_prefix ex_eof_patch) = [1]"
  by code_simp

section \<open>A workspace\<close>

definition ex_bytes :: "string \<Rightarrow> bytes" where
  "ex_bytes s = map (\<lambda>c. word_of_nat (of_char c)) s"

definition ex_text :: "bytes \<Rightarrow> string" where
  "ex_text b = map (\<lambda>w. char_of (unat w)) b"

definition ex_files :: files where
  "ex_files p = (if p = [] \<or> p = [''w''] then Some Directory
     else if p = [''w'', ''a''] then Some (RegularFile (ex_bytes (''top'' @ [CHR 10] @ ''old'' @ [CHR 10]))) else None)"

definition ex_env :: "(path \<Rightarrow> bytes option option) \<Rightarrow> patch_env" where
  "ex_env failing = \<lparr>pe_workspace = [''w''], pe_decode = (\<lambda>b. Some (ex_text b)), pe_lossy = ex_text, pe_aborted = (\<lambda>_. False),
     pe_inspect_fails = (\<lambda>_. False), pe_read_fails = (\<lambda>_. False), pe_remove_fails = (\<lambda>_. False),
     pe_mkdir_fails = (\<lambda>_. False), pe_write_fails = failing, pe_verify_fails = (\<lambda>_. False),
     pe_restore_fails = (\<lambda>_. False), pe_lint = (\<lambda>_. Inr (\<lambda>s. s))\<rparr>"

definition ex_failing :: "path \<Rightarrow> bytes option option" where
  "ex_failing p = (if p = [''w'', ''a''] then Some (Some []) else None)"

definition ex_params :: json where
  "ex_params = JObj [(''input'', JStr ex_patch)]"

lemma ex_files_ok: "files_ok ex_files"
  by (auto simp: files_ok_def ex_files_def split: if_splits)

lemma seek_in_file: "seek_sequence [''a'', '' b'', ''b''] [''b''] 0 False = Some 2"
  by code_simp

lemma ex_hunks: "apply_hunks (''top'' @ [CHR 10] @ ''old'' @ [CHR 10])
    [\<lparr>hk_line = 5, hk_anchor = Some ''top'', hk_lines = [(Remove, ''old''), (Add, ''new'')], hk_eof = False\<rparr>] ''a''
    = Inr (''top'' @ [CHR 10] @ ''new'' @ [CHR 10])"
  by code_simp

theorem apply_hunks_merges_witness:
  "\<exists>rs. length rs = 1 \<and> lines_to_text (merge_replacements [''top'', ''old''] 0 rs) [CHR 10] = ''top'' @ [CHR 10] @ ''new'' @ [CHR 10]"
proof -
  have ls: "split_text_lines (crlf_to_lf (''top'' @ [CHR 10] @ ''old'' @ [CHR 10])) = [''top'', ''old'']"
    "\<not> has_crlf (''top'' @ [CHR 10] @ ''old'' @ [CHR 10])" by code_simp+
  from apply_hunks_merges [OF ex_hunks, unfolded ls(1)] ls(2) obtain rs where
    located: "hunks_located [''top'', ''old''] 0 [\<lparr>hk_line = 5, hk_anchor = Some ''top'',
      hk_lines = [(Remove, ''old''), (Add, ''new'')], hk_eof = False\<rparr>] rs"
    and "''top'' @ [CHR 10] @ ''new'' @ [CHR 10] = lines_to_text (merge_replacements [''top'', ''old''] 0 rs) [CHR 10]"
    by auto
  moreover from located have "length rs = 1" by (auto simp del: merge_replacements.simps)
  ultimately show ?thesis by metis
qed

lemma ex_resolve: "resolve_path (ex_env ex_failing) ex_files ''./d//n'' = Inr [''w'', ''d'', ''n'']"
  by code_simp

theorem resolve_path_contained_witness: "\<exists>rel. [''w'', ''d'', ''n''] = [''w''] @ rel \<and> rel \<noteq> []"
  using resolve_path_contained [OF ex_resolve ex_files_ok] by (auto simp: ex_env_def)

lemma ex_plan:
  "case plan_patch (ex_env ex_failing) ex_files ex_patch of Inl _ \<Rightarrow> False
     | Inr pl \<Rightarrow> map ch_target (pl_changes pl) = [[''w'', ''d'', ''n''], [''w'', ''a'']]"
  by code_simp

theorem planned_changes_known_witness:
  "\<exists>pl. plan_patch (ex_env ex_failing) ex_files ex_patch = Inr pl \<and> list_all (change_ok ex_files) (pl_changes pl)"
proof -
  obtain pl where "plan_patch (ex_env ex_failing) ex_files ex_patch = Inr pl" using ex_plan by (auto split: sum.splits)
  with planned_changes_known [OF this] show ?thesis by blast
qed

lemma ex_fails: "fst (execute_patch (ex_env ex_failing) ex_params ex_files) = Thrown (IoError ''write'')"
  by code_simp

theorem failed_patch_restores_witness:
  "\<forall>p. as_before ex_files (snd (execute_patch (ex_env ex_failing) ex_params ex_files)) p"
proof -
  let ?r = "execute_patch (ex_env ex_failing) ex_params ex_files"
  have "?r = (Thrown (IoError ''write''), snd ?r)" using ex_fails by (metis prod.collapse)
  from failed_patch_restores [OF this] show ?thesis by simp
qed

lemma ex_answers: "case execute_patch (ex_env (\<lambda>_. None)) ex_params ex_files of
    (Answer s unchanged, fs') \<Rightarrow> fs' [''w'', ''a''] = Some (RegularFile (ex_bytes (''top'' @ [CHR 10] @ ''new'' @ [CHR 10])))
  | _ \<Rightarrow> False"
  by code_simp

theorem answered_patch_made_witness:
  "\<exists>answer unchanged fs' (pl :: plan). execute_patch (ex_env (\<lambda>_. None)) ex_params ex_files = (Answer answer unchanged, fs')
     \<and> list_all (change_made (ex_env (\<lambda>_. None)) fs') (pl_changes pl)"
proof -
  obtain answer unchanged fs' where run: "execute_patch (ex_env (\<lambda>_. None)) ex_params ex_files = (Answer answer unchanged, fs')"
    using ex_answers by (auto split: prod.splits outcome.splits)
  from answered_patch_made [OF this] obtain pl :: plan where
    "list_all (change_made (ex_env (\<lambda>_. None)) fs') (pl_changes pl)" by auto
  with run show ?thesis by auto
qed

section \<open>A path that is trimmed twice\<close>

lemma path_trimmed_again:
  "normalize_patch_path ''./ a'' = Inr '' a'' \<and> relative_path (ex_env ex_failing) ex_files '' a'' = Inr ''a''"
  by code_simp

end
