(* ===== verification/Cron_Types.thy ===== *)
theory Cron_Types
  imports Js_Values
begin

text \<open>
  The jobs of the cron scheduler (\<open>cron/types.ts\<close>) with their JSON form, and the computation of their
  next run (\<open>cron/service.ts\<close>). Times and intervals are the finite numbers of the program.
\<close>

section \<open>Jobs\<close>

datatype schedule_kind = AtTime | Every | CronExpr

record schedule =
  cs_kind :: schedule_kind
  cs_at_ms :: "rat option"
  cs_at :: "string option"
  cs_every_ms :: "rat option"
  cs_expr :: "string option"
  cs_tz :: "string option"

record cron_payload =
  cp_kind :: string
  cp_message :: string
  cp_prompt :: string
  cp_deliver :: bool
  cp_channel :: "string option"
  cp_to :: "string option"
  cp_chat_id :: "string option"
  cp_channel_meta :: json_obj
  cp_session_key :: "string option"
  cp_metadata :: json_obj

record run_record =
  rr_run_at :: rat
  rr_duration :: rat
  rr_status :: string
  rr_error :: "string option"

record job_state =
  jo_next :: "rat option"
  jo_last :: "rat option"
  jo_status :: "string option"
  jo_error :: "string option"
  jo_history :: "run_record list"

record cron_job =
  cj_id :: string
  cj_name :: string
  cj_enabled :: bool
  cj_schedule :: schedule
  cj_payload :: cron_payload
  cj_state :: job_state
  cj_system :: bool
  cj_created :: rat
  cj_updated :: rat
  cj_delete_after :: bool

section \<open>JSON\<close>

fun kind_text :: "schedule_kind \<Rightarrow> string" where
  "kind_text AtTime = ''at''"
| "kind_text Every = ''every''"
| "kind_text CronExpr = ''cron''"

definition num_json :: "rat \<Rightarrow> json" where
  "num_json r = JNum (Fin r)"

definition opt_json :: "('a \<Rightarrow> json) \<Rightarrow> 'a option \<Rightarrow> json" where
  "opt_json f v = (case v of None \<Rightarrow> JNull | Some x \<Rightarrow> f x)"

text \<open>A field that is written only when it has a value.\<close>

definition set_field :: "string \<Rightarrow> ('a \<Rightarrow> json) \<Rightarrow> 'a option \<Rightarrow> json_obj" where
  "set_field k f v = (case v of None \<Rightarrow> [] | Some x \<Rightarrow> [(k, f x)])"

definition schedule_json :: "schedule \<Rightarrow> json" where
  "schedule_json s = JObj ([(''kind'', JStr (kind_text (cs_kind s)))]
     @ set_field ''atMs'' num_json (cs_at_ms s) @ set_field ''at'' JStr (cs_at s)
     @ set_field ''everyMs'' num_json (cs_every_ms s) @ set_field ''expr'' JStr (cs_expr s) @ set_field ''tz'' JStr (cs_tz s))"

definition payload_json :: "cron_payload \<Rightarrow> json" where
  "payload_json p = JObj [(''kind'', JStr (cp_kind p)), (''message'', JStr (cp_message p)), (''prompt'', JStr (cp_prompt p)),
     (''deliver'', JBool (cp_deliver p)), (''channel'', opt_json JStr (cp_channel p)), (''to'', opt_json JStr (cp_to p)),
     (''chatId'', opt_json JStr (cp_chat_id p)), (''channelMeta'', JObj (cp_channel_meta p)),
     (''sessionKey'', opt_json JStr (cp_session_key p)), (''metadata'', JObj (cp_metadata p))]"

definition record_json :: "run_record \<Rightarrow> json" where
  "record_json r = JObj [(''runAtMs'', num_json (rr_run_at r)), (''status'', JStr (rr_status r)),
     (''durationMs'', num_json (rr_duration r)), (''error'', opt_json JStr (rr_error r))]"

definition state_json :: "job_state \<Rightarrow> json" where
  "state_json s = JObj [(''nextRunAtMs'', opt_json num_json (jo_next s)), (''lastRunAtMs'', opt_json num_json (jo_last s)),
     (''lastStatus'', opt_json JStr (jo_status s)), (''lastError'', opt_json JStr (jo_error s)),
     (''runHistory'', JArr (map record_json (jo_history s)))]"

definition job_json :: "cron_job \<Rightarrow> json" where
  "job_json j = JObj [(''id'', JStr (cj_id j)), (''name'', JStr (cj_name j)), (''enabled'', JBool (cj_enabled j)),
     (''schedule'', schedule_json (cj_schedule j)), (''payload'', payload_json (cj_payload j)), (''state'', state_json (cj_state j)),
     (''system'', JBool (cj_system j)), (''createdAtMs'', num_json (cj_created j)), (''updatedAtMs'', num_json (cj_updated j)),
     (''deleteAfterRun'', JBool (cj_delete_after j))]"

definition store_json :: "rat \<Rightarrow> cron_job list \<Rightarrow> json" where
  "store_json version jobs = JObj [(''version'', num_json version), (''jobs'', JArr (map job_json jobs))]"

text \<open>
  The constructors. \<open>NullValue\<close> is the \<open>TypeError\<close> of a field of \<open>null\<close>. The program keeps values of
  another type than the declared one as they are; the model refuses them with \<open>IllTyped\<close>.
\<close>

datatype cron_load_error = NullValue | IllTyped

definition read_as :: "(json \<Rightarrow> 'a option) \<Rightarrow> json option \<Rightarrow> cron_load_error + 'a option" where
  "read_as f v = (case nullish v None of None \<Rightarrow> Inr None
     | Some j \<Rightarrow> (case f j of None \<Rightarrow> Inl IllTyped | Some x \<Rightarrow> Inr (Some x)))"

definition read_or :: "'a \<Rightarrow> (json \<Rightarrow> 'a option) \<Rightarrow> json option \<Rightarrow> cron_load_error + 'a" where
  "read_or d f v = bindE (read_as f v) (\<lambda>x. Inr (case x of None \<Rightarrow> d | Some y \<Rightarrow> y))"

definition str_of :: "json \<Rightarrow> string option" where
  "str_of j = (case j of JStr s \<Rightarrow> Some s | _ \<Rightarrow> None)"

definition num_of :: "json \<Rightarrow> rat option" where
  "num_of j = (case j of JNum (Fin r) \<Rightarrow> Some r | _ \<Rightarrow> None)"

definition bool_of :: "json \<Rightarrow> bool option" where
  "bool_of j = (case j of JBool b \<Rightarrow> Some b | _ \<Rightarrow> None)"

definition obj_of :: "json \<Rightarrow> json_obj option" where
  "obj_of j = (case j of JObj kvs \<Rightarrow> Some kvs | _ \<Rightarrow> None)"

definition arr_of :: "json \<Rightarrow> json list option" where
  "arr_of j = (case j of JArr rows \<Rightarrow> Some rows | _ \<Rightarrow> None)"

definition kind_of :: "json \<Rightarrow> schedule_kind option" where
  "kind_of j = (if j = JStr ''at'' then Some AtTime else if j = JStr ''every'' then Some Every
     else if j = JStr ''cron'' then Some CronExpr else None)"

definition json_schedule :: "json_obj \<Rightarrow> cron_load_error + schedule" where
  "json_schedule kvs =
     bindE (read_or Every kind_of (map_of kvs ''kind'')) (\<lambda>kind.
     bindE (read_as num_of (map_of kvs ''atMs'')) (\<lambda>at_ms.
     bindE (read_as str_of (map_of kvs ''at'')) (\<lambda>at_text.
     bindE (read_as num_of (map_of kvs ''everyMs'')) (\<lambda>every.
     bindE (read_as str_of (map_of kvs ''expr'')) (\<lambda>expr.
     bindE (read_as str_of (map_of kvs ''tz'')) (\<lambda>tz.
     Inr \<lparr>cs_kind = kind, cs_at_ms = at_ms, cs_at = at_text, cs_every_ms = every, cs_expr = expr, cs_tz = tz\<rparr>))))))"

definition or_else :: "'a option \<Rightarrow> 'a option \<Rightarrow> 'a option" where
  "or_else a b = (case a of None \<Rightarrow> b | Some x \<Rightarrow> Some x)"

definition json_payload :: "json_obj \<Rightarrow> cron_load_error + cron_payload" where
  "json_payload kvs =
     bindE (read_or ''agentTurn'' str_of (map_of kvs ''kind'')) (\<lambda>kind.
     bindE (read_as str_of (map_of kvs ''message'')) (\<lambda>message.
     bindE (read_as str_of (map_of kvs ''prompt'')) (\<lambda>prompt.
     bindE (read_or False bool_of (map_of kvs ''deliver'')) (\<lambda>deliver.
     bindE (read_as str_of (map_of kvs ''channel'')) (\<lambda>channel.
     bindE (read_as str_of (map_of kvs ''to'')) (\<lambda>to.
     bindE (read_as str_of (map_of kvs ''chatId'')) (\<lambda>chat_id.
     bindE (read_or [] obj_of (map_of kvs ''channelMeta'')) (\<lambda>channel_meta.
     bindE (read_as str_of (map_of kvs ''sessionKey'')) (\<lambda>session_key.
     bindE (read_or [] obj_of (map_of kvs ''metadata'')) (\<lambda>metadata.
     Inr \<lparr>cp_kind = kind, cp_message = (case or_else message prompt of None \<Rightarrow> [] | Some s \<Rightarrow> s),
       cp_prompt = (case or_else prompt message of None \<Rightarrow> [] | Some s \<Rightarrow> s), cp_deliver = deliver, cp_channel = channel,
       cp_to = to, cp_chat_id = or_else chat_id to, cp_channel_meta = channel_meta, cp_session_key = session_key,
       cp_metadata = metadata\<rparr>))))))))))"

definition json_record :: "rat \<Rightarrow> json \<Rightarrow> cron_load_error + run_record" where
  "json_record now j =
     (if j = JNull then Inl NullValue
      else
       bindE (read_or now num_of (json_field ''runAtMs'' (Some j))) (\<lambda>run_at.
       bindE (read_or 0 num_of (json_field ''durationMs'' (Some j))) (\<lambda>duration.
       bindE (read_or ''ok'' str_of (json_field ''status'' (Some j))) (\<lambda>status.
       bindE (read_as str_of (json_field ''error'' (Some j))) (\<lambda>error.
       Inr \<lparr>rr_run_at = run_at, rr_duration = duration, rr_status = status, rr_error = error\<rparr>)))))"

definition json_state :: "rat \<Rightarrow> json_obj \<Rightarrow> cron_load_error + job_state" where
  "json_state now kvs =
     bindE (read_as num_of (map_of kvs ''nextRunAtMs'')) (\<lambda>next_run.
     bindE (read_as num_of (map_of kvs ''lastRunAtMs'')) (\<lambda>last_run.
     bindE (read_as str_of (map_of kvs ''lastStatus'')) (\<lambda>status.
     bindE (read_as str_of (map_of kvs ''lastError'')) (\<lambda>error.
     bindE (read_or [] arr_of (map_of kvs ''runHistory'')) (\<lambda>rows.
     bindE (mapE (json_record now) rows) (\<lambda>history.
     Inr \<lparr>jo_next = next_run, jo_last = last_run, jo_status = status, jo_error = error, jo_history = history\<rparr>))))))"

definition fresh_state :: job_state where
  "fresh_state = \<lparr>jo_next = None, jo_last = None, jo_status = None, jo_error = None, jo_history = []\<rparr>"

definition json_job :: "rat \<Rightarrow> json \<Rightarrow> cron_load_error + cron_job" where
  "json_job now j =
     (if j = JNull then Inl NullValue
      else (let field = (\<lambda>k. json_field k (Some j)) in
       bindE (read_as str_of (field ''id'')) (\<lambda>job_id.
       case job_id of None \<Rightarrow> Inl IllTyped | Some job_id \<Rightarrow>
       bindE (read_or [] str_of (field ''name'')) (\<lambda>name.
       bindE (read_or True bool_of (field ''enabled'')) (\<lambda>enabled.
       bindE (read_or [] obj_of (field ''schedule'')) (\<lambda>schedule_obj.
       bindE (json_schedule schedule_obj) (\<lambda>schedule.
       bindE (read_or [] obj_of (field ''payload'')) (\<lambda>payload_obj.
       bindE (json_payload payload_obj) (\<lambda>payload.
       bindE (case field ''state'' of
                Some (JStr status) \<Rightarrow> Inr (fresh_state\<lparr>jo_status := Some status\<rparr>)
              | v \<Rightarrow> bindE (read_or [] obj_of v) (json_state now)) (\<lambda>state.
       bindE (read_or (cp_kind payload = ''systemEvent'') bool_of (field ''system'')) (\<lambda>system.
       bindE (read_or now num_of (field ''createdAtMs'')) (\<lambda>created.
       bindE (read_or now num_of (field ''updatedAtMs'')) (\<lambda>updated.
       bindE (read_or False bool_of (field ''deleteAfterRun'')) (\<lambda>delete_after.
       Inr \<lparr>cj_id = job_id, cj_name = name, cj_enabled = enabled, cj_schedule = schedule, cj_payload = payload,
         cj_state = state, cj_system = system, cj_created = created, cj_updated = updated,
         cj_delete_after = delete_after\<rparr>))))))))))))))"

section \<open>The stored job is the job\<close>

text \<open>What every constructor establishes: a payload with a receiver has a chat.\<close>

definition payload_ok :: "cron_payload \<Rightarrow> bool" where
  "payload_ok p \<longleftrightarrow> (cp_chat_id p = None \<longrightarrow> cp_to p = None)"

lemma read_as_simps [simp]:
  "read_as f None = Inr None"
  "read_as f (Some JNull) = Inr None"
  "read_as str_of (Some (JStr s)) = Inr (Some s)"
  "read_as num_of (Some (num_json r)) = Inr (Some r)"
  "read_as str_of (Some (opt_json JStr v)) = Inr v"
  "read_as num_of (Some (opt_json num_json w)) = Inr w"
  by (simp_all add: read_as_def nullish_def str_of_def num_of_def num_json_def opt_json_def split: option.splits)

lemma read_or_simps [simp]:
  "read_or d f None = Inr d"
  "read_or d str_of (Some (JStr s)) = Inr s"
  "read_or r' num_of (Some (num_json r)) = Inr r"
  "read_or b' bool_of (Some (JBool b)) = Inr b"
  "read_or o' obj_of (Some (JObj kvs)) = Inr kvs"
  "read_or a' arr_of (Some (JArr rows)) = Inr rows"
  by (simp_all add: read_or_def read_as_def nullish_def bool_of_def obj_of_def arr_of_def str_of_def num_of_def num_json_def)

lemma read_or_kind [simp]: "read_or k' kind_of (Some (JStr (kind_text k))) = Inr k"
  by (cases k) (simp_all add: read_or_def read_as_def nullish_def kind_of_def)

lemma json_schedule_back: "schedule_json s = JObj kvs \<Longrightarrow> json_schedule kvs = Inr s"
  by (cases s) (auto simp: schedule_json_def json_schedule_def set_field_def split: option.splits)

lemma json_payload_back: "payload_ok p \<Longrightarrow> payload_json p = JObj kvs \<Longrightarrow> json_payload kvs = Inr p"
  by (cases p) (auto simp: payload_json_def json_payload_def or_else_def payload_ok_def split: option.splits)

lemma json_record_back: "json_record now (record_json r) = Inr r"
  by (cases r) (simp add: record_json_def json_record_def json_field_def)

lemma json_state_back: "state_json s = JObj kvs \<Longrightarrow> json_state now kvs = Inr s"
proof -
  have "mapE (json_record now) (map record_json rs) = Inr rs" for rs
    by (induction rs) (simp_all add: json_record_back)
  then show "state_json s = JObj kvs \<Longrightarrow> ?thesis"
    by (cases s) (auto simp: state_json_def json_state_def)
qed

text \<open>A job that is written and read again, at any time, is the same job.\<close>

lemma job_json_back:
  assumes "payload_ok (cj_payload j)"
  shows "json_job now (job_json j) = Inr j"
proof -
  obtain s p t where s: "schedule_json (cj_schedule j) = JObj s" and p: "payload_json (cj_payload j) = JObj p"
    and t: "state_json (cj_state j) = JObj t"
    by (auto simp: schedule_json_def payload_json_def state_json_def)
  show ?thesis
    by (cases j) (use s p t json_schedule_back json_payload_back [OF assms] json_state_back in
      \<open>simp add: job_json_def json_job_def json_field_def\<close>)
qed

lemma json_payload_ok: "json_payload kvs = Inr p \<Longrightarrow> payload_ok p"
  unfolding json_payload_def error_simps
  by (elim exE conjE) (auto simp: payload_ok_def or_else_def split: option.splits)

section \<open>The next run\<close>

text \<open>\<open>trim().split(/\s+/)\<close>; the parser of cron expressions is a package, and an argument.\<close>

function blank_split :: "string \<Rightarrow> string \<Rightarrow> string list" where
  "blank_split word [] = [word]"
| "blank_split word (c # cs) =
     (if js_ws c then word # blank_split [] (dropWhile js_ws cs) else blank_split (word @ [c]) cs)"
  by pat_completeness auto

termination blank_split
  by (relation "measure (length \<circ> snd)") (auto simp: le_imp_less_Suc length_dropWhile_le)

definition compute_cron_next_run ::
  "(string \<Rightarrow> rat \<Rightarrow> string option \<Rightarrow> rat option) \<Rightarrow> string \<Rightarrow> rat \<Rightarrow> string option \<Rightarrow> rat option" where
  "compute_cron_next_run cron_parser expr base tz =
     (if length (blank_split [] (js_trim expr)) \<noteq> 5 then None else cron_parser expr base tz)"

definition compute_next_run ::
  "(string \<Rightarrow> rat \<Rightarrow> string option \<Rightarrow> rat option) \<Rightarrow> (string \<Rightarrow> rat option) \<Rightarrow> schedule \<Rightarrow> rat \<Rightarrow> rat option" where
  "compute_next_run cron_parser parse_date s base =
     (case cs_kind s of
        AtTime \<Rightarrow>
          (case cs_at_ms s of
             Some t \<Rightarrow> Some t
           | None \<Rightarrow> (case cs_at s of None \<Rightarrow> None | Some text_at \<Rightarrow> if text_at = [] then None else parse_date text_at))
      | Every \<Rightarrow>
          (case cs_every_ms s of
             None \<Rightarrow> None
           | Some e \<Rightarrow> if e = 0 \<or> e \<le> 0 then None else if base + e > base then Some (base + e) else None)
      | CronExpr \<Rightarrow>
          (case cs_expr s of
             None \<Rightarrow> None
           | Some e \<Rightarrow> if e = [] then None else compute_cron_next_run cron_parser e base (cs_tz s)))"

definition advance_interval ::
  "(string \<Rightarrow> rat \<Rightarrow> string option \<Rightarrow> rat option) \<Rightarrow> (string \<Rightarrow> rat option) \<Rightarrow> schedule \<Rightarrow> rat option \<Rightarrow> rat \<Rightarrow> rat option" where
  "advance_interval cron_parser parse_date s scheduled_for ended =
     (case cs_every_ms s of
        None \<Rightarrow> None
      | Some interval \<Rightarrow>
          if interval = 0 \<or> interval \<le> 0 then None
          else (case scheduled_for of
                  None \<Rightarrow> compute_next_run cron_parser parse_date s ended
                | Some t \<Rightarrow>
                    if t > ended then Some t
                    else (let skipped = \<lfloor>(ended - t) / interval\<rfloor> + 1;
                              next_run = t + of_int skipped * interval
                          in if next_run > ended then Some next_run else None)))"

text \<open>
  C37: After a run, an interval schedule goes on with the first of its occurrences after the end of the
  run: none is run twice, missed ones are skipped, the rhythm is kept, and a run that was started
  early by hand leaves the next occurrence in place.
\<close>

theorem advance_interval_spec:
  assumes "cs_every_ms s = Some interval" and "0 < interval"
  shows "if t > ended then advance_interval cron_parser parse_date s (Some t) ended = Some t
    else (\<exists>n k. advance_interval cron_parser parse_date s (Some t) ended = Some n \<and> ended < n \<and> n - interval \<le> ended
          \<and> n = t + of_nat (Suc k) * interval)"
proof (cases "t > ended")
  case True
  with assms show ?thesis by (simp add: advance_interval_def)
next
  case False
  let ?q = "(ended - t) / interval"
  let ?n = "t + of_int (\<lfloor>?q\<rfloor> + 1) * interval"
  have "0 \<le> ?q" using False assms(2) by simp
  then obtain k where k: "\<lfloor>?q\<rfloor> = int k" by (metis nonneg_int_cases zero_le_floor)
  have "?q < of_int (\<lfloor>?q\<rfloor> + 1)" by linarith
  then have "ended - t < of_int (\<lfloor>?q\<rfloor> + 1) * interval" using assms(2) by (simp add: pos_divide_less_eq)
  moreover have "of_int \<lfloor>?q\<rfloor> * interval \<le> ?q * interval" using assms(2) by (intro mult_right_mono) simp_all
  then have "of_int \<lfloor>?q\<rfloor> * interval \<le> ended - t" using assms(2) by simp
  ultimately have later: "ended < ?n" "?n - interval \<le> ended" by (simp_all add: algebra_simps)
  have "?n = t + of_nat (Suc k) * interval" by (simp add: k algebra_simps)
  moreover have "advance_interval cron_parser parse_date s (Some t) ended = Some ?n"
    using False assms later by (simp add: advance_interval_def Let_def)
  ultimately show ?thesis using False later by auto
qed

end
