(* ===== verification/Cron_Service.thy ===== *)
theory Cron_Service
  imports Cron_Types
begin

text \<open>
  The cron scheduler (\<open>cron/service.ts\<close>): the store file and the log of actions of other processes, the
  jobs as objects that operations share, the timer, and the runs of jobs that are under way. What the
  service awaits is a boundary between two functions: the end of a job's callback, and the return to
  the operation that started it.
\<close>

section \<open>State\<close>

text \<open>A job object and the identity of its schedule object.\<close>

record cron_cell =
  cc_job :: cron_job
  cc_schedule :: nat

record active_run =
  ar_token :: nat
  ar_session :: "string option"
  ar_system :: bool

text \<open>Who waits for \<open>executeJob\<close>: the pass of the timer with the jobs it has run, or \<open>runJob\<close>.\<close>

datatype run_caller = TimerPass "string list" | ManualRun bool

record execution =
  ex_run :: active_run
  ex_job :: nat
  ex_started :: rat
  ex_schedule :: nat
  ex_due :: "rat option"
  ex_caller :: run_caller

text \<open>The store file: absent, not JSON, or the value it holds.\<close>

datatype cron_file = NoFile | Unreadable | Parsed json

record cron_service =
  cv_file :: cron_file
  cv_actions :: "json option list option"
  cv_heap :: "nat \<Rightarrow> cron_cell option"
  cv_next :: nat
  cv_version :: rat
  cv_store :: "nat list option"
  cv_running :: bool
  cv_timer_active :: bool
  cv_timer :: "rat option"
  cv_runs :: "execution list"
  cv_returned :: "run_caller list"
  cv_max_sleep :: rat

text \<open>The package that parses cron expressions, \<open>Date.parse\<close>, and the time zones of the platform.\<close>

record cron_env =
  ev_cron :: "string \<Rightarrow> rat \<Rightarrow> string option \<Rightarrow> rat option"
  ev_date :: "string \<Rightarrow> rat option"
  ev_zone :: "string \<Rightarrow> bool"

definition next_run_of :: "cron_env \<Rightarrow> schedule \<Rightarrow> rat \<Rightarrow> rat option" where
  "next_run_of env = compute_next_run (ev_cron env) (ev_date env)"

definition job_at :: "cron_service \<Rightarrow> nat \<Rightarrow> cron_job" where
  "job_at s r = cc_job (the (cv_heap s r))"

definition set_job :: "nat \<Rightarrow> cron_job \<Rightarrow> cron_service \<Rightarrow> cron_service" where
  "set_job r j s = s\<lparr>cv_heap := (cv_heap s)(r \<mapsto> (the (cv_heap s r))\<lparr>cc_job := j\<rparr>)\<rparr>"

text \<open>A new job object; its schedule is a new object too.\<close>

definition new_job :: "cron_job \<Rightarrow> cron_service \<Rightarrow> nat \<times> cron_service" where
  "new_job j s = (cv_next s, s\<lparr>cv_heap := (cv_heap s)(cv_next s \<mapsto> \<lparr>cc_job = j, cc_schedule = cv_next s\<rparr>), cv_next := cv_next s + 1\<rparr>)"

fun new_jobs :: "cron_job list \<Rightarrow> cron_service \<Rightarrow> nat list \<times> cron_service" where
  "new_jobs [] s = ([], s)"
| "new_jobs (j # js) s = (let (r, s1) = new_job j s; (rs, s2) = new_jobs js s1 in (r # rs, s2))"

definition store_refs :: "cron_service \<Rightarrow> nat list" where
  "store_refs s = (case cv_store s of None \<Rightarrow> [] | Some rs \<Rightarrow> rs)"

definition find_job :: "string \<Rightarrow> cron_service \<Rightarrow> nat option" where
  "find_job i s = find (\<lambda>r. cj_id (job_at s r) = i) (store_refs s)"

section \<open>Loading and saving\<close>

definition read_store :: "rat \<Rightarrow> json \<Rightarrow> cron_load_error + cron_job list \<times> rat" where
  "read_store now data =
     (if data = JNull then Inl NullValue
      else
       bindE (case data of JArr rows \<Rightarrow> Inr rows | _ \<Rightarrow> read_or [] arr_of (json_field ''jobs'' (Some data))) (\<lambda>rows.
       bindE (case data of JArr _ \<Rightarrow> Inr 1 | _ \<Rightarrow> read_or 1 num_of (json_field ''version'' (Some data))) (\<lambda>version.
       bindE (mapE (json_job now) rows) (\<lambda>jobs. Inr (jobs, version)))))"

definition load_jobs :: "rat \<Rightarrow> cron_file \<Rightarrow> (cron_job list \<times> rat) option" where
  "load_jobs now f =
     (case f of
        NoFile \<Rightarrow> Some ([], 1)
      | Unreadable \<Rightarrow> None
      | Parsed data \<Rightarrow> (case read_store now data of Inl _ \<Rightarrow> None | Inr r \<Rightarrow> Some r))"

definition save_store :: "cron_service \<Rightarrow> cron_service" where
  "save_store s =
     (case cv_store s of
        None \<Rightarrow> s
      | Some rs \<Rightarrow> s\<lparr>cv_file := Parsed (store_json (cv_version s) (map (job_at s) rs))\<rparr>)"

text \<open>A \<open>Map\<close> from ids to jobs keeps the place of its first entry for a key.\<close>

fun map_put :: "string \<Rightarrow> nat \<Rightarrow> (string \<times> nat) list \<Rightarrow> (string \<times> nat) list" where
  "map_put k r [] = [(k, r)]"
| "map_put k r (e # es) = (if fst e = k then (k, r) # es else e # map_put k r es)"

definition ran_later :: "rat option \<Rightarrow> rat option \<Rightarrow> bool" where
  "ran_later a b = (case a of None \<Rightarrow> False | Some x \<Rightarrow> (case b of None \<Rightarrow> True | Some y \<Rightarrow> x > y))"

text \<open>An external edit that was based on an older run keeps the newer results.\<close>

definition keep_results :: "cron_job \<Rightarrow> cron_job \<Rightarrow> cron_job" where
  "keep_results current job =
     (if ran_later (jo_last (cj_state current)) (jo_last (cj_state job))
      then job\<lparr>cj_state := (cj_state job)\<lparr>jo_last := jo_last (cj_state current), jo_status := jo_status (cj_state current),
             jo_error := jo_error (cj_state current), jo_history := jo_history (cj_state current)\<rparr>\<rparr>
      else job)"

type_synonym merge_state = "(string \<times> nat) list \<times> bool \<times> cron_service"

definition merge_entry :: "rat \<Rightarrow> merge_state \<Rightarrow> json option \<Rightarrow> merge_state" where
  "merge_entry now m line =
     (let (jobs, changed, s) = m;
          action = json_field ''action'' line;
          params = (case nullish (json_field ''params'' line) None of None \<Rightarrow> JObj [] | Some p \<Rightarrow> p)
      in if action = Some (JStr ''del'') then
           ((case json_field ''jobId'' (Some params) of Some (JStr i) \<Rightarrow> if i = [] then jobs else filter (\<lambda>e. fst e \<noteq> i) jobs
              | _ \<Rightarrow> jobs), True, s)
         else if action = Some (JStr ''add'') \<or> action = Some (JStr ''update'') then
           (case json_job now params of
              Inl _ \<Rightarrow> m
            | Inr job \<Rightarrow>
                (let job = (case map_of jobs (cj_id job) of
                       Some r \<Rightarrow> if action = Some (JStr ''update'') then keep_results (job_at s r) job else job
                     | None \<Rightarrow> job);
                     (r, s') = new_job job s
                 in (map_put (cj_id job) r jobs, True, s')))
         else m)"

definition merge_action :: "rat \<Rightarrow> cron_service \<Rightarrow> cron_service" where
  "merge_action now s =
     (case (cv_store s, cv_actions s) of
        (Some rs, Some ls) \<Rightarrow>
          (let start = foldl (\<lambda>es r. map_put (cj_id (job_at s r)) r es) [] rs;
               (jobs, changed, s1) = foldl (merge_entry now) (start, False, s) ls;
               s2 = s1\<lparr>cv_store := Some (map snd jobs)\<rparr>
           in if cv_running s \<and> changed then save_store (s2\<lparr>cv_actions := Some []\<rparr>) else s2)
      | _ \<Rightarrow> s)"

text \<open>The result of \<open>loadStore\<close> is the store of the new state.\<close>

definition load_store :: "rat \<Rightarrow> cron_service \<Rightarrow> cron_service" where
  "load_store now s =
     (if (cv_timer_active s \<or> cv_runs s \<noteq> []) \<and> cv_store s \<noteq> None then s
      else case load_jobs now (cv_file s) of
             None \<Rightarrow> s\<lparr>cv_file := NoFile\<rparr>
           | Some (jobs, version) \<Rightarrow>
               (let (rs, s1) = new_jobs jobs s
                in merge_action now (s1\<lparr>cv_store := Some rs, cv_version := version\<rparr>)))"

definition append_action :: "string \<Rightarrow> json \<Rightarrow> cron_service \<Rightarrow> cron_service" where
  "append_action action params s =
     s\<lparr>cv_actions := Some ((case cv_actions s of None \<Rightarrow> [] | Some ls \<Rightarrow> ls)
          @ [Some (JObj [(''action'', JStr action), (''params'', params)])])\<rparr>"

section \<open>The timer\<close>

definition next_wake :: "cron_service \<Rightarrow> rat option" where
  "next_wake s =
     (case List.map_filter (\<lambda>r. if cj_enabled (job_at s r) then jo_next (cj_state (job_at s r)) else None) (store_refs s) of
        [] \<Rightarrow> None
      | t # ts \<Rightarrow> Some (foldl min t ts))"

definition arm_timer :: "rat \<Rightarrow> cron_service \<Rightarrow> cron_service" where
  "arm_timer now s =
     (if \<not> cv_running s \<or> cv_timer_active s \<or> cv_runs s \<noteq> [] then s\<lparr>cv_timer := None\<rparr>
      else s\<lparr>cv_timer := Some (case next_wake s of
               None \<Rightarrow> cv_max_sleep s
             | Some t \<Rightarrow> min (cv_max_sleep s) (max 0 (t - now)))\<rparr>)"

definition cmp_rat :: "rat \<Rightarrow> rat \<Rightarrow> int" where
  "cmp_rat a b = (if a < b then - 1 else if a = b then 0 else 1)"

definition due_time :: "cron_job \<Rightarrow> rat" where
  "due_time j = (case jo_next (cj_state j) of None \<Rightarrow> 0 | Some t \<Rightarrow> t)"

definition cmp_due :: "cron_job \<Rightarrow> cron_job \<Rightarrow> int" where
  "cmp_due a b =
     then_cmp (of_bool (cs_kind (cj_schedule b) = AtTime) - of_bool (cs_kind (cj_schedule a) = AtTime))
       (cmp_rat (due_time a) (due_time b))"

definition is_due :: "rat \<Rightarrow> string list \<Rightarrow> cron_job \<Rightarrow> bool" where
  "is_due now executed j \<longleftrightarrow> cj_enabled j \<and> cj_id j \<notin> set executed
     \<and> (case jo_next (cj_state j) of None \<Rightarrow> False | Some t \<Rightarrow> now \<ge> t)"

definition pick_due :: "rat \<Rightarrow> string list \<Rightarrow> cron_service \<Rightarrow> nat option" where
  "pick_due now executed s =
     (case sort_cmp (\<lambda>a b. cmp_due (job_at s a) (job_at s b)) (filter (\<lambda>r. is_due now executed (job_at s r)) (store_refs s)) of
        [] \<Rightarrow> None
      | r # _ \<Rightarrow> Some r)"

section \<open>A run\<close>

definition is_system :: "cron_job \<Rightarrow> bool" where
  "is_system j \<longleftrightarrow> cp_kind (cj_payload j) = ''systemEvent'' \<or> cj_system j"

text \<open>\<open>executeJob\<close> up to the callback.\<close>

definition start_execution :: "rat \<Rightarrow> run_caller \<Rightarrow> nat \<Rightarrow> cron_service \<Rightarrow> cron_service" where
  "start_execution started caller r s =
     (let j = job_at s r in
      s\<lparr>cv_runs := cv_runs s @ [\<lparr>
            ex_run = \<lparr>ar_token = cv_next s, ar_session = cp_session_key (cj_payload j), ar_system = is_system j\<rparr>,
            ex_job = r, ex_started = started, ex_schedule = cc_schedule (the (cv_heap s r)),
            ex_due = jo_next (cj_state j), ex_caller = caller\<rparr>],
        cv_next := cv_next s + 1\<rparr>)"

definition take_last :: "nat \<Rightarrow> 'a list \<Rightarrow> 'a list" where
  "take_last n xs = drop (length xs - n) xs"

text \<open>The results, and the conditions under which an edit made meanwhile decides about the next run.\<close>

definition with_results :: "rat \<Rightarrow> rat \<Rightarrow> string option \<Rightarrow> cron_job \<Rightarrow> cron_job" where
  "with_results started ended failure j =
     (let status = (case failure of None \<Rightarrow> ''ok'' | Some _ \<Rightarrow> ''error'') in
      j\<lparr>cj_updated := ended,
        cj_state := (cj_state j)\<lparr>jo_last := Some started, jo_status := Some status, jo_error := failure,
          jo_history := take_last 20 (jo_history (cj_state j) @
            [\<lparr>rr_run_at = started, rr_duration = max 0 (ended - started), rr_status = status, rr_error = failure\<rparr>])\<rparr>\<rparr>)"

definition edited_meanwhile :: "cron_service \<Rightarrow> execution \<Rightarrow> bool" where
  "edited_meanwhile s x \<longleftrightarrow>
     cv_store s \<noteq> None \<and> find_job (cj_id (job_at s (ex_job x))) s \<noteq> Some (ex_job x)
     \<or> \<not> cj_enabled (job_at s (ex_job x)) \<or> cc_schedule (the (cv_heap s (ex_job x))) \<noteq> ex_schedule x
     \<or> jo_next (cj_state (job_at s (ex_job x))) \<noteq> ex_due x"

definition reschedule :: "cron_env \<Rightarrow> rat \<Rightarrow> execution \<Rightarrow> cron_service \<Rightarrow> cron_service" where
  "reschedule env ended x s =
     (let r = ex_job x; j = job_at s r in
      case cs_kind (cj_schedule j) of
        AtTime \<Rightarrow>
          if cj_delete_after j \<and> cv_store s \<noteq> None
          then s\<lparr>cv_store := map_option (filter (\<lambda>r'. cj_id (job_at s r') \<noteq> cj_id j)) (cv_store s)\<rparr>
          else set_job r (j\<lparr>cj_enabled := False, cj_state := (cj_state j)\<lparr>jo_next := None\<rparr>\<rparr>) s
      | Every \<Rightarrow>
          set_job r (j\<lparr>cj_state := (cj_state j)\<lparr>jo_next :=
            advance_interval (ev_cron env) (ev_date env) (cj_schedule j) (ex_due x) ended\<rparr>\<rparr>) s
      | CronExpr \<Rightarrow>
          set_job r (j\<lparr>cj_state := (cj_state j)\<lparr>jo_next := next_run_of env (cj_schedule j) ended\<rparr>\<rparr>) s)"

text \<open>\<open>executeJob\<close> after the callback, which has failed with a message or not.\<close>

definition finish_execution :: "cron_env \<Rightarrow> rat \<Rightarrow> string option \<Rightarrow> execution \<Rightarrow> cron_service \<Rightarrow> cron_service" where
  "finish_execution env ended failure x s =
     (let r = ex_job x;
          s1 = set_job r (with_results (ex_started x) ended failure (job_at s r))
                 (s\<lparr>cv_runs := filter (\<lambda>y. ar_token (ex_run y) \<noteq> ar_token (ex_run x)) (cv_runs s),
                    cv_returned := cv_returned s @ [ex_caller x]\<rparr>)
      in if edited_meanwhile s1 x then s1 else reschedule env ended x s1)"

text \<open>\<open>onTimer\<close>: its loop up to the next callback, and its end.\<close>

definition end_pass :: "rat \<Rightarrow> cron_service \<Rightarrow> cron_service" where
  "end_pass now s = arm_timer now ((save_store s)\<lparr>cv_timer_active := False\<rparr>)"

definition timer_loop :: "rat \<Rightarrow> string list \<Rightarrow> cron_service \<Rightarrow> cron_service" where
  "timer_loop now executed s =
     (if \<not> cv_running s then end_pass now s
      else (let s1 = merge_action now s in
            case pick_due now executed s1 of
              None \<Rightarrow> end_pass now s1
            | Some r \<Rightarrow> start_execution now (TimerPass (cj_id (job_at s1 r) # executed)) r s1))"

definition on_timer :: "rat \<Rightarrow> cron_service \<Rightarrow> cron_service" where
  "on_timer now s =
     (if \<not> cv_running s \<or> cv_timer_active s \<or> cv_runs s \<noteq> [] then s
      else (let s1 = load_store now s in
            if cv_store s1 = None then arm_timer now s1
            else timer_loop now [] (s1\<lparr>cv_timer_active := True\<rparr>)))"

text \<open>The timeout has fired.\<close>

definition timer_fires :: "rat \<Rightarrow> cron_service \<Rightarrow> cron_service" where
  "timer_fires now s = on_timer now (s\<lparr>cv_timer := None\<rparr>)"

definition resume_caller :: "rat \<Rightarrow> run_caller \<Rightarrow> cron_service \<Rightarrow> cron_service" where
  "resume_caller now caller s =
     (let s = s\<lparr>cv_returned := remove1 caller (cv_returned s)\<rparr> in
      case caller of
        TimerPass executed \<Rightarrow> timer_loop now executed s
      | ManualRun was_running \<Rightarrow>
          (let s1 = (save_store s)\<lparr>cv_running := was_running\<rparr> in if was_running then arm_timer now s1 else s1))"

section \<open>Operations\<close>

definition stop_cron :: "cron_service \<Rightarrow> cron_service" where
  "stop_cron s = s\<lparr>cv_running := False, cv_timer := None\<rparr>"

definition recompute_job :: "cron_env \<Rightarrow> rat \<Rightarrow> nat \<Rightarrow> cron_service \<Rightarrow> cron_service" where
  "recompute_job env now r s =
     (let j = job_at s r; computed = next_run_of env (cj_schedule j) now in
      if cj_enabled j \<and> (cs_kind (cj_schedule j) = AtTime \<or> computed = None \<or> jo_next (cj_state j) = None)
      then set_job r (j\<lparr>cj_state := (cj_state j)\<lparr>jo_next := computed\<rparr>\<rparr>) s else s)"

definition recompute_next_runs :: "cron_env \<Rightarrow> rat \<Rightarrow> cron_service \<Rightarrow> cron_service" where
  "recompute_next_runs env now s = fold (recompute_job env now) (store_refs s) s"

text \<open>\<open>False\<close>: the store is corrupt, and the service refuses to start.\<close>

definition start_cron :: "cron_env \<Rightarrow> rat \<Rightarrow> cron_service \<Rightarrow> bool \<times> cron_service" where
  "start_cron env now s =
     (let s1 = load_store now (s\<lparr>cv_running := True\<rparr>) in
      if cv_store s1 = None then (False, s1\<lparr>cv_running := False\<rparr>)
      else (True, arm_timer now (save_store (recompute_next_runs env now s1))))"

definition run_job :: "rat \<Rightarrow> string \<Rightarrow> bool \<Rightarrow> cron_service \<Rightarrow> bool \<times> cron_service" where
  "run_job now i force s =
     (let was_running = cv_running s;
          s1 = load_store now (s\<lparr>cv_running := True\<rparr>);
          refused = (let s2 = s1\<lparr>cv_running := was_running\<rparr> in (False, if was_running then arm_timer now s2 else s2))
      in case find_job i s1 of
           None \<Rightarrow> refused
         | Some r \<Rightarrow>
             if \<not> force \<and> \<not> cj_enabled (job_at s1 r) then refused
             else (True, start_execution now (ManualRun was_running) r s1))"

end
