(* ===== verification/Cron_Operations.thy ===== *)
theory Cron_Operations
  imports Cron_Service
begin

text \<open>
  The operations of the cron scheduler on jobs (\<open>cron/service.ts\<close>), the interleavings of all its
  events, and what holds in every state they reach.
\<close>

section \<open>Operations on jobs\<close>

datatype cron_error = ZoneWithoutCron | UnknownZone string

definition validate_schedule :: "cron_env \<Rightarrow> schedule \<Rightarrow> cron_error + unit" where
  "validate_schedule env sch =
     (let tz = (case cs_tz sch of None \<Rightarrow> [] | Some z \<Rightarrow> z) in
      bindE (throw_if (tz \<noteq> [] \<and> cs_kind sch \<noteq> CronExpr) ZoneWithoutCron) (\<lambda>_.
      throw_if (cs_kind sch = CronExpr \<and> tz \<noteq> [] \<and> \<not> ev_zone env tz) (UnknownZone tz)))"

text \<open>\<open>this.loadStore() ?? new CronStore()\<close>\<close>

definition load_or_new :: "rat \<Rightarrow> cron_service \<Rightarrow> cron_service" where
  "load_or_new now s =
     (let s1 = load_store now s in if cv_store s1 = None then s1\<lparr>cv_store := Some [], cv_version := 1\<rparr> else s1)"

definition drop_jobs :: "(cron_job \<Rightarrow> bool) \<Rightarrow> cron_service \<Rightarrow> cron_service" where
  "drop_jobs P s = s\<lparr>cv_store := map_option (filter (\<lambda>r. \<not> P (job_at s r))) (cv_store s)\<rparr>"

definition push_job :: "cron_job \<Rightarrow> cron_service \<Rightarrow> nat \<times> cron_service" where
  "push_job j s = (let (r, s1) = new_job j s in (r, s1\<lparr>cv_store := map_option (\<lambda>rs. rs @ [r]) (cv_store s1)\<rparr>))"

definition saved :: "rat \<Rightarrow> cron_service \<Rightarrow> cron_service" where
  "saved now s = arm_timer now (save_store s)"

definition add_cron :: "rat \<Rightarrow> cron_job \<Rightarrow> cron_service \<Rightarrow> cron_service" where
  "add_cron now j s = saved now (snd (push_job j (drop_jobs (\<lambda>row. cj_id row = cj_id j) (load_or_new now s))))"

record job_input =
  ji_name :: string
  ji_schedule :: schedule
  ji_message :: string
  ji_deliver :: bool
  ji_channel :: "string option"
  ji_to :: "string option"
  ji_delete_after :: bool
  ji_channel_meta :: json_obj
  ji_session_key :: "string option"

definition input_job :: "cron_env \<Rightarrow> rat \<Rightarrow> string \<Rightarrow> job_input \<Rightarrow> cron_job" where
  "input_job env now job_id inp =
     \<lparr>cj_id = job_id, cj_name = ji_name inp, cj_enabled = True, cj_schedule = ji_schedule inp,
      cj_payload = \<lparr>cp_kind = ''agentTurn'', cp_message = ji_message inp, cp_prompt = ji_message inp,
        cp_deliver = ji_deliver inp, cp_channel = ji_channel inp, cp_to = ji_to inp, cp_chat_id = ji_to inp,
        cp_channel_meta = ji_channel_meta inp, cp_session_key = ji_session_key inp, cp_metadata = []\<rparr>,
      cj_state = fresh_state\<lparr>jo_next := next_run_of env (ji_schedule inp) now\<rparr>,
      cj_system = False, cj_created = now, cj_updated = now, cj_delete_after = ji_delete_after inp\<rparr>"

definition add_job :: "cron_env \<Rightarrow> rat \<Rightarrow> string \<Rightarrow> job_input \<Rightarrow> cron_service \<Rightarrow> cron_error + cron_service" where
  "add_job env now job_id inp s =
     bindE (validate_schedule env (ji_schedule inp)) (\<lambda>_.
     let j = input_job env now job_id inp in
     Inr (if cv_running s then saved now (snd (push_job j (load_or_new now s)))
          else append_action ''add'' (job_json j) s))"

definition register_system_job :: "cron_env \<Rightarrow> rat \<Rightarrow> cron_job \<Rightarrow> cron_service \<Rightarrow> cron_service" where
  "register_system_job env now j s =
     (let j' = j\<lparr>cj_system := True, cj_state := fresh_state\<lparr>jo_next := next_run_of env (cj_schedule j) now\<rparr>,
                 cj_created := now, cj_updated := now\<rparr>
      in saved now (snd (push_job j' (drop_jobs (\<lambda>row. cj_id row = cj_id j) (load_or_new now s)))))"

definition unregister_system_job :: "rat \<Rightarrow> string \<Rightarrow> cron_service \<Rightarrow> bool \<times> cron_service" where
  "unregister_system_job now job_id s =
     (let s1 = load_store now s; s2 = drop_jobs (\<lambda>j. cj_id j = job_id \<and> is_system j) s1 in
      if cv_store s1 = None \<or> length (store_refs s2) = length (store_refs s1) then (False, s1)
      else (True, saved now s2))"

datatype job_answer = Removed | Updated | Protected | NotFound

definition remove_job :: "rat \<Rightarrow> string \<Rightarrow> cron_service \<Rightarrow> job_answer \<times> cron_service" where
  "remove_job now job_id s =
     (let s1 = load_store now s in
      case find_job job_id s1 of
        None \<Rightarrow> (NotFound, s1)
      | Some r \<Rightarrow>
          if is_system (job_at s1 r) then (Protected, s1)
          else (let s2 = drop_jobs (\<lambda>j. cj_id j = job_id) s1 in
                (Removed, if cv_running s2 then saved now s2
                          else append_action ''del'' (JObj [(''jobId'', JStr job_id)]) s2)))"

text \<open>One round of \<open>removeWebuiJobsForSessionKeys\<close>; \<open>True\<close>: it returns, \<open>False\<close>: it waits for runs.\<close>

definition of_sessions :: "string set \<Rightarrow> cron_job \<Rightarrow> bool" where
  "of_sessions keys j \<longleftrightarrow> \<not> is_system j
     \<and> (case cp_session_key (cj_payload j) of None \<Rightarrow> False | Some k \<Rightarrow> k \<noteq> [] \<and> k \<in> keys)"

definition session_runs :: "string set \<Rightarrow> cron_service \<Rightarrow> execution list" where
  "session_runs keys s = filter (\<lambda>x. \<not> ar_system (ex_run x)
     \<and> (case ar_session (ex_run x) of None \<Rightarrow> False | Some k \<Rightarrow> k \<in> keys)) (cv_runs s)"

definition remaining_job :: "string set \<Rightarrow> cron_job \<Rightarrow> bool" where
  "remaining_job keys j \<longleftrightarrow> \<not> is_system j
     \<and> (case cp_session_key (cj_payload j) of None \<Rightarrow> False | Some k \<Rightarrow> k \<in> keys)"

definition remove_sessions_round :: "rat \<Rightarrow> string set \<Rightarrow> cron_service \<Rightarrow> bool \<times> cron_service" where
  "remove_sessions_round now keys s =
     (let s1 = load_store now s;
          s2 = drop_jobs (of_sessions keys) s1;
          s3 = (if length (store_refs s2) \<noteq> length (store_refs s1) then saved now s2 else s1)
      in if session_runs keys s3 \<noteq> [] then (False, s3)
         else (let s4 = load_store now s3 in
               (\<not> list_ex (\<lambda>r. remaining_job keys (job_at s4 r)) (store_refs s4), s4)))"

definition enable_job :: "cron_env \<Rightarrow> rat \<Rightarrow> string \<Rightarrow> bool \<Rightarrow> cron_service \<Rightarrow> bool \<times> cron_service" where
  "enable_job env now job_id enabled s =
     (let s1 = load_store now s in
      case find_job job_id s1 of
        None \<Rightarrow> (False, s1)
      | Some r \<Rightarrow>
          (let j = job_at s1 r;
               j' = j\<lparr>cj_enabled := enabled, cj_updated := now, cj_state := (cj_state j)\<lparr>jo_next :=
                     (if enabled then next_run_of env (cj_schedule j) now else None)\<rparr>\<rparr>;
               s2 = set_job r j' s1
           in (True, if cv_running s2 then saved now s2 else append_action ''update'' (job_json j') s2)))"

text \<open>\<open>None\<close> is a field that is not given; a channel and a receiver can be given as \<open>null\<close>.\<close>

record job_update =
  ju_name :: "string option"
  ju_schedule :: "schedule option"
  ju_message :: "string option"
  ju_deliver :: "bool option"
  ju_channel :: "string option option"
  ju_to :: "string option option"
  ju_delete_after :: "bool option"

definition given :: "'a option \<Rightarrow> ('a \<Rightarrow> 'b \<Rightarrow> 'b) \<Rightarrow> 'b \<Rightarrow> 'b" where
  "given v f x = (case v of None \<Rightarrow> x | Some y \<Rightarrow> f y x)"

definition updated_payload :: "job_update \<Rightarrow> cron_payload \<Rightarrow> cron_payload" where
  "updated_payload u p =
     given (ju_to u) (\<lambda>t p. p\<lparr>cp_to := t, cp_chat_id := t\<rparr>)
    (given (ju_channel u) (\<lambda>c p. p\<lparr>cp_channel := c\<rparr>)
    (given (ju_deliver u) (\<lambda>d p. p\<lparr>cp_deliver := d\<rparr>)
    (given (ju_message u) (\<lambda>m p. p\<lparr>cp_message := m, cp_prompt := m\<rparr>) p)))"

definition updated_job :: "cron_env \<Rightarrow> rat \<Rightarrow> job_update \<Rightarrow> cron_job \<Rightarrow> cron_job" where
  "updated_job env now u j =
     (let j1 = given (ju_schedule u) (\<lambda>sch j. j\<lparr>cj_schedule := sch\<rparr>) j;
          j2 = given (ju_name u) (\<lambda>n j. j\<lparr>cj_name := n\<rparr>) j1;
          j3 = j2\<lparr>cj_payload := updated_payload u (cj_payload j2)\<rparr>;
          j4 = (given (ju_delete_after u) (\<lambda>d j. j\<lparr>cj_delete_after := d\<rparr>) j3)\<lparr>cj_updated := now\<rparr>
      in if cj_enabled j4 \<and> ju_schedule u \<noteq> None
         then j4\<lparr>cj_state := (cj_state j4)\<lparr>jo_next := next_run_of env (cj_schedule j4) now\<rparr>\<rparr> else j4)"

text \<open>A schedule that is given is a new object.\<close>

definition new_schedule :: "nat \<Rightarrow> cron_service \<Rightarrow> cron_service" where
  "new_schedule r s = s\<lparr>cv_heap := (cv_heap s)(r \<mapsto> (the (cv_heap s r))\<lparr>cc_schedule := cv_next s\<rparr>), cv_next := cv_next s + 1\<rparr>"

definition update_job :: "cron_env \<Rightarrow> rat \<Rightarrow> string \<Rightarrow> job_update \<Rightarrow> cron_service \<Rightarrow> (cron_error + job_answer) \<times> cron_service" where
  "update_job env now job_id u s =
     (let s1 = load_store now s in
      case find_job job_id s1 of
        None \<Rightarrow> (Inr NotFound, s1)
      | Some r \<Rightarrow>
          if is_system (job_at s1 r) then (Inr Protected, s1)
          else (case (case ju_schedule u of None \<Rightarrow> Inr () | Some sch \<Rightarrow> validate_schedule env sch) of
                  Inl e \<Rightarrow> (Inl e, s1)
                | Inr _ \<Rightarrow>
                    (let j' = updated_job env now u (job_at s1 r);
                         s2 = set_job r j' (if ju_schedule u = None then s1 else new_schedule r s1)
                     in (Inr Updated, if cv_running s2 then saved now s2 else append_action ''update'' (job_json j') s2))))"

definition cmp_next :: "cron_job \<Rightarrow> cron_job \<Rightarrow> int" where
  "cmp_next a b =
     (case (jo_next (cj_state a), jo_next (cj_state b)) of
        (None, None) \<Rightarrow> 0 | (None, Some _) \<Rightarrow> 1 | (Some _, None) \<Rightarrow> - 1 | (Some x, Some y) \<Rightarrow> cmp_rat x y)"

definition list_jobs :: "rat \<Rightarrow> bool \<Rightarrow> cron_service \<Rightarrow> cron_job list \<times> cron_service" where
  "list_jobs now include_disabled s =
     (let s1 = load_store now s in
      (sort_cmp cmp_next (filter (\<lambda>j. include_disabled \<or> cj_enabled j) (map (job_at s1) (store_refs s1))), s1))"

definition get_job :: "rat \<Rightarrow> string \<Rightarrow> cron_service \<Rightarrow> cron_job option \<times> cron_service" where
  "get_job now job_id s = (let s1 = load_store now s in (map_option (job_at s1) (find_job job_id s1), s1))"

definition cron_status :: "rat \<Rightarrow> cron_service \<Rightarrow> (bool \<times> nat \<times> rat option) \<times> cron_service" where
  "cron_status now s = (let s1 = load_store now s in ((cv_running s1, length (store_refs s1), next_wake s1), s1))"

section \<open>Events\<close>

text \<open>
  Everything that can happen between two awaits. \<open>OtherProcess\<close> is another process that appends to the log
  of actions or writes the store file.
\<close>

inductive cron_step :: "cron_env \<Rightarrow> cron_service \<Rightarrow> cron_service \<Rightarrow> bool" for env where
  Start: "cron_step env s (snd (start_cron env now s))"
| Stop: "cron_step env s (stop_cron s)"
| Fires: "cv_timer s \<noteq> None \<Longrightarrow> cron_step env s (timer_fires now s)"
| Finishes: "x \<in> set (cv_runs s) \<Longrightarrow> cron_step env s (finish_execution env now failure x s)"
| Resumes: "c \<in> set (cv_returned s) \<Longrightarrow> cron_step env s (resume_caller now c s)"
| RunNow: "cron_step env s (snd (run_job now i force s))"
| AddRow: "cron_step env s (add_cron now j s)"
| AddJob: "add_job env now i inp s = Inr s' \<Longrightarrow> cron_step env s s'"
| Register: "cron_step env s (register_system_job env now j s)"
| Unregister: "cron_step env s (snd (unregister_system_job now i s))"
| Remove: "cron_step env s (snd (remove_job now i s))"
| RemoveSessions: "cron_step env s (snd (remove_sessions_round now keys s))"
| Enable: "cron_step env s (snd (enable_job env now i enabled s))"
| Update: "cron_step env s (snd (update_job env now i u s))"
| Reads: "cron_step env s (load_store now s)"
| OtherProcess: "cron_step env s (s\<lparr>cv_file := f, cv_actions := ls\<rparr>)"

definition fresh_service :: "cron_file \<Rightarrow> json option list option \<Rightarrow> rat \<Rightarrow> cron_service" where
  "fresh_service f ls max_sleep = \<lparr>cv_file = f, cv_actions = ls, cv_heap = Map.empty, cv_next = 0, cv_version = 1,
     cv_store = None, cv_running = False, cv_timer_active = False, cv_timer = None, cv_runs = [], cv_returned = [],
     cv_max_sleep = max_sleep\<rparr>"

inductive cron_run :: "cron_env \<Rightarrow> cron_service \<Rightarrow> cron_service \<Rightarrow> bool" for env s where
  Begin: "cron_run env s s"
| More: "cron_run env s t \<Longrightarrow> cron_step env t u \<Longrightarrow> cron_run env s u"

section \<open>A running service is never stranded\<close>

definition control :: "cron_service \<Rightarrow> bool \<times> bool \<times> rat option \<times> execution list \<times> run_caller list" where
  "control s = (cv_running s, cv_timer_active s, cv_timer s, cv_runs s, cv_returned s)"

definition quiet :: "cron_service \<Rightarrow> cron_service \<Rightarrow> bool" where
  "quiet s s' \<longleftrightarrow> control s' = control s \<and> cv_next s \<le> cv_next s'"

lemma quiet_refl [simp]: "quiet s s"
  by (simp add: quiet_def)

lemma quiet_trans: "quiet s t \<Longrightarrow> quiet t u \<Longrightarrow> quiet s u"
  by (simp add: quiet_def)

lemma quiet_fields:
  "quiet s s' \<Longrightarrow> cv_running s' = cv_running s \<and> cv_timer_active s' = cv_timer_active s \<and> cv_timer s' = cv_timer s
     \<and> cv_runs s' = cv_runs s \<and> cv_returned s' = cv_returned s \<and> cv_next s \<le> cv_next s'"
  by (simp add: quiet_def control_def)

lemma quiet_simps [simp]:
  "quiet s (set_job r j s)" "quiet s (snd (new_job j s))" "quiet s (save_store s)" "quiet s (append_action a p s)"
  "quiet s (drop_jobs P s)" "quiet s (new_schedule r s)" "quiet s (s\<lparr>cv_store := st\<rparr>)" "quiet s (s\<lparr>cv_file := f\<rparr>)"
  "quiet s (s\<lparr>cv_file := f, cv_actions := ls\<rparr>)" "quiet s (s\<lparr>cv_actions := ls\<rparr>)" "quiet s (s\<lparr>cv_store := st, cv_version := v\<rparr>)"
  by (simp_all add: quiet_def control_def set_job_def new_job_def save_store_def append_action_def drop_jobs_def
      new_schedule_def split: option.splits)

lemma quiet_new_jobs: "quiet s (snd (new_jobs js s))"
proof (induction js arbitrary: s)
  case (Cons j js)
  show ?case
    using quiet_trans [OF quiet_simps(2) Cons.IH, of s j] by (simp add: Let_def split: prod.splits) (metis snd_conv)
qed simp

lemma quiet_merge_entry: "quiet s (snd (snd (merge_entry now (jobs, changed, s) line)))"
  by (auto simp: merge_entry_def Let_def quiet_def control_def new_job_def split: sum.splits option.splits)

lemma quiet_merge_entries: "quiet (snd (snd m)) (snd (snd (foldl (merge_entry now) m ls)))"
proof (induction ls arbitrary: m)
  case (Cons l ls)
  have "quiet (snd (snd m)) (snd (snd (merge_entry now m l)))" by (cases m) (simp add: quiet_merge_entry)
  from quiet_trans [OF this Cons.IH] show ?case by simp
qed simp

lemma quiet_merge [simp]: "quiet s (merge_action now s)"
proof (cases "cv_store s = None \<or> cv_actions s = None")
  case True
  then show ?thesis by (auto simp: merge_action_def split: option.splits)
next
  case False
  then obtain rs ls where f: "cv_store s = Some rs" "cv_actions s = Some ls" by auto
  let ?start = "foldl (\<lambda>es r. map_put (cj_id (job_at s r)) r es) [] rs"
  obtain jobs changed s1 where m: "foldl (merge_entry now) (?start, False, s) ls = (jobs, changed, s1)"
    by (rule prod_cases3 [of "foldl (merge_entry now) (?start, False, s) ls"])
  have s1: "quiet s s1" using quiet_merge_entries [of "(?start, False, s)" now ls] m by simp
  have "quiet s1 (save_store (s1\<lparr>cv_store := st, cv_actions := a\<rparr>))" "quiet s1 (s1\<lparr>cv_store := st\<rparr>)" for st a
    by (simp_all add: quiet_def control_def save_store_def split: option.split)
  from quiet_trans [OF s1 this(1)] quiet_trans [OF s1 this(2)] f m show ?thesis
    by (simp add: merge_action_def Let_def)
qed

lemma quiet_load [simp]: "quiet s (load_store now s)"
proof (cases "load_jobs now (cv_file s)")
  case (Some jv)
  obtain jobs version rs s1 where jv: "jv = (jobs, version)" "new_jobs jobs s = (rs, s1)" by (metis surj_pair)
  then have "quiet s s1" using quiet_new_jobs [of s jobs] by simp
  from quiet_trans [OF this quiet_trans [OF quiet_simps(11) quiet_merge]] Some jv show ?thesis
    by (simp add: load_store_def)
qed (simp add: load_store_def)

lemma quiet_load_or_new [simp]: "quiet s (load_or_new now s)"
  by (simp add: load_or_new_def Let_def quiet_trans [OF quiet_load quiet_simps(11)])

lemma quiet_push [simp]: "quiet s (snd (push_job j s))"
  by (auto simp: push_job_def new_job_def quiet_def control_def)

lemma quiet_recompute [simp]: "quiet s (recompute_next_runs env now s)"
proof -
  have "quiet s (fold (recompute_job env now) rs s)" for rs
  proof (induction rs arbitrary: s)
    case (Cons r rs)
    have "quiet s (recompute_job env now r s)" by (simp add: recompute_job_def Let_def)
    from quiet_trans [OF this Cons] show ?case by simp
  qed simp
  then show ?thesis by (simp add: recompute_next_runs_def)
qed

text \<open>The passes of the timer that are under way, and the invariant.\<close>

definition is_pass :: "run_caller \<Rightarrow> bool" where
  "is_pass c = (case c of TimerPass _ \<Rightarrow> True | ManualRun _ \<Rightarrow> False)"

definition passes :: "cron_service \<Rightarrow> nat" where
  "passes s = length (filter is_pass (map ex_caller (cv_runs s) @ cv_returned s))"

definition run_tokens :: "cron_service \<Rightarrow> nat list" where
  "run_tokens s = map (\<lambda>x. ar_token (ex_run x)) (cv_runs s)"

definition tokens_ok :: "cron_service \<Rightarrow> bool" where
  "tokens_ok s \<longleftrightarrow> distinct (run_tokens s) \<and> list_all (\<lambda>t. t < cv_next s) (run_tokens s)"

definition settled :: "cron_service \<Rightarrow> bool" where
  "settled s \<longleftrightarrow> tokens_ok s \<and> passes s = of_bool (cv_timer_active s)"

definition awake :: "cron_service \<Rightarrow> bool" where
  "awake s \<longleftrightarrow> (cv_running s \<longrightarrow> cv_timer s \<noteq> None \<or> cv_runs s \<noteq> [] \<or> cv_returned s \<noteq> [])"

definition cron_inv :: "cron_service \<Rightarrow> bool" where
  "cron_inv s \<longleftrightarrow> settled s \<and> awake s"

lemma quiet_tokens:
  assumes "quiet s s'" and "tokens_ok s"
  shows "tokens_ok s'"
proof -
  note f = quiet_fields [OF assms(1)]
  then have "run_tokens s' = run_tokens s" by (simp add: run_tokens_def)
  moreover have "list_all (\<lambda>t. t < cv_next s') (run_tokens s)"
    using assms(2) f by (auto simp: tokens_ok_def elim!: list.pred_mono_strong)
  ultimately show ?thesis using assms(2) by (simp add: tokens_ok_def)
qed

lemma quiet_passes:
  assumes "quiet s s'"
  shows "passes s' = passes s"
  by (simp only: passes_def quiet_fields [OF assms])

lemma quiet_settled:
  assumes q: "quiet s s'" and "settled s"
  shows "settled s'"
proof -
  have "cv_timer_active s' = cv_timer_active s" using quiet_fields [OF q] by (elim conjE)
  with assms(2) quiet_tokens [OF q] quiet_passes [OF q] show ?thesis by (simp add: settled_def)
qed

lemma quiet_inv: "quiet s s' \<Longrightarrow> cron_inv s \<Longrightarrow> cron_inv s'"
  unfolding cron_inv_def awake_def using quiet_settled [of s s'] quiet_fields [of s s'] by simp

lemma arm_fields [simp]:
  "cv_running (arm_timer now s) = cv_running s" "cv_timer_active (arm_timer now s) = cv_timer_active s"
  "cv_runs (arm_timer now s) = cv_runs s" "cv_returned (arm_timer now s) = cv_returned s" "cv_next (arm_timer now s) = cv_next s"
  by (simp_all add: arm_timer_def)

lemma arm_inv: "settled s \<Longrightarrow> cron_inv (arm_timer now s)"
proof -
  assume s: "settled s"
  then have "settled (arm_timer now s)" by (simp add: settled_def tokens_ok_def passes_def run_tokens_def)
  moreover have "awake (arm_timer now s)"
  proof (cases "cv_timer_active s")
    case True
    with s have "passes s = 1" by (simp add: settled_def)
    then have "cv_runs s \<noteq> [] \<or> cv_returned s \<noteq> []" by (auto simp: passes_def)
    then show ?thesis by (simp add: awake_def)
  qed (simp add: awake_def arm_timer_def)
  ultimately show ?thesis by (simp add: cron_inv_def)
qed

lemma saved_inv: "settled s \<Longrightarrow> cron_inv (saved now s)"
  by (simp add: saved_def arm_inv quiet_settled [OF quiet_simps(3)])

lemma stopped_inv: "settled s \<Longrightarrow> \<not> cv_running s \<Longrightarrow> cron_inv s"
  by (simp add: cron_inv_def awake_def)

text \<open>A pass of the timer holds the flag and is not counted while it decides what to run next.\<close>

definition deciding :: "cron_service \<Rightarrow> bool" where
  "deciding s \<longleftrightarrow> tokens_ok s \<and> passes s = 0 \<and> cv_timer_active s"

lemma start_execution_fields:
  "cv_runs (start_execution now c r s) \<noteq> []" "cv_timer_active (start_execution now c r s) = cv_timer_active s"
  "tokens_ok s \<Longrightarrow> tokens_ok (start_execution now c r s)"
  "passes (start_execution now c r s) = passes s + of_bool (is_pass c)"
  by (auto simp: start_execution_def Let_def tokens_ok_def run_tokens_def list_all_iff passes_def)

lemma timer_loop_inv:
  assumes "deciding s"
  shows "cron_inv (timer_loop now executed s)"
proof -
  have finish: "cron_inv (end_pass now t)" if t: "deciding t" for t
  proof -
    have "settled ((save_store t)\<lparr>cv_timer_active := False\<rparr>)"
      using t quiet_tokens [OF quiet_simps(3), of t] quiet_passes [OF quiet_simps(3), of t]
      by (simp add: deciding_def settled_def tokens_ok_def passes_def run_tokens_def)
    then show ?thesis by (simp add: end_pass_def arm_inv)
  qed
  have merged: "deciding (merge_action now s)"
    using assms quiet_tokens [OF quiet_merge] quiet_passes [OF quiet_merge] quiet_fields [OF quiet_merge]
    by (simp add: deciding_def)
  show ?thesis
  proof (cases "cv_running s")
    case True
    show ?thesis
    proof (cases "pick_due now executed (merge_action now s)")
      case None
      with True finish [OF merged] show ?thesis by (simp add: timer_loop_def Let_def)
    next
      case (Some r)
      let ?c = "TimerPass (cj_id (job_at (merge_action now s) r) # executed)"
      have "cron_inv (start_execution now ?c r (merge_action now s))"
        using merged start_execution_fields [where now = now and c = ?c and r = r and s = "merge_action now s"]
        by (simp add: cron_inv_def settled_def awake_def deciding_def is_pass_def)
      with True Some show ?thesis by (simp add: timer_loop_def Let_def)
    qed
  qed (use finish [OF assms] in \<open>simp add: timer_loop_def\<close>)
qed

lemma pass_removed:
  "c \<in> set (cv_returned s) \<Longrightarrow> passes (s\<lparr>cv_returned := remove1 c (cv_returned s)\<rparr>) + of_bool (is_pass c) = passes s"
proof -
  have "c \<in> set cs \<Longrightarrow> length (filter is_pass (remove1 c cs)) + of_bool (is_pass c) = length (filter is_pass cs)" for cs
    by (induction cs) auto
  then show "c \<in> set (cv_returned s) \<Longrightarrow> ?thesis" by (simp add: passes_def)
qed

lemma resume_caller_inv:
  assumes "cron_inv s" and c: "c \<in> set (cv_returned s)"
  shows "cron_inv (resume_caller now c s)"
proof -
  let ?s = "s\<lparr>cv_returned := remove1 c (cv_returned s)\<rparr>"
  from assms have tokens: "tokens_ok ?s" and passes: "passes ?s + of_bool (is_pass c) = of_bool (cv_timer_active s)"
    using pass_removed [OF c] by (simp_all add: cron_inv_def settled_def tokens_ok_def run_tokens_def)
  show ?thesis
  proof (cases c)
    case (TimerPass executed)
    with passes have "deciding ?s" using tokens by (cases "cv_timer_active s") (simp_all add: deciding_def is_pass_def)
    then show ?thesis unfolding TimerPass by (simp add: resume_caller_def timer_loop_inv)
  next
    case (ManualRun was_running)
    let ?s1 = "(save_store ?s)\<lparr>cv_running := was_running\<rparr>"
    have "settled ?s" using tokens passes ManualRun by (simp add: settled_def is_pass_def)
    then have "settled (save_store ?s)" by (rule quiet_settled [OF quiet_simps(3)])
    then have "settled ?s1" by (simp add: settled_def tokens_ok_def passes_def run_tokens_def)
    with arm_inv stopped_inv show ?thesis unfolding resume_caller_def ManualRun Let_def
      by (cases was_running) (simp_all add: ManualRun)
  qed
qed

lemma quiet_reschedule: "quiet s (reschedule env ended x s)"
  by (simp add: reschedule_def Let_def split: schedule_kind.split)

lemma finish_execution_inv:
  assumes "cron_inv s" and x: "x \<in> set (cv_runs s)"
  shows "cron_inv (finish_execution env now failure x s)"
proof -
  let ?rest = "filter (\<lambda>y. ar_token (ex_run y) \<noteq> ar_token (ex_run x)) (cv_runs s)"
  let ?s = "s\<lparr>cv_runs := ?rest, cv_returned := cv_returned s @ [ex_caller x]\<rparr>"
  have d: "distinct (map (\<lambda>y. ar_token (ex_run y)) (cv_runs s))"
    and bound: "list_all (\<lambda>t. t < cv_next s) (run_tokens s)"
    using assms(1) by (simp_all add: cron_inv_def settled_def tokens_ok_def run_tokens_def)
  obtain ys zs where runs: "cv_runs s = ys @ x # zs" using x by (meson split_list)
  have "filter (\<lambda>y. ar_token (ex_run y) \<noteq> ar_token (ex_run x)) ys = ys" "filter (\<lambda>y. ar_token (ex_run y) \<noteq> ar_token (ex_run x)) zs = zs"
    using d unfolding runs filter_id_conv by (auto simp: image_iff)
  then have "?rest = ys @ zs" by (simp add: runs)
  with runs have passes: "passes ?s = passes s" and sub: "set (run_tokens ?s) \<subseteq> set (run_tokens s)"
    by (auto simp: passes_def run_tokens_def)
  have "distinct (run_tokens ?s)" using d by (simp add: run_tokens_def distinct_map_filter)
  with assms(1) bound passes sub have "settled ?s" by (simp add: cron_inv_def settled_def tokens_ok_def list_all_iff subset_iff)
  moreover have q: "quiet ?s (finish_execution env now failure x s)"
    by (simp add: finish_execution_def Let_def quiet_trans [OF quiet_simps(1) quiet_reschedule])
  ultimately have "settled (finish_execution env now failure x s)" by (rule quiet_settled [rotated])
  moreover have "cv_returned (finish_execution env now failure x s) \<noteq> []" using quiet_fields [OF q] by simp
  ultimately show ?thesis by (simp add: cron_inv_def awake_def)
qed

lemma timer_fires_inv:
  assumes "cron_inv s"
  shows "cron_inv (timer_fires now s)"
proof -
  let ?s = "s\<lparr>cv_timer := None\<rparr>"
  from assms have s: "settled ?s" by (simp add: cron_inv_def settled_def tokens_ok_def passes_def run_tokens_def)
  show ?thesis
  proof (cases "\<not> cv_running s \<or> cv_timer_active s \<or> cv_runs s \<noteq> []")
    case True
    have "awake ?s"
    proof (cases "cv_timer_active s")
      case active: True
      with s have "passes ?s = 1" by (simp add: settled_def)
      then show ?thesis by (auto simp: passes_def awake_def)
    qed (use True in \<open>auto simp: awake_def\<close>)
    with True s show ?thesis by (auto simp: timer_fires_def on_timer_def cron_inv_def)
  next
    case False
    let ?s1 = "load_store now ?s"
    have s1: "settled ?s1" using quiet_settled [OF quiet_load s] .
    have f: "cv_timer_active ?s1 = False" using False quiet_fields [OF quiet_load, of now ?s] by simp
    have "deciding (?s1\<lparr>cv_timer_active := True\<rparr>)"
      using s1 f by (simp add: settled_def deciding_def tokens_ok_def passes_def run_tokens_def)
    with False arm_inv [OF s1] timer_loop_inv show ?thesis by (simp add: timer_fires_def on_timer_def Let_def)
  qed
qed

lemma running_settled: "settled (s\<lparr>cv_running := b\<rparr>) = settled s"
  by (simp add: settled_def tokens_ok_def passes_def run_tokens_def)

lemma start_cron_inv: "cron_inv s \<Longrightarrow> cron_inv (snd (start_cron env now s))"
proof -
  assume inv: "cron_inv s"
  let ?s1 = "load_store now (s\<lparr>cv_running := True\<rparr>)"
  have s1: "settled ?s1" using inv by (intro quiet_settled [OF quiet_load]) (simp add: running_settled cron_inv_def)
  have "settled (save_store (recompute_next_runs env now ?s1))"
    using quiet_settled [OF quiet_trans [OF quiet_recompute quiet_simps(3)] s1] .
  with s1 arm_inv stopped_inv show ?thesis by (simp add: start_cron_def Let_def running_settled)
qed

lemma run_job_inv: "cron_inv s \<Longrightarrow> cron_inv (snd (run_job now i force s))"
proof -
  assume inv: "cron_inv s"
  let ?s1 = "load_store now (s\<lparr>cv_running := True\<rparr>)"
  have s1: "settled ?s1" using inv by (intro quiet_settled [OF quiet_load]) (simp add: running_settled cron_inv_def)
  have refused: "cron_inv (if cv_running s then arm_timer now (?s1\<lparr>cv_running := cv_running s\<rparr>) else ?s1\<lparr>cv_running := cv_running s\<rparr>)"
    using s1 by (simp add: arm_inv stopped_inv running_settled)
  have "cron_inv (start_execution now (ManualRun (cv_running s)) r ?s1)" for r
    using s1 start_execution_fields [where now = now and c = "ManualRun (cv_running s)" and r = r and s = ?s1]
    by (simp add: cron_inv_def settled_def awake_def is_pass_def)
  with refused show ?thesis by (auto simp: run_job_def Let_def split: option.splits)
qed

lemma quiet_saved:
  assumes "quiet s t" and "cron_inv s"
  shows "cron_inv (saved now t)" and "cron_inv (if b then saved now t else append_action a p t)"
  using assms quiet_settled [OF assms(1)] saved_inv quiet_inv [OF quiet_trans [OF assms(1) quiet_simps(4)] assms(2)]
  by (auto simp: cron_inv_def)

lemma cron_step_inv: "cron_step env s s' \<Longrightarrow> cron_inv s \<Longrightarrow> cron_inv s'"
proof (induction rule: cron_step.induct)
  case (Stop s)
  then show ?case
    by (simp add: stop_cron_def cron_inv_def awake_def settled_def tokens_ok_def passes_def run_tokens_def)
next
  case (AddRow s now j)
  have "quiet s (snd (push_job j (drop_jobs (\<lambda>row. cj_id row = cj_id j) (load_or_new now s))))"
    by (rule quiet_trans [OF quiet_load_or_new quiet_trans [OF quiet_simps(5) quiet_push]])
  with AddRow show ?case by (simp add: add_cron_def quiet_saved)
next
  case (AddJob now i inp s s')
  let ?j = "input_job env now i inp"
  from AddJob(1) have s': "s' = (if cv_running s then saved now (snd (push_job ?j (load_or_new now s))) else append_action ''add'' (job_json ?j) s)"
    by (auto simp: add_job_def error_simps Let_def)
  have "quiet s (snd (push_job ?j (load_or_new now s)))" by (rule quiet_trans [OF quiet_load_or_new quiet_push])
  with AddJob(2) s' show ?case by (simp add: quiet_saved quiet_inv [OF quiet_simps(4)])
next
  case (Register s now j)
  have "quiet s (snd (push_job j' (drop_jobs (\<lambda>row. cj_id row = cj_id j) (load_or_new now s))))" for j'
    by (rule quiet_trans [OF quiet_load_or_new quiet_trans [OF quiet_simps(5) quiet_push]])
  from quiet_saved(1) [OF this Register] show ?case by (simp add: register_system_job_def Let_def)
next
  case (Unregister s now i)
  have "quiet s (drop_jobs P (load_store now s))" for P by (rule quiet_trans [OF quiet_load quiet_simps(5)])
  from quiet_saved(1) [OF this Unregister] show ?case
    by (simp add: unregister_system_job_def Let_def quiet_inv [OF quiet_load Unregister])
next
  case (Remove s now i)
  have "quiet s (drop_jobs P (load_store now s))" for P by (rule quiet_trans [OF quiet_load quiet_simps(5)])
  with Remove show ?case
    by (auto simp: remove_job_def Let_def quiet_inv [OF quiet_load] split: option.splits intro: quiet_saved quiet_inv [OF quiet_trans [OF _ quiet_simps(4)]])
next
  case (RemoveSessions s now keys)
  let ?s1 = "load_store now s"
  let ?s2 = "drop_jobs (of_sessions keys) ?s1"
  let ?s3 = "if length (store_refs ?s2) \<noteq> length (store_refs ?s1) then saved now ?s2 else ?s1"
  have "cron_inv ?s3" using RemoveSessions quiet_saved [OF quiet_trans [OF quiet_load quiet_simps(5)]] quiet_inv [OF quiet_load] by simp
  then show ?case by (simp add: remove_sessions_round_def Let_def quiet_inv [OF quiet_load])
next
  case (Enable s now i enabled)
  have "quiet s (set_job r j (load_store now s))" for r j by (rule quiet_trans [OF quiet_load quiet_simps(1)])
  with Enable show ?case
    by (auto simp: enable_job_def Let_def quiet_inv [OF quiet_load] split: option.splits intro: quiet_saved quiet_inv [OF quiet_trans [OF _ quiet_simps(4)]])
next
  case (Update s now i u)
  have q: "quiet s (set_job r j (load_store now s))" "quiet s (set_job r j (new_schedule r (load_store now s)))" for r j
    by (rule quiet_trans [OF quiet_load quiet_simps(1)] quiet_trans [OF quiet_load quiet_trans [OF quiet_simps(6) quiet_simps(1)]])+
  note written = q [THEN quiet_saved(1), OF Update] q [THEN quiet_trans, OF quiet_simps(4), THEN quiet_inv, OF Update]
  show ?case
    by (simp add: update_job_def Let_def quiet_inv [OF quiet_load Update] written split: option.split sum.split)
next
  case (OtherProcess s f ls)
  then show ?case by (simp add: quiet_inv [OF quiet_simps(9)])
qed (simp_all add: start_cron_inv timer_fires_inv finish_execution_inv resume_caller_inv run_job_inv quiet_inv [OF quiet_load])


end
