(* ===== verification/Cron_Jobs.thy ===== *)
theory Cron_Jobs
  imports Cron_Operations "HOL-Library.Sublist"
begin

text \<open>
  What the operations of the cron scheduler do to jobs: the end of a run, the choice of the next due
  job, the protection of system jobs, and the store file.
\<close>

section \<open>Jobs in the heap\<close>

lemma job_at_set [simp]: "job_at (set_job r j s) r' = (if r' = r then j else job_at s r')"
  by (simp add: job_at_def set_job_def)

lemma set_job_fields [simp]:
  "cv_store (set_job r j s) = cv_store s" "cc_schedule (the (cv_heap (set_job r j s) r')) = cc_schedule (the (cv_heap s r'))"
  "store_refs (set_job r j s) = store_refs s"
  by (simp_all add: set_job_def store_refs_def)

lemma heap_fields [simp]:
  "job_at (save_store s) r = job_at s r" "job_at (arm_timer now s) r = job_at s r" "job_at (drop_jobs P s) r = job_at s r"
  "job_at (append_action a p s) r = job_at s r" "store_refs (save_store s) = store_refs s"
  "store_refs (arm_timer now s) = store_refs s" "store_refs (append_action a p s) = store_refs s"
  by (simp_all add: job_at_def save_store_def arm_timer_def drop_jobs_def append_action_def store_refs_def split: option.split)

lemma saved_fields [simp]: "job_at (saved now s) r = job_at s r" "store_refs (saved now s) = store_refs s"
  by (simp_all add: saved_def)

lemma store_refs_drop: "store_refs (drop_jobs P s) = filter (\<lambda>r. \<not> P (job_at s r)) (store_refs s)"
  by (simp add: store_refs_def drop_jobs_def split: option.split)

section \<open>The end of a run\<close>

lemma take_last_append: "length (take_last n xs) \<le> n \<and> suffix (take_last n xs) xs"
  by (simp add: take_last_def suffix_drop)

lemma take_last_snoc: "\<exists>ys. take_last (Suc n) (xs @ [x]) = ys @ [x] \<and> suffix ys xs"
  by (auto simp: take_last_def suffix_drop intro!: exI [of _ "drop (length xs - n) xs"])

lemma edited_with_results:
  assumes "r = ex_job x"
  shows "edited_meanwhile (set_job r (with_results a b f (job_at s r)) (s\<lparr>cv_runs := rs, cv_returned := cs\<rparr>)) x = edited_meanwhile s x"
proof -
  let ?s = "set_job r (with_results a b f (job_at s r)) (s\<lparr>cv_runs := rs, cv_returned := cs\<rparr>)"
  have at: "job_at (s\<lparr>cv_runs := rs, cv_returned := cs\<rparr>) r' = job_at s r'" for r' by (simp add: job_at_def)
  have "(\<lambda>r'. cj_id (job_at ?s r') = i) = (\<lambda>r'. cj_id (job_at s r') = i)" for i
    by (rule ext) (simp add: at with_results_def Let_def)
  then have "find_job i ?s = find_job i s" for i by (simp add: find_job_def store_refs_def)
  then show ?thesis using assms by (simp add: edited_meanwhile_def with_results_def Let_def)
qed

lemma reschedule_keeps:
  fixes env ended x s
  defines "j \<equiv> job_at s (ex_job x)" and "s' \<equiv> reschedule env ended x s"
  shows "jo_last (cj_state (job_at s' (ex_job x))) = jo_last (cj_state j)" "jo_error (cj_state (job_at s' (ex_job x))) = jo_error (cj_state j)"
    "jo_history (cj_state (job_at s' (ex_job x))) = jo_history (cj_state j)" "r' \<noteq> ex_job x \<Longrightarrow> job_at s' r' = job_at s r'"
  unfolding j_def s'_def by (auto simp: reschedule_def Let_def job_at_def [of "s\<lparr>cv_store := st\<rparr>" for st] job_at_def [of s, symmetric]
    split: schedule_kind.split)

lemma reschedule_next:
  fixes env ended x s
  defines "j \<equiv> job_at s (ex_job x)" and "s' \<equiv> reschedule env ended x s"
  defines "j' \<equiv> job_at s' (ex_job x)"
  shows "case cs_kind (cj_schedule j) of
       AtTime \<Rightarrow> find_job (cj_id j) s' = None \<and> cv_store s' \<noteq> None \<or> \<not> cj_enabled j' \<and> jo_next (cj_state j') = None
     | Every \<Rightarrow> jo_next (cj_state j') = advance_interval (ev_cron env) (ev_date env) (cj_schedule j) (ex_due x) ended
     | CronExpr \<Rightarrow> jo_next (cj_state j') = next_run_of env (cj_schedule j) ended"
proof (cases "cs_kind (cj_schedule j)")
  case AtTime
  have "find_job (cj_id j) (s\<lparr>cv_store := map_option (filter (\<lambda>r'. cj_id (job_at s r') \<noteq> cj_id j)) (cv_store s)\<rparr>) = None"
    by (auto simp: find_job_def find_None_iff store_refs_def job_at_def split: option.splits)
  with AtTime show ?thesis by (auto simp: reschedule_def Let_def j_def s'_def j'_def)
qed (simp_all add: reschedule_def Let_def j_def s'_def j'_def)


section \<open>The next job of a pass\<close>

lemma comparator_rat: "comparator (\<lambda>x y. cmp_rat (f x) (f y))"
  by unfold_locales (auto simp: cmp_rat_def split: if_splits)

interpretation due_order: comparator "\<lambda>a b. cmp_due (job_at s a) (job_at s b)" for s
  unfolding cmp_due_def by (intro comparator_then comparator_flip [OF comparator_key] comparator_rat)

definition one_time :: "cron_job \<Rightarrow> bool" where
  "one_time j \<longleftrightarrow> cs_kind (cj_schedule j) = AtTime"

lemma cmp_due_less:
  "cmp_due a b \<le> 0 \<Longrightarrow> \<not> (one_time b \<and> \<not> one_time a) \<and> (one_time a = one_time b \<longrightarrow> due_time a \<le> due_time b)"
  by (auto simp: cmp_due_def then_cmp_def cmp_rat_def one_time_def split: if_splits)

lemma pick_due_least:
  "case pick_due now executed s of
     None \<Rightarrow> \<not> (\<exists>r \<in> set (store_refs s). is_due now executed (job_at s r))
   | Some r \<Rightarrow> r \<in> set (store_refs s) \<and> is_due now executed (job_at s r)
       \<and> \<not> (\<exists>r' \<in> set (store_refs s). is_due now executed (job_at s r')
            \<and> (one_time (job_at s r') \<and> \<not> one_time (job_at s r)
               \<or> one_time (job_at s r') = one_time (job_at s r) \<and> due_time (job_at s r') < due_time (job_at s r)))"
proof -
  let ?due = "filter (\<lambda>r. is_due now executed (job_at s r)) (store_refs s)"
  let ?sorted = "sort_cmp (\<lambda>a b. cmp_due (job_at s a) (job_at s b)) ?due"
  show ?thesis
  proof (cases ?sorted)
    case Nil
    then have "?due = []" by simp
    with Nil show ?thesis by (auto simp: pick_due_def filter_empty_conv)
  next
    case (Cons r rs)
    have "r \<in> set ?due" using Cons set_sort_cmp [of "\<lambda>a b. cmp_due (job_at s a) (job_at s b)" ?due] by auto
    moreover have "cmp_due (job_at s r) (job_at s r') \<le> 0" if "r' \<in> set ?due" for r'
      using due_order.hd_sort_cmp_least [where s = s, OF that] Cons by simp
    ultimately show ?thesis using Cons cmp_due_less by (fastforce simp: pick_due_def)
  qed
qed

lemma is_due_iff:
  "is_due now executed j \<longleftrightarrow> cj_enabled j \<and> cj_id j \<notin> set executed \<and> (\<exists>t. jo_next (cj_state j) = Some t \<and> t \<le> now)"
  by (auto simp: is_due_def split: option.split)

text \<open>
  A pass of the timer runs a job that is enabled, due and has not run in this pass; one-time jobs come
  before others, and among equals the one that has waited longest; it ends only when none is due.
\<close>

theorem pick_due_spec:
  "let due = (\<lambda>r. cj_enabled (job_at s r) \<and> cj_id (job_at s r) \<notin> set executed
          \<and> (\<exists>t. jo_next (cj_state (job_at s r)) = Some t \<and> t \<le> now))
   in case pick_due now executed s of
     None \<Rightarrow> \<not> (\<exists>r \<in> set (store_refs s). due r)
   | Some r \<Rightarrow> r \<in> set (store_refs s) \<and> due r
       \<and> \<not> (\<exists>r' \<in> set (store_refs s). due r'
            \<and> (one_time (job_at s r') \<and> \<not> one_time (job_at s r)
               \<or> one_time (job_at s r') = one_time (job_at s r) \<and> due_time (job_at s r') < due_time (job_at s r)))"
  using pick_due_least [where now = now and executed = executed and s = s] unfolding is_due_iff Let_def .

section \<open>System jobs\<close>

lemma find_jobD: "find_job i s = Some r \<Longrightarrow> r \<in> set (store_refs s) \<and> cj_id (job_at s r) = i"
  by (auto simp: find_job_def dest: find_SomeD)

text \<open>
  System jobs are protected. While the ids of the loaded jobs are distinct, no removal, no update and
  no cleaning of sessions takes a system job out of the store or changes it.
\<close>

theorem system_jobs_protected:
  assumes r: "r \<in> set (store_refs (load_store now s))" and system: "is_system (job_at (load_store now s) r)"
    and ids: "distinct (map (\<lambda>r. cj_id (job_at (load_store now s) r)) (store_refs (load_store now s)))"
  shows "list_all (\<lambda>t. r \<in> set (store_refs t) \<and> job_at t r = job_at (load_store now s) r)
     [snd (remove_job now i s), snd (update_job env now i u s), drop_jobs (of_sessions keys) (load_store now s)]"
proof -
  let ?s1 = "load_store now s"
  have other: "r0 \<noteq> r \<and> cj_id (job_at ?s1 r) \<noteq> i" if "find_job i ?s1 = Some r0" "\<not> is_system (job_at ?s1 r0)" for r0
    using find_jobD [OF that(1)] that(2) r system ids by (auto simp: distinct_map dest: inj_onD)
  have "r \<in> set (store_refs (snd (remove_job now i s))) \<and> job_at (snd (remove_job now i s)) r = job_at ?s1 r"
    using r other by (auto simp: remove_job_def Let_def store_refs_drop split: option.splits)
  moreover have "r \<in> set (store_refs (snd (update_job env now i u s))) \<and> job_at (snd (update_job env now i u s)) r = job_at ?s1 r"
  proof -
    have "job_at (new_schedule r0 ?s1) r' = job_at ?s1 r'" "store_refs (new_schedule r0 ?s1) = store_refs ?s1" for r0 r'
      by (simp_all add: new_schedule_def job_at_def store_refs_def)
    then show ?thesis
      using r other by (auto simp: update_job_def Let_def split: option.splits sum.splits)
  qed
  moreover have "\<not> of_sessions keys (job_at ?s1 r)" using system by (simp add: of_sessions_def)
  ultimately show ?thesis using r by (simp add: store_refs_drop)
qed

section \<open>The store file\<close>

text \<open>
  C38: What is saved is loaded: reading the file that the store was written to gives the same jobs in the
  same order, and the version.
\<close>

theorem store_round_trip:
  assumes "cv_store s = Some rs" and "list_all (\<lambda>r. payload_ok (cj_payload (job_at s r))) rs"
  shows "load_jobs now (cv_file (save_store s)) = Some (map (job_at s) rs, cv_version s)"
proof -
  have "mapE (json_job now) (map job_json js) = Inr js" if "list_all (\<lambda>j. payload_ok (cj_payload j)) js" for js
    using that by (induction js) (simp_all add: job_json_back)
  from this [of "map (job_at s) rs"] assms show ?thesis
    by (simp add: load_jobs_def save_store_def read_store_def store_json_def json_field_def list.pred_map comp_def)
qed

end
