(* ===== verification/Cron_Example.thy ===== *)
theory Cron_Example
  imports Cron_Jobs
begin

text \<open>
  A store with an interval job and a system job: the theorems on the cron scheduler at concrete inputs,
  and runs that show where the service does not do what its operations promise.
\<close>

definition ex_cron_env :: cron_env where
  "ex_cron_env = \<lparr>ev_cron = (\<lambda>_ _ _. None), ev_date = (\<lambda>_. None), ev_zone = (\<lambda>_. False)\<rparr>"

definition ex_schedule :: schedule where
  "ex_schedule = \<lparr>cs_kind = Every, cs_at_ms = None, cs_at = None, cs_every_ms = Some 1000, cs_expr = None, cs_tz = None\<rparr>"

definition ex_cron_job :: "string \<Rightarrow> string option \<Rightarrow> bool \<Rightarrow> cron_job" where
  "ex_cron_job i key system = \<lparr>cj_id = i, cj_name = i, cj_enabled = True, cj_schedule = ex_schedule,
     cj_payload = \<lparr>cp_kind = ''agentTurn'', cp_message = ''m'', cp_prompt = ''m'', cp_deliver = False, cp_channel = None,
       cp_to = None, cp_chat_id = None, cp_channel_meta = [], cp_session_key = key, cp_metadata = []\<rparr>,
     cj_state = fresh_state\<lparr>jo_next := Some 1000\<rparr>, cj_system = system, cj_created = 0, cj_updated = 0, cj_delete_after = False\<rparr>"

definition ex_cron_file :: "string option \<Rightarrow> cron_file" where
  "ex_cron_file key = Parsed (store_json 1 [ex_cron_job ''a'' key False, ex_cron_job ''b'' None True])"

definition ex_service :: "string option \<Rightarrow> cron_service" where
  "ex_service key = fresh_service (ex_cron_file key) None 60000"

lemma ex_load_jobs:
  "load_jobs now (ex_cron_file key) = Some ([ex_cron_job ''a'' key False, ex_cron_job ''b'' None True], 1)"
proof -
  have "payload_ok (cj_payload (ex_cron_job i k sys))" for i k sys by (simp add: ex_cron_job_def payload_ok_def)
  then show ?thesis by (simp add: ex_cron_file_def load_jobs_def read_store_def store_json_def json_field_def job_json_back)
qed

theorem advance_interval_spec_witness:
  "\<exists>n k. advance_interval (\<lambda>_ _ _. None) (\<lambda>_. None) ex_schedule (Some 1000) 3500 = Some n \<and> 3500 < n \<and> n - 1000 \<le> 3500
     \<and> n = 1000 + of_nat (Suc k) * 1000"
  using advance_interval_spec [where s = ex_schedule and interval = 1000 and t = 1000 and ended = 3500
      and cron_parser = "\<lambda>_ _ _. None" and parse_date = "\<lambda>_. None"]
  by (simp add: ex_schedule_def del: of_nat_Suc)

text \<open>A load of the file makes two new objects, first the interval job and then the system job.\<close>

lemma ex_load:
  assumes "cv_file s = ex_cron_file key" and "cv_actions s = None" and "\<not> cv_timer_active s" and "cv_runs s = []"
  shows "load_store now s = s\<lparr>cv_heap := (cv_heap s)(cv_next s \<mapsto> \<lparr>cc_job = ex_cron_job ''a'' key False, cc_schedule = cv_next s\<rparr>,
      Suc (cv_next s) \<mapsto> \<lparr>cc_job = ex_cron_job ''b'' None True, cc_schedule = Suc (cv_next s)\<rparr>),
      cv_next := Suc (Suc (cv_next s)), cv_store := Some [cv_next s, Suc (cv_next s)], cv_version := 1\<rparr>"
  using assms by (simp add: load_store_def ex_load_jobs new_job_def merge_action_def Let_def)

lemma ex_loaded:
  "cv_store (load_store now (ex_service key)) = Some [0, 1]" "store_refs (load_store now (ex_service key)) = [0, 1]"
  "job_at (load_store now (ex_service key)) 0 = ex_cron_job ''a'' key False"
  "job_at (load_store now (ex_service key)) (Suc 0) = ex_cron_job ''b'' None True"
  "cv_version (load_store now (ex_service key)) = 1"
  by (subst ex_load [where key = key]; simp add: ex_service_def fresh_service_def store_refs_def job_at_def)+

theorem system_jobs_protected_witness:
  "list_all (\<lambda>t. 1 \<in> set (store_refs t) \<and> job_at t 1 = ex_cron_job ''b'' None True)
     [snd (remove_job 0 ''b'' (ex_service None)),
      snd (update_job ex_cron_env 0 ''b'' (job_update.make None None None None None None (Some True)) (ex_service None)),
      drop_jobs (of_sessions {''k''}) (load_store 0 (ex_service None))]"
  using system_jobs_protected [of 1 0 "ex_service None" "''b''" ex_cron_env "job_update.make None None None None None None (Some True)" "{''k''}"]
  by (simp add: ex_loaded is_system_def ex_cron_job_def)

theorem store_round_trip_witness:
  "load_jobs 5 (cv_file (save_store (load_store 0 (ex_service None))))
     = Some ([ex_cron_job ''a'' None False, ex_cron_job ''b'' None True], 1)"
  using store_round_trip [of "load_store 0 (ex_service None)" "[0, 1]" 5]
  by (simp add: ex_loaded payload_ok_def ex_cron_job_def)

section \<open>A run of the timer\<close>

definition ex_started :: cron_service where
  "ex_started = snd (start_cron ex_cron_env 0 (ex_service None))"

definition ex_fired :: cron_service where
  "ex_fired = timer_fires 1200 ex_started"

definition ex_finished :: cron_service where
  "ex_finished = finish_execution ex_cron_env 1500 (Some ''failed'') (hd (cv_runs ex_fired)) ex_fired"

lemma ex_pass:
  "cv_timer ex_started = Some 1000 \<and> map ex_due (cv_runs ex_fired) = [Some 1000] \<and> length (cv_returned ex_finished) = 1"
  by code_simp


section \<open>Where operations overlap\<close>

text \<open>A service that is started while \<open>runJob\<close> waits for the callback is stopped when it returns, and has no timer.\<close>

lemma manual_run_undoes_start:
  "let (ran, s1) = run_job 10 ''a'' True (ex_service None);
       (started, s2) = start_cron ex_cron_env 20 s1;
       x = hd (cv_runs s2);
       s3 = resume_caller 30 (ex_caller x) (finish_execution ex_cron_env 30 None x s2)
   in ran \<and> started \<and> cv_running s2 \<and> \<not> cv_running s3 \<and> cv_timer s3 = None"
  by code_simp

text \<open>Two overlapping \<open>runJob\<close>s on a service that nobody has started leave it running, with a timer.\<close>

lemma overlapping_runs_start_service:
  "let s2 = snd (run_job 20 ''b'' True (snd (run_job 10 ''a'' True (ex_service None))));
       x = hd (cv_runs s2); y = hd (tl (cv_runs s2));
       s3 = resume_caller 30 (ex_caller x) (finish_execution ex_cron_env 30 None x s2);
       s4 = resume_caller 40 (ex_caller y) (finish_execution ex_cron_env 40 None y s3)
   in \<not> cv_running (ex_service None) \<and> length (cv_runs s2) = 2 \<and> cv_runs s4 = [] \<and> cv_running s4 \<and> cv_timer s4 \<noteq> None"
  by code_simp

text \<open>
  With an empty session key among the keys and on a job, a round of the cleaning neither removes the job nor
  waits nor returns, and leaves everything for the next round to do the same.
\<close>

definition spins :: "cron_service \<Rightarrow> bool" where
  "spins s \<longleftrightarrow> cv_file s = ex_cron_file (Some []) \<and> cv_actions s = None \<and> \<not> cv_timer_active s \<and> cv_runs s = []"

lemma cleaning_spins_on_empty_key:
  assumes "spins s"
  shows "fst (remove_sessions_round now {[]} s) = False \<and> session_runs {[]} s = [] \<and> spins (snd (remove_sessions_round now {[]} s))"
proof -
  have load: "spins t \<Longrightarrow> spins (load_store now t) \<and> map (job_at (load_store now t)) (store_refs (load_store now t))
      = [ex_cron_job ''a'' (Some []) False, ex_cron_job ''b'' None True]" for t
    by (subst (1 2 3) ex_load [where key = "Some []"]) (simp_all add: spins_def job_at_def store_refs_def)
  have kept: "drop_jobs (of_sessions {[]}) t = t" for t
  proof -
    have "(\<lambda>r. \<not> of_sessions {[]} (job_at t r)) = (\<lambda>r. True)" by (auto simp: of_sessions_def split: option.split)
    moreover have "filter (\<lambda>r. True) = (\<lambda>rs :: nat list. rs)" by (rule ext) simp
    ultimately show ?thesis by (simp add: drop_jobs_def option.map_ident)
  qed
  let ?t = "load_store now (load_store now s)"
  have t: "spins (load_store now s)" "spins ?t" using load assms by blast+
  have "list_ex (\<lambda>r. remaining_job {[]} (job_at ?t r)) (store_refs ?t)
      = list_ex (remaining_job {[]}) (map (job_at ?t) (store_refs ?t))" by (simp add: list_ex_iff)
  also have "\<dots> = True" using load [OF t(1)] by (simp add: remaining_job_def is_system_def ex_cron_job_def)
  finally have remains: "list_ex (\<lambda>r. remaining_job {[]} (job_at ?t r)) (store_refs ?t)" by simp
  have "session_runs {[]} (load_store now s) = []" "session_runs {[]} s = []"
    using t(1) assms by (simp_all add: session_runs_def spins_def)
  with t remains show ?thesis by (simp add: remove_sessions_round_def Let_def kept)
qed

end
