(* ===== verification/Memory_Budget.thy ===== *)
theory Memory_Budget
  imports Js_Values
begin

text \<open>
  The token budget of the memory service: which jobs of its worker use a model that the user pays
  for, when usage pauses them (\<^verbatim>\<open>AgentSourceCore/src/memory-token-budget.ts\<close>), and the ledger that
  counts usage per day and in total (\<^verbatim>\<open>Memory/src/service/memory-token-budget-ledger.ts\<close>).
\<close>

section \<open>Numbers\<close>

text \<open>\<open>Math.trunc\<close>, \<open>Math.max\<close>, \<open>+\<close>, and \<open>Number(v)\<close>, where the argument \<open>ns\<close> reads texts.\<close>

fun num_trunc :: "jsnum \<Rightarrow> jsnum" where
  "num_trunc (Fin r) = Fin (of_int (js_trunc r))"
| "num_trunc n = n"

fun num_max :: "jsnum \<Rightarrow> jsnum \<Rightarrow> jsnum" where
  "num_max NaN _ = NaN"
| "num_max _ NaN = NaN"
| "num_max PosInf _ = PosInf"
| "num_max _ PosInf = PosInf"
| "num_max NegInf n = n"
| "num_max n NegInf = n"
| "num_max (Fin a) (Fin b) = Fin (max a b)"

fun num_add :: "jsnum \<Rightarrow> jsnum \<Rightarrow> jsnum" where
  "num_add NaN _ = NaN"
| "num_add _ NaN = NaN"
| "num_add PosInf NegInf = NaN"
| "num_add NegInf PosInf = NaN"
| "num_add PosInf _ = PosInf"
| "num_add _ PosInf = PosInf"
| "num_add NegInf _ = NegInf"
| "num_add _ NegInf = NegInf"
| "num_add (Fin a) (Fin b) = Fin (a + b)"

fun js_number :: "(string \<Rightarrow> jsnum) \<Rightarrow> (jsnum \<Rightarrow> string) \<Rightarrow> json option \<Rightarrow> jsnum" where
  "js_number ns nt None = NaN"
| "js_number ns nt (Some JNull) = Fin 0"
| "js_number ns nt (Some (JBool b)) = Fin (if b then 1 else 0)"
| "js_number ns nt (Some (JNum n)) = n"
| "js_number ns nt (Some (JStr s)) = ns s"
| "js_number ns nt (Some v) = ns (json_text nt v)"

definition tokens_per_m :: int where "tokens_per_m = 1000000"
definition default_daily_m :: int where "default_daily_m = 10"
definition default_total_m :: int where "default_total_m = 500"
definition max_limit_m :: int where "max_limit_m = 99999"

section \<open>Which jobs the budget concerns\<close>

definition worker_job_types :: "string list" where
  "worker_job_types = [''episode_idle_close'', ''episode_title'', ''trace_summary'', ''observation_extract'',
     ''user_memory_embedding'', ''import_summary'', ''reflection'', ''embedding'', ''reward'', ''span_big_turn'',
     ''negative_experience'', ''l2_association'', ''l2_induction'', ''l3_abstraction'', ''l3_world_model_update'',
     ''project_environment_profile'', ''skill_crystallization'', ''skill_cluster_assign'', ''skill_batch_evolve'',
     ''skill_trial_resolve'', ''work_memory_extract'', ''decision_repair'', ''feedback_experience'']"

datatype model_role = MemorySummary | MemoryEvolution | EmbeddingModel

record model_source =
  ms_source :: "string option"
  ms_mode :: "string option"

type_synonym model_sources = "model_role \<Rightarrow> model_source option"

definition starts_with :: "string \<Rightarrow> string \<Rightarrow> bool" where
  "starts_with p s \<longleftrightarrow> take (length p) s = p"

definition is_budgeted_usage :: "string option \<Rightarrow> string option \<Rightarrow> bool" where
  "is_budgeted_usage kind operation =
     (let op = (case operation of None \<Rightarrow> [] | Some s \<Rightarrow> js_trim s) in
      if op = ''embedding.query'' \<or> starts_with ''retrieval.'' op then False
      else if kind = Some ''memory_summary'' \<or> kind = Some ''memory_evolution'' then True
      else kind = Some ''embedding'' \<and> (op = ''embedding.document'' \<or> starts_with ''embedding.document.'' op))"

definition job_type_budget_roles :: "string \<Rightarrow> model_role list" where
  "job_type_budget_roles t =
     (if t \<in> {''episode_idle_close'', ''negative_experience'', ''l2_association'', ''l3_abstraction'',
              ''skill_cluster_assign'', ''skill_trial_resolve''} then []
      else if t \<in> {''episode_title'', ''trace_summary'', ''observation_extract'', ''import_summary'', ''span_big_turn'',
                   ''work_memory_extract''} then [MemorySummary]
      else if t \<in> {''reflection'', ''reward''} then [MemorySummary, MemoryEvolution]
      else if t \<in> {''embedding'', ''user_memory_embedding''} then [EmbeddingModel]
      else [MemoryEvolution])"

definition is_budgeted_byok :: "model_role \<Rightarrow> model_source option \<Rightarrow> bool" where
  "is_budgeted_byok role source =
     (case source of
        None \<Rightarrow> False
      | Some m \<Rightarrow> if ms_source m \<noteq> Some ''byok'' then False else role \<noteq> EmbeddingModel \<or> ms_mode m \<noteq> Some ''local'')"

definition job_type_consumes :: "string \<Rightarrow> model_sources option \<Rightarrow> bool" where
  "job_type_consumes t models =
     (let roles = job_type_budget_roles t in
      if roles = [] then False
      else case models of
             None \<Rightarrow> True
           | Some m \<Rightarrow> list_ex (\<lambda>role. is_budgeted_byok role (m role)) roles)"

definition allowed_job_types :: "model_sources option \<Rightarrow> string list" where
  "allowed_job_types models = filter (\<lambda>t. \<not> job_type_consumes t models) worker_job_types"

section \<open>Limits\<close>

definition parse_limit :: "json option \<Rightarrow> int option" where
  "parse_limit v =
     (case v of
        Some (JNum (Fin r)) \<Rightarrow>
          if \<not> is_integer_rat r then None
          else if r < 0 \<or> r > of_int max_limit_m then None else Some \<lfloor>r\<rfloor>
      | _ \<Rightarrow> None)"

definition normalize_limit :: "json option \<Rightarrow> int \<Rightarrow> int" where
  "normalize_limit v fallback = (case parse_limit v of None \<Rightarrow> fallback | Some n \<Rightarrow> n)"

definition nonneg_int :: "jsnum \<Rightarrow> int" where
  "nonneg_int n = (case n of Fin r \<Rightarrow> max 0 (js_trunc r) | _ \<Rightarrow> 0)"

datatype budget_trigger = Daily | Total

record budget_snapshot =
  sn_daily_limit :: int
  sn_total_limit :: int
  sn_daily_used :: int
  sn_lifetime_used :: int
  sn_paused :: bool
  sn_trigger :: "budget_trigger option"

definition evaluate_budget :: "json option \<Rightarrow> json option \<Rightarrow> jsnum \<Rightarrow> jsnum \<Rightarrow> budget_snapshot" where
  "evaluate_budget daily_limit total_limit daily_used lifetime_used =
     (let dl = normalize_limit daily_limit default_daily_m;
          tl = normalize_limit total_limit default_total_m;
          du = nonneg_int daily_used;
          lu = nonneg_int lifetime_used;
          daily_hit = (dl > 0 \<and> du \<ge> dl * tokens_per_m);
          total_hit = (tl > 0 \<and> lu \<ge> tl * tokens_per_m);
          trigger = (if total_hit then Some Total else if daily_hit then Some Daily else None)
      in \<lparr>sn_daily_limit = dl, sn_total_limit = tl, sn_daily_used = du, sn_lifetime_used = lu,
          sn_paused = (trigger \<noteq> None), sn_trigger = trigger\<rparr>)"

section \<open>The ledger\<close>

text \<open>One reading of the clock: the date of the user's calendar and the text of \<open>toISOString\<close>.\<close>

record clock =
  ck_year :: nat
  ck_month :: nat
  ck_day :: nat
  ck_iso :: string

definition pad2 :: "nat \<Rightarrow> string" where
  "pad2 n = (if n < 10 then ''0'' @ nat_str n else nat_str n)"

definition local_date :: "clock \<Rightarrow> string" where
  "local_date c = nat_str (ck_year c) @ ''-'' @ pad2 (ck_month c) @ ''-'' @ pad2 (ck_day c)"

record usage =
  us_daily :: jsnum
  us_lifetime :: jsnum
  us_date :: string

record ledger =
  lg_daily_limit :: int
  lg_total_limit :: int
  lg_kv :: "json option"

text \<open>How texts are read and numbers printed.\<close>

record num_env =
  ne_read :: "string \<Rightarrow> jsnum"
  ne_print :: "jsnum \<Rightarrow> string"

definition stored_count :: "num_env \<Rightarrow> json option \<Rightarrow> jsnum" where
  "stored_count env v =
     (let n = js_number (ne_read env) (ne_print env) v in num_max (Fin 0) (num_trunc (if n = NaN then Fin 0 else n)))"

definition as_stored_usage :: "num_env \<Rightarrow> json option \<Rightarrow> usage option" where
  "as_stored_usage env v =
     (case v of
        Some (JObj kvs) \<Rightarrow>
          (case map_of kvs ''dailyDate'' of
             Some (JStr d) \<Rightarrow>
               if js_trim d = [] then None
               else Some \<lparr>us_daily = stored_count env (map_of kvs ''dailyUsed''),
                          us_lifetime = stored_count env (map_of kvs ''lifetimeUsed''), us_date = d\<rparr>
           | _ \<Rightarrow> None)
      | _ \<Rightarrow> None)"

text \<open>A value is stored as JSON, in which a number that is not finite is \<open>null\<close>.\<close>

definition stored_num :: "jsnum \<Rightarrow> json" where
  "stored_num n = (if is_finite_num n then JNum n else JNull)"

definition read_usage :: "num_env \<Rightarrow> clock \<Rightarrow> ledger \<Rightarrow> usage" where
  "read_usage env now l =
     (let today = local_date now in
      case as_stored_usage env (lg_kv l) of
        None \<Rightarrow> \<lparr>us_daily = Fin 0, us_lifetime = Fin 0, us_date = today\<rparr>
      | Some u \<Rightarrow>
          if us_date u \<noteq> today then \<lparr>us_daily = Fin 0, us_lifetime = us_lifetime u, us_date = today\<rparr> else u)"

definition limit_json :: "int \<Rightarrow> json option" where
  "limit_json n = Some (JNum (Fin (of_int n)))"

definition snapshot_of :: "ledger \<Rightarrow> jsnum \<Rightarrow> jsnum \<Rightarrow> budget_snapshot" where
  "snapshot_of l daily lifetime = evaluate_budget (limit_json (lg_daily_limit l)) (limit_json (lg_total_limit l)) daily lifetime"

definition ledger_snapshot :: "num_env \<Rightarrow> clock \<Rightarrow> ledger \<Rightarrow> budget_snapshot" where
  "ledger_snapshot env now l = (let u = read_usage env now l in snapshot_of l (us_daily u) (us_lifetime u))"

definition write_usage :: "clock \<Rightarrow> usage \<Rightarrow> ledger \<Rightarrow> budget_snapshot \<times> ledger" where
  "write_usage now u l =
     (snapshot_of l (us_daily u) (us_lifetime u),
      l\<lparr>lg_kv := Some (JObj [(''dailyUsed'', stored_num (us_daily u)), (''lifetimeUsed'', stored_num (us_lifetime u)),
           (''dailyDate'', JStr (us_date u)), (''updatedAt'', JStr (ck_iso now))])\<rparr>)"

text \<open>\<open>None\<close> is a limit or a number that is not given. The readings of the clock are arguments, in their order.\<close>

definition new_ledger :: "json option \<Rightarrow> json option \<Rightarrow> json option \<Rightarrow> ledger" where
  "new_ledger kv daily lifetime =
     \<lparr>lg_daily_limit = normalize_limit daily default_daily_m, lg_total_limit = normalize_limit lifetime default_total_m, lg_kv = kv\<rparr>"

definition set_limits :: "num_env \<Rightarrow> clock \<Rightarrow> json option \<Rightarrow> json option \<Rightarrow> ledger \<Rightarrow> budget_snapshot \<times> ledger" where
  "set_limits env now daily lifetime l =
     (let l' = l\<lparr>lg_daily_limit := normalize_limit daily (lg_daily_limit l), lg_total_limit := normalize_limit lifetime (lg_total_limit l)\<rparr>
      in (ledger_snapshot env now l', l'))"

definition ledger_touch :: "num_env \<Rightarrow> clock \<Rightarrow> clock \<Rightarrow> ledger \<Rightarrow> budget_snapshot \<times> ledger" where
  "ledger_touch env c1 c2 l = write_usage c2 (read_usage env c1 l) l"

definition add_if_budgeted ::
  "num_env \<Rightarrow> clock \<Rightarrow> clock \<Rightarrow> clock \<Rightarrow> string option \<Rightarrow> string option \<Rightarrow> jsnum option \<Rightarrow> ledger \<Rightarrow> budget_snapshot \<times> ledger" where
  "add_if_budgeted env c1 c2 c3 kind operation amount l =
     (if \<not> is_budgeted_usage kind operation then (ledger_snapshot env c1 l, l)
      else (let tokens = num_max (Fin 0) (num_trunc (case amount of None \<Rightarrow> Fin 0 | Some n \<Rightarrow> n)) in
            if (case tokens of Fin r \<Rightarrow> r \<le> 0 | NegInf \<Rightarrow> True | _ \<Rightarrow> False) then (ledger_snapshot env c1 l, l)
            else (let u = read_usage env c1 l in
                  write_usage c3 \<lparr>us_daily = num_add (us_daily u) tokens, us_lifetime = num_add (us_lifetime u) tokens,
                    us_date = local_date c2\<rparr> l)))"

definition ledger_reconcile ::
  "num_env \<Rightarrow> clock \<Rightarrow> clock \<Rightarrow> clock \<Rightarrow> jsnum option \<Rightarrow> jsnum option \<Rightarrow> ledger \<Rightarrow> budget_snapshot \<times> ledger" where
  "ledger_reconcile env c1 c2 c3 daily lifetime l =
     (let u = read_usage env c1 l;
          remote = (\<lambda>v. num_max (Fin 0) (num_trunc (case v of None \<Rightarrow> Fin 0 | Some n \<Rightarrow> n)))
      in write_usage c3 \<lparr>us_daily = num_max (us_daily u) (remote daily), us_lifetime = num_max (us_lifetime u) (remote lifetime),
           us_date = local_date c2\<rparr> l)"

section \<open>What the ledger counts\<close>

text \<open>The meter that the ledger implements: the day it was last written, the tokens of that day, and all tokens.\<close>

record meter =
  mt_date :: string
  mt_daily :: int
  mt_lifetime :: int

datatype ledger_op = AddUsage "string option" "string option" int | Reconcile int int | Touch | SetLimits "json option" "json option"

definition day_count :: "string \<Rightarrow> meter \<Rightarrow> int" where
  "day_count today m = (if mt_date m = today then mt_daily m else 0)"

fun meter_step :: "meter \<Rightarrow> string \<times> ledger_op \<Rightarrow> meter" where
  "meter_step m (today, AddUsage kind operation n) =
     (if is_budgeted_usage kind operation \<and> 0 < n
      then \<lparr>mt_date = today, mt_daily = day_count today m + n, mt_lifetime = mt_lifetime m + n\<rparr> else m)"
| "meter_step m (today, Reconcile d n) =
     \<lparr>mt_date = today, mt_daily = max (day_count today m) (max 0 d), mt_lifetime = max (mt_lifetime m) (max 0 n)\<rparr>"
| "meter_step m (today, Touch) = \<lparr>mt_date = today, mt_daily = day_count today m, mt_lifetime = mt_lifetime m\<rparr>"
| "meter_step m (today, SetLimits d n) = m"

fun ledger_step :: "num_env \<Rightarrow> ledger \<Rightarrow> (clock \<times> clock \<times> clock) \<times> ledger_op \<Rightarrow> ledger" where
  "ledger_step env l ((c1, c2, c3), AddUsage kind operation n) =
     snd (add_if_budgeted env c1 c2 c3 kind operation (Some (Fin (of_int n))) l)"
| "ledger_step env l ((c1, c2, c3), Reconcile d n) =
     snd (ledger_reconcile env c1 c2 c3 (Some (Fin (of_int d))) (Some (Fin (of_int n))) l)"
| "ledger_step env l ((c1, c2, c3), Touch) = snd (ledger_touch env c1 c2 l)"
| "ledger_step env l ((c1, c2, c3), SetLimits d n) = snd (set_limits env c1 d n l)"

definition run_ledger :: "num_env \<Rightarrow> ledger \<Rightarrow> ((clock \<times> clock \<times> clock) \<times> ledger_op) list \<Rightarrow> ledger" where
  "run_ledger env = foldl (ledger_step env)"

definition run_meter :: "meter \<Rightarrow> ((clock \<times> clock \<times> clock) \<times> ledger_op) list \<Rightarrow> meter" where
  "run_meter m ops = foldl meter_step m (map (\<lambda>((c1, c2, c3), p). (local_date c1, p)) ops)"

text \<open>No midnight falls between the readings of one operation.\<close>

definition one_day :: "(clock \<times> clock \<times> clock) \<times> ledger_op \<Rightarrow> bool" where
  "one_day = (\<lambda>((c1, c2, c3), p). local_date c1 = local_date c2)"

definition empty_meter :: meter where
  "empty_meter = \<lparr>mt_date = [], mt_daily = 0, mt_lifetime = 0\<rparr>"

definition represents :: "num_env \<Rightarrow> ledger \<Rightarrow> meter \<Rightarrow> bool" where
  "represents env l m \<longleftrightarrow> 0 \<le> mt_daily m \<and> 0 \<le> mt_lifetime m
     \<and> (case as_stored_usage env (lg_kv l) of
          None \<Rightarrow> m = empty_meter
        | Some u \<Rightarrow> u = \<lparr>us_daily = Fin (of_int (mt_daily m)), us_lifetime = Fin (of_int (mt_lifetime m)), us_date = mt_date m\<rparr>)"

lemma num_max_ints [simp]: "num_max (Fin (of_int a)) (Fin (of_int b)) = Fin (of_int (max a b))"
  by (simp add: max_def)

lemma num_max_zero [simp]: "num_max (Fin 0) (Fin (of_int b)) = Fin (of_int (max 0 b))"
  using num_max_ints [of 0 b] by simp

lemma num_trunc_int [simp]: "num_trunc (Fin (of_int n)) = Fin (of_int n)"
  by simp

lemma stored_count_int [simp]: "0 \<le> n \<Longrightarrow> stored_count env (Some (stored_num (Fin (of_int n)))) = Fin (of_int n)"
  by (simp add: stored_count_def stored_num_def max_def)

lemma js_trim_ne: "c \<in> set s \<Longrightarrow> \<not> js_ws c \<Longrightarrow> js_trim s \<noteq> []"
  by (auto simp: js_trim_def js_trim_end_def js_trim_start_def dropWhile_eq_Nil_conv)
    (metis set_dropWhileD dropWhile_eq_Nil_conv takeWhile_dropWhile_id Un_iff set_append set_takeWhileD)

lemma local_date_ok [simp]: "js_trim (local_date c) \<noteq> []"
  by (rule js_trim_ne [of "CHR ''-''"]) (simp_all add: local_date_def js_ws_def)

lemma local_date_ne [simp]: "local_date c \<noteq> []"
  by (simp add: local_date_def)

lemma represents_read:
  assumes "represents env l m"
  shows "us_daily (read_usage env now l) = Fin (of_int (day_count (local_date now) m))"
    and "us_lifetime (read_usage env now l) = Fin (of_int (mt_lifetime m))"
  using assms by (auto simp: represents_def read_usage_def day_count_def empty_meter_def Let_def split: option.splits)

lemma represents_write:
  assumes "0 \<le> d" and "0 \<le> n" and "today = local_date c"
  shows "represents env (snd (write_usage now \<lparr>us_daily = Fin (of_int d), us_lifetime = Fin (of_int n), us_date = today\<rparr> l))
     \<lparr>mt_date = today, mt_daily = d, mt_lifetime = n\<rparr>"
  using assms by (simp add: represents_def write_usage_def as_stored_usage_def)

lemma read_usage_date: "us_date (read_usage env now l) = local_date now"
  by (simp add: read_usage_def Let_def split: option.split)

lemma represents_step:
  assumes r: "represents env l m" and day: "one_day ((c1, c2, c3), p)"
  shows "represents env (ledger_step env l ((c1, c2, c3), p)) (meter_step m (local_date c1, p))"
proof -
  note read = represents_read [OF r, of c1]
  have pos: "0 \<le> day_count (local_date c1) m" "0 \<le> mt_lifetime m" using r by (simp_all add: represents_def day_count_def)
  have u: "read_usage env c1 l = \<lparr>us_daily = Fin (of_int (day_count (local_date c1) m)),
      us_lifetime = Fin (of_int (mt_lifetime m)), us_date = local_date c1\<rparr>"
    using read read_usage_date [of env c1 l] by (cases "read_usage env c1 l") simp
  have d: "local_date c2 = local_date c1" using day by (simp add: one_day_def)
  show ?thesis
  proof (cases p)
    case (AddUsage kind operation n)
    have "num_max (Fin 0) (num_trunc (Fin (rat_of_int n))) = Fin (of_int (max 0 n))" by simp
    then show ?thesis using r u d pos represents_write [of "day_count (local_date c1) m + n" "mt_lifetime m + n" "local_date c1" c1]
      unfolding AddUsage by (auto simp: add_if_budgeted_def Let_def max_def)
  next
    case (Reconcile d' n)
    then show ?thesis using u d pos represents_write [where today = "local_date c1" and c = c1
          and d = "max (day_count (local_date c1) m) (max 0 d')" and n = "max (mt_lifetime m) (max 0 n)"]
      by (simp add: ledger_reconcile_def Let_def of_int_max)
  next
    case Touch
    then show ?thesis using u pos represents_write [where today = "local_date c1" and c = c1] by (simp add: ledger_touch_def)
  next
    case (SetLimits a b)
    then show ?thesis using r by (simp add: set_limits_def Let_def represents_def)
  qed
qed

lemma represents_run:
  "represents env l m \<Longrightarrow> list_all one_day ops \<Longrightarrow> represents env (run_ledger env l ops) (run_meter m ops)"
proof (induction ops arbitrary: l m)
  case (Cons x ops)
  obtain c1 c2 c3 p where x: "x = ((c1, c2, c3), p)" by (cases x) auto
  with Cons represents_step [of env l m c1 c2 c3 p] show ?case by (simp add: run_ledger_def run_meter_def)
qed (simp add: run_ledger_def run_meter_def)


section \<open>Pauses\<close>

lemma parse_limit_json: "0 \<le> n \<Longrightarrow> n \<le> max_limit_m \<Longrightarrow> parse_limit (limit_json n) = Some n"
  by (simp add: parse_limit_def limit_json_def max_limit_m_def)

lemma normalize_limit_range: "0 \<le> d \<and> d \<le> max_limit_m \<Longrightarrow> 0 \<le> normalize_limit v d \<and> normalize_limit v d \<le> max_limit_m"
  by (auto simp: normalize_limit_def parse_limit_def floor_le_iff split: option.splits json.splits jsnum.splits if_splits)

definition limits_ok :: "ledger \<Rightarrow> bool" where
  "limits_ok l \<longleftrightarrow> 0 \<le> lg_daily_limit l \<and> lg_daily_limit l \<le> max_limit_m \<and> 0 \<le> lg_total_limit l \<and> lg_total_limit l \<le> max_limit_m"

lemma limits_ok_new: "limits_ok (new_ledger kv d n)"
  using normalize_limit_range [of default_daily_m d] normalize_limit_range [of default_total_m n]
  by (simp add: limits_ok_def new_ledger_def) (simp add: default_daily_m_def default_total_m_def max_limit_m_def)

fun sets_limits :: "ledger_op \<Rightarrow> bool" where
  "sets_limits (SetLimits _ _) = True"
| "sets_limits _ = False"

lemma ledger_step_limits:
  "limits_ok l \<Longrightarrow> limits_ok (ledger_step env l x)"
  "\<not> sets_limits (snd x) \<Longrightarrow> lg_daily_limit (ledger_step env l x) = lg_daily_limit l \<and> lg_total_limit (ledger_step env l x) = lg_total_limit l"
  by (induction env l x rule: ledger_step.induct)
    (auto simp: add_if_budgeted_def ledger_reconcile_def ledger_touch_def set_limits_def write_usage_def limits_ok_def normalize_limit_range Let_def
      split: option.split jsnum.split)

lemma run_ledger_limits:
  "limits_ok l \<Longrightarrow> limits_ok (run_ledger env l ops)"
  "list_all (\<lambda>x. \<not> sets_limits (snd x)) ops \<Longrightarrow> lg_total_limit (run_ledger env l ops) = lg_total_limit l"
  unfolding run_ledger_def by (induction ops arbitrary: l) (simp_all add: ledger_step_limits)

lemma meter_lifetime_grows: "mt_lifetime m \<le> mt_lifetime (run_meter m ops)"
proof -
  have step: "mt_lifetime m \<le> mt_lifetime (meter_step m x)" for m x by (induction m x rule: meter_step.induct) auto
  have "mt_lifetime m \<le> mt_lifetime (foldl meter_step m xs)" for xs
    by (induction xs arbitrary: m) (auto intro: order_trans [OF step])
  then show ?thesis by (simp add: run_meter_def)
qed

definition meter_trigger :: "int \<Rightarrow> int \<Rightarrow> string \<Rightarrow> meter \<Rightarrow> budget_trigger option" where
  "meter_trigger daily lifetime today m =
     (if 0 < lifetime \<and> lifetime * tokens_per_m \<le> mt_lifetime m then Some Total
      else if 0 < daily \<and> daily * tokens_per_m \<le> day_count today m then Some Daily else None)"

lemma represents_trigger:
  assumes "represents env l m" and "limits_ok l"
  shows "sn_trigger (ledger_snapshot env now l) = meter_trigger (lg_daily_limit l) (lg_total_limit l) (local_date now) m"
proof -
  have "0 \<le> day_count (local_date now) m" "0 \<le> mt_lifetime m" using assms(1) by (simp_all add: represents_def day_count_def)
  then show ?thesis using assms(2) represents_read [OF assms(1), of now]
    by (simp add: ledger_snapshot_def snapshot_of_def evaluate_budget_def Let_def normalize_limit_def parse_limit_json limits_ok_def
      nonneg_int_def meter_trigger_def max_def)
qed


text \<open>Every job that may run while usage is paused uses no model that the budget concerns.\<close>

lemma allowed_jobs_free: "t \<in> set (allowed_job_types models) \<longleftrightarrow> t \<in> set worker_job_types \<and> \<not> job_type_consumes t models"
  by (auto simp: allowed_job_types_def)

end
