(* ===== verification/Secret_Redactor.thy ===== *)
theory Secret_Redactor
  imports Js_Regex
begin

text \<open>
  The redaction of secrets in texts that leave a reader of native sessions
  (\<^verbatim>\<open>AgentSourceCore/src/secret-redactor.ts\<close>): rules as regular expressions, and the runs of base64 text.
\<close>

section \<open>Rules\<close>

record redaction_rule =
  ru_pattern :: regex
  ru_replace :: "string \<Rightarrow> captures \<Rightarrow> string"

definition token_rule :: "regex \<Rightarrow> string \<Rightarrow> redaction_rule" where
  "token_rule r token = \<lparr>ru_pattern = r, ru_replace = (\<lambda>s c. token)\<rparr>"

text \<open>A rule that keeps its first group.\<close>

definition prefix_rule :: "regex \<Rightarrow> string \<Rightarrow> redaction_rule" where
  "prefix_rule r token = \<lparr>ru_pattern = r, ru_replace = (\<lambda>s c. captured s c 1 @ token)\<rparr>"

definition is_digit :: "char \<Rightarrow> bool" where
  "is_digit c = (let n = (of_char c :: nat) in 48 \<le> n \<and> n \<le> 57)"

definition is_letter :: "char \<Rightarrow> bool" where
  "is_letter c = (let n = (of_char c :: nat) in 65 \<le> n \<and> n \<le> 90 \<or> 97 \<le> n \<and> n \<le> 122)"

definition key_char :: regex where
  "key_char = Sym (\<lambda>c. is_letter c \<or> is_digit c \<or> c = CHR ''_'' \<or> c = CHR ''-'')"

definition at_least :: "nat \<Rightarrow> regex \<Rightarrow> regex" where
  "at_least n r = seq_of (replicate n r @ [Star True r])"

definition upper_or_space :: regex where
  "upper_or_space = Star True (Sym (\<lambda>c. c = CHR 32 \<or> (let n = (of_char c :: nat) in 65 \<le> n \<and> n \<le> 90)))"

definition private_key :: regex where
  "private_key = seq_of [lit ''-----BEGIN '', upper_or_space, lit ''PRIVATE KEY-----'', Star False anything,
     lit ''-----END '', upper_or_space, lit ''PRIVATE KEY-----'']"

definition bearer :: regex where
  "bearer = seq_of [WordB, Cap 1 (seq_of [lit_ci ''Authorization'', whites, lit '':'', whites, lit_ci ''Bearer'', plus white]),
     plus (Sym (\<lambda>c. is_letter c \<or> is_digit c \<or> c \<in> set ''._~+/=-''))]"

definition anthropic_key :: regex where
  "anthropic_key = seq_of [WordB, lit ''sk-ant-api'', Sym is_digit, Sym is_digit, lit ''-'', at_least 40 key_char, WordB]"

definition openai_key :: regex where
  "openai_key = seq_of [WordB, lit ''sk-'', opt (lit ''proj-''), at_least 40 key_char, WordB]"

definition google_key :: regex where
  "google_key = seq_of [WordB, lit ''AIza'', at_least 32 key_char, WordB]"

definition password_value :: regex where
  "password_value = alt_of [seq_of [lit [CHR 34], plus (none_of [CHR 34, CHR 10]), lit [CHR 34]],
     seq_of [lit [CHR 39], plus (none_of [CHR 39, CHR 10]), lit [CHR 39]],
     plus (Sym (\<lambda>c. \<not> js_ws c \<and> c \<noteq> CHR ''#'' \<and> c \<noteq> CHR ''&''))]"

definition password_rx :: regex where
  "password_rx = seq_of [WordB, Cap 1 (seq_of [Star True (Sym word_char), lit_ci ''password'', Star True (Sym word_char),
     whites, any_of '':='', whites]), password_value]"

definition redaction_rules :: "redaction_rule list" where
  "redaction_rules =
    [token_rule private_key ''[REDACTED:ssh_private_key]'',
     prefix_rule bearer ''[REDACTED:authorization_bearer]'',
     token_rule anthropic_key ''[REDACTED:anthropic_api_key]'',
     token_rule openai_key ''[REDACTED:openai_api_key]'',
     token_rule google_key ''[REDACTED:google_api_key]'',
     prefix_rule password_rx ''[REDACTED:password]'']"

definition apply_rule :: "redaction_rule \<Rightarrow> string \<Rightarrow> string" where
  "apply_rule r s = replace_all (ru_pattern r) (ru_replace r s) s"

section \<open>Runs of base64 text\<close>

definition base64_token :: string where
  "base64_token = ''[REDACTED:base64_secret]''"

definition base64_char :: "char \<Rightarrow> bool" where
  "base64_char c \<longleftrightarrow> is_letter c \<or> is_digit c \<or> c = CHR ''+'' \<or> c = CHR ''/''"

definition ascii_word :: "char \<Rightarrow> bool" where
  "ascii_word c \<longleftrightarrow> is_letter c \<or> is_digit c \<or> c = CHR ''_''"

definition word_before :: "string \<Rightarrow> nat \<Rightarrow> bool" where
  "word_before s i \<longleftrightarrow> 0 < i \<and> ascii_word (s ! (i - 1))"

definition has_boundary :: "string \<Rightarrow> nat \<Rightarrow> nat \<Rightarrow> bool" where
  "has_boundary s b e \<longleftrightarrow> \<not> word_before s b \<and> \<not> (e < length s \<and> ascii_word (s ! e))"

definition run_end :: "string \<Rightarrow> nat \<Rightarrow> nat" where
  "run_end s b = b + length (takeWhile base64_char (drop b s))"

definition padded_end :: "string \<Rightarrow> nat \<Rightarrow> nat" where
  "padded_end s e = e + length (takeWhile ((=) (CHR ''='')) (take 2 (drop e s)))"

lemma run_end_greater: "b < length s \<Longrightarrow> base64_char (s ! b) \<Longrightarrow> b < run_end s b"
  by (simp add: run_end_def Cons_nth_drop_Suc [symmetric])

lemma run_end_le: "b \<le> length s \<Longrightarrow> run_end s b \<le> length s"
  using length_takeWhile_le [of base64_char "drop b s"] by (simp add: run_end_def)

lemma padded_end_ge: "e \<le> padded_end s e"
  by (simp add: padded_end_def)

lemma padded_end_le: "e \<le> length s \<Longrightarrow> padded_end s e \<le> length s"
  using length_takeWhile_le [of "(=) (CHR ''='')" "take 2 (drop e s)"] unfolding padded_end_def by simp arith

text \<open>The loop of \<open>redactBase64Runs\<close>: the text so far, the end of the last replaced run, the position.\<close>

function run_loop :: "string \<Rightarrow> nat \<Rightarrow> string \<Rightarrow> nat \<Rightarrow> nat \<Rightarrow> string \<times> nat" where
  "run_loop s m out cursor i =
     (if i \<ge> length s then (out, cursor)
      else if \<not> base64_char (s ! i) then run_loop s m out cursor (Suc i)
      else (let core_end = run_end s i; i' = padded_end s core_end in
            if core_end - i \<ge> m \<and> has_boundary s i i' then run_loop s m (out @ slice cursor i s @ base64_token) i' i'
            else run_loop s m out cursor i'))"
  by pat_completeness auto

termination run_loop
proof (relation "measure (\<lambda>(s, m, out, cursor, i). length s - i)")
  fix s m out cursor i core_end i'
  assume "\<not> length s \<le> i" "\<not> \<not> base64_char (s ! i)" "core_end = run_end s i" "i' = padded_end s core_end"
  then have "i < i'" using run_end_greater [of i s] padded_end_ge [of "run_end s i" s] by simp
  then show "core_end - i \<ge> m \<and> has_boundary s i i' \<Longrightarrow>
      ((s, m, out @ slice cursor i s @ base64_token, i', i'), s, m, out, cursor, i) \<in> measure (\<lambda>(s, m, out, cursor, i). length s - i)"
    and "\<not> (core_end - i \<ge> m \<and> has_boundary s i i') \<Longrightarrow>
      ((s, m, out, cursor, i'), s, m, out, cursor, i) \<in> measure (\<lambda>(s, m, out, cursor, i). length s - i)"
    using \<open>\<not> length s \<le> i\<close> by simp_all
qed simp_all

declare run_loop.simps [simp del]

definition redact_base64_runs :: "string \<Rightarrow> nat \<Rightarrow> string" where
  "redact_base64_runs s m = (let (out, cursor) = run_loop s m [] 0 0 in if cursor = 0 then s else out @ drop cursor s)"

definition redact_secrets :: "string \<Rightarrow> string" where
  "redact_secrets s = redact_base64_runs (foldl (\<lambda>t r. apply_rule r t) (redact_base64_runs s 4096) redaction_rules) 32"

section \<open>Exactly the delimited runs are replaced\<close>

text \<open>
  The positions of a secret: a longest run of base64 characters of at least the given length, with what it
  may have of padding, neither of whose ends touches a word.
\<close>

definition secret_at :: "nat \<Rightarrow> string \<Rightarrow> nat \<Rightarrow> (nat \<times> nat) list" where
  "secret_at m s b =
     (if base64_char (s ! b) \<and> \<not> (0 < b \<and> base64_char (s ! (b - 1))) \<and> run_end s b - b \<ge> m
         \<and> has_boundary s b (padded_end s (run_end s b))
      then [(b, padded_end s (run_end s b))] else [])"

definition secrets_from :: "nat \<Rightarrow> string \<Rightarrow> nat \<Rightarrow> (nat \<times> nat) list" where
  "secrets_from m s i = concat (map (secret_at m s) [i..<length s])"

fun cut_out :: "string \<Rightarrow> nat \<Rightarrow> (nat \<times> nat) list \<Rightarrow> string" where
  "cut_out s i [] = drop i s"
| "cut_out s i ((b, e) # spans) = slice i b s @ base64_token @ cut_out s e spans"

lemma secrets_from_step: "i < length s \<Longrightarrow> secrets_from m s i = secret_at m s i @ secrets_from m s (Suc i)"
  by (simp add: secrets_from_def upt_conv_Cons)

lemma secrets_from_skip:
  assumes "i \<le> j" and "j \<le> length s" and "\<And>k. i \<le> k \<Longrightarrow> k < j \<Longrightarrow> secret_at m s k = []"
  shows "secrets_from m s i = secrets_from m s j"
proof -
  have "[i..<length s] = [i..<j] @ [j..<length s]" using assms(1,2) by (metis le_add_diff_inverse upt_add_eq_append)
  moreover have "concat (map (secret_at m s) [i..<j]) = []" using assms(3) by simp
  ultimately show ?thesis by (simp add: secrets_from_def)
qed

lemma run_core: "b \<le> k \<Longrightarrow> k < run_end s b \<Longrightarrow> base64_char (s ! k)"
proof -
  assume "b \<le> k" "k < run_end s b"
  then have k: "k - b < length (takeWhile base64_char (drop b s))" by (simp add: run_end_def)
  then have "base64_char (takeWhile base64_char (drop b s) ! (k - b))" by (meson nth_mem set_takeWhileD)
  moreover have "k - b < length (drop b s)" using k length_takeWhile_le [of base64_char "drop b s"] by linarith
  ultimately show ?thesis using k \<open>b \<le> k\<close> by (simp add: takeWhile_nth)
qed

lemma padding_plain: "e \<le> k \<Longrightarrow> k < padded_end s e \<Longrightarrow> \<not> base64_char (s ! k)"
proof -
  assume "e \<le> k" "k < padded_end s e"
  then have k: "k - e < length (takeWhile ((=) (CHR ''='')) (take 2 (drop e s)))" by (simp add: padded_end_def)
  then have "CHR ''='' = takeWhile ((=) (CHR ''='')) (take 2 (drop e s)) ! (k - e)" by (meson nth_mem set_takeWhileD)
  moreover have "k - e < length (take 2 (drop e s))"
    using k length_takeWhile_le [of "(=) (CHR ''='')" "take 2 (drop e s)"] by linarith
  moreover have "drop e s ! (k - e) = s ! k" using calculation(2) \<open>e \<le> k\<close> by (subst nth_drop) auto
  ultimately have "s ! k = CHR ''=''" using k by (simp add: takeWhile_nth)
  then show ?thesis by (simp add: base64_char_def is_letter_def is_digit_def)
qed

lemma not_core_at_run_end: "run_end s b < length s \<Longrightarrow> b \<le> length s \<Longrightarrow> \<not> base64_char (s ! run_end s b)"
  using nth_length_takeWhile [of base64_char "drop b s"] by (simp add: run_end_def)

text \<open>Where the loop stands: not inside a run.\<close>

definition between_runs :: "string \<Rightarrow> nat \<Rightarrow> bool" where
  "between_runs s i \<longleftrightarrow> i < length s \<longrightarrow> base64_char (s ! i) \<longrightarrow> \<not> (0 < i \<and> base64_char (s ! (i - 1)))"

lemma between_runs_end:
  assumes "i < length s" and "base64_char (s ! i)"
  shows "between_runs s (padded_end s (run_end s i))"
proof (cases "padded_end s (run_end s i) = run_end s i")
  case True
  then show ?thesis using not_core_at_run_end [of s i] assms(1) by (auto simp: between_runs_def)
next
  case False
  then have "run_end s i < padded_end s (run_end s i)" using padded_end_ge [of "run_end s i" s] by simp
  then have "\<not> base64_char (s ! (padded_end s (run_end s i) - 1))"
    by (intro padding_plain [of "run_end s i"]) auto
  then show ?thesis by (simp add: between_runs_def)
qed

lemma secrets_after_run:
  assumes "i < length s" and "base64_char (s ! i)"
  shows "secrets_from m s i = secret_at m s i @ secrets_from m s (padded_end s (run_end s i))"
proof -
  let ?e = "run_end s i"
  have "secret_at m s k = []" if "Suc i \<le> k" "k < padded_end s ?e" for k
  proof (cases "k < ?e")
    case True
    then have "base64_char (s ! (k - 1))" using that(1) by (intro run_core [of i]) auto
    then show ?thesis using that(1) by (simp add: secret_at_def)
  next
    case False
    then show ?thesis using padding_plain [of ?e k s] that(2) by (simp add: secret_at_def)
  qed
  moreover have "Suc i \<le> padded_end s ?e" using run_end_greater [OF assms] padded_end_ge [of ?e s] by simp
  moreover have "padded_end s ?e \<le> length s" using run_end_le [of i s] padded_end_le [of ?e s] assms(1) by simp
  ultimately have "secrets_from m s (Suc i) = secrets_from m s (padded_end s ?e)" by (intro secrets_from_skip) auto
  then show ?thesis by (simp add: secrets_from_step [OF assms(1)])
qed

lemma run_loop_cuts:
  "between_runs s i \<Longrightarrow> cursor \<le> i \<Longrightarrow> i \<le> length s
    \<Longrightarrow> (case run_loop s m out cursor i of (out', cursor') \<Rightarrow> out' @ drop cursor' s) = out @ cut_out s cursor (secrets_from m s i)"
proof (induction s m out cursor i rule: run_loop.induct)
  case (1 s m out cursor i)
  show ?case
  proof (cases "i < length s")
    case False
    then have "run_loop s m out cursor i = (out, cursor)" by (subst run_loop.simps) simp
    then show ?thesis using False by (simp add: secrets_from_def)
  next
    case here: True
    show ?thesis
    proof (cases "base64_char (s ! i)")
      case False
      then have "secret_at m s i = []" "between_runs s (Suc i)" by (simp_all add: secret_at_def between_runs_def)
      with "1.IH"(1) here False "1.prems" show ?thesis
        by (simp add: run_loop.simps [of s m out cursor i] secrets_from_step)
    next
      case True
      let ?e = "padded_end s (run_end s i)"
      have e: "between_runs s ?e" "i \<le> ?e" "?e \<le> length s"
        using between_runs_end [OF here True] run_end_greater [OF here True] padded_end_ge [of "run_end s i" s]
          run_end_le [of i s] padded_end_le [of "run_end s i" s] here by simp_all
      show ?thesis
      proof (cases "run_end s i - i \<ge> m \<and> has_boundary s i ?e")
        case hit: True
        have "secret_at m s i = [(i, ?e)]"
          using hit True "1.prems"(1) here by (simp add: secret_at_def between_runs_def)
        with "1.IH"(2) [OF _ _ refl refl hit] here True e show ?thesis
          by (simp add: run_loop.simps [of s m out cursor i] Let_def hit secrets_after_run)
      next
        case miss: False
        then have "secret_at m s i = []" by (auto simp: secret_at_def)
        with "1.IH"(3) [OF _ _ refl refl miss] here True e "1.prems" show ?thesis
          by (simp add: run_loop.simps [of s m out cursor i] Let_def miss secrets_after_run)
      qed
    qed
  qed
qed

lemma run_loop_cursor: "snd (run_loop s m out cursor i) = 0 \<Longrightarrow> cursor \<le> i \<Longrightarrow> run_loop s m out cursor i = (out, cursor)"
proof (induction s m out cursor i rule: run_loop.induct)
  case (1 s m out cursor i)
  let ?e = "padded_end s (run_end s i)"
  have later: "cursor' \<le> snd (run_loop s m out' cursor' i')" if "cursor' \<le> i'" for out' cursor' i'
    using that
  proof (induction s m out' cursor' i' rule: run_loop.induct)
    case (1 s m out' cursor' i')
    show ?case
    proof (cases "i' < length s \<and> base64_char (s ! i')")
      case True
      then have "i' < padded_end s (run_end s i')" using run_end_greater [of i' s] padded_end_ge [of "run_end s i'" s] by simp
      with "1" True show ?thesis
        by (subst run_loop.simps) (auto simp: Let_def intro: order_trans [of cursor' "padded_end s (run_end s i')"])
    qed (use "1" in \<open>subst run_loop.simps, auto\<close>)
  qed
  show ?case
  proof (cases "i < length s \<and> base64_char (s ! i)")
    case True
    then have less: "i < ?e" using run_end_greater [of i s] padded_end_ge [of "run_end s i" s] by simp
    show ?thesis
    proof (cases "run_end s i - i \<ge> m \<and> has_boundary s i ?e")
      case hit: True
      then have "run_loop s m out cursor i = run_loop s m (out @ slice cursor i s @ base64_token) ?e ?e"
        using True by (subst run_loop.simps) (simp add: Let_def)
      with later [of ?e ?e "out @ slice cursor i s @ base64_token"] "1.prems"(1) less show ?thesis by simp
    next
      case miss: False
      then have "run_loop s m out cursor i = run_loop s m out cursor ?e"
        using True by (subst run_loop.simps) (auto simp: Let_def)
      with "1.IH"(3) [OF _ _ refl refl miss] True less "1.prems" show ?thesis by simp
    qed
  qed (use "1" in \<open>auto simp: run_loop.simps [of s m out cursor i]\<close>)
qed


end
