(* ===== verification/Source_Turn.thy ===== *)
theory Source_Turn
  imports Secret_Redactor
begin

text \<open>
  The turns that readers of native sessions stage and submit (\<^verbatim>\<open>AgentSourceCore/src/source-turn.ts\<close>), the
  pairing of tool calls with their results there and in the memory service
  (\<^verbatim>\<open>Memory/src/utils/tool-call-pairing.ts\<close>), and the status of an episode
  (\<^verbatim>\<open>Memory/agent-contract/episode-status.ts\<close>). Objects are lists of their properties; a property whose value is
  \<open>undefined\<close> is absent. The printing of numbers is the argument \<open>nt\<close>.
\<close>

section \<open>Values\<close>

definition text_of :: "json option \<Rightarrow> string" where
  "text_of v = (case v of Some (JStr s) \<Rightarrow> s | _ \<Rightarrow> [])"

text \<open>\<open>a || b\<close> on texts.\<close>

definition text_else :: "string \<Rightarrow> string \<Rightarrow> string" where
  "text_else a b = (if a = [] then b else a)"

type_synonym source_turn = json_obj

definition canonical_turn_content :: "(jsnum \<Rightarrow> string) \<Rightarrow> source_turn \<Rightarrow> string" where
  "canonical_turn_content nt turn = json_stringify nt (JObj (filter (\<lambda>kv. fst kv \<noteq> ''sequence'') turn))"

record raw_message =
  rm_id :: string
  rm_conversation :: string
  rm_role :: string
  rm_content :: string
  rm_created :: string
  rm_ordinal :: int
  rm_meta :: json_obj

section \<open>Staged turns\<close>

definition incomplete_state :: "json_obj \<Rightarrow> bool" where
  "incomplete_state meta \<longleftrightarrow> js_truthy (map_of meta ''sourceTurnState'') \<and> map_of meta ''sourceTurnState'' \<noteq> Some (JStr ''complete'')"

definition turns_in :: "json_obj list \<Rightarrow> source_turn list" where
  "turns_in metas = List.map_filter (\<lambda>meta. case map_of meta ''sourceTurn'' of Some (JObj t) \<Rightarrow> Some t | _ \<Rightarrow> None) metas"

definition identified :: "source_turn \<Rightarrow> bool" where
  "identified t \<longleftrightarrow> list_all (\<lambda>k. text_of (map_of t k) \<noteq> []) [''source'', ''conversationId'', ''turnId'', ''completionEvidence'']"

definition source_turn_from_metas :: "(jsnum \<Rightarrow> string) \<Rightarrow> json_obj list \<Rightarrow> source_turn option" where
  "source_turn_from_metas nt metas =
     (if list_ex incomplete_state metas then None
      else case turns_in metas of
             [] \<Rightarrow> None
           | t # ts \<Rightarrow>
               if list_ex (\<lambda>u. canonical_turn_content nt u \<noteq> canonical_turn_content nt t) (t # ts) then None
               else if \<not> identified t then None else Some t)"

definition source_turn_failure_reason :: "(jsnum \<Rightarrow> string) \<Rightarrow> json_obj list \<Rightarrow> string" where
  "source_turn_failure_reason nt metas =
     (case find (\<lambda>meta. text_of (map_of meta ''sourceTurnState'') \<noteq> [] \<and> text_of (map_of meta ''sourceTurnState'') \<noteq> ''complete'') metas of
        Some meta \<Rightarrow> text_else (text_of (map_of meta ''sourceTurnReason'')) (text_of (map_of meta ''sourceTurnState''))
      | None \<Rightarrow>
          (let turns = turns_in metas in
           if length turns > 1 \<and> list_ex (\<lambda>u. canonical_turn_content nt u \<noteq> canonical_turn_content nt (hd turns)) turns
           then ''source_turn_content_conflict'' else ''identity_unresolved''))"

datatype watermark_effect = Rescan | Retry | NoEffect

definition source_turn_skip_blocks_watermark :: "string \<Rightarrow> bool" where
  "source_turn_skip_blocks_watermark reason \<longleftrightarrow> reason \<noteq> ''turn_cancelled''"

definition source_turn_retry_window :: rat where
  "source_turn_retry_window = 24 * 60 * 60 * 1000"

text \<open>\<open>Date.parse\<close> is an argument.\<close>

definition source_turn_skip_watermark_effect :: "(string \<Rightarrow> rat option) \<Rightarrow> string \<Rightarrow> string option \<Rightarrow> rat \<Rightarrow> watermark_effect" where
  "source_turn_skip_watermark_effect parse_date reason latest_activity now =
     (if \<not> source_turn_skip_blocks_watermark reason then NoEffect
      else if reason \<in> {''memory_add_disabled'', ''source_capture_activation_unresolved''} then Rescan
      else case (case latest_activity of None \<Rightarrow> None | Some s \<Rightarrow> if s = [] then None else parse_date s) of
             None \<Rightarrow> NoEffect
           | Some t \<Rightarrow> if now - t \<le> source_turn_retry_window then Retry else NoEffect)"

definition has_staged_source_turn :: "raw_message option \<Rightarrow> bool" where
  "has_staged_source_turn m =
     (case m of None \<Rightarrow> False | Some m \<Rightarrow> (case map_of (rm_meta m) ''sourceTurnState'' of Some (JStr _) \<Rightarrow> True | _ \<Rightarrow> False))"

text \<open>Assignments of a field, to a value or to \<open>undefined\<close>.\<close>

definition put_field :: "string \<Rightarrow> json option \<Rightarrow> json_obj \<Rightarrow> json_obj" where
  "put_field k v kvs = (case v of None \<Rightarrow> filter (\<lambda>kv. fst kv \<noteq> k) kvs | Some j \<Rightarrow> obj_put kvs (k, j))"

definition some_text :: "string \<Rightarrow> json option" where
  "some_text s = (if s = [] then None else Some (JStr s))"

record staging =
  sg_turn_id :: string
  sg_sequence :: "json option"
  sg_started :: "string option"
  sg_reason :: "string option"
  sg_turn :: "source_turn option"

definition stage_meta :: "staging \<Rightarrow> json_obj \<Rightarrow> json_obj" where
  "stage_meta g meta =
     (let reason = (case sg_reason g of None \<Rightarrow> [] | Some r \<Rightarrow> r);
          m1 = put_field ''sourceTurnId'' (some_text (sg_turn_id g)) meta;
          m2 = (case sg_sequence g of None \<Rightarrow> m1 | Some n \<Rightarrow> obj_put m1 (''sourceTurnSequence'', n));
          m3 = (case sg_started g of None \<Rightarrow> m2 | Some t \<Rightarrow> if t = [] then m2 else obj_put m2 (''sourceTurnStartedAt'', JStr t));
          m4 = obj_put m3 (''sourceTurnState'', JStr (text_else reason ''complete''))
      in put_field ''sourceTurnReason'' (some_text reason) m4)"

definition stage_source_turn_messages :: "raw_message list \<Rightarrow> staging \<Rightarrow> raw_message list" where
  "stage_source_turn_messages messages g =
     (let staged = map (\<lambda>m. m\<lparr>rm_meta := stage_meta g (rm_meta m)\<rparr>) messages in
      case sg_turn g of
        None \<Rightarrow> staged
      | Some t \<Rightarrow>
          if (sg_reason g = None \<or> sg_reason g = Some []) \<and> staged \<noteq> []
          then butlast staged @ [(last staged)\<lparr>rm_meta := obj_put (rm_meta (last staged)) (''sourceTurn'', JObj t)\<rparr>]
          else staged)"

section \<open>The choice of one turn\<close>

record selecting =
  sl_latest :: "source_turn option"
  sl_observed :: "source_turn option"
  sl_conflict :: bool
  sl_unresolved :: bool
  sl_reason :: string
  sl_turn_id :: "json option"

definition start_selecting :: selecting where
  "start_selecting = \<lparr>sl_latest = None, sl_observed = None, sl_conflict = False, sl_unresolved = False,
     sl_reason = ''identity_unresolved'', sl_turn_id = None\<rparr>"

definition same_turn_block :: "json option \<Rightarrow> selecting \<Rightarrow> selecting" where
  "same_turn_block i s =
     (if i \<noteq> sl_turn_id s
      then s\<lparr>sl_latest := None, sl_observed := None, sl_conflict := False, sl_unresolved := False, sl_turn_id := i\<rparr> else s)"

definition observe :: "(jsnum \<Rightarrow> string) \<Rightarrow> json_obj \<Rightarrow> selecting \<Rightarrow> selecting" where
  "observe nt meta s =
     (let s1 = (same_turn_block (map_of meta ''sourceTurnId'') s)\<lparr>sl_reason :=
              text_else (text_of (map_of meta ''sourceTurnReason'')) ''turn_incomplete''\<rparr>;
          s2 = (if map_of meta ''sourceTurnState'' \<noteq> Some (JStr ''complete'') then s1\<lparr>sl_latest := None, sl_unresolved := True\<rparr> else s1)
      in case source_turn_from_metas nt [meta] of
           None \<Rightarrow> s2
         | Some t \<Rightarrow>
             s2\<lparr>sl_conflict := sl_conflict s2 \<or> (case sl_observed s2 of None \<Rightarrow> False
                   | Some o' \<Rightarrow> canonical_turn_content nt o' \<noteq> canonical_turn_content nt t),
                sl_observed := Some t, sl_latest := Some t\<rparr>)"

text \<open>\<open>None\<close> or an empty text is an identity that is not expected.\<close>

definition expects :: "string option \<Rightarrow> (string \<Rightarrow> bool) \<Rightarrow> bool" where
  "expects e P = (case e of None \<Rightarrow> True | Some x \<Rightarrow> x = [] \<or> P x)"

fun select_loop ::
  "(jsnum \<Rightarrow> string) \<Rightarrow> string option \<Rightarrow> string option \<Rightarrow> selecting \<Rightarrow> raw_message list \<Rightarrow> string + selecting" where
  "select_loop nt conversation turn_id s [] = Inr s"
| "select_loop nt conversation turn_id s (m # ms) =
     (if \<not> expects conversation (\<lambda>c. rm_conversation m = c) then Inl ''identity_conflict''
      else if \<not> expects turn_id (\<lambda>t. map_of (rm_meta m) ''sourceTurnId'' = Some (JStr t)) then select_loop nt conversation turn_id s ms
      else select_loop nt conversation turn_id (observe nt (rm_meta m) s) ms)"

text \<open>The turn, or the reason why there is none.\<close>

definition select_source_turn ::
  "(jsnum \<Rightarrow> string) \<Rightarrow> string option \<Rightarrow> string option \<Rightarrow> raw_message list \<Rightarrow> string + source_turn" where
  "select_source_turn nt conversation turn_id messages =
     (case select_loop nt conversation turn_id start_selecting messages of
        Inl reason \<Rightarrow> Inl reason
      | Inr s \<Rightarrow>
          if sl_conflict s then Inl ''source_turn_content_conflict''
          else if sl_unresolved s then Inl (sl_reason s)
          else case sl_latest s of None \<Rightarrow> Inl (sl_reason s) | Some t \<Rightarrow> Inr t)"

section \<open>Tool calls and their results\<close>

definition tool_id :: "json_obj \<Rightarrow> string option" where
  "tool_id kvs = (case map_of kvs ''id'' of Some (JStr s) \<Rightarrow> if s = [] then None else Some s | _ \<Rightarrow> None)"

definition index_results :: "json_obj list \<Rightarrow> (string \<Rightarrow> json_obj option) \<times> string set" where
  "index_results results =
     foldl (\<lambda>(by_id, duplicates) r.
       case tool_id r of
         None \<Rightarrow> (by_id, duplicates)
       | Some i \<Rightarrow> if by_id i \<noteq> None then (by_id, insert i duplicates) else (by_id(i \<mapsto> r), duplicates)) (Map.empty, {}) results"

definition call_counts :: "string option list \<Rightarrow> string \<Rightarrow> nat" where
  "call_counts ids = foldl (\<lambda>n i. case i of None \<Rightarrow> n | Some i \<Rightarrow> n(i := n i + 1)) (\<lambda>_. 0) ids"

text \<open>\<open>{ ...call, ...result, name: call.name, input: call.input }\<close>\<close>

definition with_result :: "json_obj \<Rightarrow> json_obj \<Rightarrow> json_obj" where
  "with_result call r = put_field ''input'' (map_of call ''input'') (put_field ''name'' (map_of call ''name'') (obj_merge call r))"

definition pair_source_tool_calls :: "json_obj list \<Rightarrow> json_obj list \<Rightarrow> json_obj list" where
  "pair_source_tool_calls calls results =
     (let (by_id, duplicates) = index_results results; counts = call_counts (map tool_id calls) in
      map (\<lambda>call.
        case (case tool_id call of None \<Rightarrow> None | Some i \<Rightarrow> if counts i = 1 \<and> i \<notin> duplicates then by_id i else None) of
          None \<Rightarrow> call
        | Some r \<Rightarrow> with_result call r) calls)"

definition tool_invocation_id :: "json \<Rightarrow> string option" where
  "tool_invocation_id v =
     (case v of
        JObj kvs \<Rightarrow>
          (case List.map_filter (\<lambda>k. case map_of kvs k of Some (JStr s) \<Rightarrow> if js_trim s = [] then None else Some s | _ \<Rightarrow> None)
                  [''call_id'', ''tool_call_id'', ''toolCallId'', ''id''] of
             [] \<Rightarrow> None
           | i # _ \<Rightarrow> Some i)
      | _ \<Rightarrow> None)"

definition indices_by_id :: "string option list \<Rightarrow> string \<Rightarrow> nat list" where
  "indices_by_id ids = foldl (\<lambda>m (i, k). case i of None \<Rightarrow> m | Some i \<Rightarrow> m(i := m i @ [k])) (\<lambda>_. []) (zip ids [0..<length ids])"

definition match_tool_result_indices :: "json list \<Rightarrow> json list \<Rightarrow> nat option list" where
  "match_tool_result_indices calls results =
     (let call_ids = map tool_invocation_id calls; result_ids = map tool_invocation_id results in
      if length calls = length results \<and> list_all (\<lambda>i. i = None) call_ids \<and> list_all (\<lambda>i. i = None) result_ids
      then map Some [0..<length calls]
      else (let counts = call_counts call_ids; by_id = indices_by_id result_ids in
            map (\<lambda>i. case i of
                None \<Rightarrow> None
              | Some i \<Rightarrow> if counts i \<noteq> 1 then None else (case by_id i of [k] \<Rightarrow> Some k | _ \<Rightarrow> None)) call_ids))"

section \<open>Redaction\<close>

fun redact_value :: "json \<Rightarrow> json" where
  "redact_value (JStr s) = JStr (redact_secrets s)"
| "redact_value (JArr vs) = JArr (map redact_value vs)"
| "redact_value (JObj kvs) = JObj (map (\<lambda>kv. (fst kv, redact_value (snd kv))) kvs)"
| "redact_value v = v"

definition redact_field :: "string \<Rightarrow> json_obj \<Rightarrow> json_obj \<Rightarrow> json_obj" where
  "redact_field k v kvs = (case map_of v k of None \<Rightarrow> kvs | Some j \<Rightarrow> obj_put kvs (k, redact_value j))"

definition redact_result :: "json_obj \<Rightarrow> json_obj" where
  "redact_result result = redact_field ''error'' result (redact_field ''output'' result result)"

definition redact_call :: "json_obj \<Rightarrow> json_obj" where
  "redact_call call =
     redact_field ''input'' call
       (obj_merge (obj_put call (''name'', JStr (redact_secrets (text_of (map_of call ''name''))))) (redact_result call))"

definition as_objects :: "json option \<Rightarrow> json_obj list" where
  "as_objects v = (case v of Some (JArr vs) \<Rightarrow> List.map_filter (\<lambda>j. case j of JObj kvs \<Rightarrow> Some kvs | _ \<Rightarrow> None) vs | _ \<Rightarrow> [])"

definition redact_source_turn :: "source_turn \<Rightarrow> source_turn" where
  "redact_source_turn t =
     obj_put (obj_put (obj_put (obj_put t
       (''query'', JStr (redact_secrets (text_of (map_of t ''query'')))))
       (''answer'', JStr (redact_secrets (text_of (map_of t ''answer'')))))
       (''toolCalls'', JArr (map (JObj \<circ> redact_call) (as_objects (map_of t ''toolCalls'')))))
       (''toolResults'', JArr (map (JObj \<circ> redact_result) (as_objects (map_of t ''toolResults''))))"

definition tool_success :: "json_obj \<Rightarrow> bool option" where
  "tool_success p =
     (case map_of p ''success'' of
        Some (JBool b) \<Rightarrow> Some b
      | _ \<Rightarrow>
        (case map_of p ''is_error'' of
           Some (JBool b) \<Rightarrow> Some (\<not> b)
         | _ \<Rightarrow>
           (let status = map_of p ''status'' in
            if nullish (map_of p ''error'') None \<noteq> None \<or> status = Some (JStr ''failed'') \<or> status = Some (JStr ''cancelled'') then Some False
            else if status = Some (JStr ''completed'') \<or> status = Some (JStr ''succeeded'') then Some True else None)))"

definition build_source_turn_request :: "source_turn \<Rightarrow> string \<Rightarrow> string option \<Rightarrow> json_obj" where
  "build_source_turn_request t channel profile =
     (let pid = text_else (text_else (case profile of None \<Rightarrow> [] | Some p \<Rightarrow> p) (text_of (map_of t ''profileId''))) ''default'';
          pick = (\<lambda>ks. List.map_filter (\<lambda>k. map_option (Pair k) (map_of t k)) ks)
      in [(''sourceTurn'', JObj (pick [''source''] @ [(''profileId'', JStr pid)]
              @ pick [''conversationId'', ''turnId'', ''startedAt'', ''completedAt'', ''sequence'', ''completionEvidence'']))]
         @ pick [''source''] @ [(''profileId'', JStr pid), (''channel'', JStr channel)]
         @ pick [''query'', ''answer'', ''status'', ''toolCalls'', ''toolResults'', ''workspacePath''])"

section \<open>The status of an episode\<close>

datatype task_status = Active | Completed | Skipped | Failed

record episode_row =
  ep_status :: string
  ep_close_reason :: "string option"
  ep_ended :: "rat option"
  ep_reward :: "rat option"
  ep_reward_skipped :: bool
  ep_skill :: "string option"
  ep_turns :: "int option"

definition active_grace_window :: rat where
  "active_grace_window = 2 * 60 * 1000"

definition r_negative_floor :: rat where
  "r_negative_floor = - (1 / 2)"

definition derive_episode_status :: "episode_row \<Rightarrow> rat \<Rightarrow> task_status" where
  "derive_episode_status row now =
     (if ep_status row = ''open'' then Active
      else if ep_close_reason row = Some ''finalized'' \<and> (case ep_ended row of None \<Rightarrow> False | Some t \<Rightarrow> now - t < active_grace_window) then Active
      else if (case ep_reward row of None \<Rightarrow> False | Some r \<Rightarrow> r \<le> r_negative_floor) then Failed
      else if ep_reward_skipped row then Skipped
      else if ep_reward row \<noteq> None then Completed
      else if ep_skill row = Some ''generated'' \<or> ep_skill row = Some ''upgraded'' then Completed
      else if ep_close_reason row = Some ''abandoned'' then Skipped
      else if (case ep_turns row of None \<Rightarrow> 0 | Some n \<Rightarrow> n) \<ge> 2 then Completed
      else Skipped)"

definition parse_task_status_filter :: "string option \<Rightarrow> task_status option" where
  "parse_task_status_filter raw =
     (case raw of
        None \<Rightarrow> None
      | Some s \<Rightarrow>
          (let t = js_trim s in
           if t = ''active'' then Some Active else if t = ''completed'' then Some Completed
           else if t = ''skipped'' then Some Skipped else if t = ''failed'' then Some Failed else None))"

end
