(* ===== verification/Source_Turn_Facts.thy ===== *)
theory Source_Turn_Facts
  imports Source_Turn
begin

text \<open>What the choice of a turn, its staging and the pairing of tool calls guarantee.\<close>

section \<open>The choice of a turn\<close>

text \<open>The last messages that carry the identity of the last one.\<close>

definition turn_id_of :: "json_obj \<Rightarrow> json option" where
  "turn_id_of meta = map_of meta ''sourceTurnId''"

definition last_block :: "json_obj list \<Rightarrow> json_obj list" where
  "last_block ms = rev (takeWhile (\<lambda>m. turn_id_of m = turn_id_of (last ms)) (rev ms))"

lemma last_block_Nil [simp]: "last_block [] = []"
  by (simp add: last_block_def)

lemma last_block_snoc:
  "last_block (ms @ [m]) = (if ms \<noteq> [] \<and> turn_id_of m = turn_id_of (last ms) then last_block ms @ [m] else [m])"
  by (cases ms rule: rev_cases) (auto simp: last_block_def)

lemma last_block_eq_Nil [simp]: "last_block ms = [] \<longleftrightarrow> ms = []"
  by (cases ms rule: rev_cases) (auto simp: last_block_snoc)

definition carried :: "(jsnum \<Rightarrow> string) \<Rightarrow> json_obj list \<Rightarrow> source_turn list" where
  "carried nt ms = List.map_filter (\<lambda>m. source_turn_from_metas nt [m]) ms"

lemma carried_simps [simp]:
  "carried nt [] = []"
  "carried nt (ms @ [m]) = carried nt ms @ (case source_turn_from_metas nt [m] of None \<Rightarrow> [] | Some t \<Rightarrow> [t])"
  by (auto simp: carried_def map_filter_def split: option.splits)

definition one_content :: "(jsnum \<Rightarrow> string) \<Rightarrow> source_turn list \<Rightarrow> bool" where
  "one_content nt ts \<longleftrightarrow> (\<exists>c. list_all (\<lambda>t. canonical_turn_content nt t = c) ts)"

lemma one_content_Nil [simp]: "one_content nt []"
  by (simp add: one_content_def)

lemma one_content_snoc:
  "one_content nt (ts @ [t]) \<longleftrightarrow> one_content nt ts \<and> (ts \<noteq> [] \<longrightarrow> canonical_turn_content nt (last ts) = canonical_turn_content nt t)"
  by (cases ts rule: rev_cases) (auto simp: one_content_def)

definition complete_state :: "json_obj \<Rightarrow> bool" where
  "complete_state meta \<longleftrightarrow> map_of meta ''sourceTurnState'' = Some (JStr ''complete'')"

definition reason_of :: "json_obj \<Rightarrow> string" where
  "reason_of meta = text_else (text_of (map_of meta ''sourceTurnReason'')) ''turn_incomplete''"

text \<open>What the loop knows of the messages it has read.\<close>

definition knows :: "(jsnum \<Rightarrow> string) \<Rightarrow> json_obj list \<Rightarrow> selecting \<Rightarrow> bool" where
  "knows nt ms s \<longleftrightarrow>
     (let b = last_block ms; ts = carried nt b in
      sl_turn_id s = (if ms = [] then None else turn_id_of (last ms))
      \<and> sl_observed s = (if ts = [] then None else Some (last ts))
      \<and> sl_conflict s = (\<not> one_content nt ts)
      \<and> sl_unresolved s = list_ex (\<lambda>m. \<not> complete_state m) b
      \<and> (\<not> sl_unresolved s \<longrightarrow> sl_latest s = sl_observed s)
      \<and> sl_reason s = (if ms = [] then ''identity_unresolved'' else reason_of (last ms)))"

lemma knows_start: "knows nt [] start_selecting"
  by (simp add: knows_def start_selecting_def)

lemma knows_observe:
  assumes "knows nt ms s"
  shows "knows nt (ms @ [m]) (observe nt m s)"
proof -
  have block: "carried nt (last_block (ms @ [m])) = (if ms \<noteq> [] \<and> turn_id_of m = turn_id_of (last ms) then carried nt (last_block ms) else [])
      @ (case source_turn_from_metas nt [m] of None \<Rightarrow> [] | Some t \<Rightarrow> [t])"
    using carried_simps(2) [of nt "[]" m] by (simp add: last_block_snoc)
  show ?thesis
  proof (cases "ms \<noteq> [] \<and> turn_id_of m = turn_id_of (last ms)")
    case True
    then have same: "same_turn_block (turn_id_of m) s = s" using assms by (simp add: knows_def same_turn_block_def Let_def)
    have b: "last_block (ms @ [m]) = last_block ms @ [m]" using True by (simp add: last_block_snoc)
    show ?thesis
      using assms True unfolding knows_def observe_def Let_def block b turn_id_of_def [symmetric] same
      by (cases "source_turn_from_metas nt [m]") (auto simp: one_content_snoc complete_state_def reason_of_def)
  next
    case False
    have b: "last_block (ms @ [m]) = [m]" using False by (simp add: last_block_snoc)
    have fresh: "sl_turn_id (same_turn_block (turn_id_of m) s) = turn_id_of m" "sl_observed (same_turn_block (turn_id_of m) s) = None"
      "sl_latest (same_turn_block (turn_id_of m) s) = None" "\<not> sl_conflict (same_turn_block (turn_id_of m) s)"
      "\<not> sl_unresolved (same_turn_block (turn_id_of m) s)"
      using assms False by (auto simp: knows_def same_turn_block_def Let_def)
    show ?thesis
      unfolding knows_def observe_def Let_def block b turn_id_of_def [symmetric] if_not_P [OF False]
      using carried_simps(2) [of nt "[]" m]
      by (cases "source_turn_from_metas nt [m]") (simp_all add: fresh one_content_def complete_state_def reason_of_def)
  qed
qed

lemma select_loop_folds:
  "select_loop nt conversation turn_id s ms =
     (if list_ex (\<lambda>m. \<not> expects conversation (\<lambda>c. rm_conversation m = c)) ms then Inl ''identity_conflict''
      else Inr (foldl (\<lambda>s m. observe nt m s) s
        (map rm_meta (filter (\<lambda>m. expects turn_id (\<lambda>t. map_of (rm_meta m) ''sourceTurnId'' = Some (JStr t))) ms))))"
  by (induction ms arbitrary: s) auto

lemma knows_fold: "knows nt ms (foldl (\<lambda>s m. observe nt m s) start_selecting ms)"
  by (induction ms rule: rev_induct) (simp_all add: knows_start knows_observe)

text \<open>
  C22: The choice of a turn looks at the last block of messages with one turn identity, and only there: it gives
  the turn that the block carries, if all messages of the block are complete and all turns in it agree; it
  reports a conflict if they do not, and otherwise the reason of the last message. A message of another
  conversation is refused.
\<close>

theorem select_source_turn_spec:
  "select_source_turn nt conversation turn_id messages =
     (let wanted = filter (\<lambda>m. expects turn_id (\<lambda>t. map_of (rm_meta m) ''sourceTurnId'' = Some (JStr t))) messages;
          block = last_block (map rm_meta wanted); turns = carried nt block;
          reason = (if block = [] then ''identity_unresolved'' else reason_of (last (map rm_meta wanted)))
      in if list_ex (\<lambda>m. \<not> expects conversation (\<lambda>c. rm_conversation m = c)) messages then Inl ''identity_conflict''
         else if \<not> one_content nt turns then Inl ''source_turn_content_conflict''
         else if list_ex (\<lambda>m. \<not> complete_state m) block \<or> turns = [] then Inl reason
         else Inr (last turns))"
proof -
  let ?ms = "map rm_meta (filter (\<lambda>m. expects turn_id (\<lambda>t. map_of (rm_meta m) ''sourceTurnId'' = Some (JStr t))) messages)"
  let ?s = "foldl (\<lambda>s m. observe nt m s) start_selecting ?ms"
  have k: "knows nt ?ms ?s" by (rule knows_fold)
  then show ?thesis unfolding select_source_turn_def select_loop_folds knows_def Let_def
    by (auto split: if_splits)
qed

section \<open>Staging and choosing\<close>

lemma map_of_filter_key: "map_of (filter (\<lambda>kv. fst kv \<noteq> k) kvs) k' = (if k' = k then None else map_of kvs k')"
  by (induction kvs) auto

lemma map_of_put_field [simp]: "map_of (put_field k v kvs) k' = (if k' = k then v else map_of kvs k')"
  by (cases v) (simp_all add: put_field_def map_of_filter_key map_of_obj_put)

lemma stage_meta_fields:
  "map_of (stage_meta g m) ''sourceTurnId'' = some_text (sg_turn_id g)"
  "map_of (stage_meta g m) ''sourceTurnState'' = Some (JStr (text_else (case sg_reason g of None \<Rightarrow> [] | Some r \<Rightarrow> r) ''complete''))"
  "map_of (stage_meta g m) ''sourceTurn'' = map_of m ''sourceTurn''"
  by (simp_all add: stage_meta_def Let_def map_of_obj_put split: option.split)

lemma from_meta_complete:
  "map_of m ''sourceTurnState'' = Some (JStr ''complete'') \<Longrightarrow> map_of m ''sourceTurn'' = Some (JObj t) \<Longrightarrow> identified t
    \<Longrightarrow> source_turn_from_metas nt [m] = Some t"
  by (simp add: source_turn_from_metas_def incomplete_state_def turns_in_def map_filter_def)

lemma from_meta_none: "map_of m ''sourceTurn'' = None \<Longrightarrow> source_turn_from_metas nt [m] = None"
  by (simp add: source_turn_from_metas_def turns_in_def map_filter_def)

lemma last_block_all: "list_all (\<lambda>m. turn_id_of m = i) ms \<Longrightarrow> last_block ms = ms"
proof (induction ms rule: rev_induct)
  case (snoc m ms)
  then show ?case using last_block_snoc [of ms m] by (cases "ms = []") (auto simp: list_all_iff)
qed simp

lemma carried_none: "list_all (\<lambda>m. source_turn_from_metas nt [m] = None) ms \<Longrightarrow> carried nt ms = []"
  by (induction ms) (auto simp: carried_def map_filter_def)

text \<open>
  A complete turn that a reader has staged on its messages is the turn that is chosen when its
  conversation and its identity are asked for.
\<close>

theorem staged_turn_selected:
  assumes "messages \<noteq> []" and "sg_reason g = None" and "sg_turn g = Some t" and "identified t"
    and "list_all (\<lambda>m. rm_conversation m = c \<and> map_of (rm_meta m) ''sourceTurn'' = None) messages"
  shows "select_source_turn nt (Some c) (Some (sg_turn_id g)) (stage_source_turn_messages messages g) = Inr t"
proof -
  obtain ms m where messages: "messages = ms @ [m]" using assms(1) by (cases messages rule: rev_cases) auto
  let ?m = "m\<lparr>rm_meta := obj_put (stage_meta g (rm_meta m)) (''sourceTurn'', JObj t)\<rparr>"
  let ?ms = "map (\<lambda>m. m\<lparr>rm_meta := stage_meta g (rm_meta m)\<rparr>) ms"
  have staged: "stage_source_turn_messages messages g = ?ms @ [?m]"
    using assms(2,3) by (simp add: stage_source_turn_messages_def messages)
  have wanted: "filter (\<lambda>m. expects (Some (sg_turn_id g)) (\<lambda>t. map_of (rm_meta m) ''sourceTurnId'' = Some (JStr t))) (?ms @ [?m]) = ?ms @ [?m]"
    by (simp add: expects_def stage_meta_fields map_of_obj_put some_text_def)
  have conv: "\<not> list_ex (\<lambda>m. \<not> expects (Some c) (\<lambda>c. rm_conversation m = c)) (?ms @ [?m])"
    using assms(5) by (auto simp: messages expects_def list_ex_iff list_all_iff)
  let ?metas = "map rm_meta (?ms @ [?m])"
  have block: "last_block ?metas = ?metas"
    by (rule last_block_all [of "some_text (sg_turn_id g)"]) (simp add: turn_id_of_def stage_meta_fields map_of_obj_put list_all_iff)
  have none: "carried nt (map rm_meta ?ms) = []"
    by (rule carried_none) (use assms(5) in \<open>auto simp: messages list_all_iff stage_meta_fields intro!: from_meta_none\<close>)
  have "source_turn_from_metas nt [rm_meta ?m] = Some t"
    by (rule from_meta_complete) (use assms(2,4) in \<open>simp_all add: map_of_obj_put stage_meta_fields text_else_def\<close>)
  then have turns: "carried nt ?metas = [t]" using none by simp
  have complete: "\<not> list_ex (\<lambda>m. \<not> complete_state m) ?metas"
    using assms(2) by (auto simp: list_ex_iff complete_state_def stage_meta_fields map_of_obj_put text_else_def)
  show ?thesis
    unfolding staged select_source_turn_spec Let_def wanted block turns
    using conv complete by (simp add: one_content_def)
qed

section \<open>Pairing\<close>

lemma call_counts_count: "call_counts ids i = length (filter (\<lambda>x. x = Some i) ids)"
proof -
  have "foldl (\<lambda>n i. case i of None \<Rightarrow> n | Some i \<Rightarrow> n(i := n i + 1)) n ids i = n i + length (filter (\<lambda>x. x = Some i) ids)" for n
    by (induction ids arbitrary: n) (auto split: option.split)
  then show ?thesis by (simp add: call_counts_def)
qed

lemma indices_by_id_filter: "indices_by_id ids i = filter (\<lambda>k. ids ! k = Some i) [0..<length ids]"
proof -
  have gen: "foldl (\<lambda>m (i, k). case i of None \<Rightarrow> m | Some i \<Rightarrow> m(i := m i @ [k])) m ps i = m i @ map snd (filter (\<lambda>p. fst p = Some i) ps)"
    for m :: "string \<Rightarrow> nat list" and ps
    by (induction ps arbitrary: m) (auto split: option.split)
  have "map snd (filter (\<lambda>p. fst p = Some i) (zip ids [0..<length ids])) = filter (\<lambda>k. ids ! k = Some i) [0..<length ids]"
    by (induction ids rule: rev_induct) (auto simp: nth_append intro!: filter_cong)
  then show ?thesis by (simp add: indices_by_id_def gen)
qed

text \<open>The only position of a list with a property, if there is just one.\<close>

definition only_index :: "('a \<Rightarrow> bool) \<Rightarrow> 'a list \<Rightarrow> nat option" where
  "only_index P xs = (case filter (\<lambda>k. P (xs ! k)) [0..<length xs] of [k] \<Rightarrow> Some k | _ \<Rightarrow> None)"

lemma only_indexD: "only_index P xs = Some k \<Longrightarrow> k < length xs \<and> P (xs ! k)"
proof -
  assume "only_index P xs = Some k"
  then have "filter (\<lambda>k. P (xs ! k)) [0..<length xs] = [k]" by (auto simp: only_index_def split: list.splits)
  then have "k \<in> set (filter (\<lambda>k. P (xs ! k)) [0..<length xs])" by simp
  then show ?thesis by simp
qed

definition fits :: "string option list \<Rightarrow> string option list \<Rightarrow> string option \<Rightarrow> nat option" where
  "fits calls results i =
     (if i \<noteq> None \<and> length (filter (\<lambda>x. x = i) calls) = 1 then only_index (\<lambda>x. x = i) results else None)"

lemma match_fits:
  "match_tool_result_indices calls results =
     (let cs = map tool_invocation_id calls; rs = map tool_invocation_id results in
      if length calls = length results \<and> list_all (\<lambda>i. i = None) (cs @ rs) then map Some [0..<length calls] else map (fits cs rs) cs)"
  by (auto simp: match_tool_result_indices_def Let_def call_counts_count indices_by_id_filter fits_def only_index_def cong: map_cong
      split: option.split list.split intro!: map_cong)

lemma unique_position:
  assumes "length (filter (\<lambda>x. x = i) xs) = 1" and "j < length xs" "k < length xs" "xs ! j = i" "xs ! k = i"
  shows "j = k"
proof (rule ccontr)
  assume "j \<noteq> k"
  have "{j, k} \<subseteq> {n. n < length xs \<and> xs ! n = i}" using assms(2-5) by auto
  then have "card {j, k} \<le> card {n. n < length xs \<and> xs ! n = i}" by (intro card_mono) auto
  with \<open>j \<noteq> k\<close> assms(1) show False by (simp add: length_filter_conv_card)
qed

text \<open>
  The memory service matches a result to a call only when the identity of the call is carried by no other
  call and by exactly one result; records without any identities are matched by position. No result is
  given to two calls.
\<close>

theorem match_indices_spec:
  "let cs = map tool_invocation_id calls; rs = map tool_invocation_id results; m = match_tool_result_indices calls results in
     m = (if length calls = length results \<and> list_all (\<lambda>i. i = None) (cs @ rs) then map Some [0..<length calls]
          else map (\<lambda>i. if i \<noteq> None \<and> length (filter (\<lambda>x. x = i) cs) = 1 then only_index (\<lambda>x. x = i) rs else None) cs)
     \<and> \<not> (\<exists>j k r. j < k \<and> k < length calls \<and> m ! j = Some r \<and> m ! k = Some r)"
proof -
  let ?cs = "map tool_invocation_id calls" and ?rs = "map tool_invocation_id results"
  have eq: "match_tool_result_indices calls results =
     (if length calls = length results \<and> list_all (\<lambda>i. i = None) (?cs @ ?rs) then map Some [0..<length calls] else map (fits ?cs ?rs) ?cs)"
    using match_fits [of calls results] by (simp add: Let_def)
  have once: "j = k" if "k < length calls" "j < length calls" "fits ?cs ?rs (?cs ! j) = Some r" "fits ?cs ?rs (?cs ! k) = Some r" for j k r
  proof -
    have same: "?cs ! j = ?rs ! r" "?cs ! k = ?rs ! r" "length (filter (\<lambda>x. x = ?cs ! j) ?cs) = 1"
      using that(3,4) by (auto simp: fits_def dest!: only_indexD split: if_splits)
    then show ?thesis using unique_position [of "?cs ! j" ?cs j k] that(1,2) by simp
  qed
  have False if "j < k" "k < length calls" "match_tool_result_indices calls results ! j = Some r"
      "match_tool_result_indices calls results ! k = Some r" for j k r
    using that once [of k j r] unfolding eq by (cases "length calls = length results \<and> list_all (\<lambda>i. i = None) (?cs @ ?rs)")
      (simp_all only: if_True if_False, auto)
  moreover have f: "(\<lambda>i. if i \<noteq> None \<and> length (filter (\<lambda>x. x = i) ?cs) = 1 then only_index (\<lambda>x. x = i) ?rs else None) = fits ?cs ?rs"
    by (rule ext) (simp only: fits_def)
  ultimately show ?thesis unfolding Let_def f using eq by blast
qed

lemma index_results_eq:
  "index_results rs = (\<lambda>i. find (\<lambda>r. tool_id r = Some i) rs, {i. 2 \<le> length (filter (\<lambda>r. tool_id r = Some i) rs)})"
proof (induction rs rule: rev_induct)
  case (snoc r rs)
  let ?f = "\<lambda>(by_id, duplicates) r. case tool_id r of None \<Rightarrow> (by_id, duplicates)
     | Some i \<Rightarrow> if by_id i \<noteq> None then (by_id, insert i duplicates) else (by_id(i \<mapsto> r), duplicates)"
  have step: "index_results (rs @ [r]) = ?f (index_results rs) r" by (simp add: index_results_def)
  have found: "find P (rs @ [r]) = (case find P rs of None \<Rightarrow> if P r then Some r else None | Some y \<Rightarrow> Some y)" for P
    by (induction rs) auto
  have some: "find (\<lambda>r. tool_id r = Some i) rs \<noteq> None \<longleftrightarrow> 1 \<le> length (filter (\<lambda>r. tool_id r = Some i) rs)" for i
    by (auto simp: find_None_iff Suc_le_eq filter_empty_conv)
  show ?case
  proof (cases "tool_id r")
    case None
    then show ?thesis unfolding step snoc found by (auto split: option.split)
  next
    case (Some i)
    then show ?thesis unfolding step snoc found
      using some [of i] by (auto simp: fun_eq_iff le_Suc_eq split: option.splits)
  qed
qed (simp add: index_results_def)

lemma only_index_find:
  "length (filter P xs) = 1 \<Longrightarrow> \<exists>k. only_index P xs = Some k \<and> k < length xs \<and> find P xs = Some (xs ! k)"
  "length (filter P xs) \<noteq> 1 \<Longrightarrow> only_index P xs = None"
proof -
  have len: "length (filter (\<lambda>k. P (xs ! k)) [0..<length xs]) = length (filter P xs)"
    by (simp add: length_filter_conv_card [of P] length_filter_conv_card [of "\<lambda>k. P (xs ! k)"] conj_commute cong: conj_cong)
  show "length (filter P xs) \<noteq> 1 \<Longrightarrow> only_index P xs = None"
    using len by (auto simp: only_index_def split: list.split)
  assume one: "length (filter P xs) = 1"
  with len obtain k where k: "filter (\<lambda>k. P (xs ! k)) [0..<length xs] = [k]" by (auto simp: length_Suc_conv)
  then have only: "only_index P xs = Some k" by (simp add: only_index_def)
  from one obtain x where x: "filter P xs = [x]" by (auto simp: length_Suc_conv)
  have f: "find P xs = Some x"
    using x by (induction xs) (auto split: if_splits)
  have "xs ! k \<in> set (filter P xs)" using only_indexD [OF only] by simp
  with x have "xs ! k = x" by simp
  with only f only_indexD [OF only] show "\<exists>k. only_index P xs = Some k \<and> k < length xs \<and> find P xs = Some (xs ! k)" by blast
qed


section \<open>What redaction leaves\<close>

lemma redact_field_fields:
  "map_of (redact_field k v kvs) k' = (if k' = k \<and> map_of v k \<noteq> None then map_option redact_value (map_of v k) else map_of kvs k')"
  by (auto simp: redact_field_def map_of_obj_put split: option.split)

lemma redact_field_distinct: "distinct (map fst kvs) \<Longrightarrow> distinct (map fst (redact_field k v kvs))"
  by (simp add: redact_field_def obj_put_distinct split: option.split)

text \<open>
  The input, the output and the error of a call are redacted; its name is not: the redacted name is overwritten
  by the name itself, which \<open>redactResult\<close> hands back with the rest of the call.
\<close>

lemma tool_name_not_redacted:
  assumes "distinct (map fst call)"
  shows "map_of (redact_call call) ''input'' = map_option redact_value (map_of call ''input'')"
    and "map_of (redact_call call) ''output'' = map_option redact_value (map_of call ''output'')"
    and "map_of (redact_call call) ''error'' = map_option redact_value (map_of call ''error'')"
    and "map_of call ''name'' = Some v \<Longrightarrow> map_of (redact_call call) ''name'' = Some v"
  using assms
  by (auto simp: redact_call_def redact_result_def redact_field_fields map_of_obj_merge map_of_obj_put redact_field_distinct
    split: option.split)

end
