(* ===== verification/Source_Example.thy ===== *)
theory Source_Example
  imports Memory_Budget Source_Turn_Facts
begin

text \<open>
  A staged turn, tool calls with results, and a ledger over two days: the theorems on source turns and
  budgets at concrete inputs, and texts and turns that show where the code does not do what it promises.
\<close>

section \<open>Source turns\<close>

definition ex_turn :: source_turn where
  "ex_turn = [(''source'', JStr ''codex''), (''conversationId'', JStr ''c''), (''turnId'', JStr ''t''),
     (''completionEvidence'', JStr ''e''), (''query'', JStr ''q'')]"

definition ex_staging :: staging where
  "ex_staging = \<lparr>sg_turn_id = ''t'', sg_sequence = Some (JNum (Fin 3)), sg_started = None, sg_reason = None, sg_turn = Some ex_turn\<rparr>"

definition ex_message :: "string \<Rightarrow> raw_message" where
  "ex_message i = \<lparr>rm_id = i, rm_conversation = ''c'', rm_role = ''user'', rm_content = ''q'', rm_created = ''now'', rm_ordinal = 0, rm_meta = []\<rparr>"

theorem staged_turn_selected_witness:
  "select_source_turn (\<lambda>_. []) (Some ''c'') (Some ''t'') (stage_source_turn_messages [ex_message ''1'', ex_message ''2''] ex_staging) = Inr ex_turn"
  using staged_turn_selected [of "[ex_message ''1'', ex_message ''2'']" ex_staging ex_turn "''c''" "\<lambda>_. []"]
  by (simp add: ex_staging_def ex_message_def identified_def ex_turn_def text_of_def)

definition ex_calls :: "json_obj list" where
  "ex_calls = [[(''id'', JStr ''a''), (''name'', JStr ''read'')], [(''id'', JStr ''b''), (''name'', JStr ''run'')]]"

definition ex_results :: "json_obj list" where
  "ex_results = [[(''id'', JStr ''b''), (''output'', JStr ''done'')], [(''id'', JStr ''a''), (''output'', JStr ''1'')], [(''id'', JStr ''a'')]]"


text \<open>Of two secrets that are joined by a padding sign only the second is replaced; another pass finds the first.\<close>

lemma joined_secret_survives:
  "let s = replicate 32 (CHR ''A'') @ ''='' @ replicate 32 (CHR ''B'') in
     redact_base64_runs s 32 = replicate 32 (CHR ''A'') @ ''='' @ base64_token
     \<and> redact_base64_runs (redact_base64_runs s 32) 32 = base64_token @ base64_token"
  by code_simp

section \<open>The ledger\<close>

definition ex_num_env :: num_env where
  "ex_num_env = \<lparr>ne_read = (\<lambda>_. NaN), ne_print = (\<lambda>_. [])\<rparr>"

definition ex_clock :: "nat \<Rightarrow> clock" where
  "ex_clock d = \<lparr>ck_year = 2024, ck_month = 5, ck_day = d, ck_iso = ''t''\<rparr>"

definition ex_use :: "nat \<Rightarrow> int \<Rightarrow> (clock \<times> clock \<times> clock) \<times> ledger_op" where
  "ex_use d n = ((ex_clock d, ex_clock d, ex_clock d), AddUsage (Some ''memory_summary'') (Some ''summary.create'') n)"

definition ex_uses :: "((clock \<times> clock \<times> clock) \<times> ledger_op) list" where
  "ex_uses = [ex_use 1 600000, ex_use 1 500000, ex_use 2 7]"

lemma ex_meter: "run_meter empty_meter ex_uses = \<lparr>mt_date = ''2024-05-02'', mt_daily = 7, mt_lifetime = 1100007\<rparr>"
  by code_simp

lemma ex_one_day: "list_all one_day ex_uses"
  by code_simp

lemma ex_date: "local_date (ex_clock 2) = ''2024-05-02''"
  by code_simp


definition one_m :: "json option" where
  "one_m = Some (JNum (Fin 1))"

lemma ex_limits:
  "lg_total_limit (run_ledger ex_num_env (new_ledger None None one_m) ex_uses) = 1"
  by code_simp


text \<open>
  Midnight between two readings of the clock in one operation: what was used yesterday is booked on today.
\<close>

lemma yesterday_booked_on_today:
  "let l = run_ledger ex_num_env (new_ledger None None None) [ex_use 1 600000];
       l' = snd (add_if_budgeted ex_num_env (ex_clock 1) (ex_clock 2) (ex_clock 2) (Some ''memory_summary'') None (Some (Fin 5)) l)
   in us_daily (read_usage ex_num_env (ex_clock 2) l) = Fin 0 \<and> us_daily (read_usage ex_num_env (ex_clock 2) l') = Fin 600005"
  by code_simp

end
