(* ===== verification/Job_Store.thy ===== *)
theory Job_Store
  imports Js_Values
begin

text \<open>
  The queue of background jobs of the memory service: the tables \<^verbatim>\<open>evolution_jobs\<close>,
  \<^verbatim>\<open>memory_processing_state\<close> and what a dead job touches, with the operations of
  \<^verbatim>\<open>Memory/src/storage/repositories.ts\<close> on them. A table is the list of its rows in the order of \<^verbatim>\<open>rowid\<close>, a
  method is one transaction. Times are the texts of \<open>toISOString\<close>, which SQLite compares as texts. Of the table of
  memories the queries read the view below, which is an argument of the state.
\<close>

section \<open>Texts and conditions of SQL\<close>

definition ascii_lower :: "string \<Rightarrow> string" where
  "ascii_lower = map (\<lambda>c. let n = (of_char c :: nat) in if 65 \<le> n \<and> n \<le> 90 then char_of (n + 32) else c)"

text \<open>\<open>s LIKE 'p%'\<close>: letters of either case, and \<open>_\<close> for any character.\<close>

fun like_prefix :: "string \<Rightarrow> string \<Rightarrow> bool" where
  "like_prefix [] s = True"
| "like_prefix (p # ps) [] = False"
| "like_prefix (p # ps) (c # cs) = ((p = CHR ''_'' \<or> ascii_lower [p] = ascii_lower [c]) \<and> like_prefix ps cs)"

text \<open>Conditions have three values.\<close>

fun sql_not :: "bool option \<Rightarrow> bool option" where
  "sql_not (Some b) = Some (\<not> b)"
| "sql_not None = None"

definition sql_or :: "bool option \<Rightarrow> bool option \<Rightarrow> bool option" where
  "sql_or a b = (if a = Some True \<or> b = Some True then Some True else if a = None \<or> b = None then None else Some False)"

definition sql_and :: "bool option \<Rightarrow> bool option \<Rightarrow> bool option" where
  "sql_and a b = (if a = Some False \<or> b = Some False then Some False else if a = None \<or> b = None then None else Some True)"

section \<open>Rows\<close>

datatype job_status = JQueued | JLeased | JSucceeded | JFailed | JDeadLetter

record evolution_job =
  ej_id :: string
  ej_type :: string
  ej_status :: job_status
  ej_dedupe :: "string option"
  ej_user :: string
  ej_session :: "string option"
  ej_episode :: "string option"
  ej_target :: "string option"
  ej_scope :: "string option"
  ej_seq :: "int option"
  ej_payload :: json_obj
  ej_attempts :: int
  ej_max :: int
  ej_leased_until :: "string option"
  ej_error :: "string option"
  ej_created :: string
  ej_updated :: string

datatype processing_state = SummaryPending | Summarizing | EmbeddingPending | Embedding | Ready | ReadyTextOnly | ProcessingFailed

datatype processing_stage = SummaryStage | EmbeddingStage

datatype retry_action = ActRetry | ActOpenSettings | ActNone

record processing =
  pr_memory :: string
  pr_state :: processing_state
  pr_stage :: "processing_stage option"
  pr_job :: "string option"
  pr_attempts :: int
  pr_manual :: int
  pr_action :: retry_action
  pr_code :: "string option"
  pr_message :: "string option"
  pr_failed_at :: "string option"
  pr_updated :: string

datatype retry_status = RPending | RInProgress | RFailed | RSucceeded

record embedding_retry =
  rt_id :: string
  rt_kind :: string
  rt_target :: string
  rt_field :: string
  rt_text :: string
  rt_role :: string
  rt_status :: retry_status
  rt_attempts :: int
  rt_max :: int
  rt_next :: int
  rt_claimed :: "string option"
  rt_lease :: "int option"
  rt_error :: "string option"
  rt_created :: int
  rt_updated :: int

record memory_view =
  mv_created :: string
  mv_layer :: string
  mv_agent :: "string option"
  mv_tags :: "string list"
  mv_algorithm :: "string option"
  mv_summary_vector :: bool
  mv_hash :: "string option"
  mv_generation :: "json option"
  mv_skill_generation :: "json option"
  mv_observation :: bool

record batch_target =
  bt_batch :: string
  bt_field :: string
  bt_status :: string
  bt_no_change :: int
  bt_applied_at :: "string option"
  bt_updated :: string

record evidence_batch =
  eb_id :: string
  eb_outcome :: "string option"
  eb_completed :: "string option"
  eb_updated :: string

record environment_state =
  es_user :: string
  es_project :: string
  es_scan :: "string option"
  es_status :: string
  es_error :: "string option"
  es_updated :: string

record job_db =
  jd_jobs :: "evolution_job list"
  jd_retries :: "embedding_retry list"
  jd_processing :: "processing list"
  jd_memories :: "string \<Rightarrow> memory_view option"
  jd_targets :: "batch_target list"
  jd_batches :: "evidence_batch list"
  jd_environments :: "environment_state list"

definition update_row :: "('a \<Rightarrow> bool) \<Rightarrow> ('a \<Rightarrow> 'a) \<Rightarrow> 'a list \<Rightarrow> 'a list" where
  "update_row P f = map (\<lambda>r. if P r then f r else r)"

definition update_job :: "string \<Rightarrow> (evolution_job \<Rightarrow> evolution_job) \<Rightarrow> job_db \<Rightarrow> job_db" where
  "update_job i f db = db\<lparr>jd_jobs := update_row (\<lambda>j. ej_id j = i) f (jd_jobs db)\<rparr>"

definition get_job :: "string \<Rightarrow> job_db \<Rightarrow> evolution_job option" where
  "get_job i db = find (\<lambda>j. ej_id j = i) (jd_jobs db)"

section \<open>The order of the queue\<close>

definition memory_of :: "job_db \<Rightarrow> string option \<Rightarrow> memory_view option" where
  "memory_of db i = (case i of None \<Rightarrow> None | Some i \<Rightarrow> jd_memories db i)"

definition has_tag :: "string list \<Rightarrow> memory_view \<Rightarrow> bool" where
  "has_tag names m \<longleftrightarrow> list_ex (\<lambda>t. ascii_lower t \<in> set names) (mv_tags m)"

definition agent_source_memory :: "memory_view \<Rightarrow> bool option" where
  "agent_source_memory m =
     sql_or (map_option (like_prefix ''memory.add.import_async.'') (mv_algorithm m)) (Some (has_tag [''agent-source''] m))"

definition onboarding_memory :: "memory_view \<Rightarrow> bool" where
  "onboarding_memory m \<longleftrightarrow> ascii_lower (case mv_agent m of None \<Rightarrow> [] | Some a \<Rightarrow> a) = ''memmy-onboarding''
     \<or> has_tag [''first-encounter-report'', ''onboarding-report''] m"

definition target_matches :: "job_db \<Rightarrow> (memory_view \<Rightarrow> bool option) \<Rightarrow> evolution_job \<Rightarrow> bool" where
  "target_matches db P j = (case memory_of db (ej_target j) of None \<Rightarrow> False | Some m \<Rightarrow> P m = Some True)"

definition interactive_memory :: "memory_view \<Rightarrow> bool option" where
  "interactive_memory m = sql_and (Some (mv_layer m = ''L1'')) (sql_not (agent_source_memory m))"

definition payload_text :: "string \<Rightarrow> evolution_job \<Rightarrow> string option" where
  "payload_text k j = (case map_of (ej_payload j) k of Some (JStr s) \<Rightarrow> Some s | _ \<Rightarrow> None)"

definition job_priority :: "job_db \<Rightarrow> evolution_job \<Rightarrow> int" where
  "job_priority db j =
     (let t = ej_type j; source = payload_text ''source'' j in
      if t \<in> {''trace_summary'', ''import_summary'', ''observation_extract'', ''embedding''}
         \<and> target_matches db (\<lambda>m. Some (onboarding_memory m)) j then - 100
      else if source = Some ''memory.processing.manual_retry'' then 0
      else if t \<in> {''trace_summary'', ''import_summary''}
         \<and> source \<in> {Some ''startup.processing_repair'', Some ''startup.placeholder_summary_repair''} then 90
      else if t \<in> {''trace_summary'', ''observation_extract''} \<or> t = ''embedding'' \<and> target_matches db interactive_memory j then 1
      else if t = ''import_summary'' \<or> t = ''embedding'' \<and> target_matches db agent_source_memory j then 2
      else if t = ''embedding'' then 3
      else if t = ''episode_idle_close'' then 10
      else if t = ''episode_title'' then 15
      else if t = ''reflection'' then 20
      else if t = ''decision_repair'' then 25
      else if t = ''reward'' then 30
      else if t = ''span_big_turn'' then 35
      else if t = ''l2_association'' then 40
      else if t = ''l2_induction'' then 50
      else if t = ''project_environment_profile'' then 55
      else if t \<in> {''l3_abstraction'', ''l3_world_model_update''} then 60
      else if t = ''skill_crystallization'' then 70
      else if t = ''skill_cluster_assign'' then 72
      else if t = ''skill_batch_evolve'' then 73
      else if t = ''skill_trial_resolve'' then 80
      else 100)"

definition order_created :: "job_db \<Rightarrow> evolution_job \<Rightarrow> string" where
  "order_created db j =
     (if ej_type j \<in> {''trace_summary'', ''import_summary'', ''observation_extract'', ''embedding''} \<and> ej_target j \<noteq> None
      then (case memory_of db (ej_target j) of None \<Rightarrow> ej_created j | Some m \<Rightarrow> mv_created m) else [])"

definition order_class :: "evolution_job \<Rightarrow> int" where
  "order_class j = (if ej_type j \<in> {''trace_summary'', ''import_summary'', ''observation_extract''} then 0
     else if ej_type j = ''embedding'' then 1 else 2)"

definition cmp_job :: "job_db \<Rightarrow> evolution_job \<Rightarrow> evolution_job \<Rightarrow> int" where
  "cmp_job db a b =
     then_cmp (job_priority db a - job_priority db b)
    (then_cmp (cmp_str (order_created db b) (order_created db a))
    (then_cmp (order_class a - order_class b)
    (then_cmp (of_bool (ej_status a \<noteq> JLeased) - of_bool (ej_status b \<noteq> JLeased))
      (cmp_str (ej_created a) (ej_created b)))))"

text \<open>\<open>SELECT * ... WHERE P ORDER BY ...\<close>\<close>

definition select_jobs :: "job_db \<Rightarrow> (evolution_job \<Rightarrow> bool) \<Rightarrow> evolution_job list" where
  "select_jobs db P = sort_cmp (cmp_job db) (filter P (jd_jobs db))"

section \<open>Adding jobs\<close>

datatype job_error = ConstraintViolation | ImmutableJobError string

definition scope_type :: "string \<Rightarrow> bool" where
  "scope_type t \<longleftrightarrow> t \<in> {''l3_world_model_update'', ''work_memory_extract''}"

definition immutable_type :: "string \<Rightarrow> bool" where
  "immutable_type t \<longleftrightarrow> t \<in> {''l3_world_model_update'', ''project_environment_profile''}"

definition active_status :: "job_status \<Rightarrow> bool" where
  "active_status s \<longleftrightarrow> s \<in> {JQueued, JLeased, JFailed}"

text \<open>What the primary key and the unique indexes forbid of two rows.\<close>

definition clashes :: "evolution_job \<Rightarrow> evolution_job \<Rightarrow> bool" where
  "clashes a b \<longleftrightarrow> ej_id a = ej_id b
     \<or> ej_dedupe a \<noteq> None \<and> ej_dedupe a = ej_dedupe b \<and> active_status (ej_status a) \<and> active_status (ej_status b)
     \<or> ej_dedupe a \<noteq> None \<and> ej_dedupe a = ej_dedupe b \<and> immutable_type (ej_type a) \<and> immutable_type (ej_type b)
     \<or> ej_scope a \<noteq> None \<and> ej_scope a = ej_scope b \<and> ej_seq a \<noteq> None \<and> ej_seq a = ej_seq b"

definition no_clashes :: "evolution_job list \<Rightarrow> bool" where
  "no_clashes = sorted_wrt (\<lambda>a b. \<not> clashes a b)"

text \<open>A statement whose result breaks an index is an error and changes nothing.\<close>

definition checked_jobs :: "job_db \<Rightarrow> job_error + job_db" where
  "checked_jobs db = (if no_clashes (jd_jobs db) then Inr db else Inl ConstraintViolation)"

definition insert_job :: "evolution_job \<Rightarrow> job_db \<Rightarrow> job_error + job_db" where
  "insert_job j db = checked_jobs (db\<lparr>jd_jobs := jd_jobs db @ [j]\<rparr>)"

definition get_active_by_dedupe :: "string \<Rightarrow> job_db \<Rightarrow> evolution_job option" where
  "get_active_by_dedupe k db =
     (case select_jobs db (\<lambda>j. ej_dedupe j = Some k \<and> active_status (ej_status j)) of [] \<Rightarrow> None | j # _ \<Rightarrow> Some j)"

text \<open>\<open>Date.parse\<close>, where it gives a finite number.\<close>

definition merge_payload :: "(string \<Rightarrow> rat option) \<Rightarrow> json_obj \<Rightarrow> json_obj \<Rightarrow> json_obj" where
  "merge_payload parse_date old new =
     (let merged = obj_merge old new;
          time = (\<lambda>p. case map_of p ''runAfter'' of Some (JStr s) \<Rightarrow> map_option (Pair s) (parse_date s) | _ \<Rightarrow> None)
      in case (time old, time new) of
           (Some (s, a), Some (t, b)) \<Rightarrow> obj_put merged (''runAfter'', JStr (if a \<le> b then s else t))
         | _ \<Rightarrow> merged)"

definition coalesce :: "'a option \<Rightarrow> 'a option \<Rightarrow> 'a option" where
  "coalesce a b = (case a of None \<Rightarrow> b | Some x \<Rightarrow> Some x)"

definition merged_job :: "(string \<Rightarrow> rat option) \<Rightarrow> evolution_job \<Rightarrow> evolution_job \<Rightarrow> evolution_job" where
  "merged_job parse_date j row =
     row\<lparr>ej_status := (if ej_status row = JFailed then JQueued else ej_status row),
         ej_session := coalesce (ej_session j) (ej_session row), ej_episode := coalesce (ej_episode j) (ej_episode row),
         ej_target := coalesce (ej_target j) (ej_target row), ej_payload := merge_payload parse_date (ej_payload row) (ej_payload j),
         ej_max := max (ej_max row) (ej_max j),
         ej_leased_until := (if ej_status row = JFailed then None else ej_leased_until row),
         ej_error := (if ej_status row = JFailed then None else ej_error row), ej_updated := ej_updated j\<rparr>"

definition enqueue_job :: "(string \<Rightarrow> rat option) \<Rightarrow> evolution_job \<Rightarrow> job_db \<Rightarrow> job_error + evolution_job \<times> job_db" where
  "enqueue_job parse_date j db =
     (case (case ej_dedupe j of None \<Rightarrow> None | Some k \<Rightarrow> if k = [] then None else get_active_by_dedupe k db) of
        Some row \<Rightarrow>
          (let db' = update_job (ej_id row) (merged_job parse_date j) db in
           Inr (case get_job (ej_id row) db' of None \<Rightarrow> merged_job parse_date j row | Some r \<Rightarrow> r, db'))
      | None \<Rightarrow> bindE (insert_job j db) (\<lambda>db'. Inr (j, db')))"

definition insert_immutable_job :: "evolution_job \<Rightarrow> job_db \<Rightarrow> job_error + job_db" where
  "insert_immutable_job j db =
     (let update = (ej_type j = ''l3_world_model_update''); profile = (ej_type j = ''project_environment_profile'');
          no_text = (\<lambda>v. v = None \<or> v = Some []) in
      bindE (throw_if (\<not> update \<and> \<not> profile) (ImmutableJobError ''immutable L3 job must use an L3 World Model job type'')) (\<lambda>_.
      bindE (throw_if (no_text (ej_dedupe j)) (ImmutableJobError ''immutable L3 job requires dedupeKey'')) (\<lambda>_.
      bindE (throw_if (update \<and> (no_text (ej_scope j) \<or> ej_seq j = None))
         (ImmutableJobError ''L3 field update job requires scopeKey and scopeSeq'')) (\<lambda>_.
      bindE (throw_if (profile \<and> (\<not> no_text (ej_scope j) \<or> ej_seq j \<noteq> None))
         (ImmutableJobError ''project environment job must not enter Trace field FIFO'')) (\<lambda>_.
      bindE (throw_if (ej_status j \<noteq> JQueued \<or> ej_attempts j \<noteq> 0)
         (ImmutableJobError ''immutable L3 job must start queued with zero attempts'')) (\<lambda>_.
      insert_job j db))))))"

definition next_scope_seq :: "string \<Rightarrow> job_db \<Rightarrow> int" where
  "next_scope_seq scope db =
     (case List.map_filter ej_seq (filter (\<lambda>j. ej_type j = ''work_memory_extract'' \<and> ej_scope j = Some scope) (jd_jobs db)) of
        [] \<Rightarrow> 1
      | n # ns \<Rightarrow> foldl max n ns + 1)"

definition get_job_by_dedupe :: "string \<Rightarrow> job_db \<Rightarrow> evolution_job option" where
  "get_job_by_dedupe k db =
     (case sort_cmp (\<lambda>a b. then_cmp (cmp_str (ej_created a) (ej_created b)) (cmp_str (ej_id a) (ej_id b)))
             (filter (\<lambda>j. ej_dedupe j = Some k) (jd_jobs db)) of [] \<Rightarrow> None | j # _ \<Rightarrow> Some j)"

definition arm_idle_flush :: "string \<Rightarrow> string \<Rightarrow> string \<Rightarrow> string \<Rightarrow> string \<Rightarrow> string \<Rightarrow> job_db \<Rightarrow> job_error + job_db" where
  "arm_idle_flush new_id session user last_activity run_after now db =
     (let key = ''work_memory_idle_flush:'' @ session;
          payload = [(''lastActivityAt'', JStr last_activity), (''runAfter'', JStr run_after)]
      in case get_job_by_dedupe key db of
           Some row \<Rightarrow> checked_jobs (update_job (ej_id row) (\<lambda>r. r\<lparr>ej_status := JQueued, ej_payload := payload, ej_attempts := 0,
               ej_leased_until := None, ej_error := None, ej_updated := now\<rparr>) db)
         | None \<Rightarrow> insert_job \<lparr>ej_id = new_id, ej_type = ''work_memory_idle_flush'', ej_status = JQueued, ej_dedupe = Some key,
               ej_user = user, ej_session = Some session, ej_episode = None, ej_target = None, ej_scope = None, ej_seq = None,
               ej_payload = payload, ej_attempts = 0, ej_max = 3, ej_leased_until = None, ej_error = None,
               ej_created = now, ej_updated = now\<rparr> db)"

section \<open>Reading\<close>

definition list_jobs :: "job_status option \<Rightarrow> nat \<Rightarrow> job_db \<Rightarrow> evolution_job list" where
  "list_jobs status limit db = take limit (select_jobs db (\<lambda>j. case status of None \<Rightarrow> True | Some s \<Rightarrow> ej_status j = s))"

definition count_jobs :: "job_status \<Rightarrow> job_db \<Rightarrow> nat" where
  "count_jobs s db = length (filter (\<lambda>j. ej_status j = s) (jd_jobs db))"

text \<open>A condition on the payload that is made only for a text that is not empty.\<close>

definition payload_is :: "string \<Rightarrow> string option \<Rightarrow> evolution_job \<Rightarrow> bool" where
  "payload_is k v j = (case v of None \<Rightarrow> True | Some s \<Rightarrow> s = [] \<or> payload_text k j = Some s)"

definition get_pending_job ::
  "string \<Rightarrow> string \<Rightarrow> string option \<Rightarrow> string option \<Rightarrow> string option \<Rightarrow> job_db \<Rightarrow> evolution_job option" where
  "get_pending_job target t content observation skill db =
     (case select_jobs db (\<lambda>j. ej_target j = Some target \<and> ej_type j = t \<and> ej_status j \<in> {JQueued, JLeased}
         \<and> payload_is ''contentHash'' content j \<and> payload_is ''observationGeneration'' observation j
         \<and> payload_is ''externalSkillGeneration'' skill j) of
        [] \<Rightarrow> None | j # _ \<Rightarrow> Some j)"

definition has_episode_job :: "string \<Rightarrow> string \<Rightarrow> job_status list \<Rightarrow> job_db \<Rightarrow> bool" where
  "has_episode_job e t statuses db \<longleftrightarrow> list_ex (\<lambda>j. ej_episode j = Some e \<and> ej_type j = t \<and> ej_status j \<in> set statuses) (jd_jobs db)"

end
