(* ===== verification/Job_Lease.thy ===== *)
theory Job_Lease
  imports Job_Store
begin

text \<open>
  The operations that move a job through its states: leasing, completing, failing, deferring and giving back
  (\<^verbatim>\<open>leaseQueuedJobs\<close> to \<^verbatim>\<open>failJob\<close> of \<^verbatim>\<open>Memory/src/storage/repositories.ts\<close>).
\<close>

section \<open>Leasing\<close>

definition lease_expired :: "string \<Rightarrow> evolution_job \<Rightarrow> bool" where
  "lease_expired now j \<longleftrightarrow> ej_status j = JLeased \<and> (case ej_leased_until j of None \<Rightarrow> False | Some t \<Rightarrow> t \<le> now)"

text \<open>\<open>CAST(json_extract(payload_json, '$.k') AS TEXT)\<close>; \<open>sql\<close> is the text of a value that is no string.\<close>

definition payload_cast :: "(json \<Rightarrow> string) \<Rightarrow> string \<Rightarrow> evolution_job \<Rightarrow> string option" where
  "payload_cast sql k j = (case map_of (ej_payload j) k of
     None \<Rightarrow> None | Some JNull \<Rightarrow> None | Some (JStr s) \<Rightarrow> Some s | Some v \<Rightarrow> Some (sql v))"

definition run_due :: "(json \<Rightarrow> string) \<Rightarrow> string \<Rightarrow> evolution_job \<Rightarrow> bool" where
  "run_due sql now j \<longleftrightarrow> (case payload_cast sql ''runAfter'' j of None \<Rightarrow> True | Some t \<Rightarrow> t \<le> now)"

text \<open>A positive reward waits until the memory that it rewards has its summary vector, or will not get one.\<close>

definition memory_in_progress :: "job_db \<Rightarrow> string \<Rightarrow> bool" where
  "memory_in_progress db i \<longleftrightarrow>
     (case jd_memories db i of None \<Rightarrow> False | Some m \<Rightarrow> \<not> mv_summary_vector m)
     \<and> list_ex (\<lambda>p. pr_memory p = i \<and> pr_state p \<in> {EmbeddingPending, Embedding, SummaryPending, Summarizing}) (jd_processing db)"

definition reward_waits :: "(json \<Rightarrow> string) \<Rightarrow> job_db \<Rightarrow> evolution_job \<Rightarrow> bool" where
  "reward_waits sql db j \<longleftrightarrow> ej_type j = ''reward''
     \<and> (payload_cast sql ''polarity'' j = None \<or> payload_text ''polarity'' j = Some ''positive'')
     \<and> (case payload_cast sql ''l1MemoryId'' j of None \<Rightarrow> False | Some i \<Rightarrow> memory_in_progress db i)"

text \<open>The jobs of one scope run one at a time, in the order of their numbers.\<close>

definition same_queue :: "evolution_job \<Rightarrow> evolution_job \<Rightarrow> bool" where
  "same_queue a b \<longleftrightarrow> ej_type a = ej_type b \<and> ej_scope a \<noteq> None \<and> ej_scope a = ej_scope b"

definition seq_before :: "evolution_job \<Rightarrow> evolution_job \<Rightarrow> bool" where
  "seq_before a b \<longleftrightarrow> (case (ej_seq a, ej_seq b) of (Some m, Some n) \<Rightarrow> m < n | _ \<Rightarrow> False)"

definition scope_free :: "job_db \<Rightarrow> evolution_job \<Rightarrow> bool" where
  "scope_free db j \<longleftrightarrow> \<not> scope_type (ej_type j) \<or>
     ej_scope j \<noteq> None \<and> ej_seq j \<noteq> None
     \<and> \<not> list_ex (\<lambda>k. same_queue k j \<and> ej_status k = JLeased \<and> ej_id k \<noteq> ej_id j) (jd_jobs db)
     \<and> \<not> list_ex (\<lambda>k. same_queue k j \<and> seq_before k j \<and> active_status (ej_status k)) (jd_jobs db)"

definition targets_ok :: "string list option \<Rightarrow> evolution_job \<Rightarrow> bool" where
  "targets_ok targets j \<longleftrightarrow> (case targets of None \<Rightarrow> True
     | Some ids \<Rightarrow> (case ej_target j of None \<Rightarrow> False | Some i \<Rightarrow> i \<in> set ids))"

record lease_request =
  lr_limit :: nat
  lr_targets :: "string list option"
  lr_cohort :: bool
  lr_allowed :: "string list option"
  lr_excluded :: "string list"

definition leasable :: "(json \<Rightarrow> string) \<Rightarrow> string \<Rightarrow> lease_request \<Rightarrow> job_db \<Rightarrow> evolution_job \<Rightarrow> bool" where
  "leasable sql now q db j \<longleftrightarrow>
     (ej_status j = JQueued \<or> lease_expired now j) \<and> ej_attempts j < ej_max j
     \<and> \<not> reward_waits sql db j \<and> run_due sql now j \<and> scope_free db j
     \<and> (case lr_allowed q of None \<Rightarrow> True | Some ts \<Rightarrow> ej_type j \<in> set ts)
     \<and> ej_type j \<notin> set (lr_excluded q) \<and> targets_ok (lr_targets q) j"

definition leased_job :: "string \<Rightarrow> string \<Rightarrow> evolution_job \<Rightarrow> evolution_job" where
  "leased_job now until j = j\<lparr>ej_status := JLeased, ej_attempts := ej_attempts j + 1, ej_leased_until := Some until, ej_updated := now\<rparr>"

text \<open>One statement per row, as the loops of the transactions do.\<close>

definition update_each :: "(evolution_job \<Rightarrow> evolution_job) \<Rightarrow> evolution_job list \<Rightarrow> job_db \<Rightarrow> job_db" where
  "update_each f rows db = fold (\<lambda>r. update_job (ej_id r) f) rows db"

definition cohort :: "job_db \<Rightarrow> evolution_job list \<Rightarrow> evolution_job list" where
  "cohort db rows = (case rows of [] \<Rightarrow> [] | r # _ \<Rightarrow> filter (\<lambda>j. job_priority db j = job_priority db r) rows)"

definition lease_rows :: "(json \<Rightarrow> string) \<Rightarrow> string \<Rightarrow> lease_request \<Rightarrow> job_db \<Rightarrow> evolution_job list" where
  "lease_rows sql now q db =
     (let candidates = take (lr_limit q) (select_jobs db (leasable sql now q db))
      in if lr_cohort q then cohort db candidates else candidates)"

definition lease_jobs ::
  "(json \<Rightarrow> string) \<Rightarrow> string \<Rightarrow> string \<Rightarrow> lease_request \<Rightarrow> job_db \<Rightarrow> evolution_job list \<times> job_db" where
  "lease_jobs sql now until q db =
     (if lr_targets q = Some [] \<or> lr_allowed q = Some [] then ([], db)
      else let rows = lease_rows sql now q db
           in (map (leased_job now until) rows, update_each (leased_job now until) rows db))"

section \<open>Ending a lease\<close>

definition completed_job :: "string \<Rightarrow> evolution_job \<Rightarrow> evolution_job" where
  "completed_job now j = j\<lparr>ej_status := JSucceeded, ej_leased_until := None, ej_updated := now\<rparr>"

definition complete_job :: "string \<Rightarrow> string \<Rightarrow> job_db \<Rightarrow> evolution_job option \<times> job_db" where
  "complete_job i now db = (let db' = update_job i (completed_job now) db in (get_job i db', db'))"

definition given_back :: "string \<Rightarrow> evolution_job \<Rightarrow> evolution_job" where
  "given_back now j = j\<lparr>ej_status := JQueued, ej_attempts := max 0 (ej_attempts j - 1), ej_leased_until := None, ej_updated := now\<rparr>"

definition defer_job :: "string \<Rightarrow> string \<Rightarrow> string \<Rightarrow> job_db \<Rightarrow> evolution_job option \<times> job_db" where
  "defer_job i run_after now db =
     (let db' = update_job i (\<lambda>j. if ej_status j = JLeased
                  then (given_back now j)\<lparr>ej_payload := obj_put (ej_payload j) (''runAfter'', JStr run_after)\<rparr> else j) db
      in (get_job i db', db'))"

text \<open>Every requeueing gives the pairs of a row before and after it.\<close>

definition requeue_rows ::
  "(evolution_job \<Rightarrow> evolution_job) \<Rightarrow> evolution_job list \<Rightarrow> job_db \<Rightarrow> (evolution_job \<times> evolution_job) list \<times> job_db" where
  "requeue_rows f rows db = (map (\<lambda>r. (r, f r)) rows, update_each f rows db)"

definition back_in_queue :: "string \<Rightarrow> evolution_job \<Rightarrow> evolution_job" where
  "back_in_queue now j = j\<lparr>ej_status := JQueued, ej_leased_until := None, ej_updated := now\<rparr>"

definition requeue_failed ::
  "nat \<Rightarrow> string \<Rightarrow> string list option \<Rightarrow> job_db \<Rightarrow> (evolution_job \<times> evolution_job) list \<times> job_db" where
  "requeue_failed limit now targets db =
     (if targets = Some [] then ([], db)
      else requeue_rows (back_in_queue now)
             (take limit (select_jobs db (\<lambda>j. ej_status j = JFailed \<and> ej_attempts j < ej_max j \<and> targets_ok targets j))) db)"

definition requeue_leased_where ::
  "(evolution_job \<Rightarrow> bool) \<Rightarrow> string \<Rightarrow> job_db \<Rightarrow> (evolution_job \<times> evolution_job) list \<times> job_db" where
  "requeue_leased_where P now db = requeue_rows (given_back now) (select_jobs db P) db"

definition requeue_after_restart :: "string \<Rightarrow> job_db \<Rightarrow> (evolution_job \<times> evolution_job) list \<times> job_db" where
  "requeue_after_restart now db = requeue_rows (given_back now) (select_jobs db (\<lambda>j. ej_status j = JLeased)) db"

definition requeue_unstarted :: "string list \<Rightarrow> string \<Rightarrow> job_db \<Rightarrow> (evolution_job \<times> evolution_job) list \<times> job_db" where
  "requeue_unstarted ids now db =
     (if ids = [] then ([], db) else requeue_leased_where (\<lambda>j. ej_status j = JLeased \<and> ej_id j \<in> set ids) now db)"

definition requeue_expired_except :: "string list \<Rightarrow> string \<Rightarrow> job_db \<Rightarrow> (evolution_job \<times> evolution_job) list \<times> job_db" where
  "requeue_expired_except excluded now db =
     requeue_leased_where (\<lambda>j. lease_expired now j \<and> ej_type j \<notin> set excluded) now db"

section \<open>Failing\<close>

definition target_field :: "string \<Rightarrow> bool" where
  "target_field f \<longleftrightarrow> f \<in> {''general_rules_and_safety_constraints'', ''project_contract'', ''domain_knowledge''}"

definition batch_outcome :: "string list \<Rightarrow> string option" where
  "batch_outcome statuses =
     (let applied = length (filter (\<lambda>s. s = ''applied'') statuses) in
      if statuses = [] \<or> ''queued'' \<in> set statuses then None
      else Some (if applied = length statuses then ''applied'' else if applied = 0 then ''dead_letter'' else ''partial_dead_letter''))"

definition update_batch_outcome :: "string \<Rightarrow> string \<Rightarrow> job_db \<Rightarrow> job_db" where
  "update_batch_outcome b now db =
     (case batch_outcome (map bt_status (filter (\<lambda>t. bt_batch t = b) (jd_targets db))) of
        None \<Rightarrow> db
      | Some r \<Rightarrow> db\<lparr>jd_batches := update_row (\<lambda>e. eb_id e = b)
          (\<lambda>e. e\<lparr>eb_outcome := Some r, eb_completed := Some now, eb_updated := now\<rparr>) (jd_batches db)\<rparr>)"

definition dead_world_update :: "string \<Rightarrow> evolution_job \<Rightarrow> job_db \<Rightarrow> job_db" where
  "dead_world_update now j db =
     (case (payload_text ''batchId'' j, payload_text ''targetField'' j) of
        (Some b, Some f) \<Rightarrow>
          if b \<noteq> [] \<and> target_field f
          then update_batch_outcome b now (db\<lparr>jd_targets := update_row
                 (\<lambda>t. bt_batch t = b \<and> bt_field t = f \<and> bt_status t = ''queued'')
                 (\<lambda>t. t\<lparr>bt_status := ''dead_letter'', bt_no_change := 0, bt_applied_at := None, bt_updated := now\<rparr>) (jd_targets db)\<rparr>)
          else db
      | _ \<Rightarrow> db)"

definition dead_profile :: "string \<Rightarrow> string \<Rightarrow> evolution_job \<Rightarrow> job_db \<Rightarrow> job_db" where
  "dead_profile error now j db =
     (case (payload_text ''userId'' j, payload_text ''projectId'' j, payload_text ''scanId'' j) of
        (Some u, Some p, Some s) \<Rightarrow>
          if u \<noteq> [] \<and> p \<noteq> [] \<and> s \<noteq> []
          then db\<lparr>jd_environments := update_row (\<lambda>e. es_user e = u \<and> es_project e = p \<and> es_scan e = Some s)
                 (\<lambda>e. e\<lparr>es_status := ''failed'', es_error := Some error, es_updated := now\<rparr>) (jd_environments db)\<rparr>
          else db
      | _ \<Rightarrow> db)"

definition fail_job ::
  "string \<Rightarrow> string \<Rightarrow> string \<Rightarrow> bool \<Rightarrow> job_db \<Rightarrow> job_error + evolution_job option \<times> job_db" where
  "fail_job i error now force db =
     (case get_job i db of
        None \<Rightarrow> Inr (None, db)
      | Some row \<Rightarrow>
          if ej_status row = JDeadLetter then Inr (Some row, db)
          else let dead = (force \<or> ej_max row \<le> ej_attempts row);
                   s = (if dead then JDeadLetter else JFailed)
               in bindE (checked_jobs (update_job i (\<lambda>j. j\<lparr>ej_status := s, ej_leased_until := None, ej_error := Some error, ej_updated := now\<rparr>) db))
                    (\<lambda>db1.
                  let db2 = (if dead \<and> ej_type row = ''l3_world_model_update'' then dead_world_update now row db1 else db1);
                      db3 = (if dead \<and> ej_type row = ''project_environment_profile'' then dead_profile error now row db2 else db2)
                  in Inr (get_job i db3, db3)))"

end
