(* ===== verification/Job_Facts.thy ===== *)
theory Job_Facts
  imports Job_Lease
begin

text \<open>
  The invariant of the table of jobs, which every operation keeps, and what a lease hands out.
\<close>

section \<open>Statements on rows\<close>

definition keeps_keys :: "(evolution_job \<Rightarrow> evolution_job) \<Rightarrow> bool" where
  "keeps_keys f \<longleftrightarrow> (\<forall>j. ej_id (f j) = ej_id j \<and> ej_type (f j) = ej_type j \<and> ej_dedupe (f j) = ej_dedupe j
     \<and> ej_scope (f j) = ej_scope j \<and> ej_seq (f j) = ej_seq j)"

lemma keeps_keysD:
  assumes "keeps_keys f"
  shows "ej_id (f j) = ej_id j" "ej_type (f j) = ej_type j" "ej_dedupe (f j) = ej_dedupe j"
    "ej_scope (f j) = ej_scope j" "ej_seq (f j) = ej_seq j"
  using assms by (simp_all add: keeps_keys_def)

lemma keeps_keys_changes [simp]:
  "keeps_keys (leased_job now u)" "keeps_keys (completed_job now)" "keeps_keys (given_back now)" "keeps_keys (back_in_queue now)"
  by (simp_all add: keeps_keys_def leased_job_def completed_job_def given_back_def back_in_queue_def)

lemma keeps_keys_merged [simp]: "keeps_keys (merged_job pd j)"
  by (simp add: keeps_keys_def merged_job_def)

lemma keeps_keys_if: "keeps_keys f \<Longrightarrow> keeps_keys (\<lambda>j. if P j then f j else j)"
  by (simp add: keeps_keys_def)

lemma jobs_update_job [simp]: "jd_jobs (update_job i f db) = update_row (\<lambda>j. ej_id j = i) f (jd_jobs db)"
  by (simp add: update_job_def)

lemma update_job_rest [simp]:
  "jd_retries (update_job i f db) = jd_retries db" "jd_processing (update_job i f db) = jd_processing db"
  "jd_memories (update_job i f db) = jd_memories db" "jd_targets (update_job i f db) = jd_targets db"
  "jd_batches (update_job i f db) = jd_batches db" "jd_environments (update_job i f db) = jd_environments db"
  by (simp_all add: update_job_def)

text \<open>Statements on rows with different keys are one statement on all of them.\<close>

lemma jobs_update_each:
  assumes "keeps_keys f" and "distinct (map ej_id rows)"
  shows "jd_jobs (update_each f rows db) = update_row (\<lambda>j. ej_id j \<in> ej_id ` set rows) f (jd_jobs db)"
  using assms
proof (induction rows arbitrary: db)
  case Nil
  then show ?case by (simp add: update_each_def update_row_def)
next
  case (Cons r rs)
  have "jd_jobs (update_each f (r # rs) db) = jd_jobs (update_each f rs (update_job (ej_id r) f db))"
    by (simp add: update_each_def)
  also have "\<dots> = update_row (\<lambda>j. ej_id j \<in> ej_id ` set rs) f (update_row (\<lambda>j. ej_id j = ej_id r) f (jd_jobs db))"
    using Cons by simp
  also have "\<dots> = update_row (\<lambda>j. ej_id j \<in> ej_id ` set (r # rs)) f (jd_jobs db)"
    using Cons.prems keeps_keysD(1) [of f] by (auto simp: update_row_def)
  finally show ?case .
qed

lemma update_each_rest [simp]:
  "jd_retries (update_each f rows db) = jd_retries db" "jd_processing (update_each f rows db) = jd_processing db"
  "jd_memories (update_each f rows db) = jd_memories db" "jd_targets (update_each f rows db) = jd_targets db"
  "jd_batches (update_each f rows db) = jd_batches db" "jd_environments (update_each f rows db) = jd_environments db"
  unfolding update_each_def by (induction rows arbitrary: db) simp_all

lemma set_update_row: "set (update_row P f js) = (\<lambda>j. if P j then f j else j) ` set js"
  by (simp add: update_row_def)

lemma map_id_update_row: "keeps_keys f \<Longrightarrow> map ej_id (update_row P f js) = map ej_id js"
  by (simp add: update_row_def keeps_keys_def)

lemma in_update_row:
  "j \<in> set (update_row P f js) \<longleftrightarrow> (\<exists>k\<in>set js. j = (if P k then f k else k))"
  by (auto simp: set_update_row)

section \<open>The invariant\<close>

definition job_ok :: "evolution_job \<Rightarrow> bool" where
  "job_ok j \<longleftrightarrow> 0 \<le> ej_attempts j \<and> ej_attempts j \<le> ej_max j \<and> 1 \<le> ej_max j
     \<and> (ej_status j = JLeased \<longleftrightarrow> ej_leased_until j \<noteq> None) \<and> (ej_status j = JLeased \<longrightarrow> 1 \<le> ej_attempts j)
     \<and> (ej_status j \<in> {JQueued, JFailed} \<longrightarrow> ej_attempts j < ej_max j)"

definition one_leased :: "evolution_job list \<Rightarrow> bool" where
  "one_leased js \<longleftrightarrow> (\<forall>a\<in>set js. \<forall>b\<in>set js. scope_type (ej_type a) \<longrightarrow> same_queue a b \<longrightarrow> ej_status a = JLeased \<longrightarrow> ej_status b = JLeased \<longrightarrow> ej_id a = ej_id b)"

definition jobs_ok :: "evolution_job list \<Rightarrow> bool" where
  "jobs_ok js \<longleftrightarrow> no_clashes js \<and> list_all job_ok js \<and> one_leased js"

lemma no_clashes_distinct: "no_clashes js \<Longrightarrow> distinct (map ej_id js)"
  unfolding no_clashes_def by (induction js) (auto simp: clashes_def)

lemma clashes_sym: "clashes a b \<Longrightarrow> clashes b a"
  unfolding clashes_def by metis

lemma no_clashesD:
  assumes "no_clashes js" "a \<in> set js" "b \<in> set js" "clashes a b"
  shows "a = b"
  using assms unfolding no_clashes_def
  by (induction js) (auto dest: clashes_sym)

lemma same_id_eq: "no_clashes js \<Longrightarrow> a \<in> set js \<Longrightarrow> b \<in> set js \<Longrightarrow> ej_id a = ej_id b \<Longrightarrow> a = b"
  by (rule no_clashesD) (auto simp: clashes_def)

lemma row_of_id:
  assumes "no_clashes js" "set rows \<subseteq> set js" "j \<in> set js" "ej_id j \<in> ej_id ` set rows"
  shows "j \<in> set rows"
proof -
  obtain r where r: "r \<in> set rows" "ej_id j = ej_id r" using assms(4) by blast
  then have "j = r" using same_id_eq [OF assms(1,3)] assms(2) by blast
  then show ?thesis using r by simp
qed

lemma get_job_Some: "get_job i db = Some j \<Longrightarrow> j \<in> set (jd_jobs db) \<and> ej_id j = i"
  by (auto simp: get_job_def find_Some_iff)

lemma get_job_row: "no_clashes (jd_jobs db) \<Longrightarrow> j \<in> set (jd_jobs db) \<Longrightarrow> get_job (ej_id j) db = Some j"
  unfolding get_job_def using same_id_eq [of "jd_jobs db"]
  by (cases "find (\<lambda>k. ej_id k = ej_id j) (jd_jobs db)") (auto simp: find_None_iff find_Some_iff)

text \<open>A change of status that makes no job active keeps the indexes.\<close>

lemma no_clashes_update:
  assumes js: "no_clashes js" and f: "keeps_keys f"
    and act: "\<And>j. j \<in> set js \<Longrightarrow> P j \<Longrightarrow> active_status (ej_status (f j)) \<Longrightarrow> active_status (ej_status j)"
  shows "no_clashes (update_row P f js)"
proof -
  let ?g = "\<lambda>j. if P j then f j else j"
  note g = keeps_keysD [OF keeps_keys_if [OF f, of P]]
  have act': "active_status (ej_status j)" if "j \<in> set js" "active_status (ej_status (?g j))" for j
    using act [of j] that by (cases "P j") simp_all
  have *: "clashes a b" if "a \<in> set js" "b \<in> set js" "clashes (?g a) (?g b)" for a b
    using that(3) act' [OF that(1)] act' [OF that(2)] unfolding clashes_def g by blast
  show ?thesis
    unfolding no_clashes_def update_row_def sorted_wrt_map
    by (rule sorted_wrt_mono_rel [OF _ js [unfolded no_clashes_def]]) (use * in blast)
qed

lemma one_leased_update:
  assumes js: "one_leased js" and f: "keeps_keys f"
    and act: "\<And>j. j \<in> set js \<Longrightarrow> P j \<Longrightarrow> ej_status (f j) = JLeased \<Longrightarrow> ej_status j = JLeased"
  shows "one_leased (update_row P f js)"
proof -
  let ?g = "\<lambda>j. if P j then f j else j"
  note g = keeps_keysD [OF keeps_keys_if [OF f, of P]]
  have act': "ej_status j = JLeased" if "j \<in> set js" "ej_status (?g j) = JLeased" for j
    using act [of j] that by (cases "P j") simp_all
  have *: "ej_id (?g a) = ej_id (?g b)"
    if "a \<in> set js" "b \<in> set js" "scope_type (ej_type (?g a))" "same_queue (?g a) (?g b)"
      "ej_status (?g a) = JLeased" "ej_status (?g b) = JLeased" for a b
    using that(3,4) act' [OF that(1,5)] act' [OF that(2,6)] js that(1,2)
    unfolding one_leased_def same_queue_def g by blast
  show ?thesis
    unfolding one_leased_def by (simp only: set_update_row ball_simps) (use * in blast)
qed

lemma jobs_ok_update:
  assumes js: "jobs_ok js" and f: "keeps_keys f"
    and active: "\<And>j. j \<in> set js \<Longrightarrow> P j \<Longrightarrow> active_status (ej_status (f j)) \<Longrightarrow> active_status (ej_status j)"
    and leased: "\<And>j. j \<in> set js \<Longrightarrow> P j \<Longrightarrow> ej_status (f j) = JLeased \<Longrightarrow> ej_status j = JLeased"
    and row: "\<And>j. j \<in> set js \<Longrightarrow> P j \<Longrightarrow> job_ok j \<Longrightarrow> job_ok (f j)"
  shows "jobs_ok (update_row P f js)"
  unfolding jobs_ok_def
proof (intro conjI)
  show "no_clashes (update_row P f js)"
    using no_clashes_update [OF _ f active] js by (simp add: jobs_ok_def)
  show "list_all job_ok (update_row P f js)"
    using js row by (auto simp: jobs_ok_def list_all_iff set_update_row)
  show "one_leased (update_row P f js)"
    using one_leased_update [OF _ f leased] js by (simp add: jobs_ok_def)
qed

section \<open>Operations that change rows in place\<close>

lemma select_jobs_set [simp]: "set (select_jobs db P) = {j \<in> set (jd_jobs db). P j}"
  by (simp add: select_jobs_def)

lemma distinct_ids_select:
  assumes "no_clashes (jd_jobs db)"
  shows "distinct (map ej_id (select_jobs db P))"
proof -
  have "mset (map ej_id (select_jobs db P)) = mset (map ej_id (filter P (jd_jobs db)))"
    by (simp add: select_jobs_def)
  then show ?thesis
    using no_clashes_distinct [OF assms] distinct_map_filter [of ej_id] by (metis mset_eq_imp_distinct_iff)
qed

lemma jobs_ok_complete: "jobs_ok (jd_jobs db) \<Longrightarrow> jobs_ok (jd_jobs (snd (complete_job i now db)))"
  by (auto simp: complete_job_def completed_job_def active_status_def job_ok_def keeps_keys_def Let_def intro!: jobs_ok_update)

lemma job_ok_given_back: "job_ok j \<Longrightarrow> job_ok (given_back now j)"
  by (auto simp: job_ok_def given_back_def)

lemma jobs_ok_defer: "jobs_ok (jd_jobs db) \<Longrightarrow> jobs_ok (jd_jobs (snd (defer_job i t now db)))"
  by (auto simp: defer_job_def given_back_def active_status_def job_ok_def keeps_keys_def Let_def intro!: jobs_ok_update
      split: if_splits)

lemma jobs_ok_update_each:
  assumes js: "jobs_ok (jd_jobs db)" and rows: "set rows \<subseteq> set (jd_jobs db)" "distinct (map ej_id rows)"
    and f: "keeps_keys f"
    and active: "\<And>j. j \<in> set rows \<Longrightarrow> active_status (ej_status j)"
    and leased: "\<And>j. ej_status (f j) \<noteq> JLeased"
    and row: "\<And>j. j \<in> set rows \<Longrightarrow> job_ok j \<Longrightarrow> job_ok (f j)"
  shows "jobs_ok (jd_jobs (update_each f rows db))"
  unfolding jobs_update_each [OF f rows(2)]
proof (rule jobs_ok_update [OF js f])
  fix j assume "j \<in> set (jd_jobs db)" and "ej_id j \<in> ej_id ` set rows"
  then have j: "j \<in> set rows" using row_of_id [of "jd_jobs db" rows] js rows(1) by (simp add: jobs_ok_def)
  then show "active_status (ej_status j)" by (rule active)
  show "job_ok (f j)" if "job_ok j" by (rule row [OF j that])
qed (use leased in auto)

lemma jobs_ok_requeue:
  assumes "jobs_ok (jd_jobs db)" and "set rows \<subseteq> set (jd_jobs db)" and "distinct (map ej_id rows)" and "keeps_keys f"
    and "\<And>j. j \<in> set rows \<Longrightarrow> active_status (ej_status j)"
    and "\<And>j. ej_status (f j) \<noteq> JLeased" and "\<And>j. j \<in> set rows \<Longrightarrow> job_ok j \<Longrightarrow> job_ok (f j)"
  shows "jobs_ok (jd_jobs (snd (requeue_rows f rows db)))"
  using jobs_ok_update_each [OF assms] by (simp add: requeue_rows_def)

lemma given_back_not_leased: "ej_status (given_back now j) \<noteq> JLeased"
  by (simp add: given_back_def)

lemma jobs_ok_give_back:
  assumes "jobs_ok (jd_jobs db)" and "\<And>j. P j \<Longrightarrow> ej_status j = JLeased"
  shows "jobs_ok (jd_jobs (snd (requeue_leased_where P now db)))"
  unfolding requeue_leased_where_def
  by (rule jobs_ok_requeue)
    (use assms in \<open>auto simp: jobs_ok_def active_status_def given_back_not_leased intro: job_ok_given_back distinct_ids_select\<close>)

lemma jobs_ok_restart: "jobs_ok (jd_jobs db) \<Longrightarrow> jobs_ok (jd_jobs (snd (requeue_after_restart now db)))"
  using jobs_ok_give_back [of db "\<lambda>j. ej_status j = JLeased"] by (simp add: requeue_after_restart_def requeue_leased_where_def)

lemma jobs_ok_unstarted: "jobs_ok (jd_jobs db) \<Longrightarrow> jobs_ok (jd_jobs (snd (requeue_unstarted ids now db)))"
  by (auto simp: requeue_unstarted_def intro: jobs_ok_give_back)

lemma jobs_ok_expired: "jobs_ok (jd_jobs db) \<Longrightarrow> jobs_ok (jd_jobs (snd (requeue_expired_except ts now db)))"
  by (auto simp: requeue_expired_except_def lease_expired_def intro: jobs_ok_give_back)

lemma jobs_ok_requeue_failed: "jobs_ok (jd_jobs db) \<Longrightarrow> jobs_ok (jd_jobs (snd (requeue_failed n now ts db)))"
proof -
  assume js: "jobs_ok (jd_jobs db)"
  let ?P = "\<lambda>j. ej_status j = JFailed \<and> ej_attempts j < ej_max j \<and> targets_ok ts j"
  have rows: "set (take n (select_jobs db ?P)) \<subseteq> {j \<in> set (jd_jobs db). ?P j}"
    using set_take_subset [of n "select_jobs db ?P"] by simp
  have "distinct (map ej_id (take n (select_jobs db ?P)))"
    using js distinct_ids_select [of db ?P] by (simp add: jobs_ok_def take_map [symmetric])
  then have "jobs_ok (jd_jobs (snd (requeue_rows (back_in_queue now) (take n (select_jobs db ?P)) db)))"
    using js rows by (intro jobs_ok_requeue) (auto simp: active_status_def back_in_queue_def job_ok_def)
  then show ?thesis using js by (simp add: requeue_failed_def)
qed

section \<open>Adding and failing\<close>

lemma checked_jobs_Inr [error_simps]: "checked_jobs db = Inr db' \<longleftrightarrow> db' = db \<and> no_clashes (jd_jobs db)"
  by (auto simp: checked_jobs_def)

definition fresh_job :: "evolution_job \<Rightarrow> bool" where
  "fresh_job j \<longleftrightarrow> ej_status j = JQueued \<and> ej_attempts j = 0 \<and> 1 \<le> ej_max j \<and> ej_leased_until j = None"

lemma jobs_ok_insert:
  assumes "insert_job j db = Inr db'" and "jobs_ok (jd_jobs db)" and "fresh_job j"
  shows "jobs_ok (jd_jobs db')"
  using assms unfolding jobs_ok_def insert_job_def
  by (auto simp: error_simps fresh_job_def job_ok_def one_leased_def)

lemma job_ok_merged: "job_ok r \<Longrightarrow> job_ok (merged_job pd j r)"
  by (auto simp: job_ok_def merged_job_def)

lemma jobs_ok_enqueue:
  assumes js: "jobs_ok (jd_jobs db)" and j: "fresh_job j" and run: "enqueue_job pd j db = Inr (k, db')"
  shows "jobs_ok (jd_jobs db')"
proof (cases "case ej_dedupe j of None \<Rightarrow> None | Some k \<Rightarrow> if k = [] then None else get_active_by_dedupe k db")
  case None
  then show ?thesis using run jobs_ok_insert [OF _ js j] by (auto simp: enqueue_job_def error_simps)
next
  case (Some row)
  then have "db' = update_job (ej_id row) (merged_job pd j) db"
    using run by (simp add: enqueue_job_def Let_def)
  then show ?thesis
    using js by (auto intro!: jobs_ok_update job_ok_merged simp: merged_job_def active_status_def split: if_splits)
qed

lemma jobs_ok_immutable:
  assumes "jobs_ok (jd_jobs db)" and "1 \<le> ej_max j" and "ej_leased_until j = None" and "insert_immutable_job j db = Inr db'"
  shows "jobs_ok (jd_jobs db')"
  using assms jobs_ok_insert [of j db db'] by (auto simp: insert_immutable_job_def Let_def error_simps fresh_job_def)

lemma jobs_ok_arm:
  assumes "jobs_ok (jd_jobs db)" and "arm_idle_flush i s u l r now db = Inr db'"
  shows "jobs_ok (jd_jobs db')"
proof (cases "get_job_by_dedupe (''work_memory_idle_flush:'' @ s) db")
  case None
  note run = assms(2) [unfolded arm_idle_flush_def Let_def None option.case]
  show ?thesis by (rule jobs_ok_insert [OF run assms(1)]) (simp add: fresh_job_def)
next
  case (Some row)
  let ?f = "\<lambda>r'. r'\<lparr>ej_status := JQueued, ej_payload := [(''lastActivityAt'', JStr l), (''runAfter'', JStr r)],
      ej_attempts := 0, ej_leased_until := None, ej_error := None, ej_updated := now\<rparr>"
  have db': "jd_jobs db' = update_row (\<lambda>j. ej_id j = ej_id row) ?f (jd_jobs db)" "no_clashes (jd_jobs db')"
    using assms(2) Some by (auto simp: arm_idle_flush_def Let_def error_simps)
  have "one_leased (jd_jobs db')"
    unfolding db'(1) by (rule one_leased_update) (use assms(1) in \<open>auto simp: jobs_ok_def keeps_keys_def\<close>)
  moreover have "list_all job_ok (jd_jobs db')"
    using assms(1) unfolding db'(1) by (auto simp: jobs_ok_def list_all_iff set_update_row job_ok_def)
  ultimately show ?thesis using db'(2) by (simp add: jobs_ok_def)
qed

lemma dead_jobs [simp]:
  "jd_jobs (dead_world_update now j db) = jd_jobs db" "jd_jobs (dead_profile e now j db) = jd_jobs db"
  by (simp_all add: dead_world_update_def dead_profile_def update_batch_outcome_def split: option.splits)

lemma fail_job_jobs:
  assumes "fail_job i e now force db = Inr (r, db')" and "get_job i db = Some row" and "ej_status row \<noteq> JDeadLetter"
  shows "jd_jobs db' = update_row (\<lambda>j. ej_id j = i) (\<lambda>j. j\<lparr>ej_status := (if force \<or> ej_max row \<le> ej_attempts row then JDeadLetter else JFailed),
           ej_leased_until := None, ej_error := Some e, ej_updated := now\<rparr>) (jd_jobs db) \<and> no_clashes (jd_jobs db')"
  using assms by (auto simp: fail_job_def Let_def error_simps)

lemma jobs_ok_fail:
  assumes js: "jobs_ok (jd_jobs db)" and run: "fail_job i e now force db = Inr (r, db')"
  shows "jobs_ok (jd_jobs db')"
proof (cases "\<exists>row. get_job i db = Some row \<and> ej_status row \<noteq> JDeadLetter")
  case False
  then show ?thesis using js run by (auto simp: fail_job_def split: option.splits)
next
  case True
  then obtain row where row: "get_job i db = Some row" "ej_status row \<noteq> JDeadLetter" by blast
  note db' = fail_job_jobs [OF run row]
  have "one_leased (jd_jobs db')"
    unfolding db'[THEN conjunct1]
    by (rule one_leased_update) (use js in \<open>auto simp: jobs_ok_def keeps_keys_def split: if_splits\<close>)
  moreover have "list_all job_ok (jd_jobs db')"
    using js get_job_row [of db] row(1) unfolding db'[THEN conjunct1]
    by (auto simp: jobs_ok_def list_all_iff set_update_row job_ok_def)
  ultimately show ?thesis using db'[THEN conjunct2] unfolding jobs_ok_def by blast
qed

section \<open>Leasing\<close>

lemma cohort_subset: "set (cohort db rows) \<subseteq> set rows"
  by (auto simp: cohort_def split: list.splits)

lemma length_cohort: "length (cohort db rows) \<le> length rows"
  unfolding cohort_def by (cases rows) (simp, simp only: list.case length_filter_le)

lemma length_lease_rows: "length (lease_rows sql now q db) \<le> lr_limit q"
proof (cases "lr_cohort q")
  case True
  have "length (take (lr_limit q) (select_jobs db (leasable sql now q db))) \<le> lr_limit q" by simp
  then show ?thesis unfolding lease_rows_def Let_def if_P [OF True] by (rule order_trans [OF length_cohort])
qed (simp add: lease_rows_def)

lemma distinct_cohort: "distinct (map ej_id rows) \<Longrightarrow> distinct (map ej_id (cohort db rows))"
  unfolding cohort_def by (cases rows) (simp, simp only: list.case distinct_map_filter)

lemma lease_rows_subset: "set (lease_rows sql now q db) \<subseteq> {j \<in> set (jd_jobs db). leasable sql now q db j}"
proof -
  have "set (take (lr_limit q) (select_jobs db (leasable sql now q db))) \<subseteq> {j \<in> set (jd_jobs db). leasable sql now q db j}"
    using set_take_subset [of "lr_limit q" "select_jobs db (leasable sql now q db)"] by simp
  then show ?thesis unfolding lease_rows_def Let_def by (auto dest: subsetD [OF cohort_subset])
qed

lemma distinct_lease_rows:
  assumes "no_clashes (jd_jobs db)"
  shows "distinct (map ej_id (lease_rows sql now q db))"
proof -
  have "distinct (map ej_id (take (lr_limit q) (select_jobs db (leasable sql now q db))))"
    using distinct_ids_select [OF assms] by (simp add: take_map [symmetric])
  then show ?thesis unfolding lease_rows_def Let_def by (simp add: distinct_cohort)
qed

lemma lease_jobs_jobs:
  assumes "no_clashes (jd_jobs db)" and "lr_targets q \<noteq> Some []" and "lr_allowed q \<noteq> Some []"
  shows "jd_jobs (snd (lease_jobs sql now u q db)) =
    update_row (\<lambda>j. ej_id j \<in> ej_id ` set (lease_rows sql now q db)) (leased_job now u) (jd_jobs db)"
  using assms by (simp add: lease_jobs_def Let_def jobs_update_each distinct_lease_rows)

text \<open>Rows of one scope in the table have different numbers, so one of two comes first.\<close>

lemma same_queue_order:
  assumes "no_clashes js" and "a \<in> set js" "b \<in> set js" and "same_queue a b" and "ej_seq a \<noteq> None" "ej_seq b \<noteq> None"
    and "ej_id a \<noteq> ej_id b"
  shows "seq_before a b \<or> seq_before b a"
proof -
  have "ej_seq a \<noteq> ej_seq b"
    using no_clashesD [OF assms(1-3)] assms(4-7) unfolding clashes_def same_queue_def by metis
  then show ?thesis using assms(5,6) by (auto simp: seq_before_def)
qed

lemma scope_freeD:
  assumes "scope_free db j" and "scope_type (ej_type j)"
  shows "ej_scope j \<noteq> None" "ej_seq j \<noteq> None"
    and "k \<in> set (jd_jobs db) \<Longrightarrow> same_queue k j \<Longrightarrow> ej_status k = JLeased \<Longrightarrow> ej_id k = ej_id j"
    and "k \<in> set (jd_jobs db) \<Longrightarrow> same_queue k j \<Longrightarrow> seq_before k j \<Longrightarrow> \<not> active_status (ej_status k)"
  using assms unfolding scope_free_def list_ex_iff by blast+

lemma same_queue_sym: "same_queue a b \<Longrightarrow> same_queue b a"
  unfolding same_queue_def by metis

lemma leasable_active: "leasable sql now q db j \<Longrightarrow> active_status (ej_status j)"
  by (auto simp: leasable_def lease_expired_def active_status_def)

lemma one_lease_per_scope:
  assumes js: "no_clashes (jd_jobs db)" and a: "a \<in> set (jd_jobs db)" "leasable sql now q db a"
    and b: "b \<in> set (jd_jobs db)" "leasable sql now q db b" and ab: "same_queue a b" "scope_type (ej_type a)"
  shows "ej_id a = ej_id b"
proof (rule ccontr)
  assume ne: "ej_id a \<noteq> ej_id b"
  have free: "scope_free db a" "scope_free db b" using a b by (simp_all add: leasable_def)
  have tb: "scope_type (ej_type b)" using ab by (simp add: same_queue_def)
  have "seq_before a b \<or> seq_before b a"
    using same_queue_order [OF js a(1) b(1) ab(1) _ _ ne] scope_freeD(2) [OF free(1) ab(2)] scope_freeD(2) [OF free(2) tb] by blast
  then show False
    using scope_freeD(4) [OF free(2) tb a(1) ab(1)] scope_freeD(4) [OF free(1) ab(2) b(1) same_queue_sym [OF ab(1)]]
      leasable_active [OF a(2)] leasable_active [OF b(2)] by blast
qed

lemma one_leased_lease:
  assumes js: "jobs_ok (jd_jobs db)" and rows: "set rows \<subseteq> {j \<in> set (jd_jobs db). leasable sql now q db j}"
  shows "one_leased (update_row (\<lambda>j. ej_id j \<in> ej_id ` set rows) (leased_job now u) (jd_jobs db))"
    (is "one_leased (update_row ?P ?f _)")
proof -
  let ?g = "\<lambda>j. if ?P j then ?f j else j"
  note g = keeps_keysD [OF keeps_keys_if [OF keeps_keys_changes(1), of ?P now u]]
  have ok: "no_clashes (jd_jobs db)" "one_leased (jd_jobs db)" using js by (simp_all add: jobs_ok_def)
  have new: "leasable sql now q db j" if "j \<in> set (jd_jobs db)" "?P j" for j
    using row_of_id [OF ok(1) _ that] rows by blast
  have *: "ej_id a = ej_id b"
    if a: "a \<in> set (jd_jobs db)" and b: "b \<in> set (jd_jobs db)" and t: "scope_type (ej_type a)" and s: "same_queue a b"
      and la: "ej_status (?g a) = JLeased" and lb: "ej_status (?g b) = JLeased" for a b
  proof (cases "?P a")
    case Pa: True
    show ?thesis
    proof (cases "?P b")
      case True
      then show ?thesis using one_lease_per_scope [OF ok(1) a new [OF a Pa] b new [OF b True] s t] by blast
    next
      case False
      then show ?thesis
        using scope_freeD(3) [of db a b] new [OF a Pa] lb b t same_queue_sym [OF s] by (simp add: leasable_def)
    qed
  next
    case Pa: False
    have tb: "scope_type (ej_type b)" using t s by (simp add: same_queue_def)
    show ?thesis
    proof (cases "?P b")
      case True
      then show ?thesis using scope_freeD(3) [of db b a] new [OF b True] la a tb s Pa by (simp add: leasable_def)
    next
      case False
      then show ?thesis using ok(2) a b t s la lb Pa unfolding one_leased_def by simp
    qed
  qed
  show ?thesis
    unfolding one_leased_def by (simp only: set_update_row ball_simps same_queue_def g) (use * [unfolded same_queue_def] in blast)
qed

lemma jobs_ok_lease:
  assumes js: "jobs_ok (jd_jobs db)"
  shows "jobs_ok (jd_jobs (snd (lease_jobs sql now u q db)))"
proof (cases "lr_targets q = Some [] \<or> lr_allowed q = Some []")
  case True
  then show ?thesis using js by (simp add: lease_jobs_def)
next
  case False
  let ?rows = "lease_rows sql now q db" and ?js = "jd_jobs db"
  let ?P = "\<lambda>j. ej_id j \<in> ej_id ` set ?rows"
  have ok: "no_clashes ?js" "list_all job_ok ?js" using js by (simp_all add: jobs_ok_def)
  have new: "leasable sql now q db j" if "j \<in> set ?js" "?P j" for j
    using row_of_id [OF ok(1) _ that] lease_rows_subset [of sql now q db] by blast
  have "no_clashes (update_row ?P (leased_job now u) ?js)"
    by (rule no_clashes_update [OF ok(1) keeps_keys_changes(1)]) (rule leasable_active [OF new])
  moreover have "list_all job_ok (update_row ?P (leased_job now u) ?js)"
    using ok(2) new by (fastforce simp: list_all_iff set_update_row job_ok_def leased_job_def leasable_def)
  moreover have "one_leased (update_row ?P (leased_job now u) ?js)"
    by (rule one_leased_lease [OF js lease_rows_subset])
  ultimately show ?thesis
    using False lease_jobs_jobs [OF ok(1)] by (simp add: jobs_ok_def)
qed

end
