(* ===== verification/Job_Retry.thy ===== *)
theory Job_Retry
  imports Job_Facts
begin

text \<open>
  The queue of embeddings to try again (\<^verbatim>\<open>embedding_retry_queue\<close>), which several workers claim by compare and set, the
  states of the memories in processing, and the time of the next run (\<^verbatim>\<open>Memory/src/storage/repositories.ts\<close>). Times of this
  table are numbers of milliseconds.
\<close>

section \<open>The queue of retries\<close>

definition retry_backoff_ms :: "int \<Rightarrow> int" where
  "retry_backoff_ms attempt = min 3600000 (60000 * 2 ^ nat (max 0 (attempt - 1)))"

definition same_retry :: "embedding_retry \<Rightarrow> embedding_retry \<Rightarrow> bool" where
  "same_retry a b \<longleftrightarrow> rt_kind a = rt_kind b \<and> rt_target a = rt_target b \<and> rt_field a = rt_field b"

definition ended_retry :: "embedding_retry \<Rightarrow> bool" where
  "ended_retry r \<longleftrightarrow> rt_status r \<in> {RFailed, RSucceeded}"

definition merged_retry :: "embedding_retry \<Rightarrow> embedding_retry \<Rightarrow> embedding_retry" where
  "merged_retry new r = r\<lparr>rt_text := rt_text new, rt_role := rt_role new,
     rt_status := (if ended_retry r then RPending else rt_status r), rt_attempts := (if ended_retry r then 0 else rt_attempts r),
     rt_max := rt_max new, rt_next := min (rt_next r) (rt_next new), rt_claimed := None, rt_lease := None,
     rt_error := (if ended_retry r then None else rt_error r), rt_updated := rt_updated new\<rparr>"

definition new_retry :: "string \<Rightarrow> string \<Rightarrow> string \<Rightarrow> string \<Rightarrow> string \<Rightarrow> string option \<Rightarrow> int option \<Rightarrow> int \<Rightarrow> embedding_retry" where
  "new_retry i kind target field txt role max_attempts now =
     \<lparr>rt_id = i, rt_kind = kind, rt_target = target, rt_field = field, rt_text = (if txt = [] then ''(empty)'' else txt),
      rt_role = (case role of None \<Rightarrow> ''document'' | Some r \<Rightarrow> r), rt_status = RPending, rt_attempts = 0,
      rt_max = (case max_attempts of None \<Rightarrow> 6 | Some n \<Rightarrow> n), rt_next = now, rt_claimed = None, rt_lease = None, rt_error = None,
      rt_created = now, rt_updated = now\<rparr>"

definition get_retry :: "string \<Rightarrow> embedding_retry list \<Rightarrow> embedding_retry option" where
  "get_retry i = find (\<lambda>r. rt_id r = i)"

definition get_retry_by_target :: "embedding_retry \<Rightarrow> embedding_retry list \<Rightarrow> embedding_retry option" where
  "get_retry_by_target k = find (\<lambda>r. same_retry r k)"

text \<open>The insertion is an update where the target has a row; a key that is taken by another target is an error.\<close>

definition enqueue_retry :: "embedding_retry \<Rightarrow> embedding_retry list \<Rightarrow> job_error + embedding_retry list" where
  "enqueue_retry new rs =
     (if list_ex (\<lambda>r. same_retry r new) rs then Inr (update_row (\<lambda>r. same_retry r new) (merged_retry new) rs)
      else if list_ex (\<lambda>r. rt_id r = rt_id new) rs then Inl ConstraintViolation
      else Inr (rs @ [new]))"

definition restarted_retry :: "int \<Rightarrow> embedding_retry \<Rightarrow> embedding_retry" where
  "restarted_retry now r = r\<lparr>rt_status := RPending, rt_attempts := (if rt_status r = RFailed then 0 else rt_attempts r), rt_next := now,
     rt_claimed := None, rt_lease := None, rt_updated := now\<rparr>"

definition requeue_retries_after_restart :: "int \<Rightarrow> embedding_retry list \<Rightarrow> (embedding_retry \<times> embedding_retry) list \<times> embedding_retry list" where
  "requeue_retries_after_restart now rs =
     (let rows = sort_cmp (\<lambda>a b. then_cmp (rt_updated a - rt_updated b) (cmp_str (rt_id a) (rt_id b)))
                   (filter (\<lambda>r. rt_status r \<in> {RInProgress, RFailed}) rs)
      in (map (\<lambda>r. (r, restarted_retry now r)) rows,
          fold (\<lambda>r. update_row (\<lambda>k. rt_id k = rt_id r) (restarted_retry now)) rows rs))"

section \<open>Claims\<close>

text \<open>The order of the retries; a target without memory comes last within its class, as \<open>NULL\<close> is the least value.\<close>

definition retry_class :: "job_db \<Rightarrow> embedding_retry \<Rightarrow> int" where
  "retry_class db r = (case jd_memories db (rt_target r) of
     None \<Rightarrow> 2
   | Some m \<Rightarrow> if onboarding_memory m then - 100
       else if rt_kind r = ''trace'' \<and> interactive_memory m = Some True then 0
       else if rt_kind r = ''trace'' \<and> mv_layer m = ''L1'' \<and> agent_source_memory m = Some True then 1
       else 2)"

definition retry_created :: "job_db \<Rightarrow> embedding_retry \<Rightarrow> string option" where
  "retry_created db r = map_option mv_created (jd_memories db (rt_target r))"

definition cmp_text_option :: "string option \<Rightarrow> string option \<Rightarrow> int" where
  "cmp_text_option a b = (case (a, b) of (None, None) \<Rightarrow> 0 | (None, Some _) \<Rightarrow> - 1 | (Some _, None) \<Rightarrow> 1 | (Some s, Some t) \<Rightarrow> cmp_str s t)"

definition cmp_retry :: "job_db \<Rightarrow> embedding_retry \<Rightarrow> embedding_retry \<Rightarrow> int" where
  "cmp_retry db a b =
     then_cmp (retry_class db a - retry_class db b)
    (then_cmp (cmp_text_option (retry_created db b) (retry_created db a))
    (then_cmp (rt_next a - rt_next b) (rt_created a - rt_created b)))"

definition claimable :: "int \<Rightarrow> embedding_retry \<Rightarrow> bool" where
  "claimable now r \<longleftrightarrow>
     (rt_status r = RPending \<or> rt_status r = RInProgress \<and> (case rt_lease r of None \<Rightarrow> False | Some t \<Rightarrow> t \<le> now)) \<and> rt_next r \<le> now"

definition claimed_retry :: "int \<Rightarrow> string \<Rightarrow> int \<Rightarrow> embedding_retry \<Rightarrow> embedding_retry" where
  "claimed_retry now worker until r = r\<lparr>rt_status := RInProgress, rt_claimed := Some worker, rt_lease := Some until, rt_updated := now\<rparr>"

definition retry_limit :: "rat option \<Rightarrow> nat" where
  "retry_limit limit = nat (max 1 (min 200 \<lfloor>case limit of None \<Rightarrow> 25 | Some n \<Rightarrow> n\<rfloor>))"

text \<open>One statement per row, with the condition once more; its rows are those that it changed.\<close>

fun claim_rows :: "int \<Rightarrow> string \<Rightarrow> int \<Rightarrow> embedding_retry list \<Rightarrow> embedding_retry list \<Rightarrow> embedding_retry list \<times> embedding_retry list" where
  "claim_rows now worker until [] rs = ([], rs)"
| "claim_rows now worker until (r # rows) rs =
     (let P = (\<lambda>k. rt_id k = rt_id r \<and> claimable now k);
          (claimed, rs') = claim_rows now worker until rows (update_row P (claimed_retry now worker until) rs)
      in (if list_ex P rs then claimed_retry now worker until r # claimed else claimed, rs'))"

definition claim_due_retries ::
  "int \<Rightarrow> string \<Rightarrow> int \<Rightarrow> rat option \<Rightarrow> string list option \<Rightarrow> job_db \<Rightarrow> embedding_retry list \<times> job_db" where
  "claim_due_retries now worker until limit targets db =
     (if targets = Some [] then ([], db)
      else let rows = take (retry_limit limit) (sort_cmp (cmp_retry db)
               (filter (\<lambda>r. claimable now r \<and> (case targets of None \<Rightarrow> True | Some ts \<Rightarrow> rt_target r \<in> set ts)) (jd_retries db)));
               (claimed, rs) = claim_rows now worker until rows (jd_retries db)
           in (claimed, db\<lparr>jd_retries := rs\<rparr>))"

definition claim_holds :: "string \<Rightarrow> string \<Rightarrow> int \<Rightarrow> embedding_retry \<Rightarrow> bool" where
  "claim_holds i worker until r \<longleftrightarrow> rt_id r = i \<and> rt_status r = RInProgress \<and> rt_claimed r = Some worker \<and> rt_lease r = Some until"

definition claim_held :: "string \<Rightarrow> string \<Rightarrow> int \<Rightarrow> embedding_retry list \<Rightarrow> bool" where
  "claim_held i worker until = list_ex (claim_holds i worker until)"

definition mark_claimed ::
  "(embedding_retry \<Rightarrow> embedding_retry) \<Rightarrow> string \<Rightarrow> string \<Rightarrow> int \<Rightarrow> embedding_retry list \<Rightarrow> embedding_retry option \<times> embedding_retry list" where
  "mark_claimed f i worker until rs =
     (let rs' = update_row (claim_holds i worker until) f rs
      in (if claim_held i worker until rs then get_retry i rs' else None, rs'))"

definition mark_retry ::
  "int \<Rightarrow> int \<Rightarrow> string \<Rightarrow> int \<Rightarrow> string \<Rightarrow> string \<Rightarrow> int \<Rightarrow> embedding_retry list \<Rightarrow> embedding_retry option \<times> embedding_retry list" where
  "mark_retry attempts next error now = mark_claimed (\<lambda>r. r\<lparr>rt_status := RPending, rt_attempts := attempts, rt_next := next,
     rt_claimed := None, rt_lease := None, rt_error := Some error, rt_updated := now\<rparr>)"

definition mark_failed ::
  "int \<Rightarrow> string \<Rightarrow> int \<Rightarrow> string \<Rightarrow> string \<Rightarrow> int \<Rightarrow> embedding_retry list \<Rightarrow> embedding_retry option \<times> embedding_retry list" where
  "mark_failed attempts error now = mark_claimed (\<lambda>r. r\<lparr>rt_status := RFailed, rt_attempts := attempts,
     rt_claimed := None, rt_lease := None, rt_error := Some error, rt_updated := now\<rparr>)"

definition mark_succeeded ::
  "int \<Rightarrow> string \<Rightarrow> string \<Rightarrow> int \<Rightarrow> embedding_retry list \<Rightarrow> embedding_retry option \<times> embedding_retry list" where
  "mark_succeeded now = mark_claimed (\<lambda>r. r\<lparr>rt_status := RSucceeded, rt_next := now, rt_claimed := None, rt_lease := None, rt_updated := now\<rparr>)"

text \<open>\<open>failClaimedEmbeddingRetry\<close>; \<open>again\<close> is whether the error may be tried again.\<close>

definition fail_claimed_retry ::
  "embedding_retry \<Rightarrow> string \<Rightarrow> int \<Rightarrow> int \<Rightarrow> bool \<Rightarrow> string \<Rightarrow> int \<Rightarrow> embedding_retry list \<Rightarrow> embedding_retry option \<times> embedding_retry list" where
  "fail_claimed_retry r worker until attempt again message now rs =
     (if \<not> again \<or> rt_max r \<le> attempt then mark_failed attempt message now (rt_id r) worker until rs
      else mark_retry attempt (now + retry_backoff_ms attempt) message now (rt_id r) worker until rs)"

section \<open>The states of the memories in processing\<close>

definition get_processing :: "string \<Rightarrow> processing list \<Rightarrow> processing option" where
  "get_processing i = find (\<lambda>p. pr_memory p = i)"

definition save_processing :: "processing \<Rightarrow> processing list \<Rightarrow> processing list" where
  "save_processing p ps = (if list_ex (\<lambda>q. pr_memory q = pr_memory p) ps
     then update_row (\<lambda>q. pr_memory q = pr_memory p) (\<lambda>_. p) ps else ps @ [p])"

definition update_processing ::
  "string \<Rightarrow> (processing \<Rightarrow> processing) \<Rightarrow> processing_state list option \<Rightarrow> processing list \<Rightarrow> processing option \<times> processing list" where
  "update_processing i patch expected ps =
     (case get_processing i ps of
        None \<Rightarrow> (None, ps)
      | Some p \<Rightarrow>
          if (case expected of None \<Rightarrow> False | Some ss \<Rightarrow> pr_state p \<notin> set ss) then (None, ps)
          else let p' = (patch p)\<lparr>pr_memory := i\<rparr> in (Some p', save_processing p' ps))"

definition delete_processing :: "string \<Rightarrow> processing list \<Rightarrow> bool \<times> processing list" where
  "delete_processing i ps = (list_ex (\<lambda>p. pr_memory p = i) ps, filter (\<lambda>p. pr_memory p \<noteq> i) ps)"

definition auto_retry_scheduled :: "evolution_job list \<Rightarrow> processing \<Rightarrow> bool" where
  "auto_retry_scheduled js p \<longleftrightarrow> list_ex (\<lambda>j. pr_job p = Some (ej_id j) \<and> ej_status j \<in> {JFailed, JQueued} \<and> ej_error j \<noteq> None
     \<and> ej_attempts j < ej_max j) js"

section \<open>The next run\<close>

fun least_text :: "string list \<Rightarrow> string option" where
  "least_text [] = None"
| "least_text (t # ts) = (case least_text ts of None \<Rightarrow> Some t | Some u \<Rightarrow> Some (if t \<le> u then t else u))"

definition least_int :: "int list \<Rightarrow> int option" where
  "least_int ns = (case ns of [] \<Rightarrow> None | n # ns \<Rightarrow> Some (foldl min n ns))"

text \<open>\<open>parse_date\<close> is \<open>Date.parse\<close> where it gives a number.\<close>

definition next_worker_run_at ::
  "(string \<Rightarrow> int option) \<Rightarrow> string list option \<Rightarrow> string list \<Rightarrow> bool \<Rightarrow> job_db \<Rightarrow> int option" where
  "next_worker_run_at parse_date types excluded with_retries db =
     (let P = (\<lambda>j. ej_attempts j < ej_max j \<and> (case types of None \<Rightarrow> True | Some ts \<Rightarrow> ej_type j \<in> set ts) \<and> ej_type j \<notin> set excluded);
          queued = least_text (List.map_filter (payload_text ''runAfter'') (filter (\<lambda>j. ej_status j = JQueued \<and> P j) (jd_jobs db)));
          leased = least_text (List.map_filter ej_leased_until (filter (\<lambda>j. ej_status j = JLeased \<and> P j) (jd_jobs db)));
          pending = (if with_retries then least_int (map rt_next (filter (\<lambda>r. rt_status r = RPending) (jd_retries db))) else None);
          claimed = (if with_retries then least_int (List.map_filter (\<lambda>r. map_option (max (rt_next r)) (rt_lease r))
                       (filter (\<lambda>r. rt_status r = RInProgress) (jd_retries db))) else None)
      in least_int (List.map_filter id [Option.bind queued parse_date, Option.bind leased parse_date, pending, claimed]))"

section \<open>Claims exclude one another\<close>

lemma claimed_retry_reads [simp]: "rt_id (claimed_retry now w u r) = rt_id r" "rt_status (claimed_retry now w u r) = RInProgress"
  "rt_claimed (claimed_retry now w u r) = Some w" "rt_lease (claimed_retry now w u r) = Some u"
  by (simp_all add: claimed_retry_def)

lemma same_retry_id: "distinct (map rt_id rs) \<Longrightarrow> a \<in> set rs \<Longrightarrow> b \<in> set rs \<Longrightarrow> rt_id a = rt_id b \<Longrightarrow> a = b"
  by (metis distinct_map inj_onD)

text \<open>In one transaction every selected row is still claimable, so all of them are claimed.\<close>

lemma claim_rows_all:
  assumes "distinct (map rt_id rs)" and "set rows \<subseteq> set rs" and "distinct (map rt_id rows)" and "\<forall>r\<in>set rows. claimable now r"
  shows "claim_rows now w u rows rs =
    (map (claimed_retry now w u) rows, update_row (\<lambda>k. rt_id k \<in> rt_id ` set rows) (claimed_retry now w u) rs)"
  using assms
proof (induction rows arbitrary: rs)
  case Nil
  then show ?case by (simp add: update_row_def)
next
  case (Cons r rows)
  let ?f = "claimed_retry now w u" and ?P = "\<lambda>k. rt_id k = rt_id r \<and> claimable now k"
  have r: "r \<in> set rs" "claimable now r" using Cons.prems by auto
  have P: "?P k \<longleftrightarrow> rt_id k = rt_id r" if "k \<in> set rs" for k
    using same_retry_id [OF Cons.prems(1) that r(1)] r(2) by blast
  then have step: "update_row ?P ?f rs = map (\<lambda>k. if rt_id k = rt_id r then ?f k else k) rs"
    by (simp add: update_row_def)
  have ids: "map rt_id (update_row ?P ?f rs) = map rt_id rs" by (simp add: update_row_def)
  have sub: "set rows \<subseteq> set (update_row ?P ?f rs)"
  proof
    fix k assume k: "k \<in> set rows"
    then have "rt_id k \<in> rt_id ` set rows" by (rule imageI)
    then have "rt_id k \<noteq> rt_id r" using Cons.prems(3) by auto
    moreover have "k \<in> set rs" using Cons.prems(2) k by auto
    ultimately show "k \<in> set (update_row ?P ?f rs)" unfolding step by force
  qed
  have "claim_rows now w u rows (update_row ?P ?f rs) =
      (map ?f rows, update_row (\<lambda>k. rt_id k \<in> rt_id ` set rows) ?f (update_row ?P ?f rs))"
    by (rule Cons.IH) (use Cons.prems sub ids in auto)
  moreover have "update_row (\<lambda>k. rt_id k \<in> rt_id ` set rows) ?f (update_row ?P ?f rs) = update_row (\<lambda>k. rt_id k \<in> rt_id ` set (r # rows)) ?f rs"
    unfolding step using Cons.prems(3) by (auto simp: update_row_def)
  moreover have "list_ex ?P rs" using r by (auto simp: list_ex_iff)
  ultimately show ?case by simp
qed

lemma retry_limit_bound: "1 \<le> retry_limit l \<and> retry_limit l \<le> 200"
  by (auto simp: retry_limit_def)

lemma claim_due_rows:
  assumes ids: "distinct (map rt_id (jd_retries db))" and run: "claim_due_retries now w u limit targets db = (rows, db')"
  shows "\<exists>old. set old \<subseteq> set (jd_retries db) \<and> distinct (map rt_id old) \<and> length old \<le> 200
    \<and> (\<forall>k\<in>set old. claimable now k \<and> (\<forall>ts. targets = Some ts \<longrightarrow> rt_target k \<in> set ts))
    \<and> rows = map (claimed_retry now w u) old
    \<and> db' = db\<lparr>jd_retries := update_row (\<lambda>k. rt_id k \<in> rt_id ` set old) (claimed_retry now w u) (jd_retries db)\<rparr>"
proof (cases "targets = Some []")
  case True
  then show ?thesis using run by (intro exI [of _ "[]"]) (simp add: claim_due_retries_def update_row_def)
next
  case False
  let ?P = "\<lambda>r. claimable now r \<and> (case targets of None \<Rightarrow> True | Some ts \<Rightarrow> rt_target r \<in> set ts)"
  let ?all = "sort_cmp (cmp_retry db) (filter ?P (jd_retries db))"
  let ?old = "take (retry_limit limit) ?all"
  have sub: "set ?old \<subseteq> {k \<in> set (jd_retries db). ?P k}" using set_take_subset [of _ ?all] by auto
  have "mset (map rt_id ?all) = mset (map rt_id (filter ?P (jd_retries db)))" by simp
  from mset_eq_imp_distinct_iff [OF this] have "distinct (map rt_id ?all)" using distinct_map_filter [OF ids] by blast
  then have dist: "distinct (map rt_id ?old)" by (simp add: take_map [symmetric])
  have all: "claim_rows now w u ?old (jd_retries db) =
    (map (claimed_retry now w u) ?old, update_row (\<lambda>k. rt_id k \<in> rt_id ` set ?old) (claimed_retry now w u) (jd_retries db))"
    by (rule claim_rows_all [OF ids _ dist]) (use sub in auto)
  have "claim_due_retries now w u limit targets db =
      (let (claimed, rs) = claim_rows now w u ?old (jd_retries db) in (claimed, db\<lparr>jd_retries := rs\<rparr>))"
    unfolding claim_due_retries_def Let_def if_not_P [OF False] ..
  then have "rows = map (claimed_retry now w u) ?old"
    "db' = db\<lparr>jd_retries := update_row (\<lambda>k. rt_id k \<in> rt_id ` set ?old) (claimed_retry now w u) (jd_retries db)\<rparr>"
    using run unfolding all by simp_all
  moreover have "length ?old \<le> 200"
    using retry_limit_bound [of limit] by (simp add: min.coboundedI2)
  moreover have "\<forall>k\<in>set ?old. claimable now k \<and> (\<forall>ts. targets = Some ts \<longrightarrow> rt_target k \<in> set ts)" using sub by auto
  ultimately show ?thesis using dist sub by (intro exI [of _ ?old]) blast
qed

text \<open>
  C18: A worker claims at most 200 retries, each once, each due and waiting or with a claim that ran out; they are then its own in
  the table, and until their lease runs out no other claim gets them.
\<close>

theorem retry_claims_exclusive:
  assumes ids: "distinct (map rt_id (jd_retries db))" and run: "claim_due_retries now w u limit targets db = (rows, db')"
  shows "length rows \<le> 200 \<and> distinct (map rt_id rows)
    \<and> (\<forall>r\<in>set rows. r \<in> set (jd_retries db') \<and> rt_status r = RInProgress \<and> rt_claimed r = Some w \<and> rt_lease r = Some u
        \<and> claim_held (rt_id r) w u (jd_retries db')
        \<and> (\<exists>k\<in>set (jd_retries db). rt_id k = rt_id r \<and> rt_attempts k = rt_attempts r \<and> rt_next k \<le> now
             \<and> (rt_status k = RPending \<or> rt_status k = RInProgress \<and> (\<exists>t. rt_lease k = Some t \<and> t \<le> now))))
    \<and> (\<forall>k\<in>set (jd_retries db). rt_id k \<notin> rt_id ` set rows \<longrightarrow> k \<in> set (jd_retries db'))
    \<and> (\<forall>now' w' u' limit' targets' rows' db2. claim_due_retries now' w' u' limit' targets' db' = (rows', db2) \<longrightarrow> now' < u \<longrightarrow>
         rt_id ` set rows \<inter> rt_id ` set rows' = {})"
proof -
  let ?f = "claimed_retry now w u"
  obtain old where old: "set old \<subseteq> set (jd_retries db)" "distinct (map rt_id old)" "length old \<le> 200"
    "\<forall>k\<in>set old. claimable now k" "rows = map ?f old"
    "db' = db\<lparr>jd_retries := update_row (\<lambda>k. rt_id k \<in> rt_id ` set old) ?f (jd_retries db)\<rparr>"
    using claim_due_rows [OF ids run] by blast
  have rows_ids: "rt_id ` set rows = rt_id ` set old" unfolding old(5) by (simp add: image_image)
  have db': "jd_retries db' = map (\<lambda>k. if rt_id k \<in> rt_id ` set old then ?f k else k) (jd_retries db)"
    unfolding old(6) by (simp add: update_row_def)
  have ids': "distinct (map rt_id (jd_retries db'))"
  proof -
    have "map rt_id (jd_retries db') = map rt_id (jd_retries db)" unfolding db' by simp
    then show ?thesis using ids by simp
  qed
  have row: "r \<in> set (jd_retries db')" "rt_status r = RInProgress" "rt_claimed r = Some w" "rt_lease r = Some u"
      "\<exists>k\<in>set (jd_retries db). rt_id k = rt_id r \<and> rt_attempts k = rt_attempts r \<and> rt_next k \<le> now
             \<and> (rt_status k = RPending \<or> rt_status k = RInProgress \<and> (\<exists>t. rt_lease k = Some t \<and> t \<le> now))"
    if r: "r \<in> set rows" for r
  proof -
    obtain k where k: "k \<in> set old" "r = ?f k" using r unfolding old(5) by auto
    have kd: "k \<in> set (jd_retries db)" using k(1) old(1) by blast
    have "?f k = (if rt_id k \<in> rt_id ` set old then ?f k else k)" using k(1) by simp
    then show "r \<in> set (jd_retries db')" unfolding db' k(2) set_map using kd by (rule image_eqI)
    show "rt_status r = RInProgress" "rt_claimed r = Some w" "rt_lease r = Some u" by (simp_all add: k(2))
    have "claimable now k" using old(4) k(1) by blast
    then show "\<exists>k\<in>set (jd_retries db). rt_id k = rt_id r \<and> rt_attempts k = rt_attempts r \<and> rt_next k \<le> now
             \<and> (rt_status k = RPending \<or> rt_status k = RInProgress \<and> (\<exists>t. rt_lease k = Some t \<and> t \<le> now))"
      using kd by (intro bexI [OF _ kd]) (auto simp: k(2) claimable_def claimed_retry_def split: option.splits)
  qed
  have held: "claim_held (rt_id r) w u (jd_retries db')" if "r \<in> set rows" for r
    unfolding claim_held_def list_ex_iff claim_holds_def using row [OF that] by blast
  have rest: "k \<in> set (jd_retries db')" if k: "k \<in> set (jd_retries db)" "rt_id k \<notin> rt_id ` set rows" for k
  proof -
    have "k = (if rt_id k \<in> rt_id ` set old then ?f k else k)" using k(2) by (simp add: rows_ids)
    then show ?thesis unfolding db' set_map using k(1) by (rule image_eqI)
  qed
  have excl: "rt_id ` set rows \<inter> rt_id ` set rows' = {}"
    if run': "claim_due_retries now' w' u' limit' targets' db' = (rows', db2)" "now' < u" for now' w' u' limit' targets' rows' db2
  proof -
    obtain old' where old': "set old' \<subseteq> set (jd_retries db')" "\<forall>k\<in>set old'. claimable now' k" "rows' = map (claimed_retry now' w' u') old'"
      using claim_due_rows [OF ids' run'(1)] by blast
    have no: "rt_id r \<noteq> rt_id k" if r: "r \<in> set rows" and k: "k \<in> set old'" for r k
    proof
      assume "rt_id r = rt_id k"
      then have "k = r" using same_retry_id [OF ids' row(1) [OF r]] k old'(1) by blast
      then have "claimable now' r" using old'(2) k by blast
      then show False using row(2,4) [OF r] run'(2) by (simp add: claimable_def)
    qed
    have "rt_id ` set rows' = rt_id ` set old'" unfolding old'(3) by (simp add: image_image)
    then show ?thesis using no by blast
  qed
  have "length rows \<le> 200" "distinct (map rt_id rows)" using old(2,3) by (simp_all add: old(5) comp_def)
  then show ?thesis using row held rest excl by blast
qed

section \<open>Failures and stale workers\<close>

lemma retry_backoff_bounds: "60000 \<le> retry_backoff_ms n \<and> retry_backoff_ms n \<le> 3600000"
proof -
  have "(1 :: int) \<le> 2 ^ nat (max 0 (n - 1))" by simp
  then have "60000 \<le> 60000 * (2 :: int) ^ nat (max 0 (n - 1))" by linarith
  then show ?thesis by (simp add: retry_backoff_ms_def)
qed

lemma claim_holds_unique:
  assumes "distinct (map rt_id rs)" and "r \<in> set rs" and "claim_holds (rt_id r) w u r"
  shows "update_row (claim_holds (rt_id r) w u) f rs = map (\<lambda>k. if k = r then f r else k) rs"
proof -
  have "claim_holds (rt_id r) w u k \<longleftrightarrow> k = r" if "k \<in> set rs" for k
    using same_retry_id [OF assms(1) that assms(2)] assms(3) by (auto simp: claim_holds_def)
  then show ?thesis by (simp add: update_row_def)
qed

lemma get_retry_after:
  assumes "distinct (map rt_id rs)" and "r \<in> set rs" and "rt_id s = rt_id r"
  shows "get_retry (rt_id r) (map (\<lambda>k. if k = r then s else k) rs) = Some s"
  using assms
proof (induction rs)
  case (Cons k rs)
  show ?case
  proof (cases "k = r")
    case True
    then show ?thesis using Cons.prems(3) by (simp add: get_retry_def)
  next
    case False
    then have "r \<in> set rs" using Cons.prems(2) by simp
    then have "rt_id k \<noteq> rt_id r" using Cons.prems(1) by (metis distinct.simps(2) image_eqI list.simps(9) set_map)
    then show ?thesis using Cons False by (simp add: get_retry_def)
  qed
qed simp

text \<open>
  C19: A failed retry is written only by the worker that holds its claim. Then it waits between a minute and an hour, longer with
  every attempt, or has failed for good, when the error may not be tried again or no attempt is left; no other row changes. A
  worker whose claim ran out and was taken changes nothing.
\<close>

theorem retry_failure_spec:
  assumes "distinct (map rt_id rs)" and "r \<in> set rs" and "rt_status r = RInProgress"
    and "fail_claimed_retry r w u (rt_attempts r + 1) again msg now rs = (res, rs')"
  shows "if rt_claimed r = Some w \<and> rt_lease r = Some u
    then \<exists>s delay. res = Some s \<and> rs' = map (\<lambda>k. if k = r then s else k) rs \<and> rt_id s = rt_id r \<and> rt_attempts s = rt_attempts r + 1
        \<and> rt_claimed s = None \<and> rt_lease s = None \<and> rt_error s = Some msg
        \<and> delay = min 3600000 (60000 * 2 ^ nat (max 0 (rt_attempts r))) \<and> 60000 \<le> delay
        \<and> (if again \<and> rt_attempts r + 1 < rt_max r then rt_status s = RPending \<and> rt_next s = now + delay
           else rt_status s = RFailed)
    else res = None \<and> rs' = rs"
proof (cases "rt_claimed r = Some w \<and> rt_lease r = Some u")
  case True
  then have holds: "claim_holds (rt_id r) w u r" using assms(3) by (simp add: claim_holds_def)
  then have held: "claim_held (rt_id r) w u rs" using assms(2) by (auto simp: claim_held_def list_ex_iff)
  have mark: "mark_claimed f (rt_id r) w u rs = (Some (f r), map (\<lambda>k. if k = r then f r else k) rs)" if "rt_id (f r) = rt_id r" for f
    using held claim_holds_unique [OF assms(1,2) holds, of f] get_retry_after [OF assms(1,2) that] by (simp add: mark_claimed_def)
  show ?thesis
    using assms(4) True retry_backoff_bounds [of "rt_attempts r + 1"]
    by (cases "again \<and> rt_attempts r + 1 < rt_max r")
      (auto simp: fail_claimed_retry_def mark_failed_def mark_retry_def mark retry_backoff_ms_def)
next
  case False
  have none: "\<not> claim_holds (rt_id r) w u k" if "k \<in> set rs" for k
    using same_retry_id [OF assms(1) that assms(2)] False by (auto simp: claim_holds_def)
  then have "\<not> claim_held (rt_id r) w u rs" by (simp add: claim_held_def list_ex_iff)
  moreover have "update_row (claim_holds (rt_id r) w u) f rs = rs" for f
    using none by (simp add: update_row_def map_idI)
  ultimately have "mark_claimed f (rt_id r) w u rs = (None, rs)" for f by (simp add: mark_claimed_def)
  then show ?thesis
    using assms(4) False by (auto simp: fail_claimed_retry_def mark_failed_def mark_retry_def split: if_splits)
qed

text \<open>A retry that is queued again while a worker has claimed it keeps its state and loses its claim: nobody can claim it or end it.\<close>

lemma reenqueued_claim_stuck:
  assumes "r \<in> set rs" and "rt_status r = RInProgress" and "same_retry r new" and "enqueue_retry new rs = Inr rs'"
  shows "merged_retry new r \<in> set rs' \<and> rt_status (merged_retry new r) = RInProgress
    \<and> \<not> claimable now (merged_retry new r) \<and> \<not> claim_holds i w u (merged_retry new r)"
proof -
  have "list_ex (\<lambda>r. same_retry r new) rs" using assms(1,3) by (auto simp: list_ex_iff)
  then have "rs' = update_row (\<lambda>r. same_retry r new) (merged_retry new) rs" using assms(4) by (simp add: enqueue_retry_def)
  then have "merged_retry new r \<in> set rs'"
    using assms(1,3) by (auto simp: update_row_def intro!: image_eqI [of _ _ r])
  then show ?thesis using assms(2) by (simp add: merged_retry_def ended_retry_def claimable_def claim_holds_def)
qed

text \<open>
  After a restart no retry is claimed: every retry that was claimed or had failed waits and is due, a failed one with all its
  attempts, and the others are as they were.
\<close>

theorem retries_restart:
  assumes "distinct (map rt_id rs)"
  shows "snd (requeue_retries_after_restart now rs) = map (\<lambda>r.
      if rt_status r = RInProgress then r\<lparr>rt_status := RPending, rt_next := now, rt_claimed := None, rt_lease := None, rt_updated := now\<rparr>
      else if rt_status r = RFailed
      then r\<lparr>rt_status := RPending, rt_attempts := 0, rt_next := now, rt_claimed := None, rt_lease := None, rt_updated := now\<rparr>
      else r) rs"
proof -
  let ?P = "\<lambda>r. rt_status r \<in> {RInProgress, RFailed}" and ?f = "restarted_retry now"
  let ?rows = "sort_cmp (\<lambda>a b. then_cmp (rt_updated a - rt_updated b) (cmp_str (rt_id a) (rt_id b))) (filter ?P rs)"
  have each: "fold (\<lambda>r. update_row (\<lambda>k. rt_id k = rt_id r) ?f) rows ks = update_row (\<lambda>k. rt_id k \<in> rt_id ` set rows) ?f ks"
    if "distinct (map rt_id rows)" for rows ks
    using that
  proof (induction rows arbitrary: ks)
    case (Cons r rows)
    then show ?case by (auto simp: update_row_def restarted_retry_def)
  qed (simp add: update_row_def)
  have "mset (map rt_id ?rows) = mset (map rt_id (filter ?P rs))" by simp
  from mset_eq_imp_distinct_iff [OF this] have dist: "distinct (map rt_id ?rows)" using distinct_map_filter [OF assms] by blast
  have mem: "rt_id k \<in> rt_id ` set ?rows \<longleftrightarrow> ?P k" if k: "k \<in> set rs" for k
  proof
    assume "rt_id k \<in> rt_id ` set ?rows"
    then obtain r where "r \<in> set rs" "?P r" "rt_id k = rt_id r" by auto
    then show "?P k" using same_retry_id [OF assms k] by blast
  next
    assume "?P k"
    then have "k \<in> set ?rows" using k by simp
    then show "rt_id k \<in> rt_id ` set ?rows" by (rule imageI)
  qed
  have "snd (requeue_retries_after_restart now rs) = update_row (\<lambda>k. rt_id k \<in> rt_id ` set ?rows) ?f rs"
    unfolding requeue_retries_after_restart_def Let_def snd_conv by (rule each [OF dist])
  then show ?thesis using mem by (auto simp: update_row_def restarted_retry_def)
qed

end
