(* ===== verification/Job_Worker.thy ===== *)
theory Job_Worker
  imports Memory_Budget Job_Retry
begin

text \<open>
  One run of the worker of the memory service (\<^verbatim>\<open>Memory/src/service/worker/worker-runner.ts\<close>): it leases jobs, runs them
  through their handlers, ends every lease, and holds back what a paused token budget or a missing model forbids. The
  handlers, the embedder, the clock and the budget's state are the environment; the clock and the budget are read at ticks.
  What is run in parallel is run in order here. An error of the store itself ends the run.
\<close>

section \<open>The environment and the state of a run\<close>

text \<open>An error as \<^verbatim>\<open>sanitizeProcessingError\<close>, \<^verbatim>\<open>classifyProcessingError\<close> and \<^verbatim>\<open>shouldIsolateEmbeddingBatch\<close> see it.\<close>

record job_failure =
  jf_message :: string
  jf_sanitized :: string
  jf_code :: string
  jf_action :: retry_action
  jf_isolate :: bool

datatype job_outcome = JobDone | SummaryUnconfigured | DependenciesPending | JobError job_failure

datatype embed_role = Document | Query

record prepared_job =
  pj_job :: evolution_job
  pj_text :: string
  pj_role :: embed_role

type_synonym embedding_vector = "rat list"

record worker_env =
  we_paused :: "nat \<Rightarrow> bool"
  we_clock :: "nat \<Rightarrow> string"
  we_later :: "string \<Rightarrow> int \<Rightarrow> string"
  we_sources :: "model_sources option"
  we_summary_configured :: bool
  we_sql :: "json \<Rightarrow> string"
  we_process :: "evolution_job \<Rightarrow> job_db \<Rightarrow> job_outcome \<times> job_db"
  we_prepare :: "evolution_job \<Rightarrow> job_db \<Rightarrow> (job_failure + prepared_job option) \<times> job_db"
  we_embed :: "nat \<Rightarrow> string list \<Rightarrow> embed_role \<Rightarrow> job_failure + embedding_vector list"
  we_apply :: "prepared_job \<Rightarrow> embedding_vector \<Rightarrow> job_db \<Rightarrow> job_failure option \<times> job_db"
  we_retry_later :: "prepared_job \<Rightarrow> job_failure \<Rightarrow> job_db \<Rightarrow> bool \<times> job_db"
  we_backfill :: "nat \<Rightarrow> string \<Rightarrow> job_db \<Rightarrow> job_db"
  we_refresh :: "bool \<Rightarrow> string \<Rightarrow> job_db \<Rightarrow> job_db"

datatype job_change = Queued | Leased | Succeeded | Failed | DeadLetter

record worker_state =
  ws_db :: job_db
  ws_tick :: nat
  ws_changes :: "(job_change \<times> evolution_job) list"

record run_result =
  rr_succeeded :: nat
  rr_failed :: nat
  rr_job :: string
  rr_status :: job_status

definition ask_paused :: "worker_env \<Rightarrow> worker_state \<Rightarrow> bool \<times> worker_state" where
  "ask_paused env s = (we_paused env (ws_tick s), s\<lparr>ws_tick := ws_tick s + 1\<rparr>)"

definition read_now :: "worker_env \<Rightarrow> worker_state \<Rightarrow> string \<times> worker_state" where
  "read_now env s = (we_clock env (ws_tick s), s\<lparr>ws_tick := ws_tick s + 1\<rparr>)"

definition append_change :: "job_change \<Rightarrow> evolution_job \<Rightarrow> worker_state \<Rightarrow> worker_state" where
  "append_change op j s = s\<lparr>ws_changes := ws_changes s @ [(op, j)]\<rparr>"

definition set_processing :: "string \<Rightarrow> (processing \<Rightarrow> processing) \<Rightarrow> processing_state list \<Rightarrow> worker_state \<Rightarrow> worker_state" where
  "set_processing i patch states s =
     s\<lparr>ws_db := (ws_db s)\<lparr>jd_processing := snd (update_processing i patch (Some states) (jd_processing (ws_db s)))\<rparr>\<rparr>"

section \<open>Which jobs run when\<close>

definition summary_jobs_requiring_model :: "string list" where
  "summary_jobs_requiring_model = [''trace_summary'', ''import_summary'', ''observation_extract'', ''episode_title'']"

definition summary_jobs_held :: "worker_env \<Rightarrow> string list" where
  "summary_jobs_held env = (if we_summary_configured env then [] else summary_jobs_requiring_model)"

definition runs_in_parallel :: "evolution_job \<Rightarrow> bool" where
  "runs_in_parallel j \<longleftrightarrow> ej_type j \<in> {''trace_summary'', ''import_summary'', ''observation_extract'', ''embedding'',
     ''l3_world_model_update'', ''project_environment_profile''}"

definition stage_for_job :: "string \<Rightarrow> processing_stage option" where
  "stage_for_job t = (if t \<in> {''trace_summary'', ''import_summary'', ''observation_extract''} then Some SummaryStage
     else if t = ''embedding'' then Some EmbeddingStage else None)"

text \<open>\<open>===\<close> on values read from two different texts of JSON.\<close>

definition strictly_same :: "json option \<Rightarrow> json option \<Rightarrow> bool" where
  "strictly_same a b \<longleftrightarrow> a = b \<and> (case a of Some (JObj _) \<Rightarrow> False | Some (JArr _) \<Rightarrow> False | _ \<Rightarrow> True)"

definition job_matches_memory :: "evolution_job \<Rightarrow> memory_view \<Rightarrow> bool" where
  "job_matches_memory j m \<longleftrightarrow>
     (case payload_text ''contentHash'' j of None \<Rightarrow> True | Some h \<Rightarrow> h = [] \<or> mv_hash m = Some h)
     \<and> (let g = map_of (ej_payload j) ''observationGeneration'' in g = None \<or> strictly_same g (mv_generation m))
     \<and> strictly_same (map_of (ej_payload j) ''externalSkillGeneration'') (mv_skill_generation m)"

definition matching_memory :: "evolution_job \<Rightarrow> worker_state \<Rightarrow> (string \<times> memory_view) option" where
  "matching_memory j s = (case ej_target j of
     None \<Rightarrow> None
   | Some i \<Rightarrow> (case jd_memories (ws_db s) i of None \<Rightarrow> None | Some m \<Rightarrow> if job_matches_memory j m then Some (i, m) else None))"

section \<open>The ends of a leased job\<close>

definition unconfigured_code :: string where
  "unconfigured_code = ''summary_model_unconfigured''"

definition unconfigured_message :: string where
  "unconfigured_message = ''Configure a summary model to process Computer History into useful memory.''"

definition summary_states :: "processing_state list" where "summary_states = [SummaryPending, Summarizing]"
definition embedding_states :: "processing_state list" where "embedding_states = [EmbeddingPending, Embedding]"

definition mark_processing_leased :: "worker_env \<Rightarrow> evolution_job \<Rightarrow> worker_state \<Rightarrow> worker_state" where
  "mark_processing_leased env j s =
     (case (stage_for_job (ej_type j), matching_memory j s) of
        (Some st, Some (i, m)) \<Rightarrow>
          (let waited = (case get_processing i (jd_processing (ws_db s)) of None \<Rightarrow> False | Some p \<Rightarrow> pr_code p = Some unconfigured_code);
               (now, s) = read_now env s
           in set_processing i (\<lambda>p. let p' = p\<lparr>pr_state := (if st = SummaryStage then Summarizing else Embedding), pr_stage := Some st,
                    pr_job := Some (ej_id j), pr_attempts := ej_attempts j, pr_updated := now\<rparr>
                in if waited then p'\<lparr>pr_action := ActRetry, pr_code := None, pr_message := None, pr_failed_at := None\<rparr> else p')
                (if st = SummaryStage then summary_states else embedding_states) s)
      | _ \<Rightarrow> s)"

definition with_jobs :: "job_db \<Rightarrow> worker_state \<Rightarrow> worker_state" where
  "with_jobs db s = s\<lparr>ws_db := db\<rparr>"

definition complete_leased :: "worker_env \<Rightarrow> evolution_job \<Rightarrow> worker_state \<Rightarrow> run_result \<times> worker_state" where
  "complete_leased env j s =
     (let (now, s) = read_now env s;
          (row, db) = complete_job (ej_id j) now (ws_db s);
          (after, s) = (case row of Some r \<Rightarrow> (r, s)
             | None \<Rightarrow> (let (now, s) = read_now env s in (completed_job now j, s)))
      in (\<lparr>rr_succeeded = 1, rr_failed = 0, rr_job = ej_id j, rr_status = JSucceeded\<rparr>,
          append_change Succeeded after (with_jobs db s)))"

definition after_failure :: "worker_env \<Rightarrow> evolution_job \<Rightarrow> job_failure \<Rightarrow> worker_state \<Rightarrow> worker_state" where
  "after_failure env j e s =
     (case (stage_for_job (ej_type j), matching_memory j s) of
        (Some st, Some (i, m)) \<Rightarrow>
          if get_processing i (jd_processing (ws_db s)) = None then s
          else let dead = (ej_status j = JDeadLetter); (failed_at, s) = read_now env s; (now, s) = read_now env s in
            if dead \<and> st = EmbeddingStage \<and> jf_code e = ''model_input_too_long''
            then set_processing i (\<lambda>p. p\<lparr>pr_state := ReadyTextOnly, pr_stage := None, pr_job := None, pr_attempts := ej_attempts j,
                   pr_action := ActNone, pr_code := Some (jf_code e), pr_message := Some (jf_sanitized e), pr_failed_at := Some failed_at,
                   pr_updated := now\<rparr>) (embedding_states @ [ProcessingFailed]) s
            else set_processing i (\<lambda>p. p\<lparr>pr_state := (if dead then ProcessingFailed
                     else if st = SummaryStage then SummaryPending else EmbeddingPending),
                   pr_stage := Some st, pr_job := (if dead then None else Some (ej_id j)), pr_attempts := ej_attempts j,
                   pr_action := (if dead then jf_action e else ActRetry), pr_code := Some (jf_code e),
                   pr_message := Some (jf_sanitized e), pr_failed_at := Some failed_at, pr_updated := now\<rparr>)
                   ((if st = SummaryStage then summary_states else embedding_states) @ [ProcessingFailed]) s
      | _ \<Rightarrow> s)"

type_synonym 'a run = "(job_error \<times> worker_state) + ('a \<times> worker_state)"

definition fail_leased :: "worker_env \<Rightarrow> evolution_job \<Rightarrow> job_failure \<Rightarrow> worker_state \<Rightarrow> run_result run" where
  "fail_leased env j e s =
     (let stage = stage_for_job (ej_type j);
          message = (if stage = None then jf_message e else jf_sanitized e);
          force = (jf_code e = ''40309'' \<or> stage \<noteq> None \<and> jf_action e \<noteq> ActRetry);
          (now, s) = read_now env s
      in case fail_job (ej_id j) message now force (ws_db s) of
           Inl err \<Rightarrow> Inl (err, s)
         | Inr (row, db) \<Rightarrow>
             (let (failed, s) = (case row of Some r \<Rightarrow> (r, s)
                | None \<Rightarrow> (let (now, s) = read_now env s in
                    (j\<lparr>ej_status := JFailed, ej_leased_until := None, ej_error := Some message, ej_updated := now\<rparr>, s)));
                  dead = (ej_status failed = JDeadLetter);
                  s = append_change (if dead then DeadLetter else Failed) failed (with_jobs db s)
              in Inr (\<lparr>rr_succeeded = 0, rr_failed = 1, rr_job = ej_id j, rr_status = (if dead then JDeadLetter else JFailed)\<rparr>,
                      after_failure env failed e s)))"

definition defer_leased :: "worker_env \<Rightarrow> evolution_job \<Rightarrow> worker_state \<Rightarrow> run_result \<times> worker_state" where
  "defer_leased env j s =
     (let (now, s) = read_now env s;
          (row, db) = defer_job (ej_id j) (we_later env now 30000) now (ws_db s);
          deferred = (case row of Some r \<Rightarrow> r | None \<Rightarrow> j);
          s = with_jobs db s;
          s = (case matching_memory j s of
                 None \<Rightarrow> s
               | Some (i, m) \<Rightarrow> set_processing i (\<lambda>p. p\<lparr>pr_state := SummaryPending, pr_stage := Some SummaryStage, pr_job := Some (ej_id j),
                    pr_attempts := ej_attempts deferred, pr_updated := now\<rparr>) summary_states s)
      in (\<lparr>rr_succeeded = 0, rr_failed = 0, rr_job = ej_id deferred, rr_status = JQueued\<rparr>, append_change Queued deferred s))"

definition give_back :: "worker_env \<Rightarrow> evolution_job list \<Rightarrow> worker_state \<Rightarrow> worker_state" where
  "give_back env js s =
     (if js = [] then s
      else let (now, s) = read_now env s;
               (pairs, db) = requeue_unstarted (map ej_id js) now (ws_db s)
           in fold (\<lambda>p. append_change Queued (snd p)) pairs (with_jobs db s))"

definition hold_unconfigured :: "worker_env \<Rightarrow> evolution_job \<Rightarrow> worker_state \<Rightarrow> run_result \<times> worker_state" where
  "hold_unconfigured env j s =
     (let s = give_back env [j] s;
          s = (case ej_target j of
                 None \<Rightarrow> s
               | Some i \<Rightarrow>
                   (let observed = (case jd_memories (ws_db s) i of None \<Rightarrow> False | Some m \<Rightarrow> mv_observation m); (now, s) = read_now env s
                    in set_processing i (\<lambda>p. let p' = p\<lparr>pr_state := SummaryPending, pr_stage := Some SummaryStage, pr_job := Some (ej_id j),
                           pr_code := None, pr_message := None, pr_failed_at := None, pr_updated := now\<rparr>
                         in if observed then p'\<lparr>pr_action := ActOpenSettings, pr_code := Some unconfigured_code,
                              pr_message := Some unconfigured_message\<rparr> else p') summary_states s))
      in (\<lparr>rr_succeeded = 0, rr_failed = 0, rr_job = ej_id j, rr_status = JQueued\<rparr>, s))"

section \<open>Running leased jobs\<close>

definition run_leased :: "worker_env \<Rightarrow> evolution_job \<Rightarrow> worker_state \<Rightarrow> run_result run" where
  "run_leased env j s =
     (let s = mark_processing_leased env j (append_change Leased j s);
          (out, db) = we_process env j (ws_db s);
          s = with_jobs db s
      in case out of
           JobDone \<Rightarrow> Inr (complete_leased env j s)
         | SummaryUnconfigured \<Rightarrow> Inr (hold_unconfigured env j s)
         | DependenciesPending \<Rightarrow> Inr (defer_leased env j s)
         | JobError e \<Rightarrow> fail_leased env j e s)"

text \<open>A loop that collects results.\<close>

fun collect :: "('a \<Rightarrow> worker_state \<Rightarrow> run_result run) \<Rightarrow> 'a list \<Rightarrow> worker_state \<Rightarrow> run_result list run" where
  "collect f [] s = Inr ([], s)"
| "collect f (x # xs) s = bindE (f x s) (\<lambda>(r, s). bindE (collect f xs s) (\<lambda>(rs, s). Inr (r # rs, s)))"

fun prepare_all :: "worker_env \<Rightarrow> evolution_job list \<Rightarrow> worker_state \<Rightarrow> (run_result list \<times> prepared_job list) run" where
  "prepare_all env [] s = Inr (([], []), s)"
| "prepare_all env (j # js) s =
     (let s = mark_processing_leased env j (append_change Leased j s);
          (item, db) = we_prepare env j (ws_db s);
          s = with_jobs db s
      in bindE (case item of
           Inl e \<Rightarrow> bindE (fail_leased env j e s) (\<lambda>(r, s). Inr (([r], []), s))
         | Inr None \<Rightarrow> (let (r, s) = complete_leased env j s in Inr (([r], []), s))
         | Inr (Some p) \<Rightarrow> Inr (([], [p]), s)) (\<lambda>((rs, ps), s).
         bindE (prepare_all env js s) (\<lambda>((rs', ps'), s). Inr ((rs @ rs', ps @ ps'), s))))"

definition embed_text :: "prepared_job \<Rightarrow> string" where
  "embed_text p = (if pj_text p = [] then ''(empty)'' else pj_text p)"

definition ask_embedder :: "worker_env \<Rightarrow> string list \<Rightarrow> embed_role \<Rightarrow> worker_state \<Rightarrow> (job_failure + embedding_vector list) \<times> worker_state" where
  "ask_embedder env txts role s = (we_embed env (ws_tick s) txts role, s\<lparr>ws_tick := ws_tick s + 1\<rparr>)"

definition apply_vector :: "worker_env \<Rightarrow> prepared_job \<Rightarrow> embedding_vector \<Rightarrow> worker_state \<Rightarrow> job_failure option \<times> worker_state" where
  "apply_vector env p v s = (let (e, db) = we_apply env p v (ws_db s) in (e, with_jobs db s))"

definition finish_failed_item :: "worker_env \<Rightarrow> job_failure \<Rightarrow> prepared_job \<Rightarrow> worker_state \<Rightarrow> run_result run" where
  "finish_failed_item env e p s =
     (if jf_action e \<noteq> ActRetry then fail_leased env (pj_job p) e s
      else let (queued, db) = we_retry_later env p e (ws_db s); s = with_jobs db s
           in if queued then Inr (complete_leased env (pj_job p) s) else fail_leased env (pj_job p) e s)"

definition finish_item :: "worker_env \<Rightarrow> prepared_job \<times> embedding_vector \<Rightarrow> worker_state \<Rightarrow> run_result run" where
  "finish_item env pv s =
     (let (p, v) = pv; (e, s) = apply_vector env p v s
      in case e of None \<Rightarrow> Inr (complete_leased env (pj_job p) s) | Some e \<Rightarrow> fail_leased env (pj_job p) e s)"

definition run_item_alone :: "worker_env \<Rightarrow> prepared_job \<Rightarrow> worker_state \<Rightarrow> run_result run" where
  "run_item_alone env p s =
     (let (got, s) = ask_embedder env [embed_text p] (pj_role p) s
      in case got of
           Inl e \<Rightarrow> finish_failed_item env e p s
         | Inr vs \<Rightarrow>
             (let (e, s) = apply_vector env p (case vs of [] \<Rightarrow> [] | v # _ \<Rightarrow> v) s
              in case e of None \<Rightarrow> Inr (complete_leased env (pj_job p) s) | Some e \<Rightarrow> finish_failed_item env e p s))"

text \<open>The vectors of a batch, with \<open>[]\<close> where the embedder gave too few.\<close>

definition with_vectors :: "prepared_job list \<Rightarrow> embedding_vector list \<Rightarrow> (prepared_job \<times> embedding_vector) list" where
  "with_vectors ps vs = map (\<lambda>(i, p). (p, if i < length vs then vs ! i else [])) (zip [0..<length ps] ps)"

definition embed_role_batch :: "worker_env \<Rightarrow> embed_role \<Rightarrow> prepared_job list \<Rightarrow> worker_state \<Rightarrow> run_result list run" where
  "embed_role_batch env role prepared s =
     (let batch = filter (\<lambda>p. pj_role p = role) prepared in
      if batch = [] then Inr ([], s)
      else let (got, s) = ask_embedder env (map embed_text batch) role s
           in case got of
                Inr vs \<Rightarrow> collect (finish_item env) (with_vectors batch vs) s
              | Inl e \<Rightarrow> if 1 < length batch \<and> jf_isolate e then collect (run_item_alone env) batch s
                  else collect (finish_failed_item env e) batch s)"

definition run_leased_embeddings :: "worker_env \<Rightarrow> evolution_job list \<Rightarrow> worker_state \<Rightarrow> run_result list run" where
  "run_leased_embeddings env js s =
     bindE (prepare_all env js s) (\<lambda>((rs, prepared), s).
     bindE (embed_role_batch env Document prepared s) (\<lambda>(rs1, s).
     bindE (embed_role_batch env Query prepared s) (\<lambda>(rs2, s). Inr (rs @ rs1 @ rs2, s))))"

definition consumes :: "worker_env \<Rightarrow> string \<Rightarrow> bool" where
  "consumes env t = job_type_consumes t (we_sources env)"

function run_chunks :: "worker_env \<Rightarrow> string \<Rightarrow> bool \<Rightarrow> evolution_job list \<Rightarrow> worker_state \<Rightarrow> run_result list run" where
  "run_chunks env t first batch s =
     (if batch = [] then Inr ([], s)
      else let (paused, s) = (if first then (False, s) else ask_paused env s) in
        if paused \<and> consumes env t then Inr ([], give_back env batch s)
        else bindE (collect (run_leased env) (take 4 batch) s) (\<lambda>(rs, s).
             bindE (run_chunks env t False (drop 4 batch) s) (\<lambda>(rs', s). Inr (rs @ rs', s))))"
  by pat_completeness auto
termination by (relation "measure (\<lambda>(env, t, first, batch, s). length batch)") auto

declare run_chunks.simps [simp del]

definition held_jobs :: "worker_env \<Rightarrow> bool \<Rightarrow> evolution_job list \<Rightarrow> evolution_job list" where
  "held_jobs env paused queue = (if paused then filter (\<lambda>j. consumes env (ej_type j)) queue else [])"

definition free_jobs :: "worker_env \<Rightarrow> bool \<Rightarrow> evolution_job list \<Rightarrow> evolution_job list" where
  "free_jobs env paused queue = (if paused then filter (\<lambda>j. \<not> consumes env (ej_type j)) queue else queue)"

lemma free_jobs_less: "free_jobs env paused queue = j # rest \<Longrightarrow> length rest < length queue"
  using length_filter_le [of "\<lambda>j. \<not> consumes env (ej_type j)" queue] by (cases paused) (simp_all add: free_jobs_def)

lemma free_jobs_drop:
  assumes "free_jobs env paused queue = j # rest"
  shows "length (dropWhile (\<lambda>k. ej_type k = ej_type j) (j # rest)) < length queue"
  using free_jobs_less [OF assms] length_dropWhile_le [of "\<lambda>k. ej_type k = ej_type j" rest] by simp

function drain :: "worker_env \<Rightarrow> evolution_job list \<Rightarrow> worker_state \<Rightarrow> run_result list run" where
  "drain env queue s =
     (if queue = [] then Inr ([], s)
      else let (paused, s) = ask_paused env s;
               s = give_back env (held_jobs env paused queue) s
           in case free_jobs env paused queue of
                [] \<Rightarrow> Inr ([], s)
              | j # rest \<Rightarrow>
                  if runs_in_parallel j
                  then let t = ej_type j; batch = takeWhile (\<lambda>k. ej_type k = t) (j # rest); rest' = dropWhile (\<lambda>k. ej_type k = t) (j # rest);
                           (paused, s) = ask_paused env s
                       in if paused \<and> consumes env t then drain env rest' (give_back env batch s)
                          else bindE (if t = ''embedding'' then run_leased_embeddings env batch s else run_chunks env t True batch s) (\<lambda>(rs, s).
                               bindE (drain env rest' s) (\<lambda>(rs', s). Inr (rs @ rs', s)))
                  else bindE (run_leased env j s) (\<lambda>(r, s). bindE (drain env rest s) (\<lambda>(rs, s). Inr (r # rs, s))))"
  by pat_completeness auto
termination
  by (relation "measure (\<lambda>(env, queue, s). length queue)") (auto dest: free_jobs_less free_jobs_drop)

declare drain.simps [simp del]

section \<open>A run of the worker\<close>

record run_request =
  rq_limit :: rat
  rq_targets :: "string list option"
  rq_cohort :: bool

definition normalized_limit :: "rat \<Rightarrow> nat" where
  "normalized_limit n = nat (max 1 \<lfloor>n\<rfloor>)"

definition changes_queued :: "(evolution_job \<times> evolution_job) list \<Rightarrow> worker_state \<Rightarrow> worker_state" where
  "changes_queued pairs s = fold (\<lambda>p. append_change Queued (snd p)) pairs s"

text \<open>What comes before the lease: old failures are queued again, and expired leases that the budget forbids are given back.\<close>

definition before_lease :: "worker_env \<Rightarrow> run_request \<Rightarrow> worker_state \<Rightarrow> worker_state" where
  "before_lease env rq s =
     (let n = normalized_limit (rq_limit rq);
          (backfill, s) = (if rq_targets rq = None \<and> we_summary_configured env
             then (let (paused, s) = ask_paused env s in (\<not> paused, s)) else (False, s));
          s = (if backfill then (let (now, s) = read_now env s in with_jobs (we_backfill env (min n 100) now (ws_db s)) s) else s);
          (now, s) = read_now env s;
          (pairs, db) = requeue_failed n now (rq_targets rq) (ws_db s);
          (now, s) = read_now env (changes_queued pairs (with_jobs db s))
      in with_jobs (we_refresh env (we_summary_configured env) now (ws_db s)) s)"

definition lease_for_run :: "worker_env \<Rightarrow> run_request \<Rightarrow> worker_state \<Rightarrow> evolution_job list \<times> worker_state" where
  "lease_for_run env rq s =
     (let (paused, s) = ask_paused env s;
          allowed = (if paused then Some (allowed_job_types (we_sources env)) else None);
          s = (if paused then (let (now, s) = read_now env s;
                  (pairs, db) = requeue_expired_except (allowed_job_types (we_sources env)) now (ws_db s)
                in changes_queued pairs (with_jobs db s)) else s);
          (now, s) = read_now env s;
          (now', s) = read_now env s;
          (jobs, db) = lease_jobs (we_sql env) now (we_later env now' 60000)
             \<lparr>lr_limit = normalized_limit (rq_limit rq), lr_targets = rq_targets rq, lr_cohort = rq_cohort rq, lr_allowed = allowed,
              lr_excluded = summary_jobs_held env\<rparr> (ws_db s)
      in (jobs, with_jobs db s))"

definition run_worker_jobs :: "worker_env \<Rightarrow> run_request \<Rightarrow> worker_state \<Rightarrow> (evolution_job list \<times> run_result list) run" where
  "run_worker_jobs env rq s =
     (let (jobs, s) = lease_for_run env rq (before_lease env rq s)
      in bindE (drain env jobs s) (\<lambda>(rs, s). Inr ((jobs, rs), s)))"

text \<open>The time at which the worker wants to run again.\<close>

definition worker_next_run ::
  "worker_env \<Rightarrow> (string \<Rightarrow> int option) \<Rightarrow> bool \<Rightarrow> int \<Rightarrow> int option \<Rightarrow> worker_state \<Rightarrow> int option \<times> worker_state" where
  "worker_next_run env parse_date add_enabled midnight reconcile s =
     (if \<not> add_enabled then (None, s)
      else let (paused, s) = ask_paused env s;
               scheduled = (if paused
                 then next_worker_run_at parse_date (Some (filter (\<lambda>t. t \<notin> set (summary_jobs_held env)) (allowed_job_types (we_sources env)))) []
                        (\<not> consumes env ''embedding'') (ws_db s)
                 else next_worker_run_at parse_date None (summary_jobs_held env) True (ws_db s))
           in (least_int (List.map_filter id [scheduled, if paused then Some midnight else None, reconcile]), s))"

end
