(* ===== verification/Job_Queue.thy ===== *)
theory Job_Queue
  imports Job_Facts
begin

text \<open>
  The runs of the queue: the steps that the service takes on the table in any order, and what holds after all of them.
\<close>

section \<open>Steps\<close>

inductive queue_step :: "(string \<Rightarrow> rat option) \<Rightarrow> (json \<Rightarrow> string) \<Rightarrow> job_db \<Rightarrow> job_db \<Rightarrow> bool"
  for parse_date sql
where
  step_enqueue: "fresh_job j \<Longrightarrow> enqueue_job parse_date j db = Inr (k, db') \<Longrightarrow> queue_step parse_date sql db db'"
| step_immutable: "1 \<le> ej_max j \<Longrightarrow> ej_leased_until j = None \<Longrightarrow> insert_immutable_job j db = Inr db' \<Longrightarrow> queue_step parse_date sql db db'"
| step_insert: "fresh_job j \<Longrightarrow> insert_job j db = Inr db' \<Longrightarrow> queue_step parse_date sql db db'"
| step_arm: "arm_idle_flush i s u l r now db = Inr db' \<Longrightarrow> queue_step parse_date sql db db'"
| step_lease: "lease_jobs sql now until q db = (rows, db') \<Longrightarrow> queue_step parse_date sql db db'"
| step_complete: "complete_job i now db = (j', db') \<Longrightarrow> queue_step parse_date sql db db'"
| step_defer: "defer_job i t now db = (j', db') \<Longrightarrow> queue_step parse_date sql db db'"
| step_fail: "fail_job i e now force db = Inr (j', db') \<Longrightarrow> queue_step parse_date sql db db'"
| step_requeue_failed: "requeue_failed n now ts db = (pairs, db') \<Longrightarrow> queue_step parse_date sql db db'"
| step_restart: "requeue_after_restart now db = (pairs, db') \<Longrightarrow> queue_step parse_date sql db db'"
| step_unstarted: "requeue_unstarted ids now db = (pairs, db') \<Longrightarrow> queue_step parse_date sql db db'"
| step_expired: "requeue_expired_except types now db = (pairs, db') \<Longrightarrow> queue_step parse_date sql db db'"
| step_elsewhere: "jd_jobs db' = jd_jobs db \<Longrightarrow> queue_step parse_date sql db db'"

lemma queue_step_ok:
  assumes "queue_step parse_date sql db db'" and "jobs_ok (jd_jobs db)"
  shows "jobs_ok (jd_jobs db')"
  using assms
proof (cases rule: queue_step.cases)
  case step_enqueue
  then show ?thesis using jobs_ok_enqueue assms(2) by blast
next
  case step_immutable
  then show ?thesis using jobs_ok_immutable assms(2) by blast
next
  case step_insert
  then show ?thesis using jobs_ok_insert assms(2) by blast
next
  case step_arm
  then show ?thesis using jobs_ok_arm assms(2) by blast
next
  case (step_lease now until q rows)
  then show ?thesis using jobs_ok_lease [OF assms(2), of sql now until q] by simp
next
  case (step_complete i now j')
  then show ?thesis using jobs_ok_complete [OF assms(2), of i now] by simp
next
  case (step_defer i t now j')
  then show ?thesis using jobs_ok_defer [OF assms(2), of i t now] by simp
next
  case step_fail
  then show ?thesis using jobs_ok_fail assms(2) by blast
next
  case (step_requeue_failed n now ts pairs)
  then show ?thesis using jobs_ok_requeue_failed [OF assms(2), of n now ts] by simp
next
  case (step_restart now pairs)
  then show ?thesis using jobs_ok_restart [OF assms(2), of now] by simp
next
  case (step_unstarted ids now pairs)
  then show ?thesis using jobs_ok_unstarted [OF assms(2), of ids now] by simp
next
  case (step_expired types now pairs)
  then show ?thesis using jobs_ok_expired [OF assms(2), of types now] by simp
next
  case step_elsewhere
  then show ?thesis using assms(2) by simp
qed

lemma queue_run_ok: "(queue_step parse_date sql)\<^sup>*\<^sup>* db db' \<Longrightarrow> jobs_ok (jd_jobs db) \<Longrightarrow> jobs_ok (jd_jobs db')"
  by (induction rule: rtranclp_induct) (auto intro: queue_step_ok)

lemma jobs_ok_empty: "jobs_ok []"
  by (simp add: jobs_ok_def no_clashes_def one_leased_def)


lemma ids_meet:
  assumes "ej_id ` A \<inter> ej_id ` B \<noteq> {}"
  shows "\<exists>a\<in>A. \<exists>b\<in>B. ej_id b = ej_id a"
proof -
  obtain x where x: "x \<in> ej_id ` A" "x \<in> ej_id ` B" using assms by blast
  obtain a where "a \<in> A" "x = ej_id a" using x(1) by (rule imageE)
  moreover obtain b where "b \<in> B" "x = ej_id b" using x(2) by (rule imageE)
  ultimately show ?thesis by auto
qed

section \<open>What a lease hands out\<close>

lemma leased_jobs_of:
  assumes "lease_jobs sql now u q db = (rows, db')"
  shows "(lr_targets q = Some [] \<or> lr_allowed q = Some []) \<and> rows = [] \<and> db' = db
    \<or> lr_targets q \<noteq> Some [] \<and> lr_allowed q \<noteq> Some [] \<and> rows = map (leased_job now u) (lease_rows sql now q db)
      \<and> db' = update_each (leased_job now u) (lease_rows sql now q db) db"
  using assms unfolding lease_jobs_def Let_def by (cases "lr_targets q = Some [] \<or> lr_allowed q = Some []") simp_all

lemma ids_leased [simp]: "ej_id ` leased_job now u ` A = ej_id ` A" "map ej_id (map (leased_job now u) js) = map ej_id js"
  by (simp_all add: image_image leased_job_def)

text \<open>
  C11: A lease hands out no more than the limit, no job twice; every job it gives was queued or had a lease that ran out, had an
  attempt left, was due and of an allowed type; before a job of a numbered scope, all jobs with lower numbers of that scope have
  ended, and none else of the scope is leased. The table has the handed out rows, and no other row has changed.
\<close>

theorem lease_spec:
  assumes js: "jobs_ok (jd_jobs db)" and run: "lease_jobs sql now u q db = (rows, db')"
  shows "length rows \<le> lr_limit q \<and> distinct (map ej_id rows)
    \<and> (\<forall>r\<in>set rows. \<exists>j\<in>set (jd_jobs db).
        r = j\<lparr>ej_status := JLeased, ej_attempts := ej_attempts j + 1, ej_leased_until := Some u, ej_updated := now\<rparr>
        \<and> (ej_status j = JQueued \<or> ej_status j = JLeased \<and> (\<exists>t. ej_leased_until j = Some t \<and> t \<le> now)) \<and> ej_attempts j < ej_max j
        \<and> (\<forall>t. map_of (ej_payload j) ''runAfter'' = Some (JStr t) \<longrightarrow> t \<le> now)
        \<and> (\<forall>ts. lr_allowed q = Some ts \<longrightarrow> ej_type j \<in> set ts) \<and> ej_type j \<notin> set (lr_excluded q)
        \<and> (ej_type j \<in> {''l3_world_model_update'', ''work_memory_extract''} \<longrightarrow>
             (\<forall>k\<in>set (jd_jobs db). ej_type k = ej_type j \<and> ej_scope k = ej_scope j \<and> ej_id k \<noteq> ej_id j \<longrightarrow>
                ej_status k \<noteq> JLeased
                \<and> (\<forall>m n. ej_seq k = Some m \<longrightarrow> ej_seq j = Some n \<longrightarrow> m < n \<longrightarrow> ej_status k \<in> {JSucceeded, JDeadLetter}))))
    \<and> jd_jobs db' = map (\<lambda>j. if ej_id j \<in> ej_id ` set rows
          then j\<lparr>ej_status := JLeased, ej_attempts := ej_attempts j + 1, ej_leased_until := Some u, ej_updated := now\<rparr> else j) (jd_jobs db)"
proof (cases "lr_targets q = Some [] \<or> lr_allowed q = Some []")
  case True
  then show ?thesis using leased_jobs_of [OF run] by auto
next
  case False
  let ?rows = "lease_rows sql now q db"
  have rows: "rows = map (leased_job now u) ?rows" and db': "db' = update_each (leased_job now u) ?rows db"
    using leased_jobs_of [OF run] False by blast+
  have nc: "no_clashes (jd_jobs db)" using js by (simp add: jobs_ok_def)
  have len: "length rows \<le> lr_limit q"
    unfolding rows by (simp add: length_lease_rows)
  have jobs: "jd_jobs db' = update_row (\<lambda>j. ej_id j \<in> ej_id ` set rows) (leased_job now u) (jd_jobs db)"
    unfolding db' rows using jobs_update_each [OF _ distinct_lease_rows [OF nc]] by simp
  have given: "\<exists>j\<in>set (jd_jobs db). r = leased_job now u j \<and> leasable sql now q db j" if "r \<in> set rows" for r
    using that lease_rows_subset [of sql now q db] unfolding rows by auto
  have scope: "ej_status k \<noteq> JLeased
      \<and> (\<forall>m n. ej_seq k = Some m \<longrightarrow> ej_seq j = Some n \<longrightarrow> m < n \<longrightarrow> ej_status k \<in> {JSucceeded, JDeadLetter})"
    if j: "leasable sql now q db j" "ej_type j \<in> {''l3_world_model_update'', ''work_memory_extract''}"
      and k: "k \<in> set (jd_jobs db)" "ej_type k = ej_type j \<and> ej_scope k = ej_scope j \<and> ej_id k \<noteq> ej_id j" for j k
  proof -
    have free: "scope_free db j" using j by (simp add: leasable_def)
    have t: "scope_type (ej_type j)" using j(2) by (simp add: scope_type_def)
    have s: "same_queue k j" using k scope_freeD(1) [OF free t] by (simp add: same_queue_def)
    have "\<not> active_status (ej_status k)" if "ej_seq k = Some m" "ej_seq j = Some n" "m < n" for m n
      using scope_freeD(4) [OF free t k(1) s] that by (simp add: seq_before_def)
    then show ?thesis
      using scope_freeD(3) [OF free t k(1) s] k(2) by (cases "ej_status k") (auto simp: active_status_def)
  qed
  have due: "t \<le> now" if "leasable sql now q db j" "map_of (ej_payload j) ''runAfter'' = Some (JStr t)" for j t
    using that by (simp add: leasable_def run_due_def payload_cast_def)
  have old: "ej_status j = JQueued \<or> ej_status j = JLeased \<and> (\<exists>t. ej_leased_until j = Some t \<and> t \<le> now)"
    if "leasable sql now q db j" for j
    using that by (auto simp: leasable_def lease_expired_def split: option.splits)
  have other: "ej_attempts j < ej_max j" "\<And>ts. lr_allowed q = Some ts \<Longrightarrow> ej_type j \<in> set ts" "ej_type j \<notin> set (lr_excluded q)"
    if "leasable sql now q db j" for j
    using that by (auto simp: leasable_def)
  show ?thesis
  proof (intro conjI ballI)
    show "distinct (map ej_id rows)" unfolding rows ids_leased by (rule distinct_lease_rows [OF nc])
  next
    fix r assume "r \<in> set rows"
    then obtain j where j: "j \<in> set (jd_jobs db)" "r = leased_job now u j" "leasable sql now q db j" using given by blast
    show "\<exists>j\<in>set (jd_jobs db). r = j\<lparr>ej_status := JLeased, ej_attempts := ej_attempts j + 1, ej_leased_until := Some u, ej_updated := now\<rparr>
        \<and> (ej_status j = JQueued \<or> ej_status j = JLeased \<and> (\<exists>t. ej_leased_until j = Some t \<and> t \<le> now)) \<and> ej_attempts j < ej_max j
        \<and> (\<forall>t. map_of (ej_payload j) ''runAfter'' = Some (JStr t) \<longrightarrow> t \<le> now)
        \<and> (\<forall>ts. lr_allowed q = Some ts \<longrightarrow> ej_type j \<in> set ts) \<and> ej_type j \<notin> set (lr_excluded q)
        \<and> (ej_type j \<in> {''l3_world_model_update'', ''work_memory_extract''} \<longrightarrow>
             (\<forall>k\<in>set (jd_jobs db). ej_type k = ej_type j \<and> ej_scope k = ej_scope j \<and> ej_id k \<noteq> ej_id j \<longrightarrow>
                ej_status k \<noteq> JLeased
                \<and> (\<forall>m n. ej_seq k = Some m \<longrightarrow> ej_seq j = Some n \<longrightarrow> m < n \<longrightarrow> ej_status k \<in> {JSucceeded, JDeadLetter})))"
    proof (intro bexI [OF _ j(1)] conjI)
      show "r = j\<lparr>ej_status := JLeased, ej_attempts := ej_attempts j + 1, ej_leased_until := Some u, ej_updated := now\<rparr>"
        using j(2) by (simp add: leased_job_def)
    qed (use old [OF j(3)] other [OF j(3)] due [OF j(3)] scope [OF j(3)] in blast)+
  qed (use len jobs in \<open>simp_all add: update_row_def leased_job_def\<close>)
qed

section \<open>The order of leases\<close>

lemma comparator_job: "comparator (cmp_job db)"
proof -
  have "comparator (\<lambda>a b. cmp_str (order_created db b) (order_created db a))" by (rule comparator_flip [OF comparator_str])
  moreover have "comparator (\<lambda>a b. order_class a - order_class b)" by (rule comparator_key)
  moreover have "comparator (\<lambda>a b. (of_bool (ej_status a \<noteq> JLeased) :: int) - of_bool (ej_status b \<noteq> JLeased))" by (rule comparator_key)
  ultimately have "comparator (\<lambda>a b. then_cmp (job_priority db a - job_priority db b)
    (then_cmp (cmp_str (order_created db b) (order_created db a))
    (then_cmp (order_class a - order_class b)
    (then_cmp (of_bool (ej_status a \<noteq> JLeased) - of_bool (ej_status b \<noteq> JLeased)) (cmp_str (ej_created a) (ej_created b))))))"
    by (intro comparator_then comparator_key [of "job_priority db"] comparator_str)
  then show ?thesis unfolding cmp_job_def .
qed

lemma leased_job_reads:
  "ej_type (leased_job now u j) = ej_type j" "ej_target (leased_job now u j) = ej_target j" "ej_created (leased_job now u j) = ej_created j"
  "payload_text k (leased_job now u j) = payload_text k j" "target_matches db P (leased_job now u j) = target_matches db P j"
  by (simp_all add: leased_job_def target_matches_def payload_text_def)

lemma leased_job_order:
  "job_priority db (leased_job now u j) = job_priority db j" "order_created db (leased_job now u j) = order_created db j"
  unfolding job_priority_def order_created_def leased_job_reads by (rule refl)+

lemma cmp_job_priority:
  assumes "cmp_job db a b \<le> 0"
  shows "job_priority db a < job_priority db b \<or> job_priority db a = job_priority db b \<and> order_created db b \<le> order_created db a"
  using assms by (auto simp: cmp_job_def then_cmp_def cmp_str_def split: if_splits)

lemma sorted_take_rest:
  assumes "sorted_wrt R xs" and "r \<in> set (take n xs)" and "y \<in> set xs" and "y \<notin> set (take n xs)"
  shows "R r y"
proof -
  have "y \<in> set (drop n xs)" using assms(3,4) by (metis UnE append_take_drop_id set_append)
  moreover have "sorted_wrt R (take n xs @ drop n xs)" using assms(1) by simp
  ultimately show ?thesis using assms(2) unfolding sorted_wrt_append by blast
qed


text \<open>
  A job that one worker has leased is not leased to another before the lease runs out, whatever else has happened to the
  table, as long as the row is still leased.
\<close>

theorem no_double_lease:
  assumes "jobs_ok (jd_jobs db)" and "lease_jobs sql now u q db = (rows, db')"
    and "jobs_ok (jd_jobs db2)" and "\<forall>r\<in>set rows. \<exists>j\<in>set (jd_jobs db2). ej_id j = ej_id r \<and> ej_status j = JLeased \<and> ej_leased_until j = ej_leased_until r"
    and "lease_jobs sql now' u' q' db2 = (rows', db3)" and "now' < u"
  shows "ej_id ` set rows \<inter> ej_id ` set rows' = {}"
proof (rule ccontr)
  assume "ej_id ` set rows \<inter> ej_id ` set rows' \<noteq> {}"
  then obtain r r' where r: "r \<in> set rows" and r': "r' \<in> set rows'" and same: "ej_id r' = ej_id r"
    using ids_meet by blast
  have until: "ej_leased_until r = Some u"
    using leased_jobs_of [OF assms(2)] r by (auto simp: leased_job_def)
  obtain j where j: "j \<in> set (jd_jobs db2)" "ej_id j = ej_id r" "ej_status j = JLeased" "ej_leased_until j = Some u"
    using bspec [OF assms(4) r] unfolding until by blast
  have "rows' = map (leased_job now' u') (lease_rows sql now' q' db2)"
    using leased_jobs_of [OF assms(5)] r' by auto
  then obtain k where k: "k \<in> set (jd_jobs db2)" "leasable sql now' q' db2 k" "ej_id k = ej_id r'"
    using r' lease_rows_subset [of sql now' q' db2] by (auto simp: leased_job_def)
  have "k = j"
    using same_id_eq [of "jd_jobs db2" k j] assms(3) k(1,3) j(1,2) same by (simp add: jobs_ok_def)
  then have "u \<le> now'" using k(2) j(3,4) by (simp add: leasable_def lease_expired_def)
  then show False using assms(6) by simp
qed

section \<open>Restarts\<close>


text \<open>A job that holds its last attempt when its worker dies is leased by nobody.\<close>

lemma last_attempt_stuck:
  assumes "jobs_ok (jd_jobs db)" and "j \<in> set (jd_jobs db)" and "ej_status j = JLeased" and "ej_attempts j = ej_max j"
  shows "ej_id j \<notin> ej_id ` set (fst (lease_jobs sql now u q db))"
proof
  assume in': "ej_id j \<in> ej_id ` set (fst (lease_jobs sql now u q db))"
  obtain rows db' where run: "lease_jobs sql now u q db = (rows, db')" by fastforce
  have "rows = map (leased_job now u) (lease_rows sql now q db)"
    using leased_jobs_of [OF run] in' run by auto
  then have "ej_id j \<in> ej_id ` set (lease_rows sql now q db)" using in' run by simp
  moreover have "set (lease_rows sql now q db) \<subseteq> set (jd_jobs db)" using lease_rows_subset by blast
  moreover have "no_clashes (jd_jobs db)" using assms(1) by (simp add: jobs_ok_def)
  ultimately have "j \<in> set (lease_rows sql now q db)" using row_of_id assms(2) by blast
  then have "ej_attempts j < ej_max j" using lease_rows_subset [of sql now q db] by (auto simp: leasable_def)
  then show False using assms(4) by simp
qed

section \<open>Adding a job\<close>

lemma active_by_dedupe:
  assumes "get_active_by_dedupe k db = Some row"
  shows "row \<in> set (jd_jobs db) \<and> ej_dedupe row = Some k \<and> active_status (ej_status row)"
proof -
  have "row \<in> set (select_jobs db (\<lambda>j. ej_dedupe j = Some k \<and> active_status (ej_status j)))"
    using assms unfolding get_active_by_dedupe_def by (metis (no_types, lifting) list.case(1,2) list.exhaust list.set_intros(1) option.distinct(1) option.inject)
  then show ?thesis by simp
qed

lemma no_active_by_dedupe:
  assumes "get_active_by_dedupe k db = None" and "j \<in> set (jd_jobs db)" and "ej_dedupe j = Some k"
  shows "\<not> active_status (ej_status j)"
proof
  assume "active_status (ej_status j)"
  then have "j \<in> set (select_jobs db (\<lambda>j. ej_dedupe j = Some k \<and> active_status (ej_status j)))" using assms(2,3) by simp
  then have "select_jobs db (\<lambda>j. ej_dedupe j = Some k \<and> active_status (ej_status j)) \<noteq> []" by (metis empty_iff list.set(1))
  then show False using assms(1) unfolding get_active_by_dedupe_def by (auto split: list.splits)
qed

lemma merge_payload_lookup:
  assumes "k \<noteq> ''runAfter''" and "distinct (map fst new)"
  shows "map_of (merge_payload pd old new) k = (case map_of new k of None \<Rightarrow> map_of old k | Some v \<Rightarrow> Some v)"
  using assms by (auto simp: merge_payload_def Let_def map_of_obj_merge map_of_obj_put split: option.splits)

lemma find_unique:
  assumes "a \<in> set xs" and "P a" and "\<And>x. x \<in> set xs \<Longrightarrow> P x \<Longrightarrow> x = a"
  shows "find P xs = Some a"
  using assms
proof (induction xs)
  case (Cons x xs)
  show ?case
  proof (cases "P x")
    case True
    then show ?thesis using Cons.prems(3) [of x] by simp
  next
    case False
    then have "a \<in> set xs" using Cons.prems(1,2) by fastforce
    moreover have "y = a" if "y \<in> set xs" "P y" for y using Cons.prems(3) [of y] that by simp
    ultimately have "find P xs = Some a" using Cons.IH Cons.prems(2) by blast
    then show ?thesis using False by simp
  qed
qed simp

lemma filter_unique:
  assumes "distinct xs" and "a \<in> set xs" and "P a" and "\<And>x. x \<in> set xs \<Longrightarrow> P x \<Longrightarrow> x = a"
  shows "filter P xs = [a]"
proof -
  have set: "set (filter P xs) = {a}" unfolding set_filter using assms(2-4) by blast
  obtain y ys where ys: "filter P xs = y # ys" using set by (metis empty_not_insert list.exhaust list.set(1))
  have "distinct (y # ys)" unfolding ys [symmetric] using assms(1) by (rule distinct_filter)
  moreover have "y = a" "set ys \<subseteq> {a}" using set unfolding ys by auto
  ultimately show ?thesis using ys by (cases ys) auto
qed

lemma same_dedupe_eq:
  assumes "no_clashes js" "a \<in> set js" "b \<in> set js" "ej_dedupe a = Some k" "ej_dedupe b = Some k"
    "active_status (ej_status a)" "active_status (ej_status b)"
  shows "a = b"
  by (rule no_clashesD [OF assms(1-3)]) (simp add: clashes_def assms(4-7))

lemma merged_row:
  assumes "no_clashes (jd_jobs db)" and "row \<in> set (jd_jobs db)" and "keeps_keys f"
  shows "get_job (ej_id row) (update_job (ej_id row) f db) = Some (f row)"
proof -
  have one: "j = row" if "j \<in> set (jd_jobs db)" "ej_id j = ej_id row" for j
    using same_id_eq [OF assms(1) that(1) assms(2) that(2)] .
  have "f row \<in> set (jd_jobs (update_job (ej_id row) f db))" using assms(2) by (auto simp: set_update_row)
  moreover have "j = f row" if "j \<in> set (jd_jobs (update_job (ej_id row) f db))" "ej_id j = ej_id row" for j
  proof -
    note j = that
    obtain k where k: "k \<in> set (jd_jobs db)" "j = (if ej_id k = ej_id row then f k else k)"
      using j(1) unfolding jobs_update_job in_update_row by blast
    then have "ej_id k = ej_id row" using j(2) by (cases "ej_id k = ej_id row") auto
    then show ?thesis using one [OF k(1)] k(2) by simp
  qed
  ultimately show ?thesis
    unfolding get_job_def using find_unique [of "f row" _ "\<lambda>j. ej_id j = ej_id row"] keeps_keysD(1) [OF assms(3)] by blast
qed

section \<open>Failing\<close>

lemma jobs_update_one:
  assumes "no_clashes (jd_jobs db)" and "row \<in> set (jd_jobs db)"
  shows "jd_jobs (update_job (ej_id row) f db) = map (\<lambda>j. if j = row then f row else j) (jd_jobs db)"
proof -
  have "ej_id k = ej_id row \<longleftrightarrow> k = row" if "k \<in> set (jd_jobs db)" for k
    using same_id_eq [OF assms(1) that assms(2)] by blast
  then show ?thesis by (simp add: update_row_def)
qed

lemma batch_outcome_dead:
  assumes "''dead_letter'' \<in> set sts"
  shows "batch_outcome sts = (if ''queued'' \<in> set sts then None else Some (if ''applied'' \<in> set sts then ''partial_dead_letter'' else ''dead_letter''))"
proof -
  have "sts \<noteq> []" using assms(1) by auto
  moreover have "length (filter (\<lambda>s. s = ''applied'') sts) \<noteq> length sts"
    using assms(1) length_filter_less [of "''dead_letter''" sts "\<lambda>s. s = ''applied''"] by simp
  moreover have "length (filter (\<lambda>s. s = ''applied'') sts) = 0 \<longleftrightarrow> ''applied'' \<notin> set sts"
    by (simp add: filter_empty_conv) blast
  ultimately show ?thesis by (simp add: batch_outcome_def Let_def)
qed

lemma fail_job_leased:
  assumes js: "jobs_ok (jd_jobs db)" and row: "row \<in> set (jd_jobs db)" "ej_status row = JLeased"
    and "dead = (force \<or> ej_max row \<le> ej_attempts row)"
    and "f = (\<lambda>j. j\<lparr>ej_status := (if dead then JDeadLetter else JFailed), ej_leased_until := None, ej_error := Some e, ej_updated := now\<rparr>)"
    and "db1 = update_job (ej_id row) f db"
    and "db2 = (if dead \<and> ej_type row = ''l3_world_model_update'' then dead_world_update now row db1 else db1)"
    and "db3 = (if dead \<and> ej_type row = ''project_environment_profile'' then dead_profile e now row db2 else db2)"
  shows "fail_job (ej_id row) e now force db = Inr (Some (f row), db3)"
proof -
  have nc: "no_clashes (jd_jobs db)" using js by (simp add: jobs_ok_def)
  have keeps: "keeps_keys f" unfolding assms(5) by (simp add: keeps_keys_def)
  have get: "get_job (ej_id row) db1 = Some (f row)" unfolding assms(6) by (rule merged_row [OF nc row(1) keeps])
  have "no_clashes (jd_jobs db1)"
    unfolding assms(6) jobs_update_job
    by (rule no_clashes_update [OF nc keeps]) (use same_id_eq [OF nc _ row(1)] row(2) in \<open>auto simp: active_status_def\<close>)
  then have checked: "checked_jobs db1 = Inr db1" by (simp add: checked_jobs_def)
  have "get_job (ej_id row) db3 = get_job (ej_id row) db1" by (simp add: assms(7,8) get_job_def)
  then have get3: "get_job (ej_id row) db3 = Some (f row)" using get by simp
  have "ej_status row \<noteq> JDeadLetter" using row(2) by simp
  then have "fail_job (ej_id row) e now force db = Inr (get_job (ej_id row) db3, db3)"
    unfolding fail_job_def get_job_row [OF nc row(1)] option.case Let_def assms(4) [symmetric] assms(5) [symmetric]
      assms(6) [symmetric] checked bindE_simps assms(7) [symmetric] assms(8) [symmetric] by simp
  then show ?thesis unfolding get3 .
qed

lemma fail_leased_row:
  assumes js: "jobs_ok (jd_jobs db)" and row: "row \<in> set (jd_jobs db)" "ej_status row = JLeased"
  shows "\<exists>r db'. fail_job (ej_id row) e now force db = Inr (Some r, db')
    \<and> jd_jobs db' = map (\<lambda>j. if j = row then r else j) (jd_jobs db) \<and> ej_status r \<noteq> JLeased \<and> ej_id r = ej_id row"
proof -
  define dead where "dead = (force \<or> ej_max row \<le> ej_attempts row)"
  define g where "g = (\<lambda>j :: evolution_job. j\<lparr>ej_status := (if dead then JDeadLetter else JFailed), ej_leased_until := None, ej_error := Some e, ej_updated := now\<rparr>)"
  define db1 where "db1 = update_job (ej_id row) g db"
  define db2 where "db2 = (if dead \<and> ej_type row = ''l3_world_model_update'' then dead_world_update now row db1 else db1)"
  define db3 where "db3 = (if dead \<and> ej_type row = ''project_environment_profile'' then dead_profile e now row db2 else db2)"
  have "fail_job (ej_id row) e now force db = Inr (Some (g row), db3)"
    by (rule fail_job_leased [OF js row dead_def g_def db1_def db2_def db3_def])
  moreover have "no_clashes (jd_jobs db)" using js by (simp add: jobs_ok_def)
  then have "jd_jobs db3 = map (\<lambda>j. if j = row then g row else j) (jd_jobs db)"
    using jobs_update_one [OF _ row(1), of g] by (simp add: db3_def db2_def db1_def)
  moreover have "ej_status (g row) \<noteq> JLeased \<and> ej_id (g row) = ej_id row" by (simp add: g_def)
  ultimately show ?thesis by blast
qed

text \<open>
  C15: Failing a leased job always succeeds: the job becomes a dead letter when that is forced or its attempts are used up, and
  waits as failed otherwise, without its lease; then nothing else changes. The dead letter of a world model update marks its
  target, and the evidence batch is closed exactly when none of its targets waits any more, as partly applied when some
  target was applied.
\<close>

theorem fail_spec:
  assumes js: "jobs_ok (jd_jobs db)" and row: "row \<in> set (jd_jobs db)" "ej_status row = JLeased"
  shows "\<exists>r db'. fail_job (ej_id row) e now force db = Inr (Some r, db')
    \<and> r = row\<lparr>ej_status := (if force \<or> ej_attempts row = ej_max row then JDeadLetter else JFailed),
              ej_leased_until := None, ej_error := Some e, ej_updated := now\<rparr>
    \<and> jd_jobs db' = map (\<lambda>j. if j = row then r else j) (jd_jobs db)
    \<and> (ej_status r = JFailed \<longrightarrow> jd_targets db' = jd_targets db \<and> jd_batches db' = jd_batches db \<and> jd_environments db' = jd_environments db)
    \<and> (\<forall>b f. ej_status r = JDeadLetter \<and> ej_type row = ''l3_world_model_update''
          \<and> map_of (ej_payload row) ''batchId'' = Some (JStr b) \<and> b \<noteq> [] \<and> map_of (ej_payload row) ''targetField'' = Some (JStr f)
          \<and> f \<in> {''general_rules_and_safety_constraints'', ''project_contract'', ''domain_knowledge''}
          \<and> (\<exists>t\<in>set (jd_targets db). bt_batch t = b \<and> bt_field t = f \<and> bt_status t = ''queued'') \<longrightarrow>
        jd_targets db' = map (\<lambda>t. if bt_batch t = b \<and> bt_field t = f \<and> bt_status t = ''queued''
           then t\<lparr>bt_status := ''dead_letter'', bt_no_change := 0, bt_applied_at := None, bt_updated := now\<rparr> else t) (jd_targets db)
        \<and> jd_batches db' = (if \<exists>t\<in>set (jd_targets db'). bt_batch t = b \<and> bt_status t = ''queued'' then jd_batches db
           else map (\<lambda>x. if eb_id x = b then x\<lparr>eb_outcome := Some (if \<exists>t\<in>set (jd_targets db'). bt_batch t = b \<and> bt_status t = ''applied''
               then ''partial_dead_letter'' else ''dead_letter''), eb_completed := Some now, eb_updated := now\<rparr> else x) (jd_batches db)))"
proof -
  define dead where "dead = (force \<or> ej_max row \<le> ej_attempts row)"
  define g where "g = (\<lambda>j :: evolution_job. j\<lparr>ej_status := (if dead then JDeadLetter else JFailed), ej_leased_until := None, ej_error := Some e, ej_updated := now\<rparr>)"
  define db1 where "db1 = update_job (ej_id row) g db"
  define db2 where "db2 = (if dead \<and> ej_type row = ''l3_world_model_update'' then dead_world_update now row db1 else db1)"
  define db3 where "db3 = (if dead \<and> ej_type row = ''project_environment_profile'' then dead_profile e now row db2 else db2)"
  have run: "fail_job (ej_id row) e now force db = Inr (Some (g row), db3)"
    by (rule fail_job_leased [OF js row dead_def g_def db1_def db2_def db3_def])
  have nc: "no_clashes (jd_jobs db)" using js by (simp add: jobs_ok_def)
  have "ej_attempts row \<le> ej_max row" using js row by (auto simp: jobs_ok_def list_all_iff job_ok_def)
  then have dead: "dead \<longleftrightarrow> force \<or> ej_attempts row = ej_max row" by (auto simp: dead_def)
  have jobs: "jd_jobs db3 = map (\<lambda>j. if j = row then g row else j) (jd_jobs db)"
    using jobs_update_one [OF nc row(1), of g] by (simp add: db3_def db2_def db1_def)
  have world: "jd_targets db3 = map (\<lambda>t. if bt_batch t = b \<and> bt_field t = f \<and> bt_status t = ''queued''
           then t\<lparr>bt_status := ''dead_letter'', bt_no_change := 0, bt_applied_at := None, bt_updated := now\<rparr> else t) (jd_targets db)
        \<and> jd_batches db3 = (if \<exists>t\<in>set (jd_targets db3). bt_batch t = b \<and> bt_status t = ''queued'' then jd_batches db
           else map (\<lambda>x. if eb_id x = b then x\<lparr>eb_outcome := Some (if \<exists>t\<in>set (jd_targets db3). bt_batch t = b \<and> bt_status t = ''applied''
               then ''partial_dead_letter'' else ''dead_letter''), eb_completed := Some now, eb_updated := now\<rparr> else x) (jd_batches db))"
    if h: "dead" "ej_type row = ''l3_world_model_update''" "map_of (ej_payload row) ''batchId'' = Some (JStr b)" "b \<noteq> []"
      "map_of (ej_payload row) ''targetField'' = Some (JStr f)" "f \<in> {''general_rules_and_safety_constraints'', ''project_contract'', ''domain_knowledge''}"
      "\<exists>t\<in>set (jd_targets db). bt_batch t = b \<and> bt_field t = f \<and> bt_status t = ''queued''" for b f
  proof -
    let ?u = "\<lambda>t. if bt_batch t = b \<and> bt_field t = f \<and> bt_status t = ''queued''
           then t\<lparr>bt_status := ''dead_letter'', bt_no_change := 0, bt_applied_at := None, bt_updated := now\<rparr> else t"
    let ?ts = "map ?u (jd_targets db)"
    let ?sts = "map bt_status (filter (\<lambda>t. bt_batch t = b) ?ts)"
    have field: "target_field f" using h(6) by (simp add: target_field_def)
    have db3: "db3 = update_batch_outcome b now (db1\<lparr>jd_targets := ?ts\<rparr>)"
      using h(1-5) field by (simp add: db3_def db2_def db1_def dead_world_update_def payload_text_def update_row_def)
    have mem: "s \<in> set ?sts \<longleftrightarrow> (\<exists>t\<in>set ?ts. bt_batch t = b \<and> bt_status t = s)" for s
      unfolding set_map set_filter image_iff by blast
    obtain t where t: "t \<in> set (jd_targets db)" "bt_batch t = b \<and> bt_field t = f \<and> bt_status t = ''queued''" using h(7) by blast
    then have "?u t \<in> set ?ts" "bt_batch (?u t) = b \<and> bt_status (?u t) = ''dead_letter''" by auto
    then have "''dead_letter'' \<in> set ?sts" using mem by blast
    note out = batch_outcome_dead [OF this]
    have ts: "jd_targets db3 = ?ts" unfolding db3 update_batch_outcome_def by (simp split: option.split)
    have "jd_batches db3 = (case batch_outcome ?sts of None \<Rightarrow> jd_batches db
        | Some r \<Rightarrow> map (\<lambda>x. if eb_id x = b then x\<lparr>eb_outcome := Some r, eb_completed := Some now, eb_updated := now\<rparr> else x) (jd_batches db))"
      unfolding db3 update_batch_outcome_def by (simp add: update_row_def db1_def split: option.split)
    then have "jd_batches db3 = (if ''queued'' \<in> set ?sts then jd_batches db
        else map (\<lambda>x. if eb_id x = b then x\<lparr>eb_outcome := Some (if ''applied'' \<in> set ?sts then ''partial_dead_letter'' else ''dead_letter''),
             eb_completed := Some now, eb_updated := now\<rparr> else x) (jd_batches db))"
      unfolding out by (cases "''queued'' \<in> set ?sts") simp_all
    then show ?thesis unfolding ts mem by blast
  qed
  have other: "ej_status (g row) = JFailed \<Longrightarrow> jd_targets db3 = jd_targets db \<and> jd_batches db3 = jd_batches db \<and> jd_environments db3 = jd_environments db"
    by (simp add: g_def db3_def db2_def db1_def split: if_splits)
  have gd: "ej_status (g row) = JDeadLetter \<longleftrightarrow> dead" by (simp add: g_def)
  have r: "g row = row\<lparr>ej_status := (if force \<or> ej_attempts row = ej_max row then JDeadLetter else JFailed),
              ej_leased_until := None, ej_error := Some e, ej_updated := now\<rparr>" unfolding g_def dead by simp
  show ?thesis
    by (rule exI [of _ "g row"], rule exI [of _ db3], intro conjI impI allI) (use run jobs r world other gd in blast)+
qed

end
