(* ===== verification/Job_Worker_Facts.thy ===== *)
theory Job_Worker_Facts
  imports Job_Worker Job_Queue
begin

text \<open>
  A run of the worker ends every lease that it took, and starts no job that a paused budget forbids.
\<close>

section \<open>The leases of a table\<close>

definition leased_ids :: "job_db \<Rightarrow> string set" where
  "leased_ids db = ej_id ` {j \<in> set (jd_jobs db). ej_status j = JLeased}"

lemma leased_idsE:
  assumes "i \<in> leased_ids db"
  obtains j where "j \<in> set (jd_jobs db)" "ej_status j = JLeased" "ej_id j = i"
  using assms unfolding leased_ids_def by blast

lemma leased_ids_cong: "jd_jobs db' = jd_jobs db \<Longrightarrow> leased_ids db' = leased_ids db"
  by (simp add: leased_ids_def)

lemma leased_ids_update:
  assumes "keeps_keys f" and "\<And>j. ej_status (f j) \<noteq> JLeased"
    and "jd_jobs db' = update_row (\<lambda>j. ej_id j \<in> I \<and> Q j) f (jd_jobs db)"
    and "\<And>j. j \<in> set (jd_jobs db) \<Longrightarrow> ej_id j \<in> I \<Longrightarrow> ej_status j = JLeased \<Longrightarrow> Q j"
  shows "leased_ids db' = leased_ids db - I"
proof (intro set_eqI iffI)
  fix i assume "i \<in> leased_ids db'"
  then obtain j where j: "j \<in> set (jd_jobs db')" "ej_status j = JLeased" "ej_id j = i" by (rule leased_idsE)
  obtain k where k: "k \<in> set (jd_jobs db)" "j = (if ej_id k \<in> I \<and> Q k then f k else k)"
    using j(1) unfolding assms(3) in_update_row by blast
  have "\<not> (ej_id k \<in> I \<and> Q k)" using k(2) j(2) assms(2) [of k] by auto
  then have "j = k" "\<not> (ej_id j \<in> I \<and> Q j)" using k(2) by auto
  moreover have "ej_id j \<notin> I" using calculation j(2) k(1) assms(4) [of j] by blast
  ultimately show "i \<in> leased_ids db - I" using j k(1) unfolding leased_ids_def by blast
next
  fix i assume i: "i \<in> leased_ids db - I"
  then have "i \<in> leased_ids db" by blast
  then obtain j where j: "j \<in> set (jd_jobs db)" "ej_status j = JLeased" "ej_id j = i" by (rule leased_idsE)
  have "j \<in> set (jd_jobs db')" unfolding assms(3) in_update_row using j(1,3) i by (intro bexI [OF _ j(1)]) simp
  then show "i \<in> leased_ids db'" using j(2,3) unfolding leased_ids_def by blast
qed

lemma leased_ids_complete: "leased_ids (snd (complete_job i now db)) = leased_ids db - {i}"
  by (rule leased_ids_update [of "completed_job now" _ "{i}" "\<lambda>_. True"])
    (simp_all add: complete_job_def Let_def completed_job_def)

lemma leased_ids_defer: "leased_ids (snd (defer_job i t now db)) = leased_ids db - {i}"
proof (rule leased_ids_update [of "\<lambda>j. (given_back now j)\<lparr>ej_payload := obj_put (ej_payload j) (''runAfter'', JStr t)\<rparr>" _ "{i}" "\<lambda>j. ej_status j = JLeased"])
  show "jd_jobs (snd (defer_job i t now db)) = update_row (\<lambda>j. ej_id j \<in> {i} \<and> ej_status j = JLeased)
      (\<lambda>j. (given_back now j)\<lparr>ej_payload := obj_put (ej_payload j) (''runAfter'', JStr t)\<rparr>) (jd_jobs db)"
    by (auto simp: defer_job_def Let_def update_row_def)
qed (simp_all add: keeps_keys_def given_back_def)

lemma requeue_leased_jobs:
  assumes "no_clashes (jd_jobs db)"
  shows "jd_jobs (snd (requeue_leased_where P now db)) = update_row P (given_back now) (jd_jobs db)"
proof -
  let ?rows = "select_jobs db P"
  have mem: "ej_id j \<in> ej_id ` set ?rows \<longleftrightarrow> P j" if j: "j \<in> set (jd_jobs db)" for j
  proof
    assume "ej_id j \<in> ej_id ` set ?rows"
    then have "j \<in> set ?rows" using row_of_id [OF assms _ j, of ?rows] by auto
    then show "P j" by simp
  next
    assume "P j"
    then have "j \<in> set ?rows" using j by simp
    then show "ej_id j \<in> ej_id ` set ?rows" by (rule imageI)
  qed
  have "jd_jobs (snd (requeue_leased_where P now db)) = update_row (\<lambda>j. ej_id j \<in> ej_id ` set ?rows) (given_back now) (jd_jobs db)"
    by (simp add: requeue_leased_where_def requeue_rows_def jobs_update_each [OF _ distinct_ids_select [OF assms]])
  then show ?thesis using mem by (simp add: update_row_def)
qed

lemma leased_ids_unstarted:
  assumes "jobs_ok (jd_jobs db)"
  shows "leased_ids (snd (requeue_unstarted ids now db)) = leased_ids db - set ids"
proof (cases "ids = []")
  case True
  then show ?thesis by (simp add: requeue_unstarted_def)
next
  case False
  have nc: "no_clashes (jd_jobs db)" using assms by (simp add: jobs_ok_def)
  show ?thesis
    by (rule leased_ids_update [of "given_back now" _ "set ids" "\<lambda>j. ej_status j = JLeased"])
      (use False in \<open>simp_all add: requeue_unstarted_def requeue_leased_jobs [OF nc] given_back_not_leased conj_commute\<close>)
qed

lemma leased_ids_replace:
  assumes "no_clashes (jd_jobs db)" and "row \<in> set (jd_jobs db)" and "ej_id r = ej_id row" and "ej_status r \<noteq> JLeased"
    and "jd_jobs db' = map (\<lambda>k. if k = row then r else k) (jd_jobs db)"
  shows "leased_ids db' = leased_ids db - {ej_id row}"
proof -
  have "{j \<in> set (jd_jobs db'). ej_status j = JLeased} = {j \<in> set (jd_jobs db). ej_status j = JLeased} - {row}"
  proof (intro set_eqI iffI)
    fix j assume j: "j \<in> {j \<in> set (jd_jobs db'). ej_status j = JLeased}"
    then obtain k where k: "k \<in> set (jd_jobs db)" "j = (if k = row then r else k)" unfolding assms(5) set_map by blast
    then have "k \<noteq> row" using j assms(4) by (cases "k = row") auto
    then show "j \<in> {j \<in> set (jd_jobs db). ej_status j = JLeased} - {row}" using j k by simp
  next
    fix j assume j: "j \<in> {j \<in> set (jd_jobs db). ej_status j = JLeased} - {row}"
    then have "j = (if j = row then r else j)" by simp
    then have "j \<in> set (jd_jobs db')" unfolding assms(5) set_map using j by (intro image_eqI [of _ _ j]) simp_all
    then show "j \<in> {j \<in> set (jd_jobs db'). ej_status j = JLeased}" using j by simp
  qed
  moreover have "ej_id ` ({j \<in> set (jd_jobs db). ej_status j = JLeased} - {row}) = leased_ids db - {ej_id row}"
  proof -
    have inj: "inj_on ej_id (set (jd_jobs db))" using no_clashes_distinct [OF assms(1)] by (simp add: distinct_map)
    have "ej_id ` ({j \<in> set (jd_jobs db). ej_status j = JLeased} - {row}) = ej_id ` {j \<in> set (jd_jobs db). ej_status j = JLeased} - ej_id ` {row}"
      by (rule inj_on_image_set_diff [OF inj]) (use assms(2) in auto)
    then show ?thesis by (simp add: leased_ids_def)
  qed
  ultimately show ?thesis by (simp add: leased_ids_def)
qed

section \<open>Runs that are well behaved\<close>

definition run_ok :: "worker_state \<Rightarrow> bool" where
  "run_ok s \<longleftrightarrow> jobs_ok (jd_jobs (ws_db s))"

definition leases :: "worker_state \<Rightarrow> string set" where
  "leases s = leased_ids (ws_db s)"

text \<open>Handlers may change the tables, but neither break the queue's invariant nor take or end a lease.\<close>

definition keeps_leases :: "(job_db \<Rightarrow> job_db) \<Rightarrow> bool" where
  "keeps_leases f \<longleftrightarrow> (\<forall>db. jobs_ok (jd_jobs db) \<longrightarrow> jobs_ok (jd_jobs (f db)) \<and> leased_ids (f db) = leased_ids db)"

definition handlers_ok :: "worker_env \<Rightarrow> bool" where
  "handlers_ok env \<longleftrightarrow> (\<forall>j. keeps_leases (\<lambda>db. snd (we_process env j db))) \<and> (\<forall>j. keeps_leases (\<lambda>db. snd (we_prepare env j db)))
     \<and> (\<forall>p v. keeps_leases (\<lambda>db. snd (we_apply env p v db))) \<and> (\<forall>p e. keeps_leases (\<lambda>db. snd (we_retry_later env p e db)))
     \<and> (\<forall>j db p. fst (we_prepare env j db) = Inr (Some p) \<longrightarrow> pj_job p = j)"

text \<open>A step that ends the leases of some jobs.\<close>

definition ends_leases :: "string set \<Rightarrow> worker_state \<Rightarrow> worker_state \<Rightarrow> bool" where
  "ends_leases I s s' \<longleftrightarrow> run_ok s' \<and> leases s' = leases s - I"

definition ends_run :: "string set \<Rightarrow> worker_state \<Rightarrow> ('a \<times> worker_state) + ('b \<times> worker_state) \<Rightarrow> bool" where
  "ends_run I s res \<longleftrightarrow> (\<exists>r s'. res = Inr (r, s') \<and> ends_leases I s s')"

lemma jobs_same [simp]:
  "jd_jobs (ws_db (set_processing i f st s)) = jd_jobs (ws_db s)" "ws_db (append_change op j s) = ws_db s" "ws_db (with_jobs db s) = db"
  "ws_db (snd (read_now env s)) = ws_db s" "ws_db (snd (ask_paused env s)) = ws_db s" "ws_db (snd (ask_embedder env ts role s)) = ws_db s"
  by (simp_all add: set_processing_def append_change_def with_jobs_def read_now_def ask_paused_def ask_embedder_def)

lemma jobs_after_failure [simp]: "jd_jobs (ws_db (after_failure env j e s)) = jd_jobs (ws_db s)"
  by (simp add: after_failure_def read_now_def Let_def set_processing_def split: option.split)

lemma jobs_mark_leased [simp]: "jd_jobs (ws_db (mark_processing_leased env j s)) = jd_jobs (ws_db s)"
  by (simp add: mark_processing_leased_def read_now_def Let_def set_processing_def split: option.split)

lemma leases_cong: "jd_jobs (ws_db s') = jd_jobs (ws_db s) \<Longrightarrow> leases s' = leases s \<and> (run_ok s' \<longleftrightarrow> run_ok s)"
  by (simp add: leases_def run_ok_def leased_ids_def)

lemma ends_leasesI: "jobs_ok (jd_jobs (ws_db s')) \<Longrightarrow> leased_ids (ws_db s') = leased_ids (ws_db s) - I \<Longrightarrow> ends_leases I s s'"
  by (simp add: ends_leases_def run_ok_def leases_def)

lemma complete_ends:
  assumes "run_ok s"
  shows "ends_leases {ej_id j} s (snd (complete_leased env j s))"
proof -
  obtain row db where c: "complete_job (ej_id j) (we_clock env (ws_tick s)) (ws_db s) = (row, db)" by fastforce
  have "ws_db (snd (complete_leased env j s)) = db"
    by (simp add: complete_leased_def read_now_def Let_def c append_change_def with_jobs_def split: option.split)
  moreover have "jobs_ok (jd_jobs db)" "leased_ids db = leased_ids (ws_db s) - {ej_id j}"
    using jobs_ok_complete [of "ws_db s" "ej_id j" "we_clock env (ws_tick s)"] leased_ids_complete [of "ej_id j" "we_clock env (ws_tick s)" "ws_db s"]
      c assms by (simp_all add: run_ok_def)
  ultimately show ?thesis by (intro ends_leasesI) simp_all
qed

lemma defer_ends:
  assumes "run_ok s"
  shows "ends_leases {ej_id j} s (snd (defer_leased env j s))"
proof -
  let ?now = "we_clock env (ws_tick s)"
  obtain row db where c: "defer_job (ej_id j) (we_later env ?now 30000) ?now (ws_db s) = (row, db)" by fastforce
  have "jd_jobs (ws_db (snd (defer_leased env j s))) = jd_jobs db"
    by (simp add: defer_leased_def read_now_def Let_def c append_change_def with_jobs_def set_processing_def split: option.split)
  moreover have "jobs_ok (jd_jobs db)" "leased_ids db = leased_ids (ws_db s) - {ej_id j}"
    using jobs_ok_defer [of "ws_db s" "ej_id j" "we_later env ?now 30000" ?now] leased_ids_defer [of "ej_id j" "we_later env ?now 30000" ?now "ws_db s"]
      c assms by (simp_all add: run_ok_def)
  ultimately show ?thesis by (intro ends_leasesI) (simp_all add: leased_ids_def)
qed

lemma ws_db_changes [simp]: "ws_db (fold (\<lambda>p. append_change op (g p)) ps s) = ws_db s"
  by (induction ps arbitrary: s) simp_all

lemma give_back_ends:
  assumes "run_ok s"
  shows "ends_leases (ej_id ` set js) s (give_back env js s)"
proof (cases "js = []")
  case True
  then show ?thesis using assms by (simp add: give_back_def ends_leases_def)
next
  case False
  let ?now = "we_clock env (ws_tick s)"
  obtain pairs db where c: "requeue_unstarted (map ej_id js) ?now (ws_db s) = (pairs, db)" by fastforce
  have "ws_db (give_back env js s) = db" using False by (simp add: give_back_def read_now_def Let_def c)
  moreover have "jobs_ok (jd_jobs db)" "leased_ids db = leased_ids (ws_db s) - ej_id ` set js"
    using jobs_ok_unstarted [of "ws_db s" "map ej_id js" ?now] leased_ids_unstarted [of "ws_db s" "map ej_id js" ?now] c assms
    by (simp_all add: run_ok_def)
  ultimately show ?thesis by (intro ends_leasesI) simp_all
qed

lemma hold_ends:
  assumes "run_ok s"
  shows "ends_leases {ej_id j} s (snd (hold_unconfigured env j s))"
proof -
  have "jd_jobs (ws_db (snd (hold_unconfigured env j s))) = jd_jobs (ws_db (give_back env [j] s))"
    by (simp add: hold_unconfigured_def Let_def read_now_def set_processing_def split: option.split)
  from leases_cong [OF this] show ?thesis using give_back_ends [OF assms, of "[j]" env] by (simp add: ends_leases_def)
qed

lemma fail_ends:
  assumes ok: "run_ok s" and j: "ej_id j \<in> leases s"
  shows "ends_run {ej_id j} s (fail_leased env j e s)"
proof -
  have js: "jobs_ok (jd_jobs (ws_db s))" using ok by (simp add: run_ok_def)
  obtain row where row: "row \<in> set (jd_jobs (ws_db s))" "ej_status row = JLeased" "ej_id row = ej_id j"
    using j unfolding leases_def by (rule leased_idsE)
  define now where "now = we_clock env (ws_tick s)"
  define message where "message = (if stage_for_job (ej_type j) = None then jf_message e else jf_sanitized e)"
  define force where "force = (jf_code e = ''40309'' \<or> stage_for_job (ej_type j) \<noteq> None \<and> jf_action e \<noteq> ActRetry)"
  obtain r db' where run: "fail_job (ej_id j) message now force (ws_db s) = Inr (Some r, db')"
    and db': "jd_jobs db' = map (\<lambda>k. if k = row then r else k) (jd_jobs (ws_db s))" "ej_status r \<noteq> JLeased" "ej_id r = ej_id row"
    using fail_leased_row [OF js row(1,2), of message now force] row(3) by auto
  let ?s = "s\<lparr>ws_tick := ws_tick s + 1\<rparr>"
  let ?dead = "ej_status r = JDeadLetter"
  have res: "fail_leased env j e s = Inr (\<lparr>rr_succeeded = 0, rr_failed = 1, rr_job = ej_id j, rr_status = (if ?dead then JDeadLetter else JFailed)\<rparr>,
      after_failure env r e (append_change (if ?dead then DeadLetter else Failed) r (with_jobs db' ?s)))"
    unfolding fail_leased_def Let_def read_now_def prod.case now_def [symmetric] message_def [symmetric] force_def [symmetric]
    using run by simp
  have nc: "no_clashes (jd_jobs (ws_db s))" using js by (simp add: jobs_ok_def)
  have ids: "leased_ids db' = leased_ids (ws_db s) - {ej_id j}"
    using leased_ids_replace [OF nc row(1) db'(3,2,1)] row(3) by simp
  have "jobs_ok (jd_jobs db')" by (rule jobs_ok_fail [OF js run])
  then have "ends_leases {ej_id j} s (after_failure env r e (append_change (if ?dead then DeadLetter else Failed) r (with_jobs db' ?s)))"
    using ids by (intro ends_leasesI) (simp_all add: leased_ids_def)
  then show ?thesis unfolding res ends_run_def by blast
qed

section \<open>Composition\<close>

lemma ends_leases_trans: "ends_leases I s s' \<Longrightarrow> ends_leases J s' s'' \<Longrightarrow> ends_leases (I \<union> J) s s''"
  by (auto simp: ends_leases_def)

lemma ends_run_bind:
  assumes "ends_run I s m" and "\<And>r s'. m = Inr (r, s') \<Longrightarrow> ends_leases I s s' \<Longrightarrow> ends_run J s' (f (r, s'))"
  shows "ends_run (I \<union> J) s (bindE m f)"
proof -
  obtain r s' where m: "m = Inr (r, s')" "ends_leases I s s'" using assms(1) unfolding ends_run_def by blast
  obtain r' s'' where "f (r, s') = Inr (r', s'')" "ends_leases J s' s''" using assms(2) [OF m] unfolding ends_run_def by blast
  then show ?thesis unfolding ends_run_def m(1) bindE_simps using ends_leases_trans [OF m(2)] by blast
qed

lemma ends_run_Inr: "ends_leases I s s' \<Longrightarrow> ends_run I s (Inr (r, s'))"
  unfolding ends_run_def by blast

lemma ends_run_then:
  assumes "ends_run I s m"
  shows "ends_run I s (bindE m (\<lambda>(r, s'). Inr (g r, s')))"
proof -
  obtain r s' where "m = Inr (r, s')" "ends_leases I s s'" using assms unfolding ends_run_def by blast
  then show ?thesis by (simp add: ends_run_def)
qed

lemma ends_leases_start: "leases s1 = leases s \<Longrightarrow> ends_leases I s1 = ends_leases I s"
  by (rule ext) (simp add: ends_leases_def)

lemma ends_run_start:
  assumes "leases s1 = leases s"
  shows "ends_run I s1 m = ends_run I s m"
  unfolding ends_run_def ends_leases_start [OF assms] ..

lemma handler_keeps:
  assumes "keeps_leases f" and "run_ok s"
  shows "run_ok (with_jobs (f (ws_db s)) s) \<and> leases (with_jobs (f (ws_db s)) s) = leases s"
  using assms by (simp add: keeps_leases_def run_ok_def leases_def)

lemma start_same: "run_ok (mark_processing_leased env j (append_change Leased j s)) = run_ok s"
  "leases (mark_processing_leased env j (append_change Leased j s)) = leases s"
  using leases_cong [of "mark_processing_leased env j (append_change Leased j s)" s] by simp_all

lemma clock_same [simp]: "run_ok (snd (ask_paused env s)) = run_ok s" "leases (snd (ask_paused env s)) = leases s"
  "run_ok (snd (read_now env s)) = run_ok s" "leases (snd (read_now env s)) = leases s"
  "run_ok (snd (ask_embedder env ts role s)) = run_ok s" "leases (snd (ask_embedder env ts role s)) = leases s"
  by (simp_all add: run_ok_def leases_def)

lemma ends_run_pair: "ends_leases I s (snd p) \<Longrightarrow> ends_run I s (Inr p)"
  unfolding ends_run_def by (cases p) simp

lemma run_leased_ends:
  assumes env: "handlers_ok env" and ok: "run_ok s" and j: "ej_id j \<in> leases s"
  shows "ends_run {ej_id j} s (run_leased env j s)"
proof -
  define s1 where "s1 = mark_processing_leased env j (append_change Leased j s)"
  obtain out db where p: "we_process env j (ws_db s1) = (out, db)" by fastforce
  have "keeps_leases (\<lambda>db. snd (we_process env j db))" using env by (simp add: handlers_ok_def)
  moreover have "run_ok s1" "leases s1 = leases s" using ok start_same by (simp_all add: s1_def)
  ultimately have s2: "run_ok (with_jobs db s1)" "leases (with_jobs db s1) = leases s"
    using handler_keeps [of "\<lambda>db. snd (we_process env j db)" s1] p by simp_all
  have "ends_run {ej_id j} (with_jobs db s1) (run_leased env j s)"
    unfolding run_leased_def Let_def s1_def [symmetric] p prod.case
    using complete_ends [OF s2(1)] hold_ends [OF s2(1)] defer_ends [OF s2(1)] fail_ends [OF s2(1)] s2(2) j
    by (auto split: job_outcome.split intro: ends_run_pair)
  then show ?thesis unfolding ends_run_start [OF s2(2)] .
qed

lemma collect_ends:
  assumes step: "\<And>x s. x \<in> set xs \<Longrightarrow> run_ok s \<Longrightarrow> key x \<in> leases s \<Longrightarrow> ends_run {key x} s (f x s)"
    and "run_ok s" and "distinct (map key xs)" and "key ` set xs \<subseteq> leases s"
  shows "ends_run (key ` set xs) s (collect f xs s)"
  using assms
proof (induction xs arbitrary: s)
  case Nil
  then show ?case by (simp add: ends_run_def ends_leases_def)
next
  case (Cons x xs)
  have first: "ends_run {key x} s (f x s)" using Cons.prems by simp
  have "ends_run ({key x} \<union> key ` set xs) s (collect f (x # xs) s)"
    unfolding collect.simps
  proof (rule ends_run_bind [OF first], unfold prod.case, rule ends_run_then)
    fix r s' assume "ends_leases {key x} s s'"
    then have "run_ok s'" "leases s' = leases s - {key x}" by (simp_all add: ends_leases_def)
    then show "ends_run (key ` set xs) s' (collect f xs s')"
      using Cons.prems by (intro Cons.IH) (auto simp: image_iff)
  qed
  then show ?case by simp
qed

section \<open>Embedding jobs\<close>

abbreviation item_id :: "prepared_job \<Rightarrow> string" where
  "item_id p \<equiv> ej_id (pj_job p)"

lemma retry_later_keeps:
  assumes "handlers_ok env" and "run_ok s"
  shows "run_ok (with_jobs (snd (we_retry_later env p e (ws_db s))) s) \<and> leases (with_jobs (snd (we_retry_later env p e (ws_db s))) s) = leases s"
  using handler_keeps [of "\<lambda>db. snd (we_retry_later env p e db)" s] assms by (simp add: handlers_ok_def)

lemma finish_failed_ends:
  assumes "handlers_ok env" and "run_ok s" and "item_id p \<in> leases s"
  shows "ends_run {item_id p} s (finish_failed_item env e p s)"
proof -
  obtain q db where q: "we_retry_later env p e (ws_db s) = (q, db)" by fastforce
  have s1: "run_ok (with_jobs db s)" "leases (with_jobs db s) = leases s"
    using retry_later_keeps [OF assms(1,2), of p e] q by simp_all
  have "ends_run {item_id p} s (fail_leased env (pj_job p) e s)" by (rule fail_ends [OF assms(2,3)])
  moreover have "ends_run {item_id p} s (fail_leased env (pj_job p) e (with_jobs db s))"
    unfolding ends_run_start [OF s1(2), symmetric] by (rule fail_ends [OF s1(1)]) (simp add: s1(2) assms(3))
  moreover have "ends_run {item_id p} s (Inr (complete_leased env (pj_job p) (with_jobs db s)) :: run_result run)"
    using complete_ends [OF s1(1), of "pj_job p" env] ends_leases_start [OF s1(2)] by (intro ends_run_pair) simp
  ultimately show ?thesis by (simp add: finish_failed_item_def Let_def q)
qed

lemma apply_keeps:
  assumes "handlers_ok env" and "run_ok s"
  shows "run_ok (snd (apply_vector env p v s)) \<and> leases (snd (apply_vector env p v s)) = leases s"
  using handler_keeps [of "\<lambda>db. snd (we_apply env p v db)" s] assms
  by (simp add: handlers_ok_def apply_vector_def split: prod.split) (metis snd_conv)

lemma finish_item_ends:
  assumes "handlers_ok env" and "run_ok s" and "item_id p \<in> leases s"
  shows "ends_run {item_id p} s (finish_item env (p, v) s)"
proof -
  obtain e s1 where a: "apply_vector env p v s = (e, s1)" by fastforce
  have s1: "run_ok s1" "leases s1 = leases s" using apply_keeps [OF assms(1,2), of p v] a by simp_all
  have "ends_run {item_id p} s1 (finish_item env (p, v) s)"
    unfolding finish_item_def Let_def prod.case a
    using complete_ends [OF s1(1)] fail_ends [OF s1(1)] s1(2) assms(3) by (auto split: option.split intro: ends_run_pair)
  then show ?thesis unfolding ends_run_start [OF s1(2)] .
qed

lemma run_item_alone_ends:
  assumes "handlers_ok env" and "run_ok s" and "item_id p \<in> leases s"
  shows "ends_run {item_id p} s (run_item_alone env p s)"
proof -
  obtain got s1 where g: "ask_embedder env [embed_text p] (pj_role p) s = (got, s1)" by fastforce
  have s1: "run_ok s1" "leases s1 = leases s"
    using clock_same(5,6) [of env "[embed_text p]" "pj_role p" s] assms(2) g by simp_all
  have "ends_run {item_id p} s1 (run_item_alone env p s)"
  proof (cases got)
    case (Inl e)
    then show ?thesis using finish_failed_ends [OF assms(1) s1(1)] assms(3) s1(2) by (simp add: run_item_alone_def g)
  next
    case (Inr vs)
    obtain e s2 where a: "apply_vector env p (case vs of [] \<Rightarrow> [] | v # _ \<Rightarrow> v) s1 = (e, s2)" by fastforce
    have s2: "run_ok s2" "leases s2 = leases s1" using apply_keeps [OF assms(1) s1(1)] a by (metis snd_conv)+
    have "ends_run {item_id p} s2 (run_item_alone env p s)"
      unfolding run_item_alone_def g Let_def prod.case Inr sum.case a
      using complete_ends [OF s2(1)] finish_failed_ends [OF assms(1) s2(1)] s1(2) s2(2) assms(3)
      by (auto split: option.split intro: ends_run_pair)
    then show ?thesis unfolding ends_run_start [OF s2(2)] .
  qed
  then show ?thesis unfolding ends_run_start [OF s1(2)] .
qed

lemma with_vectors_fst: "map fst (with_vectors ps vs) = ps"
  unfolding with_vectors_def by (simp add: comp_def case_prod_beta)

lemma role_batch_ends:
  assumes env: "handlers_ok env" and ok: "run_ok s" and d: "distinct (map item_id ps)" and l: "item_id ` set ps \<subseteq> leases s"
  shows "ends_run (item_id ` {p \<in> set ps. pj_role p = role}) s (embed_role_batch env role ps s)"
proof (cases "filter (\<lambda>p. pj_role p = role) ps = []")
  case True
  then have none: "{p \<in> set ps. pj_role p = role} = {}" unfolding filter_empty_conv by blast
  have "embed_role_batch env role ps s = Inr ([], s)" using True by (simp add: embed_role_batch_def)
  then show ?thesis unfolding none using ok by (simp add: ends_run_def ends_leases_def)
next
  case False
  let ?batch = "filter (\<lambda>p. pj_role p = role) ps"
  obtain got s1 where g: "ask_embedder env (map embed_text ?batch) role s = (got, s1)" by fastforce
  have s1: "run_ok s1" "leases s1 = leases s"
    using clock_same(5,6) [of env "map embed_text ?batch" role s] ok g by simp_all
  have d': "distinct (map item_id ?batch)" using distinct_map_filter [OF d] .
  have l': "item_id ` set ?batch \<subseteq> leases s1" using l s1(2) by auto
  have vs: "ends_run (item_id ` set ?batch) s1 (collect (finish_item env) (with_vectors ?batch vs) s1)" for vs
  proof -
    have fst: "map (\<lambda>x. item_id (fst x)) (with_vectors ?batch vs) = map item_id ?batch"
      using arg_cong [OF with_vectors_fst [of ?batch vs], of "map item_id"] by (simp add: comp_def)
    have set: "(\<lambda>x. item_id (fst x)) ` set (with_vectors ?batch vs) = item_id ` set ?batch"
      using arg_cong [OF fst, of set] by simp
    have "ends_run ((\<lambda>x. item_id (fst x)) ` set (with_vectors ?batch vs)) s1 (collect (finish_item env) (with_vectors ?batch vs) s1)"
    proof (rule collect_ends [OF _ s1(1)])
      show "ends_run {item_id (fst x)} s (finish_item env x s)" if "run_ok s" "item_id (fst x) \<in> leases s" for x s
        using finish_item_ends [OF env that(1), of "fst x" "snd x"] that(2) by simp
    qed (use d' l' in \<open>simp_all only: fst set\<close>)
    then show ?thesis unfolding set .
  qed
  have alone: "ends_run (item_id ` set ?batch) s1 (collect (run_item_alone env) ?batch s1)"
    by (rule collect_ends [OF run_item_alone_ends [OF env] s1(1) d' l'])
  have failed: "ends_run (item_id ` set ?batch) s1 (collect (finish_failed_item env e) ?batch s1)" for e
    by (rule collect_ends [OF finish_failed_ends [OF env] s1(1) d' l'])
  have "ends_run (item_id ` set ?batch) s1 (embed_role_batch env role ps s)"
    unfolding embed_role_batch_def Let_def if_not_P [OF False] g prod.case
    using vs alone failed by (simp split: sum.split)
  then show ?thesis unfolding ends_run_start [OF s1(2)] by simp
qed

lemma prepare_all_ends:
  assumes "handlers_ok env" and "run_ok s" and "distinct (map ej_id js)" and "ej_id ` set js \<subseteq> leases s"
  shows "\<exists>rs ps s'. prepare_all env js s = Inr ((rs, ps), s') \<and> run_ok s' \<and> distinct (map item_id ps)
    \<and> item_id ` set ps \<subseteq> ej_id ` set js \<and> leases s' = leases s - (ej_id ` set js - item_id ` set ps)"
  using assms
proof (induction js arbitrary: s)
  case Nil
  then show ?case by simp
next
  case (Cons j js)
  define s1 where "s1 = mark_processing_leased env j (append_change Leased j s)"
  obtain item db where p: "we_prepare env j (ws_db s1) = (item, db)" by fastforce
  define s2 where "s2 = with_jobs db s1"
  have "keeps_leases (\<lambda>db. snd (we_prepare env j db))" using Cons.prems(1) by (simp add: handlers_ok_def)
  moreover have "run_ok s1" "leases s1 = leases s" using Cons.prems(2) start_same by (simp_all add: s1_def)
  ultimately have s2: "run_ok s2" "leases s2 = leases s"
    using handler_keeps [of "\<lambda>db. snd (we_prepare env j db)" s1] p by (simp_all add: s2_def)
  let ?first = "case item of
           Inl e \<Rightarrow> bindE (fail_leased env j e s2) (\<lambda>(r, s). Inr (([r], []), s))
         | Inr None \<Rightarrow> (let (r, s) = complete_leased env j s2 in Inr (([r], []), s))
         | Inr (Some p) \<Rightarrow> Inr (([], [p]), s2)"
  have all: "prepare_all env (j # js) s = bindE ?first (\<lambda>((rs, ps), s).
         bindE (prepare_all env js s) (\<lambda>((rs', ps'), s). Inr ((rs @ rs', ps @ ps'), s)))"
    unfolding prepare_all.simps Let_def s1_def [symmetric] p prod.case s2_def [symmetric] ..
  have "\<exists>rs ps s'. ?first = Inr ((rs, ps), s') \<and> run_ok s'
    \<and> (ps = [] \<and> leases s' = leases s - {ej_id j} \<or> (\<exists>p. ps = [p] \<and> pj_job p = j) \<and> leases s' = leases s)"
  proof (cases item)
    case (Inl e)
    have "ends_run {ej_id j} s2 (fail_leased env j e s2)" using fail_ends [OF s2(1)] Cons.prems(4) s2(2) by simp
    then obtain r s' where "fail_leased env j e s2 = Inr (r, s')" "ends_leases {ej_id j} s2 s'" unfolding ends_run_def by blast
    then show ?thesis using Inl s2(2) by (simp add: ends_leases_def)
  next
    case (Inr it)
    show ?thesis
    proof (cases it)
      case None
      obtain r s' where "complete_leased env j s2 = (r, s')" by fastforce
      then show ?thesis using Inr None complete_ends [OF s2(1), of j env] s2(2) by (simp add: ends_leases_def)
    next
      case (Some pj)
      have "pj_job pj = j" using Cons.prems(1) p unfolding handlers_ok_def Inr Some by (metis fst_conv)
      then show ?thesis using Inr Some s2 by simp
    qed
  qed
  then obtain rs ps s3 where first: "?first = Inr ((rs, ps), s3)" "run_ok s3"
    "ps = [] \<and> leases s3 = leases s - {ej_id j} \<or> (\<exists>p. ps = [p] \<and> pj_job p = j) \<and> leases s3 = leases s" by blast
  have jn: "ej_id j \<notin> ej_id ` set js" using Cons.prems(3) by simp
  have "ej_id ` set js \<subseteq> leases s - {ej_id j}" using Cons.prems(4) jn by (simp add: subset_Diff_insert)
  moreover have "leases s - {ej_id j} \<subseteq> leases s3" using first(3) by blast
  ultimately have sub: "ej_id ` set js \<subseteq> leases s3" by (rule order_trans)
  obtain rs' ps' s' where rest: "prepare_all env js s3 = Inr ((rs', ps'), s')" "run_ok s'" "distinct (map item_id ps')"
      "item_id ` set ps' \<subseteq> ej_id ` set js" "leases s' = leases s3 - (ej_id ` set js - item_id ` set ps')"
    using Cons.IH [OF Cons.prems(1) first(2) _ sub] Cons.prems(3) by auto
  have "prepare_all env (j # js) s = Inr ((rs @ rs', ps @ ps'), s')" unfolding all first(1) using rest(1) by simp
  moreover have "distinct (map item_id (ps @ ps'))" using first(3) rest(3,4) jn by auto
  moreover have "item_id ` set (ps @ ps') \<subseteq> ej_id ` set (j # js)" using first(3) rest(4) by auto
  moreover have "leases s' = leases s - (ej_id ` set (j # js) - item_id ` set (ps @ ps'))"
  proof (cases "ps = []")
    case True
    then have l3: "leases s3 = leases s - {ej_id j}" using first(3) by auto
    have "ej_id ` set (j # js) - item_id ` set (ps @ ps') = {ej_id j} \<union> (ej_id ` set js - item_id ` set ps')"
      using True jn rest(4) by auto
    then show ?thesis unfolding rest(5) l3 by blast
  next
    case False
    then obtain p where pp: "ps = [p]" "pj_job p = j" and l3: "leases s3 = leases s" using first(3) by auto
    have "ej_id ` set (j # js) - item_id ` set (ps @ ps') = ej_id ` set js - item_id ` set ps'"
      using pp jn by auto
    then show ?thesis unfolding rest(5) l3 by simp
  qed
  ultimately show ?case using rest(2) by blast
qed

lemma run_leased_embeddings_ends:
  assumes env: "handlers_ok env" and ok: "run_ok s" and d: "distinct (map ej_id js)" and l: "ej_id ` set js \<subseteq> leases s"
  shows "ends_run (ej_id ` set js) s (run_leased_embeddings env js s)"
proof -
  obtain rs ps s1 where p: "prepare_all env js s = Inr ((rs, ps), s1)" "run_ok s1" "distinct (map item_id ps)"
    "item_id ` set ps \<subseteq> ej_id ` set js" "leases s1 = leases s - (ej_id ` set js - item_id ` set ps)"
    using prepare_all_ends [OF env ok d l] by blast
  have l1: "item_id ` set ps \<subseteq> leases s1" using p(4,5) l by auto
  let ?D = "item_id ` {p \<in> set ps. pj_role p = Document}" and ?Q = "item_id ` {p \<in> set ps. pj_role p = Query}"
  obtain rs1 s2 where b1: "embed_role_batch env Document ps s1 = Inr (rs1, s2)" "ends_leases ?D s1 s2"
    using role_batch_ends [OF env p(2,3) l1, of Document] unfolding ends_run_def by blast
  text \<open>The jobs of the queries are still leased after the documents.\<close>
  have inj: "inj_on item_id (set ps)" using p(3) by (simp add: distinct_map)
  have "?D \<inter> ?Q = item_id ` ({p \<in> set ps. pj_role p = Document} \<inter> {p \<in> set ps. pj_role p = Query})"
    by (rule inj_on_image_Int [OF inj, symmetric]) auto
  then have disj: "?D \<inter> ?Q = {}" by auto
  have s2: "run_ok s2" "leases s2 = leases s1 - ?D" using b1(2) by (simp_all add: ends_leases_def)
  define qs where "qs = filter (\<lambda>p. pj_role p = Query) ps"
  have q: "embed_role_batch env Query ps s2 = embed_role_batch env Query qs s2" by (simp add: qs_def embed_role_batch_def)
  have qset: "item_id ` {p \<in> set qs. pj_role p = Query} = ?Q" by (auto simp: qs_def)
  have "distinct (map item_id qs)" unfolding qs_def using distinct_map_filter [OF p(3)] .
  moreover have "item_id ` set qs \<subseteq> leases s2"
    using l1 disj unfolding s2(2) qs_def set_filter by blast
  ultimately obtain rs2 s3 where b2: "embed_role_batch env Query qs s2 = Inr (rs2, s3)" "ends_leases ?Q s2 s3"
    using role_batch_ends [OF env s2(1), of qs Query] unfolding ends_run_def qset by blast
  have "run_leased_embeddings env js s = Inr (rs @ rs1 @ rs2, s3)"
    by (simp add: run_leased_embeddings_def p(1) b1(1) q b2(1))
  moreover have "item_id ` set ps = ?D \<union> ?Q"
  proof -
    have "set ps = {p \<in> set ps. pj_role p = Document} \<union> {p \<in> set ps. pj_role p = Query}" using embed_role.exhaust by auto
    then show ?thesis by (metis image_Un)
  qed
  then have "leases s - (ej_id ` set js - item_id ` set ps) - ?D - ?Q = leases s - ej_id ` set js" using p(4) by auto
  then have "ends_leases (ej_id ` set js) s s3" using b2(2) p(5) s2(2) by (simp add: ends_leases_def)
  ultimately show ?thesis by (simp add: ends_run_def)
qed

section \<open>The whole queue\<close>

lemma chunks_ends:
  assumes "handlers_ok env" and "run_ok s" and "distinct (map ej_id batch)" and "ej_id ` set batch \<subseteq> leases s"
  shows "ends_run (ej_id ` set batch) s (run_chunks env t first batch s)"
  using assms
proof (induction env t first batch s rule: run_chunks.induct)
  case (1 env t first batch s)
  show ?case
  proof (cases "batch = []")
    case True
    then show ?thesis using 1(3) by (simp add: run_chunks.simps ends_run_def ends_leases_def)
  next
    case False
    obtain paused s1 where a: "(if first then (False, s) else ask_paused env s) = (paused, s1)" by fastforce
    have s1: "run_ok s1" "leases s1 = leases s"
      using 1(3) a clock_same(1,2) [of env s] by (cases first; simp)+
    show ?thesis
    proof (cases "paused \<and> consumes env t")
      case True
      then have "run_chunks env t first batch s = Inr ([], give_back env batch s1)"
        using False a by (subst run_chunks.simps) simp
      then show ?thesis using give_back_ends [OF s1(1), of batch env] ends_leases_start [OF s1(2)] by (simp add: ends_run_Inr)
    next
      case go: False
      have eq: "run_chunks env t first batch s = bindE (collect (run_leased env) (take 4 batch) s1) (\<lambda>(rs, s).
             bindE (run_chunks env t False (drop 4 batch) s) (\<lambda>(rs', s). Inr (rs @ rs', s)))"
        using False a go by (subst run_chunks.simps) (simp only: if_False Let_def prod.case)
      have split: "set batch = set (take 4 batch) \<union> set (drop 4 batch)" by (metis append_take_drop_id set_append)
      have dist: "distinct (map ej_id (take 4 batch) @ map ej_id (drop 4 batch))"
        using 1(4) by (metis append_take_drop_id map_append)
      have c: "ends_run (ej_id ` set (take 4 batch)) s1 (collect (run_leased env) (take 4 batch) s1)"
        by (rule collect_ends [OF run_leased_ends [OF 1(2)] s1(1)]) (use dist 1(5) s1(2) split in auto)
      have "ends_run (ej_id ` set (take 4 batch) \<union> ej_id ` set (drop 4 batch)) s1 (run_chunks env t first batch s)"
        unfolding eq
      proof (rule ends_run_bind [OF c], unfold prod.case, rule ends_run_then)
        fix rs s' assume "ends_leases (ej_id ` set (take 4 batch)) s1 s'"
        then have s': "run_ok s'" "leases s' = leases s1 - ej_id ` set (take 4 batch)" by (simp_all add: ends_leases_def)
        show "ends_run (ej_id ` set (drop 4 batch)) s' (run_chunks env t False (drop 4 batch) s')"
        proof (rule 1(1) [OF False refl a [symmetric] go 1(2) s'(1)])
        qed (use dist 1(5) s1(2) s'(2) split in auto)
      qed
      then show ?thesis unfolding ends_run_start [OF s1(2)] split image_Un .
    qed
  qed
qed

lemma held_free: "set queue = set (held_jobs env paused queue) \<union> set (free_jobs env paused queue)"
  by (auto simp: held_jobs_def free_jobs_def)

lemma distinct_held_free:
  assumes "distinct (map ej_id queue)"
  shows "distinct (map ej_id (free_jobs env paused queue))"
    and "ej_id ` set (held_jobs env paused queue) \<inter> ej_id ` set (free_jobs env paused queue) = {}"
proof -
  show "distinct (map ej_id (free_jobs env paused queue))"
    using assms distinct_map_filter [OF assms] by (simp add: free_jobs_def)
  have inj: "inj_on ej_id (set queue)" using assms by (simp add: distinct_map)
  have "ej_id ` set (held_jobs env paused queue) \<inter> ej_id ` set (free_jobs env paused queue)
      = ej_id ` (set (held_jobs env paused queue) \<inter> set (free_jobs env paused queue))"
    by (rule inj_on_image_Int [OF inj, symmetric]) (auto simp: held_jobs_def free_jobs_def)
  also have "set (held_jobs env paused queue) \<inter> set (free_jobs env paused queue) = {}"
    by (auto simp: held_jobs_def free_jobs_def)
  finally show "ej_id ` set (held_jobs env paused queue) \<inter> ej_id ` set (free_jobs env paused queue) = {}" by simp
qed

lemma ends_run_after:
  assumes "ends_leases I s s1" and "ends_run J s1 m"
  shows "ends_run (I \<union> J) s m"
proof -
  obtain r s' where "m = Inr (r, s')" "ends_leases J s1 s'" using assms(2) unfolding ends_run_def by blast
  then show ?thesis unfolding ends_run_def using ends_leases_trans [OF assms(1)] by blast
qed

text \<open>A part of a queue is run, then the rest of it.\<close>

lemma part_then_rest:
  assumes "ends_run (ej_id ` A) s m" and "A \<union> set rest = set queue" and "ej_id ` A \<inter> ej_id ` set rest = {}"
    and "ej_id ` set queue \<subseteq> leases s"
    and "\<And>s'. run_ok s' \<Longrightarrow> ej_id ` set rest \<subseteq> leases s' \<Longrightarrow> ends_run (ej_id ` set rest) s' (d s')"
  shows "ends_run (ej_id ` set queue) s (bindE m (\<lambda>(r, s'). bindE (d s') (\<lambda>(rs, s'). Inr (g r rs, s'))))"
proof -
  have "ends_run (ej_id ` A \<union> ej_id ` set rest) s (bindE m (\<lambda>(r, s'). bindE (d s') (\<lambda>(rs, s'). Inr (g r rs, s'))))"
  proof (rule ends_run_bind [OF assms(1)], unfold prod.case, rule ends_run_then)
    fix r s' assume "ends_leases (ej_id ` A) s s'"
    then have "run_ok s'" "leases s' = leases s - ej_id ` A" by (simp_all add: ends_leases_def)
    moreover have "ej_id ` set rest \<subseteq> leases s" using assms(2,4) by blast
    ultimately show "ends_run (ej_id ` set rest) s' (d s')" using assms(3) by (intro assms(5)) blast+
  qed
  then show ?thesis unfolding image_Un [symmetric] assms(2) .
qed

lemma drain_ends:
  assumes "handlers_ok env" and "run_ok s" and "distinct (map ej_id queue)" and "ej_id ` set queue \<subseteq> leases s"
  shows "ends_run (ej_id ` set queue) s (drain env queue s)"
  using assms
proof (induction "length queue" arbitrary: queue s rule: less_induct)
  case less
  note env = less.prems(1)
  show ?case
  proof (cases "queue = []")
    case True
    then show ?thesis using less.prems(2) by (simp add: drain.simps ends_run_def ends_leases_def)
  next
    case False
    obtain paused s1 where a: "ask_paused env s = (paused, s1)" by fastforce
    have s1: "run_ok s1" "leases s1 = leases s" using less.prems(2) clock_same(1,2) [of env s] a by simp_all
    define s2 where "s2 = give_back env (held_jobs env paused queue) s1"
    have held: "ends_leases (ej_id ` set (held_jobs env paused queue)) s s2"
      using give_back_ends [OF s1(1), of "held_jobs env paused queue" env] ends_leases_start [OF s1(2)] by (simp add: s2_def)
    let ?free = "free_jobs env paused queue"
    have s2: "run_ok s2" "leases s2 = leases s - ej_id ` set (held_jobs env paused queue)" using held by (simp_all add: ends_leases_def)
    note df = distinct_held_free [OF less.prems(3), where env = env and paused = paused]
    have sub: "ej_id ` set ?free \<subseteq> leases s2"
      using less.prems(4) df(2) held_free [of queue env paused] unfolding s2(2) by blast
    have rest: "ends_run (ej_id ` set q) s' (drain env q s')"
      if "length q < length queue" "run_ok s'" "distinct (map ej_id q)" "ej_id ` set q \<subseteq> leases s'" for q s'
      using less.hyps [OF that(1) env that(2-4)] .
    have eq: "drain env queue s = (case ?free of [] \<Rightarrow> Inr ([], s2)
        | j # rest \<Rightarrow>
            if runs_in_parallel j
            then let t = ej_type j; batch = takeWhile (\<lambda>k. ej_type k = t) (j # rest); rest' = dropWhile (\<lambda>k. ej_type k = t) (j # rest);
                     (paused, s) = ask_paused env s2
                 in if paused \<and> consumes env t then drain env rest' (give_back env batch s)
                    else bindE (if t = ''embedding'' then run_leased_embeddings env batch s else run_chunks env t True batch s) (\<lambda>(rs, s).
                         bindE (drain env rest' s) (\<lambda>(rs', s). Inr (rs @ rs', s)))
            else bindE (run_leased env j s2) (\<lambda>(r, s). bindE (drain env rest s) (\<lambda>(rs, s). Inr (r # rs, s))))"
      unfolding drain.simps [of env queue s] if_not_P [OF False] a Let_def prod.case s2_def ..
    have "ends_run (ej_id ` set ?free) s2 (drain env queue s)"
    proof (cases ?free)
      case Nil
      then show ?thesis using s2(1) unfolding eq by (simp add: ends_run_def ends_leases_def)
    next
      case (Cons j rest)
      have dist: "distinct (map ej_id (j # rest))" using df(1) unfolding Cons .
      have sub': "ej_id ` set (j # rest) \<subseteq> leases s2" using sub unfolding Cons .
      show ?thesis
      proof (cases "runs_in_parallel j")
        case False
        have go: "drain env queue s = bindE (run_leased env j s2) (\<lambda>(r, s). bindE (drain env rest s) (\<lambda>(rs, s). Inr (r # rs, s)))"
          unfolding eq Cons list.case if_not_P [OF False] ..
        have run: "ends_run (ej_id ` {j}) s2 (run_leased env j s2)" using run_leased_ends [OF env s2(1)] sub' by simp
        show ?thesis
          unfolding go Cons
          by (rule part_then_rest [OF run _ _ sub']) (use rest free_jobs_less [OF Cons] dist in auto)
      next
        case True
        let ?P = "\<lambda>k. ej_type k = ej_type j"
        let ?b = "takeWhile ?P (j # rest)" and ?r = "dropWhile ?P (j # rest)"
        obtain paused' s3 where a': "ask_paused env s2 = (paused', s3)" by fastforce
        have s3: "run_ok s3" "leases s3 = leases s2" using s2(1) clock_same(1,2) [of env s2] a' by simp_all
        have go: "drain env queue s = (if paused' \<and> consumes env (ej_type j) then drain env ?r (give_back env ?b s3)
            else bindE (if ej_type j = ''embedding'' then run_leased_embeddings env ?b s3 else run_chunks env (ej_type j) True ?b s3) (\<lambda>(rs, s).
                 bindE (drain env ?r s) (\<lambda>(rs', s). Inr (rs @ rs', s))))"
          unfolding eq Cons list.case if_P [OF True] Let_def a' prod.case ..
        have set: "set ?b \<union> set ?r = set (j # rest)" by (metis set_append takeWhile_dropWhile_id)
        have "distinct (map ej_id ?b @ map ej_id ?r)" using dist by (metis map_append takeWhile_dropWhile_id)
        then have parts: "distinct (map ej_id ?b)" "distinct (map ej_id ?r)" "ej_id ` set ?b \<inter> ej_id ` set ?r = {}"
          unfolding distinct_append set_map by blast+
        have b3: "ej_id ` set ?b \<subseteq> leases s3" using sub' set unfolding s3(2) by blast
        have part: "ends_run (ej_id ` set ?b) s2 (if ej_type j = ''embedding'' then run_leased_embeddings env ?b s3 else run_chunks env (ej_type j) True ?b s3)"
          unfolding ends_run_start [OF s3(2), symmetric]
          using run_leased_embeddings_ends [OF env s3(1) parts(1) b3] chunks_ends [OF env s3(1) parts(1) b3]
          by (cases "ej_type j = ''embedding''") (simp_all only: if_True if_False simp_thms)
        show ?thesis
        proof (cases "paused' \<and> consumes env (ej_type j)")
          case hold: True
          have gb: "ends_leases (ej_id ` set ?b) s2 (give_back env ?b s3)"
            using give_back_ends [OF s3(1), of ?b env] unfolding ends_leases_start [OF s3(2)] .
          have "ends_run (ej_id ` set ?b \<union> ej_id ` set ?r) s2 (drain env ?r (give_back env ?b s3))"
          proof (rule ends_run_after [OF gb])
            show "ends_run (ej_id ` set ?r) (give_back env ?b s3) (drain env ?r (give_back env ?b s3))"
            proof (rule rest [OF free_jobs_drop [OF Cons] _ parts(2)])
              show "run_ok (give_back env ?b s3)" using gb by (simp add: ends_leases_def)
              have "leases (give_back env ?b s3) = leases s2 - ej_id ` set ?b" using gb by (simp add: ends_leases_def)
              moreover have "ej_id ` set ?r \<subseteq> leases s2" using sub' set by blast
              ultimately show "ej_id ` set ?r \<subseteq> leases (give_back env ?b s3)" using parts(3) by blast
            qed
          qed
          then show ?thesis unfolding go if_P [OF hold] Cons image_Un [symmetric] set .
        next
          case nohold: False
          show ?thesis
            unfolding go if_not_P [OF nohold] Cons
            by (rule part_then_rest [OF part set parts(3) sub']) (rule rest [OF free_jobs_drop [OF Cons] _ parts(2)])
        qed
      qed
    qed
    then have "ends_run (ej_id ` set (held_jobs env paused queue) \<union> ej_id ` set ?free) s (drain env queue s)"
      by (rule ends_run_after [OF held])
    then show ?thesis unfolding image_Un [symmetric] held_free [of queue env paused, symmetric] .
  qed
qed

section \<open>A run\<close>

lemma leased_ids_requeue_failed:
  assumes js: "jobs_ok (jd_jobs db)"
  shows "leased_ids (snd (requeue_failed n now ts db)) = leased_ids db"
proof (cases "ts = Some []")
  case True
  then show ?thesis by (simp add: requeue_failed_def)
next
  case False
  let ?P = "\<lambda>j. ej_status j = JFailed \<and> ej_attempts j < ej_max j \<and> targets_ok ts j"
  let ?rows = "take n (select_jobs db ?P)"
  have nc: "no_clashes (jd_jobs db)" using js by (simp add: jobs_ok_def)
  have rows: "set ?rows \<subseteq> {j \<in> set (jd_jobs db). ?P j}"
    using set_take_subset [of n "select_jobs db ?P"] by simp
  have "distinct (map ej_id ?rows)" using distinct_ids_select [OF nc] by (simp add: take_map [symmetric])
  then have upd: "jd_jobs (snd (requeue_failed n now ts db)) = update_row (\<lambda>j. ej_id j \<in> ej_id ` set ?rows) (back_in_queue now) (jd_jobs db)"
    using False by (simp add: requeue_failed_def requeue_rows_def jobs_update_each)
  have failed: "ej_status j = JFailed" if "j \<in> set (jd_jobs db)" "ej_id j \<in> ej_id ` set ?rows" for j
    using row_of_id [OF nc _ that] rows by blast
  have "leased_ids (snd (requeue_failed n now ts db)) = leased_ids db - ej_id ` set ?rows"
    by (rule leased_ids_update [of "back_in_queue now" _ "ej_id ` set ?rows" "\<lambda>_. True"])
      (simp_all add: upd back_in_queue_def)
  moreover have "leased_ids db \<inter> ej_id ` set ?rows = {}"
  proof (rule ccontr)
    assume "leased_ids db \<inter> ej_id ` set ?rows \<noteq> {}"
    then obtain i where i: "i \<in> leased_ids db" "i \<in> ej_id ` set ?rows" by blast
    obtain j where "j \<in> set (jd_jobs db)" "ej_status j = JLeased" "ej_id j = i" using i(1) by (rule leased_idsE)
    then show False using failed [of j] i(2) by simp
  qed
  ultimately show ?thesis by blast
qed

lemma leased_ids_lease:
  assumes js: "jobs_ok (jd_jobs db)" and run: "lease_jobs sql now u q db = (rows, db')"
  shows "leased_ids db' = leased_ids db \<union> ej_id ` set rows \<and> distinct (map ej_id rows)"
proof (cases "lr_targets q = Some [] \<or> lr_allowed q = Some []")
  case True
  then show ?thesis using leased_jobs_of [OF run] by auto
next
  case False
  have nc: "no_clashes (jd_jobs db)" using js by (simp add: jobs_ok_def)
  let ?rows = "lease_rows sql now q db"
  have rows: "rows = map (leased_job now u) ?rows" using leased_jobs_of [OF run] False by blast
  have ids: "ej_id ` set rows = ej_id ` set ?rows" unfolding rows set_map ids_leased ..
  have db': "jd_jobs db' = update_row (\<lambda>j. ej_id j \<in> ej_id ` set ?rows) (leased_job now u) (jd_jobs db)"
    using lease_jobs_jobs [OF nc, of q sql now u] False run by simp
  have "leased_ids db' = leased_ids db \<union> ej_id ` set ?rows"
  proof (intro set_eqI iffI)
    fix i assume "i \<in> leased_ids db'"
    then obtain j where j: "j \<in> set (jd_jobs db')" "ej_status j = JLeased" "ej_id j = i" by (rule leased_idsE)
    then obtain k where k: "k \<in> set (jd_jobs db)" "j = (if ej_id k \<in> ej_id ` set ?rows then leased_job now u k else k)"
      unfolding db' in_update_row by blast
    show "i \<in> leased_ids db \<union> ej_id ` set ?rows"
    proof (cases "ej_id k \<in> ej_id ` set ?rows")
      case True
      then show ?thesis using k(2) j(3) by (simp add: leased_job_def)
    next
      case False
      then have "j = k" using k(2) by simp
      then show ?thesis using j k(1) unfolding leased_ids_def by blast
    qed
  next
    fix i assume "i \<in> leased_ids db \<union> ej_id ` set ?rows"
    then obtain k where k: "k \<in> set (jd_jobs db)" "ej_id k = i" "ej_status k = JLeased \<or> i \<in> ej_id ` set ?rows"
    proof
      assume "i \<in> leased_ids db"
      then show ?thesis using that by (elim leased_idsE) blast
    next
      assume i: "i \<in> ej_id ` set ?rows"
      then obtain r where "r \<in> set ?rows" "i = ej_id r" by blast
      then show ?thesis using that [of r] lease_rows_subset [of sql now q db] i by blast
    qed
    let ?j = "if ej_id k \<in> ej_id ` set ?rows then leased_job now u k else k"
    have "?j \<in> set (jd_jobs db')" unfolding db' in_update_row using k(1) by blast
    moreover have "ej_status ?j = JLeased" "ej_id ?j = i" using k(2,3) by (auto simp: leased_job_def)
    ultimately show "i \<in> leased_ids db'" unfolding leased_ids_def by blast
  qed
  moreover have "distinct (map ej_id rows)" unfolding rows ids_leased by (rule distinct_lease_rows [OF nc])
  ultimately show ?thesis unfolding ids by blast
qed

lemma leased_ids_expired: "jobs_ok (jd_jobs db) \<Longrightarrow> leased_ids (snd (requeue_expired_except ts now db)) \<subseteq> leased_ids db"
proof
  fix i assume js: "jobs_ok (jd_jobs db)" and "i \<in> leased_ids (snd (requeue_expired_except ts now db))"
  then obtain j where j: "j \<in> set (jd_jobs (snd (requeue_expired_except ts now db)))" "ej_status j = JLeased" "ej_id j = i"
    by (elim leased_idsE)
  have nc: "no_clashes (jd_jobs db)" using js by (simp add: jobs_ok_def)
  obtain k where k: "k \<in> set (jd_jobs db)" "j = (if lease_expired now k \<and> ej_type k \<notin> set ts then given_back now k else k)"
    using j(1) unfolding requeue_expired_except_def requeue_leased_jobs [OF nc] in_update_row by blast
  then have "j = k" using j(2) given_back_not_leased by (metis (full_types))
  then show "i \<in> leased_ids db" using j k(1) unfolding leased_ids_def by blast
qed

definition environment_ok :: "worker_env \<Rightarrow> bool" where
  "environment_ok env \<longleftrightarrow> handlers_ok env \<and> (\<forall>n now. keeps_leases (we_backfill env n now)) \<and> (\<forall>b now. keeps_leases (we_refresh env b now))"

lemma with_jobs_ok: "run_ok (with_jobs db s) \<longleftrightarrow> jobs_ok (jd_jobs db)" "leases (with_jobs db s) = leased_ids db"
  by (simp_all add: run_ok_def leases_def)

lemma before_lease_ok:
  assumes env: "environment_ok env" and ok: "run_ok s"
  shows "run_ok (before_lease env rq s) \<and> leases (before_lease env rq s) = leases s"
proof -
  let ?n = "normalized_limit (rq_limit rq)"
  obtain b s0 where p: "(if rq_targets rq = None \<and> we_summary_configured env then (let (paused, s) = ask_paused env s in (\<not> paused, s)) else (False, s)) = (b, s0)"
    by fastforce
  have s0: "run_ok s0" "leases s0 = leases s"
    using p ok by (auto simp: ask_paused_def run_ok_def leases_def split: if_splits)
  define s1 where "s1 = (if b then (let (now, s) = read_now env s0 in with_jobs (we_backfill env (min ?n 100) now (ws_db s)) s) else s0)"
  have "keeps_leases (we_backfill env (min ?n 100) now)" for now using env by (simp add: environment_ok_def)
  then have s1: "run_ok s1 \<and> leases s1 = leases s"
    using s0 by (cases b) (simp_all add: s1_def read_now_def with_jobs_ok keeps_leases_def run_ok_def leases_def)
  obtain now s2 where r: "read_now env s1 = (now, s2)" by fastforce
  have s2: "ws_db s2 = ws_db s1" using r by (auto simp: read_now_def)
  obtain pairs db where q: "requeue_failed ?n now (rq_targets rq) (ws_db s2) = (pairs, db)" by fastforce
  have db: "jobs_ok (jd_jobs db)" "leased_ids db = leases s"
    using s1 s2 jobs_ok_requeue_failed [of "ws_db s2" ?n now "rq_targets rq"] leased_ids_requeue_failed [of "ws_db s2" ?n now "rq_targets rq"] q
    by (simp_all add: run_ok_def leases_def)
  obtain now' s3 where r': "read_now env (changes_queued pairs (with_jobs db s2)) = (now', s3)" by fastforce
  have s3: "ws_db s3 = db" using r' by (auto simp: read_now_def changes_queued_def)
  have "before_lease env rq s = with_jobs (we_refresh env (we_summary_configured env) now' (ws_db s3)) s3"
    unfolding before_lease_def Let_def p [unfolded Let_def] prod.case s1_def [unfolded Let_def, symmetric] r q r' ..
  then show ?thesis using env db s3 by (simp add: with_jobs_ok environment_ok_def keeps_leases_def)
qed

lemma lease_for_run_ok:
  assumes ok: "run_ok s" and run: "lease_for_run env rq s = (jobs, s')"
  shows "run_ok s' \<and> distinct (map ej_id jobs) \<and> ej_id ` set jobs \<subseteq> leases s' \<and> leases s' \<subseteq> leases s \<union> ej_id ` set jobs"
proof -
  obtain paused s1 where a: "ask_paused env s = (paused, s1)" by fastforce
  have s1: "ws_db s1 = ws_db s" using a by (auto simp: ask_paused_def)
  define s2 where "s2 = (if paused then (let (now, s) = read_now env s1; (pairs, db) = requeue_expired_except (allowed_job_types (we_sources env)) now (ws_db s)
                in changes_queued pairs (with_jobs db s)) else s1)"
  have s2: "jobs_ok (jd_jobs (ws_db s2))" "leased_ids (ws_db s2) \<subseteq> leases s"
    using ok s1 jobs_ok_expired [of "ws_db s"] leased_ids_expired [of "ws_db s"]
    by (auto simp: s2_def read_now_def run_ok_def leases_def changes_queued_def case_prod_beta Let_def)
  obtain now s3 where r: "read_now env s2 = (now, s3)" by fastforce
  obtain now' s4 where r': "read_now env s3 = (now', s4)" by fastforce
  have s4: "ws_db s4 = ws_db s2" using r r' by (auto simp: read_now_def)
  define q where "q = \<lparr>lr_limit = normalized_limit (rq_limit rq), lr_targets = rq_targets rq, lr_cohort = rq_cohort rq,
     lr_allowed = (if paused then Some (allowed_job_types (we_sources env)) else None), lr_excluded = summary_jobs_held env\<rparr>"
  obtain rows db where l: "lease_jobs (we_sql env) now (we_later env now' 60000) q (ws_db s4) = (rows, db)" by fastforce
  have "(jobs, s') = (rows, with_jobs db s4)"
    using run unfolding lease_for_run_def Let_def a prod.case s2_def [unfolded Let_def, symmetric] r r' q_def [symmetric] l by simp
  then have res: "jobs = rows" "s' = with_jobs db s4" by simp_all
  have "jobs_ok (jd_jobs db)" using jobs_ok_lease [of "ws_db s4"] s2(1) s4 l by (metis snd_conv)
  moreover have "leased_ids db = leased_ids (ws_db s4) \<union> ej_id ` set rows \<and> distinct (map ej_id rows)"
    using leased_ids_lease [OF _ l] s2(1) s4 by simp
  ultimately show ?thesis using s2(2) s4 unfolding res by (auto simp: with_jobs_ok)
qed


end
