(* ===== verification/Job_Worker_Budget.thy ===== *)
theory Job_Worker_Budget
  imports Job_Worker
begin

text \<open>
  While the token budget is paused, the worker starts no job that would use it. What is started is read from the log of
  changes, to which every start is appended.
\<close>

section \<open>What a run appends to the log\<close>

definition allowed_change :: "worker_env \<Rightarrow> job_change \<times> evolution_job \<Rightarrow> bool" where
  "allowed_change env c \<longleftrightarrow> fst c \<noteq> Leased \<or> \<not> consumes env (ej_type (snd c))"

definition log_grows :: "worker_env \<Rightarrow> worker_state \<Rightarrow> worker_state \<Rightarrow> bool" where
  "log_grows env s s' \<longleftrightarrow> (\<forall>c\<in>set (ws_changes s'). c \<in> set (ws_changes s) \<or> allowed_change env c)"

definition run_grows :: "worker_env \<Rightarrow> worker_state \<Rightarrow> 'e + 'a \<times> worker_state \<Rightarrow> bool" where
  "run_grows env s res \<longleftrightarrow> (\<forall>r s'. res = Inr (r, s') \<longrightarrow> log_grows env s s')"

lemma log_grows_refl [simp]: "log_grows env s s"
  by (simp add: log_grows_def)

lemma log_grows_trans: "log_grows env s s' \<Longrightarrow> log_grows env s' s'' \<Longrightarrow> log_grows env s s''"
  unfolding log_grows_def by blast

lemma log_grows_same: "ws_changes s' = ws_changes s \<Longrightarrow> log_grows env s s'"
  by (simp add: log_grows_def)

lemma log_grows_append: "allowed_change env (op, j) \<Longrightarrow> log_grows env s s' \<Longrightarrow> log_grows env s (append_change op j s')"
  by (auto simp: log_grows_def append_change_def)

lemma changes_same [simp]:
  "ws_changes (with_jobs db s) = ws_changes s" "ws_changes (set_processing i f st s) = ws_changes s"
  "ws_changes (snd (read_now env s)) = ws_changes s" "ws_changes (snd (ask_paused env s)) = ws_changes s"
  "ws_changes (snd (ask_embedder env ts role s)) = ws_changes s" "ws_changes (snd (apply_vector env p v s)) = ws_changes s"
  by (simp_all add: with_jobs_def set_processing_def read_now_def ask_paused_def ask_embedder_def apply_vector_def split: prod.split)

lemma changes_mark [simp]: "ws_changes (mark_processing_leased env j s) = ws_changes s"
  by (simp add: mark_processing_leased_def read_now_def Let_def set_processing_def split: option.split)

lemma changes_after_failure [simp]: "ws_changes (after_failure env j e s) = ws_changes s"
  by (simp add: after_failure_def read_now_def Let_def set_processing_def split: option.split)

lemma other_change [simp]: "op \<noteq> Leased \<Longrightarrow> allowed_change env (op, j)"
  by (simp add: allowed_change_def)

lemma run_growsI: "(\<And>r s'. res = Inr (r, s') \<Longrightarrow> log_grows env s s') \<Longrightarrow> run_grows env s res"
  by (simp add: run_grows_def)

lemma run_grows_Inr [simp]: "run_grows env s (Inr p) \<longleftrightarrow> log_grows env s (snd p)"
  by (cases p) (simp add: run_grows_def)

lemma run_grows_Inl [simp]: "run_grows env s (Inl e)"
  by (simp add: run_grows_def)

lemma run_grows_bind:
  assumes "run_grows env s m" and "\<And>r s'. m = Inr (r, s') \<Longrightarrow> run_grows env s' (f (r, s'))"
  shows "run_grows env s (bindE m f)"
proof (cases m)
  case (Inr p)
  obtain r s' where p: "p = (r, s')" by fastforce
  have "log_grows env s s'" using assms(1) Inr p by (simp add: run_grows_def)
  moreover have "run_grows env s' (f (r, s'))" using assms(2) Inr p by simp
  ultimately have "run_grows env s (f (r, s'))" unfolding run_grows_def using log_grows_trans by blast
  then show ?thesis using Inr p by simp
qed simp

lemma run_grows_from: "log_grows env s s1 \<Longrightarrow> run_grows env s1 m \<Longrightarrow> run_grows env s m"
  unfolding run_grows_def using log_grows_trans by blast

lemma run_grows_then: "run_grows env s m \<Longrightarrow> run_grows env s (bindE m (\<lambda>(r, s'). Inr (g r, s')))"
  by (rule run_grows_bind) simp_all

section \<open>The steps\<close>

lemma complete_grows: "log_grows env s (snd (complete_leased env j s))"
  by (simp add: complete_leased_def read_now_def Let_def split: prod.split option.split)
    (auto simp: log_grows_def append_change_def allowed_change_def with_jobs_def)

lemma fold_grows: "op \<noteq> Leased \<Longrightarrow> log_grows env s (fold (\<lambda>p. append_change op (g p)) ps s)"
proof (induction ps arbitrary: s)
  case (Cons p ps)
  have "log_grows env s (append_change op (g p) s)" using Cons.prems by (intro log_grows_append) simp_all
  from log_grows_trans [OF this Cons.IH [OF Cons.prems]] show ?case by simp
qed simp

lemma give_back_grows: "log_grows env s (give_back env js s)"
proof (cases "js = []")
  case False
  obtain now s1 where r: "read_now env s = (now, s1)" by fastforce
  obtain pairs db where q: "requeue_unstarted (map ej_id js) now (ws_db s1) = (pairs, db)" by fastforce
  have "give_back env js s = fold (\<lambda>p. append_change Queued (snd p)) pairs (with_jobs db s1)"
    using False r q by (simp add: give_back_def)
  moreover have "log_grows env s (with_jobs db s1)" using r by (auto intro!: log_grows_same simp: read_now_def)
  ultimately show ?thesis using fold_grows log_grows_trans by (metis job_change.distinct(1))
qed (simp add: give_back_def)

lemma hold_grows: "log_grows env s (snd (hold_unconfigured env j s))"
proof -
  have "ws_changes (snd (hold_unconfigured env j s)) = ws_changes (give_back env [j] s)"
    by (simp add: hold_unconfigured_def Let_def read_now_def set_processing_def split: option.split)
  then show ?thesis using give_back_grows [of env s "[j]"] by (simp add: log_grows_def)
qed

lemma defer_grows: "log_grows env s (snd (defer_leased env j s))"
proof -
  obtain now s1 where r: "read_now env s = (now, s1)" by fastforce
  obtain row db where d: "defer_job (ej_id j) (we_later env now 30000) now (ws_db s1) = (row, db)" by fastforce
  have "ws_changes s1 = ws_changes s" using r by (auto simp: read_now_def)
  then show ?thesis
    by (simp add: defer_leased_def r d Let_def split: option.split) (auto simp: log_grows_def append_change_def allowed_change_def)
qed

lemma fail_grows: "run_grows env s (fail_leased env j e s)"
  by (rule run_growsI)
    (auto simp: fail_leased_def Let_def read_now_def log_grows_def append_change_def allowed_change_def with_jobs_def split: sum.splits prod.splits option.splits if_splits)

lemma run_leased_grows:
  assumes "\<not> consumes env (ej_type j)"
  shows "run_grows env s (run_leased env j s)"
proof -
  define s1 where "s1 = mark_processing_leased env j (append_change Leased j s)"
  obtain out db where p: "we_process env j (ws_db s1) = (out, db)" by fastforce
  have "log_grows env s (with_jobs db s1)"
    using assms by (simp add: s1_def log_grows_def append_change_def) (simp add: allowed_change_def)
  moreover have "run_grows env (with_jobs db s1) (run_leased env j s)"
    unfolding run_leased_def Let_def s1_def [symmetric] p prod.case
    by (simp add: complete_grows hold_grows defer_grows fail_grows split: job_outcome.split)
  ultimately show ?thesis by (rule run_grows_from)
qed

lemma collect_grows: "(\<And>x s. x \<in> set xs \<Longrightarrow> run_grows env s (f x s)) \<Longrightarrow> run_grows env s (collect f xs s)"
proof (induction xs arbitrary: s)
  case (Cons x xs)
  show ?case
    unfolding collect.simps
    by (rule run_grows_bind) (use Cons in \<open>auto intro!: run_grows_then\<close>)
qed simp

lemma finish_failed_grows: "run_grows env s (finish_failed_item env e p s)"
proof -
  obtain q db where q: "we_retry_later env p e (ws_db s) = (q, db)" by fastforce
  have s1: "log_grows env s (with_jobs db s)" by (simp add: log_grows_same)
  have "run_grows env s (fail_leased env (pj_job p) e (with_jobs db s))" by (rule run_grows_from [OF s1 fail_grows])
  moreover have "log_grows env s (snd (complete_leased env (pj_job p) (with_jobs db s)))" by (rule log_grows_trans [OF s1 complete_grows])
  ultimately show ?thesis by (simp add: finish_failed_item_def q fail_grows Let_def)
qed

lemma after_vector:
  assumes "apply_vector env p v s = (e, s1)"
  shows "log_grows env s s1"
  using changes_same(6) [of env p v s] assms by (simp add: log_grows_same)

lemma finish_item_grows: "run_grows env s (finish_item env pv s)"
proof -
  obtain p v where pv: "pv = (p, v)" by fastforce
  obtain e s1 where a: "apply_vector env p v s = (e, s1)" by fastforce
  show ?thesis
    by (rule run_grows_from [OF after_vector [OF a]]) (simp add: finish_item_def pv a fail_grows complete_grows split: option.split)
qed

lemma run_item_alone_grows: "run_grows env s (run_item_alone env p s)"
proof -
  obtain got s1 where g: "ask_embedder env [embed_text p] (pj_role p) s = (got, s1)" by fastforce
  have s1: "log_grows env s s1" using g by (auto simp: ask_embedder_def intro!: log_grows_same)
  have "run_grows env s1 (run_item_alone env p s)"
  proof (cases got)
    case (Inr vs)
    obtain e s2 where a: "apply_vector env p (case vs of [] \<Rightarrow> [] | v # _ \<Rightarrow> v) s1 = (e, s2)" by fastforce
    show ?thesis
      by (rule run_grows_from [OF after_vector [OF a]])
        (simp add: run_item_alone_def g Inr a finish_failed_grows complete_grows split: option.split)
  qed (simp add: run_item_alone_def g finish_failed_grows)
  then show ?thesis by (rule run_grows_from [OF s1])
qed

lemma role_batch_grows: "run_grows env s (embed_role_batch env role ps s)"
proof (cases "filter (\<lambda>p. pj_role p = role) ps = []")
  case False
  let ?batch = "filter (\<lambda>p. pj_role p = role) ps"
  obtain got s1 where g: "ask_embedder env (map embed_text ?batch) role s = (got, s1)" by fastforce
  have s1: "log_grows env s s1" using g by (auto simp: ask_embedder_def intro!: log_grows_same)
  show ?thesis
    by (rule run_grows_from [OF s1])
      (use False in \<open>simp add: embed_role_batch_def Let_def g collect_grows finish_item_grows run_item_alone_grows finish_failed_grows split: sum.split\<close>)
qed (simp add: embed_role_batch_def)

lemma prepare_all_grows: "\<forall>j\<in>set js. \<not> consumes env (ej_type j) \<Longrightarrow> run_grows env s (prepare_all env js s)"
proof (induction js arbitrary: s)
  case (Cons j js)
  define s1 where "s1 = mark_processing_leased env j (append_change Leased j s)"
  obtain item db where p: "we_prepare env j (ws_db s1) = (item, db)" by fastforce
  define s2 where "s2 = with_jobs db s1"
  have start: "log_grows env s s2" using Cons.prems by (simp add: s1_def s2_def log_grows_def append_change_def) (simp add: allowed_change_def)
  have all: "prepare_all env (j # js) s = bindE (case item of
           Inl e \<Rightarrow> bindE (fail_leased env j e s2) (\<lambda>(r, s). Inr (([r], []), s))
         | Inr None \<Rightarrow> (let (r, s) = complete_leased env j s2 in Inr (([r], []), s))
         | Inr (Some p) \<Rightarrow> Inr (([], [p]), s2)) (\<lambda>((rs, ps), s).
         bindE (prepare_all env js s) (\<lambda>((rs', ps'), s). Inr ((rs @ rs', ps @ ps'), s)))" (is "_ = bindE ?first ?rest")
    unfolding prepare_all.simps Let_def s1_def [symmetric] p prod.case s2_def [symmetric] ..
  have first: "run_grows env s2 ?first"
    using complete_grows [of env s2 j] by (auto simp: split_beta fail_grows run_grows_then split: sum.split option.split)
  have "run_grows env s2 (bindE ?first ?rest)"
  proof (rule run_grows_bind [OF first])
    fix r s' assume "?first = Inr (r, s')"
    obtain rs ps where r: "r = (rs, ps)" by fastforce
    show "run_grows env s' (?rest (r, s'))"
      unfolding r prod.case using run_grows_then [OF Cons.IH, of s' "\<lambda>(rs', ps'). (rs @ rs', ps @ ps')"] Cons.prems
      by (simp add: case_prod_beta')
  qed
  then show ?case unfolding all by (rule run_grows_from [OF start])
qed simp

lemma run_leased_embeddings_grows:
  assumes "\<forall>j\<in>set js. \<not> consumes env (ej_type j)"
  shows "run_grows env s (run_leased_embeddings env js s)"
  unfolding run_leased_embeddings_def
  by (rule run_grows_bind [OF prepare_all_grows [OF assms]])
    (auto simp: case_prod_beta' intro!: run_grows_bind [OF role_batch_grows])

lemma chunks_grow: "\<forall>j\<in>set batch. \<not> consumes env (ej_type j) \<Longrightarrow> run_grows env s (run_chunks env t first batch s)"
proof (induction env t first batch s rule: run_chunks.induct)
  case (1 env t first batch s)
  show ?case
  proof (cases "batch = []")
    case True
    then show ?thesis by (simp add: run_chunks.simps)
  next
    case False
    obtain paused s1 where a: "(if first then (False, s) else ask_paused env s) = (paused, s1)" by fastforce
    have s1: "log_grows env s s1" using a by (cases first) (auto simp: ask_paused_def intro!: log_grows_same)
    have "run_grows env s1 (run_chunks env t first batch s)"
    proof (cases "paused \<and> consumes env t")
      case True
      then show ?thesis using False a by (subst run_chunks.simps) (simp add: give_back_grows)
    next
      case go: False
      have eq: "run_chunks env t first batch s = bindE (collect (run_leased env) (take 4 batch) s1) (\<lambda>(rs, s).
             bindE (run_chunks env t False (drop 4 batch) s) (\<lambda>(rs', s). Inr (rs @ rs', s)))"
        using False a go by (subst run_chunks.simps) (simp only: if_False Let_def prod.case)
      have sub: "\<forall>j\<in>set (drop 4 batch). \<not> consumes env (ej_type j)" "\<forall>j\<in>set (take 4 batch). \<not> consumes env (ej_type j)"
        using 1(2) by (auto dest: in_set_dropD in_set_takeD)
      show ?thesis
        unfolding eq
      proof (rule run_grows_bind, rule collect_grows, rule run_leased_grows, use sub(2) in blast, unfold prod.case, rule run_grows_then)
        fix rs s' show "run_grows env s' (run_chunks env t False (drop 4 batch) s')"
          by (rule 1(1) [OF False refl a [symmetric] go sub(1)])
      qed
    qed
    then show ?thesis by (rule run_grows_from [OF s1])
  qed
qed

lemma drain_grows:
  assumes "\<forall>n. we_paused env n"
  shows "run_grows env s (drain env queue s)"
proof (induction "length queue" arbitrary: queue s rule: less_induct)
  case less
  show ?case
  proof (cases "queue = []")
    case True
    then show ?thesis by (simp add: drain.simps)
  next
    case False
    obtain s1 where a: "ask_paused env s = (True, s1)" using assms by (simp add: ask_paused_def)
    define s2 where "s2 = give_back env (held_jobs env True queue) s1"
    have "log_grows env s s1" using a by (auto simp: ask_paused_def intro!: log_grows_same)
    then have s2: "log_grows env s s2" unfolding s2_def using give_back_grows log_grows_trans by blast
    let ?free = "free_jobs env True queue"
    have eq: "drain env queue s = (case ?free of [] \<Rightarrow> Inr ([], s2)
        | j # rest \<Rightarrow>
            if runs_in_parallel j
            then let t = ej_type j; batch = takeWhile (\<lambda>k. ej_type k = t) (j # rest); rest' = dropWhile (\<lambda>k. ej_type k = t) (j # rest);
                     (paused, s) = ask_paused env s2
                 in if paused \<and> consumes env t then drain env rest' (give_back env batch s)
                    else bindE (if t = ''embedding'' then run_leased_embeddings env batch s else run_chunks env t True batch s) (\<lambda>(rs, s).
                         bindE (drain env rest' s) (\<lambda>(rs', s). Inr (rs @ rs', s)))
            else bindE (run_leased env j s2) (\<lambda>(r, s). bindE (drain env rest s) (\<lambda>(rs, s). Inr (r # rs, s))))"
      unfolding drain.simps [of env queue s] if_not_P [OF False] a Let_def prod.case s2_def ..
    have free: "\<forall>j\<in>set ?free. \<not> consumes env (ej_type j)" by (simp add: free_jobs_def)
    have "run_grows env s2 (drain env queue s)"
    proof (cases ?free)
      case Nil
      then show ?thesis unfolding eq by simp
    next
      case (Cons j rest)
      have ok: "\<forall>k\<in>set (j # rest). \<not> consumes env (ej_type k)" using free unfolding Cons .
      show ?thesis
      proof (cases "runs_in_parallel j")
        case False
        have go: "drain env queue s = bindE (run_leased env j s2) (\<lambda>(r, s). bindE (drain env rest s) (\<lambda>(rs, s). Inr (r # rs, s)))"
          unfolding eq Cons list.case if_not_P [OF False] ..
        have "\<not> consumes env (ej_type j)" using ok by simp
        then show ?thesis
          unfolding go by (intro run_grows_bind [OF run_leased_grows], simp, unfold prod.case) (rule run_grows_then, rule less.hyps [OF free_jobs_less [OF Cons]])
      next
        case True
        let ?P = "\<lambda>k. ej_type k = ej_type j"
        let ?b = "takeWhile ?P (j # rest)" and ?r = "dropWhile ?P (j # rest)"
        obtain paused' s3 where a': "ask_paused env s2 = (paused', s3)" by fastforce
        have s3: "log_grows env s2 s3" using a' by (auto simp: ask_paused_def intro!: log_grows_same)
        have go: "drain env queue s = (if paused' \<and> consumes env (ej_type j) then drain env ?r (give_back env ?b s3)
            else bindE (if ej_type j = ''embedding'' then run_leased_embeddings env ?b s3 else run_chunks env (ej_type j) True ?b s3) (\<lambda>(rs, s).
                 bindE (drain env ?r s) (\<lambda>(rs', s). Inr (rs @ rs', s))))"
          unfolding eq Cons list.case if_P [OF True] Let_def a' prod.case ..
        have "\<not> (paused' \<and> consumes env (ej_type j))" using ok by simp
        note go' = go [unfolded if_not_P [OF this]]
        have b: "\<forall>k\<in>set ?b. \<not> consumes env (ej_type k)" using ok by (metis set_takeWhileD)
        have part: "run_grows env s3 (if ej_type j = ''embedding'' then run_leased_embeddings env ?b s3 else run_chunks env (ej_type j) True ?b s3)"
          using run_leased_embeddings_grows [OF b] chunks_grow [OF b] by presburger
        have "run_grows env s3 (drain env queue s)"
          unfolding go'
          by (rule run_grows_bind [OF part], unfold prod.case) (rule run_grows_then, rule less.hyps [OF free_jobs_drop [OF Cons]])
        then show ?thesis by (rule run_grows_from [OF s3])
      qed
    qed
    then show ?thesis by (rule run_grows_from [OF s2])
  qed
qed

section \<open>A run\<close>

lemma before_lease_grows: "log_grows env s (before_lease env rq s)"
proof -
  let ?n = "normalized_limit (rq_limit rq)"
  obtain b s0 where p: "(if rq_targets rq = None \<and> we_summary_configured env then (let (paused, s) = ask_paused env s in (\<not> paused, s)) else (False, s)) = (b, s0)"
    by fastforce
  have s0: "ws_changes s0 = ws_changes s" using p by (auto simp: ask_paused_def split: if_splits)
  define s1 where "s1 = (if b then (let (now, s) = read_now env s0 in with_jobs (we_backfill env (min ?n 100) now (ws_db s)) s) else s0)"
  have s1: "ws_changes s1 = ws_changes s0" by (simp add: s1_def read_now_def with_jobs_def)
  obtain now s2 where r: "read_now env s1 = (now, s2)" by fastforce
  have s2: "ws_changes s2 = ws_changes s1" using r by (auto simp: read_now_def)
  obtain pairs db where q: "requeue_failed ?n now (rq_targets rq) (ws_db s2) = (pairs, db)" by fastforce
  obtain now' s3 where r': "read_now env (changes_queued pairs (with_jobs db s2)) = (now', s3)" by fastforce
  have s3: "ws_changes s3 = ws_changes (changes_queued pairs (with_jobs db s2))" using r' by (auto simp: read_now_def)
  have eq: "before_lease env rq s = with_jobs (we_refresh env (we_summary_configured env) now' (ws_db s3)) s3"
    unfolding before_lease_def Let_def p [unfolded Let_def] prod.case s1_def [unfolded Let_def, symmetric] r q r' ..
  have "log_grows env (with_jobs db s2) (changes_queued pairs (with_jobs db s2))" unfolding changes_queued_def by (rule fold_grows) simp
  then show ?thesis using s0 s1 s2 s3 by (simp add: eq log_grows_def)
qed

lemma lease_for_run_grows: "log_grows env s (snd (lease_for_run env rq s))"
proof -
  obtain paused s1 where a: "ask_paused env s = (paused, s1)" by fastforce
  define s2 where "s2 = (if paused then (let (now, s) = read_now env s1; (pairs, db) = requeue_expired_except (allowed_job_types (we_sources env)) now (ws_db s)
                in changes_queued pairs (with_jobs db s)) else s1)"
  have s1: "log_grows env s s1" using a by (auto simp: ask_paused_def intro!: log_grows_same)
  have s2: "log_grows env s1 s2"
  proof (cases paused)
    case True
    obtain now s' where r: "read_now env s1 = (now, s')" by fastforce
    obtain pairs db where q: "requeue_expired_except (allowed_job_types (we_sources env)) now (ws_db s') = (pairs, db)" by fastforce
    have "log_grows env s1 (with_jobs db s')" using r by (auto simp: read_now_def intro!: log_grows_same)
    moreover have "log_grows env (with_jobs db s') (changes_queued pairs (with_jobs db s'))" unfolding changes_queued_def by (rule fold_grows) simp
    ultimately have "log_grows env s1 (changes_queued pairs (with_jobs db s'))" by (rule log_grows_trans)
    then show ?thesis using True r q by (simp add: s2_def)
  qed (simp add: s2_def)
  have "ws_changes (snd (lease_for_run env rq s)) = ws_changes s2"
    unfolding lease_for_run_def Let_def a prod.case s2_def [unfolded Let_def, symmetric]
    by (simp add: case_prod_beta read_now_def with_jobs_def)
  then show ?thesis using log_grows_trans [OF s1 s2] by (simp add: log_grows_def)
qed

text \<open>
  C17: While the token budget is paused, a run of the worker starts no job whose model calls the budget counts: every start that
  it appends to the log of changes is of a type that uses no budgeted model.
\<close>

theorem paused_worker_spends_nothing:
  assumes "\<forall>n. we_paused env n" and "run_worker_jobs env rq s = Inr (res, s')"
  shows "\<forall>j. (Leased, j) \<in> set (ws_changes s') \<longrightarrow> (Leased, j) \<in> set (ws_changes s) \<or> \<not> job_type_consumes (ej_type j) (we_sources env)"
proof -
  obtain jobs s1 where l: "lease_for_run env rq (before_lease env rq s) = (jobs, s1)" by fastforce
  have "log_grows env s (before_lease env rq s)" by (rule before_lease_grows)
  moreover have "log_grows env (before_lease env rq s) s1" using lease_for_run_grows [of env "before_lease env rq s" rq] l by simp
  ultimately have s1: "log_grows env s s1" by (rule log_grows_trans)
  have "run_grows env s (run_worker_jobs env rq s)"
    unfolding run_worker_jobs_def Let_def l prod.case
    by (rule run_grows_from [OF s1 run_grows_then [OF drain_grows [OF assms(1)]]])
  then have "log_grows env s s'" using assms(2) by (simp add: run_grows_def)
  then show ?thesis unfolding log_grows_def allowed_change_def consumes_def by fastforce
qed

end
