(* ===== verification/Job_Example.thy ===== *)
theory Job_Example
  imports Job_Worker_Facts Job_Worker_Budget
begin

text \<open>
  A small queue: the theorems on jobs, retries and the worker at concrete inputs, and runs that show where the code does not
  do what it promises.
\<close>

section \<open>A queue\<close>

definition ex_job :: "string \<Rightarrow> string \<Rightarrow> evolution_job" where
  "ex_job i t = \<lparr>ej_id = i, ej_type = t, ej_status = JQueued, ej_dedupe = None, ej_user = ''u'', ej_session = None, ej_episode = None,
     ej_target = None, ej_scope = None, ej_seq = None, ej_payload = [], ej_attempts = 0, ej_max = 3, ej_leased_until = None,
     ej_error = None, ej_created = ''1'', ej_updated = ''1''\<rparr>"

definition ex_scoped :: "string \<Rightarrow> int \<Rightarrow> evolution_job" where
  "ex_scoped i n = (ex_job i ''work_memory_extract'')\<lparr>ej_scope := Some ''s'', ej_seq := Some n\<rparr>"

definition ex_db :: "evolution_job list \<Rightarrow> job_db" where
  "ex_db js = \<lparr>jd_jobs = js, jd_retries = [], jd_processing = [], jd_memories = (\<lambda>_. None), jd_targets = [], jd_batches = [], jd_environments = []\<rparr>"

definition ex_jobs :: "evolution_job list" where
  "ex_jobs = [ex_scoped ''b'' 2, ex_scoped ''a'' 1, ex_job ''t'' ''episode_title'', (ex_job ''r'' ''reward'')\<lparr>ej_payload := [(''runAfter'', JStr ''9'')]\<rparr>]"

definition ex_request :: "nat \<Rightarrow> lease_request" where
  "ex_request n = \<lparr>lr_limit = n, lr_targets = None, lr_cohort = False, lr_allowed = None, lr_excluded = []\<rparr>"

lemma ex_jobs_ok: "jobs_ok (jd_jobs (ex_db ex_jobs))"
  by code_simp

abbreviation ex_lease :: "nat \<Rightarrow> evolution_job list \<times> job_db" where
  "ex_lease n \<equiv> lease_jobs (\<lambda>_. []) ''5'' ''6'' (ex_request n) (ex_db ex_jobs)"


theorem lease_spec_witness: "map ej_id (fst (ex_lease 4)) = [''t'', ''a''] \<and> length (fst (ex_lease 4)) \<le> 4"
proof -
  have "map ej_id (fst (ex_lease 4)) = [''t'', ''a'']" by code_simp
  then show ?thesis using lease_spec [OF ex_jobs_ok prod.collapse [symmetric], of "\<lambda>_. []" "''5''" "''6''" "ex_request 4"] by (simp add: ex_request_def)
qed


theorem no_double_lease_witness:
  "ej_id ` set (fst (ex_lease 4)) \<inter> ej_id ` set (fst (lease_jobs (\<lambda>_. []) ''5'' ''7'' (ex_request 4) (snd (ex_lease 4)))) = {}"
proof -
  have ok: "jobs_ok (jd_jobs (snd (ex_lease 4)))" by (rule jobs_ok_lease [OF ex_jobs_ok])
  have "list_all (\<lambda>r. list_ex (\<lambda>j. ej_id j = ej_id r \<and> ej_status j = JLeased \<and> ej_leased_until j = ej_leased_until r) (jd_jobs (snd (ex_lease 4))))
      (fst (ex_lease 4))" by code_simp
  then have held: "\<forall>r\<in>set (fst (ex_lease 4)). \<exists>j\<in>set (jd_jobs (snd (ex_lease 4))).
      ej_id j = ej_id r \<and> ej_status j = JLeased \<and> ej_leased_until j = ej_leased_until r"
    by (simp add: list_all_iff list_ex_iff)
  have "(''5'' :: string) < ''6''" by code_simp
  then show ?thesis
    using no_double_lease [OF ex_jobs_ok prod.collapse [symmetric] ok held prod.collapse [symmetric]] by simp
qed


definition ex_keyed :: "string \<Rightarrow> evolution_job" where
  "ex_keyed i = (ex_job i ''reward'')\<lparr>ej_dedupe := Some ''k'', ej_payload := [(''trigger'', JStr i)]\<rparr>"


definition ex_update :: evolution_job where
  "ex_update = (ex_job ''l'' ''l3_world_model_update'')\<lparr>ej_status := JLeased, ej_attempts := 3, ej_leased_until := Some ''6'',
     ej_payload := [(''batchId'', JStr ''b1''), (''targetField'', JStr ''domain_knowledge'')]\<rparr>"

definition ex_target :: "string \<Rightarrow> string \<Rightarrow> batch_target" where
  "ex_target f s = \<lparr>bt_batch = ''b1'', bt_field = f, bt_status = s, bt_no_change = 0, bt_applied_at = None, bt_updated = ''1''\<rparr>"

definition ex_world :: job_db where
  "ex_world = (ex_db [ex_update])\<lparr>jd_targets := [ex_target ''domain_knowledge'' ''queued'', ex_target ''project_contract'' ''applied''],
     jd_batches := [\<lparr>eb_id = ''b1'', eb_outcome = None, eb_completed = None, eb_updated = ''1''\<rparr>]\<rparr>"

theorem fail_spec_witness:
  "\<exists>r db'. fail_job ''l'' ''boom'' ''7'' False ex_world = Inr (Some r, db') \<and> ej_status r = JDeadLetter
     \<and> map eb_outcome (jd_batches db') = [Some ''partial_dead_letter'']"
proof -
  have ok: "jobs_ok (jd_jobs ex_world)" by code_simp
  have row: "ex_update \<in> set (jd_jobs ex_world)" "ej_status ex_update = JLeased" by (simp_all add: ex_world_def ex_db_def ex_update_def)
  obtain r db' where f: "fail_job (ej_id ex_update) ''boom'' ''7'' False ex_world = Inr (Some r, db')"
    "r = ex_update\<lparr>ej_status := (if False \<or> ej_attempts ex_update = ej_max ex_update then JDeadLetter else JFailed),
              ej_leased_until := None, ej_error := Some ''boom'', ej_updated := ''7''\<rparr>"
    "\<forall>b f. ej_status r = JDeadLetter \<and> ej_type ex_update = ''l3_world_model_update''
          \<and> map_of (ej_payload ex_update) ''batchId'' = Some (JStr b) \<and> b \<noteq> [] \<and> map_of (ej_payload ex_update) ''targetField'' = Some (JStr f)
          \<and> f \<in> {''general_rules_and_safety_constraints'', ''project_contract'', ''domain_knowledge''}
          \<and> (\<exists>t\<in>set (jd_targets ex_world). bt_batch t = b \<and> bt_field t = f \<and> bt_status t = ''queued'') \<longrightarrow>
        jd_targets db' = map (\<lambda>t. if bt_batch t = b \<and> bt_field t = f \<and> bt_status t = ''queued''
           then t\<lparr>bt_status := ''dead_letter'', bt_no_change := 0, bt_applied_at := None, bt_updated := ''7''\<rparr> else t) (jd_targets ex_world)
        \<and> jd_batches db' = (if \<exists>t\<in>set (jd_targets db'). bt_batch t = b \<and> bt_status t = ''queued'' then jd_batches ex_world
           else map (\<lambda>x. if eb_id x = b then x\<lparr>eb_outcome := Some (if \<exists>t\<in>set (jd_targets db'). bt_batch t = b \<and> bt_status t = ''applied''
               then ''partial_dead_letter'' else ''dead_letter''), eb_completed := Some ''7'', eb_updated := ''7''\<rparr> else x) (jd_batches ex_world))"
    using fail_spec [OF ok row, of "''boom''" "''7''" False] by blast
  have dead: "ej_status r = JDeadLetter" using f(2) by (simp add: ex_update_def ex_job_def)
  have "map eb_outcome (jd_batches db') = [Some ''partial_dead_letter'']"
    using f(3) [THEN spec, of "''b1''", THEN spec, of "''domain_knowledge''"] dead by (simp add: ex_world_def ex_db_def ex_update_def ex_job_def ex_target_def)
  then show ?thesis using f(1) dead by (simp add: ex_update_def ex_job_def)
qed

text \<open>A worker whose lease was taken over fails a job that has succeeded: the job is queued for another run.\<close>

lemma stale_failure_revives:
  "(case fail_job ''t'' ''late'' ''7'' False (snd (complete_job ''t'' ''6'' (snd (ex_lease 4)))) of
      Inr (Some j, _) \<Rightarrow> ej_status j | _ \<Rightarrow> JSucceeded) = JFailed"
  by code_simp

text \<open>The memory of a turn has no algorithm in its properties: its embedding does not get the rank of an interactive turn.\<close>

definition ex_memory :: "string option \<Rightarrow> memory_view" where
  "ex_memory a = \<lparr>mv_created = ''1'', mv_layer = ''L1'', mv_agent = None, mv_tags = [], mv_algorithm = a, mv_summary_vector = False,
     mv_hash = None, mv_generation = None, mv_skill_generation = None, mv_observation = False\<rparr>"

lemma unknown_algorithm_loses_rank:
  "job_priority ((ex_db [])\<lparr>jd_memories := (\<lambda>_. Some (ex_memory None))\<rparr>) ((ex_job ''e'' ''embedding'')\<lparr>ej_target := Some ''m''\<rparr>) = 3"
  "job_priority ((ex_db [])\<lparr>jd_memories := (\<lambda>_. Some (ex_memory (Some ''x'')))\<rparr>) ((ex_job ''e'' ''embedding'')\<lparr>ej_target := Some ''m''\<rparr>) = 1"
  by code_simp+

section \<open>Retries\<close>

definition ex_retry :: embedding_retry where
  "ex_retry = new_retry ''q'' ''trace'' ''m'' ''vec_summary'' ''text'' None None 10"

definition ex_retries :: job_db where
  "ex_retries = (ex_db [])\<lparr>jd_retries := [ex_retry]\<rparr>"

abbreviation ex_claim :: "embedding_retry list \<times> job_db" where
  "ex_claim \<equiv> claim_due_retries 20 ''w1'' 100 None None ex_retries"

theorem retry_claims_exclusive_witness:
  "map rt_id (fst ex_claim) = [''q''] \<and> rt_id ` set (fst ex_claim) \<inter> rt_id ` set (fst (claim_due_retries 30 ''w2'' 200 None None (snd ex_claim))) = {}"
proof -
  have "distinct (map rt_id (jd_retries ex_retries))" by code_simp
  from retry_claims_exclusive [OF this prod.collapse [symmetric]]
  have "30 < (100 :: int) \<longrightarrow> rt_id ` set (fst ex_claim) \<inter> rt_id ` set (fst (claim_due_retries 30 ''w2'' 200 None None (snd ex_claim))) = {}"
    by (metis prod.collapse)
  moreover have "map rt_id (fst ex_claim) = [''q'']" by code_simp
  ultimately show ?thesis by simp
qed

definition ex_claimed :: embedding_retry where
  "ex_claimed = claimed_retry 20 ''w1'' 100 ex_retry"

theorem retry_failure_spec_witness:
  "map rt_next (snd (fail_claimed_retry ex_claimed ''w1'' 100 (rt_attempts ex_claimed + 1) True ''e'' 25 [ex_claimed])) = [60025]"
proof -
  have "distinct (map rt_id [ex_claimed])" "ex_claimed \<in> set [ex_claimed]" "rt_status ex_claimed = RInProgress" by (simp_all add: ex_claimed_def)
  from retry_failure_spec [OF this prod.collapse [symmetric], of "''w1''" 100 True "''e''" 25] show ?thesis
    by (auto simp: ex_claimed_def claimed_retry_def ex_retry_def new_retry_def)
qed

theorem retries_restart_witness:
  "map rt_status (snd (requeue_retries_after_restart 50 [ex_claimed])) = [RPending]"
proof -
  have "distinct (map rt_id [ex_claimed])" by simp
  from retries_restart [OF this, of 50] show ?thesis by (simp add: ex_claimed_def)
qed

section \<open>The worker\<close>

definition ex_env :: "bool \<Rightarrow> worker_env" where
  "ex_env paused = \<lparr>we_paused = (\<lambda>_. paused), we_clock = (\<lambda>_. ''5''), we_later = (\<lambda>_ _. ''6''), we_sources = None, we_summary_configured = True,
     we_sql = (\<lambda>_. []), we_process = (\<lambda>j db. (if ej_type j = ''reward'' then DependenciesPending else JobDone, db)),
     we_prepare = (\<lambda>j db. (Inr None, db)), we_embed = (\<lambda>_ _ _. Inr []), we_apply = (\<lambda>_ _ db. (None, db)), we_retry_later = (\<lambda>_ _ db. (True, db)),
     we_backfill = (\<lambda>_ _ db. db), we_refresh = (\<lambda>_ _ db. db)\<rparr>"

definition ex_state :: worker_state where
  "ex_state = \<lparr>ws_db = ex_db ex_jobs, ws_tick = 0, ws_changes = []\<rparr>"

abbreviation ex_run :: run_request where
  "ex_run \<equiv> \<lparr>rq_limit = 10, rq_targets = None, rq_cohort = False\<rparr>"


theorem paused_worker_spends_nothing_witness:
  "case run_worker_jobs (ex_env True) ex_run ex_state of
     Inl _ \<Rightarrow> False
   | Inr (_, s') \<Rightarrow> \<forall>j. (Leased, j) \<in> set (ws_changes s') \<longrightarrow> \<not> job_type_consumes (ej_type j) None"
proof -
  have "isl (run_worker_jobs (ex_env True) ex_run ex_state) = False" by code_simp
  then obtain p where p: "run_worker_jobs (ex_env True) ex_run ex_state = Inr p" by (cases "run_worker_jobs (ex_env True) ex_run ex_state") auto
  obtain r s' where rs: "p = (r, s')" by fastforce
  have "\<forall>n. we_paused (ex_env True) n" by (simp add: ex_env_def)
  from paused_worker_spends_nothing [OF this p [unfolded rs]]
  have "\<forall>j. (Leased, j) \<in> set (ws_changes s') \<longrightarrow> \<not> job_type_consumes (ej_type j) None" by (simp add: ex_env_def ex_state_def)
  then show ?thesis unfolding p rs by simp
qed

end
