(* ===== verification/Spec2Isabelle.thy ===== *)
theory Spec2Isabelle
  imports Dag_Queue_Example Session_Example Goal_Example Session_History_Example Patch_Example Cron_Example
    Source_Example Job_Example
begin

text \<open>
  A model of the core of the memmy agent (\<^verbatim>\<open>src/App/memmy-agent/src\<close>): the task graph of a session
  (the session DAG), the long-running Goal of a session and its checklist, the history of a session
  that models are shown, the tool that edits files by patches, and the scheduler of timed jobs; and of its
  memory service (\<^verbatim>\<open>src/Memory\<close>, \<^verbatim>\<open>src/AgentSourceCore\<close>): the queue of background jobs with its worker, the token
  budget that holds the worker back, and the turns that readers of native sessions hand to the service.

  \<^bold>\<open>The program.\<close> The agent runs turns of a conversation. After each saved turn the queue of the
  session (\<^verbatim>\<open>session-dag/queue.ts\<close>) lets the builder (\<^verbatim>\<open>builder.ts\<close>) ask a language model for a patch
  of the task graph. The patch is validated and normalised (\<^verbatim>\<open>patch-schema.ts\<close>) and committed in one
  SQLite transaction (\<^verbatim>\<open>store.ts\<close>), or a deterministic patch is committed in its place. Beside it the
  runtime of the Goal (\<^verbatim>\<open>core/agent-runtime/goal-runtime.ts\<close>) keeps a Goal, its budget, the inbox of
  messages for it and its control requests, and the checklist (\<^verbatim>\<open>core/session/task-plan-state.ts\<close>,
  \<^verbatim>\<open>core/agent-runtime/task-plan-runtime.ts\<close>) the plan of the turn; both live in the metadata of the
  session. The Goal of a turn reaches the graph in the columns \<^verbatim>\<open>goal_*\<close> of its row.

  The memory service is a process of its own. Readers of native sessions (\<^verbatim>\<open>AgentSourceCore/src/source-turn.ts\<close>)
  redact secrets (\<^verbatim>\<open>secret-redactor.ts\<close>), stage a turn on its messages and submit it. The service writes jobs
  into the table \<^verbatim>\<open>evolution_jobs\<close> (\<^verbatim>\<open>Memory/src/storage/repositories.ts\<close>); its worker
  (\<^verbatim>\<open>Memory/src/service/worker/worker-runner.ts\<close>) leases them, runs them through their handlers, and completes,
  fails or defers them, unless the usage that the ledger has counted
  (\<^verbatim>\<open>Memory/src/service/memory-token-budget-ledger.ts\<close>) has paused the jobs that cost tokens.

  \<^bold>\<open>The theories.\<close>
  \<^item> \<^verbatim>\<open>Prelude\<close>: results with errors, loops that stop at the first error, stable sorting, lists with keys.
    \<^verbatim>\<open>Js_Values\<close>: JSON values, objects as association lists in insertion order, numbers, trimming,
    texts. \<^verbatim>\<open>Js_Date\<close>: the texts of \<^verbatim>\<open>toISOString\<close>, and that they parse to the time they print.
    \<^verbatim>\<open>Reach\<close>: the breadth-first loops, proved to compute reachability. \<^verbatim>\<open>Js_Regex\<close>: the regular
    expressions of the source as terms with a backtracking matcher, replacement and splitting.
  \<^item> \<^verbatim>\<open>Dag_Types\<close> (\<^verbatim>\<open>types.ts\<close>, \<^verbatim>\<open>importance.ts\<close>): rows, contexts, patches. \<^verbatim>\<open>Dag_Patch\<close>, \<^verbatim>\<open>Dag_Validate\<close>,
    \<^verbatim>\<open>Dag_Normalize\<close> (\<^verbatim>\<open>patch-schema.ts\<close>): from a JSON value to a well-formed patch, and the rewriting of a
    task switch; every \<^verbatim>\<open>throw\<close> is an error value.
  \<^item> \<^verbatim>\<open>Dag_Graph\<close> (the pure functions of \<^verbatim>\<open>store.ts\<close>): root task and active path. \<^verbatim>\<open>Dag_Store\<close>: the tables as
    lists of rows, the single operations, and the invariant \<^verbatim>\<open>store_ok\<close>. \<^verbatim>\<open>Dag_Apply\<close>: \<^verbatim>\<open>applyPatch\<close> with
    all its checks. \<^verbatim>\<open>Dag_Reads\<close>: claiming of turns and the context of the builder. \<^verbatim>\<open>Dag_Repair\<close>: the one
    time repair of old stores.
  \<^item> \<^verbatim>\<open>Dag_Builder\<close> (\<^verbatim>\<open>builder.ts\<close>): the messages of a turn, the answer, the deterministic patch.
    \<^verbatim>\<open>Dag_Queue\<close> (\<^verbatim>\<open>queue.ts\<close>): the events of a queue as functions of its state, the relation of their
    interleavings, and the slots that all workers share. The queue relies on the builder only through
    the locale \<^verbatim>\<open>turn_builder\<close>, interpreted on the builder of the model. \<^verbatim>\<open>Dag_Snapshot\<close> (\<^verbatim>\<open>snapshot.ts\<close>):
    the part of the graph that goes into the system prompt.
  \<^item> \<^verbatim>\<open>Session_Text\<close> (\<^verbatim>\<open>utils/helpers.ts\<close>): the cleaning of replayed texts. \<^verbatim>\<open>Session_History\<close>
    (\<^verbatim>\<open>core/session/manager.ts\<close>, the class \<^verbatim>\<open>Session\<close>): the history a model is shown, its limits, and
    the cap of the session file.
  \<^item> \<^verbatim>\<open>Patch_Envelope\<close>, \<^verbatim>\<open>Patch_Scan\<close> (\<^verbatim>\<open>core/agent-runtime/tools/patch-envelope.ts\<close>): the patch language,
    its parser and its progress scanner. \<^verbatim>\<open>Patch_Hunks\<close>, \<^verbatim>\<open>Patch_Apply\<close> (\<^verbatim>\<open>tools/apply-patch.ts\<close>): placing and
    replacing hunks; planning, making, verifying and rolling back the changes in a file system whose
    calls may fail.
  \<^item> \<^verbatim>\<open>Cron_Types\<close> (\<^verbatim>\<open>cron/types.ts\<close>): jobs, their JSON form, and their next run. \<^verbatim>\<open>Cron_Service\<close>,
    \<^verbatim>\<open>Cron_Operations\<close>, \<^verbatim>\<open>Cron_Jobs\<close> (\<^verbatim>\<open>cron/service.ts\<close>): the store file and the log of actions, jobs as
    objects in a heap that a run and an edit share, the timer, every operation as a step between two
    awaits, and what holds in all their interleavings.
  \<^item> \<^verbatim>\<open>Session_State\<close>, \<^verbatim>\<open>Goal_State\<close> (\<^verbatim>\<open>core/session/goal-state.ts\<close>): what the metadata of a session hold, and
    the stored Goal. \<^verbatim>\<open>Task_Plan\<close>: the checklist, its operations and the bounded correction of a
    premature hand-off (\<^verbatim>\<open>task-plan-continuation.ts\<close>).
  \<^item> \<^verbatim>\<open>Goal_Inbox\<close>, \<^verbatim>\<open>Goal_Runtime\<close>, \<^verbatim>\<open>Goal_Life\<close> (\<^verbatim>\<open>goal-runtime.ts\<close>): the inbox and the transfers out of it;
    the operations on the Goal, settlement, leases, control requests, effects, deletion; and what any
    run of them guarantees.
  \<^item> \<^verbatim>\<open>Memory_Budget\<close> (\<^verbatim>\<open>memory-token-budget.ts\<close>, \<^verbatim>\<open>memory-token-budget-ledger.ts\<close>): which jobs cost tokens, when
    usage pauses them, and the ledger as an implementation of a meter that sums the usage of days.
    \<^verbatim>\<open>Secret_Redactor\<close> (\<^verbatim>\<open>secret-redactor.ts\<close>): the rules and the scan for base64 text. \<^verbatim>\<open>Source_Turn\<close>,
    \<^verbatim>\<open>Source_Turn_Facts\<close> (\<^verbatim>\<open>source-turn.ts\<close>, \<^verbatim>\<open>Memory/src/utils/tool-call-pairing.ts\<close>,
    \<^verbatim>\<open>Memory/agent-contract/episode-status.ts\<close>): staging and choice of a turn, and the pairing of tool calls
    with results, which both sides do on their own.
  \<^item> \<^verbatim>\<open>Job_Store\<close> (\<^verbatim>\<open>repositories.ts\<close>, constraints of \<^verbatim>\<open>schema.ts\<close>): the rows, the order of the queue, adding a
    job. \<^verbatim>\<open>Job_Lease\<close>: leasing, completing, failing, deferring and giving back. \<^verbatim>\<open>Job_Facts\<close>: the invariant
    \<^verbatim>\<open>jobs_ok\<close> and that each operation keeps it. \<^verbatim>\<open>Job_Queue\<close>: the relation of all interleavings of these operations.
    \<^verbatim>\<open>Job_Retry\<close>: the queue of embeddings to try again, the states of processing, the time of the next run.
    \<^verbatim>\<open>Job_Worker\<close> (\<^verbatim>\<open>worker-runner.ts\<close>): a run of the worker over leased jobs, its batches and its budget.
    \<^verbatim>\<open>Job_Worker_Facts\<close>, \<^verbatim>\<open>Job_Worker_Budget\<close>: what a run does to leases, and what a paused one starts.
  \<^item> \<^verbatim>\<open>Dag_Example\<close>, \<^verbatim>\<open>Dag_Queue_Example\<close>, \<^verbatim>\<open>Session_Example\<close>, \<^verbatim>\<open>Goal_Example\<close>,
    \<^verbatim>\<open>Session_History_Example\<close>, \<^verbatim>\<open>Patch_Example\<close>, \<^verbatim>\<open>Cron_Example\<close>,
    \<^verbatim>\<open>Source_Example\<close>, \<^verbatim>\<open>Job_Example\<close>: the theorems at concrete inputs, and closed examples of
    behaviours that may surprise.

  \<^bold>\<open>What is proved.\<close> Of the graph: an accepted patch is well-formed; normalisation is idempotent and
  leaves exactly one transition edge; a commit keeps the tables consistent, acyclic and without loss,
  leaves at most one open task, and every child reachable; the active path is a walk to the first
  reachable frontier node. Of builder and queue: an answer of the model changes nothing it was not
  shown; the deterministic patch commits for ordinary turns; the queue strands no turn, its worker
  ends. Of the Goal: each operation refines an abstract lifecycle; a turn is settled once; the
  lifecycle lock is exclusive and given back; no message of the inbox is lost or delivered twice;
  deletion silences the session. Of the checklist: every reachable checklist is valid. Of the
  history: no tool result is shown without its call, limits and budgets are kept, the cap of the file
  loses nothing while a recent message is from the user. Of patches: the parser accepts only safe
  and consistent patches, the scanner reports what the parser reads, hunks are replaced in place, the
  counts are those of a longest common subsequence, paths stay in the workspace, a failed patch
  restores every file and an answered one has been made. Of the scheduler: a running service always
  has its timer, a callback or a continuation; the end of a run never overrides an edit made during
  it; intervals skip what was missed; system jobs are protected; the store file reads back. Of the
  budget: the ledger counts what a meter would, jobs are paused exactly at the limits. Of source
  turns: only a complete turn, without conflict, is chosen; the scan redacts exactly the secrets;
  readers and service pair tool calls alike. Of jobs: in any order of operations, active jobs have
  different deduplication keys and one scope has one lease; leases go to the first jobs of the queue
  whose predecessors have ended; a restart recovers every job; a job ends as a dead letter when its
  attempts are used up; retries are claimed by one worker at a time; the worker returns with no
  lease of its own left, and starts nothing that a paused budget forbids.

  \<^bold>\<open>Modelling decisions.\<close> Strings are lists of code units below 256; times are integers of
  milliseconds in the graph, where the source compares their ISO texts, and ISO texts in the
  metadata. Clock readings, new ids, the answer of the model, the JSON parser, the printing of
  numbers and the callback that cancels tasks are arguments. A table is a list of rows, a
  transaction returns the new store or an error and then nothing changes, as after a rollback. An
  operation under the mutex of the session is one function of the session's state; what the source
  awaits between two mutations is a boundary between two functions, and the theorems on runs let
  any operations interleave there. \<^verbatim>\<open>localeCompare\<close> is the order of code units. Maps with the session
  key as key are fields of one state per session. A file system is a map from absolute paths (lists
  of segments) to nodes on a POSIX system; each call that can fail, each check of the abort signal and
  the fatal decoding of UTF-8 is a field of the environment, so the theorems hold for all of them.

  In the memory service times of jobs are their ISO texts, compared as texts as SQLite does, and those of
  retries are numbers. A condition of SQL that can be \<^verbatim>\<open>NULL\<close> is an optional truth value, and a row is chosen
  when it is \<^verbatim>\<open>Some True\<close>. Of the table of memories the queries of the queue read one view, which is part of the
  state. The clock and the budget of the worker are functions of a tick that every reading advances, so
  they may change between any two readings; the handlers, the embedder and the classification of
  errors are functions of the environment that may change the state, and what the worker starts in
  parallel runs in order.

  \<^bold>\<open>Bounds and termination.\<close> All functions are total. The breadth-first loops are functions with a
  measure (the nodes not yet seen), the loops of the worker with the jobs that are left to run. No fuel
  is used: the loop of the queue's worker, whose length depends on the answers, is a relation whose
  runs are proved to be short.

  \<^bold>\<open>Not modelled.\<close> Processes, the network and SQLite itself; the text of the request to the
  model, usage and debug records of the builder; the regular expression that recognises a hand-off;
  the lock file and the cron expressions of the scheduler, the linting of edited files. The files of
  sessions (the rest of \<^verbatim>\<open>manager.ts\<close>) are reading and writing of JSON lines with little logic that the
  class \<^verbatim>\<open>Session\<close> does not have. Of the worker of the memory service the reconciliation at start and the run of
  the retries are loops over the queries modelled here around calls of the embedder; its handlers
  send texts to a language model and store what it answers. The algorithms of retrieval and of reward
  compute with floating point numbers over embeddings and answers of models, for which there is no
  contract to prove beyond their formulas. The agent loop, channels, providers, the local backend and the
  frontend are orchestration of third-party interfaces and of the user interface.
\<close>

end
